(* ===== verification/QPrelude.thy ===== *)
theory QPrelude
  imports Main "HOL-Library.Word" "HOL-Library.Monad_Syntax" "HOL-Library.Multiset"
begin

text \<open>
  What every other theory shares: the names of the C integer types, memory accesses that can
  leave their object (\<open>None\<close> is an access outside the object, which is undefined behaviour
  in C), and generic facts on bits, lists and maps that the component theories use.
\<close>

unbundle bit_operations_syntax

section \<open>C integer types\<close>

type_synonym u8 = "8 word"
type_synonym u16 = "16 word"
type_synonym u32 = "32 word"
type_synonym u64 = "64 word"

named_theorems bytes \<comment> \<open>bit-field facts that turn shifts and masks into arithmetic\<close>
named_theorems mem \<comment> \<open>facts on reads and writes inside an object\<close>

section \<open>Memory accesses\<close>

definition rd :: "'a list \<Rightarrow> nat \<Rightarrow> 'a option" where
  "rd b i = (if i < length b then Some (b ! i) else None)"

definition wr :: "'a list \<Rightarrow> nat \<Rightarrow> 'a \<Rightarrow> 'a list option" where
  "wr b i x = (if i < length b then Some (b[i := x]) else None)"

lemma rd_in [simp, mem]: "i < length b \<Longrightarrow> rd b i = Some (b ! i)"
  by (simp add: rd_def)

lemma rd_out [simp, mem]: "length b \<le> i \<Longrightarrow> rd b i = None"
  by (simp add: rd_def)

lemma rd_Some_iff: "rd b i = Some x \<longleftrightarrow> i < length b \<and> b ! i = x"
  by (auto simp: rd_def)

lemma rd_append: "rd (xs @ ys) i = (if i < length xs then rd xs i else rd ys (i - length xs))"
  by (auto simp: rd_def nth_append)

lemma rd_append_offset [simp]: "rd (xs @ ys) (length xs + i) = rd ys i"
  by (simp add: rd_append)

lemma wr_in [simp, mem]: "i < length b \<Longrightarrow> wr b i x = Some (b[i := x])"
  by (simp add: wr_def)

lemma wr_Some_length: "wr b i x = Some b' \<Longrightarrow> length b' = length b"
  by (auto simp: wr_def split: if_splits)

lemma wr_Some_iff: "wr b i x = Some b' \<longleftrightarrow> i < length b \<and> b' = b[i := x]"
  by (auto simp: wr_def)

section \<open>Bit fields as arithmetic\<close>

lemma or_disjoint_int:
  fixes x y :: int
  assumes "0 \<le> y" and "y < 2 ^ n"
  shows "push_bit n x OR y = x * 2 ^ n + y"
proof -
  have "take_bit n y = y"
    using assms by (simp add: take_bit_int_eq_self)
  then show ?thesis
    using concat_bit_eq [of n y x] by (simp add: concat_bit_def push_bit_eq_mult or.commute)
qed

lemma and_mask_int: "(x :: int) AND (2 ^ n - 1) = x mod 2 ^ n"
  by (simp add: take_bit_eq_mod flip: mask_eq_exp_minus_1 take_bit_eq_mask)

lemma and_3f_int [bytes]: "(x :: int) AND 63 = x mod 64"
  using and_mask_int [of x 6] by simp

lemma or_const_int:
  fixes x :: int
  assumes "0 \<le> x" and "x < 2 ^ n" and "k = push_bit n h"
  shows "x OR k = x + k"
  using or_disjoint_int [of x n h] assms by (simp add: or.commute push_bit_eq_mult)

lemma or_80_int [bytes]: "0 \<le> x \<Longrightarrow> x < 64 \<Longrightarrow> (x :: int) OR 128 = x + 128"
  by (rule or_const_int [where n = 6 and h = 2]) simp_all

lemma or_c0_int [bytes]: "0 \<le> x \<Longrightarrow> x < 32 \<Longrightarrow> (x :: int) OR 192 = x + 192"
  by (rule or_const_int [where n = 5 and h = 6]) simp_all

lemma or_e0_int [bytes]: "0 \<le> x \<Longrightarrow> x < 16 \<Longrightarrow> (x :: int) OR 224 = x + 224"
  by (rule or_const_int [where n = 4 and h = 14]) simp_all

lemma or_f0_int [bytes]: "0 \<le> x \<Longrightarrow> x < 8 \<Longrightarrow> (x :: int) OR 240 = x + 240"
  by (rule or_const_int [where n = 3 and h = 30]) simp_all

lemma or_f8_int [bytes]: "0 \<le> x \<Longrightarrow> x < 4 \<Longrightarrow> (x :: int) OR 248 = x + 248"
  by (rule or_const_int [where n = 2 and h = 62]) simp_all

lemma or_fc_int [bytes]: "0 \<le> x \<Longrightarrow> x < 2 \<Longrightarrow> (x :: int) OR 252 = x + 252"
  by (rule or_const_int [where n = 1 and h = 126]) simp_all

lemma shl6_or_int [bytes]: "0 \<le> y \<Longrightarrow> y < 64 \<Longrightarrow> push_bit 6 x OR y = x * 64 + (y :: int)"
  using or_disjoint_int [of y 6 x] by simp

lemma uint_ucast_down: "uint (ucast (w :: 'a::len word) :: 'b::len word) = uint w mod 2 ^ LENGTH('b)"
  by (simp add: unsigned_ucast_eq take_bit_eq_mod unsigned_take_bit_eq flip: take_bit_eq_mod)

lemma uint_u8_bounds [simp]: "0 \<le> uint (b :: u8)" "uint (b :: u8) < 256"
  using uint_lt2p [of b] by simp_all

section \<open>Lists\<close>

lemma nth_append_offset [simp]: "(xs @ ys) ! (length xs + i) = ys ! i"
  by (simp add: nth_append)

end
