(* ===== verification/Cutils.thy ===== *)
theory Cutils
  imports QPrelude
begin

text \<open>
  \<^verbatim>\<open>cutils.c\<close> and \<^verbatim>\<open>cutils.h\<close>: the C-string helpers, the growable byte buffer
  (\<open>DynBuf\<close>), the UTF-8 encoder and decoder and small integer helpers. A C string is a byte
  list that holds a zero byte; what follows the first zero is not part of the string. A
  function that may leave an object returns an option, \<open>None\<close> being such an access.
\<close>

section \<open>C strings\<close>

definition cstr :: "u8 list \<Rightarrow> u8 list" where
  "cstr s = takeWhile (\<lambda>c. c \<noteq> 0) s"

fun pstrcpy_loop :: "u8 list \<Rightarrow> nat \<Rightarrow> int \<Rightarrow> u8 list \<Rightarrow> u8 list option" where
  "pstrcpy_loop buf q buf_size [] = None"
| "pstrcpy_loop buf q buf_size (c # str) =
     (if c = 0 \<or> int q \<ge> buf_size - 1 then wr buf q 0
      else do { buf' \<leftarrow> wr buf q c; pstrcpy_loop buf' (q + 1) buf_size str })"

definition pstrcpy :: "u8 list \<Rightarrow> int \<Rightarrow> u8 list \<Rightarrow> u8 list option" where
  "pstrcpy buf buf_size str =
     (if buf_size \<le> 0 then Some buf else pstrcpy_loop buf 0 buf_size str)"

fun strlen :: "u8 list \<Rightarrow> nat option" where
  "strlen [] = None"
| "strlen (c # s) = (if c = 0 then Some 0 else map_option Suc (strlen s))"

definition pstrcat :: "u8 list \<Rightarrow> int \<Rightarrow> u8 list \<Rightarrow> u8 list option" where
  "pstrcat buf buf_size s = do {
     len \<leftarrow> strlen buf;
     if int len < buf_size
     then map_option (\<lambda>b. take len buf @ b) (pstrcpy (drop len buf) (buf_size - int len) s)
     else Some buf }"

text \<open>\<open>strstart\<close>: \<open>Some None\<close> when \<open>val\<close> is not a prefix, else what follows it (the value
  of \<open>*ptr\<close>).\<close>

fun strstart :: "u8 list \<Rightarrow> u8 list \<Rightarrow> u8 list option option" where
  "strstart str [] = None"
| "strstart str (q # val) =
     (if q = 0 then Some (Some str)
      else case str of
             [] \<Rightarrow> None
           | p # str' \<Rightarrow> (if p \<noteq> q then Some None else strstart str' val))"

definition has_suffix :: "u8 list \<Rightarrow> u8 list \<Rightarrow> bool option" where
  "has_suffix str suffix = do {
     len \<leftarrow> strlen str;
     slen \<leftarrow> strlen suffix;
     Some (len \<ge> slen \<and> take slen (drop (len - slen) str) = take slen suffix) }"

lemma strlen_cstr: "0 \<in> set s \<Longrightarrow> strlen s = Some (length (cstr s))"
  by (induction s) (auto simp: cstr_def)

lemma cstr_append_zero [simp]: "0 \<notin> set xs \<Longrightarrow> cstr (xs @ 0 # ys) = xs"
  by (induction xs) (auto simp: cstr_def)

lemma cstr_split: "0 \<in> set s \<Longrightarrow> \<exists>rest. s = cstr s @ 0 # rest"
  by (metis cstr_append_zero split_list_first)

lemma zero_notin_cstr [simp]: "0 \<notin> set (cstr s)"
  by (auto simp: cstr_def dest: set_takeWhileD)

lemma take_length_cstr [simp]: "take (length (cstr s)) s = cstr s"
  by (induction s) (auto simp: cstr_def)

lemma pstrcpy_loop_spec:
  assumes "0 \<in> set str" and "int (length buf) \<ge> buf_size" and "int q < buf_size"
  shows "\<exists>rest. pstrcpy_loop buf q buf_size str =
           Some (take q buf @ take (nat (buf_size - 1) - q) (cstr str) @ 0 # rest)
         \<and> length rest + q + length (take (nat (buf_size - 1) - q) (cstr str)) + 1 = length buf"
  using assms
proof (induction buf q buf_size str rule: pstrcpy_loop.induct)
  case (2 buf q buf_size c str)
  have q: "q < length buf" using "2.prems" by linarith
  show ?case
  proof (cases "c = 0 \<or> int q \<ge> buf_size - 1")
    case True
    then have "take (nat (buf_size - 1) - q) (cstr (c # str)) = []"
      by (auto simp: cstr_def)
    moreover have "buf[q := 0] = take q buf @ 0 # drop (Suc q) buf"
      using q by (rule upd_conv_take_nth_drop)
    ultimately show ?thesis
      using True q by (intro exI [of _ "drop (Suc q) buf"]) (simp del: take_eq_Nil)
  next
    case False
    have wr: "wr buf q c = Some (buf[q := c])" using q by simp
    have "\<exists>rest. pstrcpy_loop (buf[q := c]) (q + 1) buf_size str =
           Some (take (q + 1) (buf[q := c]) @ take (nat (buf_size - 1) - (q + 1)) (cstr str) @ 0 # rest)
         \<and> length rest + (q + 1) + length (take (nat (buf_size - 1) - (q + 1)) (cstr str)) + 1
           = length (buf[q := c])"
      using "2.prems" False by (intro "2.IH") auto
    then obtain rest where r: "pstrcpy_loop (buf[q := c]) (q + 1) buf_size str =
           Some (take (q + 1) (buf[q := c]) @ take (nat (buf_size - 1) - (q + 1)) (cstr str) @ 0 # rest)"
      and l: "length rest + (q + 1) + length (take (nat (buf_size - 1) - (q + 1)) (cstr str)) + 1
           = length (buf[q := c])" by blast
    have t: "take (q + 1) (buf[q := c]) = take q buf @ [c]"
      using q by (simp add: take_Suc_conv_app_nth)
    have n: "nat (buf_size - 1) - q = Suc (nat (buf_size - 1) - (q + 1))"
      using False by linarith
    have k: "take (nat (buf_size - 1) - q) (cstr (c # str))
        = c # take (nat (buf_size - 1) - (q + 1)) (cstr str)"
      using False by (simp add: n cstr_def)
    show ?thesis
      using False wr r l unfolding k t by (intro exI [of _ rest]) simp
  qed
qed simp

lemma pstrcpy_spec:
  assumes "0 \<in> set str" and "0 < buf_size" and "buf_size \<le> int (length buf)"
  shows "\<exists>rest. pstrcpy buf buf_size str = Some (take (nat (buf_size - 1)) (cstr str) @ 0 # rest)
         \<and> length rest + length (take (nat (buf_size - 1)) (cstr str)) + 1 = length buf"
  using pstrcpy_loop_spec [of str buf_size buf 0] assms by (auto simp: pstrcpy_def)

lemma pstrcpy_cstr:
  assumes "0 \<in> set str" and "0 < buf_size" and "buf_size \<le> int (length buf)"
  shows "\<exists>b. pstrcpy buf buf_size str = Some b \<and> length b = length buf
           \<and> cstr b = take (nat (buf_size - 1)) (cstr str)"
proof -
  obtain rest where "pstrcpy buf buf_size str = Some (take (nat (buf_size - 1)) (cstr str) @ 0 # rest)"
    and "length rest + length (take (nat (buf_size - 1)) (cstr str)) + 1 = length buf"
    using pstrcpy_spec [OF assms] by blast
  moreover have "0 \<notin> set (take (nat (buf_size - 1)) (cstr str))"
    by (metis in_set_takeD zero_notin_cstr)
  ultimately show ?thesis by simp
qed

lemma strstart_spec:
  assumes "0 \<in> set str" and "0 \<in> set val"
  shows "strstart str val =
    Some (if take (length (cstr val)) (cstr str) = cstr val
          then Some (drop (length (cstr val)) str) else None)"
  using assms
proof (induction str val rule: strstart.induct)
  case (2 str q val)
  then show ?case
    by (cases str) (auto simp: cstr_def)
qed simp

section \<open>Growable byte buffers\<close>

text \<open>
  \<open>db_buf\<close> is the whole allocated block: its length is \<open>allocated_size\<close>, the null pointer is
  the empty block (\<open>dbuf_realloc\<close> never asks for a block of size 0). \<open>db_realloc\<close> stands for
  \<open>realloc_func\<close> with its \<open>opaque\<close>: from the old block and the new size to the new block,
  or \<open>None\<close> for a null result. \<open>realloc_law\<close> is what \<^verbatim>\<open>realloc\<close> documents. Sizes are
  natural numbers: they are sizes of live objects, so \<open>size_t\<close> does not wrap.
\<close>

record DynBuf =
  db_buf :: "u8 list"
  db_size :: nat
  db_allocated :: nat
  db_error :: bool
  db_realloc :: "u8 list \<Rightarrow> nat \<Rightarrow> u8 list option"

definition realloc_law :: "('a list \<Rightarrow> nat \<Rightarrow> 'a list option) \<Rightarrow> bool" where
  "realloc_law f \<longleftrightarrow> (\<forall>b n b'. f b n = Some b' \<longrightarrow>
     length b' = n \<and> take (min n (length b)) b' = take (min n (length b)) b)"

definition dbuf_init2 :: "(u8 list \<Rightarrow> nat \<Rightarrow> u8 list option) \<Rightarrow> DynBuf" where
  "dbuf_init2 f = \<lparr>db_buf = [], db_size = 0, db_allocated = 0, db_error = False, db_realloc = f\<rparr>"

definition dbuf_realloc :: "DynBuf \<Rightarrow> nat \<Rightarrow> int \<times> DynBuf" where
  "dbuf_realloc s new_size =
     (if new_size > db_allocated s then
        if db_error s then (-1, s)
        else
          let size' = db_allocated s * 3 div 2;
              new_size' = (if size' > new_size then size' else new_size)
          in case db_realloc s (db_buf s) new_size' of
               None \<Rightarrow> (-1, s\<lparr>db_error := True\<rparr>)
             | Some new_buf \<Rightarrow> (0, s\<lparr>db_buf := new_buf, db_allocated := new_size'\<rparr>)
      else (0, s))"

text \<open>\<open>blit b off d\<close> is \<^verbatim>\<open>memcpy(b + off, d, len)\<close>, inside the object \<open>b\<close> only.\<close>

definition blit :: "'a list \<Rightarrow> nat \<Rightarrow> 'a list \<Rightarrow> 'a list option" where
  "blit b off d = (if off + length d \<le> length b
     then Some (take off b @ d @ drop (off + length d) b) else None)"

definition dbuf_write :: "DynBuf \<Rightarrow> nat \<Rightarrow> u8 list \<Rightarrow> (int \<times> DynBuf) option" where
  "dbuf_write s offset data =
     (let end' = offset + length data; (r, s1) = dbuf_realloc s end'
      in if r \<noteq> 0 then Some (-1, s1)
         else do {
           b \<leftarrow> blit (db_buf s1) offset data;
           Some (0, s1\<lparr>db_buf := b, db_size := (if end' > db_size s1 then end' else db_size s1)\<rparr>) })"

definition dbuf_put :: "DynBuf \<Rightarrow> u8 list \<Rightarrow> (int \<times> DynBuf) option" where
  "dbuf_put s data =
     (let (r, s1) = (if db_size s + length data > db_allocated s
                     then dbuf_realloc s (db_size s + length data) else (0, s))
      in if r \<noteq> 0 then Some (-1, s1)
         else do {
           b \<leftarrow> blit (db_buf s1) (db_size s1) data;
           Some (0, s1\<lparr>db_buf := b, db_size := db_size s1 + length data\<rparr>) })"

definition dbuf_put_self :: "DynBuf \<Rightarrow> nat \<Rightarrow> nat \<Rightarrow> (int \<times> DynBuf) option" where
  "dbuf_put_self s offset len =
     (let (r, s1) = (if db_size s + len > db_allocated s
                     then dbuf_realloc s (db_size s + len) else (0, s))
      in if r \<noteq> 0 then Some (-1, s1)
         else if offset + len > length (db_buf s1) then None
         else do {
           b \<leftarrow> blit (db_buf s1) (db_size s1) (take len (drop offset (db_buf s1)));
           Some (0, s1\<lparr>db_buf := b, db_size := db_size s1 + len\<rparr>) })"

definition dbuf_putc :: "DynBuf \<Rightarrow> u8 \<Rightarrow> (int \<times> DynBuf) option" where
  "dbuf_putc s c = dbuf_put s [c]"

definition dbuf_putstr :: "DynBuf \<Rightarrow> u8 list \<Rightarrow> (int \<times> DynBuf) option" where
  "dbuf_putstr s str = do { len \<leftarrow> strlen str; dbuf_put s (take len str) }"

text \<open>The byte order of the targets the code supports is little endian.\<close>

definition le16 :: "u16 \<Rightarrow> u8 list" where
  "le16 v = [ucast v, ucast (drop_bit 8 v)]"

definition le32 :: "u32 \<Rightarrow> u8 list" where
  "le32 v = [ucast v, ucast (drop_bit 8 v), ucast (drop_bit 16 v), ucast (drop_bit 24 v)]"

definition dbuf_put_u16 :: "DynBuf \<Rightarrow> u16 \<Rightarrow> (int \<times> DynBuf) option" where
  "dbuf_put_u16 s val = dbuf_put s (le16 val)"

definition dbuf_put_u32 :: "DynBuf \<Rightarrow> u32 \<Rightarrow> (int \<times> DynBuf) option" where
  "dbuf_put_u32 s val = dbuf_put s (le32 val)"

definition dbuf_error :: "DynBuf \<Rightarrow> bool" where
  "dbuf_error s = db_error s"

definition dbuf_set_error :: "DynBuf \<Rightarrow> DynBuf" where
  "dbuf_set_error s = s\<lparr>db_error := True\<rparr>"

subsection \<open>What a buffer holds\<close>

definition dbuf_wf :: "DynBuf \<Rightarrow> bool" where
  "dbuf_wf s \<longleftrightarrow> db_size s \<le> db_allocated s \<and> length (db_buf s) = db_allocated s
     \<and> realloc_law (db_realloc s)"

definition dbuf_data :: "DynBuf \<Rightarrow> u8 list" where
  "dbuf_data s = take (db_size s) (db_buf s)"

lemma blit_in: "off + length d \<le> length b \<Longrightarrow> blit b off d = Some (take off b @ d @ drop (off + length d) b)"
  by (simp add: blit_def)

lemma length_dbuf_data [simp]: "dbuf_wf s \<Longrightarrow> length (dbuf_data s) = db_size s"
  by (simp add: dbuf_data_def dbuf_wf_def)

lemma dbuf_init2_wf: "realloc_law f \<Longrightarrow> dbuf_wf (dbuf_init2 f) \<and> dbuf_data (dbuf_init2 f) = []"
  by (simp add: dbuf_wf_def dbuf_init2_def dbuf_data_def)

lemma realloc_lawD:
  "realloc_law f \<Longrightarrow> f b n = Some b' \<Longrightarrow> length b' = n \<and> take (min n (length b)) b' = take (min n (length b)) b"
  by (simp add: realloc_law_def)

lemma dbuf_realloc_ok:
  assumes wf: "dbuf_wf s" and r: "dbuf_realloc s n = (0, s')"
  shows "dbuf_wf s' \<and> dbuf_data s' = dbuf_data s \<and> db_size s' = db_size s
    \<and> n \<le> db_allocated s' \<and> db_allocated s \<le> db_allocated s' \<and> db_error s' = db_error s
    \<and> db_realloc s' = db_realloc s"
proof (cases "n > db_allocated s")
  case True
  define m where "m = (if db_allocated s * 3 div 2 > n then db_allocated s * 3 div 2 else n)"
  have m: "m \<ge> n" by (simp add: m_def)
  from True r obtain b where b: "db_realloc s (db_buf s) m = Some b"
    and s': "s' = s\<lparr>db_buf := b, db_allocated := m\<rparr>"
    by (auto simp: dbuf_realloc_def Let_def m_def split: option.splits if_splits)
  have l: "length b = m" "take (min m (length (db_buf s))) b = take (min m (length (db_buf s))) (db_buf s)"
    using realloc_lawD [of "db_realloc s", OF _ b] wf by (auto simp: dbuf_wf_def)
  have "take (db_allocated s) b = db_buf s"
    using l(2) m True wf by (simp add: dbuf_wf_def min_def)
  then have "take (db_size s) b = take (db_size s) (db_buf s)"
    using wf by (metis dbuf_wf_def min.absorb1 take_take)
  with l m True wf s' show ?thesis by (simp add: dbuf_wf_def dbuf_data_def)
next
  case False
  with r wf show ?thesis by (simp add: dbuf_realloc_def)
qed

lemma dbuf_realloc_cases:
  "dbuf_realloc s n = (r, s') \<Longrightarrow> r = 0 \<or> (r = -1 \<and> s' = s\<lparr>db_error := True\<rparr>)"
  by (auto simp: dbuf_realloc_def Let_def split: if_splits option.splits)

lemma dbuf_error_wf [simp]: "dbuf_wf (s\<lparr>db_error := e\<rparr>) = dbuf_wf s"
    "dbuf_data (s\<lparr>db_error := e\<rparr>) = dbuf_data s"
  by (simp_all add: dbuf_wf_def dbuf_data_def)

lemma dbuf_grow_cases:
  assumes wf: "dbuf_wf s" and "db_size s + n \<le> m"
    and g: "(if db_size s + n > db_allocated s then dbuf_realloc s m else (0, s)) = (r, s1)"
  shows "(r = 0 \<and> dbuf_wf s1 \<and> dbuf_data s1 = dbuf_data s \<and> db_size s1 = db_size s
           \<and> db_size s + n \<le> db_allocated s1 \<and> db_error s1 = db_error s)
         \<or> (r = -1 \<and> s1 = s\<lparr>db_error := True\<rparr>)"
proof (cases "db_size s + n > db_allocated s")
  case True
  with g have d: "dbuf_realloc s m = (r, s1)" by simp
  show ?thesis
    using dbuf_realloc_cases [OF d] dbuf_realloc_ok [OF wf, of m s1] d assms(2) by auto
next
  case False
  with g wf show ?thesis by auto
qed

lemma blit_at_size:
  assumes "dbuf_wf s" and "db_size s + length d \<le> db_allocated s"
  shows "\<exists>b. blit (db_buf s) (db_size s) d = Some b \<and> length b = db_allocated s
           \<and> take (db_size s + length d) b = dbuf_data s @ d"
  using assms by (simp add: blit_def dbuf_wf_def dbuf_data_def)

lemma dbuf_put_cases:
  assumes wf: "dbuf_wf s"
  shows "\<exists>r s'. dbuf_put s d = Some (r, s') \<and> dbuf_wf s' \<and>
    ((r = 0 \<and> dbuf_data s' = dbuf_data s @ d \<and> db_error s' = db_error s)
     \<or> (r = -1 \<and> s' = s\<lparr>db_error := True\<rparr>))"
proof -
  obtain r s1 where g: "(if db_size s + length d > db_allocated s
      then dbuf_realloc s (db_size s + length d) else (0, s)) = (r, s1)"
    by (metis surj_pair)
  from dbuf_grow_cases [OF wf order.refl g] show ?thesis
  proof (elim disjE conjE)
    assume ok: "r = 0" "dbuf_wf s1" "dbuf_data s1 = dbuf_data s" "db_size s1 = db_size s"
      "db_size s + length d \<le> db_allocated s1" "db_error s1 = db_error s"
    obtain b where b: "blit (db_buf s1) (db_size s1) d = Some b" "length b = db_allocated s1"
      "take (db_size s1 + length d) b = dbuf_data s1 @ d"
      using blit_at_size [of s1 d] ok by auto
    from ok b g show ?thesis by (auto simp: dbuf_put_def dbuf_wf_def dbuf_data_def)
  next
    assume "r = -1" "s1 = s\<lparr>db_error := True\<rparr>"
    with g wf show ?thesis by (auto simp: dbuf_put_def)
  qed
qed

lemma dbuf_put_self_cases:
  assumes wf: "dbuf_wf s" and len: "offset + len \<le> db_size s"
  shows "\<exists>r s'. dbuf_put_self s offset len = Some (r, s') \<and> dbuf_wf s' \<and>
    ((r = 0 \<and> dbuf_data s' = dbuf_data s @ take len (drop offset (dbuf_data s)))
     \<or> (r = -1 \<and> s' = s\<lparr>db_error := True\<rparr>))"
proof -
  obtain r s1 where g: "(if db_size s + len > db_allocated s
      then dbuf_realloc s (db_size s + len) else (0, s)) = (r, s1)"
    by (metis surj_pair)
  from dbuf_grow_cases [OF wf order.refl g] show ?thesis
  proof (elim disjE conjE)
    assume ok: "r = 0" "dbuf_wf s1" "dbuf_data s1 = dbuf_data s" "db_size s1 = db_size s"
      "db_size s + len \<le> db_allocated s1" "db_error s1 = db_error s"
    let ?d = "take len (drop offset (db_buf s1))"
    have buf: "length (db_buf s1) = db_allocated s1" using ok(2) by (simp add: dbuf_wf_def)
    then have l: "length ?d = len" using len ok(5) by simp
    have d: "?d = take len (drop offset (dbuf_data s))"
    proof -
      have "?d = take len (drop offset (dbuf_data s1))"
        using len ok(4) by (simp add: dbuf_data_def drop_take min.absorb1)
      then show ?thesis by (simp only: ok(3))
    qed
    obtain b where b: "blit (db_buf s1) (db_size s1) ?d = Some b" "length b = db_allocated s1"
      "take (db_size s1 + len) b = dbuf_data s1 @ ?d"
      using blit_at_size [of s1 ?d] ok(2,4,5) unfolding l by auto
    have data: "dbuf_data (s1\<lparr>db_buf := b, db_size := db_size s1 + len\<rparr>)
        = dbuf_data s @ take len (drop offset (dbuf_data s))"
      using b(3) ok(3) d by (simp add: dbuf_data_def)
    have "dbuf_put_self s offset len = Some (0, s1\<lparr>db_buf := b, db_size := db_size s1 + len\<rparr>)"
      using g ok buf len b(1) by (simp add: dbuf_put_self_def)
    moreover have "dbuf_wf (s1\<lparr>db_buf := b, db_size := db_size s1 + len\<rparr>)"
      using ok b(2) by (simp add: dbuf_wf_def)
    ultimately show ?thesis using data by blast
  next
    assume "r = -1" "s1 = s\<lparr>db_error := True\<rparr>"
    with g wf show ?thesis by (auto simp: dbuf_put_self_def)
  qed
qed

text \<open>A sequence of writes either appends every byte or leaves the error flag set: a caller
  that tests the flag once, at the end, misses no failure.\<close>

fun dbuf_puts :: "DynBuf \<Rightarrow> u8 list list \<Rightarrow> DynBuf option" where
  "dbuf_puts s [] = Some s"
| "dbuf_puts s (d # ds) = do { (r, s') \<leftarrow> dbuf_put s d; dbuf_puts s' ds }"

lemma dbuf_puts_error_sticky:
  "db_error s \<Longrightarrow> dbuf_puts s ds = Some s' \<Longrightarrow> dbuf_wf s \<Longrightarrow> db_error s'"
proof (induction ds arbitrary: s)
  case (Cons d ds)
  obtain r s1 where s1: "dbuf_put s d = Some (r, s1)" "dbuf_wf s1" "db_error s1"
    using dbuf_put_cases [OF Cons.prems(3), of d] Cons.prems(1) by auto
  then show ?case using Cons.IH [of s1] Cons.prems(2) by simp
qed simp

lemma dbuf_puts_cases:
  "dbuf_wf s \<Longrightarrow> \<exists>s'. dbuf_puts s ds = Some s' \<and> dbuf_wf s' \<and>
     (db_error s' \<or> dbuf_data s' = dbuf_data s @ concat ds)"
proof (induction ds arbitrary: s)
  case (Cons d ds)
  obtain r s1 where s1: "dbuf_put s d = Some (r, s1)" "dbuf_wf s1"
    "(r = 0 \<and> dbuf_data s1 = dbuf_data s @ d) \<or> (r = -1 \<and> s1 = s\<lparr>db_error := True\<rparr>)"
    using dbuf_put_cases [OF Cons.prems, of d] by auto
  obtain s2 where s2: "dbuf_puts s1 ds = Some s2" "dbuf_wf s2"
    "db_error s2 \<or> dbuf_data s2 = dbuf_data s1 @ concat ds"
    using Cons.IH [OF s1(2)] by auto
  have "db_error s1 \<Longrightarrow> db_error s2"
    using s2(1) s1(2) dbuf_puts_error_sticky by blast
  with s1 s2 show ?case by auto
qed simp

section \<open>UTF-8\<close>

definition utf8_cont :: "nat \<Rightarrow> u32 \<Rightarrow> u8" where
  "utf8_cont n c = ucast ((drop_bit n c AND 0x3f) OR 0x80)"

text \<open>The bytes that \<open>unicode_to_utf8\<close> writes to its buffer; it returns their number.\<close>

definition unicode_to_utf8 :: "u32 \<Rightarrow> u8 list" where
  "unicode_to_utf8 c =
     (if c < 0x80 then [ucast c]
      else if c \<ge> 0x80000000 then []
      else
        (if c < 0x800 then [ucast (drop_bit 6 c OR 0xc0)]
         else
           (if c < 0x10000 then [ucast (drop_bit 12 c OR 0xe0)]
            else
              (if c < 0x00200000 then [ucast (drop_bit 18 c OR 0xf0)]
               else
                 (if c < 0x04000000 then [ucast (drop_bit 24 c OR 0xf8)]
                  else [ucast (drop_bit 30 c OR 0xfc), utf8_cont 24 c])
                 @ [utf8_cont 18 c])
              @ [utf8_cont 12 c])
           @ [utf8_cont 6 c])
        @ [utf8_cont 0 c])"

definition utf8_min_code :: "int list" where
  "utf8_min_code = [0x80, 0x800, 0x10000, 0x00200000, 0x04000000]"

definition utf8_first_code_mask :: "int list" where
  "utf8_first_code_mask = [0x1f, 0xf, 0x7, 0x3, 0x1]"

text \<open>The \<open>switch\<close> on the first byte: the number of continuation bytes.\<close>

definition utf8_more :: "int \<Rightarrow> nat option" where
  "utf8_more c =
     (if 0xc0 \<le> c \<and> c \<le> 0xdf then Some 1
      else if 0xe0 \<le> c \<and> c \<le> 0xef then Some 2
      else if 0xf0 \<le> c \<and> c \<le> 0xf7 then Some 3
      else if 0xf8 \<le> c \<and> c \<le> 0xfb then Some 4
      else if 0xfc \<le> c \<and> c \<le> 0xfd then Some 5
      else None)"

fun utf8_loop :: "u8 list \<Rightarrow> nat \<Rightarrow> nat \<Rightarrow> int \<Rightarrow> (int \<times> nat) option option" where
  "utf8_loop buf p 0 c = Some (Some (c, p))"
| "utf8_loop buf p (Suc i) c = do {
     b \<leftarrow> rd buf p;
     if uint b < 0x80 \<or> uint b \<ge> 0xc0 then Some None
     else utf8_loop buf (p + 1) i (push_bit 6 c OR (uint b AND 0x3f)) }"

text \<open>The pointer \<open>p\<close> is a position of the buffer \<open>buf\<close>; the result is the character (or -1)
  and the new value of \<open>*pp\<close>.\<close>

definition unicode_from_utf8 :: "u8 list \<Rightarrow> nat \<Rightarrow> int \<Rightarrow> (int \<times> nat) option" where
  "unicode_from_utf8 buf p max_len = do {
     b \<leftarrow> rd buf p;
     let c = uint b in
     if c < 0x80 then Some (c, p + 1)
     else case utf8_more c of
       None \<Rightarrow> Some (-1, p)
     | Some l \<Rightarrow>
         if int l > max_len - 1 then Some (-1, p)
         else do {
           r \<leftarrow> utf8_loop buf (p + 1) l (c AND utf8_first_code_mask ! (l - 1));
           case r of
             None \<Rightarrow> Some (-1, p)
           | Some (c', p') \<Rightarrow>
               if c' < utf8_min_code ! (l - 1) then Some (-1, p) else Some (c', p') } }"

lemma uint_drop_bit_u32: "uint (drop_bit n (c :: u32)) = uint c div 2 ^ n"
  unfolding unsigned_drop_bit_eq by (simp add: drop_bit_eq_div bintr_uint)

lemma mod_256_mod_64 [simp]: "(x :: int) mod 256 mod 64 = x mod 64"
  by (rule mod_mod_cancel) simp

lemma uint_utf8_cont: "uint (utf8_cont n c) = uint c div 2 ^ n mod 64 + 128"
proof -
  have "uint (drop_bit n c AND 0x3f :: u32) = uint c div 2 ^ n mod 64"
    unfolding unsigned_and_eq uint_drop_bit_u32 by (simp add: bytes)
  moreover have "uint c div 2 ^ n mod 64 OR 128 = uint c div 2 ^ n mod 64 + 128"
    by (simp add: bytes)
  moreover have "uint c div 2 ^ n mod 64 + 128 < 256"
    by (smt (verit) pos_mod_bound)
  ultimately show ?thesis
    by (simp add: utf8_cont_def uint_ucast_down unsigned_or_eq del: drop_bit_eq_div)
qed

lemma uint_lead:
  fixes c k :: u32
  assumes "uint c div 2 ^ n OR uint k = uint c div 2 ^ n + uint k"
    and "uint c div 2 ^ n + uint k < 256"
  shows "uint (ucast (drop_bit n c OR k) :: u8) = uint c div 2 ^ n + uint k"
  unfolding uint_ucast_down unfolding unsigned_or_eq uint_drop_bit_u32 assms(1) using assms(2)
  by (simp add: mod_pos_pos_trivial pos_imp_zdiv_nonneg_iff)

lemma div_mod_nest:
  fixes a y :: int
  assumes "0 \<le> y" and "y < 64"
  shows "(a * 64 + y) div 64 = a" and "(a * 64 + y) mod 64 = y"
  using assms by simp_all

lemma mask_first [bytes]:
  "(c :: int) AND 31 = c mod 32" "c AND 15 = c mod 16" "c AND 7 = c mod 8" "c AND 3 = c mod 4"
  "c AND 1 = c mod 2"
  using and_mask_int [of c 5] and_mask_int [of c 4] and_mask_int [of c 3] and_mask_int [of c 2]
    and_mask_int [of c 1]
  by simp_all

lemma uint_cont_range: "128 \<le> uint (utf8_cont n c)" "uint (utf8_cont n c) < 192"
  "uint (utf8_cont n c) mod 64 = uint c div 2 ^ n mod 64"
proof -
  have "0 \<le> uint c div 2 ^ n mod 64" "uint c div 2 ^ n mod 64 < 64" by simp_all
  then show "128 \<le> uint (utf8_cont n c)" "uint (utf8_cont n c) < 192"
    unfolding uint_utf8_cont by linarith+
  have "(x mod 64 + 128) mod 64 = x mod 64" for x :: int
    using mod_add_left_eq [of x 64 128] mod_mult_self2 [of x 64 2] by simp
  then show "uint (utf8_cont n c) mod 64 = uint c div 2 ^ n mod 64"
    unfolding uint_utf8_cont .
qed

text \<open>The loop over the continuation bytes, on a list of such bytes.\<close>

definition utf8_acc :: "int \<Rightarrow> u8 list \<Rightarrow> int" where
  "utf8_acc c bs = foldl (\<lambda>c b. c * 64 + uint b mod 64) c bs"

definition is_cont :: "u8 \<Rightarrow> bool" where
  "is_cont b \<longleftrightarrow> 128 \<le> uint b \<and> uint b < 192"

lemma utf8_loop_conts:
  "\<forall>b \<in> set bs. is_cont b \<Longrightarrow>
   utf8_loop (pre @ bs @ post) (length pre) (length bs) c = Some (Some (utf8_acc c bs, length pre + length bs))"
proof (induction bs arbitrary: pre c)
  case (Cons b bs)
  have "utf8_loop ((pre @ [b]) @ bs @ post) (length (pre @ [b])) (length bs) (c * 64 + uint b mod 64)
      = Some (Some (utf8_acc (c * 64 + uint b mod 64) bs, length (pre @ [b]) + length bs))"
    by (rule Cons.IH) (use Cons.prems in simp)
  moreover have "rd (pre @ b # bs @ post) (length pre) = Some b" by simp
  ultimately show ?case
    using Cons.prems by (simp add: is_cont_def bytes utf8_acc_def)
qed (simp add: utf8_acc_def)

lemma utf8_loop_Some:
  "utf8_loop buf p l c = Some (Some (c', p')) \<Longrightarrow>
   \<exists>bs. length bs = l \<and> p' = p + l \<and> p + l \<le> length buf \<and> bs = take l (drop p buf)
      \<and> (\<forall>b \<in> set bs. is_cont b) \<and> c' = utf8_acc c bs" if "p \<le> length buf"
  using that
proof (induction l arbitrary: p c)
  case (Suc l)
  from Suc.prems obtain b where b: "p < length buf" "b = buf ! p" "is_cont b"
    and l: "utf8_loop buf (p + 1) l (c * 64 + uint b mod 64) = Some (Some (c', p'))"
    by (auto simp: rd_Some_iff is_cont_def bytes Option.bind_eq_Some_conv split: if_splits)
  from Suc.IH [OF l] b(1) obtain bs where "length bs = l" "p' = p + 1 + l" "p + 1 + l \<le> length buf"
    "bs = take l (drop (p + 1) buf)" "\<forall>b \<in> set bs. is_cont b" "c' = utf8_acc (c * 64 + uint b mod 64) bs"
    by auto
  moreover have "take (Suc l) (drop p buf) = b # take l (drop (p + 1) buf)"
    using b by (simp add: Cons_nth_drop_Suc [symmetric])
  ultimately show ?case
    using b by (intro exI [of _ "b # bs"]) (auto simp: utf8_acc_def)
qed (simp add: utf8_acc_def)

lemma utf8_loop_no_oob: "p + l \<le> length buf \<Longrightarrow> utf8_loop buf p l c \<noteq> None"
  by (induction buf p l c rule: utf8_loop.induct) auto

text \<open>The decoder on a first byte that announces \<open>l\<close> more bytes.\<close>

lemma unicode_from_utf8_more:
  assumes "p < length buf" and "128 \<le> uint (buf ! p)" and "utf8_more (uint (buf ! p)) = Some l"
  shows "unicode_from_utf8 buf p max_len =
    (if int l > max_len - 1 then Some (-1, p)
     else case utf8_loop buf (p + 1) l (uint (buf ! p) AND utf8_first_code_mask ! (l - 1)) of
       None \<Rightarrow> None
     | Some None \<Rightarrow> Some (-1, p)
     | Some (Some (c, q)) \<Rightarrow> if c < utf8_min_code ! (l - 1) then Some (-1, p) else Some (c, q))"
  using assms by (auto simp: unicode_from_utf8_def Let_def split: option.split)

lemma unicode_from_utf8_no_oob:
  assumes "p < length buf" and "int p + max_len \<le> int (length buf)"
  shows "unicode_from_utf8 buf p max_len \<noteq> None"
proof (cases "utf8_more (uint (buf ! p))")
  case None
  then show ?thesis using assms by (simp add: unicode_from_utf8_def Let_def)
next
  case (Some l)
  show ?thesis
  proof (cases "128 \<le> uint (buf ! p)")
    case True
    have "utf8_loop buf (p + 1) l c \<noteq> None" if "\<not> int l > max_len - 1" for c
      using assms that by (intro utf8_loop_no_oob) linarith
    then show ?thesis
      unfolding unicode_from_utf8_more [OF assms(1) True Some]
      by (cases "int l > max_len - 1") (simp_all split: option.split)
  next
    case False
    then show ?thesis using assms(1) by (simp add: unicode_from_utf8_def)
  qed
qed

subsection \<open>Encoding\<close>

lemma u32_less_iff: "(c :: u32) < k \<longleftrightarrow> uint c < uint k"
  by (simp add: word_less_def)

lemma acc_step: "0 < k \<Longrightarrow> (n div (k * 64)) * 64 + n div k mod 64 = (n :: int) div k"
  by (simp add: zdiv_zmult2_eq)

lemmas acc_steps = acc_step [of 1, simplified] acc_step [of 64, simplified]
  acc_step [of 4096, simplified] acc_step [of 262144, simplified] acc_step [of 16777216, simplified]

lemma cont_facts: "is_cont (utf8_cont n c)" "uint (utf8_cont n c) mod 64 = uint c div 2 ^ n mod 64"
  by (simp_all add: is_cont_def uint_cont_range)

text \<open>The encoder as a first byte and continuation bytes, by range.\<close>

lemma unicode_to_utf8_bytes:
  fixes c :: u32
  assumes "128 \<le> uint c" and "uint c < 2147483648"
  shows "\<exists>b bs. unicode_to_utf8 c = b # bs \<and> (\<forall>x \<in> set bs. is_cont x) \<and>
       utf8_more (uint b) = Some (length bs) \<and> 1 \<le> length bs \<and> length bs \<le> 5 \<and> 128 \<le> uint b \<and>
       utf8_min_code ! (length bs - 1) \<le> uint c \<and>
       utf8_acc (uint b AND utf8_first_code_mask ! (length bs - 1)) bs = uint c"
proof -
  let ?n = "uint c"
  consider "?n < 2048" | "2048 \<le> ?n" "?n < 65536" | "65536 \<le> ?n" "?n < 2097152"
    | "2097152 \<le> ?n" "?n < 67108864" | "67108864 \<le> ?n" by linarith
  then show ?thesis
  proof cases
    case 1
    then have r: "2 \<le> ?n div 64" "?n div 64 < 32" using assms by linarith+
    have u: "uint (ucast (drop_bit 6 c OR 0xc0) :: u8) = ?n div 64 + 192"
      using uint_lead [of c 6 "0xc0"] r by (simp add: bytes)
    have "(?n div 64 + 192) mod 32 = ?n div 64"
      using r mod_mult_self2 [of "?n div 64" 32 6] by simp
    then show ?thesis
      using 1 assms r
      by (intro exI [of _ "ucast (drop_bit 6 c OR 0xc0)"] exI [of _ "[utf8_cont 0 c]"])
        (simp add: unicode_to_utf8_def u32_less_iff word_le_def u cont_facts utf8_more_def bytes
          utf8_min_code_def utf8_first_code_mask_def utf8_acc_def acc_steps del: drop_bit_eq_div)
  next
    case 2
    then have r: "0 \<le> ?n div 4096" "?n div 4096 < 16" by linarith+
    have u: "uint (ucast (drop_bit 12 c OR 0xe0) :: u8) = ?n div 4096 + 224"
      using uint_lead [of c 12 "0xe0"] r by (simp add: bytes)
    have "(?n div 4096 + 224) mod 16 = ?n div 4096"
      using r mod_mult_self2 [of "?n div 4096" 16 14] by simp
    then show ?thesis
      using 2 assms r
      by (intro exI [of _ "ucast (drop_bit 12 c OR 0xe0)"] exI [of _ "[utf8_cont 6 c, utf8_cont 0 c]"])
        (simp add: unicode_to_utf8_def u32_less_iff word_le_def u cont_facts utf8_more_def bytes
          utf8_min_code_def utf8_first_code_mask_def utf8_acc_def acc_steps del: drop_bit_eq_div)
  next
    case 3
    then have r: "0 \<le> ?n div 262144" "?n div 262144 < 8" by linarith+
    have u: "uint (ucast (drop_bit 18 c OR 0xf0) :: u8) = ?n div 262144 + 240"
      using uint_lead [of c 18 "0xf0"] r by (simp add: bytes)
    have "(?n div 262144 + 240) mod 8 = ?n div 262144"
      using r mod_mult_self2 [of "?n div 262144" 8 30] by simp
    then show ?thesis
      using 3 assms r
      by (intro exI [of _ "ucast (drop_bit 18 c OR 0xf0)"]
            exI [of _ "[utf8_cont 12 c, utf8_cont 6 c, utf8_cont 0 c]"])
        (simp add: unicode_to_utf8_def u32_less_iff word_le_def u cont_facts utf8_more_def bytes
          utf8_min_code_def utf8_first_code_mask_def utf8_acc_def acc_steps del: drop_bit_eq_div)
  next
    case 4
    then have r: "0 \<le> ?n div 16777216" "?n div 16777216 < 4" by linarith+
    have u: "uint (ucast (drop_bit 24 c OR 0xf8) :: u8) = ?n div 16777216 + 248"
      using uint_lead [of c 24 "0xf8"] r by (simp add: bytes)
    have "(?n div 16777216 + 248) mod 4 = ?n div 16777216"
      using r mod_mult_self2 [of "?n div 16777216" 4 62] by simp
    then show ?thesis
      using 4 assms r
      by (intro exI [of _ "ucast (drop_bit 24 c OR 0xf8)"]
            exI [of _ "[utf8_cont 18 c, utf8_cont 12 c, utf8_cont 6 c, utf8_cont 0 c]"])
        (simp add: unicode_to_utf8_def u32_less_iff word_le_def u cont_facts utf8_more_def bytes
          utf8_min_code_def utf8_first_code_mask_def utf8_acc_def acc_steps del: drop_bit_eq_div)
  next
    case 5
    then have r: "0 \<le> ?n div 1073741824" "?n div 1073741824 < 2" using assms by linarith+
    have u: "uint (ucast (drop_bit 30 c OR 0xfc) :: u8) = ?n div 1073741824 + 252"
      using uint_lead [of c 30 "0xfc"] r by (simp add: bytes)
    have "(?n div 1073741824 + 252) mod 2 = ?n div 1073741824"
      using r mod_mult_self2 [of "?n div 1073741824" 2 126] by simp
    then show ?thesis
      using 5 assms r
      by (intro exI [of _ "ucast (drop_bit 30 c OR 0xfc)"]
            exI [of _ "[utf8_cont 24 c, utf8_cont 18 c, utf8_cont 12 c, utf8_cont 6 c, utf8_cont 0 c]"])
        (simp add: unicode_to_utf8_def u32_less_iff word_le_def u cont_facts utf8_more_def bytes
          utf8_min_code_def utf8_first_code_mask_def utf8_acc_def acc_steps del: drop_bit_eq_div)
  qed
qed


lemma unicode_utf8_roundtrip:
  assumes "uint c < 2147483648" and "int (length (unicode_to_utf8 c)) \<le> max_len"
  shows "unicode_from_utf8 (pre @ unicode_to_utf8 c @ post) (length pre) max_len
    = Some (uint c, length pre + length (unicode_to_utf8 c))"
proof (cases "uint c < 128")
  case True
  then show ?thesis
    by (simp add: unicode_to_utf8_def u32_less_iff unicode_from_utf8_def uint_ucast_down)
next
  case False
  with unicode_to_utf8_bytes [of c] assms(1)
  obtain b bs where enc: "unicode_to_utf8 c = b # bs" "\<forall>x \<in> set bs. is_cont x"
    "utf8_more (uint b) = Some (length bs)" "128 \<le> uint b"
    "utf8_min_code ! (length bs - 1) \<le> uint c"
    "utf8_acc (uint b AND utf8_first_code_mask ! (length bs - 1)) bs = uint c"
    by auto
  have loop: "utf8_loop (pre @ b # bs @ post) (length pre + 1) (length bs) x
      = Some (Some (utf8_acc x bs, length pre + 1 + length bs))" for x
    using utf8_loop_conts [OF enc(2), of "pre @ [b]" post x] by simp
  show ?thesis
    using enc assms(2) loop by (simp add: unicode_from_utf8_def enc(1))
qed

text \<open>The decoder accepts the shortest encoding only.\<close>

lemma unicode_from_utf8_multi:
  assumes "unicode_from_utf8 buf p max_len = Some (c, p')" and "c \<ge> 0" and "128 \<le> uint (buf ! p)"
  obtains bs where "p < length buf" "utf8_more (uint (buf ! p)) = Some (length bs)"
    "bs = take (length bs) (drop (p + 1) buf)" "p' = p + 1 + length bs" "p' \<le> length buf"
    "\<forall>x \<in> set bs. is_cont x" "c = utf8_acc (uint (buf ! p) AND utf8_first_code_mask ! (length bs - 1)) bs"
    "utf8_min_code ! (length bs - 1) \<le> c" "int (length bs) \<le> max_len - 1"
proof -
  have p: "p < length buf"
    using assms(1) by (auto simp: unicode_from_utf8_def Option.bind_eq_Some_conv rd_Some_iff)
  with assms obtain l where l: "utf8_more (uint (buf ! p)) = Some l"
    by (auto simp: unicode_from_utf8_def Let_def split: option.splits if_splits)
  from assms(1,2) have l2: "int l \<le> max_len - 1"
    unfolding unicode_from_utf8_more [OF p assms(3) l] by (auto split: if_splits)
  from assms(1,2) obtain c' q where r:
    "utf8_loop buf (p + 1) l (uint (buf ! p) AND utf8_first_code_mask ! (l - 1)) = Some (Some (c', q))"
    "c' = c" "q = p'" "utf8_min_code ! (l - 1) \<le> c"
    unfolding unicode_from_utf8_more [OF p assms(3) l] by (auto split: if_splits option.splits)
  from utf8_loop_Some [OF _ r(1)] p
  obtain bs where bs: "length bs = l" "q = p + 1 + l" "p + 1 + l \<le> length buf"
    "bs = take l (drop (p + 1) buf)" "\<forall>b\<in>set bs. is_cont b"
    "c' = utf8_acc (uint (buf ! p) AND utf8_first_code_mask ! (l - 1)) bs"
    by auto
  from bs(2,3,6) r(2,3) have e: "p' = p + 1 + l" "p' \<le> length buf"
    "c = utf8_acc (uint (buf ! p) AND utf8_first_code_mask ! (l - 1)) bs" by simp_all
  show thesis
    by (rule that [of bs, unfolded bs(1), OF p l bs(4) e(1,2) bs(5) e(3) r(4) l2])
qed

lemma cont_mod: "is_cont b \<Longrightarrow> uint b mod 64 = uint b - 128"
proof -
  have "x mod 64 = x - 128" if "128 \<le> x" "x < 192" for x :: int
    using that mod_mult_self2 [of "x - 128" 64 2] by simp
  then show "is_cont b \<Longrightarrow> uint b mod 64 = uint b - 128"
    by (simp add: is_cont_def)
qed

lemma utf8_acc_inj:
  "length bs = length bs' \<Longrightarrow> \<forall>b \<in> set bs. is_cont b \<Longrightarrow> \<forall>b \<in> set bs'. is_cont b \<Longrightarrow>
   utf8_acc a bs = utf8_acc a' bs' \<Longrightarrow> a = a' \<and> bs = bs'"
proof (induction bs bs' arbitrary: a a' rule: list_induct2)
  case (Cons b bs b' bs')
  from Cons.prems(3) have "utf8_acc (a * 64 + uint b mod 64) bs = utf8_acc (a' * 64 + uint b' mod 64) bs'"
    by (simp add: utf8_acc_def)
  with Cons.IH Cons.prems(1,2)
  have h: "a * 64 + uint b mod 64 = a' * 64 + uint b' mod 64" and t: "bs = bs'"
    by (metis list.set_intros(2))+
  define y y' where "y = uint b mod 64" and "y' = uint b' mod 64"
  have "0 \<le> y" "y < 64" "0 \<le> y'" "y' < 64" and ay: "a * 64 + y = a' * 64 + y'"
    using h by (simp_all add: y_def y'_def)
  then have e: "a = a'" by linarith
  with ay have "y = y'" by simp
  then have "uint b = uint b'"
    using Cons.prems(1,2) by (simp add: cont_mod y_def y'_def)
  with e t show ?case by (simp add: word_uint_eq_iff)
qed (simp add: utf8_acc_def)

lemma utf8_acc_bounds:
  "0 \<le> a \<Longrightarrow> 0 \<le> utf8_acc a bs \<and> utf8_acc a bs < (a + 1) * 64 ^ length bs"
proof (induction bs arbitrary: a)
  case (Cons b bs)
  have "0 \<le> uint b mod 64" "uint b mod 64 < 64" by simp_all
  then have "0 \<le> a * 64 + uint b mod 64" "a * 64 + uint b mod 64 + 1 \<le> (a + 1) * 64"
    using Cons.prems by (simp_all add: algebra_simps)
  moreover from this(2) have "(a * 64 + uint b mod 64 + 1) * 64 ^ length bs \<le> (a + 1) * 64 * 64 ^ length bs"
    by (rule mult_right_mono) simp
  ultimately have "0 \<le> utf8_acc (a * 64 + uint b mod 64) bs"
      "utf8_acc (a * 64 + uint b mod 64) bs < (a + 1) * 64 * 64 ^ length bs"
    using Cons.IH [of "a * 64 + uint b mod 64"] by linarith+
  then show ?case by (simp add: utf8_acc_def mult.assoc distrib_right)
qed (simp add: utf8_acc_def)

definition utf8_limit :: "int list" where
  "utf8_limit = [0x800, 0x10000, 0x00200000, 0x04000000, 0x80000000]"

lemma utf8_lead_limit:
  assumes "utf8_more (uint b) = Some l" and "length bs = l"
  shows "1 \<le> l \<and> l \<le> 5 \<and> 0 \<le> utf8_acc (uint b AND utf8_first_code_mask ! (l - 1)) bs \<and>
    utf8_acc (uint b AND utf8_first_code_mask ! (l - 1)) bs < utf8_limit ! (l - 1)"
proof -
  have "l = 1 \<or> l = 2 \<or> l = 3 \<or> l = 4 \<or> l = 5"
    using assms(1) by (auto simp: utf8_more_def split: if_splits)
  moreover have "0 \<le> uint b mod 32" "uint b mod 32 < 32" "0 \<le> uint b mod 16" "uint b mod 16 < 16"
    "0 \<le> uint b mod 8" "uint b mod 8 < 8" "0 \<le> uint b mod 4" "uint b mod 4 < 4"
    "0 \<le> uint b mod 2" "uint b mod 2 < 2" by simp_all
  ultimately show ?thesis
    using utf8_acc_bounds [of "uint b AND utf8_first_code_mask ! (l - 1)" bs] assms(2)
    by (auto simp: utf8_first_code_mask_def utf8_limit_def bytes)
qed

lemma utf8_lead_unique:
  assumes "utf8_more (uint b) = Some l" and "utf8_more (uint b') = Some l"
    and "uint b AND utf8_first_code_mask ! (l - 1) = uint b' AND utf8_first_code_mask ! (l - 1)"
  shows "b = b'"
proof -
  have c: "l = 1 \<or> l = 2 \<or> l = 3 \<or> l = 4 \<or> l = 5"
    using assms(1) by (auto simp: utf8_more_def split: if_splits)
  have m: "x mod 32 = x - 192" if "192 \<le> x" "x < 224" for x :: int using that by presburger
  have m2: "x mod 16 = x - 224" if "224 \<le> x" "x < 240" for x :: int using that by presburger
  have m3: "x mod 8 = x - 240" if "240 \<le> x" "x < 248" for x :: int using that by presburger
  have m4: "x mod 4 = x - 248" if "248 \<le> x" "x < 252" for x :: int using that by presburger
  have m5: "x mod 2 = x - 252" if "252 \<le> x" "x < 254" for x :: int using that by presburger
  have "uint b = uint b'"
    using c assms by (auto simp: utf8_more_def utf8_first_code_mask_def bytes m m2 m3 m4 m5 split: if_splits)
  then show ?thesis by (simp add: word_uint_eq_iff)
qed

lemma u8_in_u32 [simp]: "uint (ucast (b :: u8) :: u32) = uint b" "ucast (ucast (b :: u8) :: u32) = b"
proof -
  have "uint b < 4294967296" using uint_u8_bounds(2) [of b] by linarith
  then have "uint b mod 4294967296 = uint b" by simp
  then show "uint (ucast (b :: u8) :: u32) = uint b" "ucast (ucast (b :: u8) :: u32) = b"
    by (simp_all add: word_uint_eq_iff uint_ucast_down)
qed

lemma unicode_from_utf8_canonical:
  assumes "unicode_from_utf8 buf p max_len = Some (c, p')" and "c \<ge> 0"
  shows "take (p' - p) (drop p buf) = unicode_to_utf8 (word_of_int c) \<and> c < 2147483648
    \<and> p < p' \<and> p' \<le> length buf"
proof (cases "128 \<le> uint (buf ! p)")
  case True
  obtain bs where p: "p < length buf" and more: "utf8_more (uint (buf ! p)) = Some (length bs)"
    and bs: "bs = take (length bs) (drop (p + 1) buf)" "p' = p + 1 + length bs" "p' \<le> length buf"
    and conts: "\<forall>x \<in> set bs. is_cont x"
    and acc: "c = utf8_acc (uint (buf ! p) AND utf8_first_code_mask ! (length bs - 1)) bs"
    and minc: "utf8_min_code ! (length bs - 1) \<le> c"
    using unicode_from_utf8_multi [OF assms True] by metis
  note lim = utf8_lead_limit [OF more refl]
  have range: "c < 2147483648" "128 \<le> c"
    using lim minc unfolding acc [symmetric]
    by (auto simp: utf8_limit_def utf8_min_code_def less_Suc_eq_le numeral_eq_Suc le_Suc_eq)
  define w where "w = (word_of_int c :: u32)"
  have w: "uint w = c" using range by (simp add: w_def uint_word_of_int)
  obtain b' bs' where enc: "unicode_to_utf8 w = b' # bs'" "\<forall>x \<in> set bs'. is_cont x"
    and more': "utf8_more (uint b') = Some (length bs')"
    and minc': "utf8_min_code ! (length bs' - 1) \<le> c"
    and acc': "utf8_acc (uint b' AND utf8_first_code_mask ! (length bs' - 1)) bs' = c"
    using unicode_to_utf8_bytes [of w] range w by auto
  note lim' = utf8_lead_limit [OF more' refl]
  have len: "length bs = length bs'"
    using lim lim' minc minc' unfolding acc [symmetric] acc'
    by (auto simp: utf8_limit_def utf8_min_code_def numeral_eq_Suc le_Suc_eq)
  have "uint (buf ! p) AND utf8_first_code_mask ! (length bs - 1)
      = uint b' AND utf8_first_code_mask ! (length bs - 1) \<and> bs = bs'"
    using utf8_acc_inj [OF len conts enc(2)] acc acc' len by metis
  then have "b' = buf ! p" and "bs' = bs"
    using utf8_lead_unique [OF more' ] more len by auto
  moreover have "take (p' - p) (drop p buf) = buf ! p # bs"
    using p bs by (simp add: Cons_nth_drop_Suc [symmetric])
  ultimately show ?thesis using enc(1) range bs p by (simp add: w_def)
next
  case False
  then have "p < length buf" "c = uint (buf ! p)" "p' = p + 1"
    using assms(1) by (auto simp: unicode_from_utf8_def Option.bind_eq_Some_conv rd_Some_iff Let_def)
  moreover from this False have "unicode_to_utf8 (word_of_int c) = [buf ! p]"
    by (simp add: unicode_to_utf8_def u32_less_iff uint_word_of_int)
  ultimately show ?thesis
    using False by (simp add: Cons_nth_drop_Suc [symmetric])
qed


section \<open>Unaligned little-endian accesses, digits\<close>

definition get_u16 :: "u8 list \<Rightarrow> nat \<Rightarrow> u32 option" where
  "get_u16 tab p = do { b0 \<leftarrow> rd tab p; b1 \<leftarrow> rd tab (p + 1);
     Some (ucast b0 OR push_bit 8 (ucast b1)) }"

definition get_u32 :: "u8 list \<Rightarrow> nat \<Rightarrow> u32 option" where
  "get_u32 tab p = do { b0 \<leftarrow> rd tab p; b1 \<leftarrow> rd tab (p + 1); b2 \<leftarrow> rd tab (p + 2); b3 \<leftarrow> rd tab (p + 3);
     Some (ucast b0 OR push_bit 8 (ucast b1) OR push_bit 16 (ucast b2) OR push_bit 24 (ucast b3)) }"

definition put_u32 :: "u8 list \<Rightarrow> nat \<Rightarrow> u32 \<Rightarrow> u8 list option" where
  "put_u32 tab p val = blit tab p (le32 val)"

definition from_hex :: "int \<Rightarrow> int" where
  "from_hex c =
     (if c \<ge> 0x30 \<and> c \<le> 0x39 then c - 0x30
      else if c \<ge> 0x41 \<and> c \<le> 0x46 then c - 0x41 + 10
      else if c \<ge> 0x61 \<and> c \<le> 0x66 then c - 0x61 + 10
      else -1)"

lemma length_le [simp]: "length (le16 v) = 2" "length (le32 w) = 4"
  by (simp_all add: le16_def le32_def)

lemma get_u16_le16: "get_u16 (pre @ le16 v @ post) (length pre) = Some (ucast v)"
proof -
  have "rd (pre @ le16 v @ post) (length pre) = Some (ucast v)"
    "rd (pre @ le16 v @ post) (length pre + 1) = Some (ucast (drop_bit 8 v))"
    unfolding rd_append_offset [of pre _ 0, simplified] rd_append_offset by (simp_all add: le16_def)
  moreover have "ucast (ucast v :: u8) OR push_bit 8 (ucast (ucast (drop_bit 8 v) :: u8)) = (ucast v :: u32)"
    by (rule bit_word_eqI)
      (auto simp: bit_simps simp del: drop_bit_eq_div push_bit_eq_mult dest: bit_imp_le_length)
  ultimately show ?thesis by (simp add: get_u16_def)
qed

lemma get_u32_le32: "get_u32 (pre @ le32 v @ post) (length pre) = Some v"
proof -
  have "rd (pre @ le32 v @ post) (length pre) = Some (ucast v)"
    "rd (pre @ le32 v @ post) (length pre + 1) = Some (ucast (drop_bit 8 v))"
    "rd (pre @ le32 v @ post) (length pre + 2) = Some (ucast (drop_bit 16 v))"
    "rd (pre @ le32 v @ post) (length pre + 3) = Some (ucast (drop_bit 24 v))"
    unfolding rd_append_offset [of pre _ 0, simplified] rd_append_offset by (simp_all add: le32_def)
  moreover have "ucast (ucast v :: u8) OR push_bit 8 (ucast (ucast (drop_bit 8 v) :: u8))
     OR push_bit 16 (ucast (ucast (drop_bit 16 v) :: u8))
     OR push_bit 24 (ucast (ucast (drop_bit 24 v) :: u8)) = v"
  proof (rule bit_word_eqI)
    fix n :: nat
    assume "n < LENGTH(32)"
    then consider "n < 8" | "8 \<le> n" "n < 16" | "16 \<le> n" "n < 24" | "24 \<le> n" "n < 32" by force
    then show "bit (ucast (ucast v :: u8) OR push_bit 8 (ucast (ucast (drop_bit 8 v) :: u8))
       OR push_bit 16 (ucast (ucast (drop_bit 16 v) :: u8))
       OR push_bit 24 (ucast (ucast (drop_bit 24 v) :: u8)) :: u32) n = bit v n"
      by cases (auto simp: bit_simps simp del: drop_bit_eq_div push_bit_eq_mult)
  qed
  ultimately show ?thesis by (simp add: get_u32_def)
qed

lemma get_put_u32:
  assumes "p + 4 \<le> length tab"
  shows "\<exists>tab'. put_u32 tab p v = Some tab' \<and> length tab' = length tab \<and> get_u32 tab' p = Some v"
proof -
  let ?t = "take p tab @ le32 v @ drop (p + 4) tab"
  have "put_u32 tab p v = Some ?t" using assms by (simp add: put_u32_def blit_def)
  moreover have "get_u32 ?t p = Some v"
    using get_u32_le32 [of "take p tab" v "drop (p + 4) tab"] assms by simp
  ultimately show ?thesis using assms by auto
qed

lemma from_hex_range: "-1 \<le> from_hex c \<and> from_hex c \<le> 15"
  by (auto simp: from_hex_def)

section \<open>Properties\<close>

text \<open>C1: every code point below 2^31 that \<^verbatim>\<open>unicode_to_utf8\<close> encodes is read back by
  \<^verbatim>\<open>unicode_from_utf8\<close>, at any position of any buffer, and the decoder stops right
  behind the encoded bytes.\<close>

theorem utf8_encode_decode:
  assumes "uint c < 2147483648" and "int (length (unicode_to_utf8 c)) \<le> max_len"
  shows "unicode_from_utf8 (pre @ unicode_to_utf8 c @ post) (length pre) max_len
    = Some (uint c, length pre + length (unicode_to_utf8 c))"
  by (rule unicode_utf8_roundtrip [OF assms])

theorem utf8_encode_decode_witness:
  "unicode_from_utf8 ([65] @ unicode_to_utf8 0x20AC @ [66]) (length [65 :: u8]) 6
    = Some (uint (0x20AC :: u32), length [65 :: u8] + length (unicode_to_utf8 0x20AC))"
  by (rule utf8_encode_decode) (simp_all add: unicode_to_utf8_def)

text \<open>C2: the decoder accepts only the shortest form: whatever it accepts is exactly what
  \<^verbatim>\<open>unicode_to_utf8\<close> writes for the decoded value, so overlong and truncated sequences
  are all rejected.\<close>

theorem utf8_decode_canonical:
  assumes "unicode_from_utf8 buf p max_len = Some (c, p')" and "c \<ge> 0"
  shows "take (p' - p) (drop p buf) = unicode_to_utf8 (word_of_int c) \<and> c < 2147483648
    \<and> p < p' \<and> p' \<le> length buf"
  by (rule unicode_from_utf8_canonical [OF assms])

theorem utf8_decode_canonical_witness:
  "take (3 - 1) (drop 1 [65, 195, 169, 66 :: u8]) = unicode_to_utf8 (word_of_int 233) \<and> (233 :: int) < 2147483648
    \<and> (1 :: nat) < 3 \<and> 3 \<le> length [65, 195, 169, 66 :: u8]"
  by (rule utf8_decode_canonical [where max_len = 6]) (code_simp, simp)

text \<open>The decoder never reads outside its buffer, whatever bytes it holds.\<close>

theorem utf8_decode_in_bounds:
  assumes "p < length buf" and "int p + max_len \<le> int (length buf)"
  shows "unicode_from_utf8 buf p max_len \<noteq> None"
  by (rule unicode_from_utf8_no_oob [OF assms])

theorem utf8_decode_in_bounds_witness:
  "unicode_from_utf8 [0xE2, 0x82] 0 2 \<noteq> None"
  by (rule utf8_decode_in_bounds) simp_all

text \<open>C23: any sequence of \<^verbatim>\<open>dbuf_put\<close> on a well-formed buffer, with a reallocation
  function that may fail at any moment, stays inside the allocated block, keeps the buffer
  well formed, and either has appended exactly the bytes given, or the error flag is set.\<close>

theorem dbuf_puts_appends_or_fails:
  assumes "dbuf_wf s"
  shows "\<exists>s'. dbuf_puts s ds = Some s' \<and> dbuf_wf s' \<and>
     (db_error s' \<or> dbuf_data s' = dbuf_data s @ concat ds)"
  using dbuf_puts_cases [OF assms, of ds] by auto

theorem dbuf_puts_appends_or_fails_witness:
  "\<exists>s'. dbuf_puts (dbuf_init2 (\<lambda>b n. None)) [[1, 2], [3]] = Some s' \<and> dbuf_wf s' \<and>
     (db_error s' \<or> dbuf_data s' = dbuf_data (dbuf_init2 (\<lambda>b n. None)) @ concat [[1, 2], [3]])"
  by (rule dbuf_puts_appends_or_fails) (simp add: dbuf_init2_def dbuf_wf_def realloc_law_def)

text \<open>\<^verbatim>\<open>pstrcpy\<close> stays inside a buffer of \<^verbatim>\<open>buf_size\<close> bytes and leaves in it the
  C string \<^verbatim>\<open>str\<close> cut to \<^verbatim>\<open>buf_size - 1\<close> bytes, always terminated.\<close>

theorem pstrcpy_truncates:
  assumes "0 \<in> set str" and "0 < buf_size" and "buf_size \<le> int (length buf)"
  shows "\<exists>b. pstrcpy buf buf_size str = Some b \<and> length b = length buf
           \<and> cstr b = take (nat (buf_size - 1)) (cstr str)"
  by (rule pstrcpy_cstr [OF assms])

theorem pstrcpy_truncates_witness:
  "\<exists>b. pstrcpy [9, 9, 9] 3 [65, 66, 67, 0] = Some b \<and> length b = length [9, 9, 9 :: u8]
           \<and> cstr b = take (nat (3 - 1)) (cstr [65, 66, 67, 0])"
  by (rule pstrcpy_truncates) simp_all

end
