(* ===== verification/CharRange.thy ===== *)
theory CharRange
  imports Cutils "HOL-Library.Signed_Division"
begin

text \<open>
  The character ranges of \<^verbatim>\<open>libunicode.c\<close> and \<^verbatim>\<open>libunicode.h\<close>: a set of code points
  as a growable array of points, the interval from each even point up to the next odd one,
  excluded. The operations are those of the code (\<^verbatim>\<open>cr_add_point\<close>, \<^verbatim>\<open>cr_compress\<close>,
  \<^verbatim>\<open>cr_op\<close>, \<^verbatim>\<open>cr_invert\<close> and the others); the lemmas say what each does to the set.
\<close>

section \<open>The operations\<close>

text \<open>\<open>cr_points\<close> is the allocated block, of \<open>cr_size\<close> points; \<open>cr_realloc_func\<close> is the
  allocator, as for a \<open>DynBuf\<close>.\<close>

record CharRange =
  cr_len :: nat
  cr_size :: nat
  cr_points :: "u32 list"
  cr_realloc_func :: "u32 list \<Rightarrow> nat \<Rightarrow> u32 list option"

datatype CharRangeOp = CR_OP_UNION | CR_OP_INTER | CR_OP_XOR

definition cr_init :: "(u32 list \<Rightarrow> nat \<Rightarrow> u32 list option) \<Rightarrow> CharRange" where
  "cr_init f = \<lparr>cr_len = 0, cr_size = 0, cr_points = [], cr_realloc_func = f\<rparr>"

text \<open>\<^verbatim>\<open>max_int(size, cr->size * 3 / 2)\<close>: the multiplication is one of \<^verbatim>\<open>int\<close>, which wraps
  here once the size exceeds a third of \<open>2 ^ 31\<close>; the maximum then picks \<open>size\<close>.\<close>

definition cr_new_size :: "nat \<Rightarrow> nat \<Rightarrow> nat" where
  "cr_new_size sz cur = nat (max (int sz) (sint (of_nat (cur * 3) :: u32) sdiv 2))"

definition cr_realloc :: "CharRange \<Rightarrow> nat \<Rightarrow> int \<times> CharRange" where
  "cr_realloc cr sz =
     (if sz > cr_size cr then
        let new_size = cr_new_size sz (cr_size cr)
        in case cr_realloc_func cr (cr_points cr) new_size of
             None \<Rightarrow> (-1, cr)
           | Some new_buf \<Rightarrow> (0, cr\<lparr>cr_points := new_buf, cr_size := new_size\<rparr>)
      else (0, cr))"

definition cr_copy :: "CharRange \<Rightarrow> CharRange \<Rightarrow> (int \<times> CharRange) option" where
  "cr_copy cr cr1 =
     (let (r, cr2) = cr_realloc cr (cr_len cr1)
      in if r \<noteq> 0 then Some (-1, cr2)
         else do {
           b \<leftarrow> blit (cr_points cr2) 0 (take (cr_len cr1) (cr_points cr1));
           Some (0, cr2\<lparr>cr_points := b, cr_len := cr_len cr1\<rparr>) })"

definition cr_add_point :: "CharRange \<Rightarrow> u32 \<Rightarrow> (int \<times> CharRange) option" where
  "cr_add_point cr v =
     (let (r, cr1) = (if cr_len cr \<ge> cr_size cr then cr_realloc cr (cr_len cr + 1) else (0, cr))
      in if r \<noteq> 0 then Some (-1, cr1)
         else do {
           b \<leftarrow> wr (cr_points cr1) (cr_len cr1) v;
           Some (0, cr1\<lparr>cr_points := b, cr_len := cr_len cr1 + 1\<rparr>) })"

definition cr_add_interval :: "CharRange \<Rightarrow> u32 \<Rightarrow> u32 \<Rightarrow> (int \<times> CharRange) option" where
  "cr_add_interval cr c1 c2 =
     (let (r, cr1) = (if cr_len cr + 2 > cr_size cr then cr_realloc cr (cr_len cr + 2) else (0, cr))
      in if r \<noteq> 0 then Some (-1, cr1)
         else do {
           b \<leftarrow> wr (cr_points cr1) (cr_len cr1) c1;
           b' \<leftarrow> wr b (cr_len cr1 + 1) c2;
           Some (0, cr1\<lparr>cr_points := b', cr_len := cr_len cr1 + 2\<rparr>) })"

text \<open>\<open>cr_compress\<close> moves the merged intervals to the front of the array: \<open>i\<close> is read,
  \<open>k\<close> is written, and the inner loop lets \<open>j\<close> run over adjacent intervals. Each access is
  checked, after the test that precedes it in the code.\<close>

partial_function (option) compress_run :: "u32 list \<Rightarrow> nat \<Rightarrow> nat \<Rightarrow> nat option" where
  "compress_run pt j len =
     (if j + 3 < len then do {
        x \<leftarrow> rd pt (j + 1);
        y \<leftarrow> rd pt (j + 2);
        if x = y then compress_run pt (j + 2) len else Some j }
      else Some j)"

partial_function (option) compress_loop :: "u32 list \<Rightarrow> nat \<Rightarrow> nat \<Rightarrow> nat \<Rightarrow> (u32 list \<times> nat) option" where
  "compress_loop pt i k len =
     (if i + 1 < len then do {
        x \<leftarrow> rd pt i;
        y \<leftarrow> rd pt (i + 1);
        if x = y then compress_loop pt (i + 2) k len
        else do {
          j \<leftarrow> compress_run pt i len;
          pt \<leftarrow> wr pt k x;
          z \<leftarrow> rd pt (j + 1);
          pt \<leftarrow> wr pt (k + 1) z;
          compress_loop pt (j + 2) (k + 2) len } }
      else Some (pt, k))"

declare compress_run.simps [code] compress_loop.simps [code]

definition cr_compress :: "CharRange \<Rightarrow> CharRange option" where
  "cr_compress cr = do {
     (pt, k) \<leftarrow> compress_loop (cr_points cr) 0 0 (cr_len cr);
     Some (cr\<lparr>cr_points := pt, cr_len := k\<rparr>) }"

fun cr_in_op :: "CharRangeOp \<Rightarrow> bool \<Rightarrow> bool \<Rightarrow> bool" where
  "cr_in_op CR_OP_UNION a b = (a \<or> b)"
| "cr_in_op CR_OP_INTER a b = (a \<and> b)"
| "cr_in_op CR_OP_XOR a b = (a \<noteq> b)"

text \<open>The next point of the two arrays in increasing order, with the indices behind it.\<close>

definition cr_next :: "u32 list \<Rightarrow> u32 list \<Rightarrow> nat \<Rightarrow> nat \<Rightarrow> (u32 \<times> nat \<times> nat) option" where
  "cr_next a_pt b_pt a_idx b_idx =
     (if a_idx < length a_pt \<and> b_idx < length b_pt then
        if a_pt ! a_idx < b_pt ! b_idx then Some (a_pt ! a_idx, a_idx + 1, b_idx)
        else if a_pt ! a_idx = b_pt ! b_idx then Some (a_pt ! a_idx, a_idx + 1, b_idx + 1)
        else Some (b_pt ! b_idx, a_idx, b_idx + 1)
      else if a_idx < length a_pt then Some (a_pt ! a_idx, a_idx + 1, b_idx)
      else if b_idx < length b_pt then Some (b_pt ! b_idx, a_idx, b_idx + 1)
      else None)"

function cr_op_loop :: "CharRange \<Rightarrow> u32 list \<Rightarrow> u32 list \<Rightarrow> CharRangeOp \<Rightarrow> nat \<Rightarrow> nat
    \<Rightarrow> (int \<times> CharRange) option" where
  "cr_op_loop cr a_pt b_pt op a_idx b_idx =
     (case cr_next a_pt b_pt a_idx b_idx of
        None \<Rightarrow> do { cr \<leftarrow> cr_compress cr; Some (0, cr) }
      | Some (v, a_idx', b_idx') \<Rightarrow>
          if cr_in_op op (odd a_idx') (odd b_idx') \<noteq> odd (cr_len cr)
          then (case cr_add_point cr v of
                  None \<Rightarrow> None
                | Some (r, cr') \<Rightarrow>
                    if r \<noteq> 0 then Some (-1, cr') else cr_op_loop cr' a_pt b_pt op a_idx' b_idx')
          else cr_op_loop cr a_pt b_pt op a_idx' b_idx')"
  by pat_completeness auto
termination
  by (relation "measure (\<lambda>(cr, a_pt, b_pt, op, a_idx, b_idx).
        (length a_pt - a_idx) + (length b_pt - b_idx))")
    (auto simp: cr_next_def split: if_splits)

declare cr_op_loop.simps [simp del]

definition cr_op :: "CharRange \<Rightarrow> u32 list \<Rightarrow> u32 list \<Rightarrow> CharRangeOp \<Rightarrow> (int \<times> CharRange) option" where
  "cr_op cr a_pt b_pt op = cr_op_loop cr a_pt b_pt op 0 0"

definition cr_union1 :: "CharRange \<Rightarrow> u32 list \<Rightarrow> (int \<times> CharRange) option" where
  "cr_union1 cr b_pt =
     cr_op (cr\<lparr>cr_len := 0, cr_size := 0, cr_points := []\<rparr>)
       (take (cr_len cr) (cr_points cr)) b_pt CR_OP_UNION"

definition cr_union_interval :: "CharRange \<Rightarrow> u32 \<Rightarrow> u32 \<Rightarrow> (int \<times> CharRange) option" where
  "cr_union_interval cr c1 c2 = cr_union1 cr [c1, c2 + 1]"

definition UINT32_MAX :: u32 where
  "UINT32_MAX = 0xFFFFFFFF"

definition cr_invert :: "CharRange \<Rightarrow> (int \<times> CharRange) option" where
  "cr_invert cr =
     (let len = cr_len cr; (r, cr1) = cr_realloc cr (len + 2)
      in if r \<noteq> 0 then Some (-1, cr1)
         else do {
           b \<leftarrow> blit (cr_points cr1) 1 (take len (cr_points cr1));
           b \<leftarrow> wr b 0 0;
           b \<leftarrow> wr b (len + 1) UINT32_MAX;
           cr2 \<leftarrow> cr_compress (cr1\<lparr>cr_points := b, cr_len := len + 2\<rparr>);
           Some (0, cr2) })"

section \<open>The set a range denotes\<close>

fun cr_in :: "u32 \<Rightarrow> u32 list \<Rightarrow> bool" where
  "cr_in c (a # b # ps) \<longleftrightarrow> a \<le> c \<and> c < b \<or> cr_in c ps"
| "cr_in c _ \<longleftrightarrow> False"

definition cr_wf :: "CharRange \<Rightarrow> bool" where
  "cr_wf cr \<longleftrightarrow> cr_len cr \<le> cr_size cr \<and> length (cr_points cr) = cr_size cr
     \<and> realloc_law (cr_realloc_func cr)"

definition cr_data :: "CharRange \<Rightarrow> u32 list" where
  "cr_data cr = take (cr_len cr) (cr_points cr)"

text \<open>Sorted points, an even number of them; in the canonical form, strictly sorted.\<close>

definition points_ok :: "u32 list \<Rightarrow> bool" where
  "points_ok ps \<longleftrightarrow> even (length ps) \<and> sorted ps"

definition points_canon :: "u32 list \<Rightarrow> bool" where
  "points_canon ps \<longleftrightarrow> even (length ps) \<and> sorted_wrt (<) ps"

lemma points_canon_ok: "points_canon ps \<Longrightarrow> points_ok ps"
  by (simp add: points_canon_def points_ok_def strict_sorted_imp_sorted)

lemma length_cr_data [simp]: "cr_wf cr \<Longrightarrow> length (cr_data cr) = cr_len cr"
  by (simp add: cr_wf_def cr_data_def)

abbreviation cnt :: "u32 \<Rightarrow> u32 list \<Rightarrow> nat" where
  "cnt c ps \<equiv> length (filter (\<lambda>p. p \<le> c) ps)"

lemma cr_in_parity: "points_ok ps \<Longrightarrow> cr_in c ps \<longleftrightarrow> odd (cnt c ps)"
proof (induction c ps rule: cr_in.induct)
  case (1 c a b ps)
  have ok: "points_ok ps" and ab: "a \<le> b" "\<forall>x \<in> set ps. b \<le> x" using "1.prems" by (auto simp: points_ok_def)
  have z: "cnt c ps = 0" if "\<not> b \<le> c"
    using that ab(2) by (auto simp: filter_empty_conv)
  show ?case using "1.IH" [OF ok] ab(1) z by (cases "b \<le> c") auto
qed (auto simp: points_ok_def)

section \<open>Compression\<close>

text \<open>The compression as a function of the points alone.\<close>

fun compress :: "u32 list \<Rightarrow> u32 list"
  and compress_from :: "u32 \<Rightarrow> u32 \<Rightarrow> u32 list \<Rightarrow> u32 list" where
  "compress (a # b # ps) = (if a = b then compress ps else compress_from a b ps)"
| "compress _ = []"
| "compress_from a b (c # d # ps) =
     (if b = c then compress_from a d ps else a # b # compress (c # d # ps))"
| "compress_from a b _ = [a, b]"

text \<open>The in-place loops compute it: with the points from \<open>i\<close> on still unread.\<close>

lemma short_list: "length xs \<le> 1 \<Longrightarrow> xs = [] \<or> (\<exists>x. xs = [x])"
  by (cases xs) auto

lemma drop_take_two:
  "i + 1 < len \<Longrightarrow> len \<le> length pt \<Longrightarrow>
   drop i (take len pt) = pt ! i # pt ! (i + 1) # drop (i + 2) (take len pt)"
  using Cons_nth_drop_Suc [of i "take len pt"] Cons_nth_drop_Suc [of "Suc i" "take len pt"] by simp

text \<open>The loops with unchecked accesses, for the proofs.\<close>

function compress_run_fn :: "u32 list \<Rightarrow> nat \<Rightarrow> nat \<Rightarrow> nat" where
  "compress_run_fn pt j len =
     (if j + 3 < len \<and> pt ! (j + 1) = pt ! (j + 2) then compress_run_fn pt (j + 2) len else j)"
  by pat_completeness auto
termination by (relation "measure (\<lambda>(pt, j, len). len - j)") auto

declare compress_run_fn.simps [simp del]

lemma compress_run_ge: "j \<le> compress_run_fn pt j len"
proof (induction pt j len rule: compress_run_fn.induct)
  case (1 pt j len)
  then show ?case by (cases "j + 3 < len \<and> pt ! (j + 1) = pt ! (j + 2)")
      (auto simp: compress_run_fn.simps [of pt j len])
qed

function compress_loop_fn :: "u32 list \<Rightarrow> nat \<Rightarrow> nat \<Rightarrow> nat \<Rightarrow> u32 list \<times> nat" where
  "compress_loop_fn pt i k len =
     (if i + 1 < len then
        if pt ! i = pt ! (i + 1) then compress_loop_fn pt (i + 2) k len
        else
          let j = compress_run_fn pt i len;
              pt1 = pt[k := pt ! i];
              pt2 = pt1[k + 1 := pt1 ! (j + 1)]
          in compress_loop_fn pt2 (j + 2) (k + 2) len
      else (pt, k))"
  by pat_completeness auto
termination
proof (relation "measure (\<lambda>(pt, i, k, len). len - i)", goal_cases)
  case (3 pt i k len x xa xb)
  then show ?case using compress_run_ge [of i pt len] by simp
qed auto

declare compress_loop_fn.simps [simp del]

lemma compress_from_run:
  assumes "len \<le> length pt" and "j + 1 < len"
  shows "compress_from a (pt ! (j + 1)) (drop (j + 2) (take len pt)) =
      a # pt ! (compress_run_fn pt j len + 1) # compress (drop (compress_run_fn pt j len + 2) (take len pt))
    \<and> compress_run_fn pt j len + 1 < len"
  using assms
proof (induction pt j len rule: compress_run_fn.induct)
  case (1 pt j len)
  let ?ps = "drop (j + 2) (take len pt)"
  show ?case
  proof (cases "j + 3 < len")
    case True
    then have ps: "?ps = pt ! (j + 2) # pt ! (j + 2 + 1) # drop (j + 2 + 2) (take len pt)"
      using "1.prems" by (intro drop_take_two) auto
    show ?thesis
    proof (cases "pt ! (j + 1) = pt ! (j + 2)")
      case eq: True
      have "j + 2 + 1 < len" using True by simp
      with "1.IH" [OF conjI [OF True eq] "1.prems"(1)] eq show ?thesis
        unfolding ps by (simp add: compress_run_fn.simps [of pt j len] True)
    next
      case False
      then have "compress_run_fn pt j len = j" by (simp add: compress_run_fn.simps [of pt j len])
      with False "1.prems" show ?thesis using ps by simp
    qed
  next
    case False
    then have r: "compress_run_fn pt j len = j" by (simp add: compress_run_fn.simps [of pt j len])
    have "length ?ps \<le> 1" using False "1.prems" by simp
    note short_list [OF this]
    with r "1.prems" show ?thesis by auto
  qed
qed

lemma compress_loop_spec:
  assumes "len \<le> length pt" and "k \<le> i"
  shows "case compress_loop_fn pt i k len of (pt', k') \<Rightarrow>
    take k' pt' = take k pt @ compress (drop i (take len pt)) \<and> length pt' = length pt \<and> k' \<le> max k len"
  using assms
proof (induction pt i k len rule: compress_loop_fn.induct)
  case (1 pt i k len)
  show ?case
  proof (cases "i + 1 < len")
    case True
    then have ds: "drop i (take len pt) = pt ! i # pt ! (i + 1) # drop (i + 2) (take len pt)"
      using "1.prems" by (intro drop_take_two) auto
    show ?thesis
    proof (cases "pt ! i = pt ! (i + 1)")
      case eq: True
      show ?thesis
        using "1.IH"(1) [OF True eq "1.prems"(1)] "1.prems"(2) True eq unfolding ds
        by (simp add: compress_loop_fn.simps [of pt i k len])
    next
      case False
      let ?j = "compress_run_fn pt i len"
      have j: "i \<le> ?j" by (rule compress_run_ge)
      note r = compress_from_run [OF "1.prems"(1) True, of "pt ! i"]
      let ?p2 = "pt[k := pt ! i, k + 1 := pt[k := pt ! i] ! (?j + 1)]"
      have nth: "pt[k := pt ! i] ! (?j + 1) = pt ! (?j + 1)" using j "1.prems"(2) by simp
      have l2: "compress_loop_fn pt i k len = compress_loop_fn ?p2 (?j + 2) (k + 2) len"
        using True False by (simp add: compress_loop_fn.simps [of pt i k len] Let_def)
      have tk: "take (k + 2) ?p2 = take k pt @ [pt ! i, pt ! (?j + 1)]"
        using "1.prems" True j nth by (simp add: take_Suc_conv_app_nth)
      have "drop (?j + 2) (take len ?p2) = drop (?j + 2) (take len pt)"
        using "1.prems"(2) j by (simp add: take_update_swap)
      moreover obtain pt' k' where r2: "compress_loop_fn ?p2 (?j + 2) (k + 2) len = (pt', k')"
        by (metis surj_pair)
      ultimately have f: "take k' pt' = take k pt @ [pt ! i, pt ! (?j + 1)]
            @ compress (drop (?j + 2) (take len pt)) \<and> length pt' = length pt \<and> k' \<le> max (k + 2) len"
        using "1.IH"(2) [OF True False refl refl refl] "1.prems" j tk by simp
      have "max (k + 2) len \<le> max k len" using True "1.prems"(2) r j by linarith
      with f r have "take k' pt' = take k pt @ compress (drop i (take len pt)) \<and> length pt' = length pt
          \<and> k' \<le> max k len"
        unfolding ds using False by auto
      then show ?thesis unfolding l2 r2 by simp
    qed
  next
    case False
    then have "length (drop i (take len pt)) \<le> 1" by auto
    note short_list [OF this]
    with False show ?thesis by (auto simp: compress_loop_fn.simps [of pt i k len])
  qed
qed

text \<open>The checked loops never leave the array.\<close>

lemma compress_run_in:
  "len \<le> length pt \<Longrightarrow> compress_run pt j len = Some (compress_run_fn pt j len)"
proof (induction pt j len rule: compress_run_fn.induct)
  case (1 pt j len)
  then show ?case by (auto simp: compress_run.simps [of pt j len] compress_run_fn.simps [of pt j len])
qed

lemma compress_loop_in:
  "len \<le> length pt \<Longrightarrow> k \<le> i \<Longrightarrow> compress_loop pt i k len = Some (compress_loop_fn pt i k len)"
proof (induction pt i k len rule: compress_loop_fn.induct)
  case (1 pt i k len)
  note simps = compress_loop.simps [of pt i k len] compress_loop_fn.simps [of pt i k len]
  show ?case
  proof (cases "i + 1 < len")
    case True
    show ?thesis
    proof (cases "pt ! i = pt ! (i + 1)")
      case eq: True
      with "1.IH"(1) [OF True eq] "1.prems" True show ?thesis by (simp add: simps)
    next
      case False
      let ?j = "compress_run_fn pt i len"
      have j: "i \<le> ?j" "?j + 1 < len"
        using compress_run_ge [of i pt len] compress_from_run [OF "1.prems"(1) True] by auto
      have "compress_loop (pt[k := pt ! i, k + 1 := pt[k := pt ! i] ! (?j + 1)]) (?j + 2) (k + 2) len =
          Some (compress_loop_fn (pt[k := pt ! i, k + 1 := pt[k := pt ! i] ! (?j + 1)]) (?j + 2) (k + 2) len)"
        using "1.prems" j by (intro "1.IH"(2) [OF True False refl refl refl]) auto
      with "1.prems" True False j show ?thesis
        by (simp add: simps Let_def compress_run_in)
    qed
  qed (simp add: simps)
qed

lemma cr_compress_data:
  assumes "cr_wf cr"
  shows "\<exists>cr'. cr_compress cr = Some cr' \<and> cr_wf cr' \<and> cr_data cr' = compress (cr_data cr)"
proof -
  obtain pt k where r: "compress_loop_fn (cr_points cr) 0 0 (cr_len cr) = (pt, k)" by (metis surj_pair)
  have "take k pt = compress (cr_data cr) \<and> length pt = length (cr_points cr) \<and> k \<le> cr_len cr"
    using compress_loop_spec [of "cr_len cr" "cr_points cr" 0 0] assms r
    by (simp add: cr_wf_def cr_data_def)
  moreover have "cr_compress cr = Some (cr\<lparr>cr_points := pt, cr_len := k\<rparr>)"
    using compress_loop_in [of "cr_len cr" "cr_points cr" 0 0] assms r
    by (simp add: cr_compress_def cr_wf_def)
  ultimately show ?thesis using assms by (auto simp: cr_wf_def cr_data_def)
qed

lemma compress_props:
  "points_ok ps \<Longrightarrow> cr_in u (compress ps) = cr_in u ps \<and> points_canon (compress ps)
     \<and> set (compress ps) \<subseteq> set ps"
  "a < b \<Longrightarrow> points_ok (a # b # ps) \<Longrightarrow>
     cr_in u (compress_from a b ps) = cr_in u (a # b # ps) \<and> points_canon (compress_from a b ps)
     \<and> set (compress_from a b ps) \<subseteq> set (a # b # ps)"
proof (induction ps and a b ps rule: compress_compress_from.induct)
  case (1 a b ps)
  have ok: "points_ok ps" and le: "a \<le> b" using 1(3) by (auto simp: points_ok_def)
  show ?case
  proof (cases "a = b")
    case True
    with 1(1) [OF True ok] show ?thesis by auto
  next
    case False
    with 1(2) [OF False _ 1(3)] le show ?thesis by simp
  qed
next
  case (3 a b c d ps)
  show ?case
  proof (cases "b = c")
    case True
    have ok: "points_ok (a # d # ps)" "a < d" "b \<le> d" using 3(3,4) True by (auto simp: points_ok_def)
    have "cr_in u (a # b # c # d # ps) = cr_in u (a # d # ps)"
      unfolding cr_in.simps True using ok(2,3) 3(3) True by (meson le_less_trans less_le_trans not_le order.strict_implies_order)
    with 3(1) [OF True ok(2,1)] True show ?thesis by auto
  next
    case False
    have ok: "points_ok (c # d # ps)" "b < c" "\<forall>x \<in> set (c # d # ps). b < x"
      using 3(4) False by (force simp: points_ok_def)+
    have "set (compress (c # d # ps)) \<subseteq> set (c # d # ps)" "points_canon (compress (c # d # ps))"
      "cr_in u (compress (c # d # ps)) = cr_in u (c # d # ps)"
      using 3(2) [OF False ok(1)] by blast+
    moreover from this(1) ok(3) have "\<forall>x \<in> set (compress (c # d # ps)). b < x" by blast
    moreover have "\<forall>x \<in> set (compress (c # d # ps)). a < x"
      using calculation(4) 3(3) by (meson order.strict_trans)
    ultimately show ?thesis using False 3(3) by (auto simp: points_canon_def simp del: compress.simps)
  qed
qed (auto simp: points_ok_def points_canon_def)

section \<open>Adding points\<close>

lemma cr_new_size_ge: "n \<le> cr_new_size n s"
  by (simp add: cr_new_size_def)

lemma cr_realloc_cases:
  assumes wf: "cr_wf cr" and r: "cr_realloc cr n = (r, cr')"
  shows "(r = 0 \<and> cr_wf cr' \<and> cr_data cr' = cr_data cr \<and> cr_len cr' = cr_len cr \<and> n \<le> cr_size cr'
      \<and> cr_realloc_func cr' = cr_realloc_func cr) \<or> (r = -1 \<and> cr' = cr)"
proof (cases "n > cr_size cr")
  case True
  define m where "m = cr_new_size n (cr_size cr)"
  have nm: "n \<le> m" by (simp add: m_def cr_new_size_ge)
  show ?thesis
  proof (cases "cr_realloc_func cr (cr_points cr) m")
    case None
    with r True show ?thesis by (simp add: cr_realloc_def Let_def flip: m_def)
  next
    case (Some b)
    have l: "length b = m" "take (min m (cr_size cr)) b = take (min m (cr_size cr)) (cr_points cr)"
      using realloc_lawD [of "cr_realloc_func cr" "cr_points cr" m b] Some wf by (auto simp: cr_wf_def)
    have "cr_len cr \<le> min m (cr_size cr)" using wf True nm by (auto simp: cr_wf_def)
    then have "take (cr_len cr) b = take (cr_len cr) (cr_points cr)"
      using arg_cong [OF l(2), of "take (cr_len cr)"] by (simp add: min_absorb1)
    with r True Some l wf show ?thesis
      by (auto simp: cr_realloc_def Let_def cr_wf_def cr_data_def m_def [symmetric])
        (use nm in auto)
  qed
qed (use assms in \<open>simp add: cr_realloc_def\<close>)

lemma cr_grow_cases:
  assumes wf: "cr_wf cr" and le: "cr_size cr < cr_len cr + n \<longleftrightarrow> b"
    and r: "(if b then cr_realloc cr (cr_len cr + n) else (0, cr)) = (r, cr')"
  shows "(r = 0 \<and> cr_wf cr' \<and> cr_data cr' = cr_data cr \<and> cr_len cr' = cr_len cr
      \<and> cr_len cr + n \<le> cr_size cr') \<or> (r = -1 \<and> cr' = cr)"
  using assms cr_realloc_cases [OF wf, of "cr_len cr + n" r cr'] by (cases b) auto

lemma cr_add_point_cases:
  assumes wf: "cr_wf cr"
  shows "\<exists>r cr'. cr_add_point cr v = Some (r, cr') \<and> cr_wf cr' \<and>
    (r = 0 \<and> cr_data cr' = cr_data cr @ [v] \<or> r = -1 \<and> cr' = cr)"
proof -
  obtain r cr1 where r: "(if cr_len cr \<ge> cr_size cr then cr_realloc cr (cr_len cr + 1) else (0, cr)) = (r, cr1)"
    by (metis surj_pair)
  have "(r = 0 \<and> cr_wf cr1 \<and> cr_data cr1 = cr_data cr \<and> cr_len cr1 = cr_len cr
      \<and> cr_len cr + 1 \<le> cr_size cr1) \<or> (r = -1 \<and> cr1 = cr)"
    by (rule cr_grow_cases [OF wf _ r]) auto
  then show ?thesis
  proof (elim disjE conjE)
    assume "r = 0" "cr_wf cr1" "cr_data cr1 = cr_data cr" "cr_len cr1 = cr_len cr" "cr_len cr + 1 \<le> cr_size cr1"
    with r show ?thesis
      by (auto simp: cr_add_point_def Let_def cr_wf_def cr_data_def take_Suc_conv_app_nth)
  qed (use r wf in \<open>auto simp: cr_add_point_def Let_def\<close>)
qed

lemma cr_add_interval_cases:
  assumes wf: "cr_wf cr"
  shows "\<exists>r cr'. cr_add_interval cr c1 c2 = Some (r, cr') \<and> cr_wf cr' \<and>
    (r = 0 \<and> cr_data cr' = cr_data cr @ [c1, c2] \<or> r = -1 \<and> cr' = cr)"
proof -
  obtain r cr1 where r: "(if cr_len cr + 2 > cr_size cr then cr_realloc cr (cr_len cr + 2) else (0, cr)) = (r, cr1)"
    by (metis surj_pair)
  have "(r = 0 \<and> cr_wf cr1 \<and> cr_data cr1 = cr_data cr \<and> cr_len cr1 = cr_len cr
      \<and> cr_len cr + 2 \<le> cr_size cr1) \<or> (r = -1 \<and> cr1 = cr)"
    by (rule cr_grow_cases [OF wf _ r]) auto
  then show ?thesis
  proof (elim disjE conjE)
    assume "r = 0" "cr_wf cr1" "cr_data cr1 = cr_data cr" "cr_len cr1 = cr_len cr" "cr_len cr + 2 \<le> cr_size cr1"
    with r show ?thesis
      by (auto simp: cr_add_interval_def Let_def cr_wf_def cr_data_def take_Suc_conv_app_nth)
  qed (use r wf in \<open>auto simp: cr_add_interval_def Let_def\<close>)
qed

section \<open>Union, intersection and exclusive or\<close>

text \<open>The points that the loop of \<open>cr_op\<close> adds, as a function of what is left of the two
  arrays and of the parities of the indices and of the result.\<close>

fun op_points :: "CharRangeOp \<Rightarrow> bool \<Rightarrow> bool \<Rightarrow> bool \<Rightarrow> u32 list \<Rightarrow> u32 list \<Rightarrow> u32 list" where
  "op_points op pa pb po (a # as) (b # bs) =
     (if a < b then
        (if cr_in_op op (\<not> pa) pb \<noteq> po then [a] else [])
          @ op_points op (\<not> pa) pb (cr_in_op op (\<not> pa) pb) as (b # bs)
      else if a = b then
        (if cr_in_op op (\<not> pa) (\<not> pb) \<noteq> po then [a] else [])
          @ op_points op (\<not> pa) (\<not> pb) (cr_in_op op (\<not> pa) (\<not> pb)) as bs
      else
        (if cr_in_op op pa (\<not> pb) \<noteq> po then [b] else [])
          @ op_points op pa (\<not> pb) (cr_in_op op pa (\<not> pb)) (a # as) bs)"
| "op_points op pa pb po (a # as) [] =
     (if cr_in_op op (\<not> pa) pb \<noteq> po then [a] else [])
       @ op_points op (\<not> pa) pb (cr_in_op op (\<not> pa) pb) as []"
| "op_points op pa pb po [] (b # bs) =
     (if cr_in_op op pa (\<not> pb) \<noteq> po then [b] else [])
       @ op_points op pa (\<not> pb) (cr_in_op op pa (\<not> pb)) [] bs"
| "op_points op pa pb po [] [] = []"

lemma op_points_set: "set (op_points op pa pb po as bs) \<subseteq> set as \<union> set bs"
  by (induction op pa pb po as bs rule: op_points.induct) auto

lemma op_points_sorted:
  "sorted as \<Longrightarrow> sorted bs \<Longrightarrow> sorted (op_points op pa pb po as bs)"
proof (induction op pa pb po as bs rule: op_points.induct)
  case (1 op pa pb po a as b bs)
  have "\<forall>x \<in> set (op_points op pa' pb' po' as (b # bs)). a \<le> x" if "a < b" for pa' pb' po'
    using op_points_set [of op pa' pb' po' as "b # bs"] "1.prems" that by fastforce
  moreover have "\<forall>x \<in> set (op_points op pa' pb' po' as bs). a \<le> x" if "a = b" for pa' pb' po'
    using op_points_set [of op pa' pb' po' as bs] "1.prems" that by fastforce
  moreover have "\<forall>x \<in> set (op_points op pa' pb' po' (a # as) bs). b \<le> x" if "b < a" for pa' pb' po'
    using op_points_set [of op pa' pb' po' "a # as" bs] "1.prems" that by fastforce
  ultimately show ?case
    using 1 by (cases a b rule: linorder_cases) (auto simp: sorted_append simp del: op_points.simps(2-4))
next
  case (2 op pa pb po a as)
  have "\<forall>x \<in> set (op_points op pa' pb' po' as []). a \<le> x" for pa' pb' po'
    using op_points_set [of op pa' pb' po' as "[]"] "2.prems" by fastforce
  then show ?case using 2 by (auto simp: sorted_append)
next
  case (3 op pa pb po b bs)
  have "\<forall>x \<in> set (op_points op pa' pb' po' [] bs). b \<le> x" for pa' pb' po'
    using op_points_set [of op pa' pb' po' "[]" bs] "3.prems" by fastforce
  then show ?case using 3 by (auto simp: sorted_append)
qed simp

lemma cnt_zero: "\<forall>x \<in> set ps. c < x \<Longrightarrow> cnt c ps = 0"
  by (auto simp: filter_empty_conv)

text \<open>After the points up to \<open>c\<close>, the status of the result is that of the operands.\<close>

lemma op_points_parity:
  "sorted as \<Longrightarrow> sorted bs \<Longrightarrow> po = cr_in_op op pa pb \<Longrightarrow>
   odd (cnt c (op_points op pa pb po as bs)) \<longleftrightarrow>
     po \<noteq> cr_in_op op (pa \<noteq> odd (cnt c as)) (pb \<noteq> odd (cnt c bs))"
proof (induction op pa pb po as bs rule: op_points.induct)
  case (1 op pa pb po a as b bs)
  show ?case
  proof (cases "a \<le> c \<or> b \<le> c")
    case True
    then show ?thesis
      using 1 by (cases a b rule: linorder_cases) auto
  next
    case False
    then have z: "\<forall>x \<in> set (a # as). c < x" "\<forall>x \<in> set (b # bs). c < x" using "1.prems" by force+
    then have "\<forall>x \<in> set (op_points op pa pb po (a # as) (b # bs)). c < x"
      using op_points_set [of op pa pb po "a # as" "b # bs"] by blast
    with z show ?thesis using "1.prems"(3) by (simp only: cnt_zero) simp
  qed
next
  case (2 op pa pb po a as)
  show ?case
  proof (cases "a \<le> c")
    case False
    then have z: "\<forall>x \<in> set (a # as). c < x" using "2.prems" by force
    then have "\<forall>x \<in> set (op_points op pa pb po (a # as) []). c < x"
      using op_points_set [of op pa pb po "a # as" "[]"] by auto
    with z show ?thesis using "2.prems"(3) by (simp only: cnt_zero) simp
  qed (use 2 in auto)
next
  case (3 op pa pb po b bs)
  show ?case
  proof (cases "b \<le> c")
    case False
    then have z: "\<forall>x \<in> set (b # bs). c < x" using "3.prems" by force
    then have "\<forall>x \<in> set (op_points op pa pb po [] (b # bs)). c < x"
      using op_points_set [of op pa pb po "[]" "b # bs"] by auto
    with z show ?thesis using "3.prems"(3) by (simp only: cnt_zero) simp
  qed (use 3 in auto)
qed simp

lemma cr_next_points:
  "cr_next a b i j = None \<Longrightarrow> op_points op pa pb po (drop i a) (drop j b) = []"
  "cr_next a b i j = Some (v, i', j') \<Longrightarrow>
   op_points op (odd i) (odd j) po (drop i a) (drop j b) =
     (if cr_in_op op (odd i') (odd j') \<noteq> po then [v] else [])
       @ op_points op (odd i') (odd j') (cr_in_op op (odd i') (odd j')) (drop i' a) (drop j' b)"
  using Cons_nth_drop_Suc [of i a, symmetric] Cons_nth_drop_Suc [of j b, symmetric]
  by (auto simp: cr_next_def split: if_splits)

lemma cr_op_loop_spec:
  "cr_wf cr \<Longrightarrow> \<exists>r cr'. cr_op_loop cr a b op i j = Some (r, cr') \<and> cr_wf cr' \<and>
    (r = 0 \<and> cr_data cr' = compress (cr_data cr @
        op_points op (odd i) (odd j) (odd (cr_len cr)) (drop i a) (drop j b)) \<or> r = -1)"
proof (induction cr a b op i j rule: cr_op_loop.induct)
  case (1 cr a b op i j)
  show ?case
  proof (cases "cr_next a b i j")
    case None
    obtain cr' where "cr_compress cr = Some cr'" "cr_wf cr'" "cr_data cr' = compress (cr_data cr)"
      using cr_compress_data [OF "1.prems"] by blast
    with None show ?thesis
      by (simp add: cr_op_loop.simps [of cr a b op i j] cr_next_points(1))
  next
    case (Some t)
    obtain v i' j' where t: "t = (v, i', j')" by (metis surj_pair)
    note n = Some [unfolded t]
    show ?thesis
    proof (cases "cr_in_op op (odd i') (odd j') \<noteq> odd (cr_len cr)")
      case True
      obtain r cr1 where p: "cr_add_point cr v = Some (r, cr1)" "cr_wf cr1"
        "r = 0 \<and> cr_data cr1 = cr_data cr @ [v] \<or> r = -1 \<and> cr1 = cr"
        using cr_add_point_cases [OF "1.prems", of v] by blast
      show ?thesis
      proof (cases "r = 0")
        case r0: True
        then have d: "cr_data cr1 = cr_data cr @ [v]" using p(3) by auto
        then have l: "cr_len cr1 = cr_len cr + 1"
          using p(2) "1.prems" by (metis length_append_singleton length_cr_data Suc_eq_plus1)
        have e: "odd (cr_len cr1) = cr_in_op op (odd i') (odd j')" using True l by auto
        have "\<not> r \<noteq> 0" using r0 by simp
        note ih = "1.IH"(1) [OF n refl refl True p(1) refl this p(2)]
        have st: "cr_op_loop cr a b op i j = cr_op_loop cr1 a b op i' j'"
          using True p(1) r0 by (simp add: cr_op_loop.simps [of cr a b op i j] n)
        show ?thesis
          using ih unfolding cr_next_points(2) [OF n] e st d if_P [OF True] append_assoc .
      next
        case False
        with p True show ?thesis by (auto simp: cr_op_loop.simps [of cr a b op i j] n)
      qed
    next
      case False
      with "1.IH"(2) [OF n refl refl False "1.prems"] show ?thesis
        unfolding cr_next_points(2) [OF n]
        by (simp add: cr_op_loop.simps [of cr a b op i j] n)
    qed
  qed
qed

lemma op_points_ok:
  assumes "points_ok as" and "points_ok bs"
  shows "points_ok (op_points op False False False as bs)"
proof -
  have z: "cr_in_op op False False = False" by (cases op) auto
  have "odd (cnt (- 1) (op_points op False False False as bs)) \<longleftrightarrow>
      False \<noteq> cr_in_op op (False \<noteq> odd (cnt (- 1) as)) (False \<noteq> odd (cnt (- 1) bs))"
    using assms z by (intro op_points_parity) (auto simp: points_ok_def)
  moreover have "filter (\<lambda>p. p \<le> - 1) ps = (ps :: u32 list)" for ps
    by (simp add: word_order.extremum)
  ultimately have "even (length (op_points op False False False as bs))"
    using assms z by (simp add: points_ok_def)
  with op_points_sorted assms show ?thesis by (auto simp: points_ok_def)
qed

lemma cr_op_cases:
  assumes wf: "cr_wf cr" and e: "cr_len cr = 0" and a: "points_ok a" and b: "points_ok b"
  shows "\<exists>r cr'. cr_op cr a b op = Some (r, cr') \<and> cr_wf cr' \<and>
    (r = 0 \<and> points_canon (cr_data cr') \<and>
       (\<forall>c. cr_in c (cr_data cr') = cr_in_op op (cr_in c a) (cr_in c b)) \<or> r = -1)"
proof -
  let ?ps = "op_points op False False False a b"
  have d: "cr_data cr = []" using e by (simp add: cr_data_def)
  obtain r cr' where r: "cr_op cr a b op = Some (r, cr')" "cr_wf cr'"
    and c: "r = 0 \<and> cr_data cr' = compress ?ps \<or> r = -1"
    using cr_op_loop_spec [OF wf, of a b op 0 0] by (auto simp: cr_op_def d e)
  note ok = op_points_ok [OF a b, of op]
  have z: "cr_in_op op False False = False" by (cases op) auto
  have "cr_in u ?ps = cr_in_op op (cr_in u a) (cr_in u b)" for u
    using op_points_parity [of a b False op False False u] a b z
    by (simp add: cr_in_parity [OF ok] cr_in_parity [OF a] cr_in_parity [OF b] points_ok_def)
  with compress_props(1) [OF ok] r c show ?thesis by auto
qed

section \<open>Complement\<close>

lemma cr_in_complement:
  assumes ok: "points_ok ps" and u: "u < UINT32_MAX"
  shows "points_ok (0 # ps @ [UINT32_MAX]) \<and> (cr_in u (0 # ps @ [UINT32_MAX]) \<longleftrightarrow> \<not> cr_in u ps)"
proof -
  have m: "x \<le> UINT32_MAX" for x :: u32
    using uint_lt2p [of x] by (simp add: UINT32_MAX_def word_le_def)
  have ok': "points_ok (0 # ps @ [UINT32_MAX])"
    using ok m by (auto simp: points_ok_def sorted_append)
  show ?thesis
    using ok' u by (simp add: cr_in_parity [OF ok'] cr_in_parity [OF ok] not_le)
qed

lemma cr_invert_cases:
  assumes wf: "cr_wf cr" and ok: "points_ok (cr_data cr)"
  shows "\<exists>r cr'. cr_invert cr = Some (r, cr') \<and> cr_wf cr' \<and>
    (r = 0 \<and> points_canon (cr_data cr') \<and>
       (\<forall>c < UINT32_MAX. cr_in c (cr_data cr') \<longleftrightarrow> \<not> cr_in c (cr_data cr)) \<or> r = -1 \<and> cr' = cr)"
proof -
  obtain r cr1 where r: "cr_realloc cr (cr_len cr + 2) = (r, cr1)" by (metis surj_pair)
  from cr_realloc_cases [OF wf r] show ?thesis
  proof (elim disjE conjE)
    assume r0: "r = 0" and w1: "cr_wf cr1" and d1: "cr_data cr1 = cr_data cr" and l1: "cr_len cr1 = cr_len cr"
      and sz: "cr_len cr + 2 \<le> cr_size cr1"
    let ?n = "cr_len cr" and ?ps = "0 # cr_data cr @ [UINT32_MAX]"
    have ll: "length (cr_points cr1) = cr_size cr1" using w1 by (simp add: cr_wf_def)
    obtain b where b: "blit (cr_points cr1) 1 (take ?n (cr_points cr1)) = Some b" "length b = cr_size cr1"
      and tb: "take (?n + 1) b = cr_points cr1 ! 0 # cr_data cr"
      using ll sz d1 l1 wf w1 by (cases "cr_points cr1") (auto simp: blit_def cr_data_def cr_wf_def min_def)
    let ?b = "b[0 := 0, ?n + 1 := UINT32_MAX]"
    let ?cr = "cr1\<lparr>cr_points := ?b, cr_len := ?n + 2\<rparr>"
    have wf': "cr_wf ?cr" using w1 b sz by (simp add: cr_wf_def)
    have "take (Suc ?n) ?b = (take (Suc ?n) b)[0 := 0]" using b sz by (simp add: take_update_swap list_update_beyond)
    then have "take (?n + 2) ?b = (take (?n + 1) b)[0 := 0] @ [UINT32_MAX]"
      using take_Suc_conv_app_nth [of "Suc ?n" ?b] b sz by simp
    then have d: "cr_data ?cr = ?ps" using tb by (simp add: cr_data_def)
    have ok': "points_ok ?ps" using cr_in_complement [OF ok, of 0] by (simp add: UINT32_MAX_def)
    obtain cr2 where c2: "cr_compress ?cr = Some cr2" "cr_wf cr2" "cr_data cr2 = compress ?ps"
      using cr_compress_data [OF wf'] unfolding d by blast
    have inv: "cr_invert cr = Some (0, cr2)"
      using r r0 b sz c2(1) by (simp add: cr_invert_def Let_def)
    show ?thesis
      using c2 compress_props(1) [OF ok'] cr_in_complement [OF ok] unfolding inv by auto
  qed (use r wf in \<open>auto simp: cr_invert_def Let_def\<close>)
qed

section \<open>The canonical form\<close>

lemma points_canon_eq:
  "points_canon ps \<Longrightarrow> points_canon qs \<Longrightarrow> (\<And>c. cr_in c ps = cr_in c qs) \<Longrightarrow> ps = qs"
proof (induction ps arbitrary: qs rule: length_induct)
  case (1 ps)
  note ok = "1.prems"(1,2) [THEN points_canon_ok]
  show ?case
  proof (cases "ps = [] \<or> qs = []")
    case True
    have ne: "xs = []" if "points_canon xs" "\<And>c. \<not> cr_in c xs" for xs
      using that by (cases "(0 :: u32, xs)" rule: cr_in.cases) (force simp: points_canon_def)+
    show ?thesis
      using True ne [OF "1.prems"(1)] ne [OF "1.prems"(2)] "1.prems"(3) by (metis cr_in.simps(2))
  next
    case False
    then obtain a b xs a' b' xs' where ps: "ps = a # b # xs" and qs: "qs = a' # b' # xs'"
      using "1.prems"(1,2) by (cases "(0 :: u32, ps)" rule: cr_in.cases;
          cases "(0 :: u32, qs)" rule: cr_in.cases) (auto simp: points_canon_def)
    have below: "\<not> cr_in u zs" if "points_canon zs" "\<forall>z \<in> set zs. u < z" for u zs
      using that by (simp add: cr_in_parity points_canon_ok cnt_zero)
    have tl: "points_canon xs" "points_canon xs'" "\<forall>x \<in> set xs. b < x" "\<forall>x \<in> set xs'. b' < x" "a < b" "a' < b'"
      using "1.prems"(1,2) by (auto simp: ps qs points_canon_def)
    have eqc: "a \<le> c \<and> c < b \<or> cr_in c xs \<longleftrightarrow> a' \<le> c \<and> c < b' \<or> cr_in c xs'" for c
      using "1.prems"(3) [of c] by (simp add: ps qs)
    have na: "\<not> cr_in u xs" if "u \<le> b" for u
      using tl(3) that by (intro below [OF tl(1)]) auto
    have na': "\<not> cr_in u xs'" if "u \<le> b'" for u
      using tl(4) that by (intro below [OF tl(2)]) auto
    have aa: "a = a'"
      using eqc [of a] eqc [of a'] na [of a] na [of a'] na' [of a] na' [of a'] tl(5,6)
      by (meson linorder_not_le order.strict_implies_order order_antisym order_le_less_trans order_less_le_trans nle_le)
    have bb: "b = b'"
      using eqc [of b] eqc [of b'] na [of b] na [of b'] na' [of b] na' [of b'] tl(5,6) aa
      by (meson linorder_not_le order.strict_implies_order order_antisym order_refl nle_le)
    have "cr_in c xs = cr_in c xs'" for c
      using eqc [of c] na [of c] na' [of c] aa bb by (cases "c \<le> b") auto
    with "1.IH" tl(1,2) have "xs = xs'" by (simp add: ps)
    with aa bb show ?thesis by (simp add: ps qs)
  qed
qed

section \<open>Allocation that never fails\<close>

text \<open>An operation keeps the allocator, and fails only when the allocator does.\<close>

definition alloc_total :: "(u32 list \<Rightarrow> nat \<Rightarrow> u32 list option) \<Rightarrow> bool" where
  "alloc_total f \<longleftrightarrow> (\<forall>b n. f b n \<noteq> None)"

definition cr_kept :: "CharRange \<Rightarrow> int \<Rightarrow> CharRange \<Rightarrow> bool" where
  "cr_kept cr r cr' \<longleftrightarrow> cr_realloc_func cr' = cr_realloc_func cr \<and> (alloc_total (cr_realloc_func cr) \<longrightarrow> r = 0)"

lemma cr_kept_refl [simp]: "cr_kept cr 0 cr"
  by (simp add: cr_kept_def)

lemma cr_kept_trans: "cr_kept cr 0 cr1 \<Longrightarrow> cr_kept cr1 r cr2 \<Longrightarrow> cr_kept cr r cr2"
  by (simp add: cr_kept_def)

lemma cr_kept_fail: "cr_kept cr r cr' \<Longrightarrow> r \<noteq> 0 \<Longrightarrow> cr_kept cr (-1) cr'"
  by (auto simp: cr_kept_def)

lemma cr_realloc_kept: "cr_realloc cr n = (r, cr') \<Longrightarrow> cr_kept cr r cr'"
  by (auto simp: cr_realloc_def cr_kept_def alloc_total_def Let_def split: if_splits option.splits)

lemma cr_grow_kept: "(if b then cr_realloc cr n else (0, cr)) = (r, cr') \<Longrightarrow> cr_kept cr r cr'"
  by (auto dest: cr_realloc_kept split: if_splits)

lemma cr_add_point_kept:
  assumes "cr_add_point cr v = Some (r, cr')"
  shows "cr_kept cr r cr'"
proof -
  obtain q cr1 where q: "(if cr_len cr \<ge> cr_size cr then cr_realloc cr (cr_len cr + 1) else (0, cr)) = (q, cr1)"
    by (metis surj_pair)
  note k = cr_grow_kept [OF q]
  show ?thesis
  proof (cases "q = 0")
    case True
    then show ?thesis using assms k unfolding cr_add_point_def q by (auto simp: cr_kept_def split: bind_splits)
  next
    case False
    then show ?thesis using assms cr_kept_fail [OF k] unfolding cr_add_point_def q by simp
  qed
qed

lemma cr_add_interval_kept:
  assumes "cr_add_interval cr c1 c2 = Some (r, cr')"
  shows "cr_kept cr r cr'"
proof -
  obtain q cr1 where q: "(if cr_len cr + 2 > cr_size cr then cr_realloc cr (cr_len cr + 2) else (0, cr)) = (q, cr1)"
    by (metis surj_pair)
  note k = cr_grow_kept [OF q]
  show ?thesis
  proof (cases "q = 0")
    case True
    then show ?thesis using assms k unfolding cr_add_interval_def q by (auto simp: cr_kept_def split: bind_splits)
  next
    case False
    then show ?thesis using assms cr_kept_fail [OF k] unfolding cr_add_interval_def q by simp
  qed
qed

lemma cr_compress_func: "cr_compress cr = Some cr' \<Longrightarrow> cr_realloc_func cr' = cr_realloc_func cr"
  by (auto simp: cr_compress_def split: prod.splits bind_splits)

lemma cr_op_loop_kept: "cr_op_loop cr a b op i j = Some (r, cr') \<Longrightarrow> cr_kept cr r cr'"
proof (induction cr a b op i j rule: cr_op_loop.induct)
  case (1 cr a b op i j)
  show ?case
  proof (cases "cr_next a b i j")
    case None
    then show ?thesis using "1.prems" by (auto simp: cr_op_loop.simps [of cr a b] cr_kept_def split: bind_splits dest!: cr_compress_func)
  next
    case (Some x)
    obtain v i' j' where x: "x = (v, i', j')" by (metis surj_pair)
    show ?thesis
    proof (cases "cr_in_op op (odd i') (odd j') \<noteq> odd (cr_len cr)")
      case True
      then obtain q cr1 where q: "cr_add_point cr v = Some (q, cr1)"
        using "1.prems" Some x by (auto simp: cr_op_loop.simps [of cr a b] split: option.splits)
      note k = cr_add_point_kept [OF q]
      show ?thesis
      proof (cases "q = 0")
        case q0: True
        then have "cr_op_loop cr1 a b op i' j' = Some (r, cr')"
          using "1.prems" Some x True q by (simp add: cr_op_loop.simps [of cr a b])
        from "1.IH"(1) [OF Some x [symmetric] refl True q refl _ this] q0
        show ?thesis using k q0 by (auto intro: cr_kept_trans)
      next
        case False
        then show ?thesis using "1.prems" Some x True q cr_kept_fail [OF k] by (simp add: cr_op_loop.simps [of cr a b])
      qed
    next
      case False
      then show ?thesis using "1.IH"(2) [OF Some x [symmetric] refl False] "1.prems" Some x
        by (simp add: cr_op_loop.simps [of cr a b])
    qed
  qed
qed

lemma cr_op_kept: "cr_op cr a b op = Some (r, cr') \<Longrightarrow> cr_kept cr r cr'"
  unfolding cr_op_def by (rule cr_op_loop_kept)

lemma cr_invert_kept: "cr_invert cr = Some (r, cr') \<Longrightarrow> cr_kept cr r cr'"
  using cr_realloc_kept [of cr "cr_len cr + 2"]
  by (auto simp: cr_invert_def Let_def cr_kept_def split: prod.splits if_splits bind_splits dest!: cr_compress_func)

lemma cr_copy_kept: "cr_copy cr cr1 = Some (r, cr') \<Longrightarrow> cr_kept cr r cr'"
  using cr_realloc_kept [of cr "cr_len cr1"]
  by (auto simp: cr_copy_def cr_kept_def split: prod.splits if_splits bind_splits)

section \<open>Properties\<close>

text \<open>An allocator that always succeeds, for the examples.\<close>

definition zrealloc :: "'a :: zero list \<Rightarrow> nat \<Rightarrow> 'a list option" where
  "zrealloc b n = Some (take n b @ replicate (n - length b) 0)"

lemma zrealloc_law [simp]: "realloc_law zrealloc"
  by (auto simp: realloc_law_def zrealloc_def)

lemma zrealloc_total [simp]: "alloc_total zrealloc"
  by (simp add: alloc_total_def zrealloc_def)

text \<open>C24: \<^verbatim>\<open>cr_op\<close> into an empty range, from any two sorted arrays of points, stays inside
  its arrays and returns 0 with the union, intersection or exclusive or of the two sets, in
  canonical form: strictly sorted, without empty or adjacent intervals. It returns -1 only with
  an allocator that can fail.\<close>

theorem cr_op_computes_set_operation:
  assumes "cr_wf cr" and "cr_len cr = 0" and "points_ok a" and "points_ok b"
  shows "\<exists>r cr'. cr_op cr a b op = Some (r, cr') \<and> cr_wf cr' \<and>
    (r = 0 \<and> points_canon (cr_data cr') \<and>
       (\<forall>c. cr_in c (cr_data cr') = cr_in_op op (cr_in c a) (cr_in c b))
     \<or> r = -1 \<and> \<not> alloc_total (cr_realloc_func cr))"
proof -
  obtain r cr' where r: "cr_op cr a b op = Some (r, cr')" "cr_wf cr'"
    "r = 0 \<and> points_canon (cr_data cr') \<and>
       (\<forall>c. cr_in c (cr_data cr') = cr_in_op op (cr_in c a) (cr_in c b)) \<or> r = -1"
    using cr_op_cases [OF assms] by blast
  then show ?thesis using cr_op_kept [OF r(1)] by (auto simp: cr_kept_def)
qed

theorem cr_op_computes_set_operation_witness:
  "\<exists>cr'. cr_op (cr_init zrealloc)
        [65, 91, 97, 123] [90, 100] CR_OP_XOR = Some (0, cr') \<and> cr_wf cr' \<and>
    points_canon (cr_data cr') \<and>
       (\<forall>c. cr_in c (cr_data cr') = cr_in_op CR_OP_XOR (cr_in c [65, 91, 97, 123]) (cr_in c [90, 100]))"
proof -
  have "cr_wf (cr_init zrealloc)" "cr_len (cr_init zrealloc) = 0" "alloc_total (cr_realloc_func (cr_init zrealloc))"
    "points_ok [65, 91, 97, 123]" "points_ok [90, 100]"
    by (simp_all add: cr_init_def cr_wf_def points_ok_def)
  then show ?thesis
    using cr_op_computes_set_operation [of "cr_init zrealloc" "[65, 91, 97, 123]" "[90, 100]" CR_OP_XOR] by blast
qed

text \<open>\<^verbatim>\<open>cr_invert\<close> leaves, in canonical form, the complement of the set among the
  code points below \<^verbatim>\<open>UINT32_MAX\<close>, or the range as it was when the allocation fails.\<close>

theorem cr_invert_complements:
  assumes "cr_wf cr" and "points_ok (cr_data cr)"
  shows "\<exists>r cr'. cr_invert cr = Some (r, cr') \<and> cr_wf cr' \<and>
    (r = 0 \<and> points_canon (cr_data cr') \<and>
       (\<forall>c < UINT32_MAX. cr_in c (cr_data cr') \<longleftrightarrow> \<not> cr_in c (cr_data cr)) \<or> r = -1 \<and> cr' = cr)"
  by (rule cr_invert_cases [OF assms])

theorem cr_invert_complements_witness:
  "\<exists>r cr'. cr_invert \<lparr>cr_len = 2, cr_size = 2, cr_points = [65, 91],
        cr_realloc_func = zrealloc\<rparr> = Some (r, cr') \<and> cr_wf cr' \<and>
    (r = 0 \<and> points_canon (cr_data cr') \<and>
       (\<forall>c < UINT32_MAX. cr_in c (cr_data cr') \<longleftrightarrow> \<not> cr_in c (cr_data \<lparr>cr_len = 2, cr_size = 2,
          cr_points = [65, 91], cr_realloc_func = zrealloc\<rparr>))
     \<or> r = -1 \<and> cr' = \<lparr>cr_len = 2, cr_size = 2, cr_points = [65, 91],
        cr_realloc_func = zrealloc\<rparr>)"
  by (rule cr_invert_complements) (simp_all add: cr_wf_def points_ok_def cr_data_def)

text \<open>the canonical form is canonical: two ranges that \<^verbatim>\<open>cr_op\<close> leaves hold the same
  code points exactly when their points are equal.\<close>

theorem cr_op_canonical:
  assumes "cr_wf cr1" and "cr_len cr1 = 0" and "points_ok a1" and "points_ok b1"
    and "cr_wf cr2" and "cr_len cr2 = 0" and "points_ok a2" and "points_ok b2"
    and "cr_op cr1 a1 b1 op1 = Some (0, cr1')" and "cr_op cr2 a2 b2 op2 = Some (0, cr2')"
  shows "(\<forall>c. cr_in c (cr_data cr1') = cr_in c (cr_data cr2')) = (cr_data cr1' = cr_data cr2')"
  using cr_op_cases [OF assms(1-4), of op1] cr_op_cases [OF assms(5-8), of op2] assms(9,10)
    points_canon_eq [of "cr_data cr1'" "cr_data cr2'"] by auto

theorem cr_op_canonical_witness:
  "\<exists>cr1 cr2 cr1' cr2'. cr_op cr1 [65, 70, 70, 91] [] CR_OP_UNION = Some (0, cr1')
    \<and> cr_op cr2 [0, 200] [65, 91] CR_OP_INTER = Some (0, cr2')
    \<and> (\<forall>c. cr_in c (cr_data cr1') = cr_in c (cr_data cr2')) = (cr_data cr1' = cr_data cr2')"
proof -
  let ?cr = "cr_init zrealloc"
  have wf: "cr_wf ?cr" "cr_len ?cr = 0" by (simp_all add: cr_init_def cr_wf_def)
  have ok: "points_ok [65, 70, 70, 91]" "points_ok []" "points_ok [0, 200]" "points_ok [65, 91]"
    by (simp_all add: points_ok_def)
  have "map_option fst (cr_op ?cr [65, 70, 70, 91] [] CR_OP_UNION) = Some 0"
    "map_option fst (cr_op ?cr [0, 200] [65, 91] CR_OP_INTER) = Some 0"
    by code_simp+
  then obtain c1 c2 where c: "cr_op ?cr [65, 70, 70, 91] [] CR_OP_UNION = Some (0, c1)"
    "cr_op ?cr [0, 200] [65, 91] CR_OP_INTER = Some (0, c2)" by auto
  show ?thesis
    using c cr_op_canonical [OF wf ok(1,2) wf ok(3,4) c] by blast
qed

end
