(* ===== verification/UnicodeTables.thy ===== *)
theory UnicodeTables
  imports QPrelude
begin

text \<open>
  Tables of \<^verbatim>\<open>libunicode-table.h\<close>, entry by entry: case conversion, the properties that
  \<^verbatim>\<open>lre_is_in_table\<close> searches with their indices, and the combining classes.
\<close>

definition case_conv_table1 :: "u32 list" where
  "case_conv_table1 = [
    0x00209a30, 0x00309a00, 0x005a8173, 0x00601730, 0x006c0730, 0x006f81b3, 0x00701700, 0x007c0700,
    0x007f8100, 0x00803040, 0x009801c3, 0x00988190, 0x00990640, 0x009c9040, 0x00a481b4, 0x00a52e40,
    0x00bc0130, 0x00bc8640, 0x00bf8170, 0x00c00100, 0x00c08130, 0x00c10440, 0x00c30130, 0x00c38240,
    0x00c48230, 0x00c58240, 0x00c70130, 0x00c78130, 0x00c80130, 0x00c88240, 0x00c98130, 0x00ca0130,
    0x00ca8100, 0x00cb0130, 0x00cb8130, 0x00cc0240, 0x00cd0100, 0x00ce0130, 0x00ce8130, 0x00cf0100,
    0x00cf8130, 0x00d00640, 0x00d30130, 0x00d38240, 0x00d48130, 0x00d60240, 0x00d70130, 0x00d78240,
    0x00d88230, 0x00d98440, 0x00db8130, 0x00dc0240, 0x00de0240, 0x00df8100, 0x00e20350, 0x00e38350,
    0x00e50350, 0x00e69040, 0x00ee8100, 0x00ef1240, 0x00f801b4, 0x00f88350, 0x00fa0240, 0x00fb0130,
    0x00fb8130, 0x00fc2840, 0x01100130, 0x01111240, 0x011d0131, 0x011d8240, 0x011e8130, 0x011f0131,
    0x011f8201, 0x01208240, 0x01218130, 0x01220130, 0x01228130, 0x01230a40, 0x01280101, 0x01288101,
    0x01290101, 0x01298100, 0x012a0100, 0x012b0200, 0x012c8100, 0x012d8100, 0x012e0101, 0x01300100,
    0x01308101, 0x01318100, 0x01328101, 0x01330101, 0x01340100, 0x01348100, 0x01350101, 0x01358101,
    0x01360101, 0x01378100, 0x01388101, 0x01390100, 0x013a8100, 0x013e8101, 0x01400100, 0x01410101,
    0x01418100, 0x01438101, 0x01440100, 0x01448100, 0x01450200, 0x01460100, 0x01490100, 0x014e8101,
    0x014f0101, 0x01a28173, 0x01b80440, 0x01bb0240, 0x01bd8300, 0x01bf8130, 0x01c30130, 0x01c40330,
    0x01c60130, 0x01c70230, 0x01c801d0, 0x01c89130, 0x01d18930, 0x01d60100, 0x01d68300, 0x01d801d3,
    0x01d89100, 0x01e10173, 0x01e18900, 0x01e60100, 0x01e68200, 0x01e78130, 0x01e80173, 0x01e88173,
    0x01ea8173, 0x01eb0173, 0x01eb8100, 0x01ec1840, 0x01f80173, 0x01f88173, 0x01f90100, 0x01f98100,
    0x01fa01a0, 0x01fa8173, 0x01fb8240, 0x01fc8130, 0x01fd0240, 0x01fe8330, 0x02001030, 0x02082030,
    0x02182000, 0x02281000, 0x02302240, 0x02453640, 0x02600130, 0x02608e40, 0x02678100, 0x02686040,
    0x0298a630, 0x02b0a600, 0x02c381b5, 0x08502631, 0x08638131, 0x08668131, 0x08682b00, 0x087e8300,
    0x09d05011, 0x09f80610, 0x09fc0620, 0x0e400174, 0x0e408174, 0x0e410174, 0x0e418174, 0x0e420174,
    0x0e428174, 0x0e430174, 0x0e438180, 0x0e440180, 0x0e482b30, 0x0e5e8330, 0x0ebc8101, 0x0ebe8101,
    0x0ec70101, 0x0f007e40, 0x0f3f1840, 0x0f4b01b5, 0x0f4b81b6, 0x0f4c01b6, 0x0f4c81b6, 0x0f4d01b7,
    0x0f4d8180, 0x0f4f0130, 0x0f506040, 0x0f800800, 0x0f840830, 0x0f880600, 0x0f8c0630, 0x0f900800,
    0x0f940830, 0x0f980800, 0x0f9c0830, 0x0fa00600, 0x0fa40630, 0x0fa801b0, 0x0fa88100, 0x0fa901d3,
    0x0fa98100, 0x0faa01d3, 0x0faa8100, 0x0fab01d3, 0x0fab8100, 0x0fac8130, 0x0fad8130, 0x0fae8130,
    0x0faf8130, 0x0fb00800, 0x0fb40830, 0x0fb80200, 0x0fb90400, 0x0fbb0200, 0x0fbc0201, 0x0fbd0201,
    0x0fbe0201, 0x0fc008b7, 0x0fc40867, 0x0fc808b8, 0x0fcc0868, 0x0fd008b8, 0x0fd40868, 0x0fd80200,
    0x0fd901b9, 0x0fd981b1, 0x0fda01b9, 0x0fdb01b1, 0x0fdb81d7, 0x0fdc0230, 0x0fdd0230, 0x0fde0161,
    0x0fdf0173, 0x0fe101b9, 0x0fe181b2, 0x0fe201ba, 0x0fe301b2, 0x0fe381d8, 0x0fe40430, 0x0fe60162,
    0x0fe80200, 0x0fe901d0, 0x0fe981d0, 0x0feb01b0, 0x0feb81d0, 0x0fec0230, 0x0fed0230, 0x0ff00201,
    0x0ff101d3, 0x0ff181d3, 0x0ff201ba, 0x0ff28101, 0x0ff301b0, 0x0ff381d3, 0x0ff40230, 0x0ff50230,
    0x0ff60131, 0x0ff901ba, 0x0ff981b2, 0x0ffa01bb, 0x0ffb01b2, 0x0ffb81d9, 0x0ffc0230, 0x0ffd0230,
    0x0ffe0162, 0x109301a0, 0x109501a0, 0x109581a0, 0x10990131, 0x10a70101, 0x10b01031, 0x10b81001,
    0x10c18240, 0x125b1a31, 0x12681a01, 0x16002f31, 0x16182f01, 0x16300240, 0x16310130, 0x16318130,
    0x16320130, 0x16328100, 0x16330100, 0x16338640, 0x16368130, 0x16370130, 0x16378130, 0x16380130,
    0x16390240, 0x163a8240, 0x163f0230, 0x16406440, 0x16758440, 0x16790240, 0x16802600, 0x16938100,
    0x16968100, 0x53202e40, 0x53401c40, 0x53910e40, 0x53993e40, 0x53bc8440, 0x53be8130, 0x53bf0a40,
    0x53c58240, 0x53c68130, 0x53c80440, 0x53ca0101, 0x53cb1440, 0x53d50130, 0x53d58130, 0x53d60130,
    0x53d68130, 0x53d70130, 0x53d80130, 0x53d88130, 0x53d90130, 0x53d98131, 0x53da0c40, 0x53e10240,
    0x53e20131, 0x53e28130, 0x53e30130, 0x53e38440, 0x53fa8240, 0x55a98101, 0x55b85020, 0x7d8001b2,
    0x7d8081b2, 0x7d8101b2, 0x7d8181da, 0x7d8201da, 0x7d8281b3, 0x7d8301b3, 0x7d8981bb, 0x7d8a01bb,
    0x7d8a81bb, 0x7d8b01bc, 0x7d8b81bb, 0x7f909a31, 0x7fa09a01, 0x82002831, 0x82142801, 0x82582431,
    0x826c2401, 0x86403331, 0x86603301, 0x8c502031, 0x8c602001, 0xb7202031, 0xb7302001, 0xf4802231,
    0xf4912201]"

definition case_conv_table2 :: "u8 list" where
  "case_conv_table2 = [
    1, 0, 156, 6, 7, 77, 3, 4, 16, 0, 143, 11, 0, 0, 17, 0,
    8, 0, 83, 74, 81, 0, 82, 0, 83, 0, 58, 84, 85, 0, 87, 89,
    63, 93, 92, 0, 70, 97, 99, 66, 100, 0, 102, 0, 104, 0, 106, 0,
    108, 0, 110, 0, 0, 64, 0, 0, 0, 0, 26, 0, 147, 0, 0, 32,
    53, 0, 39, 0, 33, 0, 36, 34, 42, 0, 19, 107, 109, 0, 38, 36,
    39, 20, 22, 24, 27, 28, 62, 30, 63, 31, 57, 61, 34, 33, 65, 30,
    64, 37, 37, 38, 40, 32, 42, 73, 44, 67, 46, 75, 48, 76, 50, 68,
    66, 153, 0, 0, 149, 143, 125, 126, 131, 132, 18, 128, 130, 118, 119, 18,
    123, 163, 124, 120, 121, 138, 146, 152, 166, 160, 133, 0, 154, 161, 147, 117,
    51, 149, 0, 142, 0, 116, 153, 152, 151, 150, 0, 0, 158, 0, 156, 0,
    161, 160, 21, 46, 47, 48, 180, 181, 78, 170, 169, 18, 20, 30, 33, 34,
    34, 42, 52, 53, 166, 167, 54, 31, 74, 0, 0, 151, 1, 90, 218, 29,
    54, 5, 0, 196, 195, 198, 197, 200, 199, 202, 201, 204, 203, 196, 213, 69,
    214, 66, 215, 70, 216, 206, 208, 210, 212, 218, 217, 238, 246, 254, 14, 7,
    15, 128, 159, 0, 33, 128, 163, 237, 0, 192, 64, 198, 96, 231, 219, 230,
    153, 192, 0, 0, 6, 96, 220, 41, 253, 21, 18, 6, 22, 248, 221, 6,
    21, 18, 132, 8, 198, 22, 255, 223, 3, 192, 64, 0, 70, 96, 222, 224,
    109, 55, 56, 57, 21, 20, 23, 22, 0, 26, 25, 28, 27, 0, 95, 183,
    101, 68, 71, 0, 79, 98, 78, 80, 0, 0, 72, 0, 0, 0, 163, 164,
    165, 0, 0, 0, 0, 0, 182, 0, 0, 90, 0, 72, 0, 91, 86, 88,
    96, 94, 112, 105, 111, 77, 0, 0, 59, 103, 184, 0, 0, 69, 168, 138,
    139, 140, 171, 172, 88, 88, 175, 148, 176, 111, 178, 92, 91, 94, 93, 96,
    95, 98, 97, 100, 99, 102, 101, 104, 103]"

definition case_conv_ext :: "u16 list" where
  "case_conv_ext = [
    0x0399, 0x0308, 0x0301, 0x03a5, 0x0313, 0x0300, 0x0342, 0x0391, 0x0397, 0x03a9, 0x0046, 0x0049, 0x004c, 0x0053, 0x0069, 0x0307,
    0x02bc, 0x004e, 0x004a, 0x030c, 0x0535, 0x0552, 0x0048, 0x0331, 0x0054, 0x0057, 0x030a, 0x0059, 0x0041, 0x02be, 0x1f08, 0x1f80,
    0x1f28, 0x1f90, 0x1f68, 0x1fa0, 0x1fba, 0x0386, 0x1fb3, 0x1fca, 0x0389, 0x1fc3, 0x03a1, 0x1ffa, 0x038f, 0x1ff3, 0x0544, 0x0546,
    0x053b, 0x054e, 0x053d, 0x03b8, 0x0462, 0xa64a, 0x1e60, 0x03c9, 0x006b, 0x00e5]"

definition unicode_prop_Cased1_table :: "u8 list" where
  "unicode_prop_Cased1_table = [
    64, 169, 128, 142, 128, 252, 128, 211, 128, 140, 128, 141, 129, 141, 2, 128,
    225, 128, 145, 133, 154, 1, 0, 1, 17, 0, 1, 4, 8, 1, 8, 48,
    8, 1, 21, 32, 0, 57, 153, 49, 157, 132, 64, 148, 128, 214, 130, 166,
    128, 65, 98, 128, 166, 128, 87, 118, 248, 2, 128, 143, 128, 176, 64, 219,
    8, 128, 65, 208, 128, 140, 128, 143, 140, 228, 3, 1, 137, 0, 20, 40,
    16, 17, 2, 1, 24, 11, 36, 75, 38, 1, 1, 134, 229, 128, 96, 121,
    182, 129, 64, 145, 129, 189, 136, 148, 5, 128, 152, 128, 199, 130, 67, 52,
    162, 6, 128, 140, 97, 40, 150, 212, 128, 198, 1, 8, 9, 11, 128, 139,
    0, 6, 128, 192, 3, 15, 6, 128, 155, 3, 4, 0, 22, 128, 65, 83,
    129, 152, 128, 152, 128, 158, 128, 152, 128, 158, 128, 152, 128, 158, 128, 152,
    128, 158, 128, 152, 7, 89, 99, 153, 133, 153, 133, 153]"

definition unicode_prop_Cased1_index :: "u8 list" where
  "unicode_prop_Cased1_index = [
    185, 2, 224, 160, 30, 64, 158, 166, 64, 186, 212, 1, 137, 215, 1, 138,
    241, 1]"

definition unicode_prop_Case_Ignorable_table :: "u8 list" where
  "unicode_prop_Case_Ignorable_table = [
    166, 5, 128, 138, 128, 162, 0, 128, 198, 3, 0, 3, 1, 129, 65, 246,
    64, 191, 25, 24, 136, 8, 128, 64, 250, 134, 64, 206, 4, 128, 176, 172,
    0, 1, 1, 0, 171, 128, 138, 133, 137, 138, 0, 162, 128, 137, 148, 143,
    128, 228, 56, 137, 3, 160, 0, 128, 157, 154, 218, 138, 185, 138, 24, 8,
    151, 151, 170, 130, 246, 175, 182, 0, 3, 59, 2, 134, 137, 129, 140, 128,
    142, 128, 185, 3, 31, 128, 147, 129, 153, 1, 129, 184, 3, 11, 9, 18,
    128, 157, 10, 128, 138, 129, 184, 3, 32, 11, 128, 147, 129, 149, 40, 128,
    185, 1, 0, 31, 6, 129, 138, 129, 157, 128, 188, 128, 139, 128, 177, 2,
    128, 184, 20, 16, 30, 129, 138, 129, 156, 128, 185, 1, 5, 4, 129, 147,
    129, 155, 129, 184, 11, 31, 128, 147, 129, 156, 128, 199, 6, 16, 128, 217,
    1, 134, 138, 136, 225, 1, 136, 136, 0, 133, 201, 129, 154, 0, 0, 128,
    182, 141, 4, 1, 132, 138, 128, 163, 136, 128, 229, 24, 40, 9, 129, 152,
    11, 130, 143, 131, 140, 1, 13, 128, 142, 128, 221, 128, 66, 95, 130, 67,
    177, 130, 156, 130, 156, 129, 157, 129, 191, 8, 55, 1, 138, 16, 32, 172,
    131, 179, 128, 192, 129, 161, 128, 245, 19, 129, 136, 5, 130, 64, 218, 9,
    128, 185, 0, 48, 0, 1, 61, 137, 8, 166, 7, 144, 190, 131, 175, 0,
    32, 4, 128, 167, 136, 139, 129, 159, 25, 8, 130, 183, 0, 10, 0, 130,
    185, 57, 129, 191, 133, 209, 16, 140, 6, 24, 40, 17, 177, 190, 140, 128,
    161, 222, 4, 65, 188, 0, 130, 138, 130, 140, 130, 140, 130, 140, 129, 139,
    39, 129, 137, 1, 1, 132, 176, 32, 137, 0, 140, 128, 143, 140, 178, 160,
    75, 138, 129, 240, 130, 252, 128, 142, 128, 223, 159, 174, 128, 65, 212, 128,
    163, 26, 36, 128, 220, 133, 220, 130, 96, 111, 21, 128, 68, 225, 133, 65,
    13, 128, 225, 24, 137, 0, 155, 131, 207, 129, 141, 161, 205, 128, 150, 130,
    236, 15, 2, 3, 128, 152, 12, 128, 64, 150, 129, 153, 145, 140, 128, 165,
    135, 152, 138, 173, 130, 175, 1, 25, 129, 144, 128, 148, 129, 193, 41, 9,
    129, 139, 7, 128, 162, 128, 138, 128, 178, 0, 17, 12, 8, 128, 154, 128,
    141, 12, 8, 128, 227, 132, 136, 130, 248, 1, 3, 128, 96, 79, 47, 128,
    64, 146, 143, 66, 61, 143, 16, 139, 143, 161, 1, 128, 64, 168, 6, 5,
    128, 138, 128, 162, 0, 128, 174, 128, 172, 129, 194, 128, 148, 130, 66, 0,
    128, 64, 225, 128, 64, 148, 132, 70, 133, 16, 12, 131, 167, 19, 128, 64,
    164, 129, 66, 60, 131, 65, 130, 129, 64, 152, 138, 64, 175, 128, 181, 142,
    183, 130, 176, 25, 9, 128, 142, 128, 177, 130, 163, 32, 135, 189, 128, 139,
    129, 179, 136, 137, 25, 128, 222, 17, 0, 13, 128, 64, 159, 2, 135, 148,
    129, 184, 10, 128, 164, 50, 132, 64, 194, 57, 16, 128, 150, 128, 211, 40,
    3, 8, 129, 64, 237, 29, 8, 129, 154, 129, 212, 57, 0, 129, 233, 0,
    1, 40, 128, 228, 17, 24, 132, 65, 2, 136, 1, 64, 255, 8, 3, 128,
    64, 143, 25, 11, 128, 159, 137, 167, 41, 31, 128, 136, 41, 130, 173, 140,
    1, 65, 149, 48, 40, 128, 209, 149, 14, 1, 1, 249, 42, 0, 8, 48,
    128, 199, 10, 0, 128, 65, 90, 129, 85, 58, 136, 96, 54, 182, 132, 186,
    134, 136, 131, 68, 10, 128, 190, 144, 191, 8, 129, 96, 76, 183, 8, 131,
    84, 194, 130, 136, 143, 14, 157, 131, 64, 147, 130, 71, 186, 182, 131, 177,
    56, 141, 128, 149, 32, 142, 69, 79, 48, 144, 14, 1, 4, 65, 4, 141,
    65, 173, 131, 69, 223, 134, 236, 135, 74, 174, 132, 108, 12, 0, 128, 157,
    223, 255, 64, 239]"

definition unicode_prop_Case_Ignorable_index :: "u8 list" where
  "unicode_prop_Case_Ignorable_index = [
    190, 5, 0, 254, 7, 0, 82, 10, 32, 5, 12, 32, 59, 14, 64, 97,
    16, 64, 15, 24, 32, 67, 27, 96, 121, 29, 0, 241, 32, 0, 13, 166,
    64, 46, 169, 32, 222, 170, 0, 15, 255, 32, 231, 10, 65, 130, 17, 33,
    196, 20, 97, 68, 25, 1, 72, 29, 33, 164, 188, 1, 62, 225, 1, 240,
    1, 14]"

definition unicode_prop_ID_Start_table :: "u8 list" where
  "unicode_prop_ID_Start_table = [
    192, 153, 133, 153, 174, 128, 137, 3, 4, 150, 128, 158, 128, 65, 201, 131,
    139, 141, 38, 0, 128, 64, 128, 32, 9, 24, 5, 0, 16, 0, 147, 128,
    210, 128, 64, 138, 135, 64, 165, 128, 165, 8, 133, 168, 198, 154, 27, 172,
    170, 162, 8, 226, 0, 142, 14, 129, 137, 17, 128, 143, 0, 157, 156, 216,
    138, 128, 151, 160, 136, 11, 4, 149, 24, 136, 2, 128, 150, 152, 134, 138,
    180, 148, 128, 145, 187, 181, 16, 145, 6, 137, 142, 143, 31, 9, 129, 149,
    6, 0, 19, 16, 143, 128, 140, 8, 130, 141, 129, 137, 7, 43, 9, 149,
    6, 1, 1, 1, 158, 24, 128, 146, 130, 143, 136, 2, 128, 149, 6, 1,
    4, 16, 145, 128, 142, 129, 150, 128, 138, 57, 9, 149, 6, 1, 4, 16,
    157, 8, 130, 142, 128, 144, 0, 42, 16, 26, 8, 0, 10, 10, 18, 139,
    149, 128, 179, 56, 16, 150, 128, 143, 16, 153, 20, 129, 157, 3, 56, 16,
    150, 128, 137, 4, 16, 159, 0, 129, 142, 129, 144, 136, 2, 128, 168, 8,
    143, 4, 23, 130, 151, 44, 145, 130, 151, 128, 136, 0, 14, 185, 175, 1,
    139, 134, 185, 8, 0, 32, 151, 0, 128, 137, 1, 136, 1, 32, 128, 148,
    131, 159, 128, 190, 56, 163, 154, 132, 242, 170, 147, 128, 143, 43, 26, 2,
    14, 19, 140, 139, 128, 144, 165, 0, 32, 129, 170, 128, 65, 76, 3, 14,
    0, 3, 129, 168, 3, 129, 160, 3, 14, 0, 3, 129, 142, 128, 184, 3,
    129, 194, 164, 143, 143, 213, 13, 130, 66, 107, 129, 144, 128, 153, 132, 202,
    130, 138, 134, 140, 3, 141, 145, 141, 145, 141, 140, 2, 142, 179, 162, 3,
    128, 194, 216, 134, 168, 0, 132, 197, 137, 158, 176, 157, 12, 138, 171, 131,
    153, 181, 150, 136, 180, 209, 128, 220, 174, 144, 134, 182, 157, 140, 129, 137,
    171, 153, 163, 168, 130, 137, 163, 129, 136, 134, 170, 10, 168, 24, 40, 10,
    4, 64, 191, 191, 65, 21, 13, 129, 165, 13, 15, 0, 0, 0, 128, 158,
    129, 180, 6, 0, 18, 6, 19, 13, 131, 140, 34, 6, 243, 128, 140, 128,
    143, 140, 228, 3, 1, 137, 0, 13, 40, 0, 0, 128, 143, 11, 36, 24,
    144, 168, 74, 118, 174, 128, 174, 128, 64, 132, 43, 17, 139, 165, 0, 32,
    129, 183, 48, 143, 150, 136, 48, 48, 48, 48, 48, 48, 48, 134, 66, 37,
    130, 152, 136, 52, 12, 131, 213, 28, 128, 217, 3, 132, 170, 128, 221, 144,
    159, 175, 143, 65, 255, 89, 191, 191, 96, 81, 252, 130, 68, 140, 194, 173,
    129, 65, 12, 130, 143, 137, 129, 147, 174, 143, 158, 129, 207, 166, 136, 129,
    230, 129, 180, 129, 136, 169, 140, 2, 3, 128, 150, 156, 179, 141, 177, 189,
    42, 0, 129, 138, 155, 137, 150, 152, 156, 134, 174, 155, 128, 143, 32, 137,
    137, 32, 168, 150, 16, 135, 147, 150, 16, 130, 177, 0, 17, 12, 8, 0,
    151, 17, 138, 50, 139, 41, 41, 133, 136, 48, 48, 170, 128, 141, 133, 242,
    156, 96, 43, 163, 139, 150, 131, 176, 96, 33, 3, 65, 109, 129, 233, 165,
    134, 139, 36, 0, 137, 128, 140, 4, 0, 1, 1, 128, 235, 160, 65, 106,
    145, 191, 129, 181, 167, 139, 243, 32, 64, 134, 163, 153, 133, 153, 138, 216,
    21, 13, 13, 10, 162, 139, 128, 153, 128, 146, 1, 128, 142, 129, 141, 161,
    250, 196, 180, 65, 10, 156, 130, 176, 174, 159, 140, 157, 132, 165, 137, 157,
    129, 163, 31, 4, 169, 64, 157, 145, 163, 131, 163, 131, 167, 135, 179, 64,
    155, 65, 54, 136, 149, 137, 135, 64, 151, 41, 0, 171, 1, 16, 129, 150,
    137, 150, 136, 158, 192, 146, 1, 137, 149, 137, 153, 197, 183, 41, 191, 128,
    142, 24, 16, 156, 169, 156, 130, 156, 162, 56, 155, 154, 181, 137, 149, 137,
    146, 140, 145, 237, 200, 182, 178, 140, 178, 140, 163, 65, 91, 169, 41, 205,
    156, 137, 7, 149, 233, 148, 154, 150, 139, 180, 202, 172, 159, 152, 153, 163,
    156, 1, 7, 162, 16, 139, 175, 141, 131, 148, 0, 128, 162, 145, 128, 152,
    211, 48, 0, 24, 142, 128, 137, 134, 174, 165, 57, 9, 149, 6, 1, 4,
    16, 145, 128, 139, 132, 64, 157, 180, 145, 131, 147, 130, 157, 175, 147, 8,
    128, 64, 183, 174, 168, 131, 163, 175, 147, 128, 186, 170, 140, 128, 198, 154,
    64, 228, 171, 243, 191, 158, 57, 1, 56, 8, 151, 142, 0, 128, 221, 57,
    166, 143, 0, 128, 155, 128, 137, 167, 48, 148, 128, 138, 173, 146, 128, 161,
    184, 65, 6, 136, 128, 164, 144, 128, 176, 157, 239, 48, 8, 165, 148, 128,
    152, 40, 8, 159, 141, 128, 65, 70, 146, 64, 188, 128, 206, 67, 153, 229,
    238, 144, 64, 195, 74, 187, 68, 46, 79, 208, 66, 70, 96, 33, 184, 66,
    56, 134, 158, 240, 157, 145, 175, 143, 131, 158, 148, 132, 146, 66, 175, 191,
    255, 202, 32, 193, 140, 191, 8, 128, 155, 87, 247, 135, 68, 213, 169, 136,
    96, 34, 246, 65, 30, 176, 130, 144, 31, 65, 139, 73, 3, 234, 132, 140,
    130, 136, 134, 137, 87, 101, 212, 128, 198, 1, 8, 9, 11, 128, 139, 0,
    6, 128, 192, 3, 15, 6, 128, 155, 3, 4, 0, 22, 128, 65, 83, 129,
    152, 128, 152, 128, 158, 128, 152, 128, 158, 128, 152, 128, 158, 128, 152, 128,
    158, 128, 152, 7, 73, 51, 172, 137, 134, 143, 128, 65, 112, 171, 69, 19,
    64, 196, 186, 195, 48, 68, 179, 24, 154, 1, 0, 8, 128, 137, 3, 0,
    0, 40, 24, 0, 0, 2, 1, 0, 8, 0, 0, 0, 0, 1, 0, 11,
    6, 3, 3, 0, 128, 137, 128, 144, 34, 4, 128, 144, 81, 67, 96, 166,
    221, 161, 80, 52, 138, 64, 221, 129, 86, 129, 141, 93, 48, 76, 30, 66,
    29, 69, 225, 83, 74]"

definition unicode_prop_ID_Start_index :: "u8 list" where
  "unicode_prop_ID_Start_index = [
    246, 3, 32, 166, 7, 0, 169, 9, 0, 180, 10, 0, 186, 11, 0, 62,
    13, 0, 224, 14, 32, 87, 18, 0, 235, 22, 0, 202, 25, 32, 192, 29,
    96, 128, 32, 0, 46, 45, 0, 192, 49, 32, 137, 167, 32, 240, 169, 0,
    227, 171, 0, 62, 253, 0, 251, 0, 33, 55, 7, 97, 1, 10, 1, 29,
    15, 33, 44, 18, 1, 200, 20, 33, 209, 25, 33, 71, 29, 1, 57, 106,
    33, 9, 141, 1, 188, 212, 1, 169, 215, 33, 58, 238, 1, 222, 166, 34,
    75, 19, 3]"

definition unicode_prop_ID_Continue1_table :: "u8 list" where
  "unicode_prop_ID_Continue1_table = [
    175, 137, 164, 128, 214, 128, 66, 71, 239, 150, 128, 64, 250, 132, 65, 8,
    172, 0, 1, 1, 0, 199, 138, 175, 158, 40, 228, 49, 41, 8, 25, 137,
    150, 128, 157, 154, 218, 138, 142, 137, 160, 136, 136, 128, 151, 24, 136, 2,
    4, 170, 130, 246, 142, 128, 160, 181, 16, 145, 6, 137, 9, 137, 144, 130,
    183, 0, 49, 9, 130, 136, 128, 137, 9, 137, 141, 1, 130, 183, 0, 35,
    9, 18, 128, 147, 139, 16, 138, 130, 183, 0, 56, 16, 130, 147, 9, 137,
    137, 40, 130, 183, 0, 49, 9, 22, 130, 137, 9, 137, 145, 128, 186, 34,
    16, 131, 136, 128, 141, 137, 143, 132, 184, 48, 16, 30, 129, 138, 9, 137,
    144, 130, 183, 0, 48, 16, 30, 129, 138, 9, 137, 143, 131, 182, 8, 48,
    16, 131, 136, 128, 137, 9, 137, 144, 130, 197, 3, 40, 0, 61, 137, 9,
    188, 1, 134, 139, 56, 137, 214, 1, 136, 138, 41, 137, 189, 13, 137, 138,
    0, 0, 3, 129, 176, 147, 1, 132, 138, 128, 163, 136, 128, 227, 147, 128,
    137, 139, 27, 16, 17, 50, 131, 140, 139, 128, 142, 66, 190, 130, 136, 136,
    67, 159, 130, 156, 130, 156, 129, 157, 129, 191, 159, 136, 1, 137, 160, 17,
    137, 64, 142, 128, 245, 139, 131, 139, 137, 137, 255, 138, 187, 132, 184, 137,
    128, 156, 129, 138, 133, 137, 149, 141, 1, 190, 132, 174, 144, 138, 137, 144,
    136, 139, 130, 157, 140, 129, 137, 171, 141, 175, 147, 135, 137, 133, 137, 245,
    16, 148, 24, 40, 10, 64, 197, 185, 4, 66, 62, 129, 146, 128, 250, 140,
    24, 130, 139, 75, 253, 130, 64, 140, 128, 223, 159, 66, 41, 133, 232, 129,
    96, 117, 132, 137, 196, 3, 137, 159, 129, 207, 129, 65, 15, 2, 3, 128,
    150, 35, 128, 210, 129, 177, 145, 137, 137, 133, 145, 140, 138, 155, 135, 152,
    140, 171, 131, 174, 141, 142, 137, 138, 128, 137, 137, 174, 141, 139, 7, 9,
    137, 160, 130, 177, 0, 17, 12, 8, 128, 168, 36, 129, 64, 235, 56, 9,
    137, 96, 79, 35, 128, 66, 224, 143, 143, 143, 17, 151, 130, 64, 191, 137,
    164, 128, 66, 188, 128, 64, 225, 128, 64, 148, 132, 65, 36, 137, 69, 86,
    16, 12, 131, 167, 19, 128, 64, 164, 129, 66, 60, 31, 137, 65, 112, 129,
    64, 152, 138, 64, 174, 130, 180, 142, 158, 137, 142, 131, 172, 138, 180, 137,
    42, 163, 141, 128, 137, 33, 171, 128, 139, 130, 175, 141, 59, 128, 139, 209,
    139, 40, 64, 159, 139, 132, 137, 43, 182, 8, 49, 9, 130, 136, 128, 137,
    9, 50, 132, 64, 191, 145, 136, 137, 24, 208, 147, 139, 137, 64, 212, 49,
    136, 154, 129, 209, 144, 142, 137, 208, 140, 135, 137, 210, 142, 131, 137, 64,
    241, 142, 64, 164, 137, 197, 40, 9, 24, 0, 129, 139, 137, 246, 49, 50,
    128, 155, 137, 167, 48, 31, 128, 136, 138, 173, 143, 65, 148, 56, 135, 143,
    137, 183, 149, 128, 141, 249, 42, 0, 8, 48, 7, 137, 175, 32, 8, 39,
    137, 65, 72, 131, 96, 75, 104, 137, 64, 133, 132, 186, 134, 152, 137, 67,
    244, 0, 182, 51, 208, 128, 138, 129, 96, 76, 170, 129, 84, 197, 34, 47,
    57, 134, 157, 131, 64, 147, 130, 69, 136, 177, 65, 255, 182, 131, 177, 56,
    141, 128, 149, 32, 142, 69, 79, 48, 144, 14, 1, 4, 65, 4, 134, 136,
    137, 65, 161, 141, 69, 213, 134, 236, 52, 137, 82, 149, 137, 108, 5, 5,
    64, 239]"

definition unicode_prop_ID_Continue1_index :: "u8 list" where
  "unicode_prop_ID_Continue1_index = [
    250, 6, 0, 132, 9, 0, 240, 10, 0, 112, 12, 0, 244, 13, 0, 74,
    16, 32, 26, 24, 32, 116, 27, 32, 221, 32, 0, 12, 168, 0, 90, 170,
    32, 26, 255, 0, 173, 14, 1, 56, 18, 33, 193, 21, 33, 229, 25, 33,
    170, 29, 33, 140, 209, 65, 74, 225, 33, 240, 1, 14]"

definition unicode_cc_table :: "u8 list" where
  "unicode_cc_table = [
    178, 207, 212, 0, 232, 3, 220, 0, 232, 0, 216, 4, 220, 1, 202, 3,
    220, 1, 202, 10, 220, 4, 1, 3, 220, 199, 0, 240, 192, 2, 220, 194,
    1, 220, 128, 194, 3, 220, 192, 0, 232, 1, 220, 192, 65, 233, 0, 234,
    65, 233, 0, 234, 0, 233, 204, 176, 226, 196, 176, 216, 0, 220, 195, 0,
    220, 194, 0, 222, 0, 220, 197, 5, 220, 193, 0, 220, 193, 0, 222, 0,
    228, 192, 73, 10, 67, 19, 128, 0, 23, 128, 65, 24, 128, 192, 0, 220,
    128, 0, 18, 176, 23, 199, 66, 30, 175, 71, 27, 193, 1, 220, 196, 0,
    220, 193, 0, 220, 143, 0, 35, 176, 52, 198, 129, 195, 0, 220, 192, 129,
    193, 128, 0, 220, 193, 0, 220, 162, 0, 36, 157, 192, 0, 220, 193, 0,
    220, 193, 2, 220, 192, 1, 220, 192, 0, 220, 194, 0, 220, 192, 0, 220,
    192, 0, 220, 192, 0, 220, 193, 176, 111, 198, 0, 220, 192, 136, 0, 220,
    151, 195, 128, 200, 128, 194, 128, 196, 170, 2, 220, 176, 70, 0, 220, 205,
    128, 0, 220, 193, 0, 220, 193, 0, 220, 194, 2, 220, 66, 27, 194, 0,
    220, 193, 1, 220, 196, 176, 11, 0, 7, 143, 0, 9, 130, 192, 0, 220,
    193, 176, 54, 0, 7, 143, 0, 9, 175, 192, 176, 12, 0, 7, 143, 0,
    9, 176, 61, 0, 7, 143, 0, 9, 176, 61, 0, 7, 143, 0, 9, 176,
    78, 0, 9, 176, 78, 0, 9, 134, 0, 84, 0, 91, 176, 52, 0, 7,
    143, 0, 9, 176, 60, 1, 9, 143, 0, 9, 176, 75, 0, 9, 176, 60,
    1, 103, 0, 9, 140, 3, 107, 176, 59, 1, 118, 0, 9, 140, 3, 122,
    176, 27, 1, 220, 154, 0, 220, 128, 0, 220, 128, 0, 216, 176, 6, 65,
    129, 128, 0, 132, 132, 3, 130, 129, 0, 130, 128, 193, 0, 9, 128, 193,
    176, 13, 0, 220, 176, 63, 0, 7, 128, 1, 9, 176, 33, 0, 220, 178,
    158, 194, 179, 131, 0, 9, 158, 0, 9, 176, 108, 0, 9, 137, 192, 176,
    154, 0, 228, 176, 94, 0, 222, 192, 0, 220, 176, 170, 192, 0, 220, 176,
    22, 0, 9, 147, 199, 129, 0, 220, 175, 196, 5, 220, 193, 0, 220, 128,
    1, 220, 176, 66, 0, 7, 142, 0, 9, 165, 192, 0, 220, 198, 176, 5,
    1, 9, 176, 9, 0, 7, 138, 1, 9, 176, 18, 0, 7, 176, 103, 194,
    65, 0, 4, 220, 193, 3, 220, 192, 65, 0, 5, 1, 131, 0, 220, 133,
    192, 130, 193, 176, 149, 193, 0, 220, 198, 0, 220, 193, 0, 234, 0, 214,
    0, 220, 0, 202, 228, 0, 232, 1, 228, 0, 220, 128, 192, 0, 233, 0,
    220, 192, 0, 220, 178, 159, 193, 1, 1, 195, 2, 1, 193, 131, 192, 130,
    1, 1, 192, 0, 220, 192, 1, 1, 3, 220, 192, 184, 3, 205, 194, 176,
    92, 0, 9, 176, 47, 223, 177, 249, 0, 218, 0, 228, 0, 232, 0, 222,
    1, 224, 176, 56, 1, 8, 184, 109, 163, 192, 131, 201, 159, 193, 176, 31,
    193, 176, 227, 0, 9, 164, 0, 9, 176, 102, 0, 9, 154, 209, 176, 8,
    2, 220, 164, 0, 9, 176, 46, 0, 7, 139, 0, 9, 176, 190, 192, 128,
    193, 0, 220, 129, 193, 132, 193, 128, 192, 176, 3, 0, 9, 176, 197, 0,
    9, 184, 70, 255, 0, 26, 178, 208, 198, 6, 220, 193, 179, 156, 0, 220,
    176, 177, 0, 220, 176, 100, 196, 182, 97, 0, 220, 128, 192, 167, 192, 0,
    1, 0, 220, 131, 0, 9, 176, 116, 192, 0, 220, 178, 12, 195, 177, 82,
    193, 176, 104, 1, 220, 194, 0, 220, 192, 3, 220, 176, 196, 0, 9, 176,
    7, 0, 9, 176, 8, 0, 9, 0, 7, 176, 20, 194, 175, 1, 9, 176,
    13, 0, 7, 176, 27, 0, 9, 136, 0, 7, 176, 57, 0, 9, 0, 7,
    176, 129, 0, 7, 0, 9, 176, 31, 1, 7, 143, 0, 9, 151, 198, 130,
    196, 176, 156, 0, 9, 130, 0, 7, 150, 192, 176, 50, 0, 9, 0, 7,
    176, 202, 0, 9, 0, 7, 176, 77, 0, 9, 176, 69, 0, 9, 0, 7,
    176, 66, 0, 9, 176, 220, 0, 9, 0, 7, 176, 209, 1, 9, 131, 0,
    7, 176, 107, 0, 9, 176, 34, 0, 9, 145, 0, 9, 176, 32, 0, 9,
    177, 116, 0, 9, 176, 209, 0, 7, 128, 1, 9, 176, 32, 0, 9, 184,
    69, 39, 4, 1, 176, 10, 198, 180, 136, 1, 6, 184, 68, 123, 0, 1,
    184, 12, 149, 1, 216, 2, 1, 130, 0, 226, 4, 216, 135, 7, 220, 129,
    196, 1, 220, 157, 195, 176, 99, 194, 184, 5, 138, 198, 128, 208, 129, 198,
    128, 193, 128, 196, 176, 212, 198, 177, 132, 195, 181, 175, 6, 220, 176, 60,
    197, 0, 7]"

definition unicode_cc_index :: "u8 list" where
  "unicode_cc_index = [
    77, 3, 0, 151, 5, 32, 198, 5, 0, 231, 6, 0, 69, 7, 0, 226,
    8, 0, 83, 9, 0, 205, 11, 32, 56, 14, 0, 115, 15, 32, 93, 19,
    32, 96, 26, 32, 170, 27, 0, 244, 28, 0, 254, 29, 32, 127, 45, 32,
    240, 166, 0, 178, 170, 0, 254, 1, 1, 171, 14, 1, 115, 17, 33, 112,
    19, 1, 184, 22, 1, 154, 26, 1, 159, 188, 1, 34, 224, 1, 75, 233,
    1]"

end
