(* ===== verification/UnicodeIndex.thy ===== *)
theory UnicodeIndex
  imports CharRange UnicodeTables
begin

text \<open>
  The run-length tables of \<^verbatim>\<open>libunicode.c\<close> and their indices: \<^verbatim>\<open>get_index_pos\<close>,
  \<^verbatim>\<open>lre_is_in_table\<close> and its users, and \<^verbatim>\<open>unicode_prop1\<close>, which expands a whole table
  into a character range. A table read outside its array is \<open>None\<close>. The main result: for
  any table with a consistent index, the indexed search and the expansion agree.
\<close>

section \<open>The operations\<close>

definition get_le24 :: "u8 list \<Rightarrow> nat \<Rightarrow> u32 option" where
  "get_le24 t p = do {
     b0 \<leftarrow> rd t p; b1 \<leftarrow> rd t (p + 1); b2 \<leftarrow> rd t (p + 2);
     Some (ucast b0 OR push_bit 8 (ucast b1) OR push_bit 16 (ucast b2)) }"

definition code21 :: "u32 \<Rightarrow> u32" where
  "code21 v = v AND (push_bit 21 1 - 1)"

definition UNICODE_INDEX_BLOCK_LEN :: nat where
  "UNICODE_INDEX_BLOCK_LEN = 32"

text \<open>The binary search of \<open>get_index_pos\<close>, with its invariant
  \<open>tab[idx_min] \<le> c < tab[idx_max]\<close>.\<close>

function index_search :: "u8 list \<Rightarrow> u32 \<Rightarrow> nat \<Rightarrow> nat \<Rightarrow> nat option" where
  "index_search t c idx_min idx_max =
     (if idx_max - idx_min > 1 then
        let idx = (idx_max + idx_min) div 2
        in case get_le24 t (idx * 3) of
             None \<Rightarrow> None
           | Some v \<Rightarrow> if c < code21 v then index_search t c idx_min idx
                      else index_search t c idx idx_max
      else Some idx_min)"
  by pat_completeness auto
termination by (relation "measure (\<lambda>(t, c, lo, hi). hi - lo)") auto

declare index_search.simps [simp del]

text \<open>The result is the position in the table and \<open>*pcode\<close>; the inner \<open>None\<close> is -1.\<close>

definition get_index_pos :: "u32 \<Rightarrow> u8 list \<Rightarrow> nat \<Rightarrow> (nat \<times> u32) option option" where
  "get_index_pos c t n = do {
     v \<leftarrow> get_le24 t 0;
     if c < code21 v then Some (Some (0, 0))
     else do {
       let idx_max = n - 1;
       last \<leftarrow> get_le24 t (idx_max * 3);
       if c \<ge> last then Some None
       else do {
         idx \<leftarrow> index_search t c 0 idx_max;
         v \<leftarrow> get_le24 t (idx * 3);
         Some (Some ((idx + 1) * UNICODE_INDEX_BLOCK_LEN + unat (drop_bit 21 v), code21 v)) } } }"

text \<open>One entry of a table: the lengths of the one or two runs it holds, and the position behind
  it. \<open>lre_is_in_table\<close> and \<open>unicode_prop1\<close> decode it in the same way.\<close>

definition run_lens :: "u8 list \<Rightarrow> nat \<Rightarrow> (u32 list \<times> nat) option" where
  "run_lens t p = do {
     b8 \<leftarrow> rd t p;
     let b = (ucast b8 :: u32);
     if b < 64 then Some ([drop_bit 3 b + 1, (b AND 7) + 1], p + 1)
     else if b \<ge> 0x80 then Some ([b - 0x80 + 1], p + 1)
     else if b < 0x60 then do {
       p0 \<leftarrow> rd t (p + 1);
       Some ([(push_bit 8 (b - 0x40) OR ucast p0) + 1], p + 2) }
     else do {
       p0 \<leftarrow> rd t (p + 1); p1 \<leftarrow> rd t (p + 2);
       Some ([(push_bit 16 (b - 0x60) OR push_bit 8 (ucast p0) OR ucast p1) + 1], p + 3) } }"

lemma run_lens_pos: "run_lens t p = Some (ls, p') \<Longrightarrow> p < p' \<and> p < length t"
  by (auto simp: run_lens_def Let_def rd_def split: if_splits bind_splits)

fun scan_runs :: "u32 list \<Rightarrow> u32 \<Rightarrow> bool \<Rightarrow> u32 \<Rightarrow> bool + u32 \<times> bool" where
  "scan_runs [] code st c = Inr (code, st)"
| "scan_runs (l # ls) code st c =
     (let code = code + l in if c < code then Inl st else scan_runs ls code (\<not> st) c)"

function in_table_loop :: "u8 list \<Rightarrow> nat \<Rightarrow> u32 \<Rightarrow> bool \<Rightarrow> u32 \<Rightarrow> bool option" where
  "in_table_loop t p code st c =
     (case run_lens t p of
        None \<Rightarrow> None
      | Some (ls, p') \<Rightarrow>
          (case scan_runs ls code st c of
             Inl st' \<Rightarrow> Some st'
           | Inr (code', st') \<Rightarrow> in_table_loop t p' code' st' c))"
  by pat_completeness auto
termination by (relation "measure (\<lambda>(t, p, code, st, c). length t - p)")
  (auto dest!: run_lens_pos)

declare in_table_loop.simps [simp del]

definition lre_is_in_table :: "u32 \<Rightarrow> u8 list \<Rightarrow> u8 list \<Rightarrow> bool option" where
  "lre_is_in_table c t idx = do {
     r \<leftarrow> get_index_pos c idx (length idx div 3);
     case r of None \<Rightarrow> Some False
     | Some (pos, code) \<Rightarrow> in_table_loop t pos code False c }"

definition lre_is_case_ignorable :: "u32 \<Rightarrow> bool option" where
  "lre_is_case_ignorable c =
     lre_is_in_table c unicode_prop_Case_Ignorable_table unicode_prop_Case_Ignorable_index"

definition lre_is_id_start :: "u32 \<Rightarrow> bool option" where
  "lre_is_id_start c = lre_is_in_table c unicode_prop_ID_Start_table unicode_prop_ID_Start_index"

definition lre_is_id_continue :: "u32 \<Rightarrow> bool option" where
  "lre_is_id_continue c = do {
     s \<leftarrow> lre_is_id_start c;
     if s then Some True
     else lre_is_in_table c unicode_prop_ID_Continue1_table unicode_prop_ID_Continue1_index }"

text \<open>The expansion of a table into a range.\<close>

fun add_runs :: "CharRange \<Rightarrow> u32 list \<Rightarrow> u32 \<Rightarrow> bool \<Rightarrow> (int \<times> CharRange \<times> u32 \<times> bool) option" where
  "add_runs cr [] c st = Some (0, cr, c, st)"
| "add_runs cr (l # ls) c0 st =
     (let c = c0 + l in
      if st then do {
        (r, cr') \<leftarrow> cr_add_interval cr c0 c;
        if r \<noteq> 0 then Some (-1, cr', c, st) else add_runs cr' ls c (\<not> st) }
      else add_runs cr ls c (\<not> st))"

function prop1_loop :: "CharRange \<Rightarrow> u8 list \<Rightarrow> nat \<Rightarrow> u32 \<Rightarrow> bool \<Rightarrow> (int \<times> CharRange) option" where
  "prop1_loop cr t p c st =
     (if p < length t then
        case run_lens t p of
          None \<Rightarrow> None
        | Some (ls, p') \<Rightarrow>
            (case add_runs cr ls c st of
               None \<Rightarrow> None
             | Some (r, cr', c', st') \<Rightarrow>
                 if r \<noteq> 0 then Some (-1, cr') else prop1_loop cr' t p' c' st')
      else Some (0, cr))"
  by pat_completeness auto
termination by (relation "measure (\<lambda>(cr, t, p, c, st). length t - p)")
  (auto dest!: run_lens_pos)

declare prop1_loop.simps [simp del]

definition unicode_prop1 :: "CharRange \<Rightarrow> u8 list \<Rightarrow> (int \<times> CharRange) option" where
  "unicode_prop1 cr t = prop1_loop cr t 0 0 False"

section \<open>What a table denotes\<close>

text \<open>The code points at which membership changes, from an entry on.\<close>

fun run_ends :: "u32 list \<Rightarrow> u32 \<Rightarrow> u32 list" where
  "run_ends [] code = []"
| "run_ends (l # ls) code = (code + l) # run_ends ls (code + l)"

function boundaries :: "u8 list \<Rightarrow> nat \<Rightarrow> u32 \<Rightarrow> u32 list" where
  "boundaries t p code =
     (case run_lens t p of
        None \<Rightarrow> []
      | Some (ls, p') \<Rightarrow> run_ends ls code @ boundaries t p' (fold (+) ls code))"
  by pat_completeness auto
termination by (relation "measure (\<lambda>(t, p, code). length t - p)") (auto dest!: run_lens_pos)

declare boundaries.simps [simp del]

definition table_mem :: "u8 list \<Rightarrow> u32 \<Rightarrow> bool" where
  "table_mem t c \<longleftrightarrow> odd (cnt c (boundaries t 0 0))"

text \<open>An executable check of a table against its index, on integers: the decoder runs once over
  the bytes; every index entry but the last must be met outside the set, and the table must end,
  outside the set, at the code of the last entry.\<close>

definition run_lens_int :: "int list \<Rightarrow> (int list \<times> int \<times> int list) option" where
  "run_lens_int bs = (case bs of
     [] \<Rightarrow> None
   | b # bs1 \<Rightarrow>
     (if b < 64 then Some ([b div 8 + 1, b mod 8 + 1], 1, bs1)
      else if b \<ge> 128 then Some ([b - 128 + 1], 1, bs1)
      else case bs1 of
        [] \<Rightarrow> None
      | p0 # bs2 \<Rightarrow>
        (if b < 96 then Some ([(b - 64) * 256 + p0 + 1], 2, bs2)
         else case bs2 of
           [] \<Rightarrow> None
         | p1 # bs3 \<Rightarrow> Some ([(b - 96) * 65536 + p0 * 256 + p1 + 1], 3, bs3))))"

lemma run_lens_int_shorter: "run_lens_int bs = Some (ls, k, bs') \<Longrightarrow> length bs' < length bs"
  by (auto simp: run_lens_int_def split: list.splits if_splits)

fun drop_met :: "(int \<times> int) list \<Rightarrow> int \<Rightarrow> int \<Rightarrow> bool \<Rightarrow> (int \<times> int) list" where
  "drop_met [] p code st = []"
| "drop_met ((q, d) # es) p code st = (if q = p \<and> d = code \<and> \<not> st then es else (q, d) # es)"

function check_runs :: "int list \<Rightarrow> int \<Rightarrow> int \<Rightarrow> bool \<Rightarrow> (int \<times> int) list \<Rightarrow> int \<Rightarrow> bool" where
  "check_runs bs p code st es fin =
     (case run_lens_int bs of
        None \<Rightarrow> bs = [] \<and> \<not> st \<and> code = fin \<and> drop_met es p code st = []
      | Some (ls, k, bs') \<Rightarrow>
          check_runs bs' (p + k) (code + sum_list ls) (st \<noteq> odd (length ls)) (drop_met es p code st) fin)"
  by pat_completeness auto
termination by (relation "measure (\<lambda>(bs, p, code, st, es, fin). length bs)")
  (auto dest!: run_lens_int_shorter)

declare check_runs.simps [simp del]

fun index_int :: "int list \<Rightarrow> int \<Rightarrow> (int \<times> int) list" where
  "index_int (b0 # b1 # b2 # bs) i =
     ((i + 1) * 32 + b2 div 32, b0 + 256 * b1 + 65536 * (b2 mod 32)) # index_int bs (i + 1)"
| "index_int _ i = []"

definition check_table :: "u8 list \<Rightarrow> u8 list \<Rightarrow> bool" where
  "check_table t idx \<longleftrightarrow>
     (let es = index_int (map uint idx) 0; (q, fin) = last es in
      es \<noteq> [] \<and> int (length idx) = 3 * int (length es) \<and> uint (last idx) < 32 \<and>
      sorted (map snd es) \<and> distinct (map snd es) \<and>
      check_runs (map uint t) 0 0 False (butlast es) fin)"

section \<open>Soundness of the check\<close>

lemma drop_uint_Cons:
  "map uint (drop p t) = x # xs \<Longrightarrow> p < length t \<and> x = uint (t ! p) \<and> xs = map uint (drop (p + 1) t)"
  by (cases "p < length t") (auto simp flip: Cons_nth_drop_Suc)

declare uint_u8_bounds [simp del]

lemma uint_u32_of_u8: "uint (ucast (b :: u8) :: u32) = uint b"
  by (simp add: uint_ucast_down)


lemma u8_lt: "uint (b :: u8) < 256" using uint_lt2p [of b] by simp

lemma uint_plus1: "uint (x :: u32) < 2 ^ 32 - 1 \<Longrightarrow> uint (x + 1) = uint x + 1"
  by (simp add: uint_word_ariths)

lemma uint_minus: "(k :: u32) \<le> x \<Longrightarrow> uint (x - k) = uint x - uint k"
  by (simp add: uint_minus_simple_alt)

lemma uint_shl_or: 
  assumes "uint (y :: u32) < 2 ^ n" "uint (x :: u32) * 2 ^ n < 2 ^ 32"
  shows "uint (push_bit n x OR y) = uint x * 2 ^ n + uint y"
proof -
  have "uint (push_bit n x OR y) = uint (push_bit n x) OR uint y" by (simp add: unsigned_or_eq)
  also have "uint (push_bit n x) = push_bit n (uint x)"
    unfolding unsigned_push_bit_eq using assms(2) by (simp add: take_bit_int_eq_self push_bit_eq_mult)
  finally show ?thesis using or_disjoint_int [of "uint y" n "uint x"] assms(1) by simp
qed

lemma run_len_lo: "uint (drop_bit 3 (ucast (b :: u8) :: u32) + 1) = uint b div 8 + 1"
proof -
  have e: "uint (drop_bit 3 (ucast b :: u32)) = uint b div 8"
    unfolding unsigned_drop_bit_eq uint_u32_of_u8 using u8_lt [of b]
    by (simp add: drop_bit_eq_div take_bit_int_eq_self)
  have "uint b div 8 < 256" using u8_lt [of b] by linarith
  then show ?thesis by (simp add: uint_plus1 e)
qed

lemma run_len_hi: "uint (((ucast (b :: u8) :: u32) AND 7) + 1) = uint b mod 8 + 1"
proof -
  have e: "uint ((ucast b :: u32) AND 7) = uint b mod 8"
    using and_mask_int [of "uint b" 3] by (simp add: unsigned_and_eq uint_u32_of_u8)
  have "uint b mod 8 < 8" by simp
  then show ?thesis by (simp add: uint_plus1 e)
qed

lemma run_len_one: "128 \<le> uint (b :: u8) \<Longrightarrow> uint ((ucast b :: u32) - 0x80 + 1) = uint b - 128 + 1"
proof -
  assume "128 \<le> uint b"
  then have "uint ((ucast b :: u32) - 0x80) = uint b - 128"
    by (subst uint_minus) (simp_all add: word_le_def uint_u32_of_u8)
  then show ?thesis using u8_lt [of b] uint_plus1 [of "(ucast b :: u32) - 0x80"] by simp
qed

lemma run_len_two: "64 \<le> uint (b :: u8) \<Longrightarrow> uint ((push_bit 8 ((ucast b :: u32) - 0x40) OR ucast (p0 :: u8)) + 1) = (uint b - 64) * 256 + uint p0 + 1"
proof -
  assume "64 \<le> uint b"
  then have e: "uint ((ucast b :: u32) - 0x40) = uint b - 64"
    by (subst uint_minus) (simp_all add: word_le_def uint_u32_of_u8)
  have e2: "uint (push_bit 8 ((ucast b :: u32) - 0x40) OR ucast p0) = (uint b - 64) * 256 + uint p0"
    using u8_lt [of b] u8_lt [of p0] by (subst uint_shl_or) (simp_all add: e uint_u32_of_u8)
  show ?thesis unfolding e2 [symmetric] 
    by (rule uint_plus1) (use e2 u8_lt [of b] u8_lt [of p0] in simp)
qed

lemma run_len_three: "96 \<le> uint (b :: u8) \<Longrightarrow> uint ((push_bit 16 ((ucast b :: u32) - 0x60) OR push_bit 8 (ucast (p0 :: u8)) OR ucast (p1 :: u8)) + 1)
   = (uint b - 96) * 65536 + uint p0 * 256 + uint p1 + 1"
proof -
  assume "96 \<le> uint b"
  then have e: "uint ((ucast b :: u32) - 0x60) = uint b - 96"
    by (subst uint_minus) (simp_all add: word_le_def uint_u32_of_u8)
  have e1: "uint (push_bit 8 (ucast p0 :: u32) OR ucast p1) = uint p0 * 256 + uint p1"
    using u8_lt [of p0] u8_lt [of p1] by (subst uint_shl_or) (simp_all add: uint_u32_of_u8)
  have e2: "uint (push_bit 16 ((ucast b :: u32) - 0x60) OR push_bit 8 (ucast p0) OR ucast p1) = (uint b - 96) * 65536 + (uint p0 * 256 + uint p1)"
    using u8_lt [of b] u8_lt [of p0] u8_lt [of p1] e1 by (subst uint_shl_or) (simp_all add: e)
  show ?thesis 
    using uint_plus1 [of "push_bit 16 ((ucast b :: u32) - 0x60) OR push_bit 8 (ucast p0) OR ucast p1"] e2 u8_lt [of b] u8_lt [of p0] u8_lt [of p1] by simp
qed

lemma run_lens_int_sound:
  "run_lens_int (map uint (drop p t)) = Some (ls, k, bs') \<Longrightarrow>
   \<exists>ws p'. run_lens t p = Some (ws, p') \<and> ls = map uint ws \<and> int p' = int p + k
      \<and> bs' = map uint (drop p' t)"
proof -
  assume r: "run_lens_int (map uint (drop p t)) = Some (ls, k, bs')"
  then obtain x xs where 0: "map uint (drop p t) = x # xs"
    by (cases "map uint (drop p t)") (auto simp: run_lens_int_def)
  note p0 = drop_uint_Cons [OF 0]
  let ?b = "t ! p"
  have lt: "(ucast ?b < (n :: u32)) = (uint ?b < uint n)" "((n :: u32) \<le> ucast ?b) = (uint n \<le> uint ?b)" for n
    by (simp_all add: word_less_def word_le_def uint_u32_of_u8)
  consider "uint ?b < 64" | "128 \<le> uint ?b" | "64 \<le> uint ?b" "uint ?b < 96" | "96 \<le> uint ?b" "uint ?b < 128"
    by linarith
  then show ?thesis
  proof cases
    case 1
    then show ?thesis using r p0 unfolding 0
      by (auto simp: run_lens_int_def run_lens_def Let_def lt run_len_lo run_len_hi
          pos_imp_zdiv_nonneg_iff uint_u8_bounds)
  next
    case 2
    then show ?thesis using r p0 unfolding 0
      by (auto simp: run_lens_int_def run_lens_def Let_def lt u8_lt run_len_one [simplified])
  next
    case 3
    then obtain y ys where xs: "xs = y # ys" using r p0 unfolding 0 by (cases xs) (auto simp: run_lens_int_def)
    then have p1: "Suc p < length t" "y = uint (t ! Suc p)" "ys = map uint (drop (Suc (Suc p)) t)"
      using p0 drop_uint_Cons [of "Suc p" t y ys] by auto
    show ?thesis using r p0 p1 3 unfolding 0 xs
      by (auto simp: run_lens_int_def run_lens_def Let_def lt u8_lt run_len_two)
  next
    case 4
    then obtain y z zs where xs: "xs = y # z # zs"
      using r p0 unfolding 0 by (cases xs rule: remdups_adj.cases) (auto simp: run_lens_int_def)
    then have p1: "Suc p < length t" "y = uint (t ! Suc p)" "z # zs = map uint (drop (Suc (Suc p)) t)"
      using p0 drop_uint_Cons [of "Suc p" t y "z # zs"] by auto
    then have p2: "Suc (Suc p) < length t" "z = uint (t ! Suc (Suc p))" "zs = map uint (drop (Suc (Suc (Suc p))) t)"
      using drop_uint_Cons [of "Suc (Suc p)" t z zs] by auto
    have n3: "p + 3 = Suc (Suc (Suc p))" by simp
    show ?thesis using r p0 p1 p2 4 unfolding 0 xs
      by (auto simp: run_lens_int_def run_lens_def Let_def lt u8_lt run_len_three n3)
  qed
qed

lemma run_lens_int_end:
  "run_lens_int (map uint (drop p t)) = None \<Longrightarrow> map uint (drop p t) = [] \<Longrightarrow> run_lens t p = None"
  by (auto simp: run_lens_def rd_def)

text \<open>The run ends of one entry, when they do not wrap around.\<close>

lemma run_ends_facts:
  "(\<forall>l \<in> set ls. 0 < uint l) \<Longrightarrow> uint code + sum_list (map uint ls) < 2 ^ 32 \<Longrightarrow>
   sorted_wrt (<) (run_ends ls code) \<and> uint (fold (+) ls code) = uint code + sum_list (map uint ls)
   \<and> (\<forall>x \<in> set (run_ends ls code). code < x \<and> x \<le> fold (+) ls code)
   \<and> length (run_ends ls code) = length ls"
proof (induction ls arbitrary: code)
  case (Cons l ls)
  have nn: "0 \<le> sum_list (map uint ls)" by (rule sum_list_nonneg) auto
  have a: "uint (code + l) = uint code + uint l"
    using Cons.prems(2) nn by (intro uint_plus_simple_iff [THEN iffD1]) (simp add: word_le_def uint_word_ariths)
  have ih: "sorted_wrt (<) (run_ends ls (code + l)) \<and> uint (fold (+) ls (code + l)) = uint (code + l) + sum_list (map uint ls)
   \<and> (\<forall>x \<in> set (run_ends ls (code + l)). code + l < x \<and> x \<le> fold (+) ls (code + l))
   \<and> length (run_ends ls (code + l)) = length ls"
    using Cons.prems a by (intro Cons.IH) auto
  have "code < code + l" "code + l \<le> fold (+) ls (code + l)"
    using Cons.prems(1) a ih nn by (auto simp: word_less_def word_le_def)
  then show ?case using ih a by (auto simp: add.commute intro: less_trans)
qed simp

lemma run_lens_int_nonneg:
  "run_lens_int bs = Some (ls, k, bs') \<Longrightarrow> (\<forall>b \<in> set bs. 0 \<le> b) \<Longrightarrow>
   (\<forall>b \<in> set bs'. 0 \<le> b) \<and> 0 \<le> sum_list ls \<and> (\<forall>l \<in> set ls. 0 < l)"
  by (auto simp: run_lens_int_def pos_imp_zdiv_nonneg_iff intro!: add_nonneg_pos split: list.splits if_splits)

lemma check_runs_le:
  "check_runs bs p code st es fin \<Longrightarrow> (\<forall>b \<in> set bs. 0 \<le> b) \<Longrightarrow> code \<le> fin"
proof (induction bs p code st es fin rule: check_runs.induct)
  case (1 bs p code st es fin)
  show ?case
  proof (cases "run_lens_int bs")
    case None
    with "1.prems" show ?thesis by (simp add: check_runs.simps [of bs])
  next
    case (Some x)
    obtain ls k bs' where x: "x = (ls, k, bs')" by (metis surj_pair)
    note n = run_lens_int_nonneg [OF Some [unfolded x] "1.prems"(2)]
    have "code + sum_list ls \<le> fin"
      by (rule "1.IH" [OF Some x [symmetric] refl]) (use "1.prems"(1) n Some x in \<open>simp_all add: check_runs.simps [of bs]\<close>)
    with n show ?thesis by simp
  qed
qed

lemma run_ends_last: "ws \<noteq> [] \<Longrightarrow> last (run_ends ws code) = fold (+) ws code"
proof (induction ws arbitrary: code)
  case (Cons w ws)
  show ?case
  proof (cases ws)
    case (Cons v vs)
    then have "last (run_ends (w # ws) code) = last (run_ends ws (code + w))" by simp
    with Cons.IH [of "code + w"] Cons show ?thesis by (simp add: add.commute)
  qed simp
qed simp

definition met_at :: "u8 list \<Rightarrow> u32 \<Rightarrow> u32 list \<Rightarrow> bool \<Rightarrow> int \<times> int \<Rightarrow> bool" where
  "met_at t c0 B st e \<longleftrightarrow> (\<exists>pre code. snd e = uint code \<and> 0 \<le> fst e \<and> B = pre @ boundaries t (nat (fst e)) code
     \<and> (st \<longleftrightarrow> odd (length pre)) \<and> (\<forall>x \<in> set pre. x \<le> code) \<and> c0 \<le> code)"

lemma drop_met_cases:
  "(\<forall>e \<in> set (drop_met es (int p) (uint code) st). met_at t code B st e) \<Longrightarrow> B = boundaries t p code \<Longrightarrow>
   \<forall>e \<in> set es. met_at t code B st e"
  by (cases "(es, int p, uint code, st)" rule: drop_met.cases)
    (auto simp: met_at_def split: if_splits intro!: exI [of _ "[]"] exI [of _ code])

lemma check_runs_sound:
  "check_runs (map uint (drop p t)) (int p) (uint code) st es fin \<Longrightarrow> fin < 2 ^ 32 \<Longrightarrow>
   sorted_wrt (<) (boundaries t p code) \<and> (\<forall>x \<in> set (boundaries t p code). code < x) \<and>
   uint (last (code # boundaries t p code)) = fin \<and> (st \<longleftrightarrow> odd (length (boundaries t p code))) \<and>
   (\<forall>e \<in> set es. met_at t code (boundaries t p code) st e)"
proof (induction t p code arbitrary: st es rule: boundaries.induct)
  case (1 t p code)
  show ?case
  proof (cases "run_lens_int (map uint (drop p t))")
    case None
    then have e: "map uint (drop p t) = []" "\<not> st" "uint code = fin" "drop_met es (int p) (uint code) st = []"
      using "1.prems"(1) by (auto simp: check_runs.simps [of "map uint (drop p t)"])
    have B: "boundaries t p code = []"
      using run_lens_int_end [OF None e(1)] by (simp add: boundaries.simps [of t p code])
    show ?thesis using drop_met_cases [of es p code st t "boundaries t p code"] e B by simp
  next
    case (Some x)
    obtain ls k bs' where x: "x = (ls, k, bs')" by (metis surj_pair)
    obtain ws p' where r: "run_lens t p = Some (ws, p')" and ls: "ls = map uint ws"
      and p': "int p' = int p + k" and bs': "bs' = map uint (drop p' t)"
      using run_lens_int_sound [OF Some [unfolded x]] by blast
    have pos: "\<forall>l \<in> set ls. 0 < l" using run_lens_int_nonneg [OF Some [unfolded x]] by simp
    have c: "check_runs (map uint (drop p' t)) (int p') (uint code + sum_list (map uint ws))
        (st \<noteq> odd (length ws)) (drop_met es (int p) (uint code) st) fin"
      using "1.prems"(1) Some x by (simp add: check_runs.simps [of "map uint (drop p t)"] ls p' bs')
    have "uint code + sum_list (map uint ws) < 2 ^ 32"
      using check_runs_le [OF c] "1.prems"(2) by simp
    note f = run_ends_facts [OF _ this]
    let ?c = "fold (+) ws code"
    have c': "uint ?c = uint code + sum_list (map uint ws)" using f pos ls by simp
    note ih = "1.IH" [OF r refl c [folded c'] "1.prems"(2)]
    have B: "boundaries t p code = run_ends ws code @ boundaries t p' ?c"
      by (simp add: boundaries.simps [of t p code] r)
    have f: "sorted_wrt (<) (run_ends ws code)" "length (run_ends ws code) = length ws"
      "\<forall>x \<in> set (run_ends ws code). code < x \<and> x \<le> ?c" using f pos ls by auto
    have le: "code \<le> ?c" using c' sum_list_nonneg [of "map uint ws"] by (auto simp: word_le_def)
    have 1: "sorted_wrt (<) (boundaries t p code) \<and> (\<forall>x \<in> set (boundaries t p code). code < x)"
      unfolding B using ih f le by (fastforce simp: sorted_wrt_append)
    have 2: "uint (last (code # boundaries t p code)) = fin"
      unfolding B using ih f(2) run_ends_last [of ws code] by (cases "ws = []"; cases "boundaries t p' ?c = []") auto
    have "\<forall>e \<in> set (drop_met es (int p) (uint code) st). met_at t code (boundaries t p code) st e"
    proof
      fix e assume e: "e \<in> set (drop_met es (int p) (uint code) st)"
      moreover have "\<forall>e \<in> set (drop_met es (int p) (uint code) st).
          met_at t ?c (boundaries t p' ?c) (st \<noteq> odd (length ws)) e" using ih by blast
      ultimately have "met_at t ?c (boundaries t p' ?c) (st \<noteq> odd (length ws)) e" by blast
      then obtain pre code' where m: "snd e = uint code'" "0 \<le> fst e"
        "boundaries t p' ?c = pre @ boundaries t (nat (fst e)) code'"
        "(st \<noteq> odd (length ws)) \<longleftrightarrow> odd (length pre)" "\<forall>x \<in> set pre. x \<le> code'" "?c \<le> code'"
        unfolding met_at_def by blast
      have "odd (length (run_ends ws code @ pre)) = (odd (length ws) \<noteq> odd (length pre))"
        by (simp add: f(2))
      then have "st \<longleftrightarrow> odd (length (run_ends ws code @ pre))" using m(4) by argo
      moreover have "\<forall>x \<in> set (run_ends ws code @ pre). x \<le> code'"
        using f(3) m(5,6) by (auto intro: order_trans)
      moreover have "code \<le> code'" using le m(6) by (rule order_trans)
      moreover have "boundaries t p code = (run_ends ws code @ pre) @ boundaries t (nat (fst e)) code'"
        by (simp add: B m(3))
      ultimately show "met_at t code (boundaries t p code) st e"
        unfolding met_at_def using m(1,2)
        by (intro exI [of _ "run_ends ws code @ pre"] exI [of _ code'] conjI)
    qed
    then have 3: "\<forall>e \<in> set es. met_at t code (boundaries t p code) st e" by (rule drop_met_cases) (rule refl)
    have "(st \<noteq> odd (length ws)) \<longleftrightarrow> odd (length (boundaries t p' ?c))"
      using ih by (elim conjE)
    moreover have "odd (length (boundaries t p code)) = (odd (length ws) \<noteq> odd (length (boundaries t p' ?c)))"
      unfolding B by (simp add: f(2))
    ultimately have 4: "st \<longleftrightarrow> odd (length (boundaries t p code))" by argo
    show ?thesis using 1 2 3 4 by (intro conjI; simp)
  qed
qed

section \<open>The indexed search\<close>

lemma scan_runs_spec:
  "sorted_wrt (<) (run_ends ls code) \<Longrightarrow>
   (case scan_runs ls code st c of
      Inl b \<Rightarrow> b = (st \<noteq> odd (cnt c (run_ends ls code))) \<and> (\<exists>x \<in> set (run_ends ls code). c < x)
    | Inr (code', st') \<Rightarrow> code' = fold (+) ls code \<and> st' = (st \<noteq> odd (length ls))
        \<and> (\<forall>x \<in> set (run_ends ls code). x \<le> c))"
proof (induction ls arbitrary: code st)
  case (Cons l ls)
  show ?case
  proof (cases "c < code + l")
    case True
    then have "\<forall>x \<in> set (run_ends ls (code + l)). c < x" using Cons.prems by (auto intro: less_trans)
    with True show ?thesis by (simp add: Let_def cnt_zero not_le [symmetric])
  next
    case False
    then show ?thesis using Cons.IH [of "code + l" "\<not> st"] Cons.prems
      by (auto simp: Let_def not_less add.commute split: sum.splits prod.splits)
  qed
qed simp

lemma cnt_all: "\<forall>x \<in> set ps. x \<le> c \<Longrightarrow> cnt c ps = length ps"
  by (simp add: filter_id_conv)

lemma length_run_ends [simp]: "length (run_ends ls code) = length ls"
  by (induction ls arbitrary: code) auto

lemma in_table_loop_spec:
  "sorted_wrt (<) (boundaries t p code) \<Longrightarrow> \<exists>x \<in> set (boundaries t p code). c < x \<Longrightarrow>
   in_table_loop t p code st c = Some (st \<noteq> odd (cnt c (boundaries t p code)))"
proof (induction t p code arbitrary: st rule: boundaries.induct)
  case (1 t p code)
  show ?case
  proof (cases "run_lens t p")
    case None
    with "1.prems" show ?thesis by (simp add: boundaries.simps [of t p code])
  next
    case (Some y)
    obtain ls p' where y: "y = (ls, p')" by (metis surj_pair)
    let ?c = "fold (+) ls code"
    have B: "boundaries t p code = run_ends ls code @ boundaries t p' ?c"
      by (simp add: boundaries.simps [of t p code] Some y)
    have so: "sorted_wrt (<) (run_ends ls code)" "sorted_wrt (<) (boundaries t p' ?c)"
      "\<forall>x \<in> set (run_ends ls code). \<forall>y \<in> set (boundaries t p' ?c). x < y"
      using "1.prems"(1) by (auto simp: B sorted_wrt_append)
    note sc = scan_runs_spec [OF so(1), of st c]
    show ?thesis
    proof (cases "scan_runs ls code st c")
      case (Inl b)
      then obtain x where x: "x \<in> set (run_ends ls code)" "c < x" and b: "b = (st \<noteq> odd (cnt c (run_ends ls code)))"
        using sc by auto
      then have "\<forall>y \<in> set (boundaries t p' ?c). c < y" using so(3) by (meson less_trans)
      then show ?thesis
        by (simp add: in_table_loop.simps [of t p] Some y Inl b B cnt_zero not_le [symmetric])
    next
      case (Inr z)
      obtain code' st' where z: "z = (code', st')" by (metis surj_pair)
      have zz: "code' = ?c" "st' = (st \<noteq> odd (length ls))" "\<forall>x \<in> set (run_ends ls code). x \<le> c"
        using sc by (auto simp: Inr z)
      have "\<exists>x \<in> set (boundaries t p' ?c). c < x" using "1.prems"(2) zz(3) by (auto simp: B not_less [symmetric])
      note ih = "1.IH" [OF Some y [symmetric] so(2) this, of st']
      show ?thesis
        unfolding B using ih cnt_all [OF zz(3)]
        by (simp add: in_table_loop.simps [of t p] Some y Inr z zz) blast
    qed
  qed
qed

lemma length_index_int: "length (index_int bs k) = length bs div 3"
  by (induction bs k rule: index_int.induct) auto

lemma index_int_nth:
  "i < length bs div 3 \<Longrightarrow> index_int bs k ! i =
     ((k + int i + 1) * 32 + bs ! (i * 3 + 2) div 32,
      bs ! (i * 3) + 256 * bs ! (i * 3 + 1) + 65536 * (bs ! (i * 3 + 2) mod 32))"
proof (induction bs k arbitrary: i rule: index_int.induct)
  case (1 b0 b1 b2 bs k)
  have e: "Suc j * 3 = Suc (Suc (Suc (j * 3)))" for j by simp
  show ?case
  proof (cases i)
    case (Suc j)
    then have "j < length bs div 3" using "1.prems" by simp
    then show ?thesis using "1.IH" [of j] unfolding Suc e by simp
  qed simp
qed auto

lemma le24_uint:
  "uint (ucast (x :: u8) OR push_bit 8 (ucast (y :: u8)) OR push_bit 16 (ucast (z :: u8)) :: u32)
     = uint x + 256 * uint y + 65536 * uint z"
proof -
  note lt = u8_lt [of x] u8_lt [of y] u8_lt [of z]
  have e0: "(ucast x OR push_bit 8 (ucast y) OR push_bit 16 (ucast z) :: u32)
      = push_bit 8 (push_bit 8 (ucast z) OR ucast y) OR ucast x"
    by (simp add: push_bit_or ac_simps)
  have e1: "uint (push_bit 8 (ucast z :: u32) OR ucast y) = uint z * 256 + uint y"
    using lt by (subst uint_shl_or) (simp_all add: uint_u32_of_u8)
  have "uint (push_bit 8 (push_bit 8 (ucast z) OR ucast y) OR ucast x :: u32)
      = (uint z * 256 + uint y) * 256 + uint x"
    using lt by (subst uint_shl_or) (simp_all add: uint_u32_of_u8 e1)
  then show ?thesis unfolding e0 by simp
qed

lemma get_le24_Some:
  assumes "p + 2 < length t"
  obtains v where "get_le24 t p = Some v"
    "uint v = uint (t ! p) + 256 * uint (t ! (p + 1)) + 65536 * uint (t ! (p + 2))"
  using assms le24_uint [of "t ! p" "t ! (p + 1)" "t ! (p + 2)"] by (simp add: get_le24_def)

lemma uint_code21: "uint (code21 v) = uint v mod 2 ^ 21"
  using and_mask_int [of "uint v" 21] by (simp add: code21_def unsigned_and_eq)

text \<open>The entries of an index as the search reads them.\<close>

lemma index_entry:
  assumes n: "length idx = 3 * n" and i: "i < n"
  obtains v where "get_le24 idx (i * 3) = Some v"
    "uint (code21 v) = snd (index_int (map uint idx) 0 ! i)"
    "int ((i + 1) * UNICODE_INDEX_BLOCK_LEN + unat (drop_bit 21 v)) = fst (index_int (map uint idx) 0 ! i)"
    "uint v = uint (idx ! (i * 3)) + 256 * uint (idx ! (i * 3 + 1)) + 65536 * uint (idx ! (i * 3 + 2))"
proof -
  have l: "i * 3 + 2 < length idx" using n i by simp
  obtain v where v: "get_le24 idx (i * 3) = Some v"
    "uint v = uint (idx ! (i * 3)) + 256 * uint (idx ! (i * 3 + 1)) + 65536 * uint (idx ! (i * 3 + 2))"
    using get_le24_Some [OF l] by blast
  have e: "index_int (map uint idx) 0 ! i = ((int i + 1) * 32 + uint (idx ! (i * 3 + 2)) div 32,
      uint (idx ! (i * 3)) + 256 * uint (idx ! (i * 3 + 1)) + 65536 * (uint (idx ! (i * 3 + 2)) mod 32))"
    using index_int_nth [of i "map uint idx" 0] n i l by simp
  note lt = u8_lt [of "idx ! (i * 3)"] u8_lt [of "idx ! (i * 3 + 1)"] u8_lt [of "idx ! (i * 3 + 2)"]
    uint_ge_0 [of "idx ! (i * 3)"] uint_ge_0 [of "idx ! (i * 3 + 1)"] uint_ge_0 [of "idx ! (i * 3 + 2)"]
  define a where "a = uint (idx ! (i * 3)) + 256 * uint (idx ! (i * 3 + 1))"
  define b where "b = uint (idx ! (i * 3 + 2))"
  have a: "0 \<le> a" "a < 65536" using lt by (auto simp: a_def)
  have "uint v = (a + 65536 * (b mod 32)) + 2 ^ 21 * (b div 32)"
  proof -
    have "uint v = a + 65536 * b" by (simp add: v(2) a_def b_def)
    moreover have "a + 65536 * x = a + 65536 * r + 2 ^ 21 * d" if "32 * d + r = x" for x d r :: int
      using that by auto
    ultimately show ?thesis using mult_div_mod_eq [of 32 b] by metis
  qed
  moreover have "0 \<le> a + 65536 * (b mod 32)" "a + 65536 * (b mod 32) < 2 ^ 21"
    using a pos_mod_bound [of 32 b] pos_mod_sign [of 32 b] by auto
  ultimately have "uint v mod 2 ^ 21 = a + 65536 * (b mod 32)" "uint v div 2 ^ 21 = b div 32"
    by (simp_all add: div_pos_pos_trivial)
  then show thesis using v e
    by (intro that [of v]) (auto simp: uint_code21 uint_drop_bit_u32 UNICODE_INDEX_BLOCK_LEN_def a_def b_def)
qed

text \<open>The search returns an entry at or below \<open>c\<close> whose successor is above it.\<close>

lemma index_search_spec:
  "length idx = 3 * n \<Longrightarrow> lo < hi \<Longrightarrow> hi < n \<Longrightarrow>
    snd (index_int (map uint idx) 0 ! lo) \<le> uint c \<Longrightarrow> uint c < snd (index_int (map uint idx) 0 ! hi) \<Longrightarrow>
    \<exists>i. index_search idx c lo hi = Some i \<and> lo \<le> i \<and> i < hi \<and>
      snd (index_int (map uint idx) 0 ! i) \<le> uint c \<and> uint c < snd (index_int (map uint idx) 0 ! (i + 1))"
proof (induction idx c lo hi rule: index_search.induct)
  case (1 idx c lo hi)
  show ?case
  proof (cases "hi - lo > 1")
    case True
    let ?m = "(hi + lo) div 2"
    have m: "lo < ?m" "?m < hi" using True by auto
    then have mn: "?m < n" using "1.prems"(3) by simp
    obtain v where v: "get_le24 idx (?m * 3) = Some v"
      "uint (code21 v) = snd (index_int (map uint idx) 0 ! ?m)"
      using index_entry [OF "1.prems"(1) mn] by metis
    show ?thesis
    proof (cases "c < code21 v")
      case lt: True
      then have "uint c < snd (index_int (map uint idx) 0 ! ?m)" using v by (simp add: word_less_def)
      from "1.IH"(1) [OF True refl v(1) lt "1.prems"(1) m(1) mn "1.prems"(4) this] m
      show ?thesis using True v lt by (auto simp: index_search.simps [of idx c lo hi] Let_def)
    next
      case ge: False
      then have "snd (index_int (map uint idx) 0 ! ?m) \<le> uint c" using v by (simp add: word_less_def)
      from "1.IH"(2) [OF True refl v(1) ge "1.prems"(1) m(2) "1.prems"(3) this "1.prems"(5)] m
      show ?thesis using True v ge by (auto simp: index_search.simps [of idx c lo hi] Let_def)
    qed
  next
    case False
    then have "hi = lo + 1" using "1.prems"(2) by simp
    with "1.prems" show ?thesis by (auto simp: index_search.simps [of idx c lo "Suc lo"])
  qed
qed

section \<open>Search and expansion agree\<close>

text \<open>What the search of an index returns, whatever the table behind it.\<close>

definition index_ok :: "u8 list \<Rightarrow> int \<Rightarrow> bool" where
  "index_ok idx fin \<longleftrightarrow>
     (let es = index_int (map uint idx) 0 in
      es \<noteq> [] \<and> snd (last es) = fin \<and> int (length idx) = 3 * int (length es) \<and> uint (last idx) < 32 \<and>
      sorted (map snd es) \<and> distinct (map snd es))"

lemma index_ok_entries:
  assumes "index_ok idx fin"
  shows "length idx = 3 * length (index_int (map uint idx) 0)" "0 < length (index_int (map uint idx) 0)"
    "snd (index_int (map uint idx) 0 ! (length (index_int (map uint idx) 0) - 1)) = fin"
  using assms by (auto simp: index_ok_def Let_def last_conv_nth)

lemma index_ok_last:
  assumes ok: "index_ok idx fin"
  obtains vl where "get_le24 idx ((length (index_int (map uint idx) 0) - 1) * 3) = Some vl"
    "uint vl = fin" "fin < 2 ^ 32"
proof -
  define es where "es = index_int (map uint idx) 0"
  let ?n = "length es"
  note n = index_ok_entries [OF ok, folded es_def]
  have l: "?n - 1 < ?n" using n(2) by simp
  obtain vl where vl: "get_le24 idx ((?n - 1) * 3) = Some vl" "uint (code21 vl) = fin"
    "uint vl = uint (idx ! ((?n - 1) * 3)) + 256 * uint (idx ! ((?n - 1) * 3 + 1))
      + 65536 * uint (idx ! ((?n - 1) * 3 + 2))"
    using index_entry [OF n(1) l] n(3) unfolding es_def by metis
  have "(?n - 1) * 3 + 2 = length idx - 1" using n by (cases ?n) auto
  then have "last idx = idx ! ((?n - 1) * 3 + 2)" using n by (subst last_conv_nth) auto
  then have "uint vl < 2 ^ 21"
    using vl(3) ok u8_lt [of "idx ! ((?n - 1) * 3)"] u8_lt [of "idx ! ((?n - 1) * 3 + 1)"]
    by (simp add: index_ok_def Let_def)
  then have "uint vl = fin" using vl(2) by (simp add: uint_code21)
  then show thesis using that vl(1) uint_lt2p [of vl] by (simp add: es_def)
qed

lemma get_index_pos_cases:
  assumes ok: "index_ok idx fin"
  obtains "fin \<le> uint c" "get_index_pos c idx (length idx div 3) = Some None"
  | "uint c < fin" "get_index_pos c idx (length idx div 3) = Some (Some (0, 0))"
  | q code where "uint c < fin" "(q, uint code) \<in> set (butlast (index_int (map uint idx) 0))"
    "code \<le> c" "get_index_pos c idx (length idx div 3) = Some (Some (nat q, code))"
proof -
  define es where "es = index_int (map uint idx) 0"
  let ?n = "length es"
  note n = index_ok_entries [OF ok, folded es_def]
  obtain vl where vl: "get_le24 idx ((?n - 1) * 3) = Some vl" "uint vl = fin"
    using index_ok_last [OF ok] unfolding es_def by blast
  obtain v0 where v0: "get_le24 idx 0 = Some v0" "uint (code21 v0) = snd (es ! 0)"
    using index_entry [OF n(1,2)] unfolding es_def by (metis mult_zero_left)
  have le: "snd (es ! 0) \<le> fin"
    using sorted_nth_mono [of "map snd es" 0 "?n - 1"] ok n(2,3) by (simp add: index_ok_def Let_def es_def)
  have d: "length idx div 3 = ?n" using n(1) by simp
  consider "c < code21 v0" | "\<not> c < code21 v0" "vl \<le> c" | "\<not> c < code21 v0" "\<not> vl \<le> c" by blast
  then show thesis
  proof cases
    case 1
    then have "uint c < fin" using v0(2) le by (simp add: word_less_def)
    then show ?thesis using that(2) 1 v0 by (simp add: get_index_pos_def)
  next
    case 2
    then show ?thesis using that(1) v0 vl d by (simp add: get_index_pos_def word_le_def)
  next
    case 3
    then have cf: "uint c < fin" using vl(2) by (simp add: word_le_def)
    have c0: "snd (es ! 0) \<le> uint c" using 3(1) v0(2) by (simp add: word_less_def)
    have "?n \<noteq> 1" using cf c0 n(3) by auto
    then have n1: "0 < ?n - 1" "?n - 1 < ?n" using n(2) by linarith+
    obtain i where i: "index_search idx c 0 (?n - 1) = Some i" "i < ?n - 1" "snd (es ! i) \<le> uint c"
      using index_search_spec [OF n(1) n1, of c] c0 cf n(3) unfolding es_def by metis
    then have "i < ?n" by linarith
    then obtain v where v: "get_le24 idx (i * 3) = Some v" "uint (code21 v) = snd (es ! i)"
      "int ((i + 1) * UNICODE_INDEX_BLOCK_LEN + unat (drop_bit 21 v)) = fst (es ! i)"
      using index_entry [OF n(1)] unfolding es_def by metis
    have "es ! i \<in> set (butlast es)" using i(2) by (metis length_butlast nth_butlast nth_mem)
    then have m: "(fst (es ! i), uint (code21 v)) \<in> set (butlast es)" using v(2) by (metis prod.collapse)
    have p: "(i + 1) * UNICODE_INDEX_BLOCK_LEN + unat (drop_bit 21 v) = nat (fst (es ! i))"
      using v(3) by (metis nat_int)
    have "get_index_pos c idx (length idx div 3) = Some (Some (nat (fst (es ! i)), code21 v))"
      using 3 v0 vl d i(1) v(1) p by (simp add: get_index_pos_def)
    then show ?thesis
      using that(3) [OF cf, of "fst (es ! i)" "code21 v"] m i(3) v(2) unfolding es_def by (simp add: word_le_def)
  qed
qed

lemma lre_is_in_table_spec:
  assumes ok: "check_table t idx"
  shows "lre_is_in_table c t idx = Some (table_mem t c)"
proof -
  define es where "es = index_int (map uint idx) 0"
  obtain q fin where l: "last es = (q, fin)" by (metis surj_pair)
  have io: "index_ok idx fin" and cr: "check_runs (map uint t) 0 0 False (butlast es) fin"
    using ok l by (auto simp: check_table_def index_ok_def es_def Let_def)
  let ?B = "boundaries t 0 0"
  have fin: "fin < 2 ^ 32" by (rule index_ok_last [OF io])
  have B: "sorted_wrt (<) ?B" "uint (last (0 # ?B)) = fin" "even (length ?B)"
    "\<forall>e \<in> set (butlast es). met_at t 0 ?B False e"
    using check_runs_sound [where t = t and p = 0 and code = 0 and st = False and es = "butlast es" and fin = fin] cr fin by auto
  have "x \<le> last xs" if "sorted_wrt (<) xs" "x \<in> set xs" for x :: u32 and xs
    using that by (induction xs) (auto intro: order.strict_implies_order dest: bspec [OF _ last_in_set])
  then have up: "\<forall>x \<in> set ?B. uint x \<le> fin"
    using B(1,2) by (cases "?B = []") (auto simp: word_le_def)
  have reach: "\<exists>x \<in> set ?B. c < x" if "uint c < fin"
    using that B(2) uint_ge_0 [of c] by (cases "?B = []") (auto simp: word_less_def intro!: bexI [OF _ last_in_set])
  show ?thesis
  proof (rule get_index_pos_cases [OF io, of c])
    assume "fin \<le> uint c" and g: "get_index_pos c idx (length idx div 3) = Some None"
    then have "\<forall>x \<in> set ?B. x \<le> c" using up by (auto simp: word_le_def)
    then show ?thesis using g B(3) cnt_all by (simp add: lre_is_in_table_def table_mem_def)
  next
    assume cf: "uint c < fin" and g: "get_index_pos c idx (length idx div 3) = Some (Some (0, 0))"
    then show ?thesis
      using in_table_loop_spec [OF B(1) reach, of False] by (simp add: lre_is_in_table_def table_mem_def)
  next
    fix q code assume cf: "uint c < fin" and e: "(q, uint code) \<in> set (butlast (index_int (map uint idx) 0))"
      and le: "code \<le> c" and g: "get_index_pos c idx (length idx div 3) = Some (Some (nat q, code))"
    obtain pre code' where "uint code = uint code'" and m: "?B = pre @ boundaries t (nat q) code'"
      "even (length pre)" "\<forall>x \<in> set pre. x \<le> code'"
      using B(4) e unfolding met_at_def es_def by fastforce
    then have code: "code' = code" by (simp add: word_uint_eq_iff)
    let ?S = "boundaries t (nat q) code"
    have pre: "\<forall>x \<in> set pre. x \<le> c" using m(3) le code by auto
    have S: "sorted_wrt (<) ?S" using B(1) m(1) code by (metis sorted_wrt_append)
    have "\<exists>x \<in> set ?S. c < x" using reach [OF cf] pre unfolding m(1) code by (auto simp: not_less [symmetric])
    from in_table_loop_spec [OF S this, of False] show ?thesis
      using g cnt_all [OF pre] m(2) by (simp add: lre_is_in_table_def table_mem_def m(1) code)
  qed
qed

text \<open>The points still to come: an open interval has its start among them.\<close>

definition open_points :: "bool \<Rightarrow> u32 \<Rightarrow> u32 list \<Rightarrow> u32 list" where
  "open_points st code B = (if st then code # B else B)"

lemma add_runs_spec:
  "cr_wf cr \<Longrightarrow> \<exists>r cr' code' st'. add_runs cr ls code st = Some (r, cr', code', st') \<and> cr_wf cr' \<and>
     (r = 0 \<and> code' = fold (+) ls code \<and> st' = (st \<noteq> odd (length ls)) \<and>
        (\<forall>B. cr_data cr @ open_points st code (run_ends ls code @ B) = cr_data cr' @ open_points st' code' B)
      \<or> r = -1)"
proof (induction ls arbitrary: cr code st)
  case (Cons l ls)
  show ?case
  proof (cases st)
    case True
    obtain r cr1 where a: "cr_add_interval cr code (code + l) = Some (r, cr1)" "cr_wf cr1"
      "r = 0 \<and> cr_data cr1 = cr_data cr @ [code, code + l] \<or> r = -1 \<and> cr1 = cr"
      using cr_add_interval_cases [OF Cons.prems] by blast
    show ?thesis
    proof (cases "r = 0")
      case r0: True
      then have "cr_data cr1 = cr_data cr @ [code, code + l]" using a(3) by auto
      then show ?thesis
        using Cons.IH [OF a(2), of "code + l" False] a(1) True r0
        by (auto simp: Let_def open_points_def add.commute)
    qed (use a True in \<open>auto simp: Let_def\<close>)
  next
    case False
    then show ?thesis
      using Cons.IH [OF Cons.prems, of "code + l" True]
      by (auto simp: Let_def open_points_def add.commute)
  qed
qed (auto simp: open_points_def)

lemma prop1_loop_spec:
  "check_runs (map uint (drop p t)) i j b es fin \<Longrightarrow> cr_wf cr \<Longrightarrow>
   st = odd (length (boundaries t p code)) \<Longrightarrow>
   \<exists>r cr'. prop1_loop cr t p code st = Some (r, cr') \<and> cr_wf cr' \<and>
     (r = 0 \<and> cr_data cr' = cr_data cr @ open_points st code (boundaries t p code) \<or> r = -1)"
proof (induction t p code arbitrary: cr st i j b es rule: boundaries.induct)
  case (1 t p code)
  show ?case
  proof (cases "p < length t")
    case False
    then have "boundaries t p code = []" by (simp add: boundaries.simps [of t p code] run_lens_def rd_def)
    with False "1.prems" show ?thesis by (simp add: prop1_loop.simps [of cr t p] open_points_def)
  next
    case True
    then obtain ls k bs' where x: "run_lens_int (map uint (drop p t)) = Some (ls, k, bs')"
      using "1.prems"(1) by (cases "run_lens_int (map uint (drop p t))")
        (auto simp: check_runs.simps [of "map uint (drop p t)"])
    obtain ws p' where r: "run_lens t p = Some (ws, p')" and ls: "ls = map uint ws"
      and p': "int p' = int p + k" and bs': "bs' = map uint (drop p' t)"
      using run_lens_int_sound [OF x] by blast
    have c: "check_runs (map uint (drop p' t)) (i + k) (j + sum_list ls)
        (b \<noteq> odd (length ls)) (drop_met es i j b) fin"
      using "1.prems"(1) x by (simp add: check_runs.simps [of "map uint (drop p t)"] bs')
    let ?c = "fold (+) ws code" and ?st = "st \<noteq> odd (length ws)"
    have B: "boundaries t p code = run_ends ws code @ boundaries t p' ?c"
      by (simp add: boundaries.simps [of t p code] r)
    have "odd (length (boundaries t p code)) = (odd (length ws) \<noteq> odd (length (boundaries t p' ?c)))"
      by (simp add: B)
    then have st: "?st = odd (length (boundaries t p' ?c))" using "1.prems"(3) by argo
    obtain q cr1 code' st' where a: "add_runs cr ws code st = Some (q, cr1, code', st')" "cr_wf cr1"
      "q = 0 \<and> code' = ?c \<and> st' = ?st \<and> (\<forall>B. cr_data cr @ open_points st code (run_ends ws code @ B)
          = cr_data cr1 @ open_points st' code' B) \<or> q = -1"
      using add_runs_spec [OF "1.prems"(2), of ws code st] by blast
    show ?thesis
    proof (cases "q = 0")
      case q0: True
      then have e: "code' = ?c" "st' = ?st"
        "\<And>B. cr_data cr @ open_points st code (run_ends ws code @ B) = cr_data cr1 @ open_points ?st ?c B"
        using a(3) by auto
      have "prop1_loop cr t p code st = prop1_loop cr1 t p' ?c ?st"
        using True r a(1) q0 e(1,2) by (simp add: prop1_loop.simps [of cr t p])
      then show ?thesis
        using "1.IH" [OF r refl c a(2) st] unfolding B e(3) by metis
    qed (use a True r in \<open>auto simp: prop1_loop.simps [of cr t p]\<close>)
  qed
qed

lemma check_table_boundaries:
  assumes "check_table t idx"
  shows "points_canon (boundaries t 0 0)"
    and "\<exists>es fin. check_runs (map uint (drop 0 t)) 0 0 False es fin"
proof -
  define es where "es = index_int (map uint idx) 0"
  obtain q fin where l: "last es = (q, fin)" by (metis surj_pair)
  have es: "es \<noteq> []" "int (length idx) = 3 * int (length es)" "check_runs (map uint t) 0 0 False (butlast es) fin"
    using assms l by (auto simp: check_table_def es_def Let_def)
  then have n: "length idx = 3 * length es" "length es - 1 < length es" by auto
  have "fin < 2 ^ 32"
  proof -
    obtain v where "uint (code21 v) = snd (es ! (length es - 1))"
      using index_entry [OF n] unfolding es_def by blast
    then show ?thesis using l es(1) uint_lt2p [of "code21 v"] by (simp add: last_conv_nth)
  qed
  then show "points_canon (boundaries t 0 0)"
    using check_runs_sound [where t = t and p = 0 and code = 0 and st = False and es = "butlast es" and fin = fin] es(3)
    by (auto simp: points_canon_def)
  show "\<exists>es fin. check_runs (map uint (drop 0 t)) 0 0 False es fin" using es(3) by auto
qed

lemma unicode_prop1_spec:
  assumes ok: "check_table t idx" and wf: "cr_wf cr" and e: "cr_len cr = 0"
  shows "\<exists>r cr'. unicode_prop1 cr t = Some (r, cr') \<and> cr_wf cr' \<and>
    (r = 0 \<and> points_canon (cr_data cr') \<and> (\<forall>c. cr_in c (cr_data cr') = table_mem t c) \<or> r = -1)"
proof -
  note B = check_table_boundaries(1) [OF ok]
  obtain es fin where c: "check_runs (map uint (drop 0 t)) 0 0 False es fin"
    using check_table_boundaries(2) [OF ok] by blast
  have "False = odd (length (boundaries t 0 0))" using B by (simp add: points_canon_def)
  from prop1_loop_spec [OF c wf this] show ?thesis
    using B e cr_in_parity [OF points_canon_ok [OF B]]
    by (auto simp: unicode_prop1_def open_points_def cr_data_def table_mem_def)
qed

section \<open>Properties\<close>

lemma Cased1_ok: "check_table unicode_prop_Cased1_table unicode_prop_Cased1_index"
  by code_simp

text \<open>C25: for every table and index of the format that the generator writes (an executable
  check), the indexed search of \<^verbatim>\<open>lre_is_in_table\<close> and the expansion of the whole table by
  \<^verbatim>\<open>unicode_prop1\<close> agree on every 32-bit code: the search never leaves the tables and
  returns the membership in the expanded range.\<close>

theorem table_search_agrees_with_expansion:
  assumes "check_table t idx" and "cr_wf cr" and "cr_len cr = 0" and "unicode_prop1 cr t = Some (0, cr')"
  shows "lre_is_in_table c t idx = Some (cr_in c (cr_data cr'))"
  using lre_is_in_table_spec [OF assms(1)] unicode_prop1_spec [OF assms(1-3)] assms(4) by auto

theorem table_search_agrees_with_expansion_witness:
  "\<exists>cr'. unicode_prop1 (cr_init zrealloc) unicode_prop_Cased1_table = Some (0, cr') \<and>
     lre_is_in_table 0xAA unicode_prop_Cased1_table unicode_prop_Cased1_index = Some (cr_in 0xAA (cr_data cr'))"
proof -
  have wf: "cr_wf (cr_init zrealloc)" "cr_len (cr_init zrealloc) = 0" by (simp_all add: cr_init_def cr_wf_def)
  have "map_option fst (unicode_prop1 (cr_init zrealloc) unicode_prop_Cased1_table) = Some 0" by code_simp
  then obtain cr' where "unicode_prop1 (cr_init zrealloc) unicode_prop_Cased1_table = Some (0, cr')" by auto
  then show ?thesis using table_search_agrees_with_expansion [OF Cased1_ok wf] by blast
qed

end
