(* ===== verification/CaseConv.thy ===== *)
theory CaseConv
  imports UnicodeIndex
begin

text \<open>
  Case conversion (\<^verbatim>\<open>lre_case_conv\<close>, \<^verbatim>\<open>lre_is_cased\<close> of \<^verbatim>\<open>libunicode.c\<close>) on the tables
  of \<^verbatim>\<open>libunicode-table.h\<close>. The binary search over runs of code points, which the code
  repeats for the case and the decomposition tables, is one definition; the locale
  \<open>run_table\<close> states what it needs of a table, and its interpretation is the real table.
\<close>

section \<open>Searching a table of runs\<close>

text \<open>An entry holds the first code point of its run in its \<open>cb\<close> upper bits and the length in
  the next 7.\<close>

definition run_code :: "nat \<Rightarrow> u32 \<Rightarrow> u32" where
  "run_code cb v = drop_bit (32 - cb) v"

definition run_len :: "nat \<Rightarrow> u32 \<Rightarrow> u32" where
  "run_len cb v = drop_bit (32 - cb - 7) v AND 0x7f"

function run_search :: "nat \<Rightarrow> u32 list \<Rightarrow> u32 \<Rightarrow> int \<Rightarrow> int \<Rightarrow> nat option option" where
  "run_search cb tab c idx_min idx_max =
     (if idx_min \<le> idx_max then
        let idx = (idx_max + idx_min) div 2 in
        case rd tab (nat idx) of
          None \<Rightarrow> None
        | Some v \<Rightarrow>
            (if c < run_code cb v then run_search cb tab c idx_min (idx - 1)
             else if c \<ge> run_code cb v + run_len cb v then run_search cb tab c (idx + 1) idx_max
             else Some (Some (nat idx)))
      else Some None)"
  by pat_completeness auto
termination by (relation "measure (\<lambda>(cb, tab, c, lo, hi). nat (hi + 1 - lo))") auto

declare run_search.simps [simp del]

definition run_find :: "nat \<Rightarrow> u32 list \<Rightarrow> u32 \<Rightarrow> nat option option" where
  "run_find cb tab c = run_search cb tab c 0 (int (length tab) - 1)"

section \<open>Case conversion\<close>

definition RUN_TYPE_U :: u32 where "RUN_TYPE_U = 0"
definition RUN_TYPE_L :: u32 where "RUN_TYPE_L = 1"
definition RUN_TYPE_UF :: u32 where "RUN_TYPE_UF = 2"
definition RUN_TYPE_LF :: u32 where "RUN_TYPE_LF = 3"
definition RUN_TYPE_UL :: u32 where "RUN_TYPE_UL = 4"
definition RUN_TYPE_LSU :: u32 where "RUN_TYPE_LSU = 5"
definition RUN_TYPE_U2L_399_EXT2 :: u32 where "RUN_TYPE_U2L_399_EXT2 = 6"
definition RUN_TYPE_UF_D20 :: u32 where "RUN_TYPE_UF_D20 = 7"
definition RUN_TYPE_UF_D1_EXT :: u32 where "RUN_TYPE_UF_D1_EXT = 8"
definition RUN_TYPE_U_EXT :: u32 where "RUN_TYPE_U_EXT = 9"
definition RUN_TYPE_LF_EXT :: u32 where "RUN_TYPE_LF_EXT = 10"
definition RUN_TYPE_U_EXT2 :: u32 where "RUN_TYPE_U_EXT2 = 11"
definition RUN_TYPE_L_EXT2 :: u32 where "RUN_TYPE_L_EXT2 = 12"

lemmas run_type_defs = RUN_TYPE_U_def RUN_TYPE_L_def RUN_TYPE_UF_def RUN_TYPE_LF_def RUN_TYPE_UL_def
  RUN_TYPE_LSU_def RUN_TYPE_U2L_399_EXT2_def RUN_TYPE_UF_D20_def RUN_TYPE_UF_D1_EXT_def
  RUN_TYPE_U_EXT_def RUN_TYPE_LF_EXT_def RUN_TYPE_U_EXT2_def RUN_TYPE_L_EXT2_def

definition ext :: "u32 \<Rightarrow> u32 option" where
  "ext i = map_option ucast (rd case_conv_ext (unat i))"

definition LRE_CC_RES_LEN_MAX :: nat where
  "LRE_CC_RES_LEN_MAX = 3"

definition b2u :: "bool \<Rightarrow> u32" where
  "b2u b = (if b then 1 else 0)"

text \<open>The switch on the type of the run; the result is \<open>res\<close> with its length.\<close>

definition conv_in_run :: "u32 \<Rightarrow> u32 \<Rightarrow> u32 \<Rightarrow> u32 \<Rightarrow> u32 \<Rightarrow> u32 list option" where
  "conv_in_run c conv_type type code data =
     (let is_lower = b2u (conv_type \<noteq> 0); a = c - code in
      if type = RUN_TYPE_U \<or> type = RUN_TYPE_L \<or> type = RUN_TYPE_UF \<or> type = RUN_TYPE_LF then
        (if conv_type = type AND 1 \<or> type \<ge> RUN_TYPE_UF \<and> conv_type = 2
         then do { v \<leftarrow> rd case_conv_table1 (unat data); Some [c - code + run_code 17 v] }
         else Some [c])
      else if type = RUN_TYPE_UL then
        (if a AND 1 \<noteq> 1 - is_lower then Some [c] else Some [(a XOR 1) + code])
      else if type = RUN_TYPE_LSU then
        (if a = 1 then Some [c + (2 * is_lower - 1)]
         else if a = (1 - is_lower) * 2 then Some [c + (2 * is_lower - 1) * 2]
         else Some [c])
      else if type = RUN_TYPE_U2L_399_EXT2 then
        (if is_lower = 0
         then do { e \<leftarrow> ext (drop_bit 6 data); Some [c - code + e, 0x399] }
         else do { e \<leftarrow> ext (data AND 0x3f); Some [c - code + e] })
      else if type = RUN_TYPE_UF_D20 then
        (if conv_type = 1 then Some [c] else Some [data + b2u (conv_type = 2) * 0x20])
      else if type = RUN_TYPE_UF_D1_EXT then
        (if conv_type = 1 then Some [c]
         else do { e \<leftarrow> ext data; Some [e + b2u (conv_type = 2)] })
      else if type = RUN_TYPE_U_EXT \<or> type = RUN_TYPE_LF_EXT then
        (if is_lower \<noteq> type - RUN_TYPE_U_EXT then Some [c]
         else do { e \<leftarrow> ext data; Some [e] })
      else if type = RUN_TYPE_U_EXT2 \<or> type = RUN_TYPE_L_EXT2 then
        (if conv_type \<noteq> type - RUN_TYPE_U_EXT2 then Some [c]
         else do {
           e0 \<leftarrow> ext (drop_bit 6 data); e1 \<leftarrow> ext (data AND 0x3f);
           Some [c - code + e0, e1] })
      else
        (if conv_type \<noteq> 0 then Some [c]
         else do {
           e0 \<leftarrow> ext (drop_bit 8 data); e1 \<leftarrow> ext (drop_bit 4 data AND 0xf); e2 \<leftarrow> ext (data AND 0xf);
           Some [e0, e1, e2] }))"

definition run_type :: "u32 \<Rightarrow> u32" where
  "run_type v = drop_bit 4 v AND 0xf"

definition run_data :: "u32 \<Rightarrow> u8 \<Rightarrow> u32" where
  "run_data v d = push_bit 8 (v AND 0xf) OR ucast d"

definition lre_case_conv :: "u32 \<Rightarrow> u32 \<Rightarrow> u32 list option" where
  "lre_case_conv c conv_type =
     (if c < 128 then
        (if conv_type \<noteq> 0
         then (if 0x41 \<le> c \<and> c \<le> 0x5a then Some [c - 0x41 + 0x61] else Some [c])
         else (if 0x61 \<le> c \<and> c \<le> 0x7a then Some [c - 0x61 + 0x41] else Some [c]))
      else do {
        r \<leftarrow> run_find 17 case_conv_table1 c;
        case r of
          None \<Rightarrow> Some [c]
        | Some idx \<Rightarrow> do {
            v \<leftarrow> rd case_conv_table1 idx;
            d \<leftarrow> rd case_conv_table2 idx;
            conv_in_run c conv_type (run_type v) (run_code 17 v) (run_data v d) } })"

definition lre_is_cased :: "u32 \<Rightarrow> bool option" where
  "lre_is_cased c = do {
     r \<leftarrow> run_find 17 case_conv_table1 c;
     case r of
       Some _ \<Rightarrow> Some True
     | None \<Rightarrow> lre_is_in_table c unicode_prop_Cased1_table unicode_prop_Cased1_index }"

section \<open>The search, for any table of ordered runs\<close>

text \<open>The order of the runs, checked on integers, each run ending at or below the next one.\<close>

definition run_bounds :: "nat \<Rightarrow> int \<Rightarrow> int \<times> int" where
  "run_bounds cb v = (v div 2 ^ (32 - cb), v div 2 ^ (32 - cb) + (v div 2 ^ (32 - cb - 7)) mod 128)"

fun runs_ordered :: "nat \<Rightarrow> int list \<Rightarrow> bool" where
  "runs_ordered cb (v # w # vs) \<longleftrightarrow> snd (run_bounds cb v) \<le> fst (run_bounds cb w) \<and> runs_ordered cb (w # vs)"
| "runs_ordered cb [v] \<longleftrightarrow> snd (run_bounds cb v) < 4294967296"
| "runs_ordered cb [] \<longleftrightarrow> True"

locale run_table =
  fixes cb :: nat and tab :: "u32 list"
  assumes ordered: "runs_ordered cb (map uint tab)" and cb: "cb \<le> 25"
begin

definition in_run :: "u32 \<Rightarrow> nat \<Rightarrow> bool" where
  "in_run c i \<longleftrightarrow> fst (run_bounds cb (uint (tab ! i))) \<le> uint c \<and> uint c < snd (run_bounds cb (uint (tab ! i)))"

lemma fst_run_bounds: "uint (run_code cb v) = fst (run_bounds cb (uint v))"
  by (simp add: run_code_def run_bounds_def uint_drop_bit_u32)

lemma uint_run_len: "uint (run_len cb v) = snd (run_bounds cb (uint v)) - fst (run_bounds cb (uint v))"
  using and_mask_int [of "uint v div 2 ^ (32 - cb - 7)" 7]
  by (simp add: run_len_def run_bounds_def unsigned_and_eq uint_drop_bit_u32)

lemma bounds_le: "fst (run_bounds cb v) \<le> snd (run_bounds cb v)"
  by (simp add: run_bounds_def)

lemma ordered_nth:
  "runs_ordered cb vs \<Longrightarrow> i < j \<Longrightarrow> j < length vs \<Longrightarrow> snd (run_bounds cb (vs ! i)) \<le> fst (run_bounds cb (vs ! j))"
proof (induction cb vs arbitrary: i j rule: runs_ordered.induct)
  case (1 cb v w vs)
  have le: "fst (run_bounds cb x) \<le> snd (run_bounds cb x)" for x by (simp add: run_bounds_def)
  show ?case
  proof (cases i)
    case 0
    show ?thesis
    proof (cases "j = 1")
      case False
      then have "snd (run_bounds cb w) \<le> fst (run_bounds cb ((v # w # vs) ! j))"
        using "1.IH" [of 0 "j - 1"] "1.prems" 0 by (cases j) auto
      with 0 "1.prems"(1) le [of w] show ?thesis by simp
    qed (use 0 "1.prems" in simp)
  next
    case (Suc i')
    then show ?thesis using "1.IH" [of i' "j - 1"] "1.prems" by (cases j) auto
  qed
qed auto

lemma ordered_bound: "runs_ordered cb (map uint (vs :: u32 list)) \<Longrightarrow> i < length vs \<Longrightarrow> snd (run_bounds cb (uint (vs ! i))) < 2 ^ 32"
proof (induction vs arbitrary: i rule: remdups_adj.induct)
  case (3 v w vs)
  show ?case
  proof (cases i)
    case 0
    have "fst (run_bounds cb (uint w)) < 2 ^ 32"
      unfolding fst_run_bounds [symmetric] using uint_lt2p [of "run_code cb w"] by simp
    with 0 "3.prems" show ?thesis by simp
  next
    case (Suc i')
    have "runs_ordered cb (map uint (w # vs))" using "3.prems"(1) by simp
    then show ?thesis using "3.IH" [of i'] "3.prems" Suc by (cases "v = w") auto
  qed
qed (auto simp: less_Suc_eq)

lemma run_end: "i < length tab \<Longrightarrow> uint (run_code cb (tab ! i) + run_len cb (tab ! i)) = snd (run_bounds cb (uint (tab ! i)))"
  using ordered_bound [OF ordered, of i] bounds_le [of "uint (tab ! i)"]
    uint_ge_0 [of "run_code cb (tab ! i)"] unfolding fst_run_bounds
  by (simp add: uint_word_ariths uint_run_len fst_run_bounds mod_pos_pos_trivial)

lemma run_search_spec:
  "0 \<le> lo \<Longrightarrow> hi < int (length tab) \<Longrightarrow> \<exists>r. run_search cb tab c lo hi = Some r \<and>
     (case r of Some i \<Rightarrow> lo \<le> int i \<and> int i \<le> hi \<and> in_run c i
      | None \<Rightarrow> \<forall>i. lo \<le> int i \<and> int i \<le> hi \<longrightarrow> \<not> in_run c i)"
proof (induction "nat (hi + 1 - lo)" arbitrary: lo hi rule: less_induct)
  case less
  show ?case
  proof (cases "lo \<le> hi")
    case False
    then show ?thesis by (auto simp: run_search.simps [of cb tab c lo hi])
  next
    case True
    let ?m = "(hi + lo) div 2"
    have m: "lo \<le> ?m" "?m \<le> hi" "nat ?m < length tab" using True less.prems by auto
    let ?b = "\<lambda>i. run_bounds cb (uint (tab ! i))"
    have lt: "c < run_code cb (tab ! nat ?m) \<longleftrightarrow> uint c < fst (?b (nat ?m))"
      and ge: "c \<ge> run_code cb (tab ! nat ?m) + run_len cb (tab ! nat ?m) \<longleftrightarrow> uint c \<ge> snd (?b (nat ?m))"
      using run_end [OF m(3)] by (simp_all add: word_less_def word_le_def fst_run_bounds)
    have mono: "snd (?b i) \<le> fst (?b j)" if "i < j" "j < length tab" for i j
      using ordered_nth [OF ordered, of i j] that by simp
    consider "uint c < fst (?b (nat ?m))" | "uint c \<ge> snd (?b (nat ?m))" | "in_run c (nat ?m)"
      unfolding in_run_def by linarith
    then show ?thesis
    proof cases
      case 1
      obtain r where r: "run_search cb tab c lo (?m - 1) = Some r"
        and p: "case r of Some i \<Rightarrow> lo \<le> int i \<and> int i \<le> ?m - 1 \<and> in_run c i
          | None \<Rightarrow> \<forall>i. lo \<le> int i \<and> int i \<le> ?m - 1 \<longrightarrow> \<not> in_run c i"
        using less.hyps [of "?m - 1" lo] less.prems m True by auto
      have "run_search cb tab c lo hi = Some r"
        using True m 1 lt r by (simp add: run_search.simps [of cb tab c lo hi] Let_def)
      moreover have "\<not> in_run c i" if "?m \<le> int i" "int i \<le> hi" for i
      proof (cases "i = nat ?m")
        case False
        then have "snd (?b (nat ?m)) \<le> fst (?b i)" using that less.prems by (intro mono) auto
        then show ?thesis using 1 bounds_le [of "uint (tab ! nat ?m)"] by (simp add: in_run_def)
      qed (use 1 in \<open>auto simp: in_run_def\<close>)
      ultimately show ?thesis using p m by (force split: option.splits)
    next
      case 2
      obtain r where r: "run_search cb tab c (?m + 1) hi = Some r"
        and p: "case r of Some i \<Rightarrow> ?m + 1 \<le> int i \<and> int i \<le> hi \<and> in_run c i
          | None \<Rightarrow> \<forall>i. ?m + 1 \<le> int i \<and> int i \<le> hi \<longrightarrow> \<not> in_run c i"
        using less.hyps [of hi "?m + 1"] less.prems m True by auto
      have "\<not> uint c < fst (?b (nat ?m))" using 2 bounds_le [of "uint (tab ! nat ?m)"] by simp
      then have "run_search cb tab c lo hi = Some r"
        using True m 2 lt ge r by (simp add: run_search.simps [of cb tab c lo hi] Let_def)
      moreover have "\<not> in_run c i" if "lo \<le> int i" "int i \<le> ?m" for i
      proof (cases "i = nat ?m")
        case False
        then have "snd (?b i) \<le> fst (?b (nat ?m))" using that m by (intro mono) auto
        then show ?thesis using 2 bounds_le [of "uint (tab ! nat ?m)"] by (simp add: in_run_def)
      qed (use 2 in \<open>auto simp: in_run_def\<close>)
      ultimately show ?thesis using p m by (force split: option.splits)
    next
      case 3
      then have "run_search cb tab c lo hi = Some (Some (nat ?m))"
        using True m lt ge by (simp add: run_search.simps [of cb tab c lo hi] Let_def in_run_def)
      then show ?thesis using 3 m less.prems by auto
    qed
  qed
qed

lemma run_find_spec:
  "(\<exists>i < length tab. in_run c i \<and> run_find cb tab c = Some (Some i)) \<or>
   (\<forall>i < length tab. \<not> in_run c i) \<and> run_find cb tab c = Some None"
proof -
  obtain r where r: "run_find cb tab c = Some r"
    and p: "case r of Some i \<Rightarrow> 0 \<le> int i \<and> int i \<le> int (length tab) - 1 \<and> in_run c i
      | None \<Rightarrow> \<forall>i. 0 \<le> int i \<and> int i \<le> int (length tab) - 1 \<longrightarrow> \<not> in_run c i"
    using run_search_spec [of 0 "int (length tab) - 1" c] by (auto simp: run_find_def)
  show ?thesis using r p by (cases r) auto
qed

lemma run_find_hit: "i < length tab \<Longrightarrow> in_run c i \<Longrightarrow> \<exists>j. run_find cb tab c = Some (Some j)"
  using run_find_spec by blast

end

section \<open>The case conversion table\<close>

lemma case_conv_ordered: "runs_ordered 17 (map uint case_conv_table1)"
  by code_simp

interpretation conv: run_table 17 case_conv_table1
  by unfold_locales (simp_all add: case_conv_ordered)

text \<open>Every entry reads inside the tables: checked entry by entry, on integers.\<close>

definition entry_ok :: "int \<Rightarrow> int \<Rightarrow> bool" where
  "entry_ok v d =
     (let type = (v div 16) mod 16; data = (v mod 16) * 256 + d in
      if type \<le> 3 then data < 361
      else if type = 4 \<or> type = 5 \<or> type = 7 then True
      else if type = 6 \<or> type = 11 \<or> type = 12 then data div 64 < 58 \<and> data mod 64 < 58
      else if type = 8 \<or> type = 9 \<or> type = 10 then data < 58
      else data div 256 < 58)"

lemma case_conv_entries: "list_all (\<lambda>(v, d). entry_ok v d) (zip (map uint case_conv_table1) (map uint case_conv_table2))"
  by code_simp

lemma case_conv_lengths: "length case_conv_table1 = 361" "length case_conv_table2 = 361" "length case_conv_ext = 58"
  by (simp_all add: case_conv_table1_def case_conv_table2_def case_conv_ext_def)

lemma unat_lt: "uint (i :: u32) < int n \<Longrightarrow> unat i < n"
  using uint_nat [of i] by linarith

lemma ext_Some: "uint i < 58 \<Longrightarrow> \<exists>e. ext i = Some e"
  using unat_lt [of i 58] by (simp add: ext_def case_conv_lengths)

lemma uint_run_type: "uint (run_type v) = (uint v div 16) mod 16"
  using and_mask_int [of "uint v div 2 ^ 4" 4] by (simp add: run_type_def unsigned_and_eq uint_drop_bit_u32)

lemma uint_run_data: "uint (run_data v d) = (uint v mod 16) * 256 + uint d"
proof -
  have "uint (v AND 0xf) = uint v mod 16" using and_mask_int [of "uint v" 4] by (simp add: unsigned_and_eq)
  then show ?thesis
    using uint_shl_or [of "ucast d" 8 "v AND 0xf"] u8_lt [of d] by (simp add: run_data_def uint_u32_of_u8)
qed

lemma uint_data_parts:
  "uint (drop_bit 6 (w :: u32)) = uint w div 64" "uint (w AND 0x3f) = uint w mod 64"
  "uint (drop_bit 8 w) = uint w div 256" "uint (drop_bit 4 w AND 0xf) < 58" "uint (w AND 0xf) < 58"
proof -
  show "uint (drop_bit 6 w) = uint w div 64" "uint (drop_bit 8 w) = uint w div 256"
    by (simp_all add: uint_drop_bit_u32)
  show "uint (w AND 0x3f) = uint w mod 64"
    using and_mask_int [of "uint w" 6] by (simp add: unsigned_and_eq)
  have lt: "uint (x AND 0xf) < 16" for x :: u32
    using and_mask_int [of "uint x" 4] pos_mod_bound [of 16 "uint x"] by (simp add: unsigned_and_eq)
  show "uint (drop_bit 4 w AND 0xf) < 58" "uint (w AND 0xf) < 58"
    using lt [of "drop_bit 4 w"] lt [of w] by linarith+
qed

lemma conv_in_run_ok:
  assumes "entry_ok (uint v) (uint d)"
  shows "\<exists>r. conv_in_run c t (run_type v) code (run_data v d) = Some r \<and> r \<noteq> [] \<and> length r \<le> 3"
proof -
  define ty where "ty = run_type v"
  define w where "w = run_data v d"
  have ty: "uint ty = (uint v div 16) mod 16" and w: "uint w = (uint v mod 16) * 256 + uint d"
    by (simp_all add: ty_def w_def uint_run_type uint_run_data)
  have e: "entry_ok (uint v) (uint d) \<longleftrightarrow>
     (if uint ty \<le> 3 then uint w < 361 else if uint ty = 4 \<or> uint ty = 5 \<or> uint ty = 7 then True
      else if uint ty = 6 \<or> uint ty = 11 \<or> uint ty = 12 then uint w div 64 < 58 \<and> uint w mod 64 < 58
      else if uint ty = 8 \<or> uint ty = 9 \<or> uint ty = 10 then uint w < 58
      else uint w div 256 < 58)"
    unfolding entry_ok_def Let_def ty w by (rule refl)
  have k: "ty = n \<longleftrightarrow> uint ty = uint n" "ty \<ge> n \<longleftrightarrow> uint ty \<ge> uint n" for n
    by (simp_all add: word_uint_eq_iff word_le_def)
  have tab: "uint w < 361 \<Longrightarrow> \<exists>x. rd case_conv_table1 (unat w) = Some x"
    using unat_lt [of w 361] by (simp add: case_conv_lengths)
  note d = uint_data_parts [of w]
  have t3: "uint ty \<le> 3 \<longleftrightarrow> uint ty = 0 \<or> uint ty = 1 \<or> uint ty = 2 \<or> uint ty = 3"
    using uint_ge_0 [of ty] by linarith
  consider "uint ty \<le> 3" | "uint ty = 4 \<or> uint ty = 5 \<or> uint ty = 7" | "uint ty = 6"
    | "uint ty = 11 \<or> uint ty = 12" | "uint ty = 8" | "uint ty = 9 \<or> uint ty = 10" | "12 < uint ty"
    using uint_ge_0 [of ty] by linarith
  then show ?thesis
  proof cases
    case 1
    then have "uint w < 361" using assms e by simp
    then obtain x where x: "rd case_conv_table1 (unat w) = Some x" using tab by blast
    have "ty = 0 \<or> ty = 1 \<or> ty = 2 \<or> ty = 3" using 1 t3 k by simp
    then have "conv_in_run c t ty code w = Some [c - code + run_code 17 x] \<or> conv_in_run c t ty code w = Some [c]"
      unfolding conv_in_run_def Let_def run_type_defs by (elim disjE) (simp_all add: x)
    then show ?thesis unfolding ty_def [symmetric] w_def [symmetric] by auto
  next
    case 2
    then have "ty = 4 \<or> ty = 5 \<or> ty = 7" using k by simp
    then have "\<exists>x. conv_in_run c t ty code w = Some [x]"
      unfolding conv_in_run_def Let_def run_type_defs by (elim disjE) simp_all
    then show ?thesis unfolding ty_def [symmetric] w_def [symmetric] by auto
  next
    case 3
    then have "uint w div 64 < 58" "uint w mod 64 < 58" using assms e by simp_all
    then obtain x y where xy: "ext (drop_bit 6 w) = Some x" "ext (w AND 0x3f) = Some y"
      using ext_Some [of "drop_bit 6 w"] ext_Some [of "w AND 0x3f"] d by auto
    have "ty = 6" using 3 k by simp
    then have "conv_in_run c t ty code w = Some [c - code + x, 0x399] \<or> conv_in_run c t ty code w = Some [c - code + y]"
      unfolding conv_in_run_def Let_def run_type_defs by (simp add: xy)
    then show ?thesis unfolding ty_def [symmetric] w_def [symmetric] by auto
  next
    case 4
    then have "uint w div 64 < 58" "uint w mod 64 < 58" using assms e by auto
    then obtain x y where xy: "ext (drop_bit 6 w) = Some x" "ext (w AND 0x3f) = Some y"
      using ext_Some [of "drop_bit 6 w"] ext_Some [of "w AND 0x3f"] d by auto
    have "ty = 11 \<or> ty = 12" using 4 k by simp
    then have "conv_in_run c t ty code w = Some [c - code + x, y] \<or> conv_in_run c t ty code w = Some [c]"
      unfolding conv_in_run_def Let_def run_type_defs by (elim disjE) (simp_all add: xy)
    then show ?thesis unfolding ty_def [symmetric] w_def [symmetric] by auto
  next
    case 5
    then have "uint w < 58" using assms e by simp
    then obtain x where x: "ext w = Some x" using ext_Some by blast
    have "ty = 8" using 5 k by simp
    then have "\<exists>y. conv_in_run c t ty code w = Some [y]"
      unfolding conv_in_run_def Let_def run_type_defs by (simp add: x)
    then show ?thesis unfolding ty_def [symmetric] w_def [symmetric] by auto
  next
    case 6
    then have "uint w < 58" using assms e by auto
    then obtain x where x: "ext w = Some x" using ext_Some by blast
    have "ty = 9 \<or> ty = 10" using 6 k by simp
    then have "\<exists>y. conv_in_run c t ty code w = Some [y]"
      unfolding conv_in_run_def Let_def run_type_defs by (elim disjE) (simp_all add: x)
    then show ?thesis unfolding ty_def [symmetric] w_def [symmetric] by auto
  next
    case 7
    then have "uint w div 256 < 58" using assms e by simp
    then obtain x y z where x: "ext (drop_bit 8 w) = Some x" "ext (drop_bit 4 w AND 0xf) = Some y"
      "ext (w AND 0xf) = Some z"
      using ext_Some [of "drop_bit 8 w"] ext_Some [of "drop_bit 4 w AND 0xf"] ext_Some [of "w AND 0xf"] d by auto
    have "\<not> ty = 0" "\<not> ty = 1" "\<not> ty = 2" "\<not> ty = 3" "\<not> ty = 4" "\<not> ty = 5" "\<not> ty = 6" "\<not> ty = 7"
      "\<not> ty = 8" "\<not> ty = 9" "\<not> ty = 10" "\<not> ty = 11" "\<not> ty = 12" using 7 by auto
    then have "conv_in_run c t ty code w = Some [x, y, z] \<or> conv_in_run c t ty code w = Some [c]"
      unfolding conv_in_run_def Let_def run_type_defs by (simp add: x)
    then show ?thesis unfolding ty_def [symmetric] w_def [symmetric] by auto
  qed
qed

lemma case_conv_entry_ok:
  "i < 361 \<Longrightarrow> entry_ok (uint (case_conv_table1 ! i)) (uint (case_conv_table2 ! i))"
  using case_conv_entries by (simp add: list_all_length case_conv_lengths)

section \<open>Properties\<close>

text \<open>C40: case conversion never reads outside its tables and returns one to three code points,
  for every 32-bit code and every kind of conversion.\<close>

theorem lre_case_conv_total:
  "\<exists>r. lre_case_conv c conv_type = Some r \<and> r \<noteq> [] \<and> length r \<le> LRE_CC_RES_LEN_MAX"
proof (cases "c < 128")
  case False
  show ?thesis
  proof (cases "run_find 17 case_conv_table1 c = Some None")
    case none: True
    with False show ?thesis by (simp add: lre_case_conv_def LRE_CC_RES_LEN_MAX_def)
  next
    case some: False
    then obtain i where i: "i < 361" "run_find 17 case_conv_table1 c = Some (Some i)"
      using conv.run_find_spec [of c] case_conv_lengths(1) by auto
    show ?thesis
      using conv_in_run_ok [OF case_conv_entry_ok [OF i(1)]] i False
      by (simp add: lre_case_conv_def case_conv_lengths LRE_CC_RES_LEN_MAX_def)
  qed
qed (simp add: lre_case_conv_def LRE_CC_RES_LEN_MAX_def)

text \<open>a code point that some conversion changes is cased: \<^verbatim>\<open>lre_is_cased\<close> finds it.\<close>

theorem case_changed_is_cased:
  assumes "lre_case_conv c conv_type = Some r" and "r \<noteq> [c]"
  shows "lre_is_cased c = Some True"
proof -
  have "\<exists>i. run_find 17 case_conv_table1 c = Some (Some i)"
  proof (cases "c < 128")
    case True
    then have "0x41 \<le> c \<and> c \<le> 0x5a \<or> 0x61 \<le> c \<and> c \<le> 0x7a"
      using assms by (auto simp: lre_case_conv_def split: if_splits)
    moreover have "case_conv_table1 ! 0 = 0x00209a30" "case_conv_table1 ! 1 = 0x00309a00"
      by (simp_all add: case_conv_table1_def)
    ultimately have "conv.in_run c 0 \<or> conv.in_run c 1"
      by (auto simp: conv.in_run_def run_bounds_def word_le_def)
    then show ?thesis
      using conv.run_find_hit [of 0 c] conv.run_find_hit [of 1 c] by (auto simp: case_conv_lengths)
  next
    case False
    then show ?thesis using assms conv.run_find_spec [of c] by (auto simp: lre_case_conv_def)
  qed
  then show ?thesis by (auto simp: lre_is_cased_def)
qed

theorem case_changed_is_cased_witness: "lre_is_cased 0x41 = Some True"
  by (rule case_changed_is_cased [where conv_type = 1 and r = "[0x61]"])
    (simp_all add: lre_case_conv_def)

end
