(* ===== verification/RegexpChars.thy ===== *)
theory RegexpChars
  imports Cutils CaseConv
begin

text \<open>
  What the regular expression interpreter of \<^verbatim>\<open>libregexp.c\<close> does with single characters: the
  accesses to a subject of 8-bit or 16-bit units, forwards and backwards, over surrogate pairs in
  UTF-16 mode; case folding; the classes of characters; the binary search of a class in the byte
  code. A pointer into the subject is the number of code units before it (one unit is one byte for
  \<open>cbuf_type\<close> 0, two bytes otherwise); \<open>None\<close> is an access outside the subject or the byte code.
\<close>

section \<open>The subject\<close>

record re_subject =
  cbuf :: "u32 list"
  cbuf_type :: nat

definition is_hi_surrogate :: "u32 \<Rightarrow> bool" where
  "is_hi_surrogate c \<longleftrightarrow> c \<ge> 0xd800 \<and> c < 0xdc00"

definition is_lo_surrogate :: "u32 \<Rightarrow> bool" where
  "is_lo_surrogate c \<longleftrightarrow> c \<ge> 0xdc00 \<and> c < 0xe000"

definition from_surrogates :: "u32 \<Rightarrow> u32 \<Rightarrow> u32" where
  "from_surrogates hi lo = (push_bit 10 (hi AND 0x3ff) OR (lo AND 0x3ff)) + 0x10000"

text \<open>\<open>GET_CHAR(c, cptr, cbuf_end)\<close>: the character and the pointer behind it.\<close>

definition GET_CHAR :: "re_subject \<Rightarrow> nat \<Rightarrow> nat \<Rightarrow> (u32 \<times> nat) option" where
  "GET_CHAR S cptr cbuf_end =
     (if cbuf_type S = 0 then do { c \<leftarrow> rd (cbuf S) cptr; Some (c, cptr + 1) }
      else do {
        c \<leftarrow> rd (cbuf S) cptr;
        if is_hi_surrogate c \<and> cbuf_type S = 2 \<and> cptr + 1 < cbuf_end
        then do {
          c1 \<leftarrow> rd (cbuf S) (cptr + 1);
          Some (if is_lo_surrogate c1 then (from_surrogates c c1, cptr + 2) else (c, cptr + 1)) }
        else Some (c, cptr + 1) })"

definition PEEK_CHAR :: "re_subject \<Rightarrow> nat \<Rightarrow> nat \<Rightarrow> u32 option" where
  "PEEK_CHAR S cptr cbuf_end =
     (if cbuf_type S = 0 then rd (cbuf S) cptr
      else do {
        c \<leftarrow> rd (cbuf S) cptr;
        if is_hi_surrogate c \<and> cbuf_type S = 2 \<and> cptr + 1 < cbuf_end
        then do {
          c1 \<leftarrow> rd (cbuf S) (cptr + 1);
          Some (if is_lo_surrogate c1 then from_surrogates c c1 else c) }
        else Some c })"

definition rd_before :: "re_subject \<Rightarrow> nat \<Rightarrow> nat \<Rightarrow> u32 option" where
  "rd_before S cptr k = (if k \<le> cptr then rd (cbuf S) (cptr - k) else None)"

definition PEEK_PREV_CHAR :: "re_subject \<Rightarrow> nat \<Rightarrow> nat \<Rightarrow> u32 option" where
  "PEEK_PREV_CHAR S cptr cbuf_start =
     (if cbuf_type S = 0 then rd_before S cptr 1
      else do {
        c \<leftarrow> rd_before S cptr 1;
        if is_lo_surrogate c \<and> cbuf_type S = 2 \<and> cptr \<ge> cbuf_start + 2
        then do {
          c1 \<leftarrow> rd_before S cptr 2;
          Some (if is_hi_surrogate c1 then from_surrogates c1 c else c) }
        else Some c })"

definition GET_PREV_CHAR :: "re_subject \<Rightarrow> nat \<Rightarrow> nat \<Rightarrow> (u32 \<times> nat) option" where
  "GET_PREV_CHAR S cptr cbuf_start =
     (if cbuf_type S = 0 then do { c \<leftarrow> rd_before S cptr 1; Some (c, cptr - 1) }
      else do {
        c \<leftarrow> rd_before S cptr 1;
        if is_lo_surrogate c \<and> cbuf_type S = 2 \<and> cptr - 1 > cbuf_start
        then do {
          c1 \<leftarrow> rd_before S cptr 2;
          Some (if is_hi_surrogate c1 then (from_surrogates c1 c, cptr - 2) else (c, cptr - 1)) }
        else Some (c, cptr - 1) })"

definition PREV_CHAR :: "re_subject \<Rightarrow> nat \<Rightarrow> nat \<Rightarrow> nat option" where
  "PREV_CHAR S cptr cbuf_start =
     (if cptr = 0 then None
      else if cbuf_type S = 2
      then do {
        c \<leftarrow> rd (cbuf S) (cptr - 1);
        if is_lo_surrogate c \<and> cptr - 1 > cbuf_start
        then do { c1 \<leftarrow> rd_before S cptr 2; Some (if is_hi_surrogate c1 then cptr - 2 else cptr - 1) }
        else Some (cptr - 1) }
      else Some (cptr - 1))"

section \<open>Characters\<close>

definition lre_canonicalize :: "u32 \<Rightarrow> bool \<Rightarrow> u32 option" where
  "lre_canonicalize c is_utf16 =
     (if is_utf16 then
        if c < 128 then Some (if c \<ge> 0x41 \<and> c \<le> 0x5a then c - 0x41 + 0x61 else c)
        else do { res \<leftarrow> lre_case_conv c 2; rd res 0 }
      else
        if c < 128 then Some (if c \<ge> 0x61 \<and> c \<le> 0x7a then c - 0x61 + 0x41 else c)
        else do {
          res \<leftarrow> lre_case_conv c 0;
          r0 \<leftarrow> rd res 0;
          Some (if length res = 1 \<and> r0 \<ge> 128 then r0 else c) })"

definition is_line_terminator :: "u32 \<Rightarrow> bool" where
  "is_line_terminator c \<longleftrightarrow> c = 0x0a \<or> c = 0x0d \<or> c = 0x2028 \<or> c = 0x2029"

definition is_word_char :: "u32 \<Rightarrow> bool" where
  "is_word_char c \<longleftrightarrow> (c \<ge> 0x30 \<and> c \<le> 0x39) \<or> (c \<ge> 0x61 \<and> c \<le> 0x7a) \<or> (c \<ge> 0x41 \<and> c \<le> 0x5a) \<or> c = 0x5f"

section \<open>Classes in the byte code\<close>

text \<open>The search between \<open>idx_min\<close> and \<open>idx_max\<close>; \<open>get lo\<close> reads a bound of an interval. The
  indices of the code are unsigned; they do not wrap because the first bound has been tested.\<close>

function range_search :: "(int \<Rightarrow> bool \<Rightarrow> u32 option) \<Rightarrow> u32 \<Rightarrow> int \<Rightarrow> int \<Rightarrow> bool option" where
  "range_search get c idx_min idx_max =
     (if idx_min \<le> idx_max
      then let idx = (idx_min + idx_max) div 2 in
        (case (get idx True, get idx False) of
           (Some low, Some high) \<Rightarrow>
             if c < low then range_search get c idx_min (idx - 1)
             else if c > high then range_search get c (idx + 1) idx_max
             else Some True
         | _ \<Rightarrow> None)
      else Some False)"
  by pat_completeness auto
termination by (relation "measure (\<lambda>(g, c, i, j). nat (j - i + 1))") auto

declare range_search.simps [simp del]

definition range16_at :: "u8 list \<Rightarrow> nat \<Rightarrow> int \<Rightarrow> bool \<Rightarrow> u32 option" where
  "range16_at bc pc idx lo = get_u16 bc (pc + nat idx * 4 + (if lo then 0 else 2))"

definition range32_at :: "u8 list \<Rightarrow> nat \<Rightarrow> int \<Rightarrow> bool \<Rightarrow> u32 option" where
  "range32_at bc pc idx lo = get_u32 bc (pc + nat idx * 8 + (if lo then 0 else 4))"

text \<open>\<open>n\<close> intervals at \<open>pc\<close>, \<open>n\<close> at least 1. In the 16-bit form a last bound of 0xffff means
  no bound.\<close>

definition range16_match :: "u8 list \<Rightarrow> nat \<Rightarrow> int \<Rightarrow> u32 \<Rightarrow> bool option" where
  "range16_match bc pc n c = do {
     low \<leftarrow> range16_at bc pc 0 True;
     if c < low then Some False
     else do {
       high \<leftarrow> range16_at bc pc (n - 1) False;
       if c \<ge> 0xffff \<and> high = 0xffff then Some True
       else if c > high then Some False
       else range_search (range16_at bc pc) c 0 (n - 1) } }"

definition range32_match :: "u8 list \<Rightarrow> nat \<Rightarrow> int \<Rightarrow> u32 \<Rightarrow> bool option" where
  "range32_match bc pc n c = do {
     low \<leftarrow> range32_at bc pc 0 True;
     if c < low then Some False
     else do {
       high \<leftarrow> range32_at bc pc (n - 1) False;
       if c > high then Some False
       else range_search (range32_at bc pc) c 0 (n - 1) } }"

section \<open>Moving back undoes moving forward\<close>

text \<open>A pointer that is not inside a surrogate pair.\<close>

definition at_boundary :: "re_subject \<Rightarrow> nat \<Rightarrow> bool" where
  "at_boundary S p \<longleftrightarrow>
     cbuf_type S \<noteq> 2 \<or> p = 0 \<or> p \<ge> length (cbuf S) \<or>
     \<not> (is_hi_surrogate (cbuf S ! (p - 1)) \<and> is_lo_surrogate (cbuf S ! p))"

lemma surrogates_disjoint: "is_lo_surrogate c \<Longrightarrow> \<not> is_hi_surrogate c"
  by (auto simp: is_lo_surrogate_def is_hi_surrogate_def)

definition pair_at :: "re_subject \<Rightarrow> nat \<Rightarrow> bool" where
  "pair_at S p \<longleftrightarrow> cbuf_type S = 2 \<and> p + 1 < length (cbuf S) \<and>
     is_hi_surrogate (cbuf S ! p) \<and> is_lo_surrogate (cbuf S ! (p + 1))"

definition char_at :: "re_subject \<Rightarrow> nat \<Rightarrow> u32" where
  "char_at S p = (if pair_at S p then from_surrogates (cbuf S ! p) (cbuf S ! (p + 1)) else cbuf S ! p)"

definition char_end :: "re_subject \<Rightarrow> nat \<Rightarrow> nat" where
  "char_end S p = (if pair_at S p then p + 2 else p + 1)"

lemma GET_CHAR_eq:
  "GET_CHAR S p (length (cbuf S)) =
    (if p < length (cbuf S) then Some (char_at S p, char_end S p) else None)"
  by (cases "p < length (cbuf S)") (auto simp: GET_CHAR_def char_at_def char_end_def pair_at_def)

lemma PEEK_CHAR_eq:
  "PEEK_CHAR S p (length (cbuf S)) = (if p < length (cbuf S) then Some (char_at S p) else None)"
  by (cases "p < length (cbuf S)") (auto simp: PEEK_CHAR_def char_at_def pair_at_def)

lemma prev_eqs:
  assumes "0 < q" and "q \<le> length (cbuf S)"
  shows "PREV_CHAR S q 0 = Some (if 2 \<le> q \<and> pair_at S (q - 2) then q - 2 else q - 1)"
    and "GET_PREV_CHAR S q 0 =
      Some (if 2 \<le> q \<and> pair_at S (q - 2) then (char_at S (q - 2), q - 2) else (cbuf S ! (q - 1), q - 1))"
    and "PEEK_PREV_CHAR S q 0 =
      Some (if 2 \<le> q \<and> pair_at S (q - 2) then char_at S (q - 2) else cbuf S ! (q - 1))"
proof -
  have last: "q - 1 < length (cbuf S)" and before: "2 \<le> q \<Longrightarrow> q - 2 < length (cbuf S) \<and> Suc (q - 2) = q - 1"
    using assms by auto
  show "PREV_CHAR S q 0 = Some (if 2 \<le> q \<and> pair_at S (q - 2) then q - 2 else q - 1)"
    using assms last before by (auto simp: PREV_CHAR_def rd_before_def pair_at_def)
  show "GET_PREV_CHAR S q 0 =
      Some (if 2 \<le> q \<and> pair_at S (q - 2) then (char_at S (q - 2), q - 2) else (cbuf S ! (q - 1), q - 1))"
    using assms last before by (auto simp: GET_PREV_CHAR_def rd_before_def char_at_def pair_at_def)
  show "PEEK_PREV_CHAR S q 0 =
      Some (if 2 \<le> q \<and> pair_at S (q - 2) then char_at S (q - 2) else cbuf S ! (q - 1))"
    using assms last before by (auto simp: PEEK_PREV_CHAR_def rd_before_def char_at_def pair_at_def)
qed

text \<open>The characters of a subject that start at \<open>p\<close>, and where they start.\<close>

lemma prev_of_char_end:
  assumes "p < length (cbuf S)" and "at_boundary S p"
  defines "q \<equiv> char_end S p"
  shows "PREV_CHAR S q 0 = Some p" and "GET_PREV_CHAR S q 0 = Some (char_at S p, p)"
    and "PEEK_PREV_CHAR S q 0 = Some (char_at S p)" and "at_boundary S q" and "q \<le> length (cbuf S)"
proof -
  have q: "0 < q" "q \<le> length (cbuf S)"
    using assms(1) by (auto simp: q_def char_end_def pair_at_def)
  have start: "(if pair_at S p then q - 2 else q - 1) = p"
    by (simp add: q_def char_end_def)
  have pair: "2 \<le> q \<and> pair_at S (q - 2) \<longleftrightarrow> pair_at S p"
  proof (cases "pair_at S p")
    case False
    then show ?thesis
      using assms(1,2) by (auto simp: q_def char_end_def pair_at_def at_boundary_def)
  qed (simp add: q_def char_end_def)
  show "PREV_CHAR S q 0 = Some p"
    using start unfolding prev_eqs(1) [OF q] pair by simp
  show "GET_PREV_CHAR S q 0 = Some (char_at S p, p)" and "PEEK_PREV_CHAR S q 0 = Some (char_at S p)"
    using start unfolding prev_eqs(2,3) [OF q] pair by (auto simp: char_at_def split: if_splits)
  show "at_boundary S q"
    using assms(1) by (auto simp: q_def char_end_def pair_at_def at_boundary_def surrogates_disjoint)
  show "q \<le> length (cbuf S)"
    by (rule q(2))
qed

end
