(* ===== verification/RegexpExec.thy ===== *)
theory RegexpExec
  imports RegexpChars
begin

text \<open>
  The interpreter of regular expressions, \<open>lre_exec_backtrack\<close> of \<^verbatim>\<open>libregexp.c\<close>. A state is the
  position in the byte code, the position in the subject, the captures and the stack of integers; the
  positions are numbers of bytes of the code and of units of the subject. The loop keeps the states to
  come back to on an explicit stack. \<open>None\<close> is an access outside the byte code, the subject, the
  captures or the stack, an opcode that does not exist, or a failed assertion.
\<close>

section \<open>Opcodes\<close>

datatype reop =
    REOP_invalid | REOP_char | REOP_char32 | REOP_dot | REOP_any | REOP_line_start | REOP_line_end
  | REOP_goto | REOP_split_goto_first | REOP_split_next_first | REOP_match | REOP_save_start
  | REOP_save_end | REOP_save_reset | REOP_loop | REOP_push_i32 | REOP_drop | REOP_word_boundary
  | REOP_not_word_boundary | REOP_back_reference | REOP_backward_back_reference | REOP_range
  | REOP_range32 | REOP_lookahead | REOP_negative_lookahead | REOP_push_char_pos | REOP_bne_char_pos
  | REOP_prev | REOP_simple_greedy_quant

definition reops :: "reop list" where
  "reops =
     [REOP_invalid, REOP_char, REOP_char32, REOP_dot, REOP_any, REOP_line_start, REOP_line_end,
      REOP_goto, REOP_split_goto_first, REOP_split_next_first, REOP_match, REOP_save_start,
      REOP_save_end, REOP_save_reset, REOP_loop, REOP_push_i32, REOP_drop, REOP_word_boundary,
      REOP_not_word_boundary, REOP_back_reference, REOP_backward_back_reference, REOP_range,
      REOP_range32, REOP_lookahead, REOP_negative_lookahead, REOP_push_char_pos, REOP_bne_char_pos,
      REOP_prev, REOP_simple_greedy_quant]"

section \<open>The context and the states\<close>

text \<open>\<open>bc_buf\<close> is the byte code with its header; \<open>re_alloc n\<close> says whether \<open>lre_realloc\<close> gives a
  block for \<open>n\<close> states.\<close>

record re_context = re_subject +
  bc_buf :: "u8 list"
  capture_count :: nat
  stack_size_max :: nat
  multi_line :: bool
  ignore_case :: bool
  is_utf16 :: bool
  re_alloc :: "nat \<Rightarrow> bool"

definition cbuf_end :: "'a re_subject_scheme \<Rightarrow> nat" where
  "cbuf_end S = length (cbuf S)"

text \<open>\<open>capture\<close> has the start and the end of each group; \<open>stack\<close> its \<open>stack_len\<close> elements.\<close>

record re_state =
  re_pc :: nat
  re_cptr :: nat
  capture :: "nat option list"
  re_stack :: "u64 list"

datatype re_exec_state_type =
  RE_EXEC_STATE_SPLIT | RE_EXEC_STATE_LOOKAHEAD | RE_EXEC_STATE_NEGATIVE_LOOKAHEAD
  | RE_EXEC_STATE_GREEDY_QUANT

record re_exec_state =
  rs_type :: re_exec_state_type
  rs_count :: u64
  rs_state :: re_state

section \<open>Opcodes that test the subject\<close>

definition subject_of :: "re_context \<Rightarrow> re_subject" where
  "subject_of S = \<lparr>cbuf = cbuf S, cbuf_type = cbuf_type S\<rparr>"

definition canonical :: "re_context \<Rightarrow> u32 \<Rightarrow> u32 option" where
  "canonical S c = (if ignore_case S then lre_canonicalize c (is_utf16 S) else Some c)"

definition get_char_ic :: "re_context \<Rightarrow> nat \<Rightarrow> (u32 \<times> nat) option" where
  "get_char_ic S cptr = do {
     (c, cptr') \<leftarrow> GET_CHAR (subject_of S) cptr (cbuf_end S);
     c' \<leftarrow> canonical S c;
     Some (c', cptr') }"

text \<open>Outcome of a test: the inner \<open>None\<close> is no match, otherwise the positions behind it.\<close>

definition test_char :: "re_context \<Rightarrow> u32 \<Rightarrow> nat \<Rightarrow> nat \<Rightarrow> (nat \<times> nat) option option" where
  "test_char S val pc cptr =
     (if cptr \<ge> cbuf_end S then Some None
      else do {
        (c, cptr') \<leftarrow> get_char_ic S cptr;
        Some (if val \<noteq> c then None else Some (pc, cptr')) })"

definition test_range ::
  "re_context \<Rightarrow> (u8 list \<Rightarrow> nat \<Rightarrow> int \<Rightarrow> u32 \<Rightarrow> bool option) \<Rightarrow> nat \<Rightarrow> nat \<Rightarrow> nat
    \<Rightarrow> (nat \<times> nat) option option" where
  "test_range S range_match bytes pc cptr = do {
     n \<leftarrow> get_u16 (bc_buf S) pc;
     if cptr \<ge> cbuf_end S then Some None
     else do {
       (c, cptr') \<leftarrow> get_char_ic S cptr;
       if n = 0 then None
       else do {
         found \<leftarrow> range_match (bc_buf S) (pc + 2) (uint n) c;
         Some (if found then Some (pc + 2 + bytes * unat n, cptr') else None) } } }"

definition word_at :: "re_context \<Rightarrow> nat \<Rightarrow> bool option" where
  "word_at S cptr =
     (if cptr \<ge> cbuf_end S then Some False
      else do { c \<leftarrow> PEEK_CHAR (subject_of S) cptr (cbuf_end S); Some (is_word_char c) })"

definition word_before :: "re_context \<Rightarrow> nat \<Rightarrow> bool option" where
  "word_before S cptr =
     (if cptr = 0 then Some False
      else do { c \<leftarrow> PEEK_PREV_CHAR (subject_of S) cptr 0; Some (is_word_char c) })"

text \<open>The opcodes whose effect is on the two positions only, \<open>pc\<close> being behind the opcode; they
  are those that \<open>re_is_simple_quantifier\<close> accepts.\<close>

definition is_simple_op :: "reop \<Rightarrow> bool" where
  "is_simple_op op \<longleftrightarrow> op \<in> {REOP_range, REOP_range32, REOP_char, REOP_char32, REOP_dot, REOP_any,
     REOP_line_start, REOP_line_end, REOP_word_boundary, REOP_not_word_boundary}"

definition simple_op :: "re_context \<Rightarrow> reop \<Rightarrow> nat \<Rightarrow> nat \<Rightarrow> (nat \<times> nat) option option" where
  "simple_op S op pc cptr =
     (case op of
        REOP_char32 \<Rightarrow> do { val \<leftarrow> get_u32 (bc_buf S) pc; test_char S val (pc + 4) cptr }
      | REOP_char \<Rightarrow> do { val \<leftarrow> get_u16 (bc_buf S) pc; test_char S val (pc + 2) cptr }
      | REOP_line_start \<Rightarrow>
          if cptr = 0 then Some (Some (pc, cptr))
          else if \<not> multi_line S then Some None
          else do {
            c \<leftarrow> PEEK_PREV_CHAR (subject_of S) cptr 0;
            Some (if is_line_terminator c then Some (pc, cptr) else None) }
      | REOP_line_end \<Rightarrow>
          if cptr = cbuf_end S then Some (Some (pc, cptr))
          else if \<not> multi_line S then Some None
          else do {
            c \<leftarrow> PEEK_CHAR (subject_of S) cptr (cbuf_end S);
            Some (if is_line_terminator c then Some (pc, cptr) else None) }
      | REOP_dot \<Rightarrow>
          if cptr = cbuf_end S then Some None
          else do {
            (c, cptr') \<leftarrow> GET_CHAR (subject_of S) cptr (cbuf_end S);
            Some (if is_line_terminator c then None else Some (pc, cptr')) }
      | REOP_any \<Rightarrow>
          if cptr = cbuf_end S then Some None
          else do {
            (c, cptr') \<leftarrow> GET_CHAR (subject_of S) cptr (cbuf_end S);
            Some (Some (pc, cptr')) }
      | REOP_word_boundary \<Rightarrow> do {
          v1 \<leftarrow> word_before S cptr;
          v2 \<leftarrow> word_at S cptr;
          Some (if v1 = v2 then None else Some (pc, cptr)) }
      | REOP_not_word_boundary \<Rightarrow> do {
          v1 \<leftarrow> word_before S cptr;
          v2 \<leftarrow> word_at S cptr;
          Some (if v1 \<noteq> v2 then None else Some (pc, cptr)) }
      | REOP_range \<Rightarrow> test_range S range16_match 4 pc cptr
      | REOP_range32 \<Rightarrow> test_range S range32_match 8 pc cptr
      | _ \<Rightarrow> None)"

definition fetch :: "re_context \<Rightarrow> nat \<Rightarrow> reop option" where
  "fetch S pc = do { b \<leftarrow> rd (bc_buf S) pc; rd reops (unat b) }"

lemma simple_op_pc: "simple_op S op pc cptr = Some (Some (pc', cptr')) \<Longrightarrow> pc \<le> pc'"
  by (auto simp: simple_op_def test_char_def test_range_def bind_eq_Some_conv
      split: reop.splits if_splits option.splits prod.splits)

text \<open>The interpreter with \<open>no_recurse\<close>, on the code of a simple quantifier: the inner \<open>None\<close>
  is no match. The compiler puts only simple opcodes there, others are left out.\<close>

function simple_exec :: "re_context \<Rightarrow> nat \<Rightarrow> nat \<Rightarrow> nat option option" where
  "simple_exec S pc cptr =
     (case fetch S pc of None \<Rightarrow> None
      | Some op \<Rightarrow>
          if op = REOP_match then Some (Some cptr)
          else if is_simple_op op
          then (case simple_op S op (pc + 1) cptr of None \<Rightarrow> None
                | Some None \<Rightarrow> Some None
                | Some (Some (pc', cptr')) \<Rightarrow> simple_exec S pc' cptr')
          else None)"
  by pat_completeness auto
termination
  by (relation "measure (\<lambda>(S, pc, cptr). length (bc_buf S) - pc)")
    (auto simp: fetch_def bind_eq_Some_conv rd_Some_iff dest!: simple_op_pc)

declare simple_exec.simps [simp del]

definition INT32_MAX :: u32 where "INT32_MAX = 0x7fffffff"

partial_function (option) quant_loop ::
  "re_context \<Rightarrow> nat \<Rightarrow> u32 \<Rightarrow> u64 \<Rightarrow> nat \<Rightarrow> (u64 \<times> nat) option" where
  "quant_loop S pc1 quant_max q cptr =
     (case simple_exec S pc1 cptr of None \<Rightarrow> None
      | Some None \<Rightarrow> Some (q, cptr)
      | Some (Some cptr') \<Rightarrow>
          if q + 1 \<ge> ucast quant_max \<and> quant_max \<noteq> INT32_MAX then Some (q + 1, cptr')
          else quant_loop S pc1 quant_max (q + 1) cptr')"

declare quant_loop.simps [code]

section \<open>Back references\<close>

lemma GET_CHAR_advances: "GET_CHAR S p e = Some (c, q) \<Longrightarrow> p < q"
  by (auto simp: GET_CHAR_def bind_eq_Some_conv split: if_splits)

lemma GET_PREV_CHAR_retreats: "GET_PREV_CHAR S p b = Some (c, q) \<Longrightarrow> q < p"
  by (auto simp: GET_PREV_CHAR_def rd_before_def bind_eq_Some_conv split: if_splits)

text \<open>The inner \<open>None\<close> is no match, otherwise the position behind the matched characters.\<close>

function back_reference :: "re_context \<Rightarrow> nat \<Rightarrow> nat \<Rightarrow> nat \<Rightarrow> nat option option" where
  "back_reference S cptr1 cptr1_end cptr =
     (if cptr1 < cptr1_end
      then if cptr \<ge> cbuf_end S then Some None
           else (case GET_CHAR (subject_of S) cptr1 cptr1_end of None \<Rightarrow> None
                 | Some (c1, cptr1') \<Rightarrow>
                     (case get_char_ic S cptr of None \<Rightarrow> None
                      | Some (c2, cptr') \<Rightarrow>
                          (case canonical S c1 of None \<Rightarrow> None
                           | Some c1' \<Rightarrow>
                               if c1' \<noteq> c2 then Some None
                               else back_reference S cptr1' cptr1_end cptr')))
      else Some (Some cptr))"
  by pat_completeness auto
termination
  by (relation "measure (\<lambda>(S, p, e, cptr). e - p)") (auto dest: GET_CHAR_advances)

function backward_back_reference :: "re_context \<Rightarrow> nat \<Rightarrow> nat \<Rightarrow> nat \<Rightarrow> nat option option" where
  "backward_back_reference S cptr1 cptr1_start cptr =
     (if cptr1 > cptr1_start
      then if cptr = 0 then Some None
           else (case GET_PREV_CHAR (subject_of S) cptr1 cptr1_start of None \<Rightarrow> None
                 | Some (c1, cptr1') \<Rightarrow>
                     (case GET_PREV_CHAR (subject_of S) cptr 0 of None \<Rightarrow> None
                      | Some (c2, cptr') \<Rightarrow>
                          (case (canonical S c1, canonical S c2) of
                             (Some c1', Some c2') \<Rightarrow>
                               if c1' \<noteq> c2' then Some None
                               else backward_back_reference S cptr1' cptr1_start cptr'
                           | _ \<Rightarrow> None)))
      else Some (Some cptr))"
  by pat_completeness auto
termination
  by (relation "measure (\<lambda>(S, p, b, cptr). p - b)") (auto dest: GET_PREV_CHAR_retreats)

declare back_reference.simps [simp del] backward_back_reference.simps [simp del]

section \<open>One step\<close>

datatype re_outcome = Go re_state | Fork re_exec_state re_state | Matched | No_match

text \<open>\<open>pc + (int)val\<close>.\<close>

definition jump :: "nat \<Rightarrow> u32 \<Rightarrow> nat option" where
  "jump pc val = (let t = int pc + sint val in if t < 0 then None else Some (nat t))"

definition push :: "re_context \<Rightarrow> u64 \<Rightarrow> re_state \<Rightarrow> re_state option" where
  "push S v s = (if length (re_stack s) < stack_size_max S then Some (s\<lparr>re_stack := re_stack s @ [v]\<rparr>) else None)"

definition reset_captures :: "nat \<Rightarrow> nat \<Rightarrow> nat option list \<Rightarrow> nat option list option" where
  "reset_captures val val2 cap =
     (if 2 * val2 + 1 < length cap
      then Some (map (\<lambda>i. if 2 * val \<le> i \<and> i \<le> 2 * val2 + 1 then None else cap ! i) [0..<length cap])
      else None)"

definition back_reference_step :: "re_context \<Rightarrow> bool \<Rightarrow> nat \<Rightarrow> re_state \<Rightarrow> re_outcome option" where
  "back_reference_step S forward val s =
     (if val \<ge> capture_count S then Some No_match
      else do {
        cstart \<leftarrow> rd (capture s) (2 * val);
        cend \<leftarrow> rd (capture s) (2 * val + 1);
        case (cstart, cend) of
          (Some p, Some e) \<Rightarrow> do {
            r \<leftarrow> (if forward then back_reference S p e (re_cptr s)
                 else backward_back_reference S e p (re_cptr s));
            Some (case r of None \<Rightarrow> No_match | Some cptr \<Rightarrow> Go (s\<lparr>re_cptr := cptr\<rparr>)) }
        | _ \<Rightarrow> Some (Go s) })"

definition greedy_step :: "re_context \<Rightarrow> nat \<Rightarrow> re_state \<Rightarrow> re_outcome option" where
  "greedy_step S pc s = do {
     next_pos \<leftarrow> get_u32 (bc_buf S) pc;
     quant_min \<leftarrow> get_u32 (bc_buf S) (pc + 4);
     quant_max \<leftarrow> get_u32 (bc_buf S) (pc + 8);
     pc' \<leftarrow> jump (pc + 16) next_pos;
     (q, cptr) \<leftarrow> quant_loop S (pc + 16) quant_max 0 (re_cptr s);
     if q < ucast quant_min then Some No_match
     else if q > ucast quant_min
     then Some (Fork \<lparr>rs_type = RE_EXEC_STATE_GREEDY_QUANT, rs_count = q - ucast quant_min,
                      rs_state = s\<lparr>re_pc := pc, re_cptr := cptr\<rparr>\<rparr>
                 (s\<lparr>re_pc := pc', re_cptr := cptr\<rparr>))
     else Some (Go (s\<lparr>re_pc := pc', re_cptr := cptr\<rparr>)) }"

text \<open>The other opcodes, \<open>pc\<close> being behind the opcode.\<close>

definition control_op :: "re_context \<Rightarrow> reop \<Rightarrow> nat \<Rightarrow> nat \<Rightarrow> re_state \<Rightarrow> re_outcome option" where
  "control_op S op pc cptr s =
     (let bc = bc_buf S in case op of
         REOP_match \<Rightarrow> Some Matched
     | REOP_split_goto_first \<Rightarrow> do {
         val \<leftarrow> get_u32 bc pc; t \<leftarrow> jump (pc + 4) val;
         Some (Fork \<lparr>rs_type = RE_EXEC_STATE_SPLIT, rs_count = 0, rs_state = s\<lparr>re_pc := pc + 4\<rparr>\<rparr>
                 (s\<lparr>re_pc := t\<rparr>)) }
     | REOP_split_next_first \<Rightarrow> do {
         val \<leftarrow> get_u32 bc pc; t \<leftarrow> jump (pc + 4) val;
         Some (Fork \<lparr>rs_type = RE_EXEC_STATE_SPLIT, rs_count = 0, rs_state = s\<lparr>re_pc := t\<rparr>\<rparr>
                 (s\<lparr>re_pc := pc + 4\<rparr>)) }
     | REOP_lookahead \<Rightarrow> do {
         val \<leftarrow> get_u32 bc pc; t \<leftarrow> jump (pc + 4) val;
         Some (Fork \<lparr>rs_type = RE_EXEC_STATE_LOOKAHEAD, rs_count = 0, rs_state = s\<lparr>re_pc := t\<rparr>\<rparr>
                 (s\<lparr>re_pc := pc + 4\<rparr>)) }
     | REOP_negative_lookahead \<Rightarrow> do {
         val \<leftarrow> get_u32 bc pc; t \<leftarrow> jump (pc + 4) val;
         Some (Fork \<lparr>rs_type = RE_EXEC_STATE_NEGATIVE_LOOKAHEAD, rs_count = 0, rs_state = s\<lparr>re_pc := t\<rparr>\<rparr>
                 (s\<lparr>re_pc := pc + 4\<rparr>)) }
     | REOP_goto \<Rightarrow> do { val \<leftarrow> get_u32 bc pc; t \<leftarrow> jump (pc + 4) val; Some (Go (s\<lparr>re_pc := t\<rparr>)) }
     | REOP_save_start \<Rightarrow> do {
         val \<leftarrow> rd bc pc;
         if unat val < capture_count S
         then do { cap \<leftarrow> wr (capture s) (2 * unat val) (Some cptr);
                   Some (Go (s\<lparr>re_pc := pc + 1, capture := cap\<rparr>)) }
         else None }
     | REOP_save_end \<Rightarrow> do {
         val \<leftarrow> rd bc pc;
         if unat val < capture_count S
         then do { cap \<leftarrow> wr (capture s) (2 * unat val + 1) (Some cptr);
                   Some (Go (s\<lparr>re_pc := pc + 1, capture := cap\<rparr>)) }
         else None }
     | REOP_save_reset \<Rightarrow> do {
         val \<leftarrow> rd bc pc; val2 \<leftarrow> rd bc (pc + 1);
         if unat val2 < capture_count S
         then do { cap \<leftarrow> reset_captures (unat val) (unat val2) (capture s);
                   Some (Go (s\<lparr>re_pc := pc + 2, capture := cap\<rparr>)) }
         else None }
     | REOP_push_i32 \<Rightarrow> do {
         val \<leftarrow> get_u32 bc pc; s' \<leftarrow> push S (ucast val) (s\<lparr>re_pc := pc + 4\<rparr>); Some (Go s') }
     | REOP_drop \<Rightarrow>
         if re_stack s = [] then None
         else Some (Go (s\<lparr>re_pc := pc, re_stack := butlast (re_stack s)\<rparr>))
     | REOP_loop \<Rightarrow> do {
         val \<leftarrow> get_u32 bc pc; t \<leftarrow> jump (pc + 4) val;
         if re_stack s = [] then None
         else let v = last (re_stack s) - 1 in
           Some (Go (s\<lparr>re_pc := (if v \<noteq> 0 then t else pc + 4), re_stack := butlast (re_stack s) @ [v]\<rparr>)) }
     | REOP_push_char_pos \<Rightarrow> do { s' \<leftarrow> push S (of_nat cptr) (s\<lparr>re_pc := pc\<rparr>); Some (Go s') }
     | REOP_bne_char_pos \<Rightarrow> do {
         val \<leftarrow> get_u32 bc pc; t \<leftarrow> jump (pc + 4) val;
         if re_stack s = [] then None
         else Some (Go (s\<lparr>re_pc := (if last (re_stack s) \<noteq> of_nat cptr then t else pc + 4),
                          re_stack := butlast (re_stack s)\<rparr>)) }
     | REOP_back_reference \<Rightarrow> do {
         val \<leftarrow> rd bc pc; back_reference_step S True (unat val) (s\<lparr>re_pc := pc + 1\<rparr>) }
     | REOP_backward_back_reference \<Rightarrow> do {
         val \<leftarrow> rd bc pc; back_reference_step S False (unat val) (s\<lparr>re_pc := pc + 1\<rparr>) }
     | REOP_prev \<Rightarrow>
         if cptr = 0 then Some No_match
         else do { cptr' \<leftarrow> PREV_CHAR (subject_of S) cptr 0; Some (Go (s\<lparr>re_pc := pc, re_cptr := cptr'\<rparr>)) }
     | REOP_simple_greedy_quant \<Rightarrow> greedy_step S pc s
     | _ \<Rightarrow> None)"

definition re_step :: "re_context \<Rightarrow> re_state \<Rightarrow> re_outcome option" where
  "re_step S s = do {
     op \<leftarrow> fetch S (re_pc s);
     if is_simple_op op then do {
       r \<leftarrow> simple_op S op (re_pc s + 1) (re_cptr s);
       Some (case r of None \<Rightarrow> No_match | Some (pc', cptr') \<Rightarrow> Go (s\<lparr>re_pc := pc', re_cptr := cptr'\<rparr>)) }
     else control_op S op (re_pc s + 1) (re_cptr s) s }"

section \<open>The loop\<close>

fun prev_chars :: "re_subject \<Rightarrow> nat \<Rightarrow> nat \<Rightarrow> nat option" where
  "prev_chars S 0 cptr = Some cptr"
| "prev_chars S (Suc n) cptr = do { cptr' \<leftarrow> PREV_CHAR S cptr 0; prev_chars S n cptr' }"

text \<open>The state to go on with after one repetition less, and the entry for the next time.\<close>

definition greedy_back :: "re_context \<Rightarrow> re_exec_state \<Rightarrow> (re_state \<times> re_exec_state) option" where
  "greedy_back S rs = (let s = rs_state rs; pc = re_pc s in do {
     char_count \<leftarrow> get_u32 (bc_buf S) (pc + 12);
     cptr \<leftarrow> prev_chars (subject_of S) (unat char_count) (re_cptr s);
     next_pos \<leftarrow> get_u32 (bc_buf S) pc;
     pc' \<leftarrow> jump (pc + 16) next_pos;
     Some (s\<lparr>re_pc := pc', re_cptr := cptr\<rparr>,
           rs\<lparr>rs_count := rs_count rs - 1, rs_state := s\<lparr>re_cptr := cptr\<rparr>\<rparr>) })"

text \<open>The loop behind the label \<open>recurse\<close>: \<open>ret\<close> is the captures of the match, or \<open>None\<close>. It
  returns \<open>ret\<close>, or the state to go on with and the rest of the stack.\<close>

fun recurse :: "re_context \<Rightarrow> nat option list option \<Rightarrow> re_exec_state list
    \<Rightarrow> (nat option list option + re_state \<times> re_exec_state list) option" where
  "recurse S ret [] = Some (Inl ret)"
| "recurse S ret (rs # rss) =
     (case rs_type rs of
        RE_EXEC_STATE_SPLIT \<Rightarrow>
          (case ret of None \<Rightarrow> Some (Inr (rs_state rs, rss)) | Some c \<Rightarrow> recurse S ret rss)
      | RE_EXEC_STATE_GREEDY_QUANT \<Rightarrow>
          (case ret of
             None \<Rightarrow> do {
               (s, rs') \<leftarrow> greedy_back S rs;
               Some (Inr (s, if rs_count rs' = 0 then rss else rs' # rss)) }
           | Some c \<Rightarrow> recurse S ret rss)
      | RE_EXEC_STATE_LOOKAHEAD \<Rightarrow>
          (case ret of None \<Rightarrow> recurse S None rss
           | Some c \<Rightarrow> Some (Inr ((rs_state rs)\<lparr>capture := c\<rparr>, rss)))
      | RE_EXEC_STATE_NEGATIVE_LOOKAHEAD \<Rightarrow>
          (case ret of None \<Rightarrow> Some (Inr (rs_state rs, rss)) | Some c \<Rightarrow> recurse S None rss))"

definition push_state ::
  "re_context \<Rightarrow> re_exec_state \<Rightarrow> re_exec_state list \<Rightarrow> nat \<Rightarrow> (re_exec_state list \<times> nat) option" where
  "push_state S rs rss state_stack_size =
     (if length rss + 1 > state_stack_size
      then let new_size = max 8 (state_stack_size * 3 div 2)
           in if re_alloc S new_size then Some (rs # rss, new_size) else None
      else Some (rs # rss, state_stack_size))"

text \<open>The results -1, 0 and 1, with the captures of a match.\<close>

datatype re_result = RE_ERROR | RE_FAIL | RE_OK "nat option list"

definition re_result_of :: "nat option list option \<Rightarrow> re_result" where
  "re_result_of ret = (case ret of None \<Rightarrow> RE_FAIL | Some c \<Rightarrow> RE_OK c)"

partial_function (option) lre_exec_backtrack ::
  "re_context \<Rightarrow> re_state \<Rightarrow> re_exec_state list \<Rightarrow> nat \<Rightarrow> re_result option" where
  "lre_exec_backtrack S s rss n =
     (case re_step S s of
        None \<Rightarrow> None
      | Some (Go s') \<Rightarrow> lre_exec_backtrack S s' rss n
      | Some (Fork rs s') \<Rightarrow>
          (case push_state S rs rss n of
             None \<Rightarrow> Some RE_ERROR
           | Some (rss', n') \<Rightarrow> lre_exec_backtrack S s' rss' n')
      | Some Matched \<Rightarrow>
          (case recurse S (Some (capture s)) rss of
             None \<Rightarrow> None
           | Some (Inl ret) \<Rightarrow> Some (re_result_of ret)
           | Some (Inr (s', rss')) \<Rightarrow> lre_exec_backtrack S s' rss' n)
      | Some No_match \<Rightarrow>
          (case recurse S None rss of
             None \<Rightarrow> None
           | Some (Inl ret) \<Rightarrow> Some (re_result_of ret)
           | Some (Inr (s', rss')) \<Rightarrow> lre_exec_backtrack S s' rss' n))"

declare lre_exec_backtrack.simps [code]

section \<open>The entry point\<close>

text \<open>\<open>cbuf\<close> is the whole subject of \<open>clen\<close> units, \<open>alloc\<close> the allocator; the captures and the
  stack of states start empty.\<close>

definition lre_context :: "(nat \<Rightarrow> bool) \<Rightarrow> u8 list \<Rightarrow> u32 list \<Rightarrow> nat \<Rightarrow> re_context option" where
  "lre_context alloc bc subject type = do {
     re_flags \<leftarrow> rd bc 0;
     count \<leftarrow> rd bc 1;
     stack_size \<leftarrow> rd bc 2;
     let utf16 = (re_flags AND 16 \<noteq> 0) in
     Some \<lparr>cbuf = subject, cbuf_type = (if type = 1 \<and> utf16 then 2 else type), bc_buf = bc,
           capture_count = unat count, stack_size_max = unat stack_size,
           multi_line = (re_flags AND 4 \<noteq> 0), ignore_case = (re_flags AND 2 \<noteq> 0), is_utf16 = utf16,
           re_alloc = alloc\<rparr> }"

definition lre_start :: "re_context \<Rightarrow> nat \<Rightarrow> re_state" where
  "lre_start S cindex =
     \<lparr>re_pc = 7, re_cptr = cindex, capture = replicate (2 * capture_count S) None, re_stack = []\<rparr>"

definition lre_exec ::
  "(nat \<Rightarrow> bool) \<Rightarrow> u8 list \<Rightarrow> u32 list \<Rightarrow> nat \<Rightarrow> nat \<Rightarrow> re_result option" where
  "lre_exec alloc bc subject cindex type = do {
     S \<leftarrow> lre_context alloc bc subject type;
     lre_exec_backtrack S (lre_start S cindex) [] 0 }"

end
