(* ===== verification/RegexpSearch.thy ===== *)
theory RegexpSearch
  imports RegexpExec
begin

text \<open>
  The interpreter of regular expressions against a backtracking search without an explicit stack.
  \<open>search S s r\<close> says that the state \<open>s\<close> matches with the captures \<open>r\<close>, or does not match
  (\<open>None\<close>); \<open>resume S rs r r'\<close> that an alternative \<open>rs\<close> that was left behind, when the branch tried
  first gave \<open>r\<close>, gives \<open>r'\<close>.
\<close>

section \<open>The search\<close>

inductive search :: "re_context \<Rightarrow> re_state \<Rightarrow> nat option list option \<Rightarrow> bool"
  and resume :: "re_context \<Rightarrow> re_exec_state \<Rightarrow> nat option list option \<Rightarrow> nat option list option \<Rightarrow> bool"
  for S where
  match: "re_step S s = Some Matched \<Longrightarrow> search S s (Some (capture s))"
| no_match: "re_step S s = Some No_match \<Longrightarrow> search S s None"
| go: "re_step S s = Some (Go s') \<Longrightarrow> search S s' r \<Longrightarrow> search S s r"
| fork: "re_step S s = Some (Fork rs s') \<Longrightarrow> search S s' r \<Longrightarrow> resume S rs r r' \<Longrightarrow> search S s r'"
| split_first: "rs_type rs = RE_EXEC_STATE_SPLIT \<Longrightarrow> resume S rs (Some c) (Some c)"
| split_second: "rs_type rs = RE_EXEC_STATE_SPLIT \<Longrightarrow> search S (rs_state rs) r \<Longrightarrow> resume S rs None r"
| lookahead_yes: "rs_type rs = RE_EXEC_STATE_LOOKAHEAD \<Longrightarrow> search S ((rs_state rs)\<lparr>capture := c\<rparr>) r \<Longrightarrow>
    resume S rs (Some c) r"
| lookahead_no: "rs_type rs = RE_EXEC_STATE_LOOKAHEAD \<Longrightarrow> resume S rs None None"
| negative_yes: "rs_type rs = RE_EXEC_STATE_NEGATIVE_LOOKAHEAD \<Longrightarrow> search S (rs_state rs) r \<Longrightarrow>
    resume S rs None r"
| negative_no: "rs_type rs = RE_EXEC_STATE_NEGATIVE_LOOKAHEAD \<Longrightarrow> resume S rs (Some c) None"
| greedy_done: "rs_type rs = RE_EXEC_STATE_GREEDY_QUANT \<Longrightarrow> resume S rs (Some c) (Some c)"
| greedy_last: "rs_type rs = RE_EXEC_STATE_GREEDY_QUANT \<Longrightarrow> greedy_back S rs = Some (s, rs') \<Longrightarrow>
    rs_count rs' = 0 \<Longrightarrow> search S s r \<Longrightarrow> resume S rs None r"
| greedy_less: "rs_type rs = RE_EXEC_STATE_GREEDY_QUANT \<Longrightarrow> greedy_back S rs = Some (s, rs') \<Longrightarrow>
    rs_count rs' \<noteq> 0 \<Longrightarrow> search S s r \<Longrightarrow> resume S rs' r r' \<Longrightarrow> resume S rs None r'"

text \<open>The alternatives on the stack, from the top.\<close>

inductive unwinds ::
  "re_context \<Rightarrow> nat option list option \<Rightarrow> re_exec_state list \<Rightarrow> nat option list option \<Rightarrow> bool"
  for S where
  bottom: "unwinds S r [] r"
| more: "resume S rs r r' \<Longrightarrow> unwinds S r' rss res \<Longrightarrow> unwinds S r (rs # rss) res"

inductive_cases unwindsE: "unwinds S r (rs # rss) res"

lemma greedy_back_type: "greedy_back S rs = Some (s, rs') \<Longrightarrow> rs_type rs' = rs_type rs"
  by (auto simp: greedy_back_def Let_def bind_eq_Some_conv)

section \<open>The interpreter finds what the search finds\<close>

text \<open>The interpreter from the label \<open>recurse\<close> on.\<close>

definition go_on ::
  "re_context \<Rightarrow> nat option list option \<Rightarrow> re_exec_state list \<Rightarrow> nat \<Rightarrow> re_result option" where
  "go_on S r rss n =
     (case recurse S r rss of None \<Rightarrow> None
      | Some (Inl ret) \<Rightarrow> Some (re_result_of ret)
      | Some (Inr (s', rss')) \<Rightarrow> lre_exec_backtrack S s' rss' n)"

lemma exec_step:
  "re_step S s = Some Matched \<Longrightarrow> lre_exec_backtrack S s rss n = go_on S (Some (capture s)) rss n"
  "re_step S s = Some No_match \<Longrightarrow> lre_exec_backtrack S s rss n = go_on S None rss n"
  "re_step S s = Some (Go s') \<Longrightarrow> lre_exec_backtrack S s rss n = lre_exec_backtrack S s' rss n"
  "re_step S s = Some (Fork rs s') \<Longrightarrow> lre_exec_backtrack S s rss n =
     (case push_state S rs rss n of None \<Rightarrow> Some RE_ERROR
      | Some (rss', n') \<Rightarrow> lre_exec_backtrack S s' rss' n')"
  by (simp_all add: go_on_def lre_exec_backtrack.simps [of S s])

lemma push_state_stack: "push_state S rs rss n = Some (rss', n') \<Longrightarrow> rss' = rs # rss"
  by (auto simp: push_state_def Let_def split: if_splits)

lemma push_state_alloc: "\<forall>k. re_alloc S k \<Longrightarrow> push_state S rs rss n \<noteq> None"
  by (simp add: push_state_def Let_def)

text \<open>\<open>reaches a b\<close>: the interpreter, in the situation \<open>a\<close>, goes on as in \<open>b\<close> with some size of
  the stack, or runs out of memory.\<close>

definition reaches :: "re_result option \<Rightarrow> (nat \<Rightarrow> re_result option) \<Rightarrow> bool" where
  "reaches a b \<longleftrightarrow> a = Some RE_ERROR \<or> (\<exists>n. a = b n)"

lemma search_reaches:
  "search S s r \<Longrightarrow> (\<forall>rss n. reaches (lre_exec_backtrack S s rss n) (go_on S r rss))"
  "resume S rs r r' \<Longrightarrow> (\<forall>rss n. reaches (go_on S r (rs # rss) n) (go_on S r' rss))"
proof (induction rule: search_resume.inducts)
  case (fork s rs s' r r')
  show ?case
  proof (intro allI)
    fix rss n
    show "reaches (lre_exec_backtrack S s rss n) (go_on S r' rss)"
    proof (cases "push_state S rs rss n")
      case None
      then show ?thesis
        using exec_step(4) [OF fork(1)] by (simp add: reaches_def)
    next
      case (Some p)
      then obtain n' where "push_state S rs rss n = Some (rs # rss, n')"
        using push_state_stack by (cases p) blast
      then have "lre_exec_backtrack S s rss n = lre_exec_backtrack S s' (rs # rss) n'"
        using exec_step(4) [OF fork(1)] by simp
      then show ?thesis
        using fork(3,5) unfolding reaches_def by metis
    qed
  qed
next
  case (greedy_less rs s rs' r r')
  have "go_on S None (rs # rss) n = lre_exec_backtrack S s (rs' # rss) n" for rss n
    using greedy_less(1-3) by (simp add: go_on_def)
  then show ?case
    using greedy_less(5,7) unfolding reaches_def by metis
qed (auto simp: exec_step go_on_def reaches_def split: option.splits sum.splits)

section \<open>The search finds what the interpreter finds\<close>

text \<open>The rest of a run after \<open>recurse\<close>.\<close>

definition leads_to ::
  "re_context \<Rightarrow> nat option list option + re_state \<times> re_exec_state list \<Rightarrow> nat option list option \<Rightarrow> bool" where
  "leads_to S x res \<longleftrightarrow>
     (case x of Inl ret \<Rightarrow> res = ret
      | Inr (s, rss) \<Rightarrow> \<exists>r. search S s r \<and> unwinds S r rss res)"

lemma recurse_leads_to:
  "recurse S r rss = Some x \<Longrightarrow> leads_to S x res \<Longrightarrow> unwinds S r rss res"
proof (induction S r rss rule: recurse.induct)
  case (1 S ret)
  then show ?case
    by (auto simp: leads_to_def intro: unwinds.intros)
next
  case (2 S ret rs rss)
  show ?case
  proof (cases "rs_type rs")
    case RE_EXEC_STATE_GREEDY_QUANT
    show ?thesis
    proof (cases ret)
      case None
      then obtain s rs' where gb: "greedy_back S rs = Some (s, rs')"
        and x: "x = Inr (s, if rs_count rs' = 0 then rss else rs' # rss)"
        using 2(5) RE_EXEC_STATE_GREEDY_QUANT by (auto simp: bind_eq_Some_conv)
      show ?thesis
        using 2(6) x None greedy_last [OF RE_EXEC_STATE_GREEDY_QUANT gb]
          greedy_less [OF RE_EXEC_STATE_GREEDY_QUANT gb]
        by (auto simp: leads_to_def split: if_splits intro: unwinds.more elim!: unwindsE)
    next
      case (Some c)
      then show ?thesis
        using 2 RE_EXEC_STATE_GREEDY_QUANT by (auto intro: unwinds.more greedy_done)
    qed
  qed (use 2 in \<open>cases ret; auto simp: leads_to_def intro: search_resume.intros unwinds.intros\<close>)+
qed

lemma exec_search:
  assumes "lre_exec_backtrack S s rss n = Some res" and "res \<noteq> RE_ERROR"
  shows "\<exists>r ret. search S s r \<and> unwinds S r rss ret \<and> res = re_result_of ret"
proof -
  let ?P = "\<lambda>S s rss n res. res \<noteq> RE_ERROR \<longrightarrow>
    (\<exists>r ret. search S s r \<and> unwinds S r rss ret \<and> res = re_result_of ret)"
  have "?P S s rss n res"
  proof (rule lre_exec_backtrack.raw_induct [OF _ assms(1), of ?P])
    fix f S s rss n res
    assume IH0: "\<And>S s rss n res. f S s rss n = Some res \<Longrightarrow> ?P S s rss n res"
      and run: "(case re_step S s of None \<Rightarrow> None
      | Some (Go s') \<Rightarrow> f S s' rss n
      | Some (Fork rs s') \<Rightarrow>
          (case push_state S rs rss n of None \<Rightarrow> Some RE_ERROR | Some (rss', n') \<Rightarrow> f S s' rss' n')
      | Some Matched \<Rightarrow>
          (case recurse S (Some (capture s)) rss of None \<Rightarrow> None
           | Some (Inl ret) \<Rightarrow> Some (re_result_of ret) | Some (Inr (s', rss')) \<Rightarrow> f S s' rss' n)
      | Some No_match \<Rightarrow>
          (case recurse S None rss of None \<Rightarrow> None
           | Some (Inl ret) \<Rightarrow> Some (re_result_of ret) | Some (Inr (s', rss')) \<Rightarrow> f S s' rss' n)) = Some res"
    show "?P S s rss n res"
    proof (intro impI)
      assume res: "res \<noteq> RE_ERROR"
      note IH = IH0 [rule_format, OF _ res]
      have returns: "\<exists>ret. unwinds S r rss ret \<and> res = re_result_of ret"
        if rec: "recurse S r rss = Some x" and rest: "(case x of Inl ret \<Rightarrow> Some (re_result_of ret) | Inr (s', rss') \<Rightarrow> f S s' rss' n) = Some res"
        for r x
      proof (cases x)
        case (Inl ret)
        then show ?thesis
          using rec rest recurse_leads_to [of S r rss x ret] by (auto simp: leads_to_def)
      next
        case (Inr p)
        then obtain s' rss' where x: "x = Inr (s', rss')" and "f S s' rss' n = Some res"
          using rest Inr by (cases p) simp
        from IH [OF this(2)] obtain r' ret where "search S s' r'" "unwinds S r' rss' ret" "res = re_result_of ret"
          by blast
        then show ?thesis
          using recurse_leads_to [OF rec, of ret] x by (auto simp: leads_to_def)
      qed
      show "\<exists>r ret. search S s r \<and> unwinds S r rss ret \<and> res = re_result_of ret"
      proof (cases "re_step S s")
        case None
        then show ?thesis
          using run by simp
      next
        case (Some out)
        show ?thesis
        proof (cases out)
          case (Go s')
          then show ?thesis
            using run Some IH [of S s' rss n] by (auto intro: search_resume.go)
        next
          case (Fork rs s')
          then obtain rss' n' where p: "push_state S rs rss n = Some (rss', n')" and f: "f S s' rss' n' = Some res"
            using run Some res by (auto split: option.splits)
          from IH [OF f] obtain r ret where "search S s' r" "unwinds S r (rs # rss) ret" "res = re_result_of ret"
            using push_state_stack [OF p] by blast
          then show ?thesis
            using Some Fork by (auto elim!: unwindsE intro: search_resume.fork)
        next
          case Matched
          then show ?thesis
            using run Some returns [of "Some (capture s)"]
            by (auto split: option.splits intro: search_resume.match)
        next
          case No_match
          then show ?thesis
            using run Some returns [of None] by (auto split: option.splits intro: search_resume.no_match)
        qed
      qed
    qed
  qed
  with assms(2) show ?thesis
    by blast
qed

section \<open>Positions stay in the subject\<close>

definition caps_ok :: "re_context \<Rightarrow> nat option list \<Rightarrow> bool" where
  "caps_ok S cap \<longleftrightarrow> length cap = 2 * capture_count S \<and> (\<forall>p. Some p \<in> set cap \<longrightarrow> p \<le> cbuf_end S)"

definition state_ok :: "re_context \<Rightarrow> re_state \<Rightarrow> bool" where
  "state_ok S s \<longleftrightarrow> re_cptr s \<le> cbuf_end S \<and> caps_ok S (capture s) \<and>
     length (re_stack s) \<le> stack_size_max S"

lemma GET_CHAR_end: "GET_CHAR (subject_of S) p (cbuf_end S) = Some (c, q) \<Longrightarrow> q \<le> cbuf_end S"
  using GET_CHAR_eq [of "subject_of S" p]
  by (auto simp: subject_of_def cbuf_end_def char_end_def pair_at_def split: if_splits)

lemma get_char_ic_end: "get_char_ic S p = Some (c, q) \<Longrightarrow> q \<le> cbuf_end S"
  by (auto simp: get_char_ic_def bind_eq_Some_conv dest: GET_CHAR_end)

lemma PREV_CHAR_retreats: "PREV_CHAR S p b = Some q \<Longrightarrow> q < p"
  by (auto simp: PREV_CHAR_def rd_before_def bind_eq_Some_conv split: if_splits)

lemma prev_chars_le: "prev_chars S n p = Some q \<Longrightarrow> q \<le> p"
  by (induction S n p rule: prev_chars.induct)
    (fastforce simp: bind_eq_Some_conv dest: PREV_CHAR_retreats)+

lemma simple_op_end:
  "simple_op S op pc p = Some (Some (pc', q)) \<Longrightarrow> p \<le> cbuf_end S \<Longrightarrow> q \<le> cbuf_end S"
  by (auto simp: simple_op_def test_char_def test_range_def bind_eq_Some_conv
      split: reop.splits if_splits option.splits prod.splits dest: GET_CHAR_end get_char_ic_end)

lemma simple_exec_end:
  "simple_exec S pc p = Some (Some q) \<Longrightarrow> p \<le> cbuf_end S \<Longrightarrow> q \<le> cbuf_end S"
proof (induction S pc p rule: simple_exec.induct)
  case (1 S pc p)
  note IH = 1(1) [OF _ _ _ _ _ refl]
  show ?case
    using 1(2,3) IH unfolding simple_exec.simps [of S pc p]
    by (fastforce split: option.splits if_splits dest: simple_op_end)
qed

lemma quant_loop_end:
  assumes "quant_loop S pc m q p = Some (n, p')" and "p \<le> cbuf_end S"
  shows "p' \<le> cbuf_end S"
proof -
  let ?P = "\<lambda>S pc m q p (r :: u64 \<times> nat). p \<le> cbuf_end S \<longrightarrow> snd r \<le> cbuf_end S"
  have "?P S pc m q p (n, p')"
    by (rule quant_loop.raw_induct [OF _ assms(1), of ?P])
      (auto split: option.splits if_splits dest: simple_exec_end)
  with assms(2) show ?thesis
    by simp
qed

lemma back_reference_end:
  "back_reference S p e q = Some (Some q') \<Longrightarrow> q \<le> cbuf_end S \<Longrightarrow> q' \<le> cbuf_end S"
proof (induction S p e q rule: back_reference.induct)
  case (1 S p e q)
  then show ?case
    using 1(2) unfolding back_reference.simps [of S p e q]
    by (auto split: option.splits if_splits prod.splits dest: get_char_ic_end)
qed

lemma backward_back_reference_end:
  "backward_back_reference S p b q = Some (Some q') \<Longrightarrow> q' \<le> q"
proof (induction S p b q rule: backward_back_reference.induct)
  case (1 S p b q)
  then show ?case
    using 1(2) unfolding backward_back_reference.simps [of S p b q]
    by (fastforce split: option.splits if_splits prod.splits dest: GET_PREV_CHAR_retreats)
qed

lemma caps_ok_update:
  "caps_ok S cap \<Longrightarrow> p \<le> cbuf_end S \<Longrightarrow> wr cap i (Some p) = Some cap' \<Longrightarrow> caps_ok S cap'"
  by (auto simp: caps_ok_def wr_def split: if_splits dest!: set_update_subset_insert [THEN subsetD])

lemma caps_ok_reset: "caps_ok S cap \<Longrightarrow> reset_captures v w cap = Some cap' \<Longrightarrow> caps_ok S cap'"
  by (auto simp: caps_ok_def reset_captures_def split: if_splits)

text \<open>\<open>returns P m\<close>: what \<open>m\<close> returns, if it returns, satisfies \<open>P\<close>.\<close>

definition returns :: "('a \<Rightarrow> bool) \<Rightarrow> 'a option \<Rightarrow> bool" where
  "returns P m \<longleftrightarrow> (\<forall>x. m = Some x \<longrightarrow> P x)"

lemma returns_simps:
  "returns P None" "returns P (Some x) \<longleftrightarrow> P x"
  "returns P (Option.bind k f) \<longleftrightarrow> (\<forall>y. k = Some y \<longrightarrow> returns P (f y))"
  "returns P (if b then m else m') \<longleftrightarrow> (b \<longrightarrow> returns P m) \<and> (\<not> b \<longrightarrow> returns P m')"
  by (auto simp: returns_def bind_eq_Some_conv)

definition outcome_ok :: "re_context \<Rightarrow> re_outcome \<Rightarrow> bool" where
  "outcome_ok S out = (case out of Go s \<Rightarrow> state_ok S s
     | Fork rs s \<Rightarrow> state_ok S (rs_state rs) \<and> state_ok S s | _ \<Rightarrow> True)"

lemma back_reference_step_ok:
  "state_ok S s \<Longrightarrow> returns (outcome_ok S) (back_reference_step S fwd v s)"
  by (auto simp: back_reference_step_def returns_simps outcome_ok_def state_ok_def
      split: option.splits dest: back_reference_end backward_back_reference_end)

lemma greedy_step_ok: "state_ok S s \<Longrightarrow> returns (outcome_ok S) (greedy_step S pc s)"
  by (auto simp: greedy_step_def returns_simps outcome_ok_def state_ok_def
      split: prod.splits dest: quant_loop_end)

lemma push_ok: "push S v s = Some s' \<Longrightarrow> state_ok S s \<Longrightarrow> state_ok S s'"
  by (auto simp: push_def state_ok_def split: if_splits)

lemma state_ok_pc: "state_ok S (s\<lparr>re_pc := pc\<rparr>) \<longleftrightarrow> state_ok S s"
  by (simp add: state_ok_def)

lemma state_ok_caps: "state_ok S s \<Longrightarrow> caps_ok S cap \<Longrightarrow> state_ok S (s\<lparr>re_pc := pc, capture := cap\<rparr>)"
  by (simp add: state_ok_def)

lemma outcome_ok_simps:
  "outcome_ok S (Go s) = state_ok S s" "outcome_ok S Matched" "outcome_ok S No_match"
  "outcome_ok S (Fork rs s) = (state_ok S (rs_state rs) \<and> state_ok S s)"
  by (simp_all add: outcome_ok_def)

lemma control_op_ok:
  assumes "state_ok S s"
  shows "returns (outcome_ok S) (control_op S op pc (re_cptr s) s)"
proof (cases op)
  case REOP_prev
  then show ?thesis
    using assms by (auto simp: control_op_def returns_simps outcome_ok_simps state_ok_def dest: PREV_CHAR_retreats)
qed (use assms in \<open>auto simp: control_op_def returns_simps outcome_ok_simps state_ok_pc Let_def
    back_reference_step_ok greedy_step_ok intro: push_ok\<close>;
    auto simp: state_ok_def intro: caps_ok_update caps_ok_reset)+

lemma re_step_ok: "state_ok S s \<Longrightarrow> returns (outcome_ok S) (re_step S s)"
  by (auto simp: re_step_def returns_simps control_op_ok outcome_ok_simps state_ok_def
      split: option.splits dest: simple_op_end)

lemma greedy_back_ok:
  "greedy_back S rs = Some (s, rs') \<Longrightarrow> state_ok S (rs_state rs) \<Longrightarrow> state_ok S s \<and> state_ok S (rs_state rs')"
  by (auto simp: greedy_back_def Let_def bind_eq_Some_conv state_ok_def dest!: prev_chars_le)

definition ret_ok :: "re_context \<Rightarrow> nat option list option \<Rightarrow> bool" where
  "ret_ok S r \<longleftrightarrow> (\<forall>cap. r = Some cap \<longrightarrow> caps_ok S cap)"

lemma search_ok:
  "search S s r \<Longrightarrow> state_ok S s \<longrightarrow> ret_ok S r"
  "resume S rs r r' \<Longrightarrow> state_ok S (rs_state rs) \<longrightarrow> ret_ok S r \<longrightarrow> ret_ok S r'"
proof (induction rule: search_resume.inducts)
  case (go s s' r)
  then show ?case
    using re_step_ok [of S s] by (auto simp: returns_def outcome_ok_simps)
next
  case (fork s rs s' r r')
  then show ?case
    using re_step_ok [of S s] by (auto simp: returns_def outcome_ok_simps)
next
  case (greedy_last rs s rs' r)
  then show ?case
    using greedy_back_ok by blast
next
  case (greedy_less rs s rs' r r')
  then show ?case
    using greedy_back_ok by blast
qed (simp_all add: ret_ok_def state_ok_def)

section \<open>A regular expression is executed as it is searched\<close>

lemma lre_start_ok: "cindex \<le> cbuf_end S \<Longrightarrow> state_ok S (lre_start S cindex)"
  by (auto simp: state_ok_def lre_start_def caps_ok_def)

lemma lre_context_alloc: "lre_context alloc bc subject type = Some S \<Longrightarrow> re_alloc S = alloc \<and> cbuf S = subject"
  by (auto simp: lre_context_def bind_eq_Some_conv Let_def)

lemma lre_exec_eq:
  "lre_context alloc bc subject type = Some S \<Longrightarrow>
    lre_exec alloc bc subject cindex type = lre_exec_backtrack S (lre_start S cindex) [] 0"
  by (simp add: lre_exec_def)

lemma search_exec:
  assumes "search S s r"
  shows "lre_exec_backtrack S s [] n \<in> {Some RE_ERROR, Some (re_result_of r)}"
proof -
  have "reaches (lre_exec_backtrack S s [] n) (go_on S r [])"
    using search_reaches(1) [OF assms] by blast
  then show ?thesis
    by (auto simp: reaches_def go_on_def)
qed

lemma exec_is_search:
  "(\<forall>res. lre_exec_backtrack S s [] n = Some res \<and> res \<noteq> RE_ERROR \<longrightarrow>
      (\<exists>r. search S s r \<and> res = re_result_of r)) \<and>
   (\<forall>r. search S s r \<longrightarrow> lre_exec_backtrack S s [] n \<in> {Some RE_ERROR, Some (re_result_of r)})"
  using exec_search [of S s "[]" n] search_exec [of S s _ n] by (blast elim: unwinds.cases)

lemma exec_no_error:
  assumes "\<forall>k. re_alloc S k"
  shows "lre_exec_backtrack S s rss n \<noteq> Some RE_ERROR"
proof
  let ?P = "\<lambda>S s rss n res. (\<forall>k. re_alloc S k) \<longrightarrow> res \<noteq> RE_ERROR"
  assume run: "lre_exec_backtrack S s rss n = Some RE_ERROR"
  have "?P S s rss n RE_ERROR"
  proof (rule lre_exec_backtrack.raw_induct [OF _ run, of ?P], intro impI)
    fix f S s rss n res
    assume IH: "\<And>S s rss n res. f S s rss n = Some res \<Longrightarrow> ?P S s rss n res" and alloc: "\<forall>k. re_alloc S k"
      and run: "(case re_step S s of None \<Rightarrow> None
      | Some (Go s') \<Rightarrow> f S s' rss n
      | Some (Fork rs s') \<Rightarrow>
          (case push_state S rs rss n of None \<Rightarrow> Some RE_ERROR | Some (rss', n') \<Rightarrow> f S s' rss' n')
      | Some Matched \<Rightarrow>
          (case recurse S (Some (capture s)) rss of None \<Rightarrow> None
           | Some (Inl ret) \<Rightarrow> Some (re_result_of ret) | Some (Inr (s', rss')) \<Rightarrow> f S s' rss' n)
      | Some No_match \<Rightarrow>
          (case recurse S None rss of None \<Rightarrow> None
           | Some (Inl ret) \<Rightarrow> Some (re_result_of ret) | Some (Inr (s', rss')) \<Rightarrow> f S s' rss' n)) = Some res"
    note IH' = IH [rule_format, OF _ alloc [rule_format]]
    have pushed: "push_state S rs rss n = None \<longleftrightarrow> False" for rs n
      using push_state_alloc [OF alloc] by simp
    show "res \<noteq> RE_ERROR"
      using run
      by (auto simp: re_result_of_def pushed dest!: IH' split: option.splits re_outcome.splits sum.splits prod.splits)
  qed
  with assms show False
    by simp
qed

lemma lre_exec_found:
  assumes "lre_context alloc bc subject type = Some S" and "\<forall>n. alloc n" and "search S (lre_start S cindex) r"
  shows "lre_exec alloc bc subject cindex type = Some (re_result_of r)"
proof -
  have "\<forall>k. re_alloc S k"
    using assms lre_context_alloc by blast
  then show ?thesis
    unfolding lre_exec_eq [OF assms(1)]
    using search_exec [OF assms(3), of 0] exec_no_error [of S "lre_start S cindex" "[]" 0] by auto
qed

lemma lre_exec_finds:
  assumes "lre_context alloc bc subject type = Some S" and "\<forall>n. alloc n"
    and "lre_exec alloc bc subject cindex type = Some res"
  shows "\<exists>r. search S (lre_start S cindex) r \<and> res = re_result_of r"
proof -
  have "\<forall>k. re_alloc S k"
    using assms lre_context_alloc by blast
  then show ?thesis
    using assms(3) exec_is_search [of S "lre_start S cindex" 0] exec_no_error [of S "lre_start S cindex" "[]" 0]
    unfolding lre_exec_eq [OF assms(1)] by metis
qed

text \<open>C12: \<open>lre_exec\<close> on a regular expression and a subject, when memory does not run out, returns
  exactly the result of the backtracking search over the same code: 1 with the captures of the search
  when it matches, 0 when it does not, and it does not return when the search does not end. The stack
  of states, its entries popped by matches, failures and lookaheads, implements that recursion.\<close>

theorem lre_exec_is_search:
  assumes "lre_context alloc bc subject type = Some S" and "\<forall>n. alloc n"
  shows "lre_exec alloc bc subject cindex type = Some res \<longleftrightarrow>
    (\<exists>r. search S (lre_start S cindex) r \<and> res = re_result_of r)"
  using lre_exec_found [OF assms] lre_exec_finds [OF assms] by blast

text \<open>Code for \<open>/a*ab/y\<close>.\<close>

definition sample_code :: "u8 list" where
  "sample_code = [32, 1, 0, 0, 0, 0, 0, 11, 0, 28, 4, 0, 0, 0, 0, 0, 0, 0, 0xff, 0xff, 0xff, 0x7f,
     1, 0, 0, 0, 1, 97, 0, 10, 1, 97, 0, 1, 98, 0, 12, 0, 10]"

lemma sample_runs:
  "lre_exec (\<lambda>_. True) sample_code [97, 97, 98] 0 0 = Some (RE_OK [Some 0, Some 3])"
  "lre_exec (\<lambda>_. False) sample_code [97, 97, 98] 0 0 = Some RE_ERROR"
  "lre_exec (\<lambda>_. True) sample_code [97, 97] 0 0 = Some RE_FAIL"
  by code_simp+

theorem lre_exec_is_search_witness:
  "\<exists>S r. lre_context (\<lambda>_. True) sample_code [97, 97, 98] 0 = Some S \<and>
     search S (lre_start S 0) r \<and> re_result_of r = RE_OK [Some 0, Some 3]"
proof -
  obtain S where S: "lre_context (\<lambda>_. True) sample_code [97, 97, 98] 0 = Some S"
    using sample_runs(1) by (auto simp: lre_exec_def bind_eq_Some_conv)
  from iffD1 [OF lre_exec_is_search [OF S], OF _ sample_runs(1)] S show ?thesis
    by (simp, metis)
qed

text \<open>C14: Running out of memory for the stack of states never changes an answer: with any allocator
  \<open>lre_exec\<close> returns -1 or the result of the search.\<close>

theorem lre_exec_out_of_memory:
  assumes "lre_context alloc bc subject type = Some S"
  shows "(\<forall>res. lre_exec alloc bc subject cindex type = Some res \<and> res \<noteq> RE_ERROR \<longrightarrow>
      (\<exists>r. search S (lre_start S cindex) r \<and> res = re_result_of r)) \<and>
    (\<forall>r. search S (lre_start S cindex) r \<longrightarrow>
      lre_exec alloc bc subject cindex type \<in> {Some RE_ERROR, Some (re_result_of r)})"
  unfolding lre_exec_eq [OF assms] using exec_is_search by blast

theorem lre_exec_out_of_memory_witness:
  "\<exists>S. lre_context (\<lambda>_. False) sample_code [97, 97, 98] 0 = Some S \<and>
     (\<forall>r. search S (lre_start S 0) r \<longrightarrow>
       lre_exec (\<lambda>_. False) sample_code [97, 97, 98] 0 0 \<in> {Some RE_ERROR, Some (re_result_of r)})"
proof -
  obtain S where S: "lre_context (\<lambda>_. False) sample_code [97, 97, 98] 0 = Some S"
    using sample_runs(2) by (auto simp: lre_exec_def bind_eq_Some_conv)
  with lre_exec_out_of_memory [OF S, of 0] show ?thesis
    by blast
qed

text \<open>C15: The captures of a match: two positions for each group, every one that is set inside the
  subject.\<close>

theorem lre_exec_captures_in_subject:
  assumes "lre_exec alloc bc subject cindex type = Some (RE_OK cap)" and "cindex \<le> length subject"
  shows "length cap = 2 * unat (bc ! 1) \<and> (\<forall>p. Some p \<in> set cap \<longrightarrow> p \<le> length subject)"
proof -
  obtain S where S: "lre_context alloc bc subject type = Some S"
    using assms(1) by (auto simp: lre_exec_def bind_eq_Some_conv)
  then have fields: "cbuf_end S = length subject" "capture_count S = unat (bc ! 1)"
    by (auto simp: lre_context_def bind_eq_Some_conv Let_def cbuf_end_def rd_Some_iff)
  obtain r where "search S (lre_start S cindex) r" "RE_OK cap = re_result_of r"
    using exec_is_search [of S "lre_start S cindex" 0] assms(1) lre_exec_eq [OF S] by auto
  then have "caps_ok S cap"
    using search_ok(1) lre_start_ok [of cindex S] assms(2) fields
    by (auto simp: ret_ok_def re_result_of_def split: option.splits)
  then show ?thesis
    using fields by (simp add: caps_ok_def)
qed

theorem lre_exec_captures_in_subject_witness:
  "length [Some 0, Some 3 :: nat option] = 2 * unat (sample_code ! 1) \<and> (3 :: nat) \<le> length [97, 97, 98 :: u32]"
  using lre_exec_captures_in_subject [OF sample_runs(1)] by simp

end
