(* ===== verification/RegexpEmit.thy ===== *)
theory RegexpEmit
  imports RegexpExec
begin

text \<open>
  The state of the compiler of regular expressions of \<^verbatim>\<open>libregexp.c\<close>, its output of byte code, and
  the classes of characters: their tables, case folding, and their form in the byte code, which the
  interpreter searches. A pointer into the pattern is a position of the zero-terminated buffer
  \<open>pattern\<close>; a pointer into the byte code is a position of its dynamic buffer.
\<close>

section \<open>The state of the compiler\<close>

record REParseState =
  byte_code :: DynBuf
  buf_ptr :: nat
  pattern :: "u8 list"
  buf_end :: nat
  ps_utf16 :: bool
  ps_ignore_case :: bool
  dotall :: bool
  captures :: nat
  total_capture_count :: int
  has_named_captures :: int
  group_names :: DynBuf
  cr_alloc :: "u32 list \<Rightarrow> nat \<Rightarrow> u32 list option"

text \<open>A function that can report an error: \<open>None\<close> is an access outside an object, \<open>Inl\<close> the message
  of the error (\<open>[]\<close> where the code returns -1 and sets none), \<open>Inr\<close> the result.\<close>

type_synonym 'a parsed = "(string + 'a) option"

definition and_then :: "'a parsed \<Rightarrow> ('a \<Rightarrow> 'b parsed) \<Rightarrow> 'b parsed" where
  "and_then m f = (case m of None \<Rightarrow> None | Some (Inl e) \<Rightarrow> Some (Inl e) | Some (Inr x) \<Rightarrow> f x)"

definition ok :: "'a \<Rightarrow> 'a parsed" where
  "ok x = Some (Inr x)"

definition re_parse_error :: "string \<Rightarrow> 'a parsed" where
  "re_parse_error msg = Some (Inl msg)"

abbreviation re_parse_out_of_memory :: "'a parsed" where
  "re_parse_out_of_memory \<equiv> re_parse_error ''out of memory''"

lemma and_then_simps [simp]:
  "and_then (Some (Inr x)) f = f x" "and_then (Some (Inl e)) f = Some (Inl e)" "and_then None f = None"
  by (simp_all add: and_then_def)

lemma and_then_ok [simp]: "and_then (ok x) f = f x"
  by (simp add: ok_def)

section \<open>Output\<close>

text \<open>The number of an opcode.\<close>

definition opc :: "reop \<Rightarrow> u8" where
  "opc op = of_nat (length (takeWhile (\<lambda>x. x \<noteq> op) reops))"

definition dbuf_insert :: "DynBuf \<Rightarrow> nat \<Rightarrow> nat \<Rightarrow> (int \<times> DynBuf) option" where
  "dbuf_insert s pos len =
     (let (r, s1) = dbuf_realloc s (db_size s + len)
      in if r \<noteq> 0 then Some (-1, s1)
         else if db_size s1 < pos then None
         else do {
           b \<leftarrow> blit (db_buf s1) (pos + len) (drop pos (take (db_size s1) (db_buf s1)));
           Some (0, s1\<lparr>db_buf := b, db_size := db_size s1 + len\<rparr>) })"

text \<open>Writes whose result the code ignores: the buffer remembers that one failed.\<close>

definition out :: "(DynBuf \<Rightarrow> (int \<times> DynBuf) option) \<Rightarrow> REParseState \<Rightarrow> REParseState option" where
  "out w s = do { (r, d) \<leftarrow> w (byte_code s); Some (s\<lparr>byte_code := d\<rparr>) }"

definition re_emit_op :: "REParseState \<Rightarrow> reop \<Rightarrow> REParseState option" where
  "re_emit_op s op = out (\<lambda>d. dbuf_putc d (opc op)) s"

definition re_emit_op_u32 :: "REParseState \<Rightarrow> reop \<Rightarrow> u32 \<Rightarrow> (nat \<times> REParseState) option" where
  "re_emit_op_u32 s op val = do {
     s \<leftarrow> out (\<lambda>d. dbuf_putc d (opc op)) s;
     let pos = db_size (byte_code s);
     s \<leftarrow> out (\<lambda>d. dbuf_put_u32 d val) s;
     Some (pos, s) }"

definition re_emit_goto :: "REParseState \<Rightarrow> reop \<Rightarrow> u32 \<Rightarrow> (nat \<times> REParseState) option" where
  "re_emit_goto s op val = do {
     s \<leftarrow> out (\<lambda>d. dbuf_putc d (opc op)) s;
     let pos = db_size (byte_code s);
     s \<leftarrow> out (\<lambda>d. dbuf_put_u32 d (val - (of_nat pos + 4))) s;
     Some (pos, s) }"

definition re_emit_op_u8 :: "REParseState \<Rightarrow> reop \<Rightarrow> u32 \<Rightarrow> REParseState option" where
  "re_emit_op_u8 s op val = do {
     s \<leftarrow> out (\<lambda>d. dbuf_putc d (opc op)) s;
     out (\<lambda>d. dbuf_putc d (ucast val)) s }"

definition re_emit_op_u16 :: "REParseState \<Rightarrow> reop \<Rightarrow> u32 \<Rightarrow> REParseState option" where
  "re_emit_op_u16 s op val = do {
     s \<leftarrow> out (\<lambda>d. dbuf_putc d (opc op)) s;
     out (\<lambda>d. dbuf_put_u16 d (ucast val)) s }"

section \<open>Classes of characters\<close>

definition char_range_d :: "u32 list" where
  "char_range_d = [1, 0x0030, 0x0039 + 1]"

definition char_range_s :: "u32 list" where
  "char_range_s =
     [10, 0x0009, 0x000D + 1, 0x0020, 0x0020 + 1, 0x00A0, 0x00A0 + 1, 0x1680, 0x1680 + 1,
      0x2000, 0x200A + 1, 0x2028, 0x2029 + 1, 0x202F, 0x202F + 1, 0x205F, 0x205F + 1,
      0x3000, 0x3000 + 1, 0xFEFF, 0xFEFF + 1]"

definition char_range_w :: "u32 list" where
  "char_range_w = [4, 0x0030, 0x0039 + 1, 0x0041, 0x005A + 1, 0x005F, 0x005F + 1, 0x0061, 0x007A + 1]"

fun is_space_loop :: "u32 list \<Rightarrow> u32 \<Rightarrow> bool" where
  "is_space_loop (low # high # ps) c = (if c < low then False else if c < high then True else is_space_loop ps c)"
| "is_space_loop _ c = False"

text \<open>The parameter of \<open>lre_is_space\<close> is an \<open>int\<close>; its callers give code points.\<close>

definition lre_is_space :: "u32 \<Rightarrow> bool" where
  "lre_is_space c = is_space_loop (tl char_range_s) c"

definition char_range_table :: "u32 list list" where
  "char_range_table = [char_range_d, char_range_s, char_range_w]"

text \<open>The classes \<open>\d \D \s \S \w \W\<close> are numbered in this order.\<close>

fun cr_add_points :: "CharRange \<Rightarrow> u32 list \<Rightarrow> (int \<times> CharRange) option" where
  "cr_add_points cr [] = Some (0, cr)"
| "cr_add_points cr (p # ps) = do {
     (r, cr) \<leftarrow> cr_add_point cr p;
     if r \<noteq> 0 then Some (-1, cr) else cr_add_points cr ps }"

definition cr_init_char_range :: "REParseState \<Rightarrow> nat \<Rightarrow> (int \<times> CharRange) option" where
  "cr_init_char_range s c = do {
     c_pt \<leftarrow> rd char_range_table (c div 2);
     len \<leftarrow> rd c_pt 0;
     if length c_pt < 1 + unat len * 2 then None
     else do {
       (r, cr) \<leftarrow> cr_add_points (cr_init (cr_alloc s)) (take (unat len * 2) (tl c_pt));
       if r \<noteq> 0 then Some (-1, cr)
       else if odd c then do { (r, cr) \<leftarrow> cr_invert cr; Some (if r \<noteq> 0 then -1 else 0, cr) }
       else Some (0, cr) } }"

definition cr_canonicalize :: "CharRange \<Rightarrow> (int \<times> CharRange) option" where
  "cr_canonicalize cr = do {
     (r, a) \<leftarrow> cr_op (cr_init (cr_realloc_func cr)) (cr_data cr) [0x61, 0x7a + 1] CR_OP_INTER;
     if r \<noteq> 0 then Some (r, cr)
     else cr_union1 cr (map (\<lambda>p. p + (0x41 - 0x61)) (cr_data a)) }"

fun emit_ranges16 :: "REParseState \<Rightarrow> u32 list \<Rightarrow> REParseState option" where
  "emit_ranges16 s (low # high # ps) = do {
     s \<leftarrow> out (\<lambda>d. dbuf_put_u16 d (ucast low)) s;
     let high = high - 1;
     s \<leftarrow> out (\<lambda>d. dbuf_put_u16 d (ucast (if high = UINT32_MAX - 1 then 0xffff else high))) s;
     emit_ranges16 s ps }"
| "emit_ranges16 s [] = Some s"
| "emit_ranges16 s [low] = None"

fun emit_ranges32 :: "REParseState \<Rightarrow> u32 list \<Rightarrow> REParseState option" where
  "emit_ranges32 s (low # high # ps) = do {
     s \<leftarrow> out (\<lambda>d. dbuf_put_u32 d low) s;
     s \<leftarrow> out (\<lambda>d. dbuf_put_u32 d (high - 1)) s;
     emit_ranges32 s ps }"
| "emit_ranges32 s [] = Some s"
| "emit_ranges32 s [low] = None"

definition re_emit_range :: "REParseState \<Rightarrow> CharRange \<Rightarrow> REParseState parsed" where
  "re_emit_range s cr =
     (let points = cr_data cr; len = cr_len cr div 2
      in if int len \<ge> 65535 then re_parse_error ''too many ranges''
         else if len = 0 then do { (pos, s) \<leftarrow> re_emit_op_u32 s REOP_char32 (- 1); ok s }
         else do {
           high \<leftarrow> rd points (cr_len cr - 1);
           high \<leftarrow> (if high = UINT32_MAX then rd points (cr_len cr - 2) else Some high);
           if high \<le> 0xffff then do {
             s \<leftarrow> re_emit_op_u16 s REOP_range (of_nat len);
             s \<leftarrow> emit_ranges16 s points;
             ok s }
           else do {
             s \<leftarrow> re_emit_op_u16 s REOP_range32 (of_nat len);
             s \<leftarrow> emit_ranges32 s points;
             ok s } })"

end
