(* ===== verification/RegexpClass.thy ===== *)
theory RegexpClass
  imports RegexpEmit
begin

text \<open>
  The classes of characters in the byte code: the code that \<open>re_emit_range\<close> writes for a range of code
  points, read by the search of the interpreter, accepts the characters of the range and no others.
\<close>

section \<open>The binary search\<close>

definition intervals :: "(int \<Rightarrow> bool \<Rightarrow> u32 option) \<Rightarrow> nat \<Rightarrow> (nat \<Rightarrow> u32) \<Rightarrow> (nat \<Rightarrow> u32) \<Rightarrow> bool" where
  "intervals get n L H \<longleftrightarrow>
     (\<forall>i < n. get (int i) True = Some (L i) \<and> get (int i) False = Some (H i) \<and> L i \<le> H i) \<and>
     (\<forall>i j. i < j \<longrightarrow> j < n \<longrightarrow> H i < L j)"

lemma intervals_getD:
  "intervals get n L H \<Longrightarrow> 0 \<le> i \<Longrightarrow> i < int n \<Longrightarrow>
    get i True = Some (L (nat i)) \<and> get i False = Some (H (nat i)) \<and> L (nat i) \<le> H (nat i)"
  unfolding intervals_def by (drule conjunct1, drule spec [of _ "nat i"]) auto

lemma intervals_nth:
  "intervals get n L H \<Longrightarrow> i < n \<Longrightarrow> get (int i) True = Some (L i) \<and> get (int i) False = Some (H i) \<and> L i \<le> H i"
  by (simp add: intervals_def)

lemma intervals_lessD: "intervals get n L H \<Longrightarrow> i < j \<Longrightarrow> j < n \<Longrightarrow> H i < L j"
  by (simp add: intervals_def)

lemma range_search_finds:
  assumes "intervals get n L H"
  shows "0 \<le> lo \<Longrightarrow> hi < int n \<Longrightarrow>
    range_search get c lo hi = Some (\<exists>i. lo \<le> int i \<and> int i \<le> hi \<and> L i \<le> c \<and> c \<le> H i)"
proof (induction "nat (hi - lo + 1)" arbitrary: lo hi rule: less_induct)
  case less
  show ?case
  proof (cases "lo \<le> hi")
    case False
    then show ?thesis
      by (subst range_search.simps) auto
  next
    case True
    let ?m = "(lo + hi) div 2"
    have m: "lo \<le> ?m" "?m \<le> hi" "0 \<le> ?m" "?m < int n"
      using True less.prems by auto
    note get_m = intervals_getD [OF assms m(3,4)]
    have below: "c < L i" if "c < L (nat ?m)" "?m \<le> int i" "i < n" for i
    proof (cases "i = nat ?m")
      case False
      then have "H (nat ?m) < L i"
        using intervals_lessD [OF assms, of "nat ?m" i] that m by linarith
      then show ?thesis
        using that(1) get_m by (meson le_less_trans less_le_trans less_trans)
    qed (use that in simp)
    have above: "H i < c" if "H (nat ?m) < c" "int i \<le> ?m" for i
    proof (cases "i = nat ?m")
      case False
      then have "H i < L (nat ?m)"
        using intervals_lessD [OF assms, of i "nat ?m"] that m by linarith
      then show ?thesis
        using that(1) get_m by (meson le_less_trans less_le_trans less_trans)
    qed (use that in simp)
    consider "c < L (nat ?m)" | "H (nat ?m) < c" | "L (nat ?m) \<le> c" "c \<le> H (nat ?m)"
      by force
    then show ?thesis
    proof cases
      case 1
      have "range_search get c lo hi = range_search get c lo (?m - 1)"
        using True get_m 1 by (subst range_search.simps) (simp add: Let_def)
      also have "\<dots> = Some (\<exists>i. lo \<le> int i \<and> int i \<le> ?m - 1 \<and> L i \<le> c \<and> c \<le> H i)"
        by (rule less.hyps) (use less.prems m in auto)
      also have "(\<exists>i. lo \<le> int i \<and> int i \<le> ?m - 1 \<and> L i \<le> c \<and> c \<le> H i) =
          (\<exists>i. lo \<le> int i \<and> int i \<le> hi \<and> L i \<le> c \<and> c \<le> H i)"
      proof -
        have "int i \<le> ?m - 1" if "int i \<le> hi" "L i \<le> c" for i
          using that below [OF 1, of i] less.prems by (meson leD not_le zle_diff1_eq order.strict_trans1 of_nat_less_iff)
        moreover have "int i \<le> hi" if "int i \<le> ?m - 1" for i
          using that m by linarith
        ultimately show ?thesis
          by blast
      qed
      finally show ?thesis .
    next
      case 2
      have "range_search get c lo hi = range_search get c (?m + 1) hi"
        using True get_m 2 by (subst range_search.simps) (auto simp add: Let_def)
      also have "\<dots> = Some (\<exists>i. ?m + 1 \<le> int i \<and> int i \<le> hi \<and> L i \<le> c \<and> c \<le> H i)"
        by (rule less.hyps) (use less.prems m in auto)
      also have "(\<exists>i. ?m + 1 \<le> int i \<and> int i \<le> hi \<and> L i \<le> c \<and> c \<le> H i) =
          (\<exists>i. lo \<le> int i \<and> int i \<le> hi \<and> L i \<le> c \<and> c \<le> H i)"
      proof -
        have "?m + 1 \<le> int i" if "c \<le> H i" for i
          using that above [OF 2, of i] by (meson leD not_le zle_add1_eq_le add1_zle_eq)
        moreover have "lo \<le> int i" if "?m + 1 \<le> int i" for i
          using that m by linarith
        ultimately show ?thesis
          by blast
      qed
      finally show ?thesis .
    next
      case 3
      then have "\<exists>i. lo \<le> int i \<and> int i \<le> hi \<and> L i \<le> c \<and> c \<le> H i"
        using m by (intro exI [of _ "nat ?m"]) auto
      moreover have "range_search get c lo hi = Some True"
        using True get_m 3 by (subst range_search.simps) (auto simp add: Let_def)
      ultimately show ?thesis
        by simp
    qed
  qed
qed

text \<open>The two forms of the test in the interpreter, on \<open>n\<close> intervals.\<close>

lemma first_low:
  assumes "intervals get n L H" and "L i \<le> c" and "i < n"
  shows "L 0 \<le> c"
proof (cases "i = 0")
  case False
  then have "L 0 \<le> H 0" "H 0 < L i"
    using assms intervals_nth [OF assms(1), of 0] by (auto intro: intervals_lessD)
  then show ?thesis
    using assms(2) by (meson le_less_trans less_imp_le less_le_trans)
qed (use assms in simp)

lemma last_high:
  assumes "intervals get n L H" and "c \<le> H i" and "i < n"
  shows "c \<le> H (n - 1)"
proof (cases "i = n - 1")
  case False
  then have "L (n - 1) \<le> H (n - 1)" "H i < L (n - 1)"
    using assms intervals_nth [OF assms(1), of "n - 1"] intervals_lessD [OF assms(1), of i "n - 1"] by auto
  then show ?thesis
    using assms(2) by (meson le_less_trans less_imp_le less_le_trans)
qed (use assms in simp)

lemma range32_match_finds:
  assumes "intervals (range32_at bc pc) n L H" and "0 < n"
  shows "range32_match bc pc (int n) c = Some ((\<exists>i < n. L i \<le> c \<and> c \<le> H i))"
proof -
  have last: "int (n - 1) = int n - 1"
    using assms(2) by linarith
  have ends: "range32_at bc pc 0 True = Some (L 0)" "range32_at bc pc (int n - 1) False = Some (H (n - 1))"
    using intervals_nth [OF assms(1), of 0] intervals_nth [OF assms(1), of "n - 1"] assms(2)
    unfolding last by auto
  have eq: "(\<exists>i. 0 \<le> int i \<and> int i \<le> int n - 1 \<and> L i \<le> c \<and> c \<le> H i) = (\<exists>i < n. L i \<le> c \<and> c \<le> H i)"
    by auto
  have "\<not> (\<exists>i < n. L i \<le> c \<and> c \<le> H i)" if "c < L 0"
    using first_low [OF assms(1), of _ c] that by (meson leD)
  moreover have "\<not> (\<exists>i < n. L i \<le> c \<and> c \<le> H i)" if "H (n - 1) < c"
    using last_high [OF assms(1), of c] that by (meson leD)
  moreover have "range_search (range32_at bc pc) c 0 (int n - 1) = Some (\<exists>i < n. L i \<le> c \<and> c \<le> H i)"
    using range_search_finds [OF assms(1), of 0 "int n - 1" c] unfolding eq by simp
  ultimately show ?thesis
    unfolding range32_match_def ends by (simp add: not_less not_le del: One_nat_def)
qed

lemma range16_match_finds:
  assumes "intervals (range16_at bc pc) n L H" and "0 < n"
  shows "range16_match bc pc (int n) c = Some ((0xffff \<le> c \<and> H (n - 1) = 0xffff \<and> L 0 \<le> c) \<or> (\<exists>i < n. L i \<le> c \<and> c \<le> H i))"
proof -
  have last: "int (n - 1) = int n - 1"
    using assms(2) by linarith
  have ends: "range16_at bc pc 0 True = Some (L 0)" "range16_at bc pc (int n - 1) False = Some (H (n - 1))"
    using intervals_nth [OF assms(1), of 0] intervals_nth [OF assms(1), of "n - 1"] assms(2)
    unfolding last by auto
  have eq: "(\<exists>i. 0 \<le> int i \<and> int i \<le> int n - 1 \<and> L i \<le> c \<and> c \<le> H i) = (\<exists>i < n. L i \<le> c \<and> c \<le> H i)"
    by auto
  have "\<not> (\<exists>i < n. L i \<le> c \<and> c \<le> H i)" if "c < L 0"
    using first_low [OF assms(1), of _ c] that by (meson leD)
  moreover have "\<not> (\<exists>i < n. L i \<le> c \<and> c \<le> H i)" if "H (n - 1) < c"
    using last_high [OF assms(1), of c] that by (meson leD)
  moreover have "range_search (range16_at bc pc) c 0 (int n - 1) = Some (\<exists>i < n. L i \<le> c \<and> c \<le> H i)"
    using range_search_finds [OF assms(1), of 0 "int n - 1" c] unfolding eq by simp
  ultimately show ?thesis
    unfolding range16_match_def ends by (simp add: not_less not_le del: One_nat_def) (auto dest: leD)
qed

section \<open>Reading what was written\<close>

lemma concat_split:
  assumes "i < length vs"
  shows "concat (map f vs) = concat (map f (take i vs)) @ f (vs ! i) @ concat (map f (drop (Suc i) vs))"
proof -
  have "concat (map f vs) = concat (map f (take i vs @ vs ! i # drop (Suc i) vs))"
    using assms by (simp add: id_take_nth_drop [symmetric])
  then show ?thesis
    by simp
qed

lemma length_concat_le16: "length (concat (map le16 vs)) = 2 * length vs"
  by (induction vs) auto

lemma length_concat_le32: "length (concat (map le32 vs)) = 4 * length vs"
  by (induction vs) auto

lemma get_u16_concat:
  assumes "i < length vs"
  shows "get_u16 (pre @ concat (map le16 vs) @ post) (length pre + 2 * i) = Some (ucast (vs ! i))"
  using get_u16_le16 [of "pre @ concat (map le16 (take i vs))" "vs ! i" "concat (map le16 (drop (Suc i) vs)) @ post"]
    concat_split [OF assms, of le16] assms
  by (simp add: length_concat_le16)

lemma get_u32_concat:
  assumes "i < length vs"
  shows "get_u32 (pre @ concat (map le32 vs) @ post) (length pre + 4 * i) = Some (vs ! i)"
  using get_u32_le32 [of "pre @ concat (map le32 (take i vs))" "vs ! i" "concat (map le32 (drop (Suc i) vs)) @ post"]
    concat_split [OF assms, of le32] assms
  by (simp add: length_concat_le32)

text \<open>The bounds that are written for the points of a range.\<close>

fun bounds16 :: "u32 list \<Rightarrow> u16 list" where
  "bounds16 (low # high # ps) =
     ucast low # ucast (if high - 1 = UINT32_MAX - 1 then 0xffff else high - 1) # bounds16 ps"
| "bounds16 _ = []"

fun bounds32 :: "u32 list \<Rightarrow> u32 list" where
  "bounds32 (low # high # ps) = low # (high - 1) # bounds32 ps"
| "bounds32 _ = []"

lemma length_bounds: "even (length ps) \<Longrightarrow> length (bounds16 ps) = length ps \<and> length (bounds32 ps) = length ps"
  by (induction ps rule: bounds16.induct) auto

lemma nth_bounds32:
  "2 * i + 1 < length ps \<Longrightarrow> bounds32 ps ! (2 * i) = ps ! (2 * i) \<and> bounds32 ps ! (2 * i + 1) = ps ! (2 * i + 1) - 1"
proof (induction ps arbitrary: i rule: bounds32.induct)
  case (1 low high ps)
  then show ?case
    by (cases i) auto
qed auto

lemma nth_bounds16:
  "2 * i + 1 < length ps \<Longrightarrow> bounds16 ps ! (2 * i) = ucast (ps ! (2 * i)) \<and>
    bounds16 ps ! (2 * i + 1) = ucast (if ps ! (2 * i + 1) = UINT32_MAX then 0xffff else ps ! (2 * i + 1) - 1)"
proof (induction ps arbitrary: i rule: bounds16.induct)
  case (1 low high ps)
  then show ?case
    by (cases i) (auto simp: UINT32_MAX_def)
qed auto

lemma cr_in_nth: "cr_in c ps \<longleftrightarrow> (\<exists>i. 2 * i + 1 < length ps \<and> ps ! (2 * i) \<le> c \<and> c < ps ! (2 * i + 1))"
proof (induction c ps rule: cr_in.induct)
  case (1 c a b ps)
  have "(\<exists>i. 2 * i + 1 < length (a # b # ps) \<and> (a # b # ps) ! (2 * i) \<le> c \<and> c < (a # b # ps) ! (2 * i + 1)) \<longleftrightarrow>
      a \<le> c \<and> c < b \<or> (\<exists>i. 2 * i + 1 < length ps \<and> ps ! (2 * i) \<le> c \<and> c < ps ! (2 * i + 1))" (is "?l \<longleftrightarrow> ?r")
  proof
    assume ?l
    then obtain i where "2 * i + 1 < length (a # b # ps)" "(a # b # ps) ! (2 * i) \<le> c" "c < (a # b # ps) ! (2 * i + 1)"
      by blast
    then show ?r
      by (cases i) auto
  next
    assume ?r
    then show ?l
    proof
      assume "\<exists>i. 2 * i + 1 < length ps \<and> ps ! (2 * i) \<le> c \<and> c < ps ! (2 * i + 1)"
      then obtain i where "2 * i + 1 < length ps \<and> ps ! (2 * i) \<le> c \<and> c < ps ! (2 * i + 1)"
        by blast
      then show ?l
        by (intro exI [of _ "Suc i"]) auto
    qed (intro exI [of _ 0], auto)
  qed
  then show ?case
    using 1 by simp
qed auto

section \<open>The code of a class\<close>

text \<open>\<open>emits s bs s'\<close>: the bytes \<open>bs\<close> have been added to the code, or a write has failed.\<close>

definition emits :: "REParseState \<Rightarrow> u8 list \<Rightarrow> REParseState \<Rightarrow> bool" where
  "emits s bs s' \<longleftrightarrow>
     (\<exists>d. s' = s\<lparr>byte_code := d\<rparr> \<and> dbuf_wf d \<and> (db_error (byte_code s) \<longrightarrow> db_error d) \<and>
        (db_error d \<or> dbuf_data d = dbuf_data (byte_code s) @ bs))"

lemma emits_wf: "emits s bs s' \<Longrightarrow> dbuf_wf (byte_code s')"
  by (auto simp: emits_def)

lemma emits_data:
  "emits s bs s' \<Longrightarrow> \<not> db_error (byte_code s') \<Longrightarrow>
    \<not> db_error (byte_code s) \<and> dbuf_data (byte_code s') = dbuf_data (byte_code s) @ bs"
  by (auto simp: emits_def)

lemma emits_nil: "dbuf_wf (byte_code s) \<Longrightarrow> emits s [] s"
  by (auto simp: emits_def intro: exI [of _ "byte_code s"])

lemma emits_trans: "emits s bs s' \<Longrightarrow> emits s' cs s'' \<Longrightarrow> emits s (bs @ cs) s''"
  by (fastforce simp: emits_def)

lemma out_put:
  assumes "dbuf_wf (byte_code s)"
  shows "\<exists>s'. out (\<lambda>d. dbuf_put d bs) s = Some s' \<and> emits s bs s'"
proof -
  obtain r d where "dbuf_put (byte_code s) bs = Some (r, d)" "dbuf_wf d"
      "db_error (byte_code s) \<longrightarrow> db_error d" "db_error d \<or> dbuf_data d = dbuf_data (byte_code s) @ bs"
    using dbuf_put_cases [OF assms, of bs] by auto
  then show ?thesis
    by (auto simp: out_def emits_def)
qed

lemma out_puts:
  assumes "dbuf_wf (byte_code s)"
  shows "\<exists>s'. out (\<lambda>d. dbuf_putc d b) s = Some s' \<and> emits s [b] s'"
    and "\<exists>s'. out (\<lambda>d. dbuf_put_u16 d v) s = Some s' \<and> emits s (le16 v) s'"
    and "\<exists>s'. out (\<lambda>d. dbuf_put_u32 d w) s = Some s' \<and> emits s (le32 w) s'"
  using out_put [OF assms] by (simp_all add: dbuf_putc_def dbuf_put_u16_def dbuf_put_u32_def)

lemma re_emit_op_u16_emits:
  assumes "dbuf_wf (byte_code s)"
  shows "\<exists>s'. re_emit_op_u16 s op v = Some s' \<and> emits s (opc op # le16 (ucast v)) s'"
proof -
  obtain s1 where s1: "out (\<lambda>d. dbuf_putc d (opc op)) s = Some s1" "emits s [opc op] s1"
    using out_puts(1) [OF assms] by blast
  obtain s2 where "out (\<lambda>d. dbuf_put_u16 d (ucast v)) s1 = Some s2" "emits s1 (le16 (ucast v)) s2"
    using out_puts(2) [OF emits_wf [OF s1(2)]] by blast
  then show ?thesis
    using s1 emits_trans [of s "[opc op]" s1] by (auto simp: re_emit_op_u16_def)
qed

lemma re_emit_op_u32_emits:
  assumes "dbuf_wf (byte_code s)"
  shows "\<exists>pos s'. re_emit_op_u32 s op v = Some (pos, s') \<and> emits s (opc op # le32 v) s'"
proof -
  obtain s1 where s1: "out (\<lambda>d. dbuf_putc d (opc op)) s = Some s1" "emits s [opc op] s1"
    using out_puts(1) [OF assms] by blast
  obtain s2 where "out (\<lambda>d. dbuf_put_u32 d v) s1 = Some s2" "emits s1 (le32 v) s2"
    using out_puts(3) [OF emits_wf [OF s1(2)]] by blast
  then show ?thesis
    using s1 emits_trans [of s "[opc op]" s1] by (auto simp: re_emit_op_u32_def)
qed

lemma emit_ranges16_emits:
  "dbuf_wf (byte_code s) \<Longrightarrow> even (length ps) \<Longrightarrow>
    \<exists>s'. emit_ranges16 s ps = Some s' \<and> emits s (concat (map le16 (bounds16 ps))) s'"
proof (induction s ps rule: emit_ranges16.induct)
  case (1 s low high ps)
  obtain s1 where s1: "out (\<lambda>d. dbuf_put_u16 d (ucast low)) s = Some s1" "emits s (le16 (ucast low)) s1"
    using out_puts(2) [OF 1(2)] by blast
  let ?h = "ucast (if high - 1 = UINT32_MAX - 1 then 0xffff else high - 1) :: u16"
  obtain s2 where s2: "out (\<lambda>d. dbuf_put_u16 d ?h) s1 = Some s2" "emits s1 (le16 ?h) s2"
    using out_puts(2) [OF emits_wf [OF s1(2)]] by blast
  obtain s3 where "emit_ranges16 s2 ps = Some s3" "emits s2 (concat (map le16 (bounds16 ps))) s3"
    using 1(1) [OF s1(1) refl s2(1) emits_wf [OF s2(2)]] 1(3) by auto
  then show ?case
    using s1 s2 emits_trans [OF emits_trans [OF s1(2) s2(2)]] by (simp add: Let_def)
qed (auto intro: emits_nil)

lemma emit_ranges32_emits:
  "dbuf_wf (byte_code s) \<Longrightarrow> even (length ps) \<Longrightarrow>
    \<exists>s'. emit_ranges32 s ps = Some s' \<and> emits s (concat (map le32 (bounds32 ps))) s'"
proof (induction s ps rule: emit_ranges32.induct)
  case (1 s low high ps)
  obtain s1 where s1: "out (\<lambda>d. dbuf_put_u32 d low) s = Some s1" "emits s (le32 low) s1"
    using out_puts(3) [OF 1(2)] by blast
  obtain s2 where s2: "out (\<lambda>d. dbuf_put_u32 d (high - 1)) s1 = Some s2" "emits s1 (le32 (high - 1)) s2"
    using out_puts(3) [OF emits_wf [OF s1(2)]] by blast
  obtain s3 where "emit_ranges32 s2 ps = Some s3" "emits s2 (concat (map le32 (bounds32 ps))) s3"
    using 1(1) [OF s1(1) s2(1) emits_wf [OF s2(2)]] 1(3) by auto
  then show ?case
    using s1 s2 emits_trans [OF emits_trans [OF s1(2) s2(2)]] by simp
qed (auto intro: emits_nil)

definition class_code :: "u32 list \<Rightarrow> u8 list" where
  "class_code ps =
     (if ps = [] then opc REOP_char32 # le32 (- 1)
      else if (if last ps = UINT32_MAX then ps ! (length ps - 2) else last ps) \<le> 0xffff
      then opc REOP_range # le16 (of_nat (length ps div 2)) @ concat (map le16 (bounds16 ps))
      else opc REOP_range32 # le16 (of_nat (length ps div 2)) @ concat (map le32 (bounds32 ps)))"

lemma re_emit_range_emits:
  assumes wf: "dbuf_wf (byte_code s)" and cr: "cr_wf cr" "even (cr_len cr)" and len: "cr_len cr div 2 < 65535"
  shows "\<exists>s'. re_emit_range s cr = Some (Inr s') \<and> emits s (class_code (cr_data cr)) s'"
proof (cases "cr_data cr = []")
  case True
  then have "cr_len cr = 0"
    using length_cr_data [OF cr(1)] by simp
  then show ?thesis
    using re_emit_op_u32_emits [OF wf, of REOP_char32 "- 1"] True
    by (auto simp: re_emit_range_def class_code_def ok_def)
next
  case False
  let ?ps = "cr_data cr"
  have l: "length ?ps = cr_len cr"
    by (rule length_cr_data [OF cr(1)])
  then have two: "2 \<le> cr_len cr"
    using False cr(2) by (cases "cr_len cr") (auto elim: oddE)
  have last: "rd ?ps (cr_len cr - 1) = Some (last ?ps)" "rd ?ps (cr_len cr - 2) = Some (?ps ! (length ?ps - 2))"
    using two l False by (auto simp: last_conv_nth)
  obtain s1 where s1: "re_emit_op_u16 s REOP_range (of_nat (cr_len cr div 2)) = Some s1"
      "emits s (opc REOP_range # le16 (ucast (of_nat (cr_len cr div 2) :: u32))) s1"
    using re_emit_op_u16_emits [OF wf] by blast
  obtain s2 where s2: "re_emit_op_u16 s REOP_range32 (of_nat (cr_len cr div 2)) = Some s2"
      "emits s (opc REOP_range32 # le16 (ucast (of_nat (cr_len cr div 2) :: u32))) s2"
    using re_emit_op_u16_emits [OF wf] by blast
  obtain s3 where s3: "emit_ranges16 s1 ?ps = Some s3" "emits s1 (concat (map le16 (bounds16 ?ps))) s3"
    using emit_ranges16_emits [OF emits_wf [OF s1(2)], of ?ps] cr(2) l by auto
  obtain s4 where s4: "emit_ranges32 s2 ?ps = Some s4" "emits s2 (concat (map le32 (bounds32 ?ps))) s4"
    using emit_ranges32_emits [OF emits_wf [OF s2(2)], of ?ps] cr(2) l by auto
  have u: "ucast (of_nat n :: u32) = (of_nat n :: u16)" for n
    by (rule bit_word_eqI) (auto simp: bit_simps)
  show ?thesis
    using len two False last l s1 s2 s3 s4 emits_trans [OF s1(2) s3(2)] emits_trans [OF s2(2) s4(2)]
    by (auto simp: re_emit_range_def class_code_def Let_def ok_def u)
qed

text \<open>The intervals in the code are those of the points.\<close>

lemma UINT32_MAX_max: "x \<le> UINT32_MAX"
  using uint_lt2p [of x] by (simp add: UINT32_MAX_def word_le_def)

lemma ucast16_ident: "(v :: u32) \<le> 0xffff \<Longrightarrow> ucast (ucast v :: u16) = v"
  by (simp add: word_le_def unsigned_ucast_eq word_uint_eq_iff unsigned_take_bit_eq take_bit_int_eq_self)

lemma pred_lt: "a < (b :: u32) \<Longrightarrow> a \<le> b - 1 \<and> b - 1 < b"
proof -
  assume "a < b"
  then have "uint a < uint b" "0 \<le> uint a"
    by (simp_all only: word_less_def uint_ge_0)
  moreover have "uint b < 2 ^ 32"
    using uint_lt2p [of b] by simp
  ultimately have "0 \<le> uint b - 1" "uint b - 1 < 2 ^ 32"
    by linarith+
  then have "uint (b - 1) = uint b - 1"
    by (simp add: uint_word_ariths)
  with \<open>uint a < uint b\<close> show ?thesis
    by (simp add: word_le_def word_less_def)
qed

lemma le_pred: "a < b \<Longrightarrow> (c :: u32) \<le> b - 1 \<longleftrightarrow> c < b"
  using pred_lt [of a b] pred_lt [of c b] by (meson le_less_trans)

lemma points_less: "points_canon ps \<Longrightarrow> i < j \<Longrightarrow> j < length ps \<Longrightarrow> ps ! i < ps ! j"
  by (simp add: points_canon_def sorted_wrt_iff_nth_less)

lemma intervals32:
  assumes "points_canon ps" and "bc = pre @ concat (map le32 (bounds32 ps)) @ post"
  shows "intervals (range32_at bc (length pre)) (length ps div 2) (\<lambda>i. ps ! (2 * i)) (\<lambda>i. ps ! (2 * i + 1) - 1)"
  unfolding intervals_def
proof (intro conjI allI impI)
  have ev: "even (length ps)"
    using assms(1) by (simp add: points_canon_def)
  fix i j
  show "range32_at bc (length pre) (int i) True = Some (ps ! (2 * i))"
      and "range32_at bc (length pre) (int i) False = Some (ps ! (2 * i + 1) - 1)"
      and "ps ! (2 * i) \<le> ps ! (2 * i + 1) - 1" if "i < length ps div 2"
  proof -
    have i: "2 * i + 1 < length ps"
      using that ev by (auto elim!: evenE)
    note nth = nth_bounds32 [OF i]
    note get = get_u32_concat [of "2 * i" "bounds32 ps" pre post, folded assms(2)]
      get_u32_concat [of "2 * i + 1" "bounds32 ps" pre post, folded assms(2)]
    show "range32_at bc (length pre) (int i) True = Some (ps ! (2 * i))"
      "range32_at bc (length pre) (int i) False = Some (ps ! (2 * i + 1) - 1)"
      using get nth i length_bounds [OF ev] by (simp_all add: range32_at_def algebra_simps)
    show "ps ! (2 * i) \<le> ps ! (2 * i + 1) - 1"
      using pred_lt points_less [OF assms(1), of "2 * i" "2 * i + 1"] i by simp
  qed
  show "ps ! (2 * i + 1) - 1 < ps ! (2 * j)" if "i < j" "j < length ps div 2"
  proof -
    have "2 * i < 2 * i + 1" "2 * i + 1 < 2 * j" "2 * j < length ps"
      using that by auto
    then have "ps ! (2 * i) < ps ! (2 * i + 1)" "ps ! (2 * i + 1) < ps ! (2 * j)"
      using points_less [OF assms(1)] by auto
    then show ?thesis
      using pred_lt by (meson less_trans)
  qed
qed

definition upper16 :: "u32 \<Rightarrow> u32" where
  "upper16 p = (if p = UINT32_MAX then 0xffff else p - 1)"

text \<open>The condition for the 16-bit form.\<close>

definition small_points :: "u32 list \<Rightarrow> bool" where
  "small_points ps \<longleftrightarrow> (if last ps = UINT32_MAX then ps ! (length ps - 2) else last ps) \<le> 0xffff"

lemma small_pointsD:
  assumes "points_canon ps" and "small_points ps" and "2 * i + 1 < length ps"
  shows "ps ! (2 * i) \<le> 0xffff" and "ps ! (2 * i + 1) \<noteq> UINT32_MAX \<Longrightarrow> ps ! (2 * i + 1) \<le> 0xffff"
    and "ps ! (2 * i) < ps ! (2 * i + 1)"
    and "ps ! (2 * i + 1) = UINT32_MAX \<Longrightarrow> 2 * i + 2 = length ps"
proof -
  have ev: "even (length ps)"
    using assms(1) by (simp add: points_canon_def)
  obtain m where m: "length ps = 2 * m" "i < m"
    using ev assms(3) by (auto elim!: evenE)
  have le: "ps ! j \<le> ps ! k" if "j \<le> k" "k < length ps" for j k
    using points_less [OF assms(1), of j k] that by (cases "j = k") auto
  have last: "last ps = ps ! (length ps - 1)"
    using m by (intro last_conv_nth) auto
  show less: "ps ! (2 * i) < ps ! (2 * i + 1)"
    using points_less [OF assms(1), of "2 * i" "2 * i + 1"] assms(3) by simp
  show "2 * i + 2 = length ps" if "ps ! (2 * i + 1) = UINT32_MAX"
  proof (rule ccontr)
    assume "2 * i + 2 \<noteq> length ps"
    then have "2 * i + 1 < 2 * i + 2" "2 * i + 2 < length ps"
      using assms(3) by auto
    from points_less [OF assms(1) this] show False
      using that UINT32_MAX_max [of "ps ! (2 * i + 2)"] by simp
  qed
  show "ps ! (2 * i + 1) \<le> 0xffff" if "ps ! (2 * i + 1) \<noteq> UINT32_MAX"
  proof (cases "last ps = UINT32_MAX")
    case True
    then have "2 * i + 1 \<noteq> length ps - 1"
      using that last by auto
    then have "2 * i + 1 \<le> length ps - 2"
      using assms(3) by auto
    then show ?thesis
      using le [of "2 * i + 1" "length ps - 2"] True assms(2) m by (auto simp: small_points_def)
  next
    case False
    have "ps ! (2 * i + 1) \<le> last ps"
      unfolding last by (rule le) (use assms(3) in auto)
    then show ?thesis
      using assms(2) False by (auto simp: small_points_def)
  qed
  show "ps ! (2 * i) \<le> 0xffff"
  proof (cases "last ps = UINT32_MAX")
    case True
    then show ?thesis
      using order.trans [OF le [of "2 * i" "length ps - 2"]] assms(2) m by (auto simp: small_points_def)
  next
    case False
    then show ?thesis
      using order.trans [OF le [of "2 * i" "length ps - 1"]] assms(2,3) last by (auto simp: small_points_def)
  qed
qed

lemma intervals16:
  assumes "points_canon ps" and "small_points ps" and "bc = pre @ concat (map le16 (bounds16 ps)) @ post"
  shows "intervals (range16_at bc (length pre)) (length ps div 2) (\<lambda>i. ps ! (2 * i)) (\<lambda>i. upper16 (ps ! (2 * i + 1)))"
  unfolding intervals_def
proof (intro conjI allI impI)
  have ev: "even (length ps)"
    using assms(1) by (simp add: points_canon_def)
  have in_len: "2 * i + 1 < length ps" if "i < length ps div 2" for i
    using that ev by (auto elim!: evenE)
  have up: "upper16 (ps ! (2 * i + 1)) \<le> 0xffff \<and> ps ! (2 * i) \<le> upper16 (ps ! (2 * i + 1))" if "i < length ps div 2" for i
  proof -
    note small = small_pointsD [OF assms(1,2) in_len [OF that]]
    show ?thesis
    proof (cases "ps ! (2 * i + 1) = UINT32_MAX")
      case False
      then show ?thesis
        using small(2) pred_lt [OF small(3)] by (auto simp: upper16_def)
    qed (use small(1) in \<open>simp add: upper16_def\<close>)
  qed
  fix i j
  show "range16_at bc (length pre) (int i) True = Some (ps ! (2 * i))"
      and "range16_at bc (length pre) (int i) False = Some (upper16 (ps ! (2 * i + 1)))"
      and "ps ! (2 * i) \<le> upper16 (ps ! (2 * i + 1))" if "i < length ps div 2"
  proof -
    note i = in_len [OF that]
    note nth = nth_bounds16 [OF i, folded upper16_def]
    note get = get_u16_concat [of "2 * i" "bounds16 ps" pre post, folded assms(3)]
      get_u16_concat [of "2 * i + 1" "bounds16 ps" pre post, folded assms(3)]
    show "range16_at bc (length pre) (int i) True = Some (ps ! (2 * i))"
      using get nth i length_bounds [OF ev] ucast16_ident [OF small_pointsD(1) [OF assms(1,2) i]]
      by (simp add: range16_at_def algebra_simps)
    show "range16_at bc (length pre) (int i) False = Some (upper16 (ps ! (2 * i + 1)))"
      using get nth i length_bounds [OF ev] ucast16_ident [OF conjunct1 [OF up [OF that]]]
      by (simp add: range16_at_def algebra_simps)
    show "ps ! (2 * i) \<le> upper16 (ps ! (2 * i + 1))"
      using up [OF that] by blast
  qed
  show "upper16 (ps ! (2 * i + 1)) < ps ! (2 * j)" if "i < j" "j < length ps div 2"
  proof -
    have "2 * i < 2 * i + 1" "2 * i + 1 < 2 * j" "2 * j < length ps"
      using that by auto
    then have less: "ps ! (2 * i) < ps ! (2 * i + 1)" "ps ! (2 * i + 1) < ps ! (2 * j)"
      using points_less [OF assms(1)] by auto
    then have "ps ! (2 * i + 1) \<noteq> UINT32_MAX"
      using UINT32_MAX_max [of "ps ! (2 * j)"] by (auto dest: leD)
    then show ?thesis
      using pred_lt [OF less(1)] less(2) by (auto simp: upper16_def)
  qed
qed

section \<open>The class in the code\<close>

lemma members:
  assumes "points_canon ps"
  shows "cr_in c ps \<longleftrightarrow> (\<exists>i < length ps div 2. ps ! (2 * i) \<le> c \<and> c < ps ! (2 * i + 1))"
proof -
  have "2 * i + 1 < length ps \<longleftrightarrow> i < length ps div 2" for i
    using assms by (auto simp: points_canon_def elim!: evenE)
  then show ?thesis
    by (simp add: cr_in_nth)
qed

lemma points_pairs:
  assumes "points_canon ps" and "ps \<noteq> []"
  shows "even (length ps)" and "0 < length ps div 2"
proof -
  show "even (length ps)"
    using assms(1) by (simp add: points_canon_def)
  then show "0 < length ps div 2"
    using assms(2) by (cases ps) (auto elim: evenE)
qed

lemma range32_match_class:
  assumes "points_canon ps" and "ps \<noteq> []" and "bc = pre @ concat (map le32 (bounds32 ps)) @ post"
  shows "range32_match bc (length pre) (int (length ps div 2)) c = Some (cr_in c ps)"
proof -
  have ev: "even (length ps)" and pos: "0 < length ps div 2"
    by (rule points_pairs [OF assms(1,2)])+
  have "c \<le> ps ! (2 * i + 1) - 1 \<longleftrightarrow> c < ps ! (2 * i + 1)" if "i < length ps div 2" for i
    using that ev by (intro le_pred [OF points_less [OF assms(1), of "2 * i"]]) (auto elim!: evenE)
  then show ?thesis
    using range32_match_finds [OF intervals32 [OF assms(1,3)] pos, of c] members [OF assms(1), of c] by auto
qed

lemma range16_match_class:
  assumes "points_canon ps" and "ps \<noteq> []" and "small_points ps"
    and "bc = pre @ concat (map le16 (bounds16 ps)) @ post" and "c < UINT32_MAX"
  shows "range16_match bc (length pre) (int (length ps div 2)) c = Some (cr_in c ps)"
proof -
  let ?n = "length ps div 2"
  have ev: "even (length ps)" and pos: "0 < ?n"
    by (rule points_pairs [OF assms(1,2)])+
  have in_len: "2 * i + 1 < length ps" if "i < ?n" for i
    using that ev by (auto elim!: evenE)
  note iv = intervals16 [OF assms(1,3,4)]
  have one: "c \<le> upper16 (ps ! (2 * i + 1)) \<longleftrightarrow> c < ps ! (2 * i + 1) \<and> (c \<le> 0xffff \<or> ps ! (2 * i + 1) \<noteq> UINT32_MAX)"
    if "i < ?n" for i
    using le_pred [OF small_pointsD(3) [OF assms(1,3) in_len [OF that]], of c] assms(5)
    by (auto simp: upper16_def)
  have last: "upper16 (ps ! (2 * (?n - 1) + 1)) = 0xffff \<longleftrightarrow> ps ! (2 * (?n - 1) + 1) = UINT32_MAX"
  proof -
    note small = small_pointsD [OF assms(1,3) in_len [of "?n - 1"]]
    show ?thesis
      using small(2) pred_lt [OF small(3)] pos by (auto simp: upper16_def dest: leD)
  qed
  have "(0xffff \<le> c \<and> ps ! (2 * (?n - 1) + 1) = UINT32_MAX \<and> ps ! (2 * 0) \<le> c) \<or>
      (\<exists>i < ?n. ps ! (2 * i) \<le> c \<and> c \<le> upper16 (ps ! (2 * i + 1))) \<longleftrightarrow> cr_in c ps" (is "?l \<longleftrightarrow> ?r")
  proof
    assume ?l
    then show ?r
    proof
      assume *: "0xffff \<le> c \<and> ps ! (2 * (?n - 1) + 1) = UINT32_MAX \<and> ps ! (2 * 0) \<le> c"
      have "ps ! (2 * (?n - 1)) \<le> c"
        using small_pointsD(1) [OF assms(1,3) in_len [of "?n - 1"]] * pos by (auto intro: order.trans)
      then show ?r
        using * assms(5) pos members [OF assms(1), of c] by (auto intro!: exI [of _ "?n - 1"])
    next
      assume "\<exists>i < ?n. ps ! (2 * i) \<le> c \<and> c \<le> upper16 (ps ! (2 * i + 1))"
      then show ?r
        using one members [OF assms(1), of c] by auto
    qed
  next
    assume ?r
    then obtain i where i: "i < ?n" "ps ! (2 * i) \<le> c" "c < ps ! (2 * i + 1)"
      using members [OF assms(1), of c] by auto
    show ?l
    proof (cases "c \<le> 0xffff \<or> ps ! (2 * i + 1) \<noteq> UINT32_MAX")
      case True
      then show ?l
        using i one [OF i(1)] by auto
    next
      case False
      then have "i = ?n - 1"
        using small_pointsD(4) [OF assms(1,3) in_len [OF i(1)]] by auto
      moreover have "ps ! (2 * 0) \<le> c"
        using first_low [OF iv i(2,1)] by simp
      ultimately show ?l
        using False by (auto simp: not_le)
    qed
  qed
  then show ?thesis
    using range16_match_finds [OF iv pos, of c] unfolding last by simp
qed

lemma fetch_opc:
  assumes "bc_buf S = pre @ opc op # post" and "op \<in> {REOP_char32, REOP_range, REOP_range32, REOP_char}"
  shows "fetch S (length pre) = Some op"
proof -
  have "rd reops (unat (opc op)) = Some op"
    using assms(2) by (elim insertE emptyE) (simp_all add: opc_def reops_def)
  then show ?thesis
    by (simp add: fetch_def assms(1))
qed

lemma test_range_class:
  assumes "bc_buf S = pre @ le16 (of_nat n) @ code @ post" and "n < 65536" and "0 < n" and "length code = bytes * n"
    and "range_match (bc_buf S) (length pre + 2) (int n) c = Some b"
    and "p < cbuf_end S" and "get_char_ic S p = Some (c, q)"
  shows "test_range S range_match bytes (length pre) p =
    Some (if b then Some (length pre + 2 + length code, q) else None)"
proof -
  have n: "unat (ucast (of_nat n :: u16) :: u32) = n"
    using assms(2) by (simp add: unsigned_ucast_eq unsigned_of_nat take_bit_nat_eq_self)
  have "get_u16 (bc_buf S) (length pre) = Some (ucast (of_nat n :: u16))"
    using get_u16_le16 [of pre "of_nat n" "code @ post"] assms(1) by simp
  moreover have "uint (ucast (of_nat n :: u16) :: u32) = int n" and "ucast (of_nat n :: u16) \<noteq> (0 :: u32)"
    using n assms(3) by (metis uint_nat, metis unat_0 less_numeral_extra(3))
  ultimately show ?thesis
    using assms(4-7) n by (simp add: test_range_def)
qed

text \<open>The three forms of the code of a class, in a program and on a character.\<close>

definition class_decides :: "re_context \<Rightarrow> nat \<Rightarrow> nat \<Rightarrow> u32 \<Rightarrow> nat \<Rightarrow> u32 list \<Rightarrow> bool" where
  "class_decides S pc p c q ps \<longleftrightarrow>
     (\<exists>op. fetch S pc = Some op \<and> simple_op S op (pc + 1) p =
        Some (if cr_in c ps then Some (pc + length (class_code ps), q) else None))"

lemma empty_class_decides:
  assumes code: "bc_buf S = pre @ class_code [] @ post"
    and c: "p < cbuf_end S" "get_char_ic S p = Some (c, q)" "c < UINT32_MAX"
  shows "class_decides S (length pre) p c q []"
proof -
  have cc: "class_code [] = opc REOP_char32 # le32 (- 1)"
    by (simp add: class_code_def)
  have "get_u32 (bc_buf S) (length pre + 1) = Some (- 1)"
    using get_u32_le32 [of "pre @ [opc REOP_char32]" "- 1" post] by (simp add: code cc)
  moreover have "c \<noteq> - 1"
    using c(3) by (auto simp: UINT32_MAX_def)
  ultimately have "simple_op S REOP_char32 (length pre + 1) p = Some None"
    using c by (auto simp: simple_op_def test_char_def)
  then show ?thesis
    using fetch_opc [of S pre REOP_char32 "le32 (- 1) @ post"] code cc
    unfolding class_decides_def by (intro exI [of _ REOP_char32]) simp
qed

lemma class16_decides:
  assumes code: "bc_buf S = pre @ class_code ps @ post" and ps: "points_canon ps" "ps \<noteq> []" "small_points ps"
    and n: "length ps div 2 < 65536"
    and c: "p < cbuf_end S" "get_char_ic S p = Some (c, q)" "c < UINT32_MAX"
  shows "class_decides S (length pre) p c q ps"
proof -
  let ?code = "concat (map le16 (bounds16 ps))"
  have ev: "even (length ps)"
    using ps(1) by (simp add: points_canon_def)
  have cc: "class_code ps = opc REOP_range # le16 (of_nat (length ps div 2)) @ ?code"
    using ps by (simp add: class_code_def small_points_def)
  have lc: "length ?code = 4 * (length ps div 2)"
    using length_bounds [OF ev] ev by (auto simp: length_concat_le16)
  have "range16_match (bc_buf S) (length (pre @ [opc REOP_range]) + 2) (int (length ps div 2)) c = Some (cr_in c ps)"
    using range16_match_class [OF ps, of "bc_buf S"
        "pre @ opc REOP_range # le16 (of_nat (length ps div 2))" post c] c(3)
    by (simp add: code cc eval_nat_numeral)
  from test_range_class [where pre = "pre @ [opc REOP_range]" and code = ?code and post = post
      and range_match = range16_match, OF _ n points_pairs(2) [OF ps(1,2)] lc this c(1,2)]
  have "simple_op S REOP_range (length pre + 1) p =
      Some (if cr_in c ps then Some (length pre + length (class_code ps), q) else None)"
    by (simp add: simple_op_def code cc)
  then show ?thesis
    using fetch_opc [of S pre REOP_range "tl (class_code ps) @ post"]
    unfolding class_decides_def by (intro exI [of _ REOP_range]) (simp add: code cc)
qed

lemma class32_decides:
  assumes code: "bc_buf S = pre @ class_code ps @ post" and ps: "points_canon ps" "ps \<noteq> []" "\<not> small_points ps"
    and n: "length ps div 2 < 65536"
    and c: "p < cbuf_end S" "get_char_ic S p = Some (c, q)" "c < UINT32_MAX"
  shows "class_decides S (length pre) p c q ps"
proof -
  let ?code = "concat (map le32 (bounds32 ps))"
  have ev: "even (length ps)"
    using ps(1) by (simp add: points_canon_def)
  have cc: "class_code ps = opc REOP_range32 # le16 (of_nat (length ps div 2)) @ ?code"
    using ps by (simp add: class_code_def small_points_def)
  have lc: "length ?code = 8 * (length ps div 2)"
    using length_bounds [OF ev] ev by (auto simp: length_concat_le32)
  have "range32_match (bc_buf S) (length (pre @ [opc REOP_range32]) + 2) (int (length ps div 2)) c = Some (cr_in c ps)"
    using range32_match_class [OF ps(1,2), of "bc_buf S"
        "pre @ opc REOP_range32 # le16 (of_nat (length ps div 2))" post c]
    by (simp add: code cc eval_nat_numeral)
  from test_range_class [where pre = "pre @ [opc REOP_range32]" and code = ?code and post = post
      and range_match = range32_match, OF _ n points_pairs(2) [OF ps(1,2)] lc this c(1,2)]
  have "simple_op S REOP_range32 (length pre + 1) p =
      Some (if cr_in c ps then Some (length pre + length (class_code ps), q) else None)"
    by (simp add: simple_op_def code cc)
  then show ?thesis
    using fetch_opc [of S pre REOP_range32 "tl (class_code ps) @ post"]
    unfolding class_decides_def by (intro exI [of _ REOP_range32]) (simp add: code cc)
qed

text \<open>C17: The code that the compiler writes for a class of characters, run by the interpreter, accepts
  exactly the characters of the class: the interval encoding with its 16-bit form, where 0xffff stands
  for no upper bound, and the binary search agree with the set of code points, whatever has been
  written before and whatever is written behind.\<close>

theorem class_code_matches_class:
  assumes "dbuf_wf (byte_code s)" and "cr_wf cr" and "points_canon (cr_data cr)" and "cr_len cr div 2 < 65535"
    and "re_emit_range s cr = Some (Inr s')" and "\<not> db_error (byte_code s')"
    and "bc_buf S = dbuf_data (byte_code s') @ post"
    and "p < cbuf_end S" and "get_char_ic S p = Some (c, q)" and "c < UINT32_MAX"
  shows "\<exists>op. fetch S (db_size (byte_code s)) = Some op \<and>
    simple_op S op (db_size (byte_code s) + 1) p =
      Some (if cr_in c (cr_data cr) then Some (db_size (byte_code s'), q) else None)"
proof -
  let ?ps = "cr_data cr" and ?pre = "dbuf_data (byte_code s)"
  have len: "length ?ps = cr_len cr" and pre: "length ?pre = db_size (byte_code s)"
    by (rule length_cr_data [OF assms(2)], rule length_dbuf_data [OF assms(1)])
  have ev: "even (length ?ps)"
    using assms(3) by (simp add: points_canon_def)
  obtain s2 where "re_emit_range s cr = Some (Inr s2)" "emits s (class_code ?ps) s2"
    using re_emit_range_emits [OF assms(1,2) _ assms(4)] ev len by auto
  then have em: "emits s (class_code ?ps) s'"
    using assms(5) by simp
  then have code: "bc_buf S = ?pre @ class_code ?ps @ post" and
      len': "db_size (byte_code s') = length ?pre + length (class_code ?ps)"
    using emits_data [OF em assms(6)] assms(7) length_dbuf_data [OF emits_wf [OF em]] by auto
  have n: "length ?ps div 2 < 65536"
    using assms(4) len by simp
  have "class_decides S (length ?pre) p c q ?ps"
    using empty_class_decides [of S ?pre post p c q] class16_decides [OF code assms(3) _ _ n assms(8-10)]
      class32_decides [OF code assms(3) _ _ n assms(8-10)] code assms(8-10)
    by (cases "?ps = []"; cases "small_points ?ps") simp_all
  then show ?thesis
    unfolding class_decides_def pre len' .
qed

section \<open>The built-in classes\<close>

lemma cr_add_points_cases:
  "cr_wf cr \<Longrightarrow> \<exists>r cr'. cr_add_points cr ps = Some (r, cr') \<and> (r = 0 \<longrightarrow> cr_wf cr' \<and> cr_data cr' = cr_data cr @ ps)"
proof (induction ps arbitrary: cr)
  case (Cons p ps)
  obtain r cr1 where cr1: "cr_add_point cr p = Some (r, cr1)" "cr_wf cr1" "r = 0 \<longrightarrow> cr_data cr1 = cr_data cr @ [p]"
    using cr_add_point_cases [OF Cons.prems, of p] by auto
  then show ?case
    using Cons.IH [OF cr1(2)] by (cases "r = 0") auto
qed auto

lemma cr_add_points_kept: "cr_add_points cr ps = Some (r, cr') \<Longrightarrow> cr_kept cr r cr'"
proof (induction ps arbitrary: cr)
  case (Cons p ps)
  obtain q cr1 where q: "cr_add_point cr p = Some (q, cr1)"
    using Cons.prems by (auto split: bind_splits)
  note k = cr_add_point_kept [OF q]
  show ?case
  proof (cases "q = 0")
    case True
    then have "cr_kept cr1 r cr'" using Cons.IH Cons.prems q by simp
    then show ?thesis using k True by (auto intro: cr_kept_trans)
  qed (use Cons.prems q cr_kept_fail [OF k] in simp)
qed simp

lemma is_space_loop_in: "points_ok ps \<Longrightarrow> is_space_loop ps c \<longleftrightarrow> cr_in c ps"
proof (induction ps c rule: is_space_loop.induct)
  case (1 low high ps c)
  have "points_ok ps" and above: "\<forall>x \<in> set ps. low \<le> x"
    using 1(2) by (auto simp: points_ok_def)
  moreover have "\<not> cr_in c ps" if "c < low"
  proof -
    have "\<forall>x \<in> set ps. c < x"
      using that above by (auto intro: less_le_trans)
    then show ?thesis
      by (simp add: cr_in_parity [OF \<open>points_ok ps\<close>] cnt_zero)
  qed
  ultimately show ?case
    using 1(1) by (auto simp: not_less)
qed auto

text \<open>The characters of the classes \<open>\d \s \w\<close>.\<close>

definition builtin_class :: "nat \<Rightarrow> u32 \<Rightarrow> bool" where
  "builtin_class k c = (if k = 0 then 0x30 \<le> c \<and> c \<le> 0x39 else if k = 1 then lre_is_space c else is_word_char c)"

lemma le_succ:
  fixes b c :: u32
  assumes "b < UINT32_MAX"
  shows "c < b + 1 \<longleftrightarrow> c \<le> b"
proof -
  have "uint (b + 1) = uint b + 1"
    using assms by (simp add: uint_word_ariths word_less_def UINT32_MAX_def)
  then show ?thesis
    by (simp add: word_less_def word_le_def)
qed

lemma builtin_points:
  assumes "k < 3"
  defines "ps \<equiv> tl (char_range_table ! k)"
  shows "char_range_table ! k = of_nat (length ps div 2) # ps" and "points_canon ps" and "length ps \<le> 20"
    and "cr_in c ps \<longleftrightarrow> builtin_class k c"
proof -
  have k: "k = 0 \<or> k = 1 \<or> k = 2"
    using assms(1) by auto
  show "char_range_table ! k = of_nat (length ps div 2) # ps" and c: "points_canon ps" and "length ps \<le> 20"
    using k unfolding ps_def
    by (auto simp: char_range_table_def char_range_d_def char_range_s_def char_range_w_def points_canon_def)
  show "cr_in c ps \<longleftrightarrow> builtin_class k c"
    using k
  proof (elim disjE)
    assume k: "k = 1"
    then have "ps = tl char_range_s"
      by (simp add: ps_def char_range_table_def)
    then show ?thesis
      using is_space_loop_in [OF points_canon_ok [OF c], of c] k by (simp add: builtin_class_def lre_is_space_def)
  qed (use le_succ [of "0x39" c] le_succ [of "0x5a" c] le_succ [of "0x5f" c] le_succ [of "0x7a" c] in
      \<open>auto simp: ps_def char_range_table_def char_range_d_def char_range_w_def builtin_class_def is_word_char_def
        UINT32_MAX_def\<close>)
qed

text \<open>C18: The built-in classes are what they are named after: \<open>\d\<close> the digits, \<open>\s\<close> the white space that
  \<open>lre_is_space\<close> tests, \<open>\w\<close> the word characters of the interpreter's \<open>\b\<close>, and \<open>\D \S \W\<close> their
  complements, as canonical ranges. \<open>cr_init_char_range\<close> returns 0 with such a range; it returns -1
  only with an allocator that can fail.\<close>

theorem builtin_classes_are_correct:
  assumes "realloc_law (cr_alloc s)" and "k < 6"
  shows "\<exists>r cr. cr_init_char_range s k = Some (r, cr) \<and>
    (r = 0 \<and> cr_wf cr \<and> points_canon (cr_data cr) \<and>
      (\<forall>c < UINT32_MAX. cr_in c (cr_data cr) \<longleftrightarrow> (if odd k then \<not> builtin_class (k div 2) c else builtin_class (k div 2) c))
     \<or> r = -1 \<and> \<not> alloc_total (cr_alloc s))"
proof -
  let ?ps = "tl (char_range_table ! (k div 2))"
  have k: "k div 2 < 3"
    using assms(2) by simp
  note b = builtin_points [OF k]
  have rd: "rd char_range_table (k div 2) = Some (char_range_table ! (k div 2))"
    using k by (simp add: char_range_table_def)
  have n: "unat (of_nat (length ?ps div 2) :: u32) = length ?ps div 2"
    using b(3) by (simp add: unsigned_of_nat take_bit_nat_eq_self)
  have ev: "length ?ps div 2 * 2 = length ?ps"
    using b(2) by (simp add: points_canon_def)
  have init: "cr_wf (cr_init (cr_alloc s))" "cr_data (cr_init (cr_alloc s)) = []"
    using assms(1) by (simp_all add: cr_wf_def cr_init_def cr_data_def)
  obtain r cr where cr: "cr_add_points (cr_init (cr_alloc s)) ?ps = Some (r, cr)"
      "r = 0 \<longrightarrow> cr_wf cr \<and> cr_data cr = ?ps"
    using cr_add_points_cases [OF init(1), of ?ps] init(2) by auto
  have eq: "cr_init_char_range s k =
      (if r \<noteq> 0 then Some (-1, cr) else if odd k then do { (r, cr) \<leftarrow> cr_invert cr; Some (if r \<noteq> 0 then -1 else 0, cr) }
       else Some (0, cr))"
    unfolding cr_init_char_range_def rd using cr(1) n ev
    by (subst (1) b(1)) (subst (2) b(1), simp)
  have kept: "cr_kept (cr_init (cr_alloc s)) r cr" using cr_add_points_kept [OF cr(1)] .
  have al: "cr_realloc_func (cr_init (cr_alloc s)) = cr_alloc s" by (simp add: cr_init_def)
  show ?thesis
  proof (cases "r = 0")
    case True
    then have wf: "cr_wf cr" and data: "cr_data cr = ?ps"
      using cr(2) by auto
    have f: "cr_realloc_func cr = cr_alloc s" using kept al by (simp add: cr_kept_def)
    obtain q cr2 where q: "cr_invert cr = Some (q, cr2)" "cr_wf cr2"
      "q = 0 \<and> points_canon (cr_data cr2) \<and>
         (\<forall>c < UINT32_MAX. cr_in c (cr_data cr2) \<longleftrightarrow> \<not> cr_in c ?ps) \<or> q = -1 \<and> cr2 = cr"
      using cr_invert_cases [OF wf, unfolded data, OF points_canon_ok [OF b(2)]] by blast
    have "alloc_total (cr_alloc s) \<longrightarrow> q = 0"
      using cr_invert_kept [OF q(1)] f by (simp add: cr_kept_def)
    then show ?thesis
      using q b(2,4) wf True data unfolding eq by auto
  qed (use eq kept al in \<open>auto simp: cr_kept_def\<close>)
qed

section \<open>Examples\<close>

definition empty_parser :: REParseState where
  "empty_parser = \<lparr>byte_code = dbuf_init2 zrealloc, buf_ptr = 0, pattern = [0], buf_end = 0, ps_utf16 = False,
     ps_ignore_case = False, dotall = False, captures = 1, total_capture_count = -1,
     has_named_captures = -1, group_names = dbuf_init2 zrealloc, cr_alloc = zrealloc\<rparr>"

definition sample_class :: CharRange where
  "sample_class = \<lparr>cr_len = 4, cr_size = 4, cr_points = [0x30, 0x3a, 0x61, 0xffffffff], cr_realloc_func = zrealloc\<rparr>"

definition sample_class_code :: "u8 list" where
  "sample_class_code = [21, 2, 0, 0x30, 0, 0x39, 0, 0x61, 0, 0xff, 0xff]"

definition class_context :: re_context where
  "class_context = \<lparr>cbuf = [0xd83d, 0xde00], cbuf_type = 2, bc_buf = sample_class_code, capture_count = 1,
     stack_size_max = 0, multi_line = False, ignore_case = False, is_utf16 = True, re_alloc = (\<lambda>_. True)\<rparr>"

lemma sample_class_emitted:
  "\<exists>s'. re_emit_range empty_parser sample_class = Some (Inr s') \<and> \<not> db_error (byte_code s') \<and>
     dbuf_data (byte_code s') = sample_class_code"
proof -
  have "case re_emit_range empty_parser sample_class of
      Some (Inr s') \<Rightarrow> \<not> db_error (byte_code s') \<and> dbuf_data (byte_code s') = sample_class_code | _ \<Rightarrow> False"
    by code_simp
  then show ?thesis
    by (auto split: option.splits sum.splits)
qed

theorem class_code_matches_class_witness:
  "\<exists>op s'. re_emit_range empty_parser sample_class = Some (Inr s') \<and> fetch class_context 0 = Some op \<and>
     simple_op class_context op 1 0 =
       Some (if cr_in 0x1f600 (cr_data sample_class) then Some (db_size (byte_code s'), 2) else None)"
proof -
  obtain s' where s': "re_emit_range empty_parser sample_class = Some (Inr s')" "\<not> db_error (byte_code s')"
      "dbuf_data (byte_code s') = sample_class_code"
    using sample_class_emitted by blast
  have "bc_buf class_context = dbuf_data (byte_code s') @ []"
    by (simp add: s'(3) class_context_def)
  moreover have "dbuf_wf (byte_code empty_parser)" "db_size (byte_code empty_parser) = 0"
    by (simp_all add: empty_parser_def dbuf_init2_wf, simp add: dbuf_init2_def)
  moreover have "cr_wf sample_class" "points_canon (cr_data sample_class)" "cr_len sample_class div 2 < 65535"
    by (simp_all add: sample_class_def cr_wf_def cr_data_def points_canon_def)
  moreover have "get_char_ic class_context 0 = Some (0x1f600, 2)" "0 < cbuf_end class_context"
    by code_simp+
  moreover have "(0x1f600 :: u32) < UINT32_MAX"
    by (simp add: UINT32_MAX_def)
  ultimately show ?thesis
    using class_code_matches_class [of empty_parser sample_class s' class_context "[]" 0 "0x1f600" 2] s'(1,2)
    by auto
qed

theorem builtin_classes_are_correct_witness:
  "\<exists>cr. cr_init_char_range empty_parser 5 = Some (0, cr) \<and> cr_wf cr \<and> points_canon (cr_data cr) \<and>
      (\<forall>c < UINT32_MAX. cr_in c (cr_data cr) \<longleftrightarrow> (if odd (5 :: nat) then \<not> builtin_class (5 div 2) c else builtin_class (5 div 2) c))"
proof -
  have "realloc_law (cr_alloc empty_parser)" "alloc_total (cr_alloc empty_parser)"
    by (simp_all add: empty_parser_def)
  then show ?thesis
    using builtin_classes_are_correct [of empty_parser 5] by auto
qed

end
