(* ===== verification/UnicodeProps.thy ===== *)
theory UnicodeProps
  imports CaseConv UnicodePropTables
begin

text \<open>
  Sets of code points by name (\<^verbatim>\<open>unicode_find_name\<close>, \<^verbatim>\<open>unicode_script\<close>,
  \<^verbatim>\<open>unicode_general_category\<close>, \<^verbatim>\<open>unicode_case1\<close>, the stack machine \<^verbatim>\<open>unicode_prop_ops\<close> and
  \<^verbatim>\<open>unicode_prop\<close> of \<^verbatim>\<open>libunicode.c\<close>). A read outside a table, a failed assertion
  and a call that does not return are \<open>None\<close>.
\<close>

section \<open>Names\<close>

text \<open>The length of the name at \<open>p\<close>, and whether a comma ends it (\<^verbatim>\<open>strchr\<close>, \<^verbatim>\<open>strlen\<close>).\<close>

function name_span :: "string \<Rightarrow> nat \<Rightarrow> nat \<Rightarrow> (nat \<times> bool) option" where
  "name_span t p len =
     (case rd t (p + len) of
        None \<Rightarrow> None
      | Some ch \<Rightarrow>
          if ch = CHR '','' then Some (len, True)
          else if ch = CHR 0x00 then Some (len, False)
          else name_span t p (len + 1))"
  by pat_completeness auto
termination by (relation "measure (\<lambda>(t, p, len). length t - (p + len))") (auto simp: rd_Some_iff)

declare name_span.simps [simp del]

lemma name_span_in: "name_span t p len = Some (l, b) \<Longrightarrow> len \<le> l \<and> p + l < length t"
proof (induction t p len rule: name_span.induct)
  case (1 t p len)
  then show ?case
    by (cases "rd t (p + len)") (auto simp: name_span.simps [of t p len] rd_Some_iff split: if_splits)
qed

text \<open>The outer and the inner loop of \<^verbatim>\<open>unicode_find_name\<close>.\<close>

function (sequential) name_outer :: "string \<Rightarrow> string \<Rightarrow> nat \<Rightarrow> int \<Rightarrow> int option"
  and name_inner :: "string \<Rightarrow> string \<Rightarrow> nat \<Rightarrow> int \<Rightarrow> int option" where
  "name_outer t name p pos =
     (case rd t p of
        None \<Rightarrow> None
      | Some ch \<Rightarrow> if ch = CHR 0x00 then Some (-1) else name_inner t name p pos)"
| "name_inner t name p pos =
     (case name_span t p 0 of
        None \<Rightarrow> None
      | Some (len, comma) \<Rightarrow>
          if len = length name \<and> take len (drop p t) = name then Some pos
          else if comma then name_inner t name (p + len + 1) pos
          else name_outer t name (p + len + 1) (pos + 1))"
  by pat_completeness auto
termination
  by (relation "measure (\<lambda>x. case x of Inl (t, name, p, pos) \<Rightarrow> 2 * (length t - p) + 1
      | Inr (t, name, p, pos) \<Rightarrow> 2 * (length t - p))")
    (auto dest!: name_span_in)

declare name_outer.simps [simp del] name_inner.simps [simp del]

definition unicode_find_name :: "string \<Rightarrow> string \<Rightarrow> int option" where
  "unicode_find_name name_table name = name_outer name_table name 0 0"

section \<open>Tables of runs with a value\<close>

text \<open>The loop that scripts, script extensions and general categories share: \<open>entry\<close> decodes
  the run at a position into its length less one, its value and the number of bytes after the
  first; \<open>add\<close> is what the body does with the run.\<close>

function run_loop :: "(u8 list \<Rightarrow> nat \<Rightarrow> (u32 \<times> 'v \<times> nat) option) \<Rightarrow>
    ('v \<Rightarrow> CharRange \<Rightarrow> u32 \<Rightarrow> u32 \<Rightarrow> (int \<times> CharRange) option) \<Rightarrow>
    CharRange \<Rightarrow> u8 list \<Rightarrow> nat \<Rightarrow> u32 \<Rightarrow> (int \<times> CharRange) option" where
  "run_loop entry add cr t p c =
     (if p < length t then
        (case entry t p of
           None \<Rightarrow> None
         | Some (n, v, k) \<Rightarrow>
             (case add v cr c (c + n + 1) of
                None \<Rightarrow> None
              | Some (r, cr1) \<Rightarrow>
                  if r \<noteq> 0 then Some (-1, cr1)
                  else run_loop entry add cr1 t (p + 1 + k) (c + n + 1)))
      else Some (0, cr))"
  by pat_completeness auto
termination by (relation "measure (\<lambda>(entry, add, cr, t, p, c). length t - p)") auto

declare run_loop.simps [simp del]

text \<open>A length in one, two or three bytes, from the byte \<open>n\<close> on: up to \<open>lo\<close> alone, up to
  \<open>hi\<close> with one more byte. The result has the number of bytes used after the first.\<close>

definition var_len :: "u8 list \<Rightarrow> nat \<Rightarrow> u32 \<Rightarrow> u32 \<Rightarrow> u32 \<Rightarrow> u32 \<Rightarrow> (u32 \<times> nat) option" where
  "var_len t p n lo hi big =
     (if n < lo then Some (n, 0)
      else if n < hi then do {
        p0 \<leftarrow> rd t (p + 1);
        Some ((push_bit 8 (n - lo) OR ucast p0) + lo, 1) }
      else do {
        p0 \<leftarrow> rd t (p + 1); p1 \<leftarrow> rd t (p + 2);
        Some ((push_bit 16 (n - hi) OR push_bit 8 (ucast p0) OR ucast p1) + (lo + big), 2) })"

definition script_entry :: "u8 list \<Rightarrow> nat \<Rightarrow> (u32 \<times> u32 \<times> nat) option" where
  "script_entry t p = do {
     b8 \<leftarrow> rd t p;
     let b = (ucast b8 :: u32);
     (n, k) \<leftarrow> var_len t p (b AND 0x7f) 96 112 (push_bit 12 1);
     if drop_bit 7 b = 0 then Some (n, 0, k)
     else do { v \<leftarrow> rd t (p + 1 + k); Some (n, ucast v, k + 1) } }"

text \<open>The value of a run of the script extensions is the part of the table with its scripts.\<close>

definition script_ext_entry :: "u8 list \<Rightarrow> nat \<Rightarrow> (u32 \<times> (nat \<times> nat) \<times> nat) option" where
  "script_ext_entry t p = do {
     b \<leftarrow> rd t p;
     (n, k) \<leftarrow> var_len t p (ucast b) 128 (128 + 64) (push_bit 14 1);
     v_len \<leftarrow> rd t (p + 1 + k);
     Some (n, (p + 1 + k + 1, unat v_len), k + 1 + unat v_len) }"

definition gc_entry :: "u8 list \<Rightarrow> nat \<Rightarrow> (u32 \<times> u32 \<times> nat) option" where
  "gc_entry t p = do {
     b8 \<leftarrow> rd t p;
     let b = (ucast b8 :: u32);
     let n = drop_bit 5 b;
     let v = b AND 0x1f;
     if n = 7 then do {
       n1 \<leftarrow> rd t (p + 1);
       (n, k) \<leftarrow> var_len t (p + 1) (ucast n1) 128 (128 + 64) (push_bit 14 1);
       Some (n + 7, v, k + 1) }
     else Some (n, v, 0) }"

section \<open>Scripts\<close>

definition UNICODE_SCRIPT_Unknown :: u32 where "UNICODE_SCRIPT_Unknown = 0"
definition UNICODE_SCRIPT_Common :: u32 where "UNICODE_SCRIPT_Common = 25"
definition UNICODE_SCRIPT_Inherited :: u32 where "UNICODE_SCRIPT_Inherited = 55"

definition script_add :: "u32 \<Rightarrow> u32 \<Rightarrow> CharRange \<Rightarrow> u32 \<Rightarrow> u32 \<Rightarrow> (int \<times> CharRange) option" where
  "script_add script_idx v cr c c1 = (if v = script_idx then cr_add_interval cr c c1 else Some (0, cr))"

function ext_has :: "u8 list \<Rightarrow> nat \<Rightarrow> nat \<Rightarrow> nat \<Rightarrow> u32 \<Rightarrow> bool option" where
  "ext_has t q i v_len script_idx =
     (if i < v_len then
        (case rd t (q + i) of
           None \<Rightarrow> None
         | Some x \<Rightarrow> if ucast x = script_idx then Some True else ext_has t q (i + 1) v_len script_idx)
      else Some False)"
  by pat_completeness auto
termination by (relation "measure (\<lambda>(t, q, i, v_len, script_idx). v_len - i)") auto

declare ext_has.simps [simp del]

definition script_ext_add :: "u8 list \<Rightarrow> bool \<Rightarrow> u32 \<Rightarrow> nat \<times> nat \<Rightarrow> CharRange \<Rightarrow> u32 \<Rightarrow> u32 \<Rightarrow>
    (int \<times> CharRange) option" where
  "script_ext_add t is_common script_idx = (\<lambda>(q, v_len) cr c c1.
     if is_common then (if v_len \<noteq> 0 then cr_add_interval cr c c1 else Some (0, cr))
     else do {
       b \<leftarrow> ext_has t q 0 v_len script_idx;
       if b then cr_add_interval cr c c1 else Some (0, cr) })"

text \<open>The code behind the label \<^verbatim>\<open>fail\<close> ends with \<^verbatim>\<open>goto fail\<close>: it never returns.\<close>

partial_function (option) script_fail :: "CharRange \<Rightarrow> (int \<times> CharRange) option" where
  "script_fail cr = script_fail cr"

definition unicode_script :: "CharRange \<Rightarrow> string \<Rightarrow> bool \<Rightarrow> (int \<times> CharRange) option" where
  "unicode_script cr script_name is_ext = do {
     idx \<leftarrow> unicode_find_name unicode_script_name_table script_name;
     if idx < 0 then Some (-2, cr)
     else do {
       let script_idx = word_of_int idx + (UNICODE_SCRIPT_Unknown + 1);
       let is_common = (script_idx = UNICODE_SCRIPT_Common \<or> script_idx = UNICODE_SCRIPT_Inherited);
       let cr1 = (if is_ext then cr_init (cr_realloc_func cr) else cr);
       (r, cr1) \<leftarrow> run_loop script_entry (script_add script_idx) cr1 unicode_script_table 0 0;
       if r \<noteq> 0 then script_fail cr
       else if \<not> is_ext then Some (0, cr1)
       else do {
         (r, cr2) \<leftarrow> run_loop script_ext_entry (script_ext_add unicode_script_ext_table is_common script_idx)
                       (cr_init (cr_realloc_func cr)) unicode_script_ext_table 0 0;
         if r \<noteq> 0 then script_fail cr
         else if is_common then do {
           (r, cr2) \<leftarrow> cr_invert cr2;
           if r \<noteq> 0 then script_fail cr
           else do {
             (r, cr) \<leftarrow> cr_op cr (cr_data cr1) (cr_data cr2) CR_OP_INTER;
             if r \<noteq> 0 then script_fail cr else Some (0, cr) } }
         else do {
           (r, cr) \<leftarrow> cr_op cr (cr_data cr1) (cr_data cr2) CR_OP_UNION;
           if r \<noteq> 0 then script_fail cr else Some (0, cr) } } } }"

section \<open>General categories\<close>

text \<open>\<open>GC_m i\<close> is \<^verbatim>\<open>M(id)\<close> for the category numbered \<open>i\<close>.\<close>

abbreviation (input) GC_Cn :: nat where "GC_Cn \<equiv> 0"
abbreviation (input) GC_Lu :: nat where "GC_Lu \<equiv> 1"
abbreviation (input) GC_Ll :: nat where "GC_Ll \<equiv> 2"
abbreviation (input) GC_Lt :: nat where "GC_Lt \<equiv> 3"
abbreviation (input) GC_Lm :: nat where "GC_Lm \<equiv> 4"
abbreviation (input) GC_Lo :: nat where "GC_Lo \<equiv> 5"
abbreviation (input) GC_Mn :: nat where "GC_Mn \<equiv> 6"
abbreviation (input) GC_Mc :: nat where "GC_Mc \<equiv> 7"
abbreviation (input) GC_Me :: nat where "GC_Me \<equiv> 8"
abbreviation (input) GC_Nd :: nat where "GC_Nd \<equiv> 9"
abbreviation (input) GC_Nl :: nat where "GC_Nl \<equiv> 10"
abbreviation (input) GC_No :: nat where "GC_No \<equiv> 11"
abbreviation (input) GC_Sm :: nat where "GC_Sm \<equiv> 12"
abbreviation (input) GC_Sc :: nat where "GC_Sc \<equiv> 13"
abbreviation (input) GC_Sk :: nat where "GC_Sk \<equiv> 14"
abbreviation (input) GC_So :: nat where "GC_So \<equiv> 15"
abbreviation (input) GC_Pc :: nat where "GC_Pc \<equiv> 16"
abbreviation (input) GC_Pd :: nat where "GC_Pd \<equiv> 17"
abbreviation (input) GC_Ps :: nat where "GC_Ps \<equiv> 18"
abbreviation (input) GC_Pe :: nat where "GC_Pe \<equiv> 19"
abbreviation (input) GC_Pi :: nat where "GC_Pi \<equiv> 20"
abbreviation (input) GC_Pf :: nat where "GC_Pf \<equiv> 21"
abbreviation (input) GC_Po :: nat where "GC_Po \<equiv> 22"
abbreviation (input) GC_Zs :: nat where "GC_Zs \<equiv> 23"
abbreviation (input) GC_Zl :: nat where "GC_Zl \<equiv> 24"
abbreviation (input) GC_Zp :: nat where "GC_Zp \<equiv> 25"
abbreviation (input) GC_Cc :: nat where "GC_Cc \<equiv> 26"
abbreviation (input) GC_Cf :: nat where "GC_Cf \<equiv> 27"
abbreviation (input) GC_Cs :: nat where "GC_Cs \<equiv> 28"
abbreviation (input) GC_Co :: nat where "GC_Co \<equiv> 29"
abbreviation (input) GC_LC :: nat where "GC_LC \<equiv> 30"

text \<open>The masks: \<^verbatim>\<open>M(a) | M(b) | ...\<close>.\<close>

definition gc_mask_of :: "nat list \<Rightarrow> u32" where
  "gc_mask_of ids = foldr (\<lambda>i m. push_bit i 1 OR m) ids 0"

text \<open>Every second code of a run of alternating upper and lower case letters. Near the largest
  32-bit code the counter wraps around and the loop need not end.\<close>

partial_function (option) alternate_loop :: "CharRange \<Rightarrow> u32 \<Rightarrow> u32 \<Rightarrow> (int \<times> CharRange) option" where
  "alternate_loop cr c0 c =
     (if c0 < c then
        Option.bind (cr_add_interval cr c0 (c0 + 1))
          (\<lambda>(r, cr1). if r \<noteq> 0 then Some (-1, cr1) else alternate_loop cr1 (c0 + 2) c)
      else Some (0, cr))"

declare alternate_loop.simps [code]

definition gc_add :: "u32 \<Rightarrow> u32 \<Rightarrow> CharRange \<Rightarrow> u32 \<Rightarrow> u32 \<Rightarrow> (int \<times> CharRange) option" where
  "gc_add gc_mask v cr c0 c =
     (if v = 31 then
        let b = gc_mask AND gc_mask_of [GC_Lu, GC_Ll] in
        if b \<noteq> 0 then
          if b = gc_mask_of [GC_Lu, GC_Ll] then cr_add_interval cr c0 c
          else alternate_loop cr (c0 + b2u (gc_mask AND gc_mask_of [GC_Ll] \<noteq> 0)) c
        else Some (0, cr)
      else if drop_bit (unat v) gc_mask AND 1 \<noteq> 0 then cr_add_interval cr c0 c
      else Some (0, cr))"

definition unicode_general_category1 :: "CharRange \<Rightarrow> u32 \<Rightarrow> (int \<times> CharRange) option" where
  "unicode_general_category1 cr gc_mask = run_loop gc_entry (gc_add gc_mask) cr unicode_gc_table 0 0"

definition unicode_gc_mask_table :: "u32 list" where
  "unicode_gc_mask_table = [
     gc_mask_of [GC_Lu, GC_Ll, GC_Lt],
     gc_mask_of [GC_Lu, GC_Ll, GC_Lt, GC_Lm, GC_Lo],
     gc_mask_of [GC_Mn, GC_Mc, GC_Me],
     gc_mask_of [GC_Nd, GC_Nl, GC_No],
     gc_mask_of [GC_Sm, GC_Sc, GC_Sk, GC_So],
     gc_mask_of [GC_Pc, GC_Pd, GC_Ps, GC_Pe, GC_Pi, GC_Pf, GC_Po],
     gc_mask_of [GC_Zs, GC_Zl, GC_Zp],
     gc_mask_of [GC_Cc, GC_Cf, GC_Cs, GC_Co, GC_Cn]]"

definition unicode_general_category :: "CharRange \<Rightarrow> string \<Rightarrow> (int \<times> CharRange) option" where
  "unicode_general_category cr gc_name = do {
     gc_idx \<leftarrow> unicode_find_name unicode_gc_name_table gc_name;
     if gc_idx < 0 then Some (-2, cr)
     else do {
       gc_mask \<leftarrow> (if gc_idx \<le> int GC_Co then Some (push_bit (nat gc_idx) 1)
                   else rd unicode_gc_mask_table (nat gc_idx - GC_LC));
       unicode_general_category1 cr gc_mask } }"

section \<open>Case changes\<close>

definition CASE_U :: u32 where "CASE_U = 1"
definition CASE_L :: u32 where "CASE_L = 2"
definition CASE_F :: u32 where "CASE_F = 4"

definition MR :: "u32 list \<Rightarrow> u32" where
  "MR ts = foldr (\<lambda>i m. push_bit (unat i) 1 OR m) ts 0"

definition tab_run_mask :: "u32 list" where
  "tab_run_mask = [
     MR [RUN_TYPE_U, RUN_TYPE_UF, RUN_TYPE_UL, RUN_TYPE_LSU, RUN_TYPE_U2L_399_EXT2, RUN_TYPE_UF_D20,
         RUN_TYPE_UF_D1_EXT, RUN_TYPE_U_EXT, RUN_TYPE_U_EXT2, 13],
     MR [RUN_TYPE_L, RUN_TYPE_LF, RUN_TYPE_UL, RUN_TYPE_LSU, RUN_TYPE_U2L_399_EXT2, RUN_TYPE_LF_EXT,
         RUN_TYPE_L_EXT2],
     MR [RUN_TYPE_UF, RUN_TYPE_LF, RUN_TYPE_UL, RUN_TYPE_LSU, RUN_TYPE_U2L_399_EXT2, RUN_TYPE_LF_EXT,
         RUN_TYPE_UF_D20, RUN_TYPE_UF_D1_EXT, RUN_TYPE_LF_EXT]]"

definition case_run_mask :: "u32 \<Rightarrow> u32" where
  "case_run_mask case_mask =
     foldr (\<lambda>i m. (if drop_bit i case_mask AND 1 \<noteq> 0 then tab_run_mask ! i else 0) OR m) [0, 1, 2] 0"

text \<open>\<open>add_all\<close> adds intervals in order up to the first failure.\<close>

fun add_all :: "CharRange \<Rightarrow> (u32 \<times> u32) list \<Rightarrow> (int \<times> CharRange) option" where
  "add_all cr [] = Some (0, cr)"
| "add_all cr ((c1, c2) # is) =
     Option.bind (cr_add_interval cr c1 c2) (\<lambda>(r, cr1). if r \<noteq> 0 then Some (-1, cr1) else add_all cr1 is)"

text \<open>The intervals of one run, in the order of the code; in the loop of \<^verbatim>\<open>RUN_TYPE_UL\<close> the counter
  steps by two up to a length below 128.\<close>

definition case1_intervals :: "u32 \<Rightarrow> u32 \<Rightarrow> u32 \<Rightarrow> u32 \<Rightarrow> (u32 \<times> u32) list" where
  "case1_intervals case_mask type code len =
     (let u = case_mask AND CASE_U \<noteq> 0; both = (u \<and> case_mask AND (CASE_L OR CASE_F) \<noteq> 0) in
      if type = RUN_TYPE_UL \<and> \<not> both then
        let code = code + b2u u in
        map (\<lambda>k. (code + 2 * of_nat k, code + 2 * of_nat k + 1)) [0..<(unat len + 1) div 2]
      else if type = RUN_TYPE_LSU \<and> \<not> both then
        (if \<not> u then [(code, code + 1)] else []) @ [(code + 1, code + 2)] @
        (if u then [(code + 2, code + 3)] else [])
      else [(code, code + len)])"

fun case1_loop :: "CharRange \<Rightarrow> u32 \<Rightarrow> u32 \<Rightarrow> u32 list \<Rightarrow> (int \<times> CharRange) option" where
  "case1_loop cr case_mask ty_mask [] = Some (0, cr)"
| "case1_loop cr case_mask ty_mask (v # tab) =
     (let type = run_type v in
      if drop_bit (unat type) ty_mask AND 1 \<noteq> 0 then
        Option.bind (add_all cr (case1_intervals case_mask type (run_code 17 v) (run_len 17 v)))
          (\<lambda>(r, cr1). if r \<noteq> 0 then Some (-1, cr1) else case1_loop cr1 case_mask ty_mask tab)
      else case1_loop cr case_mask ty_mask tab)"

definition unicode_case1 :: "CharRange \<Rightarrow> u32 \<Rightarrow> (int \<times> CharRange) option" where
  "unicode_case1 cr case_mask =
     (if case_mask = 0 then Some (0, cr)
      else case1_loop cr case_mask (case_run_mask case_mask) case_conv_table1)"

section \<open>The stack machine\<close>

datatype prop_op = POP_GC u32 | POP_PROP nat | POP_CASE u32 | POP_OP CharRangeOp | POP_INVERT | POP_END

abbreviation (input) POP_UNION :: prop_op where "POP_UNION \<equiv> POP_OP CR_OP_UNION"
abbreviation (input) POP_INTER :: prop_op where "POP_INTER \<equiv> POP_OP CR_OP_INTER"
abbreviation (input) POP_XOR :: prop_op where "POP_XOR \<equiv> POP_OP CR_OP_XOR"

definition POP_STACK_LEN_MAX :: nat where
  "POP_STACK_LEN_MAX = 4"

definition unicode_prop1_idx :: "CharRange \<Rightarrow> nat \<Rightarrow> (int \<times> CharRange) option" where
  "unicode_prop1_idx cr prop_idx = do { t \<leftarrow> rd unicode_prop_table prop_idx; unicode_prop1 cr t }"

text \<open>One operation that pushes a set: \<open>leaf\<close> fills a new range.\<close>

definition push_leaf :: "CharRange \<Rightarrow> (CharRange \<Rightarrow> (int \<times> CharRange) option) \<Rightarrow> CharRange list \<Rightarrow>
    (int \<times> CharRange list) option" where
  "push_leaf cr leaf stack =
     (if length stack < POP_STACK_LEN_MAX then do {
        (r, cr1) \<leftarrow> leaf (cr_init (cr_realloc_func cr));
        Some (r, stack @ [cr1]) }
      else None)"

text \<open>The body of the switch; a result other than 0 is a jump to \<^verbatim>\<open>fail\<close>.\<close>

fun prop_step :: "CharRange \<Rightarrow> prop_op \<Rightarrow> CharRange list \<Rightarrow> (int \<times> CharRange list) option" where
  "prop_step cr (POP_GC a) stack = push_leaf cr (\<lambda>c. unicode_general_category1 c a) stack"
| "prop_step cr (POP_PROP a) stack = push_leaf cr (\<lambda>c. unicode_prop1_idx c a) stack"
| "prop_step cr (POP_CASE a) stack = push_leaf cr (\<lambda>c. unicode_case1 c a) stack"
| "prop_step cr (POP_OP op) stack =
     (if length stack \<ge> 2 \<and> length stack < POP_STACK_LEN_MAX then do {
        let n = length stack;
        let cr1 = stack ! (n - 2);
        let cr2 = stack ! (n - 1);
        (r, cr3) \<leftarrow> cr_op (cr_init (cr_realloc_func cr)) (cr_data cr1) (cr_data cr2) op;
        Some (r, if r \<noteq> 0 then stack @ [cr3] else take (n - 2) stack @ [cr3]) }
      else None)"
| "prop_step cr POP_INVERT stack =
     (if length stack \<ge> 1 then do {
        (r, cr1) \<leftarrow> cr_invert (last stack);
        Some (r, butlast stack @ [cr1]) }
      else None)"
| "prop_step cr POP_END stack = None"

fun prop_ops_loop :: "CharRange \<Rightarrow> CharRange list \<Rightarrow> prop_op list \<Rightarrow> (int \<times> CharRange) option" where
  "prop_ops_loop cr stack [] = None"
| "prop_ops_loop cr stack (op # ops) =
     (if op = POP_END then
        (if length stack = 1 then cr_copy cr (stack ! 0) else None)
      else do {
        (r, stack) \<leftarrow> prop_step cr op stack;
        if r \<noteq> 0 then Some (-1, cr) else prop_ops_loop cr stack ops })"

definition unicode_prop_ops :: "CharRange \<Rightarrow> prop_op list \<Rightarrow> (int \<times> CharRange) option" where
  "unicode_prop_ops cr ops = prop_ops_loop cr [] ops"

section \<open>Properties by name\<close>

text \<open>The indices of \<^verbatim>\<open>UnicodePropertyEnum\<close> that \<^verbatim>\<open>unicode_prop\<close> names.\<close>

abbreviation (input) PROP_Other_Math :: nat where "PROP_Other_Math \<equiv> 1"
abbreviation (input) PROP_Other_Alphabetic :: nat where "PROP_Other_Alphabetic \<equiv> 2"
abbreviation (input) PROP_Other_Lowercase :: nat where "PROP_Other_Lowercase \<equiv> 3"
abbreviation (input) PROP_Other_Uppercase :: nat where "PROP_Other_Uppercase \<equiv> 4"
abbreviation (input) PROP_Other_Grapheme_Extend :: nat where "PROP_Other_Grapheme_Extend \<equiv> 5"
abbreviation (input) PROP_Other_ID_Start :: nat where "PROP_Other_ID_Start \<equiv> 7"
abbreviation (input) PROP_Other_ID_Continue :: nat where "PROP_Other_ID_Continue \<equiv> 8"
abbreviation (input) PROP_ID_Continue1 :: nat where "PROP_ID_Continue1 \<equiv> 10"
abbreviation (input) PROP_XID_Start1 :: nat where "PROP_XID_Start1 \<equiv> 11"
abbreviation (input) PROP_XID_Continue1 :: nat where "PROP_XID_Continue1 \<equiv> 12"
abbreviation (input) PROP_Changes_When_Titlecased1 :: nat where "PROP_Changes_When_Titlecased1 \<equiv> 13"
abbreviation (input) PROP_Changes_When_Casefolded1 :: nat where "PROP_Changes_When_Casefolded1 \<equiv> 14"
abbreviation (input) PROP_Changes_When_NFKC_Casefolded1 :: nat where "PROP_Changes_When_NFKC_Casefolded1 \<equiv> 15"
abbreviation (input) PROP_ASCII_Hex_Digit :: nat where "PROP_ASCII_Hex_Digit \<equiv> 16"
abbreviation (input) PROP_Pattern_Syntax :: nat where "PROP_Pattern_Syntax \<equiv> 29"
abbreviation (input) PROP_Pattern_White_Space :: nat where "PROP_Pattern_White_Space \<equiv> 30"
abbreviation (input) PROP_ID_Start :: nat where "PROP_ID_Start \<equiv> 48"
abbreviation (input) PROP_ASCII :: nat where "PROP_ASCII \<equiv> 50"
abbreviation (input) PROP_Alphabetic :: nat where "PROP_Alphabetic \<equiv> 51"
abbreviation (input) PROP_Any :: nat where "PROP_Any \<equiv> 52"
abbreviation (input) PROP_Assigned :: nat where "PROP_Assigned \<equiv> 53"
abbreviation (input) PROP_Cased :: nat where "PROP_Cased \<equiv> 54"
abbreviation (input) PROP_Changes_When_Casefolded :: nat where "PROP_Changes_When_Casefolded \<equiv> 55"
abbreviation (input) PROP_Changes_When_Casemapped :: nat where "PROP_Changes_When_Casemapped \<equiv> 56"
abbreviation (input) PROP_Changes_When_Lowercased :: nat where "PROP_Changes_When_Lowercased \<equiv> 57"
abbreviation (input) PROP_Changes_When_NFKC_Casefolded :: nat where "PROP_Changes_When_NFKC_Casefolded \<equiv> 58"
abbreviation (input) PROP_Changes_When_Titlecased :: nat where "PROP_Changes_When_Titlecased \<equiv> 59"
abbreviation (input) PROP_Changes_When_Uppercased :: nat where "PROP_Changes_When_Uppercased \<equiv> 60"
abbreviation (input) PROP_Grapheme_Base :: nat where "PROP_Grapheme_Base \<equiv> 61"
abbreviation (input) PROP_Grapheme_Extend :: nat where "PROP_Grapheme_Extend \<equiv> 62"
abbreviation (input) PROP_ID_Continue :: nat where "PROP_ID_Continue \<equiv> 63"
abbreviation (input) PROP_Lowercase :: nat where "PROP_Lowercase \<equiv> 64"
abbreviation (input) PROP_Math :: nat where "PROP_Math \<equiv> 65"
abbreviation (input) PROP_Uppercase :: nat where "PROP_Uppercase \<equiv> 66"
abbreviation (input) PROP_XID_Continue :: nat where "PROP_XID_Continue \<equiv> 67"
abbreviation (input) PROP_XID_Start :: nat where "PROP_XID_Start \<equiv> 68"

text \<open>The program of the properties that the switch computes with the stack machine.\<close>

definition prop_program :: "nat \<Rightarrow> prop_op list option" where
  "prop_program prop_idx =
     (if prop_idx = PROP_Assigned then Some [POP_GC (gc_mask_of [GC_Cn]), POP_INVERT, POP_END]
      else if prop_idx = PROP_Math then
        Some [POP_GC (gc_mask_of [GC_Sm]), POP_PROP PROP_Other_Math, POP_UNION, POP_END]
      else if prop_idx = PROP_Lowercase then
        Some [POP_GC (gc_mask_of [GC_Ll]), POP_PROP PROP_Other_Lowercase, POP_UNION, POP_END]
      else if prop_idx = PROP_Uppercase then
        Some [POP_GC (gc_mask_of [GC_Lu]), POP_PROP PROP_Other_Uppercase, POP_UNION, POP_END]
      else if prop_idx = PROP_Cased then
        Some [POP_GC (gc_mask_of [GC_Lu, GC_Ll, GC_Lt]), POP_PROP PROP_Other_Uppercase, POP_UNION,
              POP_PROP PROP_Other_Lowercase, POP_UNION, POP_END]
      else if prop_idx = PROP_Alphabetic then
        Some [POP_GC (gc_mask_of [GC_Lu, GC_Ll, GC_Lt, GC_Lm, GC_Lo, GC_Nl]),
              POP_PROP PROP_Other_Uppercase, POP_UNION, POP_PROP PROP_Other_Lowercase, POP_UNION,
              POP_PROP PROP_Other_Alphabetic, POP_UNION, POP_END]
      else if prop_idx = PROP_Grapheme_Base then
        Some [POP_GC (gc_mask_of [GC_Cc, GC_Cf, GC_Cs, GC_Co, GC_Cn, GC_Zl, GC_Zp, GC_Me, GC_Mn]),
              POP_PROP PROP_Other_Grapheme_Extend, POP_UNION, POP_INVERT, POP_END]
      else if prop_idx = PROP_Grapheme_Extend then
        Some [POP_GC (gc_mask_of [GC_Me, GC_Mn]), POP_PROP PROP_Other_Grapheme_Extend, POP_UNION, POP_END]
      else if prop_idx = PROP_XID_Start then
        Some [POP_GC (gc_mask_of [GC_Lu, GC_Ll, GC_Lt, GC_Lm, GC_Lo, GC_Nl]),
              POP_PROP PROP_Other_ID_Start, POP_UNION, POP_PROP PROP_Pattern_Syntax,
              POP_PROP PROP_Pattern_White_Space, POP_UNION, POP_PROP PROP_XID_Start1, POP_UNION,
              POP_INVERT, POP_INTER, POP_END]
      else if prop_idx = PROP_XID_Continue then
        Some [POP_GC (gc_mask_of [GC_Lu, GC_Ll, GC_Lt, GC_Lm, GC_Lo, GC_Nl, GC_Mn, GC_Mc, GC_Nd, GC_Pc]),
              POP_PROP PROP_Other_ID_Start, POP_UNION, POP_PROP PROP_Other_ID_Continue, POP_UNION,
              POP_PROP PROP_Pattern_Syntax, POP_PROP PROP_Pattern_White_Space, POP_UNION,
              POP_PROP PROP_XID_Continue1, POP_UNION, POP_INVERT, POP_INTER, POP_END]
      else if prop_idx = PROP_Changes_When_Titlecased then
        Some [POP_CASE CASE_U, POP_PROP PROP_Changes_When_Titlecased1, POP_XOR, POP_END]
      else if prop_idx = PROP_Changes_When_Casefolded then
        Some [POP_CASE CASE_F, POP_PROP PROP_Changes_When_Casefolded1, POP_XOR, POP_END]
      else if prop_idx = PROP_Changes_When_NFKC_Casefolded then
        Some [POP_CASE CASE_F, POP_PROP PROP_Changes_When_NFKC_Casefolded1, POP_XOR, POP_END]
      else if prop_idx = PROP_ID_Continue then
        Some [POP_PROP PROP_ID_Start, POP_PROP PROP_ID_Continue1, POP_XOR, POP_END]
      else None)"

text \<open>The two additions of a single interval return -1 when they fail, as \<^verbatim>\<open>cr_add_interval\<close> does.\<close>

definition unicode_prop_switch :: "CharRange \<Rightarrow> nat \<Rightarrow> (int \<times> CharRange) option" where
  "unicode_prop_switch cr prop_idx =
     (if prop_idx = PROP_ASCII then cr_add_interval cr 0 (0x7f + 1)
      else if prop_idx = PROP_Any then cr_add_interval cr 0 (0x10ffff + 1)
      else if prop_idx = PROP_Changes_When_Uppercased then unicode_case1 cr CASE_U
      else if prop_idx = PROP_Changes_When_Lowercased then unicode_case1 cr CASE_L
      else if prop_idx = PROP_Changes_When_Casemapped then unicode_case1 cr (CASE_U OR CASE_L OR CASE_F)
      else case prop_program prop_idx of
        Some ops \<Rightarrow> unicode_prop_ops cr ops
      | None \<Rightarrow>
          if prop_idx \<ge> length unicode_prop_table then Some (-2, cr)
          else unicode_prop1_idx cr prop_idx)"

definition unicode_prop :: "CharRange \<Rightarrow> string \<Rightarrow> (int \<times> CharRange) option" where
  "unicode_prop cr prop_name = do {
     prop_idx \<leftarrow> unicode_find_name unicode_prop_name_table prop_name;
     if prop_idx < 0 then Some (-2, cr)
     else unicode_prop_switch cr (nat prop_idx + PROP_ASCII_Hex_Digit) }"

end
