(* ===== verification/RegexpScan.thy ===== *)
theory RegexpScan
  imports RegexpEmit UnicodeProps
begin

text \<open>
  The scanner of regular expressions of \<^verbatim>\<open>libregexp.c\<close>: numbers, escape sequences, Unicode properties,
  characters and classes in brackets, names of groups, and the two searches for groups over the whole
  pattern. Positions are positions of the zero-terminated pattern.
\<close>

text \<open>The code of an ASCII character.\<close>

definition asc :: "char \<Rightarrow> u8" where
  "asc c = of_char c"

text \<open>The message of \<open>re_parse_expect\<close>, with the character in quotes.\<close>

definition expecting :: "char \<Rightarrow> string" where
  "expecting c = ''expecting '' @ [CHR 0x27, c, CHR 0x27]"

definition is_digit :: "u8 \<Rightarrow> bool" where
  "is_digit c \<longleftrightarrow> c \<ge> asc CHR ''0'' \<and> c \<le> asc CHR ''9''"

declare script_fail.simps [code]

section \<open>Numbers and escape sequences\<close>

text \<open>\<open>parse_digits\<close>: the value, or -1, and the new position.\<close>

function parse_digits_loop :: "u8 list \<Rightarrow> nat \<Rightarrow> bool \<Rightarrow> nat \<Rightarrow> int \<Rightarrow> (int \<times> nat) option" where
  "parse_digits_loop pat pp allow_overflow p v =
     (case rd pat p of None \<Rightarrow> None
      | Some c \<Rightarrow>
          if \<not> is_digit c then Some (v, p)
          else let v' = v * 10 + uint c - 0x30 in
            if v' \<ge> 0x7fffffff
            then if allow_overflow then parse_digits_loop pat pp allow_overflow (p + 1) 0x7fffffff else Some (-1, pp)
            else parse_digits_loop pat pp allow_overflow (p + 1) v')"
  by pat_completeness auto
termination
  by (relation "measure (\<lambda>(pat, pp, a, p, v). length pat - p)") (auto simp: rd_Some_iff)

declare parse_digits_loop.simps [simp del]

definition parse_digits :: "u8 list \<Rightarrow> nat \<Rightarrow> bool \<Rightarrow> (int \<times> nat) option" where
  "parse_digits pat p allow_overflow = parse_digits_loop pat p allow_overflow p 0"

text \<open>The loop over the digits of \<open>\u{...}\<close>.\<close>

function hex_brace :: "u8 list \<Rightarrow> nat \<Rightarrow> int \<Rightarrow> (int \<times> nat) option" where
  "hex_brace pat p c =
     (case rd pat p of None \<Rightarrow> None
      | Some b \<Rightarrow>
          if from_hex (uint b) < 0 then Some (-1, p)
          else let c' = push_bit 4 c OR from_hex (uint b) in
            if c' > 0x10FFFF then Some (-1, p)
            else (case rd pat (p + 1) of None \<Rightarrow> None
                  | Some b' \<Rightarrow> if b' = asc CHR ''}'' then Some (c', p + 2) else hex_brace pat (p + 1) c'))"
  by pat_completeness auto
termination
  by (relation "measure (\<lambda>(pat, p, c). length pat - p)") (auto simp: rd_Some_iff)

declare hex_brace.simps [simp del]

text \<open>\<open>n\<close> hexadecimal digits, -1 when one is not.\<close>

fun hex_digits :: "u8 list \<Rightarrow> nat \<Rightarrow> nat \<Rightarrow> int \<Rightarrow> int option" where
  "hex_digits pat p 0 c = Some c"
| "hex_digits pat p (Suc n) c = do {
     b \<leftarrow> rd pat p;
     if from_hex (uint b) < 0 then Some (-1)
     else hex_digits pat (p + 1) n (push_bit 4 c OR from_hex (uint b)) }"

definition hex_escape :: "u8 list \<Rightarrow> nat \<Rightarrow> u8 \<Rightarrow> nat \<Rightarrow> (int \<times> nat) option" where
  "hex_escape pat p c allow_utf16 = do {
     b \<leftarrow> rd pat p;
     if b = asc CHR ''{'' \<and> allow_utf16 \<noteq> 0 then hex_brace pat (p + 1) 0
     else do {
       let n = (if c = asc CHR ''x'' then 2 else 4);
       c \<leftarrow> hex_digits pat p n 0;
       if c < 0 then Some (-1, p)
       else if c \<ge> 0xd800 \<and> c < 0xdc00 \<and> allow_utf16 = 2 then do {
         b0 \<leftarrow> rd pat (p + n);
         b1 \<leftarrow> (if b0 = 0x5c then rd pat (p + n + 1) else Some 0);
         if b0 = 0x5c \<and> b1 = asc CHR ''u'' then do {
           c1 \<leftarrow> hex_digits pat (p + n + 2) 4 0;
           Some (if c1 \<ge> 0xdc00 \<and> c1 < 0xe000
                 then ((push_bit 10 (c AND 0x3ff) OR (c1 AND 0x3ff)) + 0x10000, p + n + 6)
                 else (c, p + n)) }
         else Some (c, p + n) }
       else Some (c, p + n) } }"

definition is_octal :: "u8 \<Rightarrow> bool" where
  "is_octal c \<longleftrightarrow> c \<ge> asc CHR ''0'' \<and> c \<le> asc CHR ''7''"

definition octal_escape :: "u8 list \<Rightarrow> nat \<Rightarrow> int \<Rightarrow> nat \<Rightarrow> (int \<times> nat) option" where
  "octal_escape pat p c allow_utf16 = do {
     b \<leftarrow> rd pat p;
     if allow_utf16 = 2 then Some (if c \<noteq> 0 \<or> is_digit b then (-1, p) else (c, p))
     else if \<not> is_octal b then Some (c, p)
     else do {
       let c = push_bit 3 c OR (uint b - 0x30);
       if c \<ge> 32 then Some (c, p + 1)
       else do {
         b \<leftarrow> rd pat (p + 1);
         Some (if \<not> is_octal b then (c, p + 1) else (push_bit 3 c OR (uint b - 0x30), p + 2)) } } }"

text \<open>\<open>lre_parse_escape\<close>: the character, -1 or -2, and the new position; an error leaves the
  position of the caller alone.\<close>

definition lre_parse_escape :: "u8 list \<Rightarrow> nat \<Rightarrow> nat \<Rightarrow> (int \<times> nat) option" where
  "lre_parse_escape pat pp allow_utf16 = do {
     c \<leftarrow> rd pat pp;
     let p = pp + 1;
     (r, p') \<leftarrow>
       (if c = asc CHR ''b'' then Some (8, p)
        else if c = asc CHR ''f'' then Some (12, p)
        else if c = asc CHR ''n'' then Some (10, p)
        else if c = asc CHR ''r'' then Some (13, p)
        else if c = asc CHR ''t'' then Some (9, p)
        else if c = asc CHR ''v'' then Some (11, p)
        else if c = asc CHR ''x'' \<or> c = asc CHR ''u'' then hex_escape pat p c allow_utf16
        else if is_octal c then octal_escape pat p (uint c - 0x30) allow_utf16
        else Some (-2, p));
     Some (r, if r < 0 then pp else p') }"

section \<open>Unicode properties\<close>

definition is_unicode_char :: "u8 \<Rightarrow> bool" where
  "is_unicode_char c \<longleftrightarrow> is_digit c \<or> (c \<ge> asc CHR ''A'' \<and> c \<le> asc CHR ''Z'') \<or>
     (c \<ge> asc CHR ''a'' \<and> c \<le> asc CHR ''z'') \<or> c = asc CHR ''_''"

text \<open>A name of at most 63 characters; the inner \<open>None\<close> when it is longer.\<close>

function property_name :: "u8 list \<Rightarrow> nat \<Rightarrow> string \<Rightarrow> (string \<times> nat) option option" where
  "property_name pat p q =
     (case rd pat p of None \<Rightarrow> None
      | Some c \<Rightarrow>
          if \<not> is_unicode_char c then Some (Some (q, p))
          else if int (length q) \<ge> 63 then Some None
          else property_name pat (p + 1) (q @ [char_of (unat c)]))"
  by pat_completeness auto
termination
  by (relation "measure (\<lambda>(pat, p, q). length pat - p)") (auto simp: rd_Some_iff)

declare property_name.simps [simp del]

abbreviation unknown_property_name :: "'a parsed" where
  "unknown_property_name \<equiv> re_parse_error ''unknown unicode property name''"

text \<open>The set that \<open>name\<close> and \<open>value\<close> stand for.\<close>

definition property_set :: "REParseState \<Rightarrow> string \<Rightarrow> string \<Rightarrow> CharRange parsed" where
  "property_set s name val =
     (let cr = cr_init (cr_alloc s); script = (\<lambda>script_ext. do {
          (ret, cr) \<leftarrow> unicode_script cr val script_ext;
          if ret = 0 then ok cr
          else if ret = -2 then re_parse_error ''unknown unicode script'' else re_parse_out_of_memory })
      in if name = ''Script'' \<or> name = ''sc'' then script False
         else if name = ''Script_Extensions'' \<or> name = ''scx'' then script True
         else if name = ''General_Category'' \<or> name = ''gc'' then do {
           (ret, cr) \<leftarrow> unicode_general_category cr val;
           if ret = 0 then ok cr
           else if ret = -2 then re_parse_error ''unknown unicode general category'' else re_parse_out_of_memory }
         else if val = [] then do {
           (ret, cr) \<leftarrow> unicode_general_category cr name;
           if ret = -1 then re_parse_out_of_memory
           else if ret < 0 then do {
             (ret, cr) \<leftarrow> unicode_prop cr name;
             if ret = 0 then ok cr
             else if ret = -2 then unknown_property_name else re_parse_out_of_memory }
           else ok cr }
         else unknown_property_name)"

definition parse_unicode_property :: "REParseState \<Rightarrow> nat \<Rightarrow> bool \<Rightarrow> (CharRange \<times> nat) parsed" where
  "parse_unicode_property s p is_inv = (let pat = pattern s in do {
     b \<leftarrow> rd pat p;
     if b \<noteq> asc CHR ''{'' then re_parse_error (expecting CHR ''{'' @ '' after '' @ [CHR 0x5C, CHR ''p''])
     else do {
       name \<leftarrow> property_name pat (p + 1) [];
       case name of None \<Rightarrow> unknown_property_name
       | Some (name, p) \<Rightarrow> do {
           b \<leftarrow> rd pat p;
           val \<leftarrow> (if b = asc CHR ''='' then property_name pat (p + 1) [] else Some (Some ([], p)));
           case val of None \<Rightarrow> re_parse_error ''unknown unicode property value''
           | Some (val, p) \<Rightarrow> do {
               b \<leftarrow> rd pat p;
               if b \<noteq> asc CHR ''}'' then re_parse_error (expecting CHR ''}'')
               else and_then (property_set s name val) (\<lambda>cr.
                 if is_inv then do { (r, cr) \<leftarrow> cr_invert cr; if r \<noteq> 0 then re_parse_error [] else ok (cr, p + 1) }
                 else ok (cr, p + 1)) } } } })"

section \<open>Characters and classes\<close>

definition CLASS_RANGE_BASE :: u32 where
  "CLASS_RANGE_BASE = 0x40000000"

text \<open>The character at \<open>p\<close>, its first byte being \<open>c\<close>.\<close>

definition normal_char_at :: "REParseState \<Rightarrow> nat \<Rightarrow> u8 \<Rightarrow> (u32 \<times> CharRange option \<times> nat) parsed" where
  "normal_char_at s p c =
     (if c \<ge> 128 then do {
        (v, p') \<leftarrow> unicode_from_utf8 (pattern s) p 6;
        if (v < 0 \<or> v > 0xffff) \<and> \<not> ps_utf16 s then re_parse_error ''malformed unicode char''
        else if v < 0 then re_parse_error []
        else ok (word_of_int v, None, p') }
      else ok (ucast c, None, p + 1))"

abbreviation invalid_escape :: "'a parsed" where
  "invalid_escape \<equiv> re_parse_error ''invalid escape sequence in regular expression''"

definition escapable :: "u8 list" where
  "escapable = map asc (''^$'' @ [CHR 0x5C] @ ''.*+?()[]{}|/'')"

definition class_letters :: "u8 list" where
  "class_letters = map asc ''dDsSwW''"

text \<open>A character, or a class with its range.\<close>

definition get_class_atom :: "REParseState \<Rightarrow> nat \<Rightarrow> bool \<Rightarrow> (u32 \<times> CharRange option \<times> nat) parsed" where
  "get_class_atom s p inclass = (let pat = pattern s in do {
     c \<leftarrow> rd pat p;
     if c = 0x5c then
       if p + 1 \<ge> buf_end s then re_parse_error ''unexpected end''
       else do {
         c \<leftarrow> rd pat (p + 1);
         if c \<in> set class_letters then do {
           (r, cr) \<leftarrow> cr_init_char_range s (length (takeWhile (\<lambda>x. x \<noteq> c) class_letters));
           if r \<noteq> 0 then re_parse_error [] else ok (CLASS_RANGE_BASE, Some cr, p + 2) }
         else if c = asc CHR ''c'' then do {
           c \<leftarrow> rd pat (p + 2);
           if (c \<ge> asc CHR ''a'' \<and> c \<le> asc CHR ''z'') \<or> (c \<ge> asc CHR ''A'' \<and> c \<le> asc CHR ''Z'') \<or>
              ((is_digit c \<or> c = asc CHR ''_'') \<and> inclass \<and> \<not> ps_utf16 s)
           then ok (ucast c AND 0x1f, None, p + 3)
           else if ps_utf16 s then invalid_escape
           else ok (0x5c, None, p + 1) }
         else if (c = asc CHR ''p'' \<or> c = asc CHR ''P'') \<and> ps_utf16 s
         then and_then (parse_unicode_property s (p + 2) (c = asc CHR ''P''))
                (\<lambda>(cr, p). ok (CLASS_RANGE_BASE, Some cr, p))
         else do {
           (ret, p') \<leftarrow> lre_parse_escape pat (p + 1) (if ps_utf16 s then 2 else 0);
           if ret \<ge> 0 then ok (word_of_int ret, None, p')
           else if ret = -2 \<and> c \<noteq> 0 \<and> c \<in> set escapable then normal_char_at s (p + 1) c
           else if ps_utf16 s then invalid_escape
           else normal_char_at s (p + 1) c } }
     else if c = 0 \<and> p \<ge> buf_end s then re_parse_error ''unexpected end''
     else normal_char_at s p c })"

text \<open>One member of a class in brackets.\<close>

abbreviation invalid_class_range :: "'a parsed" where
  "invalid_class_range \<equiv> re_parse_error ''invalid class range''"

definition add_to_class :: "(int \<times> CharRange) option \<Rightarrow> nat \<Rightarrow> (CharRange \<times> nat) parsed" where
  "add_to_class m p = do { (r, cr) \<leftarrow> m; if r \<noteq> 0 then re_parse_out_of_memory else ok (cr, p) }"

definition class_atom :: "CharRange \<Rightarrow> u32 \<Rightarrow> CharRange option \<Rightarrow> nat \<Rightarrow> (CharRange \<times> nat) parsed" where
  "class_atom cr c1 cr1 p =
     (if c1 \<ge> CLASS_RANGE_BASE then do { cr1 \<leftarrow> cr1; add_to_class (cr_union1 cr (cr_data cr1)) p }
      else add_to_class (cr_union_interval cr c1 c1) p)"

definition class_member :: "REParseState \<Rightarrow> CharRange \<Rightarrow> nat \<Rightarrow> (CharRange \<times> nat) parsed" where
  "class_member s cr p = (let pat = pattern s in and_then (get_class_atom s p True) (\<lambda>(c1, cr1, p). do {
     b0 \<leftarrow> rd pat p;
     b1 \<leftarrow> (if b0 = asc CHR ''-'' then rd pat (p + 1) else Some 0);
     if b0 = asc CHR ''-'' \<and> b1 \<noteq> asc CHR '']''
     then if c1 \<ge> CLASS_RANGE_BASE
          then if ps_utf16 s then invalid_class_range else class_atom cr c1 cr1 p
          else and_then (get_class_atom s (p + 1) True) (\<lambda>(c2, cr2, p0).
            if c2 \<ge> CLASS_RANGE_BASE
            then if ps_utf16 s then invalid_class_range else class_atom cr c1 cr1 p
            else if c2 < c1 then invalid_class_range
            else add_to_class (cr_union_interval cr c1 c2) p0)
     else class_atom cr c1 cr1 p }))"

partial_function (option) class_members ::
  "REParseState \<Rightarrow> CharRange \<Rightarrow> nat \<Rightarrow> (string + CharRange \<times> nat) option" where
  "class_members s cr p = do {
     b \<leftarrow> rd (pattern s) p;
     if b = asc CHR '']'' then Some (Inr (cr, p))
     else do {
       r \<leftarrow> class_member s cr p;
       case r of Inl e \<Rightarrow> Some (Inl e) | Inr (cr, p) \<Rightarrow> class_members s cr p } }"

declare class_members.simps [code]

definition re_parse_char_class :: "REParseState \<Rightarrow> nat \<Rightarrow> (REParseState \<times> nat) parsed" where
  "re_parse_char_class s p = do {
     b \<leftarrow> rd (pattern s) (p + 1);
     let invert = (b = asc CHR ''^'');
     and_then (class_members s (cr_init (cr_alloc s)) (if invert then p + 2 else p + 1)) (\<lambda>(cr, p). do {
       (r, cr) \<leftarrow> (if ps_ignore_case s then cr_canonicalize cr else Some (0, cr));
       if r \<noteq> 0 then re_parse_out_of_memory
       else do {
         (r, cr) \<leftarrow> (if invert then cr_invert cr else Some (0, cr));
         if r \<noteq> 0 then re_parse_out_of_memory
         else and_then (re_emit_range s cr) (\<lambda>s. ok (s, p + 1)) } }) }"

section \<open>Groups\<close>

definition lre_id_start_table_ascii :: "u32 list" where
  "lre_id_start_table_ascii = [0x00000000, 0x00000010, 0x87FFFFFE, 0x07FFFFFE]"

definition lre_id_continue_table_ascii :: "u32 list" where
  "lre_id_continue_table_ascii = [0x00000000, 0x03FF0010, 0x87FFFFFE, 0x07FFFFFE]"

definition lre_js_is_ident_first :: "u32 \<Rightarrow> bool option" where
  "lre_js_is_ident_first c =
     (if c < 128 then Some (bit (lre_id_start_table_ascii ! unat (drop_bit 5 c)) (unat (c AND 31)))
      else lre_is_id_start c)"

definition lre_js_is_ident_next :: "u32 \<Rightarrow> bool option" where
  "lre_js_is_ident_next c =
     (if c < 128 then Some (bit (lre_id_continue_table_ascii ! unat (drop_bit 5 c)) (unat (c AND 31)))
      else do { r \<leftarrow> lre_is_id_continue c; Some (r \<or> c = 0x200C \<or> c = 0x200D) })"

text \<open>A name, without its terminating zero, and the position behind the \<open>>\<close>; the inner \<open>None\<close> is the
  result -1, which leaves the position alone.\<close>

definition name_char :: "u8 list \<Rightarrow> nat \<Rightarrow> bool \<Rightarrow> u8 \<Rightarrow> (int \<times> nat) option" where
  "name_char pat p utf16 c =
     (if c = 0x5c then do {
        b \<leftarrow> rd pat (p + 1);
        if b \<noteq> asc CHR ''u'' then Some (-1, p)
        else lre_parse_escape pat (p + 1) (if utf16 then 2 else 0) }
      else if c \<ge> 128 then unicode_from_utf8 pat p 6
      else Some (uint c, p + 1))"

partial_function (option) group_name_loop ::
  "u8 list \<Rightarrow> nat \<Rightarrow> bool \<Rightarrow> u8 list \<Rightarrow> (u8 list \<times> nat) option option" where
  "group_name_loop pat p utf16 q = do {
     b \<leftarrow> rd pat p;
     if b = asc CHR ''>'' then Some (if q = [] then None else Some (q, p + 1))
     else do {
       (c, p') \<leftarrow> name_char pat p utf16 b;
       if c < 0 \<or> c > 0x10FFFF then Some None
       else do {
         let u = word_of_int c;
         id \<leftarrow> (if q = [] then lre_js_is_ident_first u else lre_js_is_ident_next u);
         if \<not> id then Some None
         else if int (length q) + 6 + 1 > 128 then Some None
         else group_name_loop pat p' utf16 (q @ unicode_to_utf8 u) } } }"

declare group_name_loop.simps [code]

definition re_parse_group_name :: "u8 list \<Rightarrow> nat \<Rightarrow> bool \<Rightarrow> (u8 list \<times> nat) option option" where
  "re_parse_group_name pat p utf16 = group_name_loop pat p utf16 []"

text \<open>The class in brackets that \<open>re_parse_captures\<close> skips, up to its end.\<close>

function skip_class :: "REParseState \<Rightarrow> nat \<Rightarrow> nat option" where
  "skip_class s p =
     (if p < buf_end s then
        (case rd (pattern s) p of None \<Rightarrow> None
         | Some b \<Rightarrow>
             if b = asc CHR '']'' then Some p
             else if b = 0x5c then skip_class s (p + 2) else skip_class s (p + 1))
      else Some p)"
  by pat_completeness auto
termination by (relation "measure (\<lambda>(s, p). buf_end s - p)") auto

declare skip_class.simps [simp del]

text \<open>The number of groups plus one, or the index of the group \<open>name\<close> or -1; and whether there are
  named groups.\<close>

partial_function (option) captures_loop ::
  "REParseState \<Rightarrow> u8 list option \<Rightarrow> nat \<Rightarrow> int \<Rightarrow> int \<Rightarrow> (int \<times> int) option" where
  "captures_loop s name p index has =
     (if p < buf_end s \<and> index < 255 then do {
        b \<leftarrow> rd (pattern s) p;
        if b = asc CHR ''('' then do {
          b1 \<leftarrow> rd (pattern s) (p + 1);
          if b1 = asc CHR ''?'' then do {
            b2 \<leftarrow> rd (pattern s) (p + 2);
            b3 \<leftarrow> (if b2 = asc CHR ''<'' then rd (pattern s) (p + 3) else Some 0);
            if b2 = asc CHR ''<'' \<and> b3 \<noteq> asc CHR ''='' \<and> b3 \<noteq> asc CHR ''!'' then
              (case name of
                 None \<Rightarrow> captures_loop s name (p + 1) (index + 1) 1
               | Some nm \<Rightarrow> do {
                   r \<leftarrow> re_parse_group_name (pattern s) (p + 3) (ps_utf16 s);
                   case r of
                     None \<Rightarrow> captures_loop s name (p + 3 + 1) (index + 1) 1
                   | Some (nm', p') \<Rightarrow>
                       if nm' = nm then Some (1, index) else captures_loop s name (p' + 1) (index + 1) 1 })
            else captures_loop s name (p + 1) index has }
          else captures_loop s name (p + 1) (index + 1) has }
        else if b = 0x5c then captures_loop s name (p + 2) index has
        else if b = asc CHR ''['' then do {
          p' \<leftarrow> skip_class s (p + 1);
          captures_loop s name (p' + 1) index has }
        else captures_loop s name (p + 1) index has }
      else Some (has, if name = None then index else -1))"

declare captures_loop.simps [code]

definition re_parse_captures :: "REParseState \<Rightarrow> u8 list option \<Rightarrow> (int \<times> int) option" where
  "re_parse_captures s name = captures_loop s name 0 1 0"

definition re_count_captures :: "REParseState \<Rightarrow> (int \<times> REParseState) option" where
  "re_count_captures s =
     (if total_capture_count s < 0 then do {
        (has, n) \<leftarrow> re_parse_captures s None;
        Some (n, s\<lparr>total_capture_count := n, has_named_captures := has\<rparr>) }
      else Some (total_capture_count s, s))"

definition re_has_named_captures :: "REParseState \<Rightarrow> (bool \<times> REParseState) option" where
  "re_has_named_captures s = do {
     (n, s) \<leftarrow> (if has_named_captures s < 0 then re_count_captures s else Some (0, s));
     Some (has_named_captures s \<noteq> 0, s) }"

function find_name :: "u8 list \<Rightarrow> u8 list \<Rightarrow> int \<Rightarrow> int option" where
  "find_name ps name index =
     (if ps = [] then Some (-1)
      else if 0 \<notin> set ps then None
      else if takeWhile (\<lambda>b. b \<noteq> 0) ps = name then Some index
      else find_name (drop (length (takeWhile (\<lambda>b. b \<noteq> 0) ps) + 1) ps) name (index + 1))"
  by pat_completeness auto
termination by (relation "measure (\<lambda>(ps, name, i). length ps)") auto

declare find_name.simps [simp del]

definition find_group_name :: "REParseState \<Rightarrow> u8 list \<Rightarrow> int option" where
  "find_group_name s name = find_name (dbuf_data (group_names s)) name 1"

end
