(* ===== verification/RegexpQuant.thy ===== *)
theory RegexpQuant
  imports RegexpExec
begin

text \<open>
  Simple quantifiers: the test that an atom is simple, which also nums its characters
  (\<open>re_is_simple_quantifier\<close> of \<^verbatim>\<open>libregexp.c\<close>), and why the interpreter may undo a repetition by
  going back over that many characters instead of storing every position.
\<close>

section \<open>Walking over the code\<close>

fun reopcode_info :: "reop \<Rightarrow> nat" where
  "reopcode_info op =
     (case op of
        REOP_char \<Rightarrow> 3 | REOP_char32 \<Rightarrow> 5 | REOP_goto \<Rightarrow> 5 | REOP_split_goto_first \<Rightarrow> 5
      | REOP_split_next_first \<Rightarrow> 5 | REOP_save_start \<Rightarrow> 2 | REOP_save_end \<Rightarrow> 2 | REOP_save_reset \<Rightarrow> 3
      | REOP_loop \<Rightarrow> 5 | REOP_push_i32 \<Rightarrow> 5 | REOP_back_reference \<Rightarrow> 2
      | REOP_backward_back_reference \<Rightarrow> 2 | REOP_range \<Rightarrow> 3 | REOP_range32 \<Rightarrow> 3 | REOP_lookahead \<Rightarrow> 5
      | REOP_negative_lookahead \<Rightarrow> 5 | REOP_bne_char_pos \<Rightarrow> 5 | REOP_simple_greedy_quant \<Rightarrow> 17
      | _ \<Rightarrow> 1)"

text \<open>The opcode at \<open>pos\<close> and its length, with the intervals of a class.\<close>

definition insn_at :: "u8 list \<Rightarrow> nat \<Rightarrow> (reop \<times> nat) option" where
  "insn_at bc pos = do {
     b \<leftarrow> rd bc pos;
     op \<leftarrow> rd reops (unat b);
     if op = REOP_range then do { val \<leftarrow> get_u16 bc (pos + 1); Some (op, reopcode_info op + unat val * 4) }
     else if op = REOP_range32 then do { val \<leftarrow> get_u16 bc (pos + 1); Some (op, reopcode_info op + unat val * 8) }
     else Some (op, reopcode_info op) }"

lemma insn_at_pos: "insn_at bc pos = Some (op, len) \<Longrightarrow> 0 < len"
  by (auto simp: insn_at_def bind_eq_Some_conv split: if_splits reop.splits)

text \<open>\<open>re_is_simple_quantifier(bc_buf, bc_buf_len)\<close>, with \<open>start\<close> the place of \<open>bc_buf\<close> in the code.\<close>

function simple_quantifier_loop :: "u8 list \<Rightarrow> nat \<Rightarrow> nat \<Rightarrow> nat \<Rightarrow> int \<Rightarrow> int option" where
  "simple_quantifier_loop bc start bc_buf_len pos num =
     (if pos < bc_buf_len then
        (case insn_at bc (start + pos) of None \<Rightarrow> None
         | Some (op, len) \<Rightarrow>
             if op \<in> {REOP_range, REOP_range32, REOP_char, REOP_char32, REOP_dot, REOP_any}
             then simple_quantifier_loop bc start bc_buf_len (pos + len) (num + 1)
             else if op \<in> {REOP_line_start, REOP_line_end, REOP_word_boundary, REOP_not_word_boundary}
             then simple_quantifier_loop bc start bc_buf_len (pos + len) num
             else Some (-1))
      else Some num)"
  by pat_completeness auto
termination
  by (relation "measure (\<lambda>(bc, s, n, pos, c). n - pos)") (auto dest: insn_at_pos)

declare simple_quantifier_loop.simps [simp del]

definition re_is_simple_quantifier :: "u8 list \<Rightarrow> nat \<Rightarrow> nat \<Rightarrow> int option" where
  "re_is_simple_quantifier bc start bc_buf_len = simple_quantifier_loop bc start bc_buf_len 0 0"

text \<open>The end of the last instruction that starts before \<open>n\<close>.\<close>

function insns_end :: "u8 list \<Rightarrow> nat \<Rightarrow> nat \<Rightarrow> nat \<Rightarrow> nat option" where
  "insns_end bc start n pos =
     (if pos < n then
        (case insn_at bc (start + pos) of None \<Rightarrow> None | Some (op, len) \<Rightarrow> insns_end bc start n (pos + len))
      else Some pos)"
  by pat_completeness auto
termination
  by (relation "measure (\<lambda>(bc, s, n, pos). n - pos)") (auto dest: insn_at_pos)

declare insns_end.simps [simp del]

section \<open>One repetition\<close>

definition consumes :: "reop \<Rightarrow> bool" where
  "consumes op \<longleftrightarrow> op \<in> {REOP_range, REOP_range32, REOP_char, REOP_char32, REOP_dot, REOP_any}"

lemma get_char_end:
  "GET_CHAR (subject_of S) p (cbuf_end S) = Some (c, q) \<Longrightarrow> p < cbuf_end S \<and> q = char_end (subject_of S) p"
  using GET_CHAR_eq [of "subject_of S" p] by (auto simp: subject_of_def cbuf_end_def split: if_splits)

lemma get_char_ic_char_end:
  "get_char_ic S p = Some (c, q) \<Longrightarrow> p < cbuf_end S \<and> q = char_end (subject_of S) p"
  by (auto simp: get_char_ic_def bind_eq_Some_conv dest: get_char_end)

lemma simple_op_effect:
  assumes "simple_op S op (Suc pc) p = Some (Some (pc', q))" and "insn_at (bc_buf S) pc = Some (op, len)"
  shows "pc' = pc + len"
    and "if consumes op then p < cbuf_end S \<and> q = char_end (subject_of S) p else q = p"
  using assms
  by (auto simp: simple_op_def test_char_def test_range_def bind_eq_Some_conv consumes_def insn_at_def
      split: reop.splits if_splits prod.splits option.splits dest: get_char_end get_char_ic_char_end)

text \<open>\<open>reps S pc k p\<close>: the position after \<open>k\<close> repetitions of the atom at \<open>pc\<close>.\<close>

fun reps :: "re_context \<Rightarrow> nat \<Rightarrow> nat \<Rightarrow> nat \<Rightarrow> nat option" where
  "reps S pc 0 p = Some p"
| "reps S pc (Suc k) p =
     (case simple_exec S pc p of Some (Some q) \<Rightarrow> reps S pc k q | _ \<Rightarrow> None)"

lemma prev_chars_add:
  "prev_chars S (m + n) p = Option.bind (prev_chars S m p) (prev_chars S n)"
  by (induction S m p rule: prev_chars.induct) (auto split: bind_split)

text \<open>An atom of \<open>n\<close> characters, with its \<open>REOP_match\<close>.\<close>

definition simple_atom :: "re_context \<Rightarrow> nat \<Rightarrow> nat \<Rightarrow> nat \<Rightarrow> bool" where
  "simple_atom S start len n \<longleftrightarrow>
     re_is_simple_quantifier (bc_buf S) start len = Some (int n) \<and>
     insns_end (bc_buf S) start len 0 = Some len \<and> fetch S (start + len) = Some REOP_match"

lemma char_end_gt: "p < char_end S p"
  by (simp add: char_end_def)

lemma simple_quantifier_loop_mono:
  "simple_quantifier_loop bc start len pos c = Some r \<Longrightarrow> r = -1 \<or> c \<le> r"
proof (induction bc start len pos c rule: simple_quantifier_loop.induct)
  case (1 bc start len pos c)
  then show ?case
    unfolding simple_quantifier_loop.simps [of bc start len pos c]
    by (fastforce split: if_splits option.splits prod.splits)
qed

lemma simple_exec_walk:
  "simple_exec S pc p = Some (Some q) \<Longrightarrow> pc = start + pos \<Longrightarrow>
    simple_quantifier_loop (bc_buf S) start len pos c = Some (c + int n) \<Longrightarrow> 0 \<le> c \<Longrightarrow>
    insns_end (bc_buf S) start len pos = Some len \<Longrightarrow> fetch S (start + len) = Some REOP_match \<Longrightarrow>
    p \<le> cbuf_end S \<Longrightarrow> at_boundary (subject_of S) p \<Longrightarrow>
    prev_chars (subject_of S) n q = Some p \<and> at_boundary (subject_of S) q \<and> q \<le> cbuf_end S \<and> p + n \<le> q"
proof (induction S pc p arbitrary: pos c n rule: simple_exec.induct)
  case (1 S pc p)
  show ?case
  proof (cases "pos < len")
    case False
    then have "pos = len" "n = 0"
      using 1(4,6) by (auto simp: insns_end.simps [of _ _ _ pos] simple_quantifier_loop.simps [of _ _ _ pos])
    then have "q = p"
      using 1(2,3,7) by (simp add: simple_exec.simps [of S "start + len" p])
    then show ?thesis
      using \<open>n = 0\<close> 1(8,9) by simp
  next
    case True
    obtain op l where insn: "insn_at (bc_buf S) pc = Some (op, l)"
      using 1(3,6) True by (auto simp: insns_end.simps [of _ _ _ pos] split: option.splits)
    then have fetch: "fetch S pc = Some op"
      by (auto simp: fetch_def insn_at_def bind_eq_Some_conv split: if_splits)
    have rest: "insns_end (bc_buf S) start len (pos + l) = Some len"
      using 1(3,6) True insn by (simp add: insns_end.simps [of _ _ _ pos])
    have loop: "simple_quantifier_loop (bc_buf S) start len (pos + l) (c + (if consumes op then 1 else 0)) = Some (c + int n)"
      and simple: "is_simple_op op" "op \<noteq> REOP_match"
      using 1(3,4,5) True insn
      by (auto simp: simple_quantifier_loop.simps [of _ _ _ pos] consumes_def is_simple_op_def split: if_splits)
    obtain pc' p' where step: "simple_op S op (pc + 1) p = Some (Some (pc', p'))" "simple_exec S pc' p' = Some (Some q)"
      using 1(2) fetch simple by (auto simp: simple_exec.simps [of S pc p] split: option.splits)
    note effect = simple_op_effect [OF step(1) [simplified] insn]
    note IH = 1(1) [OF fetch simple(2,1) step(1) refl refl step(2), of "pos + l" "c + (if consumes op then 1 else 0)"]
    show ?thesis
    proof (cases "consumes op")
      case False
      then show ?thesis
        using IH [of n] 1 effect rest loop by simp
    next
      case True
      with effect have p: "p < length (cbuf (subject_of S))" and p': "p' = char_end (subject_of S) p"
        by (auto simp: cbuf_end_def subject_of_def)
      note prev = prev_of_char_end [OF p 1(9), folded p']
      have "0 < n"
        using simple_quantifier_loop_mono [OF loop] True 1(5) by auto
      then obtain m where n: "n = Suc m"
        by (cases n) auto
      have "prev_chars (subject_of S) m q = Some p' \<and> at_boundary (subject_of S) q \<and> q \<le> cbuf_end S \<and> p' + m \<le> q"
        using IH [of m] 1 effect rest loop True prev(4,5) n
        by (simp add: add.assoc cbuf_end_def subject_of_def)
      then show ?thesis
        using prev_chars_add [of "subject_of S" m 1 q] prev(1) p' char_end_gt [of p "subject_of S"] by (simp add: n)
    qed
  qed
qed

lemma simple_exec_prev:
  assumes "simple_atom S start len n" and "simple_exec S start p = Some (Some q)"
    and "p \<le> cbuf_end S" and "at_boundary (subject_of S) p"
  shows "prev_chars (subject_of S) n q = Some p" and "at_boundary (subject_of S) q"
    and "q \<le> cbuf_end S" and "p + n \<le> q"
  using simple_exec_walk [OF assms(2), of start 0 len 0 n] assms
  by (simp_all add: simple_atom_def re_is_simple_quantifier_def)

section \<open>All the repetitions\<close>

lemma reps_prev:
  "reps S start k p = Some q \<Longrightarrow> simple_atom S start len n \<Longrightarrow> p \<le> cbuf_end S \<Longrightarrow>
    at_boundary (subject_of S) p \<Longrightarrow>
    prev_chars (subject_of S) (n * k) q = Some p \<and> q \<le> cbuf_end S \<and> at_boundary (subject_of S) q \<and> p + n * k \<le> q"
proof (induction k arbitrary: p)
  case (Suc k)
  then obtain p' where p': "simple_exec S start p = Some (Some p')" "reps S start k p' = Some q"
    by (auto split: option.splits)
  note prev = simple_exec_prev [OF Suc.prems(2) p'(1) Suc.prems(3,4)]
  from Suc.IH [OF p'(2) Suc.prems(2) prev(3,2)] prev(1,4) show ?case
    using prev_chars_add [of "subject_of S" "n * k" n q] by (simp add: add.commute [of n])
qed auto

lemma reps_split: "reps S pc (j + k) p = Some q \<Longrightarrow> \<exists>m. reps S pc j p = Some m \<and> reps S pc k m = Some q"
  by (induction j arbitrary: p) (auto split: option.splits)

lemma quant_loop_reps:
  assumes "quant_loop S pc m q0 p = Some (q, e)"
  shows "\<exists>k. reps S pc k p = Some e \<and> q = q0 + of_nat k"
proof -
  let ?P = "\<lambda>S pc m q0 p (r :: u64 \<times> nat). \<exists>k. reps S pc k p = Some (snd r) \<and> fst r = q0 + of_nat k"
  have "?P S pc m q0 p (q, e)"
  proof (rule quant_loop.raw_induct [OF _ assms, of ?P])
    fix f S pc m q0 p r
    assume IH: "\<And>S pc m q0 p r. f S pc m q0 p = Some r \<Longrightarrow> ?P S pc m q0 p r"
      and run: "(case simple_exec S pc p of None \<Rightarrow> None | Some None \<Rightarrow> Some (q0, p)
        | Some (Some p') \<Rightarrow>
            if q0 + 1 \<ge> ucast m \<and> m \<noteq> INT32_MAX then Some (q0 + 1, p') else f S pc m (q0 + 1) p') = Some (r :: u64 \<times> nat)"
    show "?P S pc m q0 p r"
    proof (cases "simple_exec S pc p")
      case (Some out)
      show ?thesis
      proof (cases out)
        case None
        then show ?thesis
          using run Some by (auto intro: exI [of _ 0])
      next
        case (Some p')
        have "\<exists>k. reps S pc k p' = Some (snd r) \<and> fst r = q0 + 1 + of_nat k"
          using run Some \<open>simple_exec S pc p = Some out\<close> IH [of S pc m "q0 + 1" p' r]
          by (auto split: if_splits intro: exI [of _ 0])
        then obtain k where "reps S pc k p' = Some (snd r)" "fst r = q0 + 1 + of_nat k"
          by blast
        then show ?thesis
          using Some \<open>simple_exec S pc p = Some out\<close> by (intro exI [of _ "Suc k"]) simp
      qed
    qed (use run in simp)
  qed
  then show ?thesis
    by simp
qed

text \<open>C16: A greedy simple quantifier counts \<open>q\<close> repetitions and stores only the last position. Going
  back over the characters of the atom, once for each repetition given up, visits exactly the
  positions after \<open>q - 1\<close>, \<open>q - 2\<close>, \<open>...\<close> repetitions, over surrogate pairs as well, provided that the
  loop did not start inside a surrogate pair (\<open>at_boundary\<close>), the subject is shorter than \<open>2 ^ 64\<close> and
  the atom has at least one character. Without \<open>at_boundary\<close> the claim fails, and the code can get
  there: see \<open>greedy_back_inside_pair\<close> in \<open>RegexpFlaws\<close>.\<close>

theorem greedy_quantifier_back:
  assumes "simple_atom S start len n" and "0 < n" and "p \<le> cbuf_end S" and "cbuf_end S < 2 ^ 64"
    and "at_boundary (subject_of S) p" and "quant_loop S start quant_max 0 p = Some (q, e)" and "j \<le> unat q"
  shows "\<exists>p'. reps S start (unat q - j) p = Some p' \<and> prev_chars (subject_of S) (n * j) e = Some p'"
proof -
  obtain k where k: "reps S start k p = Some e" "q = of_nat k"
    using quant_loop_reps [OF assms(6)] by auto
  have "k \<le> n * k" and "p + n * k \<le> e" and "e \<le> cbuf_end S"
    using reps_prev [OF k(1) assms(1,3,5)] assms(2) by auto
  then have "k < 2 ^ 64"
    using assms(4) by linarith
  then have "unat q = k"
    using k(2) by (simp add: unat_of_nat take_bit_eq_mod)
  then obtain p' where p': "reps S start (k - j) p = Some p'" "reps S start j p' = Some e"
    using reps_split [of S start "k - j" j p e] k(1) assms(7) by auto
  note at_p' = reps_prev [OF p'(1) assms(1,3,5)]
  show ?thesis
    using p'(1) reps_prev [OF p'(2) assms(1)] at_p' \<open>unat q = k\<close> by auto
qed

text \<open>Code for \<open>/.*/yu\<close> on two characters outside the BMP.\<close>

definition dots_code :: "u8 list" where
  "dots_code = [48, 1, 0, 25, 0, 0, 0, 11, 0, 28, 2, 0, 0, 0, 0, 0, 0, 0, 0xff, 0xff, 0xff, 0x7f,
     1, 0, 0, 0, 3, 10, 12, 0, 10]"

definition dots_context :: re_context where
  "dots_context = \<lparr>cbuf = [0xd83d, 0xde00, 0xd83d, 0xde01], cbuf_type = 2, bc_buf = dots_code,
     capture_count = 1, stack_size_max = 0, multi_line = False, ignore_case = False, is_utf16 = True,
     re_alloc = (\<lambda>_. True)\<rparr>"

lemma dots_facts:
  "re_is_simple_quantifier (bc_buf dots_context) 26 1 = Some 1" "insns_end (bc_buf dots_context) 26 1 0 = Some 1"
  "fetch dots_context 27 = Some REOP_match" "cbuf_end dots_context = 4"
  "quant_loop dots_context 26 INT32_MAX 0 0 = Some (2, 4)"
  by code_simp+

theorem greedy_quantifier_back_witness:
  "\<exists>p'. reps dots_context 26 (unat (2 :: u64) - 1) 0 = Some p' \<and>
     prev_chars (subject_of dots_context) (1 * 1) 4 = Some p'"
proof (rule greedy_quantifier_back [of _ _ 1 _ _ INT32_MAX 2 4 1])
  show "simple_atom dots_context 26 1 1"
    using dots_facts by (simp add: simple_atom_def)
qed (use dots_facts in \<open>simp_all add: at_boundary_def\<close>)

end
