(* ===== verification/RegexpCompile.thy ===== *)
theory RegexpCompile
  imports RegexpScan RegexpQuant
begin

text \<open>
  The compiler of regular expressions of \<^verbatim>\<open>libregexp.c\<close>: terms with their quantifiers, alternatives,
  disjunctions and \<open>lre_compile\<close>. The recursion is bounded by \<open>lre_check_stack_overflow\<close>, a function
  of the embedding program: here the number of nested disjunctions it admits.
\<close>

section \<open>Tests on the code of an atom\<close>

text \<open>\<open>re_check_advance\<close>; the map of captures has \<open>CAPTURE_COUNT_MAX\<close> entries.\<close>

definition mark :: "u8 list \<Rightarrow> nat \<Rightarrow> u8 \<Rightarrow> u8 list option" where
  "mark m i v = do { b \<leftarrow> rd m i; wr m i (b OR v) }"

fun marks :: "u8 list \<Rightarrow> nat list \<Rightarrow> u8 list option" where
  "marks m [] = Some m"
| "marks m (i # is) = do { m \<leftarrow> mark m i 1; marks m is }"

definition advance_simple :: "reop list" where
  "advance_simple = [REOP_range, REOP_range32, REOP_char, REOP_char32, REOP_dot, REOP_any]"

definition advance_none :: "reop list" where
  "advance_none = [REOP_line_start, REOP_line_end, REOP_push_i32, REOP_push_char_pos, REOP_drop,
     REOP_word_boundary, REOP_not_word_boundary, REOP_prev]"

function advance_loop :: "u8 list \<Rightarrow> nat \<Rightarrow> nat \<Rightarrow> nat \<Rightarrow> int \<Rightarrow> bool \<Rightarrow> u8 list \<Rightarrow> (int \<times> bool \<times> u8 list) option" where
  "advance_loop bc start n pos ret back m =
     (if pos < n then
        (case insn_at bc (start + pos) of None \<Rightarrow> None
         | Some (op, len) \<Rightarrow>
             let q = start + pos; next_ret = (\<lambda>ret back m. advance_loop bc start n (pos + len) ret back m) in
             if op \<in> set advance_simple then next_ret (if ret = -2 then 1 else ret) back m
             else if op \<in> set advance_none then next_ret ret back m
             else if op = REOP_save_start \<or> op = REOP_save_end then
               (case Option.bind (rd bc (q + 1)) (\<lambda>v. mark m (unat v) 1) of None \<Rightarrow> None
                | Some m \<Rightarrow> next_ret ret back m)
             else if op = REOP_save_reset then
               (case Option.bind (rd bc (q + 1)) (\<lambda>v. Option.bind (rd bc (q + 2)) (\<lambda>last.
                   marks m [unat v..<unat last])) of None \<Rightarrow> None
                | Some m \<Rightarrow> next_ret ret back m)
             else if op = REOP_back_reference \<or> op = REOP_backward_back_reference then
               (case Option.bind (rd bc (q + 1)) (\<lambda>v. mark m (unat v) 2) of None \<Rightarrow> None
                | Some m \<Rightarrow> next_ret ret True m)
             else next_ret (if ret = -2 then 0 else ret) back m)
      else Some (ret, back, m))"
  by pat_completeness auto
termination
  by (relation "measure (\<lambda>(bc, s, n, pos, r, b, m). n - pos)") (auto dest: insn_at_pos)

declare advance_loop.simps [simp del]

definition re_check_advance :: "u8 list \<Rightarrow> nat \<Rightarrow> nat \<Rightarrow> int option" where
  "re_check_advance bc start n = do {
     (ret, back, m) \<leftarrow> advance_loop bc start n 0 (-2) False (replicate 255 0);
     Some (if back \<and> 3 \<in> set m then -1 else if ret = -2 then 0 else ret) }"

function stack_size_loop :: "u8 list \<Rightarrow> nat \<Rightarrow> nat \<Rightarrow> int \<Rightarrow> int \<Rightarrow> int option" where
  "stack_size_loop bc n pos stack_size max_size =
     (if pos < n then
        (case insn_at bc (7 + pos) of None \<Rightarrow> None
         | Some (op, len) \<Rightarrow>
             if pos + reopcode_info op > n then None
             else if op = REOP_push_i32 \<or> op = REOP_push_char_pos then
               if stack_size + 1 > max_size
               then if stack_size + 1 > 255 then Some (-1)
                    else stack_size_loop bc n (pos + len) (stack_size + 1) (stack_size + 1)
               else stack_size_loop bc n (pos + len) (stack_size + 1) max_size
             else if op = REOP_drop \<or> op = REOP_bne_char_pos then
               if stack_size > 0 then stack_size_loop bc n (pos + len) (stack_size - 1) max_size else None
             else stack_size_loop bc n (pos + len) stack_size max_size)
      else Some max_size)"
  by pat_completeness auto
termination
  by (relation "measure (\<lambda>(bc, n, pos, s, m). n - pos)") (auto dest: insn_at_pos)

declare stack_size_loop.simps [simp del]

definition compute_stack_size :: "u8 list \<Rightarrow> nat \<Rightarrow> int option" where
  "compute_stack_size bc len = stack_size_loop bc (len - 7) 0 0 0"

section \<open>Changes in the code\<close>

definition code_size :: "REParseState \<Rightarrow> nat" where
  "code_size s = db_size (byte_code s)"

definition code_wr :: "nat \<Rightarrow> u8 \<Rightarrow> REParseState \<Rightarrow> REParseState option" where
  "code_wr i v s = do {
     b \<leftarrow> wr (db_buf (byte_code s)) i v;
     Some (s\<lparr>byte_code := (byte_code s)\<lparr>db_buf := b\<rparr>\<rparr>) }"

definition code_put_u32 :: "nat \<Rightarrow> u32 \<Rightarrow> REParseState \<Rightarrow> REParseState option" where
  "code_put_u32 i v s = do {
     b \<leftarrow> put_u32 (db_buf (byte_code s)) i v;
     Some (s\<lparr>byte_code := (byte_code s)\<lparr>db_buf := b\<rparr>\<rparr>) }"

definition code_insert :: "REParseState \<Rightarrow> nat \<Rightarrow> nat \<Rightarrow> REParseState parsed" where
  "code_insert s pos len = do {
     (r, d) \<leftarrow> dbuf_insert (byte_code s) pos len;
     if r \<noteq> 0 then re_parse_out_of_memory else ok (s\<lparr>byte_code := d\<rparr>) }"

definition lift_ok :: "'a option \<Rightarrow> 'a parsed" where
  "lift_ok m = do { x \<leftarrow> m; ok x }"

text \<open>The opcodes \<open>REOP_split_goto_first + greedy\<close> and \<open>REOP_split_next_first - greedy\<close>.\<close>

definition split_op :: "bool \<Rightarrow> reop" where
  "split_op greedy = (if greedy then REOP_split_next_first else REOP_split_goto_first)"

definition INT_MAX :: int where "INT_MAX = 0x7fffffff"

section \<open>Quantifiers\<close>

text \<open>\<open>q_min\<close> is 0.\<close>

definition quantify_from_zero ::
  "REParseState \<Rightarrow> nat \<Rightarrow> nat \<Rightarrow> bool \<Rightarrow> bool \<Rightarrow> int \<Rightarrow> nat \<Rightarrow> REParseState parsed" where
  "quantify_from_zero s start len greedy add_zero_advance_check quant_max last_capture_count =
     (let chk = (if add_zero_advance_check then 1 else 0) in
      and_then
        (if last_capture_count \<noteq> captures s
         then and_then (code_insert s start 3) (\<lambda>s. do {
           s \<leftarrow> code_wr start (opc REOP_save_reset) s;
           s \<leftarrow> code_wr (start + 1) (of_nat last_capture_count) s;
           s \<leftarrow> code_wr (start + 2) (of_nat (captures s) - 1) s;
           ok (s, start + 3) })
         else ok (s, start))
        (\<lambda>(s, start).
           if quant_max = 0 then ok (s\<lparr>byte_code := (byte_code s)\<lparr>db_size := start\<rparr>\<rparr>)
           else if quant_max = 1 then and_then (code_insert s start 5) (\<lambda>s. do {
             s \<leftarrow> code_wr start (opc (split_op greedy)) s;
             s \<leftarrow> code_put_u32 (start + 1) (of_nat len) s;
             ok s })
           else if quant_max = INT_MAX then and_then (code_insert s start (5 + chk)) (\<lambda>s. do {
             s \<leftarrow> code_wr start (opc (split_op greedy)) s;
             s \<leftarrow> code_put_u32 (start + 1) (of_nat (len + 5 + chk)) s;
             if add_zero_advance_check then do {
               s \<leftarrow> code_wr (start + 1 + 4) (opc REOP_push_char_pos) s;
               (pos, s) \<leftarrow> re_emit_goto s REOP_bne_char_pos (of_nat start);
               ok s }
             else do { (pos, s) \<leftarrow> re_emit_goto s REOP_goto (of_nat start); ok s } })
           else and_then (code_insert s start 10) (\<lambda>s. do {
             s \<leftarrow> code_wr start (opc REOP_push_i32) s;
             s \<leftarrow> code_put_u32 (start + 1) (word_of_int quant_max) s;
             s \<leftarrow> code_wr (start + 5) (opc (split_op greedy)) s;
             s \<leftarrow> code_put_u32 (start + 6) (of_nat (len + 5)) s;
             (pos, s) \<leftarrow> re_emit_goto s REOP_loop (of_nat (start + 5));
             s \<leftarrow> re_emit_op s REOP_drop;
             ok s })))"

definition quantify_from ::
  "REParseState \<Rightarrow> nat \<Rightarrow> nat \<Rightarrow> bool \<Rightarrow> bool \<Rightarrow> int \<Rightarrow> int \<Rightarrow> REParseState parsed" where
  "quantify_from s start len greedy add_zero_advance_check quant_min quant_max =
     (let chk = (if add_zero_advance_check then 1 else 0) in
      and_then
        (if quant_min = 1 then ok (s, start)
         else and_then (code_insert s start 5) (\<lambda>s. do {
           s \<leftarrow> code_wr start (opc REOP_push_i32) s;
           s \<leftarrow> code_put_u32 (start + 1) (word_of_int quant_min) s;
           (pos, s) \<leftarrow> re_emit_goto s REOP_loop (of_nat (start + 5));
           s \<leftarrow> re_emit_op s REOP_drop;
           ok (s, start + 5) }))
        (\<lambda>(s, start).
           if quant_max = INT_MAX then do {
             let pos = code_size s;
             (p, s) \<leftarrow> re_emit_op_u32 s (split_op greedy) (of_nat (len + 5 + chk));
             s \<leftarrow> (if add_zero_advance_check then re_emit_op s REOP_push_char_pos else Some s);
             s \<leftarrow> out (\<lambda>d. dbuf_put_self d start len) s;
             (p, s) \<leftarrow> re_emit_goto s (if add_zero_advance_check then REOP_bne_char_pos else REOP_goto) (of_nat pos);
             ok s }
           else if quant_max > quant_min then do {
             (p, s) \<leftarrow> re_emit_op_u32 s REOP_push_i32 (word_of_int (quant_max - quant_min));
             let pos = code_size s;
             (p, s) \<leftarrow> re_emit_op_u32 s (split_op greedy) (of_nat (len + 5));
             s \<leftarrow> out (\<lambda>d. dbuf_put_self d start len) s;
             (p, s) \<leftarrow> re_emit_goto s REOP_loop (of_nat pos);
             s \<leftarrow> re_emit_op s REOP_drop;
             ok s }
           else ok s))"

definition quantify_simple :: "REParseState \<Rightarrow> nat \<Rightarrow> int \<Rightarrow> int \<Rightarrow> int \<Rightarrow> REParseState parsed" where
  "quantify_simple s start len quant_min quant_max = do {
     s \<leftarrow> re_emit_op s REOP_match;
     and_then (code_insert s start 17) (\<lambda>s. do {
       s \<leftarrow> code_wr start (opc REOP_simple_greedy_quant) s;
       s \<leftarrow> code_put_u32 (start + 1) (of_nat (code_size s - start - 17)) s;
       s \<leftarrow> code_put_u32 (start + 5) (word_of_int quant_min) s;
       s \<leftarrow> code_put_u32 (start + 9) (word_of_int quant_max) s;
       s \<leftarrow> code_put_u32 (start + 13) (word_of_int len) s;
       ok s }) }"

text \<open>The code behind the label \<open>quantifier\<close>, the \<open>?\<close> of a lazy quantifier having been read.\<close>

definition quantify ::
  "REParseState \<Rightarrow> nat \<Rightarrow> nat \<Rightarrow> bool \<Rightarrow> int \<Rightarrow> int \<Rightarrow> REParseState parsed" where
  "quantify s start last_capture_count greedy quant_min quant_max =
     (let len = code_size s - start;
          general = (\<lambda>add_zero_advance_check.
            if quant_min = 0
            then quantify_from_zero s start len greedy add_zero_advance_check quant_max last_capture_count
            else if quant_min = 1 \<and> quant_max = INT_MAX \<and> \<not> add_zero_advance_check
            then do { (pos, s) \<leftarrow> re_emit_goto s (if greedy then REOP_split_goto_first else REOP_split_next_first) (of_nat start); ok s }
            else quantify_from s start len greedy add_zero_advance_check quant_min quant_max)
      in if \<not> greedy then general False
         else if db_error (byte_code s) then re_parse_out_of_memory
         else do {
           n \<leftarrow> (if quant_max > 0 then re_is_simple_quantifier (db_buf (byte_code s)) start len else Some 0);
           if n > 0 then quantify_simple s start n quant_min quant_max
           else do {
             adv \<leftarrow> re_check_advance (db_buf (byte_code s)) start len;
             general (adv = 0) } })"

definition re_parse_expect :: "REParseState \<Rightarrow> nat \<Rightarrow> char \<Rightarrow> nat parsed" where
  "re_parse_expect s p c = do {
     b \<leftarrow> rd (pattern s) p;
     if b \<noteq> asc c then re_parse_error (expecting c) else ok (p + 1) }"

text \<open>The bounds of a quantifier in braces at \<open>p\<close>; the inner \<open>None\<close> when they are no quantifier.\<close>

definition brace_bounds :: "REParseState \<Rightarrow> nat \<Rightarrow> (int \<times> int \<times> nat) option parsed" where
  "brace_bounds s p = (let pat = pattern s in do {
     b \<leftarrow> rd pat (p + 1);
     if \<not> is_digit b
     then if ps_utf16 s then re_parse_error ''invalid repetition count'' else ok None
     else do {
       (quant_min, p1) \<leftarrow> parse_digits pat (p + 1) True;
       b \<leftarrow> rd pat p1;
       b1 \<leftarrow> (if b = asc CHR '','' then rd pat (p1 + 1) else Some 0);
       (quant_max, p2) \<leftarrow>
         (if b \<noteq> asc CHR '','' then Some (quant_min, p1)
          else if is_digit b1 then parse_digits pat (p1 + 1) True
          else Some (INT_MAX, p1 + 1));
       if b = asc CHR '','' \<and> is_digit b1 \<and> quant_max < quant_min
       then re_parse_error ''invalid repetition count''
       else do {
         b \<leftarrow> rd pat p2;
         if b \<noteq> asc CHR ''}'' \<and> \<not> ps_utf16 s then ok None
         else and_then (re_parse_expect s p2 CHR ''}'') (\<lambda>p. ok (Some (quant_min, quant_max, p))) } } })"

text \<open>The quantifier behind an atom, if there is one.\<close>

definition re_parse_quantifier ::
  "REParseState \<Rightarrow> nat \<Rightarrow> nat \<Rightarrow> nat \<Rightarrow> (REParseState \<times> nat) parsed" where
  "re_parse_quantifier s p start last_capture_count = do {
     c \<leftarrow> rd (pattern s) p;
     and_then
       (if c = asc CHR ''*'' then ok (Some (0, INT_MAX, p + 1))
        else if c = asc CHR ''+'' then ok (Some (1, INT_MAX, p + 1))
        else if c = asc CHR ''?'' then ok (Some (0, 1, p + 1))
        else if c = asc CHR ''{'' then brace_bounds s p
        else ok None)
       (\<lambda>r. case r of
          None \<Rightarrow> ok (s, p)
        | Some (quant_min, quant_max, p) \<Rightarrow> do {
            b \<leftarrow> rd (pattern s) p;
            let greedy = (b \<noteq> asc CHR ''?'');
            and_then (quantify s start last_capture_count greedy quant_min quant_max)
              (\<lambda>s. ok (s, if greedy then p else p + 1)) }) }"

section \<open>Terms\<close>

text \<open>A term before its quantifier: the position behind it and, when a quantifier may follow, where its
  code starts and how many captures there were.\<close>

type_synonym atom_result = "(REParseState \<times> nat \<times> (nat \<times> nat) option) parsed"

definition atom_here :: "REParseState \<Rightarrow> (nat \<times> nat) option" where
  "atom_here s = Some (code_size s, captures s)"

definition emit_prev :: "REParseState \<Rightarrow> bool \<Rightarrow> REParseState option" where
  "emit_prev s is_backward_dir = (if is_backward_dir then re_emit_op s REOP_prev else Some s)"

text \<open>The code behind the label \<open>normal_char\<close>, for a character or a class.\<close>

definition normal_char :: "REParseState \<Rightarrow> bool \<Rightarrow> u32 \<Rightarrow> CharRange option \<Rightarrow> nat \<Rightarrow> atom_result" where
  "normal_char s is_backward_dir c cr p = do {
     let atom = atom_here s;
     s \<leftarrow> emit_prev s is_backward_dir;
     and_then
       (if c \<ge> CLASS_RANGE_BASE then do { cr \<leftarrow> cr; re_emit_range s cr }
        else do {
          c \<leftarrow> (if ps_ignore_case s then lre_canonicalize c (ps_utf16 s) else Some c);
          if c \<le> 0xffff then lift_ok (re_emit_op_u16 s REOP_char c)
          else lift_ok (map_option snd (re_emit_op_u32 s REOP_char32 c)) })
       (\<lambda>s. do { s \<leftarrow> emit_prev s is_backward_dir; ok (s, p, atom) }) }"

definition parse_class_atom :: "REParseState \<Rightarrow> bool \<Rightarrow> nat \<Rightarrow> atom_result" where
  "parse_class_atom s is_backward_dir p =
     and_then (get_class_atom s p False) (\<lambda>(c, cr, p). normal_char s is_backward_dir c cr p)"

text \<open>The function that parses the disjunction inside a group.\<close>

type_synonym parse_fun = "REParseState \<Rightarrow> bool \<Rightarrow> REParseState parsed"

definition in_group :: "parse_fun \<Rightarrow> REParseState \<Rightarrow> bool \<Rightarrow> nat \<Rightarrow> (REParseState \<times> nat) parsed" where
  "in_group disjunction s is_backward_dir p =
     and_then (disjunction (s\<lparr>buf_ptr := p\<rparr>) is_backward_dir) (\<lambda>s. ok (s, buf_ptr s))"

definition parse_lookahead :: "parse_fun \<Rightarrow> REParseState \<Rightarrow> bool \<Rightarrow> bool \<Rightarrow> nat \<Rightarrow> atom_result" where
  "parse_lookahead disjunction s is_neg is_backward_lookahead p = do {
     let atom = (if \<not> ps_utf16 s \<and> \<not> is_backward_lookahead then atom_here s else None);
     (pos, s) \<leftarrow> re_emit_op_u32 s (if is_neg then REOP_negative_lookahead else REOP_lookahead) 0;
     and_then (in_group disjunction s is_backward_lookahead p) (\<lambda>(s, p).
     and_then (re_parse_expect s p CHR '')'') (\<lambda>p. do {
       s \<leftarrow> re_emit_op s REOP_match;
       if db_error (byte_code s) then re_parse_error []
       else do {
         s \<leftarrow> code_put_u32 pos (of_nat (code_size s) - (of_nat pos + 4)) s;
         ok (s, p, atom) } })) }"

definition parse_capture :: "parse_fun \<Rightarrow> REParseState \<Rightarrow> bool \<Rightarrow> nat \<Rightarrow> atom_result" where
  "parse_capture disjunction s is_backward_dir p =
     (if int (captures s) \<ge> 255 then re_parse_error ''too many captures''
      else do {
        let atom = atom_here s;
        let index = captures s;
        s \<leftarrow> re_emit_op_u8 (s\<lparr>captures := index + 1\<rparr>)
               (if is_backward_dir then REOP_save_end else REOP_save_start) (of_nat index);
        and_then (in_group disjunction s is_backward_dir p) (\<lambda>(s, p). do {
          s \<leftarrow> re_emit_op_u8 s (if is_backward_dir then REOP_save_start else REOP_save_end) (of_nat index);
          and_then (re_parse_expect s p CHR '')'') (\<lambda>p. ok (s, p, atom)) }) })"

definition put_group_name :: "REParseState \<Rightarrow> u8 list \<Rightarrow> REParseState option" where
  "put_group_name s bytes = do {
     (r, d) \<leftarrow> dbuf_put (group_names s) bytes;
     Some (s\<lparr>group_names := d\<rparr>) }"

definition parse_named_capture :: "parse_fun \<Rightarrow> REParseState \<Rightarrow> bool \<Rightarrow> nat \<Rightarrow> atom_result" where
  "parse_named_capture disjunction s is_backward_dir p = do {
     r \<leftarrow> re_parse_group_name (pattern s) p (ps_utf16 s);
     case r of
       None \<Rightarrow> re_parse_error ''invalid group name''
     | Some (name, p) \<Rightarrow> do {
         found \<leftarrow> find_group_name s name;
         if found > 0 then re_parse_error ''duplicate group name''
         else do {
           s \<leftarrow> put_group_name s (name @ [0]);
           parse_capture disjunction (s\<lparr>has_named_captures := 1\<rparr>) is_backward_dir p } } }"

definition parse_group :: "parse_fun \<Rightarrow> REParseState \<Rightarrow> bool \<Rightarrow> nat \<Rightarrow> atom_result" where
  "parse_group disjunction s is_backward_dir p = (let pat = pattern s in do {
     b1 \<leftarrow> rd pat (p + 1);
     if b1 \<noteq> asc CHR ''?'' then do {
       s \<leftarrow> put_group_name s [0];
       parse_capture disjunction s is_backward_dir (p + 1) }
     else do {
       b2 \<leftarrow> rd pat (p + 2);
       if b2 = asc CHR '':'' then do {
         let atom = atom_here s;
         and_then (in_group disjunction s is_backward_dir (p + 3)) (\<lambda>(s, p).
         and_then (re_parse_expect s p CHR '')'') (\<lambda>p. ok (s, p, atom))) }
       else if b2 = asc CHR ''='' \<or> b2 = asc CHR ''!''
       then parse_lookahead disjunction s (b2 = asc CHR ''!'') False (p + 3)
       else if b2 = asc CHR ''<'' then do {
         b3 \<leftarrow> rd pat (p + 3);
         if b3 = asc CHR ''='' \<or> b3 = asc CHR ''!''
         then parse_lookahead disjunction s (b3 = asc CHR ''!'') True (p + 4)
         else parse_named_capture disjunction s is_backward_dir (p + 3) }
       else re_parse_error ''invalid group'' } })"

section \<open>Escapes outside classes\<close>

definition emit_back_reference :: "REParseState \<Rightarrow> bool \<Rightarrow> int \<Rightarrow> nat \<Rightarrow> atom_result" where
  "emit_back_reference s is_backward_dir c p = do {
     let atom = atom_here s;
     s \<leftarrow> re_emit_op_u8 s (if is_backward_dir then REOP_backward_back_reference else REOP_back_reference) (word_of_int c);
     ok (s, p, atom) }"

text \<open>What a wrong \<open>\k\<close> is: an error, or without named groups a letter.\<close>

definition tolerate_name :: "REParseState \<Rightarrow> bool \<Rightarrow> nat \<Rightarrow> string \<Rightarrow> atom_result" where
  "tolerate_name s is_backward_dir p msg =
     (if ps_utf16 s then re_parse_error msg
      else do {
        (named, s) \<leftarrow> re_has_named_captures s;
        if named then re_parse_error msg else parse_class_atom s is_backward_dir p })"

definition parse_named_reference :: "REParseState \<Rightarrow> bool \<Rightarrow> nat \<Rightarrow> atom_result" where
  "parse_named_reference s is_backward_dir p = do {
     b \<leftarrow> rd (pattern s) (p + 2);
     if b \<noteq> asc CHR ''<'' then tolerate_name s is_backward_dir p ''expecting group name''
     else do {
       r \<leftarrow> re_parse_group_name (pattern s) (p + 3) (ps_utf16 s);
       case r of
         None \<Rightarrow> tolerate_name s is_backward_dir p ''invalid group name''
       | Some (name, p1) \<Rightarrow> do {
           c \<leftarrow> find_group_name s name;
           if c \<ge> 0 then emit_back_reference s is_backward_dir c p1
           else do {
             (dummy, c) \<leftarrow> re_parse_captures s (Some name);
             if c < 0 then tolerate_name s is_backward_dir p ''group name not defined''
             else emit_back_reference s is_backward_dir c p1 } } } }"

text \<open>Up to \<open>n\<close> more octal digits.\<close>

fun octal_digits :: "u8 list \<Rightarrow> nat \<Rightarrow> nat \<Rightarrow> int \<Rightarrow> (int \<times> nat) option" where
  "octal_digits pat p 0 c = Some (c, p)"
| "octal_digits pat p (Suc n) c = do {
     b \<leftarrow> rd pat p;
     if is_octal b then octal_digits pat (p + 1) n (push_bit 3 c + (uint b - 0x30)) else Some (c, p) }"

definition parse_zero_escape :: "REParseState \<Rightarrow> bool \<Rightarrow> nat \<Rightarrow> atom_result" where
  "parse_zero_escape s is_backward_dir p = do {
     b \<leftarrow> rd (pattern s) (p + 2);
     if ps_utf16 s then
       if is_digit b then re_parse_error ''invalid decimal escape in regular expression''
       else normal_char s is_backward_dir 0 None (p + 2)
     else do {
       (c, p) \<leftarrow> octal_digits (pattern s) (p + 2) 2 0;
       normal_char s is_backward_dir (word_of_int c) None p } }"

text \<open>\<open>q\<close> is the position of the digit.\<close>

definition parse_legacy_octal :: "REParseState \<Rightarrow> bool \<Rightarrow> nat \<Rightarrow> atom_result" where
  "parse_legacy_octal s is_backward_dir q = do {
     b \<leftarrow> rd (pattern s) q;
     if b \<le> asc CHR ''7'' then do {
       (c, p) \<leftarrow> (if b \<le> asc CHR ''3'' then octal_digits (pattern s) (q + 1) 2 (uint b - 0x30)
                  else octal_digits (pattern s) q 2 0);
       normal_char s is_backward_dir (word_of_int c) None p }
     else normal_char s is_backward_dir (ucast b) None (q + 1) }"

definition parse_decimal_escape :: "REParseState \<Rightarrow> bool \<Rightarrow> nat \<Rightarrow> atom_result" where
  "parse_decimal_escape s is_backward_dir p = do {
     let q = p + 1;
     (c, p) \<leftarrow> parse_digits (pattern s) q False;
     (bad, s) \<leftarrow>
       (if c < 0 then Some (True, s)
        else if c \<ge> int (captures s) then do { (n, s) \<leftarrow> re_count_captures s; Some (c \<ge> n, s) }
        else Some (False, s));
     if \<not> bad then emit_back_reference s is_backward_dir c p
     else if \<not> ps_utf16 s then parse_legacy_octal s is_backward_dir q
     else re_parse_error ''back reference out of range in regular expression'' }"

definition parse_escape_term :: "REParseState \<Rightarrow> bool \<Rightarrow> nat \<Rightarrow> atom_result" where
  "parse_escape_term s is_backward_dir p = do {
     b \<leftarrow> rd (pattern s) (p + 1);
     if b = asc CHR ''b'' \<or> b = asc CHR ''B'' then do {
       s \<leftarrow> re_emit_op s (if b = asc CHR ''b'' then REOP_word_boundary else REOP_not_word_boundary);
       ok (s, p + 2, None) }
     else if b = asc CHR ''k'' then parse_named_reference s is_backward_dir p
     else if b = asc CHR ''0'' then parse_zero_escape s is_backward_dir p
     else if is_digit b then parse_decimal_escape s is_backward_dir p
     else parse_class_atom s is_backward_dir p }"

text \<open>An open brace that is no atom: the lookahead over a repetition count.\<close>

definition brace_is_count :: "u8 list \<Rightarrow> nat \<Rightarrow> bool option" where
  "brace_is_count pat p = do {
     (v, p1) \<leftarrow> parse_digits pat (p + 1) True;
     b \<leftarrow> rd pat p1;
     p1 \<leftarrow> (if b = asc CHR '','' then do {
               b \<leftarrow> rd pat (p1 + 1);
               if is_digit b then map_option snd (parse_digits pat (p1 + 1) True) else Some (p1 + 1) }
            else Some p1);
     b \<leftarrow> rd pat p1;
     Some (b = asc CHR ''}'') }"

abbreviation nothing_to_repeat :: "'a parsed" where
  "nothing_to_repeat \<equiv> re_parse_error ''nothing to repeat''"

definition parse_brace :: "REParseState \<Rightarrow> bool \<Rightarrow> nat \<Rightarrow> atom_result" where
  "parse_brace s is_backward_dir p =
     (if ps_utf16 s then re_parse_error ''syntax error''
      else do {
        b \<leftarrow> rd (pattern s) (p + 1);
        if \<not> is_digit b then parse_class_atom s is_backward_dir p
        else do {
          r \<leftarrow> brace_is_count (pattern s) p;
          if r then nothing_to_repeat else parse_class_atom s is_backward_dir p } })"

definition parse_atom :: "parse_fun \<Rightarrow> REParseState \<Rightarrow> bool \<Rightarrow> nat \<Rightarrow> atom_result" where
  "parse_atom disjunction s is_backward_dir p = do {
     c \<leftarrow> rd (pattern s) p;
     if c = asc CHR ''^'' then do { s \<leftarrow> re_emit_op s REOP_line_start; ok (s, p + 1, None) }
     else if c = asc CHR ''$'' then do { s \<leftarrow> re_emit_op s REOP_line_end; ok (s, p + 1, None) }
     else if c = asc CHR ''.'' then do {
       let atom = atom_here s;
       s \<leftarrow> emit_prev s is_backward_dir;
       s \<leftarrow> re_emit_op s (if dotall s then REOP_any else REOP_dot);
       s \<leftarrow> emit_prev s is_backward_dir;
       ok (s, p + 1, atom) }
     else if c = asc CHR ''{'' then parse_brace s is_backward_dir p
     else if c = asc CHR ''*'' \<or> c = asc CHR ''+'' \<or> c = asc CHR ''?'' then nothing_to_repeat
     else if c = asc CHR ''('' then parse_group disjunction s is_backward_dir p
     else if c = 0x5c then parse_escape_term s is_backward_dir p
     else if c = asc CHR ''['' then do {
       let atom = atom_here s;
       s \<leftarrow> emit_prev s is_backward_dir;
       and_then (re_parse_char_class s p) (\<lambda>(s, p). do {
         s \<leftarrow> emit_prev s is_backward_dir;
         ok (s, p, atom) }) }
     else if (c = asc CHR '']'' \<or> c = asc CHR ''}'') \<and> ps_utf16 s then re_parse_error ''syntax error''
     else parse_class_atom s is_backward_dir p }"

definition re_parse_term :: "parse_fun \<Rightarrow> REParseState \<Rightarrow> bool \<Rightarrow> REParseState parsed" where
  "re_parse_term disjunction s is_backward_dir =
     and_then (parse_atom disjunction s is_backward_dir (buf_ptr s)) (\<lambda>(s, p, atom).
     and_then
       (case atom of None \<Rightarrow> ok (s, p)
        | Some (start, last_capture_count) \<Rightarrow> re_parse_quantifier s p start last_capture_count)
       (\<lambda>(s, p). ok (s\<lparr>buf_ptr := p\<rparr>)))"

section \<open>Alternatives and disjunctions\<close>

text \<open>The last term is moved before the others.\<close>

definition reverse_term :: "REParseState \<Rightarrow> nat \<Rightarrow> nat \<Rightarrow> REParseState parsed" where
  "reverse_term s start term_start =
     (let end' = code_size s; term_size = end' - term_start; (r, d) = dbuf_realloc (byte_code s) (end' + term_size)
      in if r \<noteq> 0 then re_parse_error []
         else if length (db_buf d) < end' + term_size then None
         else do {
           b \<leftarrow> blit (db_buf d) (start + term_size) (drop start (take end' (db_buf d)));
           b \<leftarrow> blit b start (take term_size (drop end' b));
           ok (s\<lparr>byte_code := d\<lparr>db_buf := b\<rparr>\<rparr>) })"

partial_function (option) re_parse_alternative_loop ::
  "(REParseState \<Rightarrow> bool \<Rightarrow> (string + REParseState) option) \<Rightarrow> nat \<Rightarrow> REParseState \<Rightarrow> bool
    \<Rightarrow> (string + REParseState) option" where
  "re_parse_alternative_loop disjunction start s is_backward_dir =
     (if buf_ptr s \<ge> buf_end s then Some (Inr s)
      else do {
        b \<leftarrow> rd (pattern s) (buf_ptr s);
        if b = asc CHR ''|'' \<or> b = asc CHR '')'' then Some (Inr s)
        else do {
          let term_start = code_size s;
          r \<leftarrow> and_then (re_parse_term disjunction s is_backward_dir)
                 (\<lambda>s. if is_backward_dir then reverse_term s start term_start else ok s);
          case r of Inl e \<Rightarrow> Some (Inl e)
          | Inr s \<Rightarrow> re_parse_alternative_loop disjunction start s is_backward_dir } })"

declare re_parse_alternative_loop.simps [code]

definition re_parse_alternative :: "parse_fun \<Rightarrow> parse_fun" where
  "re_parse_alternative disjunction s is_backward_dir =
     re_parse_alternative_loop disjunction (code_size s) s is_backward_dir"

partial_function (option) more_alternatives ::
  "(REParseState \<Rightarrow> bool \<Rightarrow> (string + REParseState) option) \<Rightarrow> nat \<Rightarrow> REParseState \<Rightarrow> bool
    \<Rightarrow> (string + REParseState) option" where
  "more_alternatives disjunction start s is_backward_dir = do {
     b \<leftarrow> rd (pattern s) (buf_ptr s);
     if b \<noteq> asc CHR ''|'' then Some (Inr s)
     else do {
       let len = code_size s - start;
       r \<leftarrow> and_then (code_insert (s\<lparr>buf_ptr := buf_ptr s + 1\<rparr>) start 5) (\<lambda>s. do {
         s \<leftarrow> code_wr start (opc REOP_split_next_first) s;
         s \<leftarrow> code_put_u32 (start + 1) (of_nat (len + 5)) s;
         (pos, s) \<leftarrow> re_emit_op_u32 s REOP_goto 0;
         and_then (re_parse_alternative disjunction s is_backward_dir) (\<lambda>s. do {
           s \<leftarrow> code_put_u32 pos (of_nat (code_size s) - (of_nat pos + 4)) s;
           ok s }) });
       case r of Inl e \<Rightarrow> Some (Inl e)
       | Inr s \<Rightarrow> more_alternatives disjunction start s is_backward_dir } }"

declare more_alternatives.simps [code]

primrec re_parse_disjunction :: "nat \<Rightarrow> parse_fun" where
  "re_parse_disjunction 0 = (\<lambda>s is_backward_dir. re_parse_error ''stack overflow'')"
| "re_parse_disjunction (Suc depth) = (\<lambda>s is_backward_dir.
     and_then (re_parse_alternative (re_parse_disjunction depth) s is_backward_dir)
       (\<lambda>s'. more_alternatives (re_parse_disjunction depth) (code_size s) s' is_backward_dir))"

section \<open>The entry point\<close>

text \<open>\<open>buf\<close> is the pattern with its terminating zero, \<open>depth\<close> the recursion that the embedding program
  admits, \<open>alloc\<close> and \<open>cr_al\<close> its allocator for bytes and for code points.\<close>

definition lre_parser ::
  "(u8 list \<Rightarrow> nat \<Rightarrow> u8 list option) \<Rightarrow> (u32 list \<Rightarrow> nat \<Rightarrow> u32 list option) \<Rightarrow> u8 list \<Rightarrow> u8 \<Rightarrow> REParseState" where
  "lre_parser alloc cr_al buf re_flags =
     \<lparr>byte_code = dbuf_init2 alloc, buf_ptr = 0, pattern = buf, buf_end = length buf - 1,
      ps_utf16 = (re_flags AND 16 \<noteq> 0), ps_ignore_case = (re_flags AND 2 \<noteq> 0), dotall = (re_flags AND 8 \<noteq> 0),
      captures = 1, total_capture_count = -1, has_named_captures = -1, group_names = dbuf_init2 alloc,
      cr_alloc = cr_al\<rparr>"

definition lre_prologue :: "REParseState \<Rightarrow> u8 \<Rightarrow> REParseState option" where
  "lre_prologue s re_flags = do {
     s \<leftarrow> out (\<lambda>d. dbuf_putc d re_flags) s;
     s \<leftarrow> out (\<lambda>d. dbuf_putc d 0) s;
     s \<leftarrow> out (\<lambda>d. dbuf_putc d 0) s;
     s \<leftarrow> out (\<lambda>d. dbuf_put_u32 d 0) s;
     s \<leftarrow> (if re_flags AND 32 = 0 then do {
             (pos, s) \<leftarrow> re_emit_op_u32 s REOP_split_goto_first (1 + 5);
             s \<leftarrow> re_emit_op s REOP_any;
             (pos, s) \<leftarrow> re_emit_op_u32 s REOP_goto (- (5 + 1 + 5));
             Some s }
           else Some s);
     re_emit_op_u8 s REOP_save_start 0 }"

definition lre_epilogue :: "REParseState \<Rightarrow> u8 list parsed" where
  "lre_epilogue s = do {
     s \<leftarrow> re_emit_op_u8 s REOP_save_end 0;
     s \<leftarrow> re_emit_op s REOP_match;
     b \<leftarrow> rd (pattern s) (buf_ptr s);
     if b \<noteq> 0 then re_parse_error ''extraneous characters at the end''
     else if db_error (byte_code s) then re_parse_out_of_memory
     else do {
       stack_size \<leftarrow> compute_stack_size (db_buf (byte_code s)) (code_size s);
       if stack_size < 0 then re_parse_error ''too many imbricated quantifiers''
       else do {
         s \<leftarrow> code_wr 1 (of_nat (captures s)) s;
         s \<leftarrow> code_wr 2 (word_of_int stack_size) s;
         s \<leftarrow> code_put_u32 3 (of_nat (code_size s - 7)) s;
         s \<leftarrow> (if db_size (group_names s) > captures s - 1 then do {
                 s \<leftarrow> out (\<lambda>d. dbuf_put d (dbuf_data (group_names s))) s;
                 flags \<leftarrow> rd (db_buf (byte_code s)) 0;
                 code_wr 0 (flags OR 128) s }
               else Some s);
         ok (dbuf_data (byte_code s)) } } }"

definition lre_compile ::
  "(u8 list \<Rightarrow> nat \<Rightarrow> u8 list option) \<Rightarrow> (u32 list \<Rightarrow> nat \<Rightarrow> u32 list option) \<Rightarrow> nat \<Rightarrow> u8 list \<Rightarrow> u8
    \<Rightarrow> u8 list parsed" where
  "lre_compile alloc cr_al depth buf re_flags = do {
     s \<leftarrow> lre_prologue (lre_parser alloc cr_al buf re_flags) re_flags;
     and_then (re_parse_disjunction depth s False) lre_epilogue }"

end
