(* ===== verification/RegexpWords.thy ===== *)
theory RegexpWords
  imports RegexpCompile RegexpClass RegexpSearch
begin

text \<open>
  The compiler and the interpreter of regular expressions together, on words: the byte code of a
  pattern without special characters, and what its execution finds.
\<close>

section \<open>Compiling a word\<close>

definition plain :: "u8 \<Rightarrow> bool" where
  "plain b \<longleftrightarrow> b < 128 \<and> b \<noteq> 0 \<and> b \<noteq> 0x5c \<and> b \<notin> set (map asc ''^$.*+?()[]{}|'')"

definition word_code :: "u8 list \<Rightarrow> u8 list" where
  "word_code w = concat (map (\<lambda>b. opc REOP_char # le16 (ucast b)) w)"

lemma asc_zero:
  "(0 :: u8) \<noteq> asc CHR ''*''" "(0 :: u8) \<noteq> asc CHR ''+''" "(0 :: u8) \<noteq> asc CHR ''?''" "(0 :: u8) \<noteq> asc CHR ''{''"
  "(0 :: u8) \<noteq> asc CHR ''|''" "(0 :: u8) \<noteq> asc CHR '')''"
  by (simp_all add: asc_def)

lemma plain_word:
  assumes "plain b"
  shows "\<not> CLASS_RANGE_BASE \<le> ucast b" and "(ucast b :: u32) \<le> 0xffff" and "\<not> 128 \<le> b"
proof -
  have b: "uint b < 128"
    using assms by (simp add: plain_def word_less_def)
  show "\<not> CLASS_RANGE_BASE \<le> ucast b" "(ucast b :: u32) \<le> 0xffff"
    using b by (simp_all add: CLASS_RANGE_BASE_def word_le_def unsigned_ucast_eq)
  show "\<not> 128 \<le> b"
    using assms by (simp add: plain_def not_le)
qed

lemma ucast_via: "ucast (ucast (b :: u8) :: u32) = (ucast b :: u16)"
  by (rule bit_word_eqI) (auto simp: bit_simps dest: bit_imp_le_length)

lemma ucast_via2: "ucast (ucast (b :: u8) :: u16) = (ucast b :: u32)"
  by (rule bit_word_eqI) (auto simp: bit_simps dest: bit_imp_le_length)

text \<open>The state between two letters.\<close>

definition in_word :: "u8 list \<Rightarrow> REParseState \<Rightarrow> bool" where
  "in_word w s \<longleftrightarrow> pattern s = w @ [0] \<and> buf_end s = length w \<and> \<not> ps_ignore_case s \<and> dbuf_wf (byte_code s)"

lemma in_word_update:
  "in_word w s \<Longrightarrow> dbuf_wf d \<Longrightarrow> in_word w (s\<lparr>byte_code := d\<rparr>)" "in_word w s \<Longrightarrow> in_word w (s\<lparr>buf_ptr := p\<rparr>)"
  by (simp_all add: in_word_def)

lemma emits_at: "emits s bs s' \<Longrightarrow> emits (s\<lparr>buf_ptr := p\<rparr>) bs (s'\<lparr>buf_ptr := p\<rparr>)"
  unfolding emits_def by (elim exE, rule exI, auto)

lemma get_class_atom_plain:
  assumes "in_word w s" and "k < length w" and "plain (w ! k)"
  shows "get_class_atom s k False = ok (ucast (w ! k), None, k + 1)"
proof -
  have "rd (pattern s) k = Some (w ! k)"
    using assms by (simp add: in_word_def nth_append)
  then show ?thesis
    using assms(3) plain_word(3) [OF assms(3)]
    by (simp add: get_class_atom_def normal_char_at_def plain_def)
qed

lemma re_parse_term_plain:
  assumes s: "in_word w s" and k: "buf_ptr s = k" "k < length w" and plain: "\<forall>b \<in> set w. plain b"
  shows "\<exists>s'. re_parse_term disjunction s False = Some (Inr s') \<and>
    emits (s\<lparr>buf_ptr := k + 1\<rparr>) (word_code [w ! k]) s'"
proof -
  let ?b = "w ! k"
  have b: "plain ?b" and rd: "rd (pattern s) k = Some ?b"
    using s k plain by (simp_all add: in_word_def nth_append)
  obtain s1 where s1: "re_emit_op_u16 s REOP_char (ucast ?b) = Some s1" "emits s (word_code [?b]) s1"
    using re_emit_op_u16_emits [of s REOP_char "ucast ?b"] s by (auto simp: in_word_def word_code_def ucast_via)
  obtain d where d: "s1 = s\<lparr>byte_code := d\<rparr>" "dbuf_wf d"
    using s1(2) by (auto simp: emits_def)
  have atom: "parse_atom disjunction s False k = ok (s1, k + 1, atom_here s)"
    using b rd get_class_atom_plain [OF s k(2) b] plain_word(1,2) [OF b] s1(1) s
    by (simp add: parse_atom_def plain_def parse_class_atom_def normal_char_def emit_prev_def lift_ok_def in_word_def ok_def)
  have quant: "re_parse_quantifier s1 (k + 1) start caps = ok (s1, k + 1)" for start caps
  proof (cases "k + 1 < length w")
    case True
    then have "rd (pattern s1) (k + 1) = Some (w ! (k + 1))" "plain (w ! (k + 1))"
      using s plain d by (simp_all add: in_word_def nth_append)
    then show ?thesis
      by (simp add: re_parse_quantifier_def plain_def)
  next
    case False
    then have "rd (pattern s1) (k + 1) = Some 0"
      using s k(2) d by (simp add: in_word_def nth_append)
    then show ?thesis
      using asc_zero by (simp add: re_parse_quantifier_def)
  qed
  have "re_parse_term disjunction s False = Some (Inr (s1\<lparr>buf_ptr := k + 1\<rparr>))"
    using atom quant k(1) by (simp add: re_parse_term_def atom_here_def ok_def)
  then show ?thesis
    using emits_at [OF s1(2), of "k + 1"] by blast
qed

lemma alternative_plain:
  assumes plain: "\<forall>b \<in> set w. plain b"
  shows "in_word w s \<Longrightarrow> buf_ptr s = k \<Longrightarrow> k \<le> length w \<Longrightarrow>
    \<exists>s'. re_parse_alternative_loop disjunction start s False = Some (Inr s') \<and>
      emits (s\<lparr>buf_ptr := length w\<rparr>) (word_code (drop k w)) s'"
proof (induction "length w - k" arbitrary: k s)
  case 0
  then have "k = length w"
    by simp
  then have "re_parse_alternative_loop disjunction start s False = Some (Inr s)"
    using 0 by (simp add: re_parse_alternative_loop.simps [of _ _ s] in_word_def)
  moreover have "s\<lparr>buf_ptr := length w\<rparr> = s"
    using 0(3) \<open>k = length w\<close> by (cases s) simp
  ultimately show ?case
    using 0(2) \<open>k = length w\<close> emits_nil [of s] by (auto simp: in_word_def word_code_def)
next
  case (Suc n)
  then have k: "k < length w"
    by simp
  obtain s1 where s1: "re_parse_term disjunction s False = Some (Inr s1)"
      "emits (s\<lparr>buf_ptr := k + 1\<rparr>) (word_code [w ! k]) s1"
    using re_parse_term_plain [OF Suc.prems(1,2) k plain, of disjunction] by blast
  obtain d where d: "s1 = s\<lparr>buf_ptr := k + 1, byte_code := d\<rparr>" "dbuf_wf d"
    using s1(2) by (auto simp: emits_def)
  have "in_word w s1" "buf_ptr s1 = k + 1"
    using d Suc.prems(1) by (simp_all add: in_word_def)
  moreover have "n = length w - (k + 1)" "k + 1 \<le> length w"
    using Suc.hyps(2) k by simp_all
  ultimately obtain s2 where s2:
      "re_parse_alternative_loop disjunction start s1 False = Some (Inr s2)"
      "emits (s1\<lparr>buf_ptr := length w\<rparr>) (word_code (drop (k + 1) w)) s2"
    using Suc.hyps(1) by blast
  have b: "rd (pattern s) k = Some (w ! k)" "plain (w ! k)"
    using Suc.prems(1) k plain by (simp_all add: in_word_def nth_append)
  have "re_parse_alternative_loop disjunction start s False = Some (Inr s2)"
    using b s1(1) s2(1) Suc.prems k
    by (simp add: re_parse_alternative_loop.simps [of _ _ s] in_word_def plain_def ok_def)
  moreover have "emits (s\<lparr>buf_ptr := length w\<rparr>) (word_code [w ! k]) (s1\<lparr>buf_ptr := length w\<rparr>)"
    using emits_at [OF s1(2), of "length w"] by simp
  moreover have "word_code (drop k w) = word_code [w ! k] @ word_code (drop (k + 1) w)"
    using k by (simp add: word_code_def Cons_nth_drop_Suc [symmetric])
  ultimately show ?case
    using emits_trans s2(2) by metis
qed

lemma disjunction_plain:
  assumes plain: "\<forall>b \<in> set w. plain b" and s: "in_word w s" "buf_ptr s = 0"
  shows "\<exists>s'. re_parse_disjunction (Suc depth) s False = Some (Inr s') \<and>
    emits (s\<lparr>buf_ptr := length w\<rparr>) (word_code w) s'"
proof -
  obtain s1 where s1: "re_parse_alternative_loop (re_parse_disjunction depth) (code_size s) s False = Some (Inr s1)"
      "emits (s\<lparr>buf_ptr := length w\<rparr>) (word_code w) s1"
    using alternative_plain [OF plain s, of "re_parse_disjunction depth" "code_size s"] by auto
  have "rd (pattern s1) (buf_ptr s1) = Some 0"
    using s1(2) s(1) by (auto simp: emits_def in_word_def)
  then have "more_alternatives (re_parse_disjunction depth) (code_size s) s1 False = Some (Inr s1)"
    using asc_zero by (simp add: more_alternatives.simps [of _ _ s1])
  then show ?thesis
    using s1 by (simp add: re_parse_alternative_def)
qed

section \<open>The code of a word\<close>

text \<open>The sizes of the code behind its header and the header.\<close>

definition word_header :: "u8 \<Rightarrow> nat \<Rightarrow> u8 list" where
  "word_header f n = [f, 1, 0] @ le32 (of_nat n)"

lemma re_emit_op_emits:
  "dbuf_wf (byte_code s) \<Longrightarrow> \<exists>s'. re_emit_op s op = Some s' \<and> emits s [opc op] s'"
  unfolding re_emit_op_def by (rule out_puts)

lemma re_emit_op_u8_emits:
  assumes "dbuf_wf (byte_code s)"
  shows "\<exists>s'. re_emit_op_u8 s op v = Some s' \<and> emits s [opc op, ucast v] s'"
proof -
  obtain s1 where s1: "out (\<lambda>d. dbuf_putc d (opc op)) s = Some s1" "emits s [opc op] s1"
    using out_puts(1) [OF assms] by blast
  obtain s2 where "out (\<lambda>d. dbuf_putc d (ucast v)) s1 = Some s2" "emits s1 [ucast v] s2"
    using out_puts(1) [OF emits_wf [OF s1(2)]] by blast
  then show ?thesis
    using s1 emits_trans [of s "[opc op]" s1] by (auto simp: re_emit_op_u8_def)
qed

definition search_code :: "u8 \<Rightarrow> u8 list" where
  "search_code f =
     (if f AND 32 = 0
      then opc REOP_split_goto_first # le32 6 @ [opc REOP_any] @ opc REOP_goto # le32 (- 11) else [])"

lemma lre_prologue_emits:
  assumes "dbuf_wf (byte_code s)"
  shows "\<exists>s'. lre_prologue s f = Some s' \<and>
    emits s ([f, 0, 0] @ le32 0 @ search_code f @ [opc REOP_save_start, 0]) s'"
proof -
  obtain s1 where s1: "out (\<lambda>d. dbuf_putc d f) s = Some s1" "emits s [f] s1"
    using out_puts(1) [OF assms] by blast
  obtain s2 where s2: "out (\<lambda>d. dbuf_putc d 0) s1 = Some s2" "emits s1 [0] s2"
    using out_puts(1) [OF emits_wf [OF s1(2)]] by blast
  obtain s3 where s3: "out (\<lambda>d. dbuf_putc d 0) s2 = Some s3" "emits s2 [0] s3"
    using out_puts(1) [OF emits_wf [OF s2(2)]] by blast
  obtain s4 where s4: "out (\<lambda>d. dbuf_put_u32 d 0) s3 = Some s4" "emits s3 (le32 0) s4"
    using out_puts(3) [OF emits_wf [OF s3(2)]] by blast
  obtain p s5 where s5: "re_emit_op_u32 s4 REOP_split_goto_first 6 = Some (p, s5)"
      "emits s4 (opc REOP_split_goto_first # le32 6) s5"
    using re_emit_op_u32_emits [OF emits_wf [OF s4(2)]] by blast
  obtain s6 where s6: "re_emit_op s5 REOP_any = Some s6" "emits s5 [opc REOP_any] s6"
    using re_emit_op_emits [OF emits_wf [OF s5(2)]] by blast
  obtain p' s7 where s7: "re_emit_op_u32 s6 REOP_goto (- 11) = Some (p', s7)"
      "emits s6 (opc REOP_goto # le32 (- 11)) s7"
    using re_emit_op_u32_emits [OF emits_wf [OF s6(2)]] by blast
  define s8 where "s8 = (if f AND 32 = 0 then s7 else s4)"
  have "emits s4 (search_code f) s8"
    using emits_trans [OF emits_trans [OF s5(2) s6(2)] s7(2)] emits_nil [OF emits_wf [OF s4(2)]]
    by (simp add: search_code_def s8_def)
  with emits_trans [OF emits_trans [OF emits_trans [OF emits_trans [OF s1(2) s2(2)] s3(2)] s4(2)]]
  have s8: "emits s ([f, 0, 0] @ le32 0 @ search_code f) s8"
    by force
  obtain s9 where s9: "re_emit_op_u8 s8 REOP_save_start 0 = Some s9" "emits s8 [opc REOP_save_start, 0] s9"
    using re_emit_op_u8_emits [OF emits_wf [OF s8], of REOP_save_start 0] by auto
  have "lre_prologue s f = Some s9"
    using s1(1) s2(1) s3(1) s4(1) s5(1) s6(1) s7(1) s9(1) by (auto simp: lre_prologue_def s8_def)
  then show ?thesis
    using emits_trans [OF s8 s9(2)] by force
qed

text \<open>No instruction of a word uses the stack.\<close>

lemma rd_drop: "drop i bc = b # rest \<Longrightarrow> rd bc i = Some b"
  by (metis drop_all hd_drop_conv_nth le_less_linear list.distinct(1) list.sel(1) rd_in)

lemma drop_more: "drop i bc = xs @ rest \<Longrightarrow> drop (i + length xs) bc = rest"
  by (metis append_eq_conv_conj add.commute drop_drop)

definition no_stack :: "reop list" where
  "no_stack = [REOP_char, REOP_any, REOP_goto, REOP_split_goto_first, REOP_save_start, REOP_save_end, REOP_match]"

lemma stack_size_skip:
  assumes "drop (7 + pos) bc = opc op # rest" and "op \<in> set no_stack" and "pos + reopcode_info op \<le> n"
  shows "stack_size_loop bc n pos 0 0 = stack_size_loop bc n (pos + reopcode_info op) 0 0"
proof -
  have "insn_at bc (7 + pos) = Some (op, reopcode_info op)" "0 < reopcode_info op"
      "op \<notin> {REOP_push_i32, REOP_push_char_pos, REOP_drop, REOP_bne_char_pos}"
    using assms(2) rd_drop [OF assms(1)] by (auto simp: insn_at_def no_stack_def opc_def reops_def)
  then show ?thesis
    using assms(3) by (simp add: stack_size_loop.simps [of bc n pos])
qed

lemma stack_size_word:
  "drop (7 + pos) bc = word_code v @ rest \<Longrightarrow> pos + 3 * length v \<le> n \<Longrightarrow>
    stack_size_loop bc n pos 0 0 = stack_size_loop bc n (pos + 3 * length v) 0 0"
proof (induction v arbitrary: pos)
  case (Cons b v)
  have l: "length (le16 (ucast b)) = 2"
    by (simp add: le16_def)
  have "reopcode_info REOP_char = 3"
    by simp
  then have "stack_size_loop bc n pos 0 0 = stack_size_loop bc n (pos + 3) 0 0"
    using stack_size_skip [of pos bc REOP_char "le16 (ucast b) @ word_code v @ rest" n] Cons.prems
    by (simp add: word_code_def no_stack_def)
  moreover have "drop (7 + (pos + 3)) bc = word_code v @ rest"
    using drop_more [of "7 + pos" bc "opc REOP_char # le16 (ucast b)" "word_code v @ rest"] Cons.prems(1) l
    by (simp add: word_code_def add.assoc)
  ultimately show ?case
    using Cons.IH [of "pos + 3"] Cons.prems(2) by (simp add: add.assoc)
qed simp

lemma stack_size_op:
  assumes "drop (7 + pos) bc = (opc op # args) @ rest" and "op \<in> set no_stack"
    and "reopcode_info op = Suc (length args)" and "pos + Suc (length args) \<le> n"
  shows "stack_size_loop bc n pos 0 0 = stack_size_loop bc n (pos + Suc (length args)) 0 0"
    and "drop (7 + (pos + Suc (length args))) bc = rest"
  using stack_size_skip [of pos bc op "args @ rest" n] drop_more [OF assms(1)] assms
  by (simp_all add: add.assoc)

definition word_body :: "u8 \<Rightarrow> u8 list \<Rightarrow> u8 list" where
  "word_body f w =
     search_code f @ [opc REOP_save_start, 0] @ word_code w @ [opc REOP_save_end, 0, opc REOP_match]"

lemma length_word_code: "length (word_code w) = 3 * length w"
  by (induction w) (simp_all add: word_code_def length_le)

lemma stack_size_search:
  assumes "drop 7 bc = search_code f @ rest" and "length (search_code f) \<le> n"
  shows "stack_size_loop bc n 0 0 0 = stack_size_loop bc n (length (search_code f)) 0 0"
proof (cases "f AND 32 = 0")
  case True
  have c: "search_code f = (opc REOP_split_goto_first # le32 6) @ (opc REOP_any # []) @ (opc REOP_goto # le32 (- 11))"
    using True by (simp add: search_code_def)
  have n: "11 \<le> n" "length (search_code f) = 11"
    using assms(2) by (simp_all add: c length_le)
  have 1: "drop (7 + 0) bc = (opc REOP_split_goto_first # le32 6) @ (opc REOP_any # []) @ (opc REOP_goto # le32 (- 11)) @ rest"
    using assms(1) by (simp add: c)
  note 2 = stack_size_op [OF 1, of n, unfolded length_le]
  have d: "drop (7 + 5) bc = (opc REOP_any # []) @ (opc REOP_goto # le32 (- 11)) @ rest"
    "stack_size_loop bc n 0 0 0 = stack_size_loop bc n 5 0 0"
    using 2 n by (simp_all add: no_stack_def)
  note 3 = stack_size_op [OF d(1), of n, simplified]
  have e: "drop (7 + 6) bc = (opc REOP_goto # le32 (- 11)) @ rest"
    "stack_size_loop bc n 5 0 0 = stack_size_loop bc n 6 0 0"
    using 3 n by (simp_all add: no_stack_def)
  show ?thesis
    using stack_size_op(1) [OF e(1), of n, unfolded length_le] d e n by (simp add: no_stack_def)
next
  case False
  then show ?thesis
    by (simp add: search_code_def)
qed

lemma compute_stack_size_word:
  assumes "length h = 7"
  shows "compute_stack_size (h @ word_body f w @ junk) (7 + length (word_body f w)) = Some 0"
proof -
  let ?bc = "h @ word_body f w @ junk" and ?n = "length (word_body f w)" and ?m = "length (search_code f)"
  let ?tail = "[opc REOP_save_end, 0, opc REOP_match] @ junk"
  have n: "?n = ?m + 3 * length w + 5"
    by (simp add: word_body_def length_word_code)
  have "drop 7 ?bc = search_code f @ [opc REOP_save_start, 0] @ word_code w @ ?tail"
    using assms by (simp add: word_body_def)
  then have 1: "stack_size_loop ?bc ?n 0 0 0 = stack_size_loop ?bc ?n ?m 0 0"
      "drop (7 + ?m) ?bc = (opc REOP_save_start # [0]) @ word_code w @ ?tail"
    using stack_size_search [of ?bc f _ ?n] drop_more [of 7 ?bc "search_code f"] n by simp_all
  have 2: "stack_size_loop ?bc ?n ?m 0 0 = stack_size_loop ?bc ?n (?m + 2) 0 0"
      "drop (7 + (?m + 2)) ?bc = word_code w @ ?tail"
    using stack_size_op [OF 1(2), of ?n] n by (simp_all add: no_stack_def)
  have 3: "stack_size_loop ?bc ?n (?m + 2) 0 0 = stack_size_loop ?bc ?n (?m + 2 + 3 * length w) 0 0"
      "drop (7 + (?m + 2 + 3 * length w)) ?bc = (opc REOP_save_end # [0]) @ opc REOP_match # [] @ junk"
    using stack_size_word [OF 2(2), of ?n] drop_more [OF 2(2)] n by (simp_all add: length_word_code add.assoc)
  have 4: "stack_size_loop ?bc ?n (?m + 2 + 3 * length w) 0 0 = stack_size_loop ?bc ?n (?m + 2 + 3 * length w + 2) 0 0"
      "drop (7 + (?m + 2 + 3 * length w + 2)) ?bc = (opc REOP_match # []) @ junk"
    using stack_size_op [OF 3(2), of ?n] n by (simp_all add: no_stack_def)
  have "stack_size_loop ?bc ?n (?m + 2 + 3 * length w + 2) 0 0 = stack_size_loop ?bc ?n ?n 0 0"
    using stack_size_op(1) [OF 4(2), of ?n] n by (simp add: no_stack_def eval_nat_numeral)
  also have "\<dots> = Some 0"
    by (simp add: stack_size_loop.simps [of ?bc ?n])
  finally show ?thesis
    using 1(1) 2(1) 3(1) 4(1) by (simp add: compute_stack_size_def)
qed

lemma lre_epilogue_plain:
  assumes s: "in_word w s" "buf_ptr s = length w" "captures s = 1" "db_size (group_names s) = 0"
    and data: "db_error (byte_code s) \<or>
      dbuf_data (byte_code s) = [f, 0, 0] @ le32 0 @ search_code f @ [opc REOP_save_start, 0] @ word_code w"
  shows "lre_epilogue s \<in> {re_parse_out_of_memory, ok (word_header f (length (word_body f w)) @ word_body f w)}"
proof -
  obtain s1 where s1: "re_emit_op_u8 s REOP_save_end 0 = Some s1" "emits s [opc REOP_save_end, 0] s1"
    using re_emit_op_u8_emits [of s REOP_save_end 0] s(1) by (auto simp: in_word_def)
  obtain s2 where s2: "re_emit_op s1 REOP_match = Some s2" "emits s1 [opc REOP_match] s2"
    using re_emit_op_emits [OF emits_wf [OF s1(2)]] by blast
  obtain d where d: "s2 = s\<lparr>byte_code := d\<rparr>" "dbuf_wf d" "db_error (byte_code s) \<longrightarrow> db_error d"
      "db_error d \<or> dbuf_data d = dbuf_data (byte_code s) @ [opc REOP_save_end, 0, opc REOP_match]"
    using emits_trans [OF s1(2) s2(2)] by (auto simp: emits_def)
  have rd: "rd (pattern s) (length w) = Some 0"
    using s(1) by (simp add: in_word_def)
  show ?thesis
  proof (cases "db_error d")
    case True
    then show ?thesis
      using s1(1) s2(1) rd s(2) d(1) by (simp add: lre_epilogue_def)
  next
    case False
    let ?body = "word_body f w"
    have dd: "dbuf_data d = f # 0 # 0 # 0 # 0 # 0 # 0 # ?body"
      using False data d(3,4) by (auto simp: word_body_def le32_def)
    have size: "db_size d = 7 + length ?body"
      using length_dbuf_data [OF d(2)] dd by simp
    obtain junk where buf: "db_buf d = f # 0 # 0 # 0 # 0 # 0 # 0 # ?body @ junk"
      using dd append_take_drop_id [of "db_size d" "db_buf d"] unfolding dbuf_data_def by (metis append_Cons)
    have "compute_stack_size (db_buf d) (db_size d) = Some 0"
      using compute_stack_size_word [of "[f, 0, 0, 0, 0, 0, 0]" f w junk] size buf by simp
    then show ?thesis
      using s1(1) s2(1) rd s d(1) False buf size
      by (simp add: lre_epilogue_def code_size_def code_wr_def code_put_u32_def put_u32_def blit_def wr_def
          dbuf_data_def word_header_def length_le ok_def eval_nat_numeral)
  qed
qed

lemma lre_compile_plain:
  assumes "realloc_law alloc" and plain: "\<forall>b \<in> set w. plain b" and f: "f AND 2 = 0"
  shows "lre_compile alloc cr_al (Suc d) (w @ [0]) f \<in>
    {re_parse_out_of_memory, ok (word_header f (length (word_body f w)) @ word_body f w)}"
proof -
  let ?s = "lre_parser alloc cr_al (w @ [0]) f"
  have wf: "dbuf_wf (byte_code ?s)" "dbuf_data (byte_code ?s) = []"
    using dbuf_init2_wf [OF assms(1)] by (simp_all add: lre_parser_def)
  obtain s1 where s1: "lre_prologue ?s f = Some s1"
      "emits ?s ([f, 0, 0] @ le32 0 @ search_code f @ [opc REOP_save_start, 0]) s1"
    using lre_prologue_emits [OF wf(1)] by blast
  then have w: "in_word w s1" "buf_ptr s1 = 0" "captures s1 = 1" "db_size (group_names s1) = 0"
    using f by (auto simp: emits_def in_word_def lre_parser_def dbuf_init2_def)
  obtain s2 where s2: "re_parse_disjunction (Suc d) s1 False = Some (Inr s2)"
      "emits (s1\<lparr>buf_ptr := length w\<rparr>) (word_code w) s2"
    using disjunction_plain [OF plain w(1,2)] by blast
  have "in_word w s2" "buf_ptr s2 = length w" "captures s2 = 1" "db_size (group_names s2) = 0"
    using s2(2) w by (auto simp: emits_def in_word_def)
  moreover have "db_error (byte_code s2) \<or>
      dbuf_data (byte_code s2) = [f, 0, 0] @ le32 0 @ search_code f @ [opc REOP_save_start, 0] @ word_code w"
    using s1(2) s2(2) wf(2) by (auto simp: emits_def)
  ultimately show ?thesis
    using lre_epilogue_plain [of w s2 f] s1(1) s2(1) by (simp add: lre_compile_def and_then_def)
qed

section \<open>Executing a word\<close>

lemma from_surrogates_large: "0x10000 \<le> from_surrogates hi lo"
proof -
  let ?x = "push_bit 10 (hi AND 0x3ff) OR (lo AND 0x3ff) :: u32"
  have "c AND 0x3ff = take_bit 10 c" for c :: u32
    by (simp add: take_bit_eq_mask mask_eq_exp_minus_1)
  then have b: "uint (c AND 0x3ff) < 1024" for c :: u32
    using take_bit_int_less_exp [of 10 "uint c"] by (simp add: unsigned_take_bit_eq)
  have "uint (push_bit 10 (hi AND 0x3ff)) = uint (hi AND 0x3ff) * 1024"
    using b [of hi] by (simp only: push_bit_eq_mult uint_word_ariths) simp
  then have "uint (push_bit 10 (hi AND 0x3ff)) < 2 ^ 20"
    using b [of hi] by simp
  then have "uint ?x < 2 ^ 20"
    unfolding uint_or by (rule OR_upper [rotated]) (use b [of lo] in simp_all)
  then have "uint (?x + 0x10000) = uint ?x + 0x10000"
    by (simp add: uint_word_ariths)
  then show ?thesis
    by (simp add: from_surrogates_def word_le_def)
qed
lemma surrogate_large: "is_hi_surrogate c \<or> is_lo_surrogate c \<Longrightarrow> 128 \<le> c"
  by (auto simp: is_hi_surrogate_def is_lo_surrogate_def word_le_def)

lemma GET_CHAR_cases:
  assumes "p < length (cbuf S)"
  shows "\<exists>c q. GET_CHAR S p (length (cbuf S)) = Some (c, q) \<and>
    (c = cbuf S ! p \<and> q = p + 1 \<or>
     128 \<le> c \<and> 128 \<le> cbuf S ! p \<and> q = p + 2 \<and> p + 1 < length (cbuf S) \<and> 128 \<le> cbuf S ! (p + 1))"
proof -
  have "128 \<le> from_surrogates hi lo" for hi lo
    using from_surrogates_large [of hi lo] by (simp add: word_le_def)
  then show ?thesis
    using assms by (auto simp: GET_CHAR_def surrogate_large)
qed

text \<open>The word \<open>w\<close> is at \<open>p\<close>; the place where a search from \<open>p\<close> finds it.\<close>

definition word_at_pos :: "u8 list \<Rightarrow> u32 list \<Rightarrow> nat \<Rightarrow> bool" where
  "word_at_pos w t p \<longleftrightarrow> take (length w) (drop p t) = map ucast w"

definition word_match :: "u8 list \<Rightarrow> nat \<Rightarrow> nat option list" where
  "word_match w p = [Some p, Some (p + length w)]"

lemma word_at_Cons:
  "word_at_pos (b # w) t p \<longleftrightarrow> p < length t \<and> t ! p = ucast b \<and> word_at_pos w t (p + 1)"
  by (cases "p < length t") (auto simp: word_at_pos_def Cons_nth_drop_Suc [symmetric])

definition word_context :: "re_context \<Rightarrow> bool" where
  "word_context S \<longleftrightarrow> capture_count S = 1 \<and> \<not> ignore_case S"

lemma fetch_drop: "drop pc (bc_buf S) = opc op # rest \<Longrightarrow> fetch S pc = Some op"
  using rd_drop [of pc "bc_buf S"] by (cases op) (simp_all add: fetch_def opc_def reops_def)

lemma get_drop:
  "drop pc bc = le16 u @ rest \<Longrightarrow> get_u16 bc pc = Some (ucast u)"
  "drop pc bc = le32 v @ rest \<Longrightarrow> get_u32 bc pc = Some v"
proof -
  assume d: "drop pc bc = le16 u @ rest"
  then have "length (take pc bc) = pc"
    by (metis drop_all length_le(1) length_append length_take linorder_linear list.size(3) min.absorb2 zero_neq_numeral add_is_0)
  then show "get_u16 bc pc = Some (ucast u)"
    using get_u16_le16 [of "take pc bc" u rest] append_take_drop_id [of pc bc] d by simp
next
  assume d: "drop pc bc = le32 v @ rest"
  then have "length (take pc bc) = pc"
    by (metis drop_all length_le(2) length_append length_take linorder_linear list.size(3) min.absorb2 zero_neq_numeral add_is_0)
  then show "get_u32 bc pc = Some v"
    using get_u32_le32 [of "take pc bc" v rest] append_take_drop_id [of pc bc] d by simp
qed

lemma step_char:
  assumes S: "word_context S" and code: "drop (re_pc s) (bc_buf S) = (opc REOP_char # le16 (ucast b)) @ rest"
    and b: "plain b"
  shows "re_step S s = Some (if re_cptr s < length (cbuf S) \<and> cbuf S ! re_cptr s = ucast b
    then Go (s\<lparr>re_pc := re_pc s + 3, re_cptr := re_cptr s + 1\<rparr>) else No_match)"
proof -
  have "drop (re_pc s + 1) (bc_buf S) = le16 (ucast b) @ rest"
    using drop_more [of "re_pc s" "bc_buf S" "[opc REOP_char]"] code by simp
  then have val: "get_u16 (bc_buf S) (re_pc s + 1) = Some (ucast b)"
    using get_drop(1) by (metis ucast_via2)
  have small: "\<not> 128 \<le> (ucast b :: u32)"
    using plain_word(3) [OF b] by (simp add: word_le_def unsigned_ucast_eq)
  have op: "fetch S (re_pc s) = Some REOP_char" "is_simple_op REOP_char"
    using fetch_drop [of "re_pc s" S REOP_char] code by (simp_all add: is_simple_op_def)
  show ?thesis
  proof (cases "re_cptr s < length (cbuf S)")
    case True
    have l: "cbuf (subject_of S) = cbuf S"
      by (simp add: subject_of_def)
    from GET_CHAR_cases [of "re_cptr s" "subject_of S", unfolded l, OF True] show ?thesis
      using op val small True S
      by (auto simp: re_step_def simple_op_def test_char_def get_char_ic_def canonical_def cbuf_end_def word_context_def)
  next
    case False
    then show ?thesis
      using op val by (simp add: re_step_def simple_op_def test_char_def cbuf_end_def)
  qed
qed

lemma search_end:
  assumes S: "word_context S" and cap: "length (capture s) = 2"
    and code: "drop (re_pc s) (bc_buf S) = [opc REOP_save_end, 0, opc REOP_match]"
  shows "search S s (Some ((capture s)[1 := Some (re_cptr s)]))"
proof -
  let ?s = "s\<lparr>re_pc := re_pc s + 2, capture := (capture s)[1 := Some (re_cptr s)]\<rparr>"
  have d: "drop (re_pc s + 1) (bc_buf S) = [0, opc REOP_match]" "drop (re_pc s + 2) (bc_buf S) = [opc REOP_match]"
    using drop_more [of "re_pc s" "bc_buf S" "[opc REOP_save_end]"]
      drop_more [of "re_pc s" "bc_buf S" "[opc REOP_save_end, 0]"] code by simp_all
  have "re_step S s = Some (Go ?s)"
    using fetch_drop [OF code] rd_drop [OF d(1)] S cap
    by (simp add: re_step_def is_simple_op_def control_op_def word_context_def wr_def)
  moreover have "re_step S ?s = Some Matched"
    using fetch_drop [OF d(2)] by (simp add: re_step_def is_simple_op_def control_op_def)
  ultimately show ?thesis
    using search_resume.go search_resume.match [of S ?s] by fastforce
qed

lemma search_word:
  assumes S: "word_context S"
  shows "drop (re_pc s) (bc_buf S) = word_code w @ [opc REOP_save_end, 0, opc REOP_match] \<Longrightarrow>
    \<forall>b \<in> set w. plain b \<Longrightarrow> length (capture s) = 2 \<Longrightarrow>
    search S s (if word_at_pos w (cbuf S) (re_cptr s)
      then Some ((capture s)[1 := Some (re_cptr s + length w)]) else None)"
proof (induction w arbitrary: s)
  case Nil
  then show ?case
    using search_end [OF S, of s] by (simp add: word_code_def word_at_pos_def)
next
  case (Cons b w)
  let ?tail = "[opc REOP_save_end, 0, opc REOP_match]"
  have code: "drop (re_pc s) (bc_buf S) = (opc REOP_char # le16 (ucast b)) @ word_code w @ ?tail"
    using Cons.prems(1) by (simp add: word_code_def)
  have step: "re_step S s = Some (if re_cptr s < length (cbuf S) \<and> cbuf S ! re_cptr s = ucast b
    then Go (s\<lparr>re_pc := re_pc s + 3, re_cptr := re_cptr s + 1\<rparr>) else No_match)"
    using step_char [OF S code] Cons.prems(2) by simp
  show ?case
  proof (cases "re_cptr s < length (cbuf S) \<and> cbuf S ! re_cptr s = ucast b")
    case True
    have "drop (re_pc s + 3) (bc_buf S) = word_code w @ ?tail"
      using drop_more [OF code] by (simp add: length_le)
    then show ?thesis
      using True step Cons.IH [of "s\<lparr>re_pc := re_pc s + 3, re_cptr := re_cptr s + 1\<rparr>"] Cons.prems(2,3)
      by (auto simp: word_at_Cons intro: search_resume.go)
  next
    case False
    then show ?thesis
      using step by (auto simp: word_at_Cons intro: search_resume.no_match)
  qed
qed

text \<open>The whole code, from a position on.\<close>

lemma search_at:
  assumes S: "word_context S" and plain: "\<forall>b \<in> set w. plain b" and cap: "length (capture s) = 2"
    and code: "drop (re_pc s) (bc_buf S) =
      [opc REOP_save_start, 0] @ word_code w @ [opc REOP_save_end, 0, opc REOP_match]"
  shows "search S s (if word_at_pos w (cbuf S) (re_cptr s) then Some (word_match w (re_cptr s)) else None)"
proof -
  let ?s = "s\<lparr>re_pc := re_pc s + 2, capture := (capture s)[0 := Some (re_cptr s)]\<rparr>"
  have d: "rd (bc_buf S) (re_pc s + 1) = Some 0"
      "drop (re_pc s + 2) (bc_buf S) = word_code w @ [opc REOP_save_end, 0, opc REOP_match]"
    using drop_more [of "re_pc s" "bc_buf S" "[opc REOP_save_start]"] rd_drop
      drop_more [of "re_pc s" "bc_buf S" "[opc REOP_save_start, 0]"] code by simp_all
  have "re_step S s = Some (Go ?s)"
    using fetch_drop [of "re_pc s" S REOP_save_start] code d(1) S cap
    by (simp add: re_step_def is_simple_op_def control_op_def word_context_def wr_def)
  moreover obtain x y where "capture s = [x, y]"
    using cap by (metis (no_types) length_0_conv length_Suc_conv numeral_2_eq_2)
  ultimately show ?thesis
    using search_word [OF S, of ?s w] d(2) plain search_resume.go [of S s ?s]
    by (auto simp: word_match_def)
qed

lemma jump_numerals: "jump (7 + 1 + 4) 6 = Some 18" "jump (7 + 6 + 1 + 4) (- 11) = Some 7"
  by (simp_all add: jump_def)

lemma search_from:
  assumes S: "word_context S" and plain: "\<forall>b \<in> set w. plain b"
    and code: "drop 7 (bc_buf S) = word_body f w" and f: "f AND 32 = 0"
  shows "re_pc s = 7 \<Longrightarrow> length (capture s) = 2 \<Longrightarrow> re_cptr s \<le> length (cbuf S) \<Longrightarrow>
    search S s (map_option (word_match w)
      (find (word_at_pos w (cbuf S)) [re_cptr s..<length (cbuf S) + 1]))"
proof (induction "length (cbuf S) - re_cptr s" arbitrary: s rule: less_induct)
  case less
  let ?p = "re_cptr s" and ?n = "length (cbuf S)"
  let ?rest = "[opc REOP_save_start, 0] @ word_code w @ [opc REOP_save_end, 0, opc REOP_match]"
  let ?find = "\<lambda>p. find (word_at_pos w (cbuf S)) [p..<?n + 1]"
  have c: "drop 7 (bc_buf S) = (opc REOP_split_goto_first # le32 6) @ [opc REOP_any] @ opc REOP_goto # le32 (- 11) @ ?rest"
    using code f by (simp add: word_body_def search_code_def)
  have d: "drop 8 (bc_buf S) = le32 6 @ [opc REOP_any] @ opc REOP_goto # le32 (- 11) @ ?rest"
      "drop 12 (bc_buf S) = opc REOP_any # opc REOP_goto # le32 (- 11) @ ?rest"
    using drop_more [of 7 "bc_buf S" "[opc REOP_split_goto_first]"] drop_more [OF c] c
    by (simp_all add: length_le)
  have e: "drop 13 (bc_buf S) = opc REOP_goto # le32 (- 11) @ ?rest"
      "drop 14 (bc_buf S) = le32 (- 11) @ ?rest"
    using drop_more [of 12 "bc_buf S" "[opc REOP_any]"] drop_more [of 12 "bc_buf S" "[opc REOP_any, opc REOP_goto]"] d(2)
    by simp_all
  have g: "drop 18 (bc_buf S) = ?rest"
    using drop_more [OF e(2)] by (simp add: length_le)
  let ?rs = "\<lparr>rs_type = RE_EXEC_STATE_SPLIT, rs_count = 0, rs_state = s\<lparr>re_pc := 12\<rparr>\<rparr>"
  have fork: "re_step S s = Some (Fork ?rs (s\<lparr>re_pc := 18\<rparr>))"
    using fetch_drop [of 7 S REOP_split_goto_first] c get_drop(2) [OF d(1)] less.prems(1) jump_numerals
    by (simp add: re_step_def is_simple_op_def control_op_def)
  have first: "search S (s\<lparr>re_pc := 18\<rparr>) (if word_at_pos w (cbuf S) ?p then Some (word_match w ?p) else None)"
    using search_at [OF S plain, of "s\<lparr>re_pc := 18\<rparr>"] g less.prems(2) by (auto split: if_splits)
  show ?case
  proof (cases "word_at_pos w (cbuf S) ?p")
    case True
    then have "?find ?p = Some ?p"
      using less.prems(3) by (subst upt_conv_Cons) simp_all
    then show ?thesis
      using first True search_resume.fork [OF fork] search_resume.split_first [of ?rs] by fastforce
  next
    case False
    then have find: "?find ?p = ?find (?p + 1)"
      using less.prems(3) by (subst upt_conv_Cons) simp_all
    have op: "fetch S 12 = Some REOP_any" "is_simple_op REOP_any"
      using fetch_drop [OF d(2)] by (simp_all add: is_simple_op_def)
    have "search S (s\<lparr>re_pc := 12\<rparr>) (map_option (word_match w) (?find (?p + 1)))"
    proof (cases "?p < ?n")
      case True
      have l: "cbuf (subject_of S) = cbuf S"
        by (simp add: subject_of_def)
      obtain ch q where q: "GET_CHAR (subject_of S) ?p ?n = Some (ch, q)"
          "q = ?p + 1 \<or> q = ?p + 2 \<and> ?p + 1 < ?n \<and> 128 \<le> cbuf S ! (?p + 1)"
        using GET_CHAR_cases [of ?p "subject_of S", unfolded l, OF True] by auto
      let ?s = "s\<lparr>re_pc := 13, re_cptr := q\<rparr>" and ?t = "s\<lparr>re_pc := 7, re_cptr := q\<rparr>"
      have any: "re_step S (s\<lparr>re_pc := 12\<rparr>) = Some (Go ?s)"
        using op q(1) True by (simp add: re_step_def simple_op_def cbuf_end_def)
      have "re_step S ?s = Some (Go ?t)"
        using fetch_drop [OF e(1)] get_drop(2) [OF e(2)] jump_numerals
        by (simp add: re_step_def is_simple_op_def control_op_def)
      moreover have "search S ?t (map_option (word_match w) (?find q))"
        using less.hyps [of ?t] less.prems q(2) True by auto
      moreover have "?find q = ?find (?p + 1)"
        using q(2)
      proof
        assume q: "q = ?p + 2 \<and> ?p + 1 < ?n \<and> 128 \<le> cbuf S ! (?p + 1)"
        have "w \<noteq> []"
          using False by (auto simp: word_at_pos_def)
        then obtain b w' where w: "w = b # w'"
          by (cases w) auto
        have "\<not> 128 \<le> (ucast b :: u32)"
          using plain_word(3) [of b] plain w by (simp add: word_le_def unsigned_ucast_eq)
        then have "\<not> word_at_pos w (cbuf S) (?p + 1)"
          using q by (auto simp: w word_at_Cons)
        then show ?thesis
          using q by (subst (2) upt_conv_Cons) simp_all
      qed simp
      ultimately show ?thesis
        using any search_resume.go by metis
    next
      case False
      then have "?find (?p + 1) = None" "re_step S (s\<lparr>re_pc := 12\<rparr>) = Some No_match"
        using less.prems(3) op by (simp_all add: re_step_def simple_op_def cbuf_end_def)
      then show ?thesis
        by (simp add: search_resume.no_match)
    qed
    then show ?thesis
      using first False find search_resume.fork [OF fork] search_resume.split_second [of ?rs] by fastforce
  qed
qed

section \<open>Compiling and executing\<close>

lemma exec_word:
  assumes plain: "\<forall>b \<in> set w. plain b" and f: "f AND 2 = 0"
    and bc: "bc = word_header f (length (word_body f w)) @ word_body f w"
    and mem: "\<forall>n. mem n" and i: "i \<le> length subject"
  shows "lre_exec mem bc subject i type =
    Some (re_result_of (map_option (word_match w)
      (find (word_at_pos w subject) (if f AND 32 = 0 then [i..<length subject + 1] else [i]))))"
proof -
  obtain S where S: "lre_context mem bc subject type = Some S" "cbuf S = subject" "bc_buf S = bc" "word_context S"
    using f by (auto simp: lre_context_def bc word_header_def word_context_def Let_def numeral_eq_Suc)
  let ?s = "lre_start S i"
  have s: "re_pc ?s = 7" "re_cptr ?s = i" "length (capture ?s) = 2"
    using S(4) by (simp_all add: lre_start_def word_context_def)
  have code: "drop 7 (bc_buf S) = word_body f w"
    by (simp add: S(3) bc word_header_def length_le)
  have "search S ?s (map_option (word_match w)
      (find (word_at_pos w subject) (if f AND 32 = 0 then [i..<length subject + 1] else [i])))"
  proof (cases "f AND 32 = 0")
    case True
    then show ?thesis
      using search_from [OF S(4) plain code True s(1,3)] s(2) S(2) i by simp
  next
    case False
    then have "drop (re_pc ?s) (bc_buf S) =
        [opc REOP_save_start, 0] @ word_code w @ [opc REOP_save_end, 0, opc REOP_match]"
      using code s(1) by (simp add: word_body_def search_code_def)
    from search_at [OF S(4) plain s(3) this] show ?thesis
      using False s(2) S(2) by (auto split: if_splits)
  qed
  then show ?thesis
    using lre_exec_found [OF S(1) mem] by blast
qed

text \<open>C13: The compiler and the interpreter together, on a pattern \<open>w\<close> of ordinary ASCII characters without
  the flag \<open>i\<close>: \<open>lre_compile\<close> fails only for lack of memory, and executing its code from
  position \<open>i\<close> finds the leftmost occurrence of the word from \<open>i\<close> on (with the flag \<open>y\<close>: an
  occurrence at \<open>i\<close>) and reports where it starts and ends, or that there is none.\<close>

theorem word_regexp_finds_word:
  assumes "realloc_law alloc" and "\<forall>b \<in> set w. plain b" and "re_flags AND 2 = 0"
    and "\<forall>n. mem n" and "i \<le> length subject"
  shows "\<exists>r. lre_compile alloc cr_al (Suc depth) (w @ [0]) re_flags = Some r \<and>
    (case r of Inl e \<Rightarrow> e = ''out of memory''
     | Inr bc \<Rightarrow> lre_exec mem bc subject i type =
         Some (case find (word_at_pos w subject) (if re_flags AND 32 = 0 then [i..<length subject + 1] else [i]) of
                 None \<Rightarrow> RE_FAIL | Some p \<Rightarrow> RE_OK [Some p, Some (p + length w)]))"
  using lre_compile_plain [OF assms(1-3), of cr_al depth] exec_word [OF assms(2,3) refl assms(4,5)]
  by (auto simp: re_parse_error_def ok_def re_result_of_def word_match_def split: option.splits)

lemma sample_word_compiles:
  "\<not> (case lre_compile zrealloc zrealloc 1 ([97, 98] @ [0]) 0 of Some (Inl e) \<Rightarrow> True | _ \<Rightarrow> False)"
  by code_simp

lemma sample_word_found:
  "find (word_at_pos [97, 98] [120, 97, 98]) (if (0 :: u8) AND 32 = 0 then [0..<length [120, 97, 98 :: u32] + 1] else [0]) = Some 1"
  by code_simp

theorem word_regexp_finds_word_witness:
  "\<exists>bc. lre_compile zrealloc zrealloc 1 [97, 98, 0] 0 = Some (Inr bc) \<and>
     lre_exec (\<lambda>_. True) bc [120, 97, 98] 0 0 = Some (RE_OK [Some 1, Some 3])"
proof -
  have "plain 97" "plain 98"
    by code_simp+
  then obtain r where r: " lre_compile zrealloc zrealloc (Suc 0) ([97, 98] @ [0]) 0 = Some r"
    "(case r of Inl e \<Rightarrow> e = ''out of memory''
     | Inr bc \<Rightarrow> lre_exec (\<lambda>_. True) bc [120, 97, 98] 0 0 =
         Some (case find (word_at_pos [97, 98] [120, 97, 98])
             (if (0 :: u8) AND 32 = 0 then [0..<length [120, 97, 98 :: u32] + 1] else [0]) of
                 None \<Rightarrow> RE_FAIL | Some p \<Rightarrow> RE_OK [Some p, Some (p + length [97, 98 :: u8])]))"
    using word_regexp_finds_word [of zrealloc "[97, 98]" 0 "\<lambda>_. True" 0 "[120, 97, 98]" zrealloc 0 0] by auto
  show ?thesis
  proof (cases r)
    case (Inl e)
    then show ?thesis
      using r(1) sample_word_compiles by simp
  next
    case (Inr bc)
    then have "lre_compile zrealloc zrealloc 1 [97, 98, 0] 0 = Some (Inr bc)"
      using r(1) by simp
    moreover have "lre_exec (\<lambda>_. True) bc [120, 97, 98] 0 0 = Some (RE_OK [Some 1, Some 3])"
      using r(2) Inr unfolding sample_word_found by (simp add: eval_nat_numeral)
    ultimately show ?thesis
      by blast
  qed
qed

end
