(* ===== verification/RegexpFlaws.thy ===== *)
theory RegexpFlaws
  imports RegexpCompile RegexpSearch
begin

text \<open>
  Patterns on which the regular expression engine of \<^verbatim>\<open>libregexp.c\<close> does not do what the
  language asks for: the code the compiler makes of them, and its execution.
\<close>

section \<open>A lazy quantifier of an empty atom\<close>

text \<open>The pattern is \<open>/(?:)*?x/y\<close>. A greedy quantifier whose atom may be empty is compiled with a
  test that the position advances, a lazy one is not.\<close>

definition lazy_code :: "u8 list" where
  "lazy_code = [32, 1, 0, 18, 0, 0, 0, 11, 0, 8, 5, 0, 0, 0, 7, 246, 255, 255, 255, 1, 120, 0, 12, 0, 10]"

lemma lazy_compiles: "lre_compile zrealloc zrealloc 3 (map asc ''(?:)*?x'' @ [0]) 32 = Some (Inr lazy_code)"
  by code_simp

text \<open>One turn of the loop of \<open>lre_exec_backtrack\<close>: the next state with the stack of alternatives
  and its size, or the result; \<open>None\<close> is a turn that is not defined. \<open>exec_turns\<close> makes some turns.\<close>

definition exec_turn :: "re_context \<Rightarrow> re_state \<times> re_exec_state list \<times> nat
    \<Rightarrow> (re_state \<times> re_exec_state list \<times> nat + re_result) option" where
  "exec_turn S x = (case x of (s, rss, n) \<Rightarrow>
     let unwind = (\<lambda>ret. (case recurse S ret rss of None \<Rightarrow> None
           | Some (Inl ret) \<Rightarrow> Some (Inr (re_result_of ret))
           | Some (Inr (s', rss')) \<Rightarrow> Some (Inl (s', rss', n))))
     in (case re_step S s of
        None \<Rightarrow> None
      | Some (Go s') \<Rightarrow> Some (Inl (s', rss, n))
      | Some (Fork rs s') \<Rightarrow>
          (case push_state S rs rss n of
             None \<Rightarrow> Some (Inr RE_ERROR)
           | Some (rss', n') \<Rightarrow> Some (Inl (s', rss', n')))
      | Some Matched \<Rightarrow> unwind (Some (capture s))
      | Some No_match \<Rightarrow> unwind None))"

fun exec_turns :: "re_context \<Rightarrow> nat \<Rightarrow> re_state \<times> re_exec_state list \<times> nat
    \<Rightarrow> (re_state \<times> re_exec_state list \<times> nat + re_result) option" where
  "exec_turns S 0 x = Some (Inl x)"
| "exec_turns S (Suc k) x =
     (case exec_turn S x of
        None \<Rightarrow> None
      | Some (Inl y) \<Rightarrow> exec_turns S k y
      | Some (Inr r) \<Rightarrow> Some (Inr r))"

lemma exec_turn_backtrack:
  "lre_exec_backtrack S s rss n =
     (case exec_turn S (s, rss, n) of
        None \<Rightarrow> None
      | Some (Inl (s', rss', n')) \<Rightarrow> lre_exec_backtrack S s' rss' n'
      | Some (Inr r) \<Rightarrow> Some r)"
  by (simp add: lre_exec_backtrack.simps [of S s] exec_turn_def Let_def
      split: option.splits re_outcome.splits sum.splits)

lemma exec_turns_closed:
  assumes "\<And>x. x \<in> X \<Longrightarrow> \<exists>y \<in> X. exec_turn S x = Some (Inl y)" and "x \<in> X"
  shows "\<exists>y \<in> X. exec_turns S k x = Some (Inl y)"
  using assms(2)
proof (induction k arbitrary: x)
  case (Suc k)
  then show ?case using assms(1) [of x] by fastforce
qed auto

text \<open>In a set of situations that a turn does not leave, the loop does not return.\<close>

lemma backtrack_closed:
  assumes step: "\<And>x. x \<in> X \<Longrightarrow> \<exists>y \<in> X. exec_turn S x = Some (Inl y)" and "(s, rss, n) \<in> X"
  shows "lre_exec_backtrack S s rss n = None"
proof (rule ccontr)
  assume "lre_exec_backtrack S s rss n \<noteq> None"
  then obtain r where "lre_exec_backtrack S s rss n = Some r" by blast
  then have "S = S \<longrightarrow> (s, rss, n) \<notin> X"
  proof (rule lre_exec_backtrack.raw_induct [where P = "\<lambda>S' s rss n r. S' = S \<longrightarrow> (s, rss, n) \<notin> X", rotated])
    fix f S' s rss n r
    assume ih: "\<And>S' s rss n r. f S' s rss n = Some r \<Longrightarrow> S' = S \<longrightarrow> (s, rss, n) \<notin> X"
      and body: "(case re_step S' s of
        None \<Rightarrow> None
      | Some (Go s') \<Rightarrow> f S' s' rss n
      | Some (Fork rs s') \<Rightarrow>
          (case push_state S' rs rss n of
             None \<Rightarrow> Some RE_ERROR
           | Some (rss', n') \<Rightarrow> f S' s' rss' n')
      | Some Matched \<Rightarrow>
          (case recurse S' (Some (capture s)) rss of
             None \<Rightarrow> None
           | Some (Inl ret) \<Rightarrow> Some (re_result_of ret)
           | Some (Inr (s', rss')) \<Rightarrow> f S' s' rss' n)
      | Some No_match \<Rightarrow>
          (case recurse S' None rss of
             None \<Rightarrow> None
           | Some (Inl ret) \<Rightarrow> Some (re_result_of ret)
           | Some (Inr (s', rss')) \<Rightarrow> f S' s' rss' n)) = Some r"
    show "S' = S \<longrightarrow> (s, rss, n) \<notin> X"
    proof (intro impI notI)
      assume "S' = S" and "(s, rss, n) \<in> X"
      then obtain s' rss' n' where y: "(s', rss', n') \<in> X" "exec_turn S (s, rss, n) = Some (Inl (s', rss', n'))"
        using step by (metis surj_pair)
      then have "f S s' rss' n' = Some r"
        using body \<open>S' = S\<close>
        by (auto simp: exec_turn_def Let_def split: option.splits re_outcome.splits sum.splits)
      then show False using ih y(1) by blast
    qed
  qed
  then show False using assms(2) by simp
qed

text \<open>The interpreter on a subject \<open>subj\<close> of bytes or of units (\<open>ty\<close> is 0 or 1).\<close>

definition lazy_context :: "(nat \<Rightarrow> bool) \<Rightarrow> u32 list \<Rightarrow> nat \<Rightarrow> re_context" where
  "lazy_context alloc subj ty = \<lparr>cbuf = subj, cbuf_type = ty, bc_buf = lazy_code, capture_count = 1,
     stack_size_max = 0, multi_line = False, ignore_case = False, is_utf16 = False, re_alloc = alloc\<rparr>"

lemma lazy_context: "lre_context alloc lazy_code subj ty = Some (lazy_context alloc subj ty)"
  by (simp add: lre_context_def lazy_context_def lazy_code_def)

definition lazy_state :: "nat \<Rightarrow> nat \<Rightarrow> re_state" where
  "lazy_state i pc = \<lparr>re_pc = pc, re_cptr = i, capture = [Some i, None], re_stack = []\<rparr>"

definition lazy_split :: "nat \<Rightarrow> re_exec_state" where
  "lazy_split i = \<lparr>rs_type = RE_EXEC_STATE_SPLIT, rs_count = 0, rs_state = lazy_state i 14\<rparr>"

lemma lazy_steps:
  "re_step (lazy_context alloc subj ty) (lre_start (lazy_context alloc subj ty) i) = Some (Go (lazy_state i 9))"
  "re_step (lazy_context alloc subj ty) (lazy_state i 9) = Some (Fork (lazy_split i) (lazy_state i 19))"
  "re_step (lazy_context alloc subj ty) (lazy_state i 14) = Some (Go (lazy_state i 9))"
  by code_simp+

lemma lazy_no_x:
  assumes "120 \<notin> set subj" and "ty < 2"
  shows "re_step (lazy_context alloc subj ty) (lazy_state i 19) = Some No_match"
proof -
  let ?S = "lazy_context alloc subj ty"
  have f: "fetch ?S 19 = Some REOP_char" "get_u16 (bc_buf ?S) 20 = Some 120"
    by code_simp+
  have "test_char ?S 120 22 i = Some None"
  proof (cases "i < length subj")
    case True
    then have "subj ! i \<noteq> 120" using assms(1) nth_mem by metis
    moreover have "get_char_ic ?S i = Some (subj ! i, i + 1)"
      using True assms(2)
      by (auto simp: get_char_ic_def GET_CHAR_def subject_of_def lazy_context_def canonical_def cbuf_end_def)
    ultimately show ?thesis using True by (simp add: test_char_def)
  qed (simp add: test_char_def cbuf_end_def lazy_context_def)
  with f show ?thesis
    by (simp add: re_step_def lazy_state_def is_simple_op_def simple_op_def)
qed

text \<open>The situations of the loop: the first two turns, and the cycle of three.\<close>

definition lazy_loop :: "re_context \<Rightarrow> nat \<Rightarrow> (re_state \<times> re_exec_state list \<times> nat) set" where
  "lazy_loop S i = {(lre_start S i, [], 0), (lazy_state i 9, [], 0), (lazy_state i 9, [], 8),
     (lazy_state i 19, [lazy_split i], 8), (lazy_state i 14, [], 8)}"

lemma lazy_loop_closed:
  assumes "120 \<notin> set subj" and "ty < 2" and "alloc 8" and "x \<in> lazy_loop (lazy_context alloc subj ty) i"
  shows "\<exists>y \<in> lazy_loop (lazy_context alloc subj ty) i. exec_turn (lazy_context alloc subj ty) x = Some (Inl y)"
proof -
  have "re_alloc (lazy_context alloc subj ty) = alloc" by (simp add: lazy_context_def)
  then show ?thesis
    using assms(3,4) lazy_no_x [OF assms(1,2)]
    by (auto simp: lazy_loop_def exec_turn_def lazy_steps push_state_def Let_def lazy_split_def)
qed

text \<open>C19: The pattern \<open>/(?:)*?x/y\<close> compiles, and its execution on a subject of bytes or 16-bit units
  without \<open>x\<close>, from any position, never ends: after any number of turns of the loop of
  \<open>lre_exec_backtrack\<close>, every one of them defined, it has not returned and is in one of five situations,
  with at most one alternative on the stack. (The allocation of the 8 entries of the stack is taken to
  succeed.) The language asks for the answer that there is no match.\<close>

theorem lazy_quantifier_endless:
  assumes "120 \<notin> set subj" and "ty < 2" and "alloc 8"
  shows "lre_compile zrealloc zrealloc 3 (map asc ''(?:)*?x'' @ [0]) 32 = Some (Inr lazy_code) \<and>
    (\<exists>S. lre_context alloc lazy_code subj ty = Some S \<and>
       (\<forall>k. \<exists>s rss n. exec_turns S k (lre_start S i, [], 0) = Some (Inl (s, rss, n)) \<and> length rss \<le> 1)) \<and>
    lre_exec alloc lazy_code subj i ty = None"
proof -
  let ?S = "lazy_context alloc subj ty"
  have "\<exists>y \<in> lazy_loop ?S i. exec_turns ?S k (lre_start ?S i, [], 0) = Some (Inl y)" for k
    by (rule exec_turns_closed [OF lazy_loop_closed [where alloc = alloc, OF assms]]) (auto simp: lazy_loop_def)
  then have 1: "\<exists>s rss n. exec_turns ?S k (lre_start ?S i, [], 0) = Some (Inl (s, rss, n)) \<and> length rss \<le> 1" for k
    by (fastforce simp: lazy_loop_def)
  have "lre_exec_backtrack ?S (lre_start ?S i) [] 0 = None"
    by (rule backtrack_closed [OF lazy_loop_closed [where alloc = alloc, OF assms]]) (auto simp: lazy_loop_def)
  then have "lre_exec alloc lazy_code subj i ty = None"
    by (simp add: lre_exec_def lazy_context)
  with 1 lazy_compiles lazy_context show ?thesis by blast
qed

theorem lazy_quantifier_endless_witness:
  "lre_compile zrealloc zrealloc 3 (map asc ''(?:)*?x'' @ [0]) 32 = Some (Inr lazy_code) \<and>
    (\<exists>S. lre_context (\<lambda>_. True) lazy_code [121, 122] 0 = Some S \<and>
       (\<forall>k. \<exists>s rss n. exec_turns S k (lre_start S 1, [], 0) = Some (Inl (s, rss, n)) \<and> length rss \<le> 1)) \<and>
    lre_exec (\<lambda>_. True) lazy_code [121, 122] 1 0 = None"
  by (rule lazy_quantifier_endless) simp_all

section \<open>A group behind a named group\<close>

text \<open>The pattern is \<open>/\k<b>(?<a>(x)(?<b>y))/\<close>: it has three groups, and \<open>b\<close> is the third one, but the
  look-up of the name gives 2, because the parenthesis right behind a name is skipped.\<close>

lemma group_after_name_not_counted:
  "re_parse_captures (lre_parser zrealloc zrealloc (map asc ([CHR 0x5c] @ ''k<b>(?<a>(x)(?<b>y))'') @ [0]) 0) None =
     Some (1, 4)"
  "re_parse_captures (lre_parser zrealloc zrealloc (map asc ([CHR 0x5c] @ ''k<b>(?<a>(x)(?<b>y))'') @ [0]) 0)
     (Some (map asc ''b'')) = Some (1, 2)"
  by code_simp+

section \<open>A class with the flags i and u\<close>

text \<open>The pattern is \<open>/[A]/iuy\<close>: the letters of the class are compiled to upper case, those of the
  subject are compared in lower case, so that no letter matches.\<close>

lemma upper_case_class_with_iu:
  "lre_compile zrealloc zrealloc 1 (map asc ''[A]'' @ [0]) 50 =
     Some (Inr [50, 1, 0, 12, 0, 0, 0, 11, 0, 21, 1, 0, 65, 0, 65, 0, 12, 0, 10])"
  "lre_exec (\<lambda>_. True) [50, 1, 0, 12, 0, 0, 0, 11, 0, 21, 1, 0, 65, 0, 65, 0, 12, 0, 10] [65] 0 0 = Some RE_FAIL"
  by code_simp+

section \<open>A start inside a surrogate pair\<close>

text \<open>With the flag u, \<^verbatim>\<open>js_regexp_exec\<close> passes \<^verbatim>\<open>lastIndex\<close> as it is. When it is inside
  a surrogate pair, the loop of a greedy quantifier goes over the second half alone, but giving the
  repetition up goes back over the whole pair, to a position before the start: in \<open>/(.*)./yu\<close> on one
  pair from index 1, the group starts at 1 and ends at 0.\<close>

lemma greedy_back_inside_pair:
  "\<exists>code. lre_compile zrealloc zrealloc 2 (map asc ''(.*).'' @ [0]) 48 = Some (Inr code) \<and>
     lre_exec (\<lambda>_. True) code [0xd83d, 0xde00] 1 1 = Some (RE_OK [Some 1, Some 2, Some 1, Some 0])"
proof -
  have "case lre_compile zrealloc zrealloc 2 (map asc ''(.*).'' @ [0]) 48 of
      Some (Inr code) \<Rightarrow> lre_exec (\<lambda>_. True) code [0xd83d, 0xde00] 1 1 =
        Some (RE_OK [Some 1, Some 2, Some 1, Some 0])
    | _ \<Rightarrow> False"
    by code_simp
  then show ?thesis by (auto split: option.splits sum.splits)
qed

end
