(* ===== verification/RqsortFun.thy ===== *)
theory RqsortFun
  imports QPrelude
begin

text \<open>
  \<^verbatim>\<open>rqsort\<close> of \<^verbatim>\<open>cutils.c\<close> as functions on lists, for the proofs: \<open>swap_fn\<close>,
  \<open>sift_down_fn\<close>, \<open>partition_loop_fn\<close> and the others read an array with \<open>!\<close> and do not say
  where an access falls. The code itself, with every access to the array checked, is in
  the theory \<open>Rqsort\<close>, which shows that each operation of the code is \<open>Some\<close> of its function
  here whenever the segment lies in the array. This theory has what these functions keep:
  the bounds of every index, and that each of them permutes its segment and leaves the rest.
\<close>

section \<open>The operations as functions\<close>

definition swap_fn :: "'a list \<Rightarrow> nat \<Rightarrow> nat \<Rightarrow> 'a list" where
  "swap_fn a i j = a[i := a ! j, j := a ! i]"

text \<open>\<open>swap_block_fn\<close>: the exchange of two blocks of \<open>n\<close> elements, one element after the other.\<close>

fun swap_block_fn :: "'a list \<Rightarrow> nat \<Rightarrow> nat \<Rightarrow> nat \<Rightarrow> 'a list" where
  "swap_block_fn a i j 0 = a"
| "swap_block_fn a i j (Suc n) = swap_block_fn (swap_fn a i j) (i + 1) (j + 1) n"

definition med3_fn :: "('a \<Rightarrow> 'a \<Rightarrow> int) \<Rightarrow> 'a list \<Rightarrow> nat \<Rightarrow> nat \<Rightarrow> nat \<Rightarrow> nat" where
  "med3_fn cmp l a b c =
     (if cmp (l ! a) (l ! b) < 0
      then (if cmp (l ! b) (l ! c) < 0 then b else if cmp (l ! a) (l ! c) < 0 then c else a)
      else (if cmp (l ! b) (l ! c) > 0 then b else if cmp (l ! a) (l ! c) < 0 then a else c))"

text \<open>The greater of the two children, \<open>c\<close> being the first: \<^verbatim>\<open>if (c < n - size && cmp(...) <= 0) c += size\<close>.\<close>

definition bigger_child_fn :: "('a \<Rightarrow> 'a \<Rightarrow> int) \<Rightarrow> nat \<Rightarrow> nat \<Rightarrow> 'a list \<Rightarrow> nat \<Rightarrow> nat" where
  "bigger_child_fn cmp p n a c =
     (if c < n - 1 \<and> cmp (a ! (p + c)) (a ! (p + c + 1)) \<le> 0 then c + 1 else c)"

text \<open>The inner loop of \<open>heapsortx_fn\<close>: sift the element at \<open>r\<close> down a heap of \<open>n\<close> elements that
  starts at \<open>p\<close>.\<close>

function sift_down_fn :: "('a \<Rightarrow> 'a \<Rightarrow> int) \<Rightarrow> nat \<Rightarrow> nat \<Rightarrow> 'a list \<Rightarrow> nat \<Rightarrow> 'a list" where
  "sift_down_fn cmp p n a r =
     (let c = r * 2 + 1 in
      if c < n then
        let c' = bigger_child_fn cmp p n a c in
        if cmp (a ! (p + r)) (a ! (p + c')) > 0 then a
        else sift_down_fn cmp p n (swap_fn a (p + r) (p + c')) c'
      else a)"
  by pat_completeness auto
termination
  by (relation "measure (\<lambda>(cmp, p, n, a, r). n - r)") (auto simp: bigger_child_fn_def)

fun heapify_fn :: "('a \<Rightarrow> 'a \<Rightarrow> int) \<Rightarrow> nat \<Rightarrow> nat \<Rightarrow> 'a list \<Rightarrow> nat \<Rightarrow> 'a list" where
  "heapify_fn cmp p n a 0 = a"
| "heapify_fn cmp p n a (Suc i) = heapify_fn cmp p n (sift_down_fn cmp p n a i) i"

fun heap_extract_fn :: "('a \<Rightarrow> 'a \<Rightarrow> int) \<Rightarrow> nat \<Rightarrow> 'a list \<Rightarrow> nat \<Rightarrow> 'a list" where
  "heap_extract_fn cmp p a 0 = a"
| "heap_extract_fn cmp p a (Suc i) =
     heap_extract_fn cmp p (sift_down_fn cmp p (Suc i) (swap_fn a p (p + Suc i)) 0) i"

definition heapsortx_fn :: "('a \<Rightarrow> 'a \<Rightarrow> int) \<Rightarrow> 'a list \<Rightarrow> nat \<Rightarrow> nat \<Rightarrow> 'a list" where
  "heapsortx_fn cmp a p nmemb =
     (if nmemb > 1 then heap_extract_fn cmp p (heapify_fn cmp p nmemb a (nmemb div 2)) (nmemb - 1) else a)"

text \<open>The two scanning loops of the partition. \<open>p\<close> is the start of the segment (the pivot is
  its first element); \<open>i\<close> and \<open>pi\<close>, \<open>lt\<close> and \<open>plt\<close>, \<open>gt\<close> and \<open>pgt\<close> move together in the
  code, so one index stands for each pair, relative to \<open>p\<close>.\<close>

function scan_up_fn :: "('a \<Rightarrow> 'a \<Rightarrow> int) \<Rightarrow> nat \<Rightarrow> 'a list \<Rightarrow> nat \<Rightarrow> nat \<Rightarrow> nat \<Rightarrow> 'a list \<times> nat \<times> nat" where
  "scan_up_fn cmp p a i lt j =
     (if i < j then
        let c = cmp (a ! p) (a ! (p + i)) in
        if c \<ge> 0 then
          if c = 0 then scan_up_fn cmp p (swap_fn a (p + lt) (p + i)) (i + 1) (lt + 1) j
          else scan_up_fn cmp p a (i + 1) lt j
        else (a, i, lt)
      else (a, i, lt))"
  by pat_completeness auto
termination by (relation "measure (\<lambda>(cmp, p, a, i, lt, j). j - i)") auto

function scan_down_fn :: "('a \<Rightarrow> 'a \<Rightarrow> int) \<Rightarrow> nat \<Rightarrow> 'a list \<Rightarrow> nat \<Rightarrow> nat \<Rightarrow> nat \<Rightarrow> 'a list \<times> nat \<times> nat" where
  "scan_down_fn cmp p a i j gt =
     (let j' = j - 1 in
      if i < j' then
        let c = cmp (a ! p) (a ! (p + j')) in
        if c \<le> 0 then
          if c = 0 then scan_down_fn cmp p (swap_fn a (p + (gt - 1)) (p + j')) i j' (gt - 1)
          else scan_down_fn cmp p a i j' gt
        else (a, j', gt)
      else (a, j', gt))"
  by pat_completeness auto
termination by (relation "measure (\<lambda>(cmp, p, a, i, j, gt). j)") auto

declare sift_down_fn.simps [simp del] scan_up_fn.simps [simp del] scan_down_fn.simps [simp del]

lemma scan_up_index: "scan_up_fn cmp p a i lt j = (a', i', lt') \<Longrightarrow> i \<le> i' \<and> lt \<le> lt' \<and> (i \<le> j \<longrightarrow> i' \<le> j) \<and> lt' - lt \<le> i' - i"
proof (induction cmp p a i lt j rule: scan_up_fn.induct)
  case (1 cmp p a i lt j)
  show ?case
    using "1.prems" "1.IH"
    by (simp add: scan_up_fn.simps [of cmp p a i lt j] Let_def split: if_splits) (fastforce | linarith)+
qed

lemma scan_down_index:
  "scan_down_fn cmp p a i j gt = (a', j', gt') \<Longrightarrow> 0 < j \<Longrightarrow> j' < j"
proof (induction cmp p a i j gt rule: scan_down_fn.induct)
  case (1 cmp p a i j gt)
  show ?case
    using "1.prems" "1.IH"
    by (simp add: scan_down_fn.simps [of cmp p a i j gt] Let_def split: if_splits) (fastforce | linarith)+
qed

function partition_loop_fn :: "('a \<Rightarrow> 'a \<Rightarrow> int) \<Rightarrow> nat \<Rightarrow> 'a list \<Rightarrow> nat \<Rightarrow> nat \<Rightarrow> nat \<Rightarrow> nat
    \<Rightarrow> 'a list \<times> nat \<times> nat \<times> nat" where
  "partition_loop_fn cmp p a i lt j gt =
     (let (a1, i1, lt1) = scan_up_fn cmp p a i lt j;
          (a2, j1, gt1) = scan_down_fn cmp p a1 i1 j gt
      in if i1 \<ge> j1 then (a2, i1, lt1, gt1)
         else partition_loop_fn cmp p (swap_fn a2 (p + i1) (p + j1)) (i1 + 1) lt1 j1 gt1)"
  by pat_completeness auto
termination
proof (relation "measure (\<lambda>(cmp, p, a, i, lt, j, gt). j - i)", simp)
  fix cmp :: "'a \<Rightarrow> 'a \<Rightarrow> int" and p a i lt j gt x a1 y i1 lt1 z a2 v j1 gt1
  assume x: "x = scan_up_fn cmp p a i lt j" "(a1, y) = x" "(i1, lt1) = y"
    and z: "z = scan_down_fn cmp p a1 i1 j gt" "(a2, v) = z" "(j1, gt1) = v" and le: "\<not> j1 \<le> i1"
  have "i \<le> i1" using scan_up_index [of cmp p a i lt j a1 i1 lt1] x by auto
  moreover have "0 < j \<Longrightarrow> j1 < j" using scan_down_index [of cmp p a1 i1 j gt a2 j1 gt1] z by auto
  moreover have "j = 0 \<Longrightarrow> j1 = 0"
    using z scan_down_fn.simps [of cmp p a1 i1 0 gt] by simp
  ultimately show "((cmp, p, swap_fn a2 (p + i1) (p + j1), i1 + 1, lt1, j1, gt1), cmp, p, a, i, lt, j, gt)
      \<in> measure (\<lambda>(cmp, p, a, i, lt, j, gt). j - i)"
    using le by (cases "j = 0") auto
qed

declare partition_loop_fn.simps [simp del]

text \<open>One round of the loop \<^verbatim>\<open>while (nmemb > 6)\<close> below the depth limit: the pivot
  goes to the start, the segment is split in four, the two groups of elements equal to the
  pivot move to the middle. The result is the array, the number \<open>lt\<close> of elements smaller than
  the pivot, and \<open>gt\<close>, where the greater ones start.\<close>

definition partition_seg_fn :: "('a \<Rightarrow> 'a \<Rightarrow> int) \<Rightarrow> 'a list \<Rightarrow> nat \<Rightarrow> nat \<Rightarrow> 'a list \<times> nat \<times> nat" where
  "partition_seg_fn cmp a p nmemb =
     (let m4 = nmemb div 4;
          m = med3_fn cmp a (p + m4) (p + 2 * m4) (p + 3 * m4);
          a0 = swap_fn a p m;
          (a1, i, plt, pgt) = partition_loop_fn cmp p a0 1 1 nmemb nmemb;
          span = plt; span2 = i - plt;
          lt = i - plt;
          span = (if span > span2 then span2 else span);
          a2 = swap_block_fn a1 p (p + i - span) span;
          span = nmemb - pgt; span2 = pgt - i;
          gt = nmemb - (pgt - i);
          span = (if span > span2 then span2 else span);
          a3 = swap_block_fn a2 (p + i) (p + nmemb - span) span
      in (a3, lt, gt))"

text \<open>The final insertion_fn sort of a small segment.\<close>

fun insert_back_fn :: "('a \<Rightarrow> 'a \<Rightarrow> int) \<Rightarrow> nat \<Rightarrow> 'a list \<Rightarrow> nat \<Rightarrow> 'a list" where
  "insert_back_fn cmp p a 0 = a"
| "insert_back_fn cmp p a (Suc j) =
     (if cmp (a ! (p + j)) (a ! (p + Suc j)) > 0
      then insert_back_fn cmp p (swap_fn a (p + Suc j) (p + j)) j else a)"

fun insertion_fn :: "('a \<Rightarrow> 'a \<Rightarrow> int) \<Rightarrow> nat \<Rightarrow> 'a list \<Rightarrow> nat \<Rightarrow> nat \<Rightarrow> 'a list" where
  "insertion_fn cmp p a i 0 = a"
| "insertion_fn cmp p a i (Suc k) = insertion_fn cmp p (insert_back_fn cmp p a i) (i + 1) k"

definition insertion_sort_fn :: "('a \<Rightarrow> 'a \<Rightarrow> int) \<Rightarrow> 'a list \<Rightarrow> nat \<Rightarrow> nat \<Rightarrow> 'a list" where
  "insertion_sort_fn cmp a p nmemb = insertion_fn cmp p a 1 (nmemb - 1)"

lemma scan_up_bounds:
  "scan_up_fn cmp p a i lt j = (a', i', lt') \<Longrightarrow> 1 \<le> lt \<Longrightarrow> lt \<le> i \<Longrightarrow> i \<le> j \<Longrightarrow>
   i \<le> i' \<and> i' \<le> j \<and> lt \<le> lt' \<and> lt' \<le> i'"
  using scan_up_index [of cmp p a i lt j a' i' lt'] by linarith

lemma scan_down_bounds:
  "scan_down_fn cmp p a i j gt = (a', j', gt') \<Longrightarrow> 1 \<le> i \<Longrightarrow> i \<le> j \<Longrightarrow> j \<le> gt \<Longrightarrow>
   j' < j \<and> i \<le> j' + 1 \<and> gt' \<le> gt \<and> j' \<le> gt' \<and> (i \<le> j' \<longrightarrow> True) \<and> max i j' \<le> gt'"
proof (induction cmp p a i j gt rule: scan_down_fn.induct)
  case (1 cmp p a i j gt)
  show ?case
    using "1.prems" "1.IH"
    by (simp add: scan_down_fn.simps [of cmp p a i j gt] Let_def split: if_splits) fastforce+
qed

lemma partition_loop_bounds:
  "partition_loop_fn cmp p a i lt j gt = (a', i', lt', gt') \<Longrightarrow>
   1 \<le> lt \<Longrightarrow> lt \<le> i \<Longrightarrow> i \<le> j \<Longrightarrow> j \<le> gt \<Longrightarrow>
   1 \<le> lt' \<and> lt' \<le> i' \<and> i' \<le> gt' \<and> gt' \<le> gt"
proof (induction cmp p a i lt j gt rule: partition_loop_fn.induct)
  case (1 cmp p a i lt j gt)
  obtain a1 i1 lt1 where u: "scan_up_fn cmp p a i lt j = (a1, i1, lt1)" by (metis surj_pair)
  obtain a2 j1 gt1 where d: "scan_down_fn cmp p a1 i1 j gt = (a2, j1, gt1)" by (metis surj_pair)
  note ub = scan_up_bounds [OF u "1.prems"(2-4)]
  have db: "j1 < j" "gt1 \<le> gt" "j1 \<le> gt1" "i1 \<le> gt1"
    using scan_down_bounds [OF d] ub "1.prems" by auto
  show ?case
  proof (cases "i1 \<ge> j1")
    case True
    with "1.prems" ub db u d show ?thesis
      by (simp add: partition_loop_fn.simps [of cmp p a i lt j gt] Let_def)
  next
    case False
    have "partition_loop_fn cmp p (swap_fn a2 (p + i1) (p + j1)) (i1 + 1) lt1 j1 gt1 = (a', i', lt', gt')"
      using "1.prems"(1) False u d
      by (simp add: partition_loop_fn.simps [of cmp p a i lt j gt] Let_def)
    from "1.IH" [OF refl u [symmetric] refl refl d [symmetric] refl False this] ub db False "1.prems"
    show ?thesis by auto
  qed
qed

lemma partition_seg_bounds:
  assumes "partition_seg_fn cmp a p n = (a', lt, gt)" and "0 < n"
  shows "lt < gt \<and> gt \<le> n"
proof -
  let ?a0 = "swap_fn a p (med3_fn cmp a (p + n div 4) (p + 2 * (n div 4)) (p + 3 * (n div 4)))"
  obtain a1 i plt pgt where l: "partition_loop_fn cmp p ?a0 1 1 n n = (a1, i, plt, pgt)"
    by (metis surj_pair)
  have "1 \<le> plt" "plt \<le> i" "i \<le> pgt" "pgt \<le> n"
    using partition_loop_bounds [OF l] assms(2) by auto
  moreover have "lt = i - plt" "gt = n - (pgt - i)"
    using assms(1) l by (simp_all add: partition_seg_fn_def Let_def)
  ultimately show ?thesis by linarith
qed

text \<open>The loop \<^verbatim>\<open>while (nmemb > 6)\<close>. The explicit stack has 50 slots; a push on a
  full stack would write outside it, and the result is then \<open>None\<close>. The stack is a list with
  its top first; an entry is base, count and depth.\<close>

type_synonym seg = "nat \<times> nat \<times> nat"

definition push_seg :: "seg \<Rightarrow> seg list \<Rightarrow> seg list option" where
  "push_seg e st = (if length st < 50 then Some (e # st) else None)"

function rqsort_seg_fn :: "('a \<Rightarrow> 'a \<Rightarrow> int) \<Rightarrow> 'a list \<Rightarrow> nat \<Rightarrow> nat \<Rightarrow> nat \<Rightarrow> seg list
    \<Rightarrow> ('a list \<times> nat \<times> nat \<times> seg list) option" where
  "rqsort_seg_fn cmp a p nmemb depth st =
     (if nmemb > 6 then
        if depth + 1 > 50 then Some (heapsortx_fn cmp a p nmemb, p, 0, st)
        else case partition_seg_fn cmp a p nmemb of (a', lt, gt) \<Rightarrow>
          (if lt > nmemb - gt then
            (case push_seg (p, lt, depth + 1) st of
              None \<Rightarrow> None
            | Some st' \<Rightarrow> rqsort_seg_fn cmp a' (p + gt) (nmemb - gt) (depth + 1) st')
          else
            (case push_seg (p + gt, nmemb - gt, depth + 1) st of
              None \<Rightarrow> None
            | Some st' \<Rightarrow> rqsort_seg_fn cmp a' p lt (depth + 1) st'))
      else Some (a, p, nmemb, st))"
  by pat_completeness auto
termination
  by (relation "measure (\<lambda>(cmp, a, p, n, d, st). n)") (auto dest!: partition_seg_bounds [OF sym])

declare rqsort_seg_fn.simps [simp del]


definition seg_weight :: "seg list \<Rightarrow> nat" where
  "seg_weight st = sum_list (map (\<lambda>(p, n, d). 2 * n + 1) st)"

lemma seg_weight_simps [simp]:
  "seg_weight [] = 0" "seg_weight ((p, n, d) # st) = 2 * n + 1 + seg_weight st"
  by (simp_all add: seg_weight_def)

lemma rqsort_seg_weight:
  "rqsort_seg_fn cmp a p n d st = Some (a', p', n', st') \<Longrightarrow> seg_weight st' + 2 * n' \<le> seg_weight st + 2 * n"
proof (induction cmp a p n d st rule: rqsort_seg_fn.induct)
  case (1 cmp a p n d st)
  obtain a1 lt gt where ps: "partition_seg_fn cmp a p n = (a1, lt, gt)" by (metis surj_pair)
  consider "n \<le> 6" | "n > 6" "d + 1 > 50" | "n > 6" "\<not> d + 1 > 50" by linarith
  then show ?case
  proof cases
    case 3
    note b = partition_seg_bounds [OF ps]
    show ?thesis
    proof (cases "lt > n - gt")
      case True
      then obtain st1 where "push_seg (p, lt, d + 1) st = Some st1"
        "rqsort_seg_fn cmp a1 (p + gt) (n - gt) (d + 1) st1 = Some (a', p', n', st')"
        using "1.prems" 3 ps by (auto simp: rqsort_seg_fn.simps [of cmp a p n d st] split: option.splits)
      with "1.IH"(1) [OF 3 ps [symmetric] refl True] b 3(1) show ?thesis
        by (auto simp: push_seg_def split: if_splits)
    next
      case False
      then obtain st1 where "push_seg (p + gt, n - gt, d + 1) st = Some st1"
        "rqsort_seg_fn cmp a1 p lt (d + 1) st1 = Some (a', p', n', st')"
        using "1.prems" 3 ps by (auto simp: rqsort_seg_fn.simps [of cmp a p n d st] split: option.splits)
      with "1.IH"(2) [OF 3 ps [symmetric] refl False] b 3(1) show ?thesis
        by (auto simp: push_seg_def split: if_splits)
    qed
  qed (use "1.prems" in \<open>auto simp: rqsort_seg_fn.simps [of cmp a p n d st]\<close>)
qed

function rqsort_loop_fn :: "('a \<Rightarrow> 'a \<Rightarrow> int) \<Rightarrow> 'a list \<Rightarrow> seg list \<Rightarrow> 'a list option" where
  "rqsort_loop_fn cmp a [] = Some a"
| "rqsort_loop_fn cmp a ((p, n, d) # st) =
     (case rqsort_seg_fn cmp a p n d st of
        None \<Rightarrow> None
      | Some (a', p', n', st') \<Rightarrow> rqsort_loop_fn cmp (insertion_sort_fn cmp a' p' n') st')"
  by pat_completeness auto
termination
  by (relation "measure (\<lambda>(cmp, a, st). seg_weight st)") (auto dest!: rqsort_seg_weight)

definition rqsort_fn :: "('a \<Rightarrow> 'a \<Rightarrow> int) \<Rightarrow> 'a list \<Rightarrow> 'a list option" where
  "rqsort_fn cmp a = (if length a < 2 then Some a else rqsort_loop_fn cmp a [(0, length a, 0)])"


section \<open>Every operation permutes its segment\<close>

definition perm_in :: "nat \<Rightarrow> nat \<Rightarrow> 'a list \<Rightarrow> 'a list \<Rightarrow> bool" where
  "perm_in lo hi a a' \<longleftrightarrow> length a' = length a \<and> mset a' = mset a
     \<and> (\<forall>i < length a. i < lo \<or> hi \<le> i \<longrightarrow> a' ! i = a ! i)"

named_theorems perm

lemma perm_in_refl [simp, perm]: "perm_in lo hi a a"
  by (simp add: perm_in_def)

lemma perm_in_trans: "perm_in lo hi a b \<Longrightarrow> perm_in lo hi b c \<Longrightarrow> perm_in lo hi a c"
  by (simp add: perm_in_def)

lemma perm_in_mono: "perm_in lo hi a b \<Longrightarrow> lo' \<le> lo \<Longrightarrow> hi \<le> hi' \<Longrightarrow> perm_in lo' hi' a b"
  by (auto simp: perm_in_def)

lemma perm_in_length: "perm_in lo hi a b \<Longrightarrow> length b = length a"
  by (simp add: perm_in_def)

lemma perm_in_outside: "perm_in lo hi a b \<Longrightarrow> i < length a \<Longrightarrow> i < lo \<or> hi \<le> i \<Longrightarrow> b ! i = a ! i"
  by (auto simp: perm_in_def)

lemma length_swap [simp]: "length (swap_fn a i j) = length a"
  by (simp add: swap_fn_def)

lemma nth_swap:
  "i < length a \<Longrightarrow> j < length a \<Longrightarrow> swap_fn a i j ! k = (if k = i then a ! j else if k = j then a ! i else a ! k)"
  by (auto simp: swap_fn_def nth_list_update)

lemma perm_in_swap [perm]:
  assumes "lo \<le> i" "i < hi" "lo \<le> j" "j < hi" "hi \<le> length a"
  shows "perm_in lo hi a (swap_fn a i j)"
  using assms mset_swap [of j a i]
  by (auto simp: perm_in_def swap_fn_def nth_list_update list_update_swap)

text \<open>Elements of a segment stay in the segment.\<close>

lemma perm_in_elem:
  assumes p: "perm_in lo hi a b" and i: "lo \<le> i" "i < hi" "hi \<le> length a"
  shows "\<exists>k. lo \<le> k \<and> k < hi \<and> b ! i = a ! k"
proof -
  have split: "mset xs = mset (take lo xs) + mset (take (hi - lo) (drop lo xs)) + mset (drop hi xs)"
    if "length xs = length a" for xs :: "'a list"
  proof -
    have "xs = take lo xs @ take (hi - lo) (drop lo xs) @ drop hi xs"
      using i by (metis append_take_drop_id drop_drop le_add_diff_inverse2 less_imp_le order.strict_trans1)
    then show ?thesis by (metis mset_append add.assoc)
  qed
  have l: "length b = length a" using p by (rule perm_in_length)
  have "take lo b = take lo a" "drop hi b = drop hi a"
    using l i by (auto intro!: nth_equalityI perm_in_outside [OF p])
  then have "mset (take (hi - lo) (drop lo b)) = mset (take (hi - lo) (drop lo a))"
    using p split [of a] split [of b] l by (simp add: perm_in_def)
  then have s: "set (take (hi - lo) (drop lo b)) = set (take (hi - lo) (drop lo a))"
    by (metis set_mset_mset)
  have "i - lo < length (take (hi - lo) (drop lo b))" using i l by auto
  moreover have "take (hi - lo) (drop lo b) ! (i - lo) = b ! i" using i l by simp
  ultimately have "b ! i \<in> set (take (hi - lo) (drop lo b))"
    by (metis nth_mem)
  then obtain k where "k < hi - lo" "lo + k < length a" "b ! i = a ! (lo + k)"
    unfolding s in_set_conv_nth by auto
  then show ?thesis by (intro exI [of _ "lo + k"]) auto
qed

lemma sift_down_perm [perm]:
  "p + n \<le> length a \<Longrightarrow> r < n \<Longrightarrow> perm_in p (p + n) a (sift_down_fn cmp p n a r)"
proof (induction cmp p n a r rule: sift_down_fn.induct)
  case (1 cmp p n a r)
  let ?c = "r * 2 + 1"
  let ?c' = "bigger_child_fn cmp p n a ?c"
  show ?case
  proof (cases "?c < n \<and> \<not> cmp (a ! (p + r)) (a ! (p + ?c')) > 0")
    case True
    have c': "?c' < n" using True by (auto simp: bigger_child_fn_def)
    have "perm_in p (p + n) (swap_fn a (p + r) (p + ?c'))
        (sift_down_fn cmp p n (swap_fn a (p + r) (p + ?c')) ?c')"
      by (rule "1.IH") (use True c' "1.prems" in auto)
    moreover have "perm_in p (p + n) a (swap_fn a (p + r) (p + ?c'))"
      by (rule perm_in_swap) (use "1.prems" c' in auto)
    ultimately show ?thesis
      using True perm_in_trans [of p "p + n" a] by (simp add: sift_down_fn.simps [of cmp p n a r] Let_def)
  next
    case False
    then show ?thesis by (auto simp: sift_down_fn.simps [of cmp p n a r] Let_def)
  qed
qed

lemma heapify_perm [perm]:
  "p + n \<le> length a \<Longrightarrow> i \<le> n \<Longrightarrow> perm_in p (p + n) a (heapify_fn cmp p n a i)"
proof (induction i arbitrary: a)
  case (Suc i)
  have "perm_in p (p + n) a (sift_down_fn cmp p n a i)"
    using Suc.prems by (intro sift_down_perm) auto
  moreover from this have "perm_in p (p + n) (sift_down_fn cmp p n a i) (heapify_fn cmp p n (sift_down_fn cmp p n a i) i)"
    using Suc.prems by (intro Suc.IH) (auto dest: perm_in_length)
  ultimately show ?case by (auto intro: perm_in_trans)
qed simp

lemma heap_extract_perm [perm]:
  "p + Suc i \<le> length a \<Longrightarrow> perm_in p (p + Suc i) a (heap_extract_fn cmp p a i)"
proof (induction i arbitrary: a)
  case (Suc i)
  let ?b = "swap_fn a p (p + Suc i)"
  let ?c = "sift_down_fn cmp p (Suc i) ?b 0"
  have 1: "perm_in p (p + Suc (Suc i)) a ?b"
    using Suc.prems by (intro perm_in_swap) auto
  have 2: "perm_in p (p + Suc i) ?b ?c"
    using Suc.prems by (intro sift_down_perm) auto
  have 3: "perm_in p (p + Suc i) ?c (heap_extract_fn cmp p ?c i)"
    using Suc.prems 2 by (intro Suc.IH) (auto dest: perm_in_length)
  have "perm_in p (p + Suc (Suc i)) ?b (heap_extract_fn cmp p ?c i)"
    using perm_in_trans [OF 2 3] by (rule perm_in_mono) auto
  with 1 show ?case by (auto intro: perm_in_trans)
qed simp

lemma heapsortx_perm [perm]:
  assumes "p + n \<le> length a"
  shows "perm_in p (p + n) a (heapsortx_fn cmp a p n)"
proof (cases "n > 1")
  case True
  let ?h = "heapify_fn cmp p n a (n div 2)"
  have 1: "perm_in p (p + n) a ?h" using assms by (intro heapify_perm) auto
  have "perm_in p (p + Suc (n - 1)) ?h (heap_extract_fn cmp p ?h (n - 1))"
    using assms 1 True by (intro heap_extract_perm) (auto dest: perm_in_length)
  with 1 True show ?thesis by (auto simp: heapsortx_fn_def intro: perm_in_trans)
qed (simp add: heapsortx_fn_def)


lemma scan_up_perm:
  "scan_up_fn cmp p a i lt j = (a', i', lt') \<Longrightarrow> lt \<le> i \<Longrightarrow> j \<le> n \<Longrightarrow> p + n \<le> length a \<Longrightarrow>
   perm_in p (p + n) a a'"
proof (induction cmp p a i lt j rule: scan_up_fn.induct)
  case (1 cmp p a i lt j)
  show ?case
  proof (cases "i < j \<and> cmp (a ! p) (a ! (p + i)) = 0")
    case True
    have "perm_in p (p + n) (swap_fn a (p + lt) (p + i)) a'"
      using True "1.prems" by (intro "1.IH"(1)) (auto simp: scan_up_fn.simps [of cmp p a i lt j])
    moreover have "perm_in p (p + n) a (swap_fn a (p + lt) (p + i))"
      using True "1.prems" by (intro perm_in_swap) auto
    ultimately show ?thesis by (rule perm_in_trans [rotated])
  next
    case False
    show ?thesis
    proof (cases "i < j \<and> cmp (a ! p) (a ! (p + i)) > 0")
      case True
      then show ?thesis
        using "1.prems" by (intro "1.IH"(2)) (auto simp: scan_up_fn.simps [of cmp p a i lt j])
    next
      case f: False
      with False "1.prems"(1) show ?thesis
        by (auto simp: scan_up_fn.simps [of cmp p a i lt j] Let_def split: if_splits)
    qed
  qed
qed

lemma scan_down_perm:
  "scan_down_fn cmp p a i j gt = (a', j', gt') \<Longrightarrow> j \<le> gt \<Longrightarrow> gt \<le> n \<Longrightarrow> p + n \<le> length a \<Longrightarrow>
   perm_in p (p + n) a a'"
proof (induction cmp p a i j gt rule: scan_down_fn.induct)
  case (1 cmp p a i j gt)
  let ?j = "j - 1"
  show ?case
  proof (cases "i < ?j \<and> cmp (a ! p) (a ! (p + ?j)) = 0")
    case True
    have "perm_in p (p + n) (swap_fn a (p + (gt - 1)) (p + ?j)) a'"
      using True "1.prems" by (intro "1.IH"(1) [OF refl _ refl]) (auto simp: scan_down_fn.simps [of cmp p a i j gt])
    moreover have "perm_in p (p + n) a (swap_fn a (p + (gt - 1)) (p + ?j))"
      using True "1.prems" by (intro perm_in_swap) auto
    ultimately show ?thesis by (rule perm_in_trans [rotated])
  next
    case False
    show ?thesis
    proof (cases "i < ?j \<and> cmp (a ! p) (a ! (p + ?j)) < 0")
      case True
      then show ?thesis
        using "1.prems" by (intro "1.IH"(2) [OF refl _ refl]) (auto simp: scan_down_fn.simps [of cmp p a i j gt])
    next
      case f: False
      with False "1.prems"(1) show ?thesis
        by (auto simp: scan_down_fn.simps [of cmp p a i j gt] Let_def split: if_splits)
    qed
  qed
qed

lemma partition_loop_perm:
  "partition_loop_fn cmp p a i lt j gt = (a', i', lt', gt') \<Longrightarrow>
   1 \<le> lt \<Longrightarrow> lt \<le> i \<Longrightarrow> i \<le> j \<Longrightarrow> j \<le> gt \<Longrightarrow> gt \<le> n \<Longrightarrow> p + n \<le> length a \<Longrightarrow> perm_in p (p + n) a a'"
proof (induction cmp p a i lt j gt rule: partition_loop_fn.induct)
  case (1 cmp p a i lt j gt)
  obtain a1 i1 lt1 where u: "scan_up_fn cmp p a i lt j = (a1, i1, lt1)" by (metis surj_pair)
  obtain a2 j1 gt1 where d: "scan_down_fn cmp p a1 i1 j gt = (a2, j1, gt1)" by (metis surj_pair)
  note ub = scan_up_bounds [OF u "1.prems"(2-4)]
  have db: "j1 < j" "gt1 \<le> gt" "j1 \<le> gt1" "i1 \<le> gt1"
    using scan_down_bounds [OF d] ub "1.prems" by auto
  have p1: "perm_in p (p + n) a a1"
    using "1.prems" by (intro scan_up_perm [OF u]) auto
  have p2: "perm_in p (p + n) a1 a2"
    using "1.prems" perm_in_length [OF p1] by (intro scan_down_perm [OF d]) auto
  note p12 = perm_in_trans [OF p1 p2]
  show ?case
  proof (cases "i1 \<ge> j1")
    case True
    with "1.prems" u d p12 show ?thesis
      by (simp add: partition_loop_fn.simps [of cmp p a i lt j gt] Let_def)
  next
    case False
    let ?b = "swap_fn a2 (p + i1) (p + j1)"
    have "partition_loop_fn cmp p ?b (i1 + 1) lt1 j1 gt1 = (a', i', lt', gt')"
      using "1.prems"(1) False u d
      by (simp add: partition_loop_fn.simps [of cmp p a i lt j gt] Let_def)
    from "1.IH" [OF refl u [symmetric] refl refl d [symmetric] refl False this] ub db False "1.prems"
    have "perm_in p (p + n) ?b a'" using perm_in_length [OF p12] by auto
    moreover have "perm_in p (p + n) a2 ?b"
      using False db "1.prems" perm_in_length [OF p12] by (intro perm_in_swap) auto
    ultimately show ?thesis using p12 perm_in_trans by blast
  qed
qed

lemma swap_block_perm:
  "lo \<le> i \<Longrightarrow> i + k \<le> hi \<Longrightarrow> lo \<le> j \<Longrightarrow> j + k \<le> hi \<Longrightarrow> hi \<le> length a \<Longrightarrow>
   perm_in lo hi a (swap_block_fn a i j k)"
proof (induction a i j k rule: swap_block_fn.induct)
  case (2 a i j n)
  have "perm_in lo hi (swap_fn a i j) (swap_block_fn (swap_fn a i j) (i + 1) (j + 1) n)"
    using "2.prems" by (intro "2.IH") auto
  moreover have "perm_in lo hi a (swap_fn a i j)"
    using "2.prems" by (intro perm_in_swap) auto
  ultimately show ?case by (auto intro: perm_in_trans)
qed simp

lemma med3_cases: "med3_fn cmp l a b c \<in> {a, b, c}"
  by (auto simp: med3_fn_def)

lemma pivot_swap_perm:
  assumes "6 < n" and "p + n \<le> length a"
  shows "perm_in p (p + n) a (swap_fn a p (med3_fn cmp a (p + n div 4) (p + 2 * (n div 4)) (p + 3 * (n div 4))))"
proof -
  have "p \<le> med3_fn cmp a (p + n div 4) (p + 2 * (n div 4)) (p + 3 * (n div 4))"
    "med3_fn cmp a (p + n div 4) (p + 2 * (n div 4)) (p + 3 * (n div 4)) < p + n"
    using med3_cases [of cmp a "p + n div 4" "p + 2 * (n div 4)" "p + 3 * (n div 4)"] assms(1) by auto
  then show ?thesis using assms by (intro perm_in_swap) auto
qed

lemma span_min: "(if x > y then y else x) = min x (y :: nat)"
  by auto

lemma partition_seg_eq:
  assumes "partition_loop_fn cmp p (swap_fn a p (med3_fn cmp a (p + n div 4) (p + 2 * (n div 4)) (p + 3 * (n div 4)))) 1 1 n n
    = (a1, i, plt, pgt)"
  shows "partition_seg_fn cmp a p n =
    (swap_block_fn (swap_block_fn a1 p (p + i - min plt (i - plt)) (min plt (i - plt)))
       (p + i) (p + n - min (n - pgt) (pgt - i)) (min (n - pgt) (pgt - i)),
     i - plt, n - (pgt - i))"
  unfolding partition_seg_fn_def Let_def assms span_min by simp

lemma partition_seg_perm:
  assumes r: "partition_seg_fn cmp a p n = (a', lt, gt)" and n: "6 < n" "p + n \<le> length a"
  shows "perm_in p (p + n) a a'"
proof -
  let ?a0 = "swap_fn a p (med3_fn cmp a (p + n div 4) (p + 2 * (n div 4)) (p + 3 * (n div 4)))"
  obtain a1 i plt pgt where l: "partition_loop_fn cmp p ?a0 1 1 n n = (a1, i, plt, pgt)"
    by (metis surj_pair)
  have b: "1 \<le> plt" "plt \<le> i" "i \<le> pgt" "pgt \<le> n"
    using partition_loop_bounds [OF l] n by auto
  define k1 where "k1 = min plt (i - plt)"
  define k2 where "k2 = min (n - pgt) (pgt - i)"
  have a': "a' = swap_block_fn (swap_block_fn a1 p (p + i - k1) k1) (p + i) (p + n - k2) k2"
    using r partition_seg_eq [OF l] unfolding k1_def k2_def by (metis fst_conv)
  have k: "k1 \<le> i" "k2 \<le> n - i" using b by (auto simp: k1_def k2_def)
  have 1: "perm_in p (p + n) a ?a0" using n by (rule pivot_swap_perm)
  have 2: "perm_in p (p + n) ?a0 a1"
    using n by (intro partition_loop_perm [OF l]) auto
  have l1: "length a1 = length a" using perm_in_length [OF 2] by simp
  have 3: "perm_in p (p + n) a1 (swap_block_fn a1 p (p + i - k1) k1)"
    using n k b l1 by (intro swap_block_perm) auto
  have 4: "perm_in p (p + n) (swap_block_fn a1 p (p + i - k1) k1) a'"
    unfolding a' using n k b l1 perm_in_length [OF 3] by (intro swap_block_perm) auto
  from 1 2 3 4 show ?thesis by (blast intro: perm_in_trans)
qed

lemma insert_back_perm:
  "p + j < hi \<Longrightarrow> hi \<le> length a \<Longrightarrow> perm_in p hi a (insert_back_fn cmp p a j)"
proof (induction cmp p a j rule: insert_back_fn.induct)
  case (2 cmp p a j)
  show ?case
  proof (cases "cmp (a ! (p + j)) (a ! (p + Suc j)) > 0")
    case True
    have "perm_in p hi (swap_fn a (p + Suc j) (p + j)) (insert_back_fn cmp p (swap_fn a (p + Suc j) (p + j)) j)"
      using True "2.prems" by (intro "2.IH") auto
    moreover have "perm_in p hi a (swap_fn a (p + Suc j) (p + j))"
      using "2.prems" by (intro perm_in_swap) auto
    ultimately show ?thesis using True by (auto intro: perm_in_trans)
  qed simp
qed simp

lemma insertion_perm:
  "p + i + k \<le> hi \<Longrightarrow> hi \<le> length a \<Longrightarrow> perm_in p hi a (insertion_fn cmp p a i k)"
proof (induction k arbitrary: a i)
  case (Suc k)
  have 1: "perm_in p hi a (insert_back_fn cmp p a i)"
    using Suc.prems by (intro insert_back_perm) auto
  have "perm_in p hi (insert_back_fn cmp p a i) (insertion_fn cmp p (insert_back_fn cmp p a i) (i + 1) k)"
    using Suc.prems perm_in_length [OF 1] by (intro Suc.IH) auto
  with 1 show ?case by (auto intro: perm_in_trans)
qed simp

lemma insertion_sort_perm:
  "p + n \<le> length a \<Longrightarrow> perm_in p (p + n) a (insertion_sort_fn cmp a p n)"
  using insertion_perm [of p 1 "n - 1" "p + n" a cmp] by (cases n) (auto simp: insertion_sort_fn_def)

end
