(* ===== verification/Rqsort.thy ===== *)
theory Rqsort
  imports RqsortFun
begin

text \<open>
  \<^verbatim>\<open>rqsort\<close> of \<^verbatim>\<open>cutils.c\<close>: the in-place sort behind \<open>Array.prototype.sort\<close>,
  typed-array sorting and property enumeration. The array is a list of elements; the code's
  byte pointers are element indices relative to \<open>base\<close> (every pointer is a multiple of
  \<open>size\<close>), and the exchange functions swap whole elements. The comparison function is the
  parameter \<open>cmp\<close>; it reads both elements it is given. Every read and every write of the
  array is checked, in the order in which the code tests a bound and then reads, and so is
  every push on the stack of 50 segments: \<open>None\<close> is an access outside the array, a push on
  a full stack, or a loop that does not end.
\<close>

section \<open>The code\<close>

definition cmp_at :: "('a \<Rightarrow> 'a \<Rightarrow> int) \<Rightarrow> 'a list \<Rightarrow> nat \<Rightarrow> nat \<Rightarrow> int option" where
  "cmp_at cmp a i j = do { x \<leftarrow> rd a i; y \<leftarrow> rd a j; Some (cmp x y) }"

definition swap :: "'a list \<Rightarrow> nat \<Rightarrow> nat \<Rightarrow> 'a list option" where
  "swap a i j = do { t \<leftarrow> rd a i; u \<leftarrow> rd a j; a \<leftarrow> wr a i u; wr a j t }"

text \<open>\<open>swap_block\<close>: the exchange of two blocks of \<open>n\<close> elements, one element after the other.\<close>

fun swap_block :: "'a list \<Rightarrow> nat \<Rightarrow> nat \<Rightarrow> nat \<Rightarrow> 'a list option" where
  "swap_block a i j 0 = Some a"
| "swap_block a i j (Suc n) = do { a \<leftarrow> swap a i j; swap_block a (i + 1) (j + 1) n }"

definition med3 :: "('a \<Rightarrow> 'a \<Rightarrow> int) \<Rightarrow> 'a list \<Rightarrow> nat \<Rightarrow> nat \<Rightarrow> nat \<Rightarrow> nat option" where
  "med3 cmp l a b c = do {
     ab \<leftarrow> cmp_at cmp l a b;
     bc \<leftarrow> cmp_at cmp l b c;
     if ab < 0
     then if bc < 0 then Some b
          else do { ac \<leftarrow> cmp_at cmp l a c; Some (if ac < 0 then c else a) }
     else if bc > 0 then Some b
          else do { ac \<leftarrow> cmp_at cmp l a c; Some (if ac < 0 then a else c) } }"

text \<open>The greater of the two children, \<open>c\<close> being the first: \<^verbatim>\<open>if (c < n - size && cmp(...) <= 0) c += size\<close>.\<close>

definition bigger_child :: "('a \<Rightarrow> 'a \<Rightarrow> int) \<Rightarrow> nat \<Rightarrow> nat \<Rightarrow> 'a list \<Rightarrow> nat \<Rightarrow> nat option" where
  "bigger_child cmp p n a c =
     (if c < n - 1 then do {
        t \<leftarrow> cmp_at cmp a (p + c) (p + c + 1);
        Some (if t \<le> 0 then c + 1 else c) }
      else Some c)"

text \<open>The inner loop of \<open>heapsortx\<close>: sift the element at \<open>r\<close> down a heap of \<open>n\<close> elements that
  starts at \<open>p\<close>.\<close>

partial_function (option) sift_down :: "('a \<Rightarrow> 'a \<Rightarrow> int) \<Rightarrow> nat \<Rightarrow> nat \<Rightarrow> 'a list \<Rightarrow> nat \<Rightarrow> 'a list option" where
  "sift_down cmp p n a r =
     (let c = r * 2 + 1 in
      if c < n then do {
        c \<leftarrow> bigger_child cmp p n a c;
        t \<leftarrow> cmp_at cmp a (p + r) (p + c);
        if t > 0 then Some a
        else do { a \<leftarrow> swap a (p + r) (p + c); sift_down cmp p n a c } }
      else Some a)"

fun heapify :: "('a \<Rightarrow> 'a \<Rightarrow> int) \<Rightarrow> nat \<Rightarrow> nat \<Rightarrow> 'a list \<Rightarrow> nat \<Rightarrow> 'a list option" where
  "heapify cmp p n a 0 = Some a"
| "heapify cmp p n a (Suc i) = do { a \<leftarrow> sift_down cmp p n a i; heapify cmp p n a i }"

fun heap_extract :: "('a \<Rightarrow> 'a \<Rightarrow> int) \<Rightarrow> nat \<Rightarrow> 'a list \<Rightarrow> nat \<Rightarrow> 'a list option" where
  "heap_extract cmp p a 0 = Some a"
| "heap_extract cmp p a (Suc i) = do {
     a \<leftarrow> swap a p (p + Suc i);
     a \<leftarrow> sift_down cmp p (Suc i) a 0;
     heap_extract cmp p a i }"

definition heapsortx :: "('a \<Rightarrow> 'a \<Rightarrow> int) \<Rightarrow> 'a list \<Rightarrow> nat \<Rightarrow> nat \<Rightarrow> 'a list option" where
  "heapsortx cmp a p nmemb =
     (if nmemb > 1
      then do { a \<leftarrow> heapify cmp p nmemb a (nmemb div 2); heap_extract cmp p a (nmemb - 1) }
      else Some a)"

text \<open>The two scanning loops of the partition. \<open>p\<close> is the start of the segment (the pivot is
  its first element); \<open>i\<close> and \<open>pi\<close>, \<open>lt\<close> and \<open>plt\<close>, \<open>gt\<close> and \<open>pgt\<close> move together in the
  code, so one index stands for each pair, relative to \<open>p\<close>. A pointer that would step below
  the segment is \<open>None\<close>.\<close>

partial_function (option) scan_up :: "('a \<Rightarrow> 'a \<Rightarrow> int) \<Rightarrow> nat \<Rightarrow> 'a list \<Rightarrow> nat \<Rightarrow> nat \<Rightarrow> nat
    \<Rightarrow> ('a list \<times> nat \<times> nat) option" where
  "scan_up cmp p a i lt j =
     (if i < j then do {
        c \<leftarrow> cmp_at cmp a p (p + i);
        if c \<ge> 0 then
          if c = 0 then do { a \<leftarrow> swap a (p + lt) (p + i); scan_up cmp p a (i + 1) (lt + 1) j }
          else scan_up cmp p a (i + 1) lt j
        else Some (a, i, lt) }
      else Some (a, i, lt))"

partial_function (option) scan_down :: "('a \<Rightarrow> 'a \<Rightarrow> int) \<Rightarrow> nat \<Rightarrow> 'a list \<Rightarrow> nat \<Rightarrow> nat \<Rightarrow> nat
    \<Rightarrow> ('a list \<times> nat \<times> nat) option" where
  "scan_down cmp p a i j gt =
     (if j = 0 then None
      else let j = j - 1 in
      if i < j then do {
        c \<leftarrow> cmp_at cmp a p (p + j);
        if c \<le> 0 then
          if c = 0 then
            if gt = 0 then None
            else do { a \<leftarrow> swap a (p + (gt - 1)) (p + j); scan_down cmp p a i j (gt - 1) }
          else scan_down cmp p a i j gt
        else Some (a, j, gt) }
      else Some (a, j, gt))"

partial_function (option) partition_loop :: "('a \<Rightarrow> 'a \<Rightarrow> int) \<Rightarrow> nat \<Rightarrow> 'a list \<Rightarrow> nat \<Rightarrow> nat \<Rightarrow> nat \<Rightarrow> nat
    \<Rightarrow> ('a list \<times> nat \<times> nat \<times> nat) option" where
  "partition_loop cmp p a i lt j gt = do {
     (a, i, lt) \<leftarrow> scan_up cmp p a i lt j;
     (a, j, gt) \<leftarrow> scan_down cmp p a i j gt;
     if i \<ge> j then Some (a, i, lt, gt)
     else do { a \<leftarrow> swap a (p + i) (p + j); partition_loop cmp p a (i + 1) lt j gt } }"

text \<open>One round of the loop \<^verbatim>\<open>while (nmemb > 6)\<close> below the depth limit: the pivot
  goes to the start, the segment is split in four, the two groups of elements equal to the
  pivot move to the middle. The result is the array, the number \<open>lt\<close> of elements smaller than
  the pivot, and \<open>gt\<close>, where the greater ones start.\<close>

definition partition_seg :: "('a \<Rightarrow> 'a \<Rightarrow> int) \<Rightarrow> 'a list \<Rightarrow> nat \<Rightarrow> nat \<Rightarrow> ('a list \<times> nat \<times> nat) option" where
  "partition_seg cmp a p nmemb = do {
     let m4 = nmemb div 4;
     m \<leftarrow> med3 cmp a (p + m4) (p + 2 * m4) (p + 3 * m4);
     a \<leftarrow> swap a p m;
     (a, i, plt, pgt) \<leftarrow> partition_loop cmp p a 1 1 nmemb nmemb;
     let span = plt;
     let span2 = i - plt;
     let lt = i - plt;
     let span = (if span > span2 then span2 else span);
     a \<leftarrow> swap_block a p (p + i - span) span;
     let span = nmemb - pgt;
     let span2 = pgt - i;
     let gt = nmemb - (pgt - i);
     let span = (if span > span2 then span2 else span);
     a \<leftarrow> swap_block a (p + i) (p + nmemb - span) span;
     Some (a, lt, gt) }"

text \<open>The final insertion sort of a small segment.\<close>

fun insert_back :: "('a \<Rightarrow> 'a \<Rightarrow> int) \<Rightarrow> nat \<Rightarrow> 'a list \<Rightarrow> nat \<Rightarrow> 'a list option" where
  "insert_back cmp p a 0 = Some a"
| "insert_back cmp p a (Suc j) = do {
     c \<leftarrow> cmp_at cmp a (p + j) (p + Suc j);
     if c > 0 then do { a \<leftarrow> swap a (p + Suc j) (p + j); insert_back cmp p a j } else Some a }"

fun insertion :: "('a \<Rightarrow> 'a \<Rightarrow> int) \<Rightarrow> nat \<Rightarrow> 'a list \<Rightarrow> nat \<Rightarrow> nat \<Rightarrow> 'a list option" where
  "insertion cmp p a i 0 = Some a"
| "insertion cmp p a i (Suc k) = do { a \<leftarrow> insert_back cmp p a i; insertion cmp p a (i + 1) k }"

definition insertion_sort :: "('a \<Rightarrow> 'a \<Rightarrow> int) \<Rightarrow> 'a list \<Rightarrow> nat \<Rightarrow> nat \<Rightarrow> 'a list option" where
  "insertion_sort cmp a p nmemb = insertion cmp p a 1 (nmemb - 1)"

text \<open>The loop \<^verbatim>\<open>while (nmemb > 6)\<close>: the larger part is pushed, the smaller one goes on.\<close>

partial_function (option) rqsort_seg :: "('a \<Rightarrow> 'a \<Rightarrow> int) \<Rightarrow> 'a list \<Rightarrow> nat \<Rightarrow> nat \<Rightarrow> nat \<Rightarrow> seg list
    \<Rightarrow> ('a list \<times> nat \<times> nat \<times> seg list) option" where
  "rqsort_seg cmp a p nmemb depth st =
     (if nmemb > 6 then
        if depth + 1 > 50 then do { a \<leftarrow> heapsortx cmp a p nmemb; Some (a, p, 0, st) }
        else do {
          (a, lt, gt) \<leftarrow> partition_seg cmp a p nmemb;
          if lt > nmemb - gt then do {
            st \<leftarrow> push_seg (p, lt, depth + 1) st;
            rqsort_seg cmp a (p + gt) (nmemb - gt) (depth + 1) st }
          else do {
            st \<leftarrow> push_seg (p + gt, nmemb - gt, depth + 1) st;
            rqsort_seg cmp a p lt (depth + 1) st } }
      else Some (a, p, nmemb, st))"

partial_function (option) rqsort_loop :: "('a \<Rightarrow> 'a \<Rightarrow> int) \<Rightarrow> 'a list \<Rightarrow> seg list \<Rightarrow> 'a list option" where
  "rqsort_loop cmp a st =
     (case st of
        [] \<Rightarrow> Some a
      | (p, nmemb, depth) # st \<Rightarrow> do {
          (a, p, nmemb, st) \<leftarrow> rqsort_seg cmp a p nmemb depth st;
          a \<leftarrow> insertion_sort cmp a p nmemb;
          rqsort_loop cmp a st })"

definition rqsort :: "('a \<Rightarrow> 'a \<Rightarrow> int) \<Rightarrow> 'a list \<Rightarrow> 'a list option" where
  "rqsort cmp a = (if length a < 2 then Some a else rqsort_loop cmp a [(0, length a, 0)])"

declare sift_down.simps [code] scan_up.simps [code] scan_down.simps [code]
  partition_loop.simps [code] rqsort_seg.simps [code] rqsort_loop.simps [code]

section \<open>No access leaves the array\<close>

named_theorems checked \<comment> \<open>inside the segment, an operation is \<open>Some\<close> of its function\<close>

lemma cmp_at_in [checked]: "i < length a \<Longrightarrow> j < length a \<Longrightarrow> cmp_at cmp a i j = Some (cmp (a ! i) (a ! j))"
  by (simp add: cmp_at_def)

lemma swap_in [checked]: "i < length a \<Longrightarrow> j < length a \<Longrightarrow> swap a i j = Some (swap_fn a i j)"
  by (simp add: swap_def swap_fn_def)

lemma swap_block_in [checked]:
  "i + n \<le> length a \<Longrightarrow> j + n \<le> length a \<Longrightarrow> swap_block a i j n = Some (swap_block_fn a i j n)"
  by (induction a i j n rule: swap_block_fn.induct) (auto simp: checked)

lemma med3_in [checked]:
  "a < length l \<Longrightarrow> b < length l \<Longrightarrow> c < length l \<Longrightarrow> med3 cmp l a b c = Some (med3_fn cmp l a b c)"
  by (simp add: med3_def med3_fn_def checked)

lemma bigger_child_in [checked]:
  "p + n \<le> length a \<Longrightarrow> bigger_child cmp p n a c = Some (bigger_child_fn cmp p n a c)"
  by (simp add: bigger_child_def bigger_child_fn_def checked)

lemma bigger_child_lt: "c < n \<Longrightarrow> bigger_child_fn cmp p n a c < n"
  by (auto simp: bigger_child_fn_def)

lemma sift_down_in [checked]:
  "p + n \<le> length a \<Longrightarrow> r < n \<Longrightarrow> sift_down cmp p n a r = Some (sift_down_fn cmp p n a r)"
proof (induction cmp p n a r rule: sift_down_fn.induct)
  case (1 cmp p n a r)
  show ?case
  proof (cases "r * 2 + 1 < n")
    case True
    note c = bigger_child_lt [OF True, of cmp p a]
    show ?thesis
      using "1.prems" "1.IH" [OF refl True refl] c True
      by (simp add: sift_down.simps [of cmp p n a r] sift_down_fn.simps [of cmp p n a r] Let_def checked)
  qed (simp add: sift_down.simps sift_down_fn.simps [of cmp p n a r])
qed

lemma heapify_in [checked]:
  "p + n \<le> length a \<Longrightarrow> i \<le> n \<Longrightarrow> heapify cmp p n a i = Some (heapify_fn cmp p n a i)"
proof (induction i arbitrary: a)
  case (Suc i)
  then show ?case using perm_in_length [OF sift_down_perm, of p n a i cmp] by (simp add: checked)
qed simp

lemma heap_extract_in [checked]:
  "p + Suc i \<le> length a \<Longrightarrow> heap_extract cmp p a i = Some (heap_extract_fn cmp p a i)"
proof (induction i arbitrary: a)
  case (Suc i)
  then show ?case
    using perm_in_length [OF sift_down_perm, of p "Suc i" "swap_fn a p (p + Suc i)" 0 cmp]
    by (simp add: checked)
qed simp

lemma heapsortx_in [checked]:
  "p + n \<le> length a \<Longrightarrow> heapsortx cmp a p n = Some (heapsortx_fn cmp a p n)"
  using perm_in_length [OF heapify_perm, of p n a "n div 2" cmp]
  by (auto simp: heapsortx_def heapsortx_fn_def checked)

lemma scan_up_in [checked]:
  "lt \<le> i \<Longrightarrow> p + j \<le> length a \<Longrightarrow> 0 < j \<Longrightarrow> scan_up cmp p a i lt j = Some (scan_up_fn cmp p a i lt j)"
proof (induction cmp p a i lt j rule: scan_up_fn.induct)
  case (1 cmp p a i lt j)
  then show ?case
    by (auto simp: scan_up.simps [of cmp p a i lt j] scan_up_fn.simps [of cmp p a i lt j] Let_def checked)
qed

lemma scan_down_in [checked]:
  "1 \<le> i \<Longrightarrow> i \<le> j \<Longrightarrow> j \<le> gt \<Longrightarrow> p + gt \<le> length a \<Longrightarrow>
   scan_down cmp p a i j gt = Some (scan_down_fn cmp p a i j gt)"
proof (induction cmp p a i j gt rule: scan_down_fn.induct)
  case (1 cmp p a i j gt)
  then show ?case
    by (auto simp: scan_down.simps [of cmp p a i j gt] scan_down_fn.simps [of cmp p a i j gt] Let_def checked)
qed

lemma partition_loop_in [checked]:
  "1 \<le> lt \<Longrightarrow> lt \<le> i \<Longrightarrow> i \<le> j \<Longrightarrow> j \<le> gt \<Longrightarrow> p + gt \<le> length a \<Longrightarrow>
   partition_loop cmp p a i lt j gt = Some (partition_loop_fn cmp p a i lt j gt)"
proof (induction cmp p a i lt j gt rule: partition_loop_fn.induct)
  case (1 cmp p a i lt j gt)
  obtain a1 i1 lt1 where u: "scan_up_fn cmp p a i lt j = (a1, i1, lt1)" by (metis surj_pair)
  obtain a2 j1 gt1 where d: "scan_down_fn cmp p a1 i1 j gt = (a2, j1, gt1)" by (metis surj_pair)
  note ub = scan_up_bounds [OF u "1.prems"(1-3)]
  have db: "j1 < j" "gt1 \<le> gt" "j1 \<le> gt1" "i1 \<le> gt1"
    using scan_down_bounds [OF d] ub "1.prems" by auto
  have l1: "length a1 = length a"
    using scan_up_perm [OF u, of gt] "1.prems" by (auto dest: perm_in_length)
  have l2: "length a2 = length a"
    using scan_down_perm [OF d, of gt] "1.prems" l1 by (auto dest: perm_in_length)
  have cu: "scan_up cmp p a i lt j = Some (a1, i1, lt1)"
    using "1.prems" u by (simp add: checked)
  have cd: "scan_down cmp p a1 i1 j gt = Some (a2, j1, gt1)"
    using "1.prems" ub d l1 by (simp add: checked)
  show ?case
  proof (cases "i1 \<ge> j1")
    case True
    with u d cu cd show ?thesis
      by (simp add: partition_loop.simps partition_loop_fn.simps [of cmp p a i lt j gt])
  next
    case False
    have s: "swap a2 (p + i1) (p + j1) = Some (swap_fn a2 (p + i1) (p + j1))"
      using False db "1.prems" l2 by (simp add: checked)
    from "1.IH" [OF refl u [symmetric] refl refl d [symmetric] refl False] ub db False "1.prems" l2
    have "partition_loop cmp p (swap_fn a2 (p + i1) (p + j1)) (i1 + 1) lt1 j1 gt1
        = Some (partition_loop_fn cmp p (swap_fn a2 (p + i1) (p + j1)) (i1 + 1) lt1 j1 gt1)" by auto
    with False u d cu cd s show ?thesis
      by (simp add: partition_loop.simps [of cmp p a i lt j gt] partition_loop_fn.simps [of cmp p a i lt j gt])
  qed
qed

lemma partition_seg_in [checked]:
  assumes n: "6 < n" "p + n \<le> length a"
  shows "partition_seg cmp a p n = Some (partition_seg_fn cmp a p n)"
proof -
  let ?m = "med3_fn cmp a (p + n div 4) (p + 2 * (n div 4)) (p + 3 * (n div 4))"
  let ?a0 = "swap_fn a p ?m"
  obtain a1 i plt pgt where l: "partition_loop_fn cmp p ?a0 1 1 n n = (a1, i, plt, pgt)"
    by (metis surj_pair)
  have b: "1 \<le> plt" "plt \<le> i" "i \<le> pgt" "pgt \<le> n"
    using partition_loop_bounds [OF l] n by auto
  define k1 where "k1 = min plt (i - plt)"
  define k2 where "k2 = min (n - pgt) (pgt - i)"
  have k: "k1 \<le> i" "k2 \<le> n - i" using b by (auto simp: k1_def k2_def)
  have m: "med3 cmp a (p + n div 4) (p + 2 * (n div 4)) (p + 3 * (n div 4)) = Some ?m"
    using n by (intro med3_in) auto
  have s: "swap a p ?m = Some ?a0"
    using n med3_cases [of cmp a "p + n div 4" "p + 2 * (n div 4)" "p + 3 * (n div 4)"]
    by (intro swap_in) auto
  have pl: "partition_loop cmp p ?a0 1 1 n n = Some (a1, i, plt, pgt)"
    using n l by (simp add: checked)
  have l1: "length a1 = length a"
    using partition_loop_perm [OF l, of n] n by (auto dest: perm_in_length)
  have s1: "swap_block a1 p (p + i - k1) k1 = Some (swap_block_fn a1 p (p + i - k1) k1)"
    using n k b l1 by (intro swap_block_in) auto
  have "perm_in p (p + n) a1 (swap_block_fn a1 p (p + i - k1) k1)"
    using n k b l1 by (intro swap_block_perm) auto
  then have s2: "swap_block (swap_block_fn a1 p (p + i - k1) k1) (p + i) (p + n - k2) k2
      = Some (swap_block_fn (swap_block_fn a1 p (p + i - k1) k1) (p + i) (p + n - k2) k2)"
    using n k b l1 by (intro swap_block_in) (auto dest: perm_in_length)
  show ?thesis
    using s1 s2 unfolding partition_seg_eq [OF l] partition_seg_def k1_def k2_def
    by (simp add: m s pl [unfolded One_nat_def] Let_def span_min)
qed

lemma insert_back_in [checked]:
  "p + j < length a \<Longrightarrow> insert_back cmp p a j = Some (insert_back_fn cmp p a j)"
  by (induction cmp p a j rule: insert_back_fn.induct) (auto simp: checked)

lemma insertion_in [checked]:
  "p + i + k \<le> length a \<Longrightarrow> insertion cmp p a i k = Some (insertion_fn cmp p a i k)"
proof (induction k arbitrary: a i)
  case (Suc k)
  then show ?case
    using perm_in_length [OF insert_back_perm, of p i "length a" a cmp] by (simp add: checked)
qed simp

lemma insertion_sort_in [checked]:
  "p + n \<le> length a \<Longrightarrow> insertion_sort cmp a p n = Some (insertion_sort_fn cmp a p n)"
  by (cases n) (auto simp: insertion_sort_def insertion_sort_fn_def checked)

definition segs_in :: "'a list \<Rightarrow> seg list \<Rightarrow> bool" where
  "segs_in a st \<longleftrightarrow> (\<forall>(p, n, d) \<in> set st. p + n \<le> length a)"

lemma segs_in_simps [simp]:
  "segs_in a []" "segs_in a ((p, n, d) # st) \<longleftrightarrow> p + n \<le> length a \<and> segs_in a st"
  by (auto simp: segs_in_def)

lemma segs_in_length: "length b = length a \<Longrightarrow> segs_in b st = segs_in a st"
  by (simp add: segs_in_def)

text \<open>A segment of the array is processed inside the array, and so are the segments it leaves.\<close>

lemma rqsort_seg_in:
  "p + n \<le> length a \<Longrightarrow> segs_in a st \<Longrightarrow>
   rqsort_seg cmp a p n d st = rqsort_seg_fn cmp a p n d st \<and>
   (\<forall>a' p' n' st'. rqsort_seg_fn cmp a p n d st = Some (a', p', n', st') \<longrightarrow>
      length a' = length a \<and> p' + n' \<le> length a \<and> segs_in a st')"
proof (induction cmp a p n d st rule: rqsort_seg_fn.induct)
  case (1 cmp a p n d st)
  note simps = rqsort_seg.simps [of cmp a p n d st] rqsort_seg_fn.simps [of cmp a p n d st]
  consider "n \<le> 6" | "n > 6" "d + 1 > 50" | "n > 6" "\<not> d + 1 > 50" by linarith
  then show ?case
  proof cases
    case 2
    then show ?thesis
      using "1.prems" perm_in_length [OF heapsortx_perm [OF "1.prems"(1), of cmp]] by (simp add: simps checked)
  next
    case 3
    obtain a1 lt gt where ps: "partition_seg_fn cmp a p n = (a1, lt, gt)" by (metis surj_pair)
    have b: "lt < gt" "gt \<le> n" using partition_seg_bounds [OF ps] 3 by auto
    have l: "length a1 = length a"
      using partition_seg_perm [OF ps 3(1) "1.prems"(1)] by (rule perm_in_length)
    have c: "partition_seg cmp a p n = Some (a1, lt, gt)"
      using 3 "1.prems"(1) ps by (simp add: checked)
    show ?thesis
    proof (cases "length st < 50")
      case full: True
      show ?thesis
      proof (cases "lt > n - gt")
        case True
        let ?st = "(p, lt, d + 1) # st"
        have pu: "push_seg (p, lt, d + 1) st = Some ?st" using full by (simp add: push_seg_def)
        have r: "rqsort_seg cmp a p n d st = rqsort_seg cmp a1 (p + gt) (n - gt) (d + 1) ?st"
          "rqsort_seg_fn cmp a p n d st = rqsort_seg_fn cmp a1 (p + gt) (n - gt) (d + 1) ?st"
          using 3 True ps c pu by (simp_all add: simps)
        have "p + gt + (n - gt) \<le> length a1" "segs_in a1 ?st"
          using "1.prems" b l segs_in_length [OF l] by simp_all
        from "1.IH"(1) [OF 3 ps [symmetric] refl True pu this]
        show ?thesis unfolding r l segs_in_length [OF l] .
      next
        case False
        let ?st = "(p + gt, n - gt, d + 1) # st"
        have pu: "push_seg (p + gt, n - gt, d + 1) st = Some ?st" using full by (simp add: push_seg_def)
        have r: "rqsort_seg cmp a p n d st = rqsort_seg cmp a1 p lt (d + 1) ?st"
          "rqsort_seg_fn cmp a p n d st = rqsort_seg_fn cmp a1 p lt (d + 1) ?st"
          using 3 False ps c pu by (simp_all add: simps)
        have "p + lt \<le> length a1" "segs_in a1 ?st"
          using "1.prems" b l segs_in_length [OF l] by simp_all
        from "1.IH"(2) [OF 3 ps [symmetric] refl False pu this]
        show ?thesis unfolding r l segs_in_length [OF l] .
      qed
    qed (use 3 ps c in \<open>simp add: simps push_seg_def\<close>)
  qed (use "1.prems" in \<open>simp add: simps\<close>)
qed

lemma rqsort_loop_in: "segs_in a st \<Longrightarrow> rqsort_loop cmp a st = rqsort_loop_fn cmp a st"
proof (induction cmp a st rule: rqsort_loop_fn.induct)
  case (2 cmp a p n d st)
  have e: "rqsort_seg cmp a p n d st = rqsort_seg_fn cmp a p n d st"
    by (rule rqsort_seg_in [THEN conjunct1]) (use "2.prems" in simp_all)
  show ?case
  proof (cases "rqsort_seg_fn cmp a p n d st")
    case None
    then show ?thesis by (simp add: rqsort_loop.simps e)
  next
    case (Some x)
    obtain a1 p1 n1 st1 where x: "x = (a1, p1, n1, st1)" by (metis surj_pair)
    have b: "length a1 = length a" "p1 + n1 \<le> length a1" "segs_in a1 st1"
      using rqsort_seg_in [THEN conjunct2, rule_format, OF _ _ Some [unfolded x]] "2.prems"
      by (auto simp: segs_in_def)
    have i: "insertion_sort cmp a1 p1 n1 = Some (insertion_sort_fn cmp a1 p1 n1)"
      using b by (simp add: checked)
    have "segs_in (insertion_sort_fn cmp a1 p1 n1) st1"
      using b perm_in_length [OF insertion_sort_perm [OF b(2), of cmp]] by (simp add: segs_in_def)
    from "2.IH" [OF Some x [symmetric] refl refl this] show ?thesis
      using Some by (simp add: rqsort_loop.simps [of cmp a "(p, n, d) # st"] e x i)
  qed
qed (simp add: rqsort_loop.simps)

lemma rqsort_in: "rqsort cmp a = rqsort_fn cmp a"
  by (simp add: rqsort_def rqsort_fn_def rqsort_loop_in)

end
