(* ===== verification/RqsortOrder.thy ===== *)
theory RqsortOrder
  imports Rqsort
begin

text \<open>
  \<^verbatim>\<open>rqsort\<close> against its contract. The interface is the comparison function: the
  locale \<open>comparator\<close> fixes it and assumes that it is a total preorder, which is what the
  callers promise. Inside it: the heap invariant of \<open>heapsortx_fn\<close>, the four-way partition, the
  insertion_fn sort, and the segments that are still to be sorted. The interpretations are the
  comparison functions that \<^verbatim>\<open>quickjs.c\<close> passes for typed arrays.
\<close>

section \<open>The interface\<close>

locale comparator =
  fixes cmp :: "'a \<Rightarrow> 'a \<Rightarrow> int"
  assumes cmp_opp: "0 < cmp x y \<longleftrightarrow> cmp y x < 0"
    and cmp_trans: "cmp x y \<le> 0 \<Longrightarrow> cmp y z \<le> 0 \<Longrightarrow> cmp x z \<le> 0"
begin

lemma cmp_refl: "cmp x x = 0"
  using cmp_opp [of x x] by linarith

lemma cmp_zero: "cmp x y = 0 \<longleftrightarrow> cmp y x = 0"
  using cmp_opp [of x y] cmp_opp [of y x] by linarith

lemma cmp_le: "cmp x y \<le> 0 \<longleftrightarrow> 0 \<le> cmp y x"
  using cmp_opp [of x y] by linarith

lemma cmp_ge: "0 \<le> cmp x y \<longleftrightarrow> cmp y x \<le> 0"
  using cmp_opp [of y x] by linarith

end

definition sorted_seg :: "('a \<Rightarrow> 'a \<Rightarrow> int) \<Rightarrow> 'a list \<Rightarrow> nat \<Rightarrow> nat \<Rightarrow> bool" where
  "sorted_seg cmp a lo hi \<longleftrightarrow> (\<forall>i j. lo \<le> i \<and> i < j \<and> j < hi \<longrightarrow> cmp (a ! i) (a ! j) \<le> 0)"

section \<open>Heap sort\<close>

text \<open>Every parent at or above \<open>s\<close> is at least its children; \<open>heap_but r\<close> excepts \<open>r\<close>.\<close>

definition heap_but :: "('a \<Rightarrow> 'a \<Rightarrow> int) \<Rightarrow> nat \<Rightarrow> nat \<Rightarrow> 'a list \<Rightarrow> nat \<Rightarrow> nat \<Rightarrow> bool" where
  "heap_but cmp p n a s r \<longleftrightarrow>
     (\<forall>c. 0 < c \<and> c < n \<and> s \<le> (c - 1) div 2 \<and> (c - 1) div 2 \<noteq> r \<longrightarrow>
        cmp (a ! (p + c)) (a ! (p + (c - 1) div 2)) \<le> 0) \<and>
     (\<forall>c. 0 < c \<and> c < n \<and> (c - 1) div 2 = r \<and> 0 < r \<and> s \<le> (r - 1) div 2 \<longrightarrow>
        cmp (a ! (p + c)) (a ! (p + (r - 1) div 2)) \<le> 0)"

definition heap_from :: "('a \<Rightarrow> 'a \<Rightarrow> int) \<Rightarrow> nat \<Rightarrow> nat \<Rightarrow> 'a list \<Rightarrow> nat \<Rightarrow> bool" where
  "heap_from cmp p n a s \<longleftrightarrow>
     (\<forall>c. 0 < c \<and> c < n \<and> s \<le> (c - 1) div 2 \<longrightarrow>
        cmp (a ! (p + c)) (a ! (p + (c - 1) div 2)) \<le> 0)"

lemma bigger_child_range:
  "c < n \<Longrightarrow> c = r * 2 + 1 \<Longrightarrow> bigger_child_fn cmp p n a c < n \<and> r < bigger_child_fn cmp p n a c
     \<and> (bigger_child_fn cmp p n a c - 1) div 2 = r"
  by (auto simp: bigger_child_fn_def)

context comparator begin

lemma bigger_child_max:
  assumes "0 < d" "d < n" "(d - 1) div 2 = r"
  shows "cmp (a ! (p + d)) (a ! (p + bigger_child_fn cmp p n a (r * 2 + 1))) \<le> 0"
proof -
  have d: "d = r * 2 + 1 \<or> d = r * 2 + 2" using assms by auto
  show ?thesis
  proof (cases "r * 2 + 1 < n - 1")
    case True
    then show ?thesis
      using d cmp_refl cmp_le [of "a ! (p + (r * 2 + 1))" "a ! (p + (r * 2 + 1) + 1)"]
      by (auto simp: bigger_child_fn_def not_le)
  next
    case False
    with d assms have "d = r * 2 + 1" by linarith
    with False show ?thesis by (simp add: bigger_child_fn_def cmp_refl)
  qed
qed

lemma heap_but_stop:
  assumes h: "heap_but cmp p n a s r"
    and stop: "\<not> r * 2 + 1 < n \<or> cmp (a ! (p + r)) (a ! (p + bigger_child_fn cmp p n a (r * 2 + 1))) > 0"
  shows "heap_from cmp p n a s"
  unfolding heap_from_def
proof (intro allI impI)
  fix c
  assume c: "0 < c \<and> c < n \<and> s \<le> (c - 1) div 2"
  show "cmp (a ! (p + c)) (a ! (p + (c - 1) div 2)) \<le> 0"
  proof (cases "(c - 1) div 2 = r")
    case True
    then have "r * 2 + 1 < n" using c by auto
    then have "cmp (a ! (p + bigger_child_fn cmp p n a (r * 2 + 1))) (a ! (p + r)) < 0"
      using stop cmp_opp by auto
    moreover have "cmp (a ! (p + c)) (a ! (p + bigger_child_fn cmp p n a (r * 2 + 1))) \<le> 0"
      using c True by (intro bigger_child_max) auto
    ultimately show ?thesis
      using cmp_trans [of "a ! (p + c)" "a ! (p + bigger_child_fn cmp p n a (r * 2 + 1))" "a ! (p + r)"] True
      by simp
  next
    case False
    with h c show ?thesis by (auto simp: heap_but_def)
  qed
qed

lemma heap_but_swap:
  assumes h: "heap_but cmp p n a s r" and r: "s \<le> r" "p + n \<le> length a" "r * 2 + 1 < n"
    and go: "\<not> cmp (a ! (p + r)) (a ! (p + k)) > 0" and k: "k = bigger_child_fn cmp p n a (r * 2 + 1)"
  shows "heap_but cmp p n (swap_fn a (p + r) (p + k)) s k"
proof -
  have kr: "k < n" "r < k" "(k - 1) div 2 = r"
    using bigger_child_range [OF r(3) refl, of cmp p a] unfolding k by auto
  have sw: "swap_fn a (p + r) (p + k) ! (p + x) = (if x = r then a ! (p + k) else if x = k then a ! (p + r) else a ! (p + x))"
    if "x < n" for x
    using that r(2) kr by (simp add: nth_swap)
  have sib: "cmp (a ! (p + c)) (a ! (p + k)) \<le> 0" if "0 < c" "c < n" "(c - 1) div 2 = r" for c
    using bigger_child_max [OF that] k by simp
  have one: "cmp (swap_fn a (p + r) (p + k) ! (p + c)) (swap_fn a (p + r) (p + k) ! (p + (c - 1) div 2)) \<le> 0"
    if c: "0 < c" "c < n" "s \<le> (c - 1) div 2" "(c - 1) div 2 \<noteq> k" for c
  proof -
    have q: "(c - 1) div 2 < n" and lt: "(c - 1) div 2 < c" using c by linarith+
    consider "(c - 1) div 2 = r" "c = k" | "(c - 1) div 2 = r" "c \<noteq> k" "c \<noteq> r"
      | "(c - 1) div 2 \<noteq> r" "c = r" | "(c - 1) div 2 \<noteq> r" "c \<noteq> r" "c \<noteq> k"
      using kr(3) lt by (metis less_irrefl)
    then show ?thesis
    proof cases
      case 1
      then show ?thesis using go sw c q kr by simp
    next
      case 2
      then show ?thesis using sib [of c] sw c q by simp
    next
      case 3
      then have "cmp (a ! (p + k)) (a ! (p + (r - 1) div 2)) \<le> 0"
        using h kr c by (auto simp: heap_but_def)
      with 3 show ?thesis using sw c q by simp
    next
      case 4
      then have "cmp (a ! (p + c)) (a ! (p + (c - 1) div 2)) \<le> 0"
        using h c by (auto simp: heap_but_def)
      with 4 show ?thesis using sw c q by simp
    qed
  qed
  have two: "cmp (swap_fn a (p + r) (p + k) ! (p + c)) (swap_fn a (p + r) (p + k) ! (p + (k - 1) div 2)) \<le> 0"
    if c: "0 < c" "c < n" "(c - 1) div 2 = k" for c
  proof -
    have "c \<noteq> r" "c \<noteq> k" using c kr by auto
    moreover have "cmp (a ! (p + c)) (a ! (p + k)) \<le> 0"
      using h c kr r by (auto simp: heap_but_def)
    ultimately show ?thesis using sw c kr by simp
  qed
  show ?thesis
    unfolding heap_but_def using one two by blast
qed

lemma sift_down_heap:
  "heap_but cmp p n a s r \<Longrightarrow> s \<le> r \<Longrightarrow> p + n \<le> length a \<Longrightarrow>
   heap_from cmp p n (sift_down_fn cmp p n a r) s"
proof (induction "n - r" arbitrary: a r rule: less_induct)
  case less
  let ?k = "bigger_child_fn cmp p n a (r * 2 + 1)"
  show ?case
  proof (cases "r * 2 + 1 < n \<and> \<not> cmp (a ! (p + r)) (a ! (p + ?k)) > 0")
    case True
    then have k: "?k < n" "r < ?k"
      using bigger_child_range [of "r * 2 + 1" n r cmp p a] by auto
    have "heap_but cmp p n (swap_fn a (p + r) (p + ?k)) s ?k"
      using less.prems True by (intro heap_but_swap) auto
    then have "heap_from cmp p n (sift_down_fn cmp p n (swap_fn a (p + r) (p + ?k)) ?k) s"
      using less.prems k by (intro less.hyps) auto
    then show ?thesis
      using True by (simp add: sift_down_fn.simps [of cmp p n a r] Let_def)
  next
    case False
    then have "sift_down_fn cmp p n a r = a"
      by (auto simp: sift_down_fn.simps [of cmp p n a r] Let_def)
    then show ?thesis using heap_but_stop [OF less.prems(1)] False by auto
  qed
qed

lemma heapify_heap:
  "heap_from cmp p n a i \<Longrightarrow> i \<le> n \<Longrightarrow> p + n \<le> length a \<Longrightarrow> heap_from cmp p n (heapify_fn cmp p n a i) 0"
proof (induction i arbitrary: a)
  case (Suc i)
  have "heap_but cmp p n a i i"
    using Suc.prems(1) by (auto simp: heap_but_def heap_from_def)
  then have "heap_from cmp p n (sift_down_fn cmp p n a i) i"
    using Suc.prems by (intro sift_down_heap) auto
  moreover have "perm_in p (p + n) a (sift_down_fn cmp p n a i)"
    using Suc.prems by (intro sift_down_perm) auto
  ultimately show ?case
    using Suc.prems by (auto intro!: Suc.IH dest: perm_in_length)
qed simp

lemma heap_root_max:
  "heap_from cmp p n a 0 \<Longrightarrow> i < n \<Longrightarrow> cmp (a ! (p + i)) (a ! p) \<le> 0"
proof (induction i rule: less_induct)
  case (less i)
  show ?case
  proof (cases "i = 0")
    case False
    then have "cmp (a ! (p + (i - 1) div 2)) (a ! p) \<le> 0"
      using less.prems by (intro less.IH) auto
    moreover have "cmp (a ! (p + i)) (a ! (p + (i - 1) div 2)) \<le> 0"
      using less.prems False by (auto simp: heap_from_def)
    ultimately show ?thesis using cmp_trans by blast
  qed (simp add: cmp_refl)
qed

text \<open>The elements after the heap are sorted and at least every element of the heap.\<close>

lemma heap_extract_sorted:
  "heap_from cmp p (Suc i) a 0 \<Longrightarrow> p + n \<le> length a \<Longrightarrow> Suc i \<le> n \<Longrightarrow>
   sorted_seg cmp a (p + Suc i) (p + n) \<Longrightarrow>
   (\<forall>x y. p \<le> x \<and> x < p + Suc i \<and> p + Suc i \<le> y \<and> y < p + n \<longrightarrow> cmp (a ! x) (a ! y) \<le> 0) \<Longrightarrow>
   sorted_seg cmp (heap_extract_fn cmp p a i) p (p + n)"
proof (induction i arbitrary: a)
  case 0
  show ?case
    unfolding sorted_seg_def
  proof (intro allI impI)
    fix x y
    assume xy: "p \<le> x \<and> x < y \<and> y < p + n"
    show "cmp (heap_extract_fn cmp p a 0 ! x) (heap_extract_fn cmp p a 0 ! y) \<le> 0"
    proof (cases "x = p")
      case True
      then show ?thesis using xy "0.prems"(5) by simp
    next
      case False
      then show ?thesis using xy "0.prems"(4) by (simp add: sorted_seg_def)
    qed
  qed
next
  case (Suc i)
  let ?b = "swap_fn a p (p + Suc i)"
  let ?c = "sift_down_fn cmp p (Suc i) ?b 0"
  have len: "length ?b = length a" by simp
  have b: "?b ! p = a ! (p + Suc i)" "?b ! (p + Suc i) = a ! p"
    "\<And>x. x \<noteq> p \<Longrightarrow> x \<noteq> p + Suc i \<Longrightarrow> ?b ! x = a ! x"
    using Suc.prems(2,3) by (auto simp: nth_swap)
  have "heap_but cmp p (Suc i) ?b 0 0"
    unfolding heap_but_def
  proof (intro conjI allI impI)
    fix c
    assume c: "0 < c \<and> c < Suc i \<and> 0 \<le> (c - 1) div 2 \<and> (c - 1) div 2 \<noteq> 0"
    then have "cmp (a ! (p + c)) (a ! (p + (c - 1) div 2)) \<le> 0"
      using Suc.prems(1) by (auto simp: heap_from_def)
    moreover have "(c - 1) div 2 < Suc i" using c by linarith
    ultimately show "cmp (?b ! (p + c)) (?b ! (p + (c - 1) div 2)) \<le> 0"
      using c b(3) [of "p + c"] b(3) [of "p + (c - 1) div 2"] by simp
  qed auto
  then have hc: "heap_from cmp p (Suc i) ?c 0"
    using Suc.prems by (intro sift_down_heap) auto
  have pc: "perm_in p (p + Suc i) ?b ?c"
    using Suc.prems by (intro sift_down_perm) auto
  have lc: "length ?c = length a" using perm_in_length [OF pc] by simp
  have root: "cmp (a ! x) (a ! p) \<le> 0" if "p \<le> x" "x < p + Suc (Suc i)" for x
    using heap_root_max [OF Suc.prems(1), of "x - p"] that by simp
  have out: "?c ! y = ?b ! y" if "p + Suc i \<le> y" "y < p + n" for y
    using perm_in_outside [OF pc, of y] that Suc.prems(2) by simp
  have inn: "\<exists>k. p \<le> k \<and> k < p + Suc (Suc i) \<and> k \<noteq> p \<and> ?c ! x = a ! k" if px: "p \<le> x" "x < p + Suc i" for x
  proof -
    obtain k where k: "p \<le> k" "k < p + Suc i" "?c ! x = ?b ! k"
      using perm_in_elem [OF pc px] Suc.prems by auto
    show ?thesis
    proof (cases "k = p")
      case True
      then show ?thesis using k b(1) by (intro exI [of _ "p + Suc i"]) simp
    next
      case False
      then show ?thesis using k b(3) [of k] by (intro exI [of _ k]) simp
    qed
  qed
  have above: "\<forall>x y. p \<le> x \<and> x < p + Suc i \<and> p + Suc i \<le> y \<and> y < p + n \<longrightarrow> cmp (?c ! x) (?c ! y) \<le> 0"
  proof (intro allI impI)
    fix x y
    assume xy: "p \<le> x \<and> x < p + Suc i \<and> p + Suc i \<le> y \<and> y < p + n"
    then obtain k where k: "p \<le> k" "k < p + Suc (Suc i)" "?c ! x = a ! k" using inn by blast
    show "cmp (?c ! x) (?c ! y) \<le> 0"
    proof (cases "y = p + Suc i")
      case True
      then show ?thesis using xy k out b root by simp
    next
      case False
      then show ?thesis using xy k out [of y] b(3) [of y] Suc.prems(5) by auto
    qed
  qed
  have "sorted_seg cmp ?c (p + Suc i) (p + n)"
    unfolding sorted_seg_def
  proof (intro allI impI)
    fix x y
    assume xy: "p + Suc i \<le> x \<and> x < y \<and> y < p + n"
    then have y: "?c ! y = a ! y" using out [of y] b(3) [of y] by simp
    show "cmp (?c ! x) (?c ! y) \<le> 0"
    proof (cases "x = p + Suc i")
      case True
      then show ?thesis using xy y out [of x] b Suc.prems(5) by auto
    next
      case False
      then have "?c ! x = a ! x" using xy out [of x] b(3) [of x] by simp
      then show ?thesis using y xy False Suc.prems(4) by (simp add: sorted_seg_def)
    qed
  qed
  then have "sorted_seg cmp (heap_extract_fn cmp p ?c i) p (p + n)"
    using Suc.prems lc hc above by (intro Suc.IH) auto
  then show ?case by simp
qed

lemma heapsortx_sorted:
  assumes "p + n \<le> length a"
  shows "sorted_seg cmp (heapsortx_fn cmp a p n) p (p + n)"
proof (cases "n > 1")
  case True
  let ?h = "heapify_fn cmp p n a (n div 2)"
  have "heap_from cmp p n a (n div 2)" by (auto simp: heap_from_def)
  then have h: "heap_from cmp p n ?h 0" using assms by (intro heapify_heap) auto
  have l: "length ?h = length a"
    using heapify_perm [of p n a "n div 2" cmp] assms by (auto dest: perm_in_length)
  have "sorted_seg cmp (heap_extract_fn cmp p ?h (n - 1)) p (p + n)"
    using h True assms l by (intro heap_extract_sorted) (auto simp: sorted_seg_def)
  then show ?thesis using True by (simp add: heapsortx_fn_def)
qed (auto simp: heapsortx_fn_def sorted_seg_def)

text \<open>The element at \<open>j\<close> is on its way down; the others are in order.\<close>

lemma insert_back_sorted:
  assumes "j \<le> i" and "p + i < length a"
    and "\<And>x y. x < y \<Longrightarrow> y \<le> i \<Longrightarrow> x \<noteq> j \<Longrightarrow> y \<noteq> j \<Longrightarrow> cmp (a ! (p + x)) (a ! (p + y)) \<le> 0"
    and "\<And>y. j < y \<Longrightarrow> y \<le> i \<Longrightarrow> cmp (a ! (p + j)) (a ! (p + y)) \<le> 0"
  shows "sorted_seg cmp (insert_back_fn cmp p a j) p (p + Suc i)"
  using assms
proof (induction j arbitrary: a)
  case 0
  have "cmp (a ! x) (a ! y) \<le> 0" if "p \<le> x" "x < y" "y < p + Suc i" for x y
    using 0(3) [of "x - p" "y - p"] 0(4) [of "y - p"] that by (cases "x = p") auto
  then show ?case by (simp add: sorted_seg_def)
next
  case (Suc j)
  show ?case
  proof (cases "cmp (a ! (p + j)) (a ! (p + Suc j)) > 0")
    case True
    let ?b = "swap_fn a (p + Suc j) (p + j)"
    have b: "?b ! (p + x) = (if x = Suc j then a ! (p + j) else if x = j then a ! (p + Suc j) else a ! (p + x))" for x
      using Suc.prems(1,2) by (simp add: nth_swap)
    have key: "cmp (a ! (p + Suc j)) (a ! (p + j)) \<le> 0"
      using True cmp_opp [of "a ! (p + j)" "a ! (p + Suc j)"] by simp
    have "sorted_seg cmp (insert_back_fn cmp p ?b j) p (p + Suc i)"
    proof (rule Suc.IH)
      show "cmp (?b ! (p + x)) (?b ! (p + y)) \<le> 0" if "x < y" "y \<le> i" "x \<noteq> j" "y \<noteq> j" for x y
        unfolding b using Suc.prems(3) [of x y] Suc.prems(3) [of j y] Suc.prems(3) [of x j] that by auto
      show "cmp (?b ! (p + j)) (?b ! (p + y)) \<le> 0" if "j < y" "y \<le> i" for y
        unfolding b using Suc.prems(4) [of y] key that by auto
    qed (use Suc.prems(1,2) in auto)
    with True show ?thesis by simp
  next
    case False
    have "cmp (a ! x) (a ! y) \<le> 0" if xy: "p \<le> x" "x < y" "y < p + Suc i" for x y
    proof -
      consider "x = p + Suc j" | "y = p + Suc j" | "x \<noteq> p + Suc j" "y \<noteq> p + Suc j" by blast
      then show ?thesis
      proof cases
        case 1
        then show ?thesis using Suc.prems(4) [of "y - p"] xy by simp
      next
        case 2
        have "x = p + j \<or> cmp (a ! x) (a ! (p + j)) \<le> 0"
          using Suc.prems(3) [of "x - p" j] Suc.prems(1) xy 2 by fastforce
        then show ?thesis using False 2 cmp_trans by (auto simp: not_less)
      next
        case 3
        then show ?thesis using Suc.prems(3) [of "x - p" "y - p"] xy by auto
      qed
    qed
    with False show ?thesis by (simp add: sorted_seg_def)
  qed
qed

lemma insertion_sorted:
  "sorted_seg cmp a p (p + i) \<Longrightarrow> p + i + k \<le> length a \<Longrightarrow>
   sorted_seg cmp (insertion_fn cmp p a i k) p (p + i + k)"
proof (induction k arbitrary: a i)
  case (Suc k)
  have "sorted_seg cmp (insert_back_fn cmp p a i) p (p + Suc i)"
    by (rule insert_back_sorted) (use Suc.prems in \<open>auto simp: sorted_seg_def\<close>)
  moreover have "length (insert_back_fn cmp p a i) = length a"
    using insert_back_perm [of p i "length a" a cmp] Suc.prems(2) by (auto dest: perm_in_length)
  ultimately show ?case
    using Suc.prems Suc.IH [of "insert_back_fn cmp p a i" "i + 1"] by simp
qed simp

lemma insertion_sort_sorted:
  assumes "p + n \<le> length a"
  shows "sorted_seg cmp (insertion_sort_fn cmp a p n) p (p + n)"
proof (cases n)
  case (Suc m)
  have "sorted_seg cmp (insertion_fn cmp p a 1 m) p (p + 1 + m)"
    using assms Suc by (intro insertion_sorted) (auto simp: sorted_seg_def)
  then show ?thesis using Suc by (simp add: insertion_sort_fn_def)
qed (simp add: insertion_sort_fn_def sorted_seg_def)

end

section \<open>The partition\<close>

text \<open>The regions of a segment while it is partitioned around its first element: equal,
  smaller, unknown, greater, equal.\<close>

definition regions :: "('a \<Rightarrow> 'a \<Rightarrow> int) \<Rightarrow> nat \<Rightarrow> nat \<Rightarrow> 'a list \<Rightarrow> nat \<Rightarrow> nat \<Rightarrow> nat \<Rightarrow> nat \<Rightarrow> bool" where
  "regions cmp p n a lt i j gt \<longleftrightarrow>
     (\<forall>t < lt. cmp (a ! p) (a ! (p + t)) = 0) \<and>
     (\<forall>t. lt \<le> t \<and> t < i \<longrightarrow> cmp (a ! p) (a ! (p + t)) > 0) \<and>
     (\<forall>t. j \<le> t \<and> t < gt \<longrightarrow> cmp (a ! p) (a ! (p + t)) < 0) \<and>
     (\<forall>t. gt \<le> t \<and> t < n \<longrightarrow> cmp (a ! p) (a ! (p + t)) = 0)"

lemma regions_swap:
  assumes "regions cmp p n a lt i j gt" and "1 \<le> x" "1 \<le> y" "p + x < length a" "p + y < length a"
    and "\<And>t. t < n \<Longrightarrow> (t < lt' \<longrightarrow> cmp (a ! p) (a ! (p + (if t = x then y else if t = y then x else t))) = 0)
      \<and> (lt' \<le> t \<and> t < i' \<longrightarrow> cmp (a ! p) (a ! (p + (if t = x then y else if t = y then x else t))) > 0)
      \<and> (j' \<le> t \<and> t < gt' \<longrightarrow> cmp (a ! p) (a ! (p + (if t = x then y else if t = y then x else t))) < 0)
      \<and> (gt' \<le> t \<longrightarrow> cmp (a ! p) (a ! (p + (if t = x then y else if t = y then x else t))) = 0)"
    and "lt' \<le> n" "i' \<le> n" "gt' \<le> n"
  shows "regions cmp p n (swap_fn a (p + x) (p + y)) lt' i' j' gt' \<and> swap_fn a (p + x) (p + y) ! p = a ! p"
proof -
  have b: "swap_fn a (p + x) (p + y) ! (p + t) = a ! (p + (if t = x then y else if t = y then x else t))" for t
    using assms(4,5) by (simp add: nth_swap)
  have p: "swap_fn a (p + x) (p + y) ! p = a ! p"
    using b [of 0] assms(2,3) by simp
  show ?thesis
    unfolding regions_def p b using assms(6-9) by (meson order.strict_trans2)
qed

lemma scan_up_regions:
  "scan_up_fn cmp p a i lt j = (a', i', lt') \<Longrightarrow> regions cmp p n a lt i k gt \<Longrightarrow>
   1 \<le> lt \<Longrightarrow> lt \<le> i \<Longrightarrow> i \<le> j \<Longrightarrow> j \<le> k \<Longrightarrow> k \<le> gt \<Longrightarrow> gt \<le> n \<Longrightarrow> p + n \<le> length a \<Longrightarrow>
   regions cmp p n a' lt' i' k gt \<and> a' ! p = a ! p \<and> (i' < j \<longrightarrow> cmp (a ! p) (a' ! (p + i')) < 0)"
proof (induction cmp p a i lt j rule: scan_up_fn.induct)
  case (1 cmp p a i lt j)
  consider (eq) "i < j" "cmp (a ! p) (a ! (p + i)) = 0" | (gt) "i < j" "cmp (a ! p) (a ! (p + i)) > 0"
    | (stop) "\<not> (i < j \<and> cmp (a ! p) (a ! (p + i)) \<ge> 0)" by fastforce
  then show ?case
  proof cases
    case eq
    let ?b = "swap_fn a (p + lt) (p + i)"
    have r: "scan_up_fn cmp p ?b (i + 1) (lt + 1) j = (a', i', lt')"
      using "1.prems"(1) eq by (simp add: scan_up_fn.simps [of cmp p a i lt j])
    have "regions cmp p n ?b (lt + 1) (i + 1) k gt \<and> ?b ! p = a ! p"
      by (rule regions_swap [OF "1.prems"(2)])
        (use "1.prems"(2-9) eq in \<open>auto simp: regions_def\<close>)
    with "1.IH"(1) [OF eq(1) refl _ eq(2) r] eq "1.prems"(3-9) show ?thesis by auto
  next
    case gt
    have r: "scan_up_fn cmp p a (i + 1) lt j = (a', i', lt')"
      using "1.prems"(1) gt by (simp add: scan_up_fn.simps [of cmp p a i lt j])
    have "regions cmp p n a lt (i + 1) k gt"
      using "1.prems"(2) gt unfolding regions_def by (metis Suc_eq_plus1 less_Suc_eq)
    with "1.IH"(2) [OF gt(1) refl _ _ r] gt "1.prems"(3-9) show ?thesis by auto
  next
    case stop
    with "1.prems" show ?thesis
      by (auto simp: scan_up_fn.simps [of cmp p a i lt j] Let_def split: if_splits)
  qed
qed

lemma scan_down_regions:
  "scan_down_fn cmp p a i j gt = (a', j', gt') \<Longrightarrow> regions cmp p n a lt i j gt \<Longrightarrow>
   1 \<le> lt \<Longrightarrow> lt \<le> i \<Longrightarrow> i \<le> j \<Longrightarrow> j \<le> gt \<Longrightarrow> gt \<le> n \<Longrightarrow> p + n \<le> length a \<Longrightarrow>
   regions cmp p n a' lt i (j' + 1) gt' \<and> a' ! p = a ! p \<and> (\<forall>t \<le> i. a' ! (p + t) = a ! (p + t) \<or> \<not> i < j)
   \<and> (i < j' \<longrightarrow> cmp (a ! p) (a' ! (p + j')) > 0)"
proof (induction cmp p a i j gt rule: scan_down_fn.induct)
  case (1 cmp p a i j gt)
  let ?j = "j - 1"
  consider (eq) "i < ?j" "cmp (a ! p) (a ! (p + ?j)) = 0" | (lt) "i < ?j" "cmp (a ! p) (a ! (p + ?j)) < 0"
    | (stop) "\<not> (i < ?j \<and> cmp (a ! p) (a ! (p + ?j)) \<le> 0)" by fastforce
  then show ?case
  proof cases
    case eq
    let ?b = "swap_fn a (p + (gt - 1)) (p + ?j)"
    have r: "scan_down_fn cmp p ?b i ?j (gt - 1) = (a', j', gt')"
      using "1.prems"(1) eq by (simp add: scan_down_fn.simps [of cmp p a i j gt])
    obtain j0 g0 where jg: "j = Suc j0" "gt = Suc g0"
      using eq "1.prems"(6) by (metis gr0_implies_Suc less_nat_zero_code not_gr0 zero_diff le_zero_eq)
    have "regions cmp p n ?b lt i ?j (gt - 1) \<and> ?b ! p = a ! p"
      by (rule regions_swap [OF "1.prems"(2)])
        (use "1.prems"(2-8) eq jg in \<open>auto simp: regions_def Suc_le_eq dest: le_neq_implies_less\<close>)
    moreover have "?b ! (p + t) = a ! (p + t)" if "t \<le> i" for t
      using that eq "1.prems"(5-8) by (simp add: nth_swap)
    ultimately show ?thesis
      using "1.IH"(1) [OF refl eq(1) refl _ eq(2) r] eq "1.prems"(3-8) by auto
  next
    case lt
    have r: "scan_down_fn cmp p a i ?j gt = (a', j', gt')"
      using "1.prems"(1) lt by (simp add: scan_down_fn.simps [of cmp p a i j gt])
    have "regions cmp p n a lt i ?j gt"
      using "1.prems"(2) lt unfolding regions_def
      by (cases j) (auto simp: Suc_le_eq dest: le_neq_implies_less)
    with "1.IH"(2) [OF refl lt(1) refl _ _ r] lt "1.prems"(3-8) show ?thesis by auto
  next
    case stop
    with "1.prems" show ?thesis
      by (auto simp: scan_down_fn.simps [of cmp p a i j gt] Let_def split: if_splits)
  qed
qed

lemma partition_loop_regions:
  "partition_loop_fn cmp p a i lt j gt = (a', i', lt', gt') \<Longrightarrow> regions cmp p n a lt i j gt \<Longrightarrow>
   1 \<le> lt \<Longrightarrow> lt \<le> i \<Longrightarrow> i \<le> j \<Longrightarrow> j \<le> gt \<Longrightarrow> gt \<le> n \<Longrightarrow> p + n \<le> length a \<Longrightarrow>
   regions cmp p n a' lt' i' i' gt' \<and> a' ! p = a ! p"
proof (induction cmp p a i lt j gt rule: partition_loop_fn.induct)
  case (1 cmp p a i lt j gt)
  obtain a1 i1 lt1 where u: "scan_up_fn cmp p a i lt j = (a1, i1, lt1)" by (metis surj_pair)
  obtain a2 j1 gt1 where d: "scan_down_fn cmp p a1 i1 j gt = (a2, j1, gt1)" by (metis surj_pair)
  note ub = scan_up_bounds [OF u "1.prems"(3-5)]
  have db: "j1 < j" "gt1 \<le> gt" "j1 \<le> gt1" "i1 \<le> gt1" "i1 \<le> j1 + 1"
    using scan_down_bounds [OF d] ub "1.prems" by auto
  have l1: "length a1 = length a"
    using scan_up_perm [OF u, of n] "1.prems" by (auto dest: perm_in_length)
  have ru: "regions cmp p n a1 lt1 i1 j gt" "a1 ! p = a ! p" "i1 < j \<Longrightarrow> cmp (a ! p) (a1 ! (p + i1)) < 0"
    using scan_up_regions [OF u "1.prems"(2)] "1.prems" by auto
  have l2: "length a2 = length a"
    using scan_down_perm [OF d, of n] "1.prems" l1 by (auto dest: perm_in_length)
  have rd: "regions cmp p n a2 lt1 i1 (j1 + 1) gt1" "a2 ! p = a1 ! p"
    "i1 < j \<Longrightarrow> a2 ! (p + i1) = a1 ! (p + i1)" "i1 < j1 \<Longrightarrow> cmp (a1 ! p) (a2 ! (p + j1)) > 0"
    using scan_down_regions [OF d ru(1)] "1.prems" ub l1 by auto
  show ?case
  proof (cases "i1 \<ge> j1")
    case True
    have "regions cmp p n a2 lt1 i1 i1 gt1"
    proof (cases "i1 = j1 + 1")
      case False
      then have "i1 = j1" using True db(5) by linarith
      then have "cmp (a2 ! p) (a2 ! (p + j1)) < 0" using ru rd db(1) by simp
      with rd(1) \<open>i1 = j1\<close> show ?thesis
        unfolding regions_def by (metis Suc_eq_plus1 le_neq_implies_less Suc_leI)
    qed (use rd(1) in simp)
    with True "1.prems" u d rd(2) ru(2) show ?thesis
      by (simp add: partition_loop_fn.simps [of cmp p a i lt j gt] Let_def)
  next
    case False
    let ?b = "swap_fn a2 (p + i1) (p + j1)"
    have r: "partition_loop_fn cmp p ?b (i1 + 1) lt1 j1 gt1 = (a', i', lt', gt')"
      using "1.prems"(1) False u d
      by (simp add: partition_loop_fn.simps [of cmp p a i lt j gt] Let_def)
    have c: "cmp (a2 ! p) (a2 ! (p + i1)) < 0" "cmp (a2 ! p) (a2 ! (p + j1)) > 0"
      using False ru rd db(1) by auto
    have "regions cmp p n ?b lt1 (i1 + 1) j1 gt1 \<and> ?b ! p = a2 ! p"
      by (rule regions_swap [OF rd(1)])
        (use False ub db "1.prems" c l2 rd(1) in \<open>auto simp: regions_def Suc_le_eq dest: le_neq_implies_less\<close>)
    with "1.IH" [OF refl u [symmetric] refl refl d [symmetric] refl False r] ub db False "1.prems" l2 rd ru
    show ?thesis by auto
  qed
qed

text \<open>Where a block exchange reads the element it leaves at \<open>t\<close>.\<close>

definition block_src :: "nat \<Rightarrow> nat \<Rightarrow> nat \<Rightarrow> nat \<Rightarrow> nat" where
  "block_src i j k t = (if i \<le> t \<and> t < i + k then t - i + j
     else if j \<le> t \<and> t < j + k then t - j + i else t)"

lemma swap_block_nth:
  "i + k \<le> j \<Longrightarrow> j + k \<le> length a \<Longrightarrow> swap_block_fn a i j k ! t = a ! block_src i j k t"
proof (induction a i j k rule: swap_block_fn.induct)
  case (2 a i j n)
  have s: "swap_fn a i j ! u = a ! (if u = i then j else if u = j then i else u)" for u
    using "2.prems" by (simp add: nth_swap)
  have "block_src i j (Suc n) t =
    (if block_src (i + 1) (j + 1) n t = i then j else if block_src (i + 1) (j + 1) n t = j then i
     else block_src (i + 1) (j + 1) n t)"
    using "2.prems" by (auto simp: block_src_def)
  with "2.IH" "2.prems" show ?case by (simp add: s)
qed (auto simp: block_src_def)

text \<open>The result of a round: smaller, equal and greater elements, in this order.\<close>

lemma partition_seg_parts:
  assumes r: "partition_seg_fn cmp a p n = (a', lt, gt)" and n: "6 < n" "p + n \<le> length a"
    and refl: "\<And>x. cmp x x = 0"
  shows "\<exists>v. \<forall>t < n. (t < lt \<longrightarrow> cmp v (a' ! (p + t)) > 0) \<and> (lt \<le> t \<and> t < gt \<longrightarrow> cmp v (a' ! (p + t)) = 0)
      \<and> (gt \<le> t \<longrightarrow> cmp v (a' ! (p + t)) < 0)"
proof -
  let ?a0 = "swap_fn a p (med3_fn cmp a (p + n div 4) (p + 2 * (n div 4)) (p + 3 * (n div 4)))"
  obtain a1 i plt pgt where l: "partition_loop_fn cmp p ?a0 1 1 n n = (a1, i, plt, pgt)"
    by (metis surj_pair)
  have b: "1 \<le> plt" "plt \<le> i" "i \<le> pgt" "pgt \<le> n"
    using partition_loop_bounds [OF l] n by auto
  have "regions cmp p n ?a0 1 1 n n" by (auto simp: regions_def refl)
  then have rg: "regions cmp p n a1 plt i i pgt"
    using partition_loop_regions [OF l] n by auto
  have "perm_in p (p + n) ?a0 a1"
    using n by (intro partition_loop_perm [OF l]) auto
  then have l1: "length a1 = length a" by (auto dest: perm_in_length)
  define k1 where "k1 = min plt (i - plt)"
  define k2 where "k2 = min (n - pgt) (pgt - i)"
  let ?a2 = "swap_block_fn a1 p (p + i - k1) k1"
  have a': "a' = swap_block_fn ?a2 (p + i) (p + n - k2) k2" and lt: "lt = i - plt" and gt: "gt = n - (pgt - i)"
    using r partition_seg_eq [OF l] unfolding k1_def k2_def by (metis fst_conv snd_conv)+
  have "perm_in p (p + n) a1 ?a2"
    using n b l1 by (intro swap_block_perm) (auto simp: k1_def)
  then have l2: "length ?a2 = length a" using l1 by (auto dest: perm_in_length)
  have k: "k1 \<le> plt" "k1 \<le> i - plt" "k2 \<le> n - pgt" "k2 \<le> pgt - i"
    by (simp_all add: k1_def k2_def)
  have n2: "?a2 ! (p + t) = a1 ! (p + block_src 0 (i - k1) k1 t)" for t
  proof -
    have "block_src p (p + i - k1) k1 (p + t) = p + block_src 0 (i - k1) k1 t"
      using k b by (auto simp: block_src_def)
    then show ?thesis using b k n l1 by (subst swap_block_nth) auto
  qed
  have n3: "a' ! (p + t) = ?a2 ! (p + block_src i (n - k2) k2 t)" for t
  proof -
    have "block_src (p + i) (p + n - k2) k2 (p + t) = p + block_src i (n - k2) k2 t"
      using k b by (auto simp: block_src_def)
    then show ?thesis unfolding a' using b k n l2 by (subst swap_block_nth) auto
  qed
  define src where "src t = block_src 0 (i - k1) k1 (block_src i (n - k2) k2 t)" for t
  have val: "a' ! (p + t) = a1 ! (p + src t)" for t
    by (simp add: n3 n2 src_def)
  have k1: "k1 = plt \<and> plt \<le> i - plt \<or> k1 = i - plt \<and> i - plt \<le> plt"
    and k2: "k2 = n - pgt \<and> n - pgt \<le> pgt - i \<or> k2 = pgt - i \<and> pgt - i \<le> n - pgt"
    by (auto simp: k1_def k2_def)
  have left: "src t = block_src 0 (i - k1) k1 t" if "t < i" for t
  proof -
    have "i \<le> n - k2" using k b by linarith
    then have "block_src i (n - k2) k2 t = t" using that by (simp add: block_src_def)
    then show ?thesis by (simp add: src_def)
  qed
  have right: "src t = block_src i (n - k2) k2 t" if "i \<le> t" "t < n" for t
  proof -
    have "i \<le> block_src i (n - k2) k2 t" using that k b by (auto simp: block_src_def)
    then show ?thesis using k b by (simp add: src_def block_src_def [of 0])
  qed
  have low: "plt \<le> src t \<and> src t < i" if t: "t < lt" for t
  proof -
    have e: "src t = block_src 0 (i - k1) k1 t" using t b by (intro left) (simp add: lt)
    show ?thesis unfolding e using k1 t b by (auto simp: lt block_src_def)
  qed
  have mid: "src t < plt \<or> (pgt \<le> src t \<and> src t < n)" if t: "lt \<le> t" "t < gt" for t
  proof (cases "t < i")
    case True
    show ?thesis unfolding left [OF True] using k1 t(1) True b by (auto simp: lt block_src_def)
  next
    case False
    then have e: "src t = block_src i (n - k2) k2 t" using t b by (intro right) (auto simp: gt)
    show ?thesis unfolding e using k2 t(2) False b by (auto simp: gt block_src_def)
  qed
  have high: "i \<le> src t \<and> src t < pgt" if t: "gt \<le> t" "t < n" for t
  proof -
    have e: "src t = block_src i (n - k2) k2 t" using t b by (intro right) (auto simp: gt)
    show ?thesis unfolding e using k2 t b by (auto simp: gt block_src_def)
  qed
  have eqv: "cmp (a1 ! p) (a1 ! (p + u)) = 0" if "u < plt \<or> pgt \<le> u \<and> u < n" for u
    using rg that by (auto simp: regions_def)
  have gtv: "cmp (a1 ! p) (a1 ! (p + u)) > 0" if "plt \<le> u" "u < i" for u
    using rg that by (auto simp: regions_def)
  have ltv: "cmp (a1 ! p) (a1 ! (p + u)) < 0" if "i \<le> u" "u < pgt" for u
    using rg that by (auto simp: regions_def)
  show ?thesis
  proof (intro exI [of _ "a1 ! p"] allI impI conjI)
    fix t assume "t < n"
    show "0 < cmp (a1 ! p) (a' ! (p + t))" if "t < lt"
      unfolding val using low [OF that] gtv by simp
    show "cmp (a1 ! p) (a' ! (p + t)) = 0" if "lt \<le> t \<and> t < gt"
      unfolding val using mid [of t] that by (intro eqv) simp
    show "cmp (a1 ! p) (a' ! (p + t)) < 0" if "gt \<le> t"
      unfolding val using high [OF that \<open>t < n\<close>] ltv by simp
  qed
qed

section \<open>The explicit stack never overflows\<close>

text \<open>The entries of the stack have strictly decreasing depths, below the current depth; the
  depth limit of 50 thus bounds the stack as well.\<close>

definition stack_inv :: "nat \<Rightarrow> nat \<Rightarrow> seg list \<Rightarrow> bool" where
  "stack_inv N d st \<longleftrightarrow> d \<le> 50 \<and> sorted_wrt (\<lambda>(p, n, e) (p', n', e'). e' < e) st
     \<and> (\<forall>(p, n, e) \<in> set st. 1 \<le> e \<and> e \<le> d \<and> p + n \<le> N)"

lemma stack_inv_length: "stack_inv N d st \<Longrightarrow> length st \<le> d"
proof (induction st arbitrary: d)
  case (Cons x st)
  obtain p n e where x: "x = (p, n, e)" by (metis surj_pair)
  have "stack_inv N (e - 1) st"
    using Cons.prems unfolding x by (fastforce simp: stack_inv_def)
  then have "length st \<le> e - 1" by (rule Cons.IH)
  moreover have "1 \<le> e" "e \<le> d" using Cons.prems unfolding x by (auto simp: stack_inv_def)
  ultimately show ?case by simp
qed simp

lemma stack_inv_push:
  assumes "stack_inv N d st" and "d + 1 \<le> 50" and "p + n \<le> N"
  shows "push_seg (p, n, d + 1) st = Some ((p, n, d + 1) # st) \<and> stack_inv N (d + 1) ((p, n, d + 1) # st)"
proof -
  have "length st < 50" using stack_inv_length [OF assms(1)] assms(2) by linarith
  then show ?thesis using assms by (fastforce simp: push_seg_def stack_inv_def)
qed

lemma stack_inv_pop: "stack_inv N d ((p, n, e) # st) \<Longrightarrow> stack_inv N e st \<and> p + n \<le> N"
  by (fastforce simp: stack_inv_def)

lemma rqsort_seg_total:
  "stack_inv N d st \<Longrightarrow> p + n \<le> N \<Longrightarrow> length a = N \<Longrightarrow>
   \<exists>a' p' n' st' d'. rqsort_seg_fn cmp a p n d st = Some (a', p', n', st') \<and> stack_inv N d' st'
     \<and> p' + n' \<le> N \<and> perm_in 0 N a a'"
proof (induction cmp a p n d st rule: rqsort_seg_fn.induct)
  case (1 cmp a p n d st)
  consider "n \<le> 6" | "n > 6" "d + 1 > 50" | "n > 6" "\<not> d + 1 > 50" by linarith
  then show ?case
  proof cases
    case 1
    with "1.prems" show ?thesis by (auto simp: rqsort_seg_fn.simps [of cmp a p n d st])
  next
    case 2
    moreover have "perm_in 0 N a (heapsortx_fn cmp a p n)"
      using "1.prems" by (intro perm_in_mono [OF heapsortx_perm]) auto
    ultimately show ?thesis
      using "1.prems" by (auto simp: rqsort_seg_fn.simps [of cmp a p n d st])
  next
    case 3
    obtain a1 lt gt where ps: "partition_seg_fn cmp a p n = (a1, lt, gt)" by (metis surj_pair)
    have b: "lt < gt" "gt \<le> n" using partition_seg_bounds [OF ps] 3 by auto
    have perm: "perm_in 0 N a a1"
      using 3 "1.prems" by (intro perm_in_mono [OF partition_seg_perm [OF ps]]) auto
    have l: "length a1 = N" using perm_in_length [OF perm] "1.prems" by simp
    show ?thesis
    proof (cases "lt > n - gt")
      case True
      have pu: "push_seg (p, lt, d + 1) st = Some ((p, lt, d + 1) # st)"
        "stack_inv N (d + 1) ((p, lt, d + 1) # st)"
        using stack_inv_push [OF "1.prems"(1), of p lt] 3 b "1.prems" by auto
      have r: "rqsort_seg_fn cmp a p n d st = rqsort_seg_fn cmp a1 (p + gt) (n - gt) (d + 1) ((p, lt, d + 1) # st)"
        using 3 ps True pu(1) by (simp add: rqsort_seg_fn.simps [of cmp a p n d st])
      show ?thesis
        unfolding r using "1.IH"(1) [OF 3 ps [symmetric] refl True pu(1,2)] b l "1.prems"(2) perm
        by (auto intro: perm_in_trans)
    next
      case False
      have pu: "push_seg (p + gt, n - gt, d + 1) st = Some ((p + gt, n - gt, d + 1) # st)"
        "stack_inv N (d + 1) ((p + gt, n - gt, d + 1) # st)"
        using stack_inv_push [OF "1.prems"(1), of "p + gt" "n - gt"] 3 b "1.prems" by auto
      have r: "rqsort_seg_fn cmp a p n d st = rqsort_seg_fn cmp a1 p lt (d + 1) ((p + gt, n - gt, d + 1) # st)"
        using 3 ps False pu(1) by (simp add: rqsort_seg_fn.simps [of cmp a p n d st])
      show ?thesis
        unfolding r using "1.IH"(2) [OF 3 ps [symmetric] refl False pu(1,2)] b l "1.prems"(2) perm
        by (auto intro: perm_in_trans)
    qed
  qed
qed

lemma rqsort_loop_total:
  "stack_inv N d st \<Longrightarrow> length a = N \<Longrightarrow> \<exists>a'. rqsort_loop_fn cmp a st = Some a' \<and> perm_in 0 N a a'"
proof (induction "seg_weight st" arbitrary: a st d rule: less_induct)
  case less
  show ?case
  proof (cases st)
    case (Cons x st1)
    obtain p n e where x: "x = (p, n, e)" by (metis surj_pair)
    have inv: "stack_inv N e st1" "p + n \<le> N"
      using less.prems(1) unfolding Cons x by (auto dest: stack_inv_pop)
    obtain a1 p1 n1 st2 d2 where r: "rqsort_seg_fn cmp a p n e st1 = Some (a1, p1, n1, st2)"
      and i2: "stack_inv N d2 st2" "p1 + n1 \<le> N" and perm: "perm_in 0 N a a1"
      using rqsort_seg_total [OF inv less.prems(2), of cmp] by blast
    have l1: "length a1 = N" using perm_in_length [OF perm] less.prems by simp
    have p2: "perm_in 0 N a1 (insertion_sort_fn cmp a1 p1 n1)"
      using i2 l1 by (intro perm_in_mono [OF insertion_sort_perm]) auto
    have "seg_weight st2 < seg_weight st"
      using rqsort_seg_weight [OF r] by (simp add: Cons x)
    from less.hyps [OF this i2(1), of "insertion_sort_fn cmp a1 p1 n1"]
    obtain a' where "rqsort_loop_fn cmp (insertion_sort_fn cmp a1 p1 n1) st2 = Some a'"
      "perm_in 0 N (insertion_sort_fn cmp a1 p1 n1) a'"
      using perm_in_length [OF p2] l1 by auto
    with r perm p2 show ?thesis by (auto simp: Cons x intro: perm_in_trans)
  qed (simp add: less.prems)
qed

text \<open>For any comparison function whatever, the sort ends, stays inside its stack and permutes
  the array.\<close>

lemma rqsort_fn_total: "\<exists>a'. rqsort_fn cmp a = Some a' \<and> mset a' = mset a"
proof (cases "length a < 2")
  case False
  have "rqsort_loop_fn cmp a [(0, length a, 0)] =
    (case rqsort_seg_fn cmp a 0 (length a) 0 [] of None \<Rightarrow> None
     | Some (a', p', n', st') \<Rightarrow> rqsort_loop_fn cmp (insertion_sort_fn cmp a' p' n') st')" by simp
  have "stack_inv (length a) 0 []" by (simp add: stack_inv_def)
  from rqsort_seg_total [OF this, of 0 "length a" a cmp]
  obtain a1 p1 n1 st1 d1 where r: "rqsort_seg_fn cmp a 0 (length a) 0 [] = Some (a1, p1, n1, st1)"
    and i: "stack_inv (length a) d1 st1" "p1 + n1 \<le> length a" and p: "perm_in 0 (length a) a a1" by auto
  have l: "length a1 = length a" using perm_in_length [OF p] .
  have p2: "perm_in 0 (length a) a1 (insertion_sort_fn cmp a1 p1 n1)"
    using i l by (intro perm_in_mono [OF insertion_sort_perm]) auto
  obtain a' where "rqsort_loop_fn cmp (insertion_sort_fn cmp a1 p1 n1) st1 = Some a'"
    "perm_in 0 (length a) (insertion_sort_fn cmp a1 p1 n1) a'"
    using rqsort_loop_total [OF i(1), of "insertion_sort_fn cmp a1 p1 n1" cmp] perm_in_length [OF p2] l by auto
  with r p p2 False show ?thesis by (auto simp: rqsort_fn_def perm_in_def)
qed (simp add: rqsort_fn_def)

lemma rqsort_total: "\<exists>a'. rqsort cmp a = Some a' \<and> mset a' = mset a"
  unfolding rqsort_in by (rule rqsort_fn_total)

section \<open>Functional correctness\<close>

text \<open>Two elements are in order unless a pending segment holds both.\<close>

definition seg_disjoint :: "nat \<times> nat \<Rightarrow> nat \<times> nat \<Rightarrow> bool" where
  "seg_disjoint s t \<longleftrightarrow> fst s + snd s \<le> fst t \<or> fst t + snd t \<le> fst s"

definition in_seg :: "nat \<Rightarrow> nat \<times> nat \<Rightarrow> bool" where
  "in_seg i s \<longleftrightarrow> fst s \<le> i \<and> i < fst s + snd s"

definition pending :: "('a \<Rightarrow> 'a \<Rightarrow> int) \<Rightarrow> 'a list \<Rightarrow> (nat \<times> nat) list \<Rightarrow> bool" where
  "pending cmp a ss \<longleftrightarrow> sorted_wrt seg_disjoint ss \<and> (\<forall>s \<in> set ss. fst s + snd s \<le> length a) \<and>
     (\<forall>i j. i < j \<and> j < length a \<longrightarrow> (\<exists>s \<in> set ss. in_seg i s \<and> in_seg j s) \<or> cmp (a ! i) (a ! j) \<le> 0)"

lemma in_seg_disjoint: "seg_disjoint s t \<Longrightarrow> in_seg i s \<Longrightarrow> in_seg i t \<Longrightarrow> False"
  by (auto simp: seg_disjoint_def in_seg_def)

lemma pending_refine:
  assumes pd: "pending cmp a ((p, n) # ss)" and perm: "perm_in p (p + n) a b"
    and ts: "sorted_wrt seg_disjoint ts" "\<forall>t \<in> set ts. p \<le> fst t \<and> fst t + snd t \<le> p + n"
    and ord: "\<And>i j. p \<le> i \<Longrightarrow> i < j \<Longrightarrow> j < p + n \<Longrightarrow>
       (\<exists>t \<in> set ts. in_seg i t \<and> in_seg j t) \<or> cmp (b ! i) (b ! j) \<le> 0"
  shows "pending cmp b (ts @ ss)"
proof -
  have l: "length b = length a" using perm by (rule perm_in_length)
  have pn: "p + n \<le> length a" using pd by (simp add: pending_def)
  have disj: "seg_disjoint (p, n) s" if "s \<in> set ss" for s
    using pd that by (simp add: pending_def)
  have "seg_disjoint t s" if "t \<in> set ts" "s \<in> set ss" for t s
    using disj [OF that(2)] ts(2) that(1) by (force simp: seg_disjoint_def)
  then have 1: "sorted_wrt seg_disjoint (ts @ ss)"
    using ts(1) pd by (auto simp: sorted_wrt_append pending_def)
  have 2: "\<forall>s \<in> set (ts @ ss). fst s + snd s \<le> length b"
    using ts(2) pd pn l by (fastforce simp: pending_def)
  have 3: "(\<exists>s \<in> set (ts @ ss). in_seg i s \<and> in_seg j s) \<or> cmp (b ! i) (b ! j) \<le> 0"
    if ij: "i < j" "j < length a" for i j
  proof -
    have old: "(\<exists>s \<in> set ((p, n) # ss). in_seg x s \<and> in_seg y s) \<or> cmp (a ! x) (a ! y) \<le> 0"
      if "x < y" "y < length a" for x y
      using pd that by (auto simp: pending_def)
    let ?s = "(p, n)"
    consider "in_seg i ?s" "in_seg j ?s" | "in_seg i ?s" "\<not> in_seg j ?s" | "\<not> in_seg i ?s" "in_seg j ?s"
      | "\<not> in_seg i ?s" "\<not> in_seg j ?s" by blast
    then show ?thesis
    proof cases
      case 1
      then show ?thesis using ord [of i j] ij by (auto simp: in_seg_def)
    next
      case 2
      then obtain k where k: "in_seg k ?s" "b ! i = a ! k"
        using perm_in_elem [OF perm, of i] pn by (auto simp: in_seg_def)
      have bj: "b ! j = a ! j"
        using perm_in_outside [OF perm ij(2)] 2 by (auto simp: in_seg_def)
      have "k < j" using k 2 ij by (auto simp: in_seg_def)
      have "\<not> (\<exists>s \<in> set ss. in_seg k s)" using disj in_seg_disjoint k(1) by blast
      then show ?thesis using old [OF \<open>k < j\<close> ij(2)] 2 k bj by auto
    next
      case 3
      then obtain k where k: "in_seg k ?s" "b ! j = a ! k"
        using perm_in_elem [OF perm, of j] pn by (auto simp: in_seg_def)
      have bi: "b ! i = a ! i"
        using perm_in_outside [OF perm, of i] ij 3 by (auto simp: in_seg_def)
      have "i < k" "k < length a" using k 3 ij pn by (auto simp: in_seg_def)
      have "\<not> (\<exists>s \<in> set ss. in_seg k s)" using disj in_seg_disjoint k(1) by blast
      then show ?thesis using old [OF \<open>i < k\<close> \<open>k < length a\<close>] 3 k bi by auto
    next
      case 4
      have "b ! i = a ! i" "b ! j = a ! j"
        using perm_in_outside [OF perm, of i] perm_in_outside [OF perm, of j] ij 4
        by (auto simp: in_seg_def)
      then show ?thesis using old [OF ij] 4 by auto
    qed
  qed
  show ?thesis unfolding pending_def l using 1 2 3 l by auto
qed

abbreviation segs :: "seg list \<Rightarrow> (nat \<times> nat) list" where
  "segs st \<equiv> map (\<lambda>(p, n, d). (p, n)) st"

context comparator begin

lemma parts_ordered:
  assumes parts: "\<forall>t < n. (t < lt \<longrightarrow> cmp v (b ! (p + t)) > 0) \<and> (lt \<le> t \<and> t < gt \<longrightarrow> cmp v (b ! (p + t)) = 0)
      \<and> (gt \<le> t \<longrightarrow> cmp v (b ! (p + t)) < 0)"
    and ij: "p \<le> i" "i < j" "j < p + n" and le: "lt \<le> gt"
  shows "in_seg i (p, lt) \<and> in_seg j (p, lt) \<or> in_seg i (p + gt, n - gt) \<and> in_seg j (p + gt, n - gt)
    \<or> cmp (b ! i) (b ! j) \<le> 0"
proof -
  define x y where "x = i - p" and "y = j - p"
  have xy: "i = p + x" "j = p + y" "x < y" "y < n" using ij by (auto simp: x_def y_def)
  have cx: "(x < lt \<longrightarrow> cmp v (b ! i) > 0) \<and> (lt \<le> x \<and> x < gt \<longrightarrow> cmp v (b ! i) = 0) \<and> (gt \<le> x \<longrightarrow> cmp v (b ! i) < 0)"
    using parts xy by auto
  have cy: "(y < lt \<longrightarrow> cmp v (b ! j) > 0) \<and> (lt \<le> y \<and> y < gt \<longrightarrow> cmp v (b ! j) = 0) \<and> (gt \<le> y \<longrightarrow> cmp v (b ! j) < 0)"
    using parts xy by auto
  show ?thesis
  proof (cases "y < lt \<or> gt \<le> x")
    case True
    then show ?thesis using xy le by (auto simp: in_seg_def)
  next
    case False
    then have "cmp v (b ! i) \<ge> 0" using cx by (cases "x < lt") auto
    then have 1: "cmp (b ! i) v \<le> 0" using cmp_ge by simp
    have 2: "cmp v (b ! j) \<le> 0" using cy False by (cases "y < gt") auto
    show ?thesis using cmp_trans [OF 1 2] by simp
  qed
qed

lemma rqsort_seg_pending:
  "rqsort_seg_fn cmp a p n d st = Some (a', p', n', st') \<Longrightarrow> pending cmp a ((p, n) # segs st) \<Longrightarrow>
   pending cmp a' ((p', n') # segs st')"
proof (induction "n" arbitrary: a p d st rule: less_induct)
  case (less n)
  have pn: "p + n \<le> length a" using less.prems(2) by (simp add: pending_def)
  consider "n \<le> 6" | "n > 6" "d + 1 > 50" | "n > 6" "\<not> d + 1 > 50" by linarith
  then show ?case
  proof cases
    case 1
    with less.prems show ?thesis by (simp add: rqsort_seg_fn.simps [of cmp a p n d st])
  next
    case 2
    then have "(a', p', n', st') = (heapsortx_fn cmp a p n, p, 0, st)"
      using less.prems(1) by (auto simp: rqsort_seg_fn.simps [of cmp a p n d st])
    moreover have "pending cmp (heapsortx_fn cmp a p n) ([(p, 0)] @ segs st)"
      by (rule pending_refine [OF less.prems(2) heapsortx_perm [OF pn]])
        (use heapsortx_sorted [OF pn] in \<open>auto simp: sorted_seg_def\<close>)
    ultimately show ?thesis by simp
  next
    case 3
    obtain a1 lt gt where ps: "partition_seg_fn cmp a p n = (a1, lt, gt)" by (metis surj_pair)
    have b: "lt < gt" "gt \<le> n" using partition_seg_bounds [OF ps] 3 by auto
    have perm: "perm_in p (p + n) a a1" using 3 pn by (intro partition_seg_perm [OF ps]) auto
    obtain v where v: "\<forall>t < n. (t < lt \<longrightarrow> cmp v (a1 ! (p + t)) > 0) \<and> (lt \<le> t \<and> t < gt \<longrightarrow> cmp v (a1 ! (p + t)) = 0)
      \<and> (gt \<le> t \<longrightarrow> cmp v (a1 ! (p + t)) < 0)"
      using partition_seg_parts [OF ps 3(1) pn cmp_refl] by blast
    have ord: "in_seg i (p, lt) \<and> in_seg j (p, lt) \<or> in_seg i (p + gt, n - gt) \<and> in_seg j (p + gt, n - gt)
      \<or> cmp (a1 ! i) (a1 ! j) \<le> 0" if "p \<le> i" "i < j" "j < p + n" for i j
      using parts_ordered [OF v that] b by simp
    show ?thesis
    proof (cases "lt > n - gt")
      case True
      then have r: "rqsort_seg_fn cmp a1 (p + gt) (n - gt) (d + 1) ((p, lt, d + 1) # st) = Some (a', p', n', st')"
        using less.prems(1) 3 ps
        by (auto simp: rqsort_seg_fn.simps [of cmp a p n d st] push_seg_def split: if_splits)
      have "pending cmp a1 ([(p + gt, n - gt), (p, lt)] @ segs st)"
        by (rule pending_refine [OF less.prems(2) perm]) (use b ord in \<open>auto simp: seg_disjoint_def\<close>)
      then show ?thesis using b 3 by (intro less.IH [OF _ r]) auto
    next
      case False
      then have r: "rqsort_seg_fn cmp a1 p lt (d + 1) ((p + gt, n - gt, d + 1) # st) = Some (a', p', n', st')"
        using less.prems(1) 3 ps
        by (auto simp: rqsort_seg_fn.simps [of cmp a p n d st] push_seg_def split: if_splits)
      have "pending cmp a1 ([(p, lt), (p + gt, n - gt)] @ segs st)"
        by (rule pending_refine [OF less.prems(2) perm]) (use b ord in \<open>auto simp: seg_disjoint_def\<close>)
      then show ?thesis using b 3 by (intro less.IH [OF _ r]) auto
    qed
  qed
qed

lemma rqsort_loop_pending:
  "rqsort_loop_fn cmp a st = Some a' \<Longrightarrow> pending cmp a (segs st) \<Longrightarrow> pending cmp a' []"
proof (induction "seg_weight st" arbitrary: a st rule: less_induct)
  case less
  show ?case
  proof (cases st)
    case (Cons x st1)
    obtain p n e where x: "x = (p, n, e)" by (metis surj_pair)
    obtain a1 p1 n1 st2 where r: "rqsort_seg_fn cmp a p n e st1 = Some (a1, p1, n1, st2)"
      and l: "rqsort_loop_fn cmp (insertion_sort_fn cmp a1 p1 n1) st2 = Some a'"
      using less.prems(1) by (auto simp: Cons x split: option.splits)
    have pd: "pending cmp a1 ((p1, n1) # segs st2)"
      using rqsort_seg_pending [OF r] less.prems(2) by (simp add: Cons x)
    then have pn: "p1 + n1 \<le> length a1" by (simp add: pending_def)
    have "pending cmp (insertion_sort_fn cmp a1 p1 n1) ([] @ segs st2)"
      by (rule pending_refine [OF pd insertion_sort_perm [OF pn]])
        (use insertion_sort_sorted [OF pn] in \<open>auto simp: sorted_seg_def\<close>)
    moreover have "seg_weight st2 < seg_weight st"
      using rqsort_seg_weight [OF r] by (simp add: Cons x)
    ultimately show ?thesis using less.hyps l by simp
  qed (use less.prems in simp)
qed

lemma rqsort_sorted:
  assumes "rqsort cmp a = Some a'"
  shows "sorted_seg cmp a' 0 (length a')"
proof (cases "length a < 2")
  case True
  with assms show ?thesis by (auto simp: rqsort_in rqsort_fn_def sorted_seg_def)
next
  case False
  then have "rqsort_loop_fn cmp a [(0, length a, 0)] = Some a'" using assms by (simp add: rqsort_in rqsort_fn_def)
  moreover have "pending cmp a (segs [(0, length a, 0)])" by (auto simp: pending_def in_seg_def)
  ultimately have "pending cmp a' []" by (rule rqsort_loop_pending)
  then show ?thesis by (simp add: pending_def sorted_seg_def)
qed

end

section \<open>Properties\<close>

text \<open>C3: for any comparison function whatever, even an inconsistent one, \<^verbatim>\<open>rqsort\<close>
  ends and returns a permutation of the array; the result would be \<open>None\<close> if any read or
  write, by a comparison or an exchange, fell outside the array, or if more than 50 pending
  segments were pushed on the stack.\<close>

theorem rqsort_terminates_and_permutes: "\<exists>a'. rqsort cmp a = Some a' \<and> mset a' = mset a"
  by (rule rqsort_total)

end
