(* ===== verification/TypedArraySort.thy ===== *)
theory TypedArraySort
  imports RqsortOrder
begin

text \<open>
  \<^verbatim>\<open>TypedArray.prototype.sort\<close> of \<^verbatim>\<open>quickjs.c\<close>: the comparison functions of the
  element types (\<^verbatim>\<open>js_TA_cmp_int8\<close> and the others, \<^verbatim>\<open>js_cmp_doubles\<close>), the generic one
  that calls the user's function and breaks ties by the position, the comparison of the integer
  property keys, and \<^verbatim>\<open>js_typed_array_sort\<close> itself. Each comparison function is shown to
  satisfy the contract \<open>comparator\<close> of \<^verbatim>\<open>rqsort\<close>.
\<close>

section \<open>The comparison functions\<close>

text \<open>The value of a C comparison.\<close>

definition cbool :: "bool \<Rightarrow> int" where
  "cbool b = (if b then 1 else 0)"

lemma cbool_simps [simp]: "cbool True = 1" "cbool False = 0"
    "cbool p \<le> cbool q \<longleftrightarrow> (p \<longrightarrow> q)" "0 \<le> cbool p" "cbool p \<le> 0 \<longleftrightarrow> \<not> p"
    "cbool p < cbool q \<longleftrightarrow> \<not> p \<and> q"
  by (simp_all add: cbool_def)

definition js_TA_cmp_int8 :: "u8 \<Rightarrow> u8 \<Rightarrow> int" where
  "js_TA_cmp_int8 a b = sint a - sint b"

definition js_TA_cmp_uint8 :: "u8 \<Rightarrow> u8 \<Rightarrow> int" where
  "js_TA_cmp_uint8 a b = uint a - uint b"

definition js_TA_cmp_int16 :: "u16 \<Rightarrow> u16 \<Rightarrow> int" where
  "js_TA_cmp_int16 a b = sint a - sint b"

definition js_TA_cmp_uint16 :: "u16 \<Rightarrow> u16 \<Rightarrow> int" where
  "js_TA_cmp_uint16 a b = uint a - uint b"

definition js_TA_cmp_int32 :: "u32 \<Rightarrow> u32 \<Rightarrow> int" where
  "js_TA_cmp_int32 x y = cbool (sint y < sint x) - cbool (sint y > sint x)"

definition js_TA_cmp_uint32 :: "u32 \<Rightarrow> u32 \<Rightarrow> int" where
  "js_TA_cmp_uint32 x y = cbool (y < x) - cbool (y > x)"

definition js_TA_cmp_int64 :: "u64 \<Rightarrow> u64 \<Rightarrow> int" where
  "js_TA_cmp_int64 x y = cbool (sint y < sint x) - cbool (sint y > sint x)"

definition js_TA_cmp_uint64 :: "u64 \<Rightarrow> u64 \<Rightarrow> int" where
  "js_TA_cmp_uint64 x y = cbool (y < x) - cbool (y > x)"

text \<open>A C \<^verbatim>\<open>double\<close>: not a number, or a sign and a magnitude in units of the smallest
  subnormal (\<open>2 ^ -1074\<close>). The infinities are the magnitude that the exponent field 2047 would
  denote, so that the order of the magnitudes is the order of the values.\<close>

datatype cdouble = NaN | Dbl bool nat

fun isnan :: "cdouble \<Rightarrow> bool" where
  "isnan NaN = True"
| "isnan (Dbl _ _) = False"

fun signbit :: "cdouble \<Rightarrow> bool" where
  "signbit NaN = False"
| "signbit (Dbl s _) = s"

fun dbl_units :: "cdouble \<Rightarrow> int" where
  "dbl_units NaN = 0"
| "dbl_units (Dbl s m) = (if s then - int m else int m)"

definition dbl_less :: "cdouble \<Rightarrow> cdouble \<Rightarrow> bool" where
  "dbl_less x y \<longleftrightarrow> \<not> isnan x \<and> \<not> isnan y \<and> dbl_units x < dbl_units y"

definition f64_double :: "u64 \<Rightarrow> cdouble" where
  "f64_double w =
    (let s = bit w 63; e = unat (drop_bit 52 w AND 0x7FF); f = unat (w AND 0xFFFFFFFFFFFFF) in
     if e = 2047 \<and> f \<noteq> 0 then NaN
     else Dbl s (if e = 0 then f else (2 ^ 52 + f) * 2 ^ (e - 1)))"

definition f32_double :: "u32 \<Rightarrow> cdouble" where
  "f32_double w =
    (let s = bit w 31; e = unat (drop_bit 23 w AND 0xFF); f = unat (w AND 0x7FFFFF) in
     if e = 255 then (if f \<noteq> 0 then NaN else Dbl s (2 ^ 52 * 2 ^ 2046))
     else Dbl s (if e = 0 then f * 2 ^ 925 else (2 ^ 23 + f) * 2 ^ (e - 1) * 2 ^ 925))"

definition js_cmp_doubles :: "cdouble \<Rightarrow> cdouble \<Rightarrow> int" where
  "js_cmp_doubles x y =
    (if isnan x then (if isnan y then 0 else 1)
     else if isnan y then -1
     else if dbl_less x y then -1
     else if dbl_less y x then 1
     else if dbl_units x \<noteq> 0 then 0
     else if signbit x then (if signbit y then 0 else -1)
     else (if signbit y then 1 else 0))"

definition js_TA_cmp_float32 :: "u32 \<Rightarrow> u32 \<Rightarrow> int" where
  "js_TA_cmp_float32 a b = js_cmp_doubles (f32_double a) (f32_double b)"

definition js_TA_cmp_float64 :: "u64 \<Rightarrow> u64 \<Rightarrow> int" where
  "js_TA_cmp_float64 a b = js_cmp_doubles (f64_double a) (f64_double b)"

text \<open>The user's function, called on two elements; its number is reduced to its sign, and equal
  elements keep their positions. The model is that of the calls that return a number: the
  exception flag stays 0.\<close>

definition js_TA_cmp_generic :: "('a \<Rightarrow> 'a \<Rightarrow> int) \<Rightarrow> 'a list \<Rightarrow> nat \<Rightarrow> nat \<Rightarrow> int" where
  "js_TA_cmp_generic call arr a_idx b_idx =
    (let val = call (arr ! a_idx) (arr ! b_idx);
         cmp = cbool (val > 0) - cbool (val < 0)
     in if cmp = 0 then cbool (a_idx > b_idx) - cbool (a_idx < b_idx) else cmp)"

text \<open>The keys of a property enumeration that are array indices; the index of an atom is the
  argument \<open>idx\<close>.\<close>

definition num_keys_cmp :: "('atom \<Rightarrow> u32) \<Rightarrow> 'atom \<Rightarrow> 'atom \<Rightarrow> int" where
  "num_keys_cmp idx atom1 atom2 =
    (let v1 = idx atom1; v2 = idx atom2 in
     if v1 < v2 then -1 else if v1 = v2 then 0 else 1)"

section \<open>The sort\<close>

datatype typed_array =
    INT8_ARRAY "u8 list" | UINT8C_ARRAY "u8 list" | UINT8_ARRAY "u8 list"
  | INT16_ARRAY "u16 list" | UINT16_ARRAY "u16 list"
  | INT32_ARRAY "u32 list" | UINT32_ARRAY "u32 list"
  | BIG_INT64_ARRAY "u64 list" | BIG_UINT64_ARRAY "u64 list"
  | FLOAT32_ARRAY "u32 list" | FLOAT64_ARRAY "u64 list"

text \<open>The branch of \<^verbatim>\<open>js_typed_array_sort\<close> without a user function, at the comparison function
  that the switch selects.\<close>

definition ta_sort_elems :: "('a \<Rightarrow> 'a \<Rightarrow> int) \<Rightarrow> 'a list \<Rightarrow> 'a list option" where
  "ta_sort_elems cmpfun xs = (if length xs > 1 then rqsort cmpfun xs else Some xs)"

fun js_typed_array_sort :: "typed_array \<Rightarrow> typed_array option" where
  "js_typed_array_sort (INT8_ARRAY xs) = map_option INT8_ARRAY (ta_sort_elems js_TA_cmp_int8 xs)"
| "js_typed_array_sort (UINT8C_ARRAY xs) = map_option UINT8C_ARRAY (ta_sort_elems js_TA_cmp_uint8 xs)"
| "js_typed_array_sort (UINT8_ARRAY xs) = map_option UINT8_ARRAY (ta_sort_elems js_TA_cmp_uint8 xs)"
| "js_typed_array_sort (INT16_ARRAY xs) = map_option INT16_ARRAY (ta_sort_elems js_TA_cmp_int16 xs)"
| "js_typed_array_sort (UINT16_ARRAY xs) = map_option UINT16_ARRAY (ta_sort_elems js_TA_cmp_uint16 xs)"
| "js_typed_array_sort (INT32_ARRAY xs) = map_option INT32_ARRAY (ta_sort_elems js_TA_cmp_int32 xs)"
| "js_typed_array_sort (UINT32_ARRAY xs) = map_option UINT32_ARRAY (ta_sort_elems js_TA_cmp_uint32 xs)"
| "js_typed_array_sort (BIG_INT64_ARRAY xs) = map_option BIG_INT64_ARRAY (ta_sort_elems js_TA_cmp_int64 xs)"
| "js_typed_array_sort (BIG_UINT64_ARRAY xs) = map_option BIG_UINT64_ARRAY (ta_sort_elems js_TA_cmp_uint64 xs)"
| "js_typed_array_sort (FLOAT32_ARRAY xs) = map_option FLOAT32_ARRAY (ta_sort_elems js_TA_cmp_float32 xs)"
| "js_typed_array_sort (FLOAT64_ARRAY xs) = map_option FLOAT64_ARRAY (ta_sort_elems js_TA_cmp_float64 xs)"

text \<open>The branch with a user function: the indices are sorted, and the elements are copied out
  and back through them. \<open>alloc_idx\<close> and \<open>alloc_tmp\<close> say whether the two calls of
  \<^verbatim>\<open>js_malloc\<close>, for \<^verbatim>\<open>array_idx\<close> and for \<^verbatim>\<open>array_tmp\<close>, succeed. The result is what the
  function returns and the elements of the array afterwards; \<open>None\<close> is an access outside
  one of the arrays.\<close>

datatype sort_ret = JS_EXCEPTION | THIS_VAL

fun copy_back :: "nat list \<Rightarrow> 'a list \<Rightarrow> 'a list \<Rightarrow> nat \<Rightarrow> nat \<Rightarrow> 'a list option" where
  "copy_back array_idx array_tmp array_ptr i 0 = Some array_ptr"
| "copy_back array_idx array_tmp array_ptr i (Suc n) = do {
     j \<leftarrow> rd array_idx i;
     x \<leftarrow> rd array_tmp j;
     array_ptr \<leftarrow> wr array_ptr i x;
     copy_back array_idx array_tmp array_ptr (i + 1) n }"

definition js_typed_array_sort_by :: "bool \<Rightarrow> bool \<Rightarrow> ('a \<Rightarrow> 'a \<Rightarrow> int) \<Rightarrow> 'a list \<Rightarrow> (sort_ret \<times> 'a list) option" where
  "js_typed_array_sort_by alloc_idx alloc_tmp call xs =
    (if length xs > 1 then
       if \<not> alloc_idx then Some (JS_EXCEPTION, xs)
       else do {
         array_idx \<leftarrow> rqsort (js_TA_cmp_generic call xs) [0..<length xs];
         if \<not> alloc_tmp then Some (JS_EXCEPTION, xs)
         else do {
           ys \<leftarrow> copy_back array_idx xs xs 0 (length xs);
           Some (THIS_VAL, ys) } }
     else Some (THIS_VAL, xs))"

section \<open>Each comparison function satisfies the contract\<close>

lemma cbool_diff: "cbool (p > q) - cbool (p < q) \<le> 0 \<longleftrightarrow> p \<le> (q :: 'a :: linorder)"
  "cbool (p > q) - cbool (p < q) > 0 \<longleftrightarrow> p > q" "cbool (p > q) - cbool (p < q) < 0 \<longleftrightarrow> p < q"
  by (auto simp: cbool_def)

interpretation cmp_int8: comparator js_TA_cmp_int8
  by unfold_locales (auto simp: js_TA_cmp_int8_def)

interpretation cmp_uint8: comparator js_TA_cmp_uint8
  by unfold_locales (auto simp: js_TA_cmp_uint8_def)

interpretation cmp_int16: comparator js_TA_cmp_int16
  by unfold_locales (auto simp: js_TA_cmp_int16_def)

interpretation cmp_uint16: comparator js_TA_cmp_uint16
  by unfold_locales (auto simp: js_TA_cmp_uint16_def)

interpretation cmp_int32: comparator js_TA_cmp_int32
  by unfold_locales (auto simp: js_TA_cmp_int32_def cbool_diff)

interpretation cmp_uint32: comparator js_TA_cmp_uint32
  by unfold_locales (auto simp: js_TA_cmp_uint32_def cbool_diff)

interpretation cmp_int64: comparator js_TA_cmp_int64
  by unfold_locales (auto simp: js_TA_cmp_int64_def cbool_diff)

interpretation cmp_uint64: comparator js_TA_cmp_uint64
  by unfold_locales (auto simp: js_TA_cmp_uint64_def cbool_diff)

text \<open>The order that \<^verbatim>\<open>js_cmp_doubles\<close> decides: by value, \<open>-0\<close> before \<open>+0\<close>, not-a-number
  last.\<close>

fun dbl_rank :: "cdouble \<Rightarrow> bool \<times> int" where
  "dbl_rank NaN = (True, 0)"
| "dbl_rank (Dbl s m) = (False, if s then - int m - 1 else int m)"

definition rank_le :: "bool \<times> int \<Rightarrow> bool \<times> int \<Rightarrow> bool" where
  "rank_le a b \<longleftrightarrow> \<not> fst a \<and> fst b \<or> fst a = fst b \<and> snd a \<le> snd b"

lemma js_cmp_doubles_rank:
  "js_cmp_doubles x y \<le> 0 \<longleftrightarrow> rank_le (dbl_rank x) (dbl_rank y)"
  "js_cmp_doubles x y < 0 \<longleftrightarrow> \<not> rank_le (dbl_rank y) (dbl_rank x)"
  by (cases x; cases y; auto simp: js_cmp_doubles_def dbl_less_def rank_le_def)+

lemma js_cmp_doubles_comparator: "comparator (\<lambda>a b. js_cmp_doubles (f a) (f b))"
proof unfold_locales
  fix x y z
  show "0 < js_cmp_doubles (f x) (f y) \<longleftrightarrow> js_cmp_doubles (f y) (f x) < 0"
    using js_cmp_doubles_rank(1) [of "f x" "f y"] js_cmp_doubles_rank(2) [of "f y" "f x"] by auto
  show "js_cmp_doubles (f x) (f z) \<le> 0" if "js_cmp_doubles (f x) (f y) \<le> 0" "js_cmp_doubles (f y) (f z) \<le> 0"
    using that unfolding js_cmp_doubles_rank rank_le_def by auto
qed

interpretation cmp_doubles: comparator js_cmp_doubles
  using js_cmp_doubles_comparator [of id] by simp

interpretation cmp_float32: comparator js_TA_cmp_float32
  using js_cmp_doubles_comparator [of f32_double] by (simp add: js_TA_cmp_float32_def [abs_def])

interpretation cmp_float64: comparator js_TA_cmp_float64
  using js_cmp_doubles_comparator [of f64_double] by (simp add: js_TA_cmp_float64_def [abs_def])

interpretation cmp_num_keys: comparator "num_keys_cmp idx" for idx
  by unfold_locales (auto simp: num_keys_cmp_def Let_def split: if_splits)

text \<open>Breaking ties by the position keeps the contract.\<close>

context comparator begin

lemma generic_comparator: "comparator (js_TA_cmp_generic cmp xs)"
proof unfold_locales
  fix i j k
  have sg: "cbool (v > 0) - cbool (v < 0) = sgn v" for v :: int by (auto simp: cbool_def sgn_if)
  have le: "js_TA_cmp_generic cmp xs i j \<le> 0 \<longleftrightarrow>
      cmp (xs ! i) (xs ! j) < 0 \<or> cmp (xs ! i) (xs ! j) = 0 \<and> i \<le> j" for i j
    unfolding js_TA_cmp_generic_def Let_def sg by (auto simp: cbool_diff sgn_if)
  have ls: "js_TA_cmp_generic cmp xs i j < 0 \<longleftrightarrow>
      cmp (xs ! i) (xs ! j) < 0 \<or> cmp (xs ! i) (xs ! j) = 0 \<and> i < j" for i j
    unfolding js_TA_cmp_generic_def Let_def sg by (auto simp: cbool_diff sgn_if)
  show "0 < js_TA_cmp_generic cmp xs i j \<longleftrightarrow> js_TA_cmp_generic cmp xs j i < 0"
    using le [of i j] ls [of j i] cmp_opp [of "xs ! i" "xs ! j"] cmp_opp [of "xs ! j" "xs ! i"] by auto
  show "js_TA_cmp_generic cmp xs i k \<le> 0"
    if "js_TA_cmp_generic cmp xs i j \<le> 0" "js_TA_cmp_generic cmp xs j k \<le> 0"
  proof -
    have a: "cmp (xs ! i) (xs ! j) \<le> 0" "cmp (xs ! j) (xs ! k) \<le> 0" using that unfolding le by auto
    have b: "cmp (xs ! i) (xs ! k) \<le> 0" using cmp_trans [OF a] .
    show ?thesis
    proof (cases "cmp (xs ! i) (xs ! k) = 0")
      case True
      then have ki: "cmp (xs ! k) (xs ! i) \<le> 0" using cmp_zero [of "xs ! i"] by simp
      have "cmp (xs ! j) (xs ! i) \<le> 0" using cmp_trans [OF a(2) ki] .
      then have 1: "cmp (xs ! i) (xs ! j) = 0" using a(1) cmp_le by (simp add: order_antisym)
      have "cmp (xs ! k) (xs ! j) \<le> 0" using cmp_trans [OF ki a(1)] .
      then have 2: "cmp (xs ! j) (xs ! k) = 0" using a(2) cmp_le by (simp add: order_antisym)
      show ?thesis using that True unfolding le 1 2 by auto
    qed (use b le in auto)
  qed
qed

lemma rqsort_sorts:
  "\<exists>a'. rqsort cmp a = Some a' \<and> mset a' = mset a \<and> sorted_wrt (\<lambda>x y. cmp x y \<le> 0) a'"
proof -
  obtain a' where a: "rqsort cmp a = Some a'" "mset a' = mset a" using rqsort_total by blast
  have "sorted_wrt (\<lambda>x y. cmp x y \<le> 0) a'"
    using rqsort_sorted [OF a(1)] by (auto simp: sorted_wrt_iff_nth_less sorted_seg_def)
  with a show ?thesis by blast
qed

lemma ta_sort_elems_sorts:
  "\<exists>a'. ta_sort_elems cmp a = Some a' \<and> mset a' = mset a \<and> sorted_wrt (\<lambda>x y. cmp x y \<le> 0) a'"
  using rqsort_sorts [of a] by (cases a rule: remdups_adj.cases) (auto simp: ta_sort_elems_def)

end

section \<open>Properties\<close>

text \<open>The lists of a typed array, with the comparison its class selects.\<close>

fun ta_elems_rel :: "typed_array \<Rightarrow> typed_array \<Rightarrow> bool" where
  "ta_elems_rel (INT8_ARRAY xs) ta \<longleftrightarrow>
    (\<exists>ys. ta = INT8_ARRAY ys \<and> mset ys = mset xs \<and> sorted (map sint ys))"
| "ta_elems_rel (UINT8C_ARRAY xs) ta \<longleftrightarrow>
    (\<exists>ys. ta = UINT8C_ARRAY ys \<and> mset ys = mset xs \<and> sorted ys)"
| "ta_elems_rel (UINT8_ARRAY xs) ta \<longleftrightarrow>
    (\<exists>ys. ta = UINT8_ARRAY ys \<and> mset ys = mset xs \<and> sorted ys)"
| "ta_elems_rel (INT16_ARRAY xs) ta \<longleftrightarrow>
    (\<exists>ys. ta = INT16_ARRAY ys \<and> mset ys = mset xs \<and> sorted (map sint ys))"
| "ta_elems_rel (UINT16_ARRAY xs) ta \<longleftrightarrow>
    (\<exists>ys. ta = UINT16_ARRAY ys \<and> mset ys = mset xs \<and> sorted ys)"
| "ta_elems_rel (INT32_ARRAY xs) ta \<longleftrightarrow>
    (\<exists>ys. ta = INT32_ARRAY ys \<and> mset ys = mset xs \<and> sorted (map sint ys))"
| "ta_elems_rel (UINT32_ARRAY xs) ta \<longleftrightarrow>
    (\<exists>ys. ta = UINT32_ARRAY ys \<and> mset ys = mset xs \<and> sorted ys)"
| "ta_elems_rel (BIG_INT64_ARRAY xs) ta \<longleftrightarrow>
    (\<exists>ys. ta = BIG_INT64_ARRAY ys \<and> mset ys = mset xs \<and> sorted (map sint ys))"
| "ta_elems_rel (BIG_UINT64_ARRAY xs) ta \<longleftrightarrow>
    (\<exists>ys. ta = BIG_UINT64_ARRAY ys \<and> mset ys = mset xs \<and> sorted ys)"
| "ta_elems_rel (FLOAT32_ARRAY xs) ta \<longleftrightarrow>
    (\<exists>ys. ta = FLOAT32_ARRAY ys \<and> mset ys = mset xs \<and> sorted_wrt rank_le (map (dbl_rank \<circ> f32_double) ys))"
| "ta_elems_rel (FLOAT64_ARRAY xs) ta \<longleftrightarrow>
    (\<exists>ys. ta = FLOAT64_ARRAY ys \<and> mset ys = mset xs \<and> sorted_wrt rank_le (map (dbl_rank \<circ> f64_double) ys))"

lemma cmp_keys:
  "js_TA_cmp_int8 b b' \<le> 0 \<longleftrightarrow> sint b \<le> sint b'" "js_TA_cmp_uint8 b b' \<le> 0 \<longleftrightarrow> b \<le> b'"
  "js_TA_cmp_int16 h h' \<le> 0 \<longleftrightarrow> sint h \<le> sint h'" "js_TA_cmp_uint16 h h' \<le> 0 \<longleftrightarrow> h \<le> h'"
  "js_TA_cmp_int32 x y \<le> 0 \<longleftrightarrow> sint x \<le> sint y" "js_TA_cmp_uint32 x y \<le> 0 \<longleftrightarrow> x \<le> y"
  "js_TA_cmp_int64 l m \<le> 0 \<longleftrightarrow> sint l \<le> sint m" "js_TA_cmp_uint64 l m \<le> 0 \<longleftrightarrow> l \<le> m"
  "js_TA_cmp_float32 x y \<le> 0 \<longleftrightarrow> rank_le (dbl_rank (f32_double x)) (dbl_rank (f32_double y))"
  "js_TA_cmp_float64 l m \<le> 0 \<longleftrightarrow> rank_le (dbl_rank (f64_double l)) (dbl_rank (f64_double m))"
  by (simp_all add: js_TA_cmp_int8_def js_TA_cmp_uint8_def js_TA_cmp_int16_def js_TA_cmp_uint16_def
      js_TA_cmp_int32_def js_TA_cmp_uint32_def js_TA_cmp_int64_def js_TA_cmp_uint64_def cbool_diff
      js_TA_cmp_float32_def js_TA_cmp_float64_def js_cmp_doubles_rank not_less word_le_def word_less_def)

lemmas ta_sorts = cmp_int8.ta_sort_elems_sorts cmp_uint8.ta_sort_elems_sorts
  cmp_int16.ta_sort_elems_sorts cmp_uint16.ta_sort_elems_sorts cmp_int32.ta_sort_elems_sorts
  cmp_uint32.ta_sort_elems_sorts cmp_int64.ta_sort_elems_sorts cmp_uint64.ta_sort_elems_sorts
  cmp_float32.ta_sort_elems_sorts cmp_float64.ta_sort_elems_sorts

text \<open>C4: \<^verbatim>\<open>TypedArray.prototype.sort\<close> without a function succeeds for every
  element type and returns the same elements in the order of their values: signed, unsigned,
  or for the floats by value with -0 before +0 and the not-a-numbers last.\<close>

theorem js_typed_array_sort_ok:
  "\<exists>ta'. js_typed_array_sort ta = Some ta' \<and> ta_elems_rel ta ta'"
proof (cases ta)
  case (INT8_ARRAY xs) then show ?thesis using ta_sorts(1) [of xs]
    by (force simp: cmp_keys sorted_wrt_map) next
  case (UINT8C_ARRAY xs) then show ?thesis using ta_sorts(2) [of xs]
    by (force simp: cmp_keys sorted_wrt_map) next
  case (UINT8_ARRAY xs) then show ?thesis using ta_sorts(2) [of xs]
    by (force simp: cmp_keys sorted_wrt_map) next
  case (INT16_ARRAY xs) then show ?thesis using ta_sorts(3) [of xs]
    by (force simp: cmp_keys sorted_wrt_map) next
  case (UINT16_ARRAY xs) then show ?thesis using ta_sorts(4) [of xs]
    by (force simp: cmp_keys sorted_wrt_map) next
  case (INT32_ARRAY xs) then show ?thesis using ta_sorts(5) [of xs]
    by (force simp: cmp_keys sorted_wrt_map) next
  case (UINT32_ARRAY xs) then show ?thesis using ta_sorts(6) [of xs]
    by (force simp: cmp_keys sorted_wrt_map) next
  case (BIG_INT64_ARRAY xs) then show ?thesis using ta_sorts(7) [of xs]
    by (force simp: cmp_keys sorted_wrt_map) next
  case (BIG_UINT64_ARRAY xs) then show ?thesis using ta_sorts(8) [of xs]
    by (force simp: cmp_keys sorted_wrt_map) next
  case (FLOAT32_ARRAY xs) then show ?thesis using ta_sorts(9) [of xs]
    by (force simp: cmp_keys sorted_wrt_map) next
  case (FLOAT64_ARRAY xs) then show ?thesis using ta_sorts(10) [of xs]
    by (force simp: cmp_keys sorted_wrt_map)
qed

interpretation cmp_diff: comparator "\<lambda>x y. k x - k y" for k :: "'a \<Rightarrow> int"
  by unfold_locales auto

interpretation cmp_generic_diff: comparator "js_TA_cmp_generic (\<lambda>x y. k x - k y) xs"
  for k :: "'a \<Rightarrow> int" and xs
  by (rule cmp_diff.generic_comparator)

lemma generic_diff_le:
  "js_TA_cmp_generic (\<lambda>x y. k x - k y) xs i j \<le> 0 \<longleftrightarrow>
   k (xs ! i) < k (xs ! j) \<or> k (xs ! i) = k (xs ! j) \<and> i \<le> j"
  by (auto simp: js_TA_cmp_generic_def Let_def cbool_def)

lemma copy_back_rest:
  "i + n = length arr \<Longrightarrow> length idx = length arr \<Longrightarrow> set idx \<subseteq> {0..<length tmp} \<Longrightarrow>
   copy_back idx tmp arr i n = Some (take i arr @ map (nth tmp) (drop i idx))"
proof (induction n arbitrary: i arr)
  case (Suc n)
  have i: "i < length arr" "i < length idx" using Suc.prems by auto
  have j: "idx ! i < length tmp" using Suc.prems(3) nth_mem [OF i(2)] by auto
  have "copy_back idx tmp (arr[i := tmp ! (idx ! i)]) (i + 1) n
      = Some (take (i + 1) (arr[i := tmp ! (idx ! i)]) @ map (nth tmp) (drop (i + 1) idx))"
    using Suc.prems by (intro Suc.IH) auto
  moreover have "drop i idx = idx ! i # drop (i + 1) idx" using i by (simp add: Cons_nth_drop_Suc)
  ultimately show ?case using i j by (simp add: take_Suc_conv_app_nth)
qed simp

lemma copy_back_all:
  "length idx = length xs \<Longrightarrow> set idx \<subseteq> {0..<length xs} \<Longrightarrow>
   copy_back idx xs xs 0 (length xs) = Some (map (nth xs) idx)"
  by (simp add: copy_back_rest)

text \<open>C21: \<^verbatim>\<open>TypedArray.prototype.sort\<close> with a function that compares by a key is the
  stable sort by that key, although the underlying \<^verbatim>\<open>rqsort\<close> is not stable. It returns an
  exception exactly when there is something to sort and one of its two allocations fails, and
  then the array is as it was.\<close>

theorem js_typed_array_sort_by_stable:
  fixes k :: "'a \<Rightarrow> int"
  shows "js_typed_array_sort_by alloc_idx alloc_tmp (\<lambda>x y. k x - k y) xs =
    Some (if length xs > 1 \<and> \<not> (alloc_idx \<and> alloc_tmp) then (JS_EXCEPTION, xs)
          else (THIS_VAL, sort_key k xs))"
proof (cases "length xs > 1")
  case True
  obtain idx where r: "rqsort (js_TA_cmp_generic (\<lambda>x y. k x - k y) xs) [0..<length xs] = Some idx"
    and m: "mset idx = mset [0..<length xs]"
    and s: "sorted_wrt (\<lambda>i j. js_TA_cmp_generic (\<lambda>x y. k x - k y) xs i j \<le> 0) idx"
    using cmp_generic_diff.rqsort_sorts by blast
  have d: "distinct idx" and st: "set idx = {0..<length xs}"
    using m by (metis distinct_upt mset_eq_imp_distinct_iff, metis set_mset_mset set_upt)
  have eq: "filter (\<lambda>i. c = k (xs ! i)) idx = filter (\<lambda>i. c = k (xs ! i)) [0..<length xs]" for c
  proof (rule sorted_distinct_set_unique)
    have "sorted_wrt (\<lambda>i j. js_TA_cmp_generic (\<lambda>x y. k x - k y) xs i j \<le> 0) (filter (\<lambda>i. c = k (xs ! i)) idx)"
      by (rule sorted_wrt_filter [OF s])
    then have "sorted_wrt (\<le>) (filter (\<lambda>i. c = k (xs ! i)) idx)"
      by (rule sorted_wrt_mono_rel [rotated]) (auto simp: generic_diff_le)
    then show "sorted (filter (\<lambda>i. c = k (xs ! i)) idx)" by simp
  qed (use d st in \<open>auto simp: sorted_wrt_filter\<close>)
  have "sort_key k xs = map (nth xs) idx"
  proof (rule properties_for_sort_key)
    show "mset (map (nth xs) idx) = mset xs"
      by (metis m map_nth mset_map)
    show "filter (\<lambda>y. k x = k y) (map (nth xs) idx) = filter (\<lambda>y. k x = k y) xs" for x
    proof -
      have "filter (\<lambda>y. k x = k y) (map (nth xs) idx) = map (nth xs) (filter (\<lambda>i. k x = k (xs ! i)) idx)"
        by (simp add: filter_map o_def)
      also have "\<dots> = filter (\<lambda>y. k x = k y) (map (nth xs) [0..<length xs])"
        by (simp add: eq filter_map o_def)
      finally show ?thesis by (simp add: map_nth)
    qed
    show "sorted (map k (map (nth xs) idx))"
      using s by (auto simp: sorted_wrt_map generic_diff_le elim: sorted_wrt_mono_rel [rotated])
  qed
  moreover have "length idx = length xs" using mset_eq_length [OF m] by simp
  ultimately have "copy_back idx xs xs 0 (length xs) = Some (sort_key k xs)"
    using copy_back_all [of idx xs] st by simp
  with True r show ?thesis by (simp add: js_typed_array_sort_by_def)
next
  case False
  then consider "xs = []" | x where "xs = [x]" by (cases xs rule: remdups_adj.cases) auto
  then show ?thesis by cases (simp_all add: js_typed_array_sort_by_def)
qed

end
