(* ===== verification/ListHead.thy ===== *)
theory ListHead
  imports QPrelude
begin

text \<open>
  \<^verbatim>\<open>list.h\<close>: the intrusive circular doubly linked list that the run-time keeps its
  jobs, contexts, garbage-collected objects and timers in. The heap of \<open>struct list_head\<close>
  nodes is explicit: two maps from addresses to the \<open>prev\<close> and \<open>next\<close> fields, \<open>None\<close>
  being the null pointer; dereferencing null makes the operation \<open>None\<close>. The main results say
  that the pointer operations implement the operations on the list of the nodes' addresses.
\<close>

section \<open>The operations\<close>

record list_heap =
  lprev :: "nat \<Rightarrow> nat option"
  lnext :: "nat \<Rightarrow> nat option"

definition set_next :: "nat \<Rightarrow> nat option \<Rightarrow> list_heap \<Rightarrow> list_heap" where
  "set_next a v h = h\<lparr>lnext := (lnext h)(a := v)\<rparr>"

definition set_prev :: "nat \<Rightarrow> nat option \<Rightarrow> list_heap \<Rightarrow> list_heap" where
  "set_prev a v h = h\<lparr>lprev := (lprev h)(a := v)\<rparr>"

definition init_list_head :: "list_heap \<Rightarrow> nat \<Rightarrow> list_heap" where
  "init_list_head h head = set_next head (Some head) (set_prev head (Some head) h)"

definition list_add_between :: "list_heap \<Rightarrow> nat \<Rightarrow> nat \<Rightarrow> nat \<Rightarrow> list_heap" where
  "list_add_between h el prev next =
     (let h1 = set_next prev (Some el) h;
          h2 = set_prev el (Some prev) h1;
          h3 = set_next el (Some next) h2
      in set_prev next (Some el) h3)"

definition list_add :: "list_heap \<Rightarrow> nat \<Rightarrow> nat \<Rightarrow> list_heap option" where
  "list_add h el head = do { n \<leftarrow> lnext h head; Some (list_add_between h el head n) }"

definition list_add_tail :: "list_heap \<Rightarrow> nat \<Rightarrow> nat \<Rightarrow> list_heap option" where
  "list_add_tail h el head = do { p \<leftarrow> lprev h head; Some (list_add_between h el p head) }"

definition list_del :: "list_heap \<Rightarrow> nat \<Rightarrow> list_heap option" where
  "list_del h el = do {
     prev \<leftarrow> lprev h el;
     next \<leftarrow> lnext h el;
     let h1 = set_next prev (Some next) h;
         h2 = set_prev next (Some prev) h1;
         h3 = set_prev el None h2
     in Some (set_next el None h3) }"

definition list_empty :: "list_heap \<Rightarrow> nat \<Rightarrow> bool" where
  "list_empty h el \<longleftrightarrow> lnext h el = Some el"

text \<open>The loops \<open>list_for_each\<close> and \<open>list_for_each_prev\<close>: the addresses they visit, in order.
  The fuel bounds the number of nodes; a corrupted ring may never come back to its head.\<close>

fun list_walk :: "nat \<Rightarrow> (nat \<Rightarrow> nat option) \<Rightarrow> nat option \<Rightarrow> nat \<Rightarrow> nat list option" where
  "list_walk fuel f None head = None"
| "list_walk fuel f (Some el) head =
     (if el = head then Some []
      else case fuel of 0 \<Rightarrow> None
           | Suc fuel' \<Rightarrow> map_option ((#) el) (list_walk fuel' f (f el) head))"

definition list_for_each :: "nat \<Rightarrow> list_heap \<Rightarrow> nat \<Rightarrow> nat list option" where
  "list_for_each fuel h head = list_walk fuel (lnext h) (lnext h head) head"

definition list_for_each_prev :: "nat \<Rightarrow> list_heap \<Rightarrow> nat \<Rightarrow> nat list option" where
  "list_for_each_prev fuel h head = list_walk fuel (lprev h) (lprev h head) head"

section \<open>The list a ring represents\<close>

fun links :: "list_heap \<Rightarrow> nat list \<Rightarrow> bool" where
  "links h (a # b # ws) \<longleftrightarrow> lnext h a = Some b \<and> lprev h b = Some a \<and> links h (b # ws)"
| "links h _ \<longleftrightarrow> True"

definition is_list :: "list_heap \<Rightarrow> nat \<Rightarrow> nat list \<Rightarrow> bool" where
  "is_list h head xs \<longleftrightarrow> distinct (head # xs) \<and> links h (head # xs @ [head])"

lemma field_upd [simp]:
  "lnext (set_next a v h) = (lnext h)(a := v)" "lprev (set_next a v h) = lprev h"
  "lprev (set_prev a v h) = (lprev h)(a := v)" "lnext (set_prev a v h) = lnext h"
  by (simp_all add: set_next_def set_prev_def)

lemma links_append: "links h (us @ a # vs) \<longleftrightarrow> links h (us @ [a]) \<and> links h (a # vs)"
proof (induction us)
  case Nil
  then show ?case by simp
next
  case (Cons u us)
  then show ?case by (cases us) auto
qed

lemma links_cong:
  "(\<And>x. x \<in> set (butlast ws) \<Longrightarrow> lnext h' x = lnext h x) \<Longrightarrow>
   (\<And>x. x \<in> set (tl ws) \<Longrightarrow> lprev h' x = lprev h x) \<Longrightarrow> links h' ws = links h ws"
proof (induction h ws rule: links.induct)
  case (1 h a b ws)
  have "links h' (b # ws) = links h (b # ws)"
    by (rule "1.IH") (use "1.prems" in \<open>cases ws; force\<close>)+
  then show ?case using "1.prems" by simp
qed simp_all

lemma is_list_empty [simp]: "is_list h head [] \<longleftrightarrow> lnext h head = Some head \<and> lprev h head = Some head"
  by (simp add: is_list_def)

text \<open>Every ring splits at a node into the two neighbours of a gap.\<close>

lemma is_list_gap:
  assumes "is_list h head (ys @ zs)" and "us @ [p] = head # ys" and "n # vs = zs @ [head]"
  shows "links h (us @ [p]) \<and> lnext h p = Some n \<and> lprev h n = Some p \<and> links h (n # vs)"
proof -
  have "links h (us @ p # n # vs)"
    using assms by (metis append.assoc append_Cons append_Nil is_list_def)
  then show ?thesis
    using links_append [of h us p "n # vs"] by simp
qed

lemma list_add_between_is_list:
  assumes l: "is_list h head (ys @ zs)" and el: "el \<notin> set (head # ys @ zs)"
    and us: "us @ [p] = head # ys" and vs: "n # vs = zs @ [head]"
  shows "is_list (list_add_between h el p n) head (ys @ el # zs)"
proof -
  let ?h = "list_add_between h el p n"
  have d: "distinct (us @ [p])" "distinct (n # vs)" "el \<notin> set (us @ [p])" "el \<notin> set (n # vs)"
    unfolding us vs using l el by (auto simp: is_list_def)
  have p: "p \<in> set (head # ys)" and n: "n \<in> set (zs @ [head])"
    unfolding us [symmetric] vs [symmetric] by simp_all
  have "butlast (n # vs) = zs" "tl (us @ [p]) = ys"
    unfolding us vs by simp_all
  then have pvs: "p \<notin> set (butlast (n # vs))" and nus: "n \<notin> set (tl (us @ [p]))"
    and elus: "el \<notin> set (tl (us @ [p]))"
    using l p n d(3) us by (auto simp: is_list_def)
  note g = is_list_gap [OF l us vs]
  have "links ?h (us @ [p]) = links h (us @ [p])"
    by (rule links_cong)
      (use d nus elus in \<open>auto simp: list_add_between_def Let_def\<close>)
  moreover have "links ?h (n # vs) = links h (n # vs)"
  proof (rule links_cong)
    show "lnext ?h x = lnext h x" if "x \<in> set (butlast (n # vs))" for x
      using that pvs d(4) in_set_butlastD [OF that] by (auto simp: list_add_between_def Let_def)
    show "lprev ?h x = lprev h x" if "x \<in> set (tl (n # vs))" for x
      using that d by (auto simp: list_add_between_def Let_def)
  qed
  moreover have "lnext ?h p = Some el" "lprev ?h el = Some p" "lnext ?h el = Some n" "lprev ?h n = Some el"
    using d by (auto simp: list_add_between_def Let_def)
  ultimately have "links ?h (us @ p # el # n # vs)"
    using g links_append [of ?h us p "el # n # vs"] by simp
  moreover have "us @ p # el # n # vs = head # (ys @ el # zs) @ [head]"
    using us vs by (metis append.assoc append_Cons append_Nil)
  ultimately show ?thesis
    using l el by (auto simp: is_list_def)
qed

section \<open>Functional correctness\<close>

lemma list_add_is_list:
  assumes l: "is_list h head xs" and el: "el \<notin> set (head # xs)"
  shows "\<exists>h'. list_add h el head = Some h' \<and> is_list h' head (el # xs)"
proof -
  obtain n vs where vs: "n # vs = xs @ [head]" by (cases xs) auto
  have n: "lnext h head = Some n"
    using is_list_gap [of h head "[]" xs "[]" head n vs] l vs by simp
  have "is_list (list_add_between h el head n) head ([] @ el # xs)"
    by (rule list_add_between_is_list [where us = "[]" and vs = vs]) (use l el vs in auto)
  with n show ?thesis by (simp add: list_add_def)
qed

lemma list_add_tail_is_list:
  assumes l: "is_list h head xs" and el: "el \<notin> set (head # xs)"
  shows "\<exists>h'. list_add_tail h el head = Some h' \<and> is_list h' head (xs @ [el])"
proof -
  obtain us p where us: "us @ [p] = head # xs" by (metis list.discI rev_exhaust)
  have p: "lprev h head = Some p"
    using is_list_gap [of h head xs "[]" us p head "[]"] l us by simp
  have "is_list (list_add_between h el p head) head (xs @ el # [])"
    by (rule list_add_between_is_list [where us = us and vs = "[]"]) (use l el us in auto)
  with p show ?thesis by (simp add: list_add_tail_def)
qed

lemma list_del_is_list:
  assumes l: "is_list h head (ys @ el # zs)"
  shows "\<exists>h'. list_del h el = Some h' \<and> is_list h' head (ys @ zs)
           \<and> lprev h' el = None \<and> lnext h' el = None"
proof -
  obtain us p where us: "us @ [p] = head # ys" by (metis list.discI rev_exhaust)
  obtain n vs where vs: "n # vs = zs @ [head]" by (cases zs) auto
  have g1: "links h (us @ [p])" "lnext h p = Some el" "lprev h el = Some p"
    using is_list_gap [OF l us, of el "zs @ [head]"] by auto
  have g2: "lnext h el = Some n" "lprev h n = Some el" "links h (n # vs)"
    using is_list_gap [of h head "ys @ [el]" zs "head # ys" el n vs] l vs by auto
  let ?h = "set_next el None (set_prev el None (set_prev n (Some p) (set_next p (Some n) h)))"
  have h: "list_del h el = Some ?h" using g1 g2 by (simp add: list_del_def Let_def)
  have p: "p \<in> set (head # ys)" and n: "n \<in> set (zs @ [head])"
    unfolding us [symmetric] vs [symmetric] by simp_all
  have d: "distinct (us @ [p])" "distinct (n # vs)" "el \<notin> set (us @ [p])" "el \<notin> set (n # vs)"
    unfolding us vs using l by (auto simp: is_list_def)
  have "butlast (n # vs) = zs" "tl (us @ [p]) = ys" unfolding us vs by simp_all
  then have pvs: "p \<notin> set (butlast (n # vs))" and nus: "n \<notin> set (tl (us @ [p]))"
    and elus: "el \<notin> set (tl (us @ [p]))"
    using l p n d(3) us by (auto simp: is_list_def)
  have "links ?h (us @ [p]) = links h (us @ [p])"
    by (rule links_cong) (use d nus elus in auto)
  moreover have "links ?h (n # vs) = links h (n # vs)"
  proof (rule links_cong)
    show "lnext ?h x = lnext h x" if "x \<in> set (butlast (n # vs))" for x
      using that pvs d(4) in_set_butlastD [OF that] by auto
    show "lprev ?h x = lprev h x" if "x \<in> set (tl (n # vs))" for x
      using that d by auto
  qed
  moreover have "lnext ?h p = Some n" "lprev ?h n = Some p" using d by auto
  ultimately have "links ?h (us @ p # n # vs)"
    using g1 g2 links_append [of ?h us p "n # vs"] by simp
  moreover have "us @ p # n # vs = head # (ys @ zs) @ [head]"
    using us vs by (metis append.assoc append_Cons append_Nil)
  ultimately have "is_list ?h head (ys @ zs)"
    using l by (auto simp: is_list_def)
  with h show ?thesis by simp
qed

lemma list_empty_iff: "is_list h head xs \<Longrightarrow> list_empty h head \<longleftrightarrow> xs = []"
  by (cases xs) (auto simp: list_empty_def is_list_def)

lemma list_walk_links:
  "links h (a # xs @ [head]) \<Longrightarrow> head \<notin> set xs \<Longrightarrow> length xs \<le> fuel \<Longrightarrow>
   list_walk fuel (lnext h) (lnext h a) head = Some xs"
proof (induction xs arbitrary: a fuel)
  case (Cons x xs)
  then show ?case by (cases fuel) auto
qed simp

lemma list_walk_links_prev:
  "links h ([head] @ xs @ [b]) \<Longrightarrow> head \<notin> set xs \<Longrightarrow> length xs \<le> fuel \<Longrightarrow>
   list_walk fuel (lprev h) (lprev h b) head = Some (rev xs)"
proof (induction xs arbitrary: b fuel rule: rev_induct)
  case (snoc x xs)
  have "links h (([head] @ xs) @ x # [b])" using snoc.prems(1) by simp
  then have "links h ([head] @ xs @ [x])" "lprev h b = Some x"
    using links_append [of h "[head] @ xs" x "[b]"] by simp_all
  then show ?case using snoc.IH [of x "fuel - 1"] snoc.prems by (cases fuel) auto
qed simp

lemma list_for_each_is_list:
  "is_list h head xs \<Longrightarrow> length xs \<le> fuel \<Longrightarrow>
   list_for_each fuel h head = Some xs \<and> list_for_each_prev fuel h head = Some (rev xs)"
  using list_walk_links [of h head xs head fuel] list_walk_links_prev [of h head xs head fuel]
  by (auto simp: is_list_def list_for_each_def list_for_each_prev_def)

lemma init_list_head_is_list: "is_list (init_list_head h head) head []"
  by (simp add: init_list_head_def)

text \<open>A list whose nodes an operation does not touch is unchanged.\<close>

lemma is_list_frame:
  assumes "is_list h head xs"
    and "\<And>a. a \<in> set (head # xs) \<Longrightarrow> lnext h' a = lnext h a \<and> lprev h' a = lprev h a"
  shows "is_list h' head xs"
proof -
  have "links h' (head # xs @ [head]) = links h (head # xs @ [head])"
    by (rule links_cong) (use assms(2) in \<open>auto dest: in_set_butlastD\<close>)
  with assms(1) show ?thesis by (simp add: is_list_def)
qed

section \<open>Any sequence of operations\<close>

text \<open>The operations of a client on one ring, and what each promises about the list of the
  nodes. A client adds only nodes that are in no ring and deletes only members.\<close>

datatype list_cmd = Add nat | AddTail nat | Del nat

fun list_step :: "nat \<Rightarrow> list_heap \<Rightarrow> list_cmd \<Rightarrow> list_heap option" where
  "list_step head h (Add el) = list_add h el head"
| "list_step head h (AddTail el) = list_add_tail h el head"
| "list_step head h (Del el) = list_del h el"

fun list_steps :: "nat \<Rightarrow> list_heap \<Rightarrow> list_cmd list \<Rightarrow> list_heap option" where
  "list_steps head h [] = Some h"
| "list_steps head h (c # cs) = do { h' \<leftarrow> list_step head h c; list_steps head h' cs }"

fun abs_step :: "nat \<Rightarrow> nat list \<Rightarrow> list_cmd \<Rightarrow> nat list option" where
  "abs_step head xs (Add el) = (if el \<in> set (head # xs) then None else Some (el # xs))"
| "abs_step head xs (AddTail el) = (if el \<in> set (head # xs) then None else Some (xs @ [el]))"
| "abs_step head xs (Del el) = (if el \<in> set xs then Some (remove1 el xs) else None)"

fun abs_steps :: "nat \<Rightarrow> nat list \<Rightarrow> list_cmd list \<Rightarrow> nat list option" where
  "abs_steps head xs [] = Some xs"
| "abs_steps head xs (c # cs) = do { xs' \<leftarrow> abs_step head xs c; abs_steps head xs' cs }"

lemma list_step_refines:
  assumes l: "is_list h head xs" and s: "abs_step head xs c = Some xs'"
  shows "\<exists>h'. list_step head h c = Some h' \<and> is_list h' head xs'"
proof (cases c)
  case (Add el)
  then show ?thesis using s list_add_is_list [OF l, of el] by (auto split: if_splits)
next
  case (AddTail el)
  then show ?thesis using s list_add_tail_is_list [OF l, of el] by (auto split: if_splits)
next
  case (Del el)
  then have el: "el \<in> set xs" and xs': "xs' = remove1 el xs" using s by (auto split: if_splits)
  from el obtain ys zs where xs: "xs = ys @ el # zs" "el \<notin> set ys" by (meson split_list_first)
  with xs' have "xs' = ys @ zs" by (simp add: remove1_append)
  then show ?thesis using list_del_is_list [of h head ys el zs] l Del xs by auto
qed

lemma list_steps_refine:
  "is_list h head xs \<Longrightarrow> abs_steps head xs cs = Some xs' \<Longrightarrow>
   \<exists>h'. list_steps head h cs = Some h' \<and> is_list h' head xs'"
proof (induction cs arbitrary: h xs)
  case (Cons c cs)
  then obtain xs1 where "abs_step head xs c = Some xs1" "abs_steps head xs1 cs = Some xs'"
    by (auto split: bind_splits)
  then show ?case using list_step_refines [OF Cons.prems(1)] Cons.IH by fastforce
qed simp

section \<open>Properties\<close>

text \<open>C22: the pointer operations of \<^verbatim>\<open>list.h\<close> refine the operations on lists: from a
  fresh head, any sequence of \<^verbatim>\<open>list_add\<close>, \<^verbatim>\<open>list_add_tail\<close> and \<^verbatim>\<open>list_del\<close> that
  adds only new nodes and deletes only members never dereferences null and leaves a ring whose
  nodes are those of the abstract list; both traversals visit exactly them, in order and in
  reverse, and \<^verbatim>\<open>list_empty\<close> tells whether there are any.\<close>

theorem list_ops_refine:
  assumes "abs_steps head [] cs = Some xs"
  shows "\<exists>h'. list_steps head (init_list_head h head) cs = Some h' \<and>
     list_for_each (length xs) h' head = Some xs \<and>
     list_for_each_prev (length xs) h' head = Some (rev xs) \<and>
     (list_empty h' head \<longleftrightarrow> xs = [])"
  using list_steps_refine [OF init_list_head_is_list assms] list_for_each_is_list list_empty_iff
  by blast

theorem list_ops_refine_witness:
  "\<exists>h'. list_steps 0 (init_list_head \<lparr>lprev = \<lambda>_. None, lnext = \<lambda>_. None\<rparr> 0)
       [AddTail 1, Add 2, AddTail 3, Del 1] = Some h' \<and>
     list_for_each (length [2, 3 :: nat]) h' 0 = Some [2, 3] \<and>
     list_for_each_prev (length [2, 3 :: nat]) h' 0 = Some (rev [2, 3]) \<and>
     (list_empty h' 0 \<longleftrightarrow> [2, 3 :: nat] = [])"
  by (rule list_ops_refine) simp

end
