(* ===== verification/Normalize.thy ===== *)
theory Normalize
  imports CaseConv
begin

text \<open>
  Unicode normalisation (\<^verbatim>\<open>unicode_normalize\<close> of \<^verbatim>\<open>libunicode.c\<close>): combining classes,
  decomposition entries, canonical ordering, composition and the Hangul arithmetic. The
  decomposition tables are an argument; the tables of the combining classes are the real ones.
  A read outside a table is \<open>None\<close>. Code points are 32-bit words; the buffer of the result
  is the list of its code points, for the runs in which the allocation succeeds.
\<close>

section \<open>Combining classes\<close>

text \<open>One entry: its type, the length \<open>n\<close>, and the position behind it. The last byte read is
  \<open>p[-1]\<close>.\<close>

definition cc_entry :: "u8 list \<Rightarrow> nat \<Rightarrow> (u32 \<times> u32 \<times> nat) option" where
  "cc_entry t p = do {
     b8 \<leftarrow> rd t p;
     let b = (ucast b8 :: u32);
     let type = drop_bit 6 b;
     let n = b AND 0x3f;
     (n, p) \<leftarrow>
       (if n < 48 then Some (n, p + 1)
        else if n < 56 then do {
          p0 \<leftarrow> rd t (p + 1); Some ((push_bit 8 (n - 48) OR ucast p0) + 48, p + 2) }
        else do {
          p0 \<leftarrow> rd t (p + 1); p1 \<leftarrow> rd t (p + 2);
          Some ((push_bit 8 (n - 56) OR push_bit 8 (ucast p0) OR ucast p1) + (48 + push_bit 11 1), p + 3) });
     Some (type, n, if type \<le> 1 then p + 1 else p) }"

lemma cc_entry_pos: "cc_entry t p = Some (type, n, p') \<Longrightarrow> p < p' \<and> p < length t"
  by (auto simp: cc_entry_def Let_def rd_def split: if_splits bind_splits)

function get_cc_loop :: "u8 list \<Rightarrow> nat \<Rightarrow> u32 \<Rightarrow> u32 \<Rightarrow> u32 option" where
  "get_cc_loop t p code c =
     (case cc_entry t p of
        None \<Rightarrow> None
      | Some (type, n, p') \<Rightarrow>
          let c1 = code + n + 1 in
          if c < c1 then
            (if type = 0 then map_option ucast (rd t (p' - 1))
             else if type = 1 then map_option (\<lambda>b. ucast b + c - code) (rd t (p' - 1))
             else if type = 2 then Some 0
             else Some 230)
          else get_cc_loop t p' c1 c)"
  by pat_completeness auto
termination by (relation "measure (\<lambda>(t, p, code, c). length t - p)") (auto dest!: cc_entry_pos)

declare get_cc_loop.simps [simp del]

definition unicode_get_cc :: "u32 \<Rightarrow> u32 option" where
  "unicode_get_cc c = do {
     r \<leftarrow> get_index_pos c unicode_cc_index (length unicode_cc_index div 3);
     case r of
       None \<Rightarrow> Some 0
     | Some (pos, code) \<Rightarrow> get_cc_loop unicode_cc_table pos code c }"

section \<open>Canonical ordering\<close>

text \<open>\<open>sort_cc\<close> for a given combining class: \<open>shift_back\<close> is the innermost loop (its
  \<open>h\<close> is \<open>k + 1\<close>, the hole), \<open>sort_run\<close> the loop on \<open>j\<close>.\<close>

fun shift_back :: "(u32 \<Rightarrow> u32) \<Rightarrow> u32 list \<Rightarrow> nat \<Rightarrow> nat \<Rightarrow> u32 \<Rightarrow> u32 list \<times> nat" where
  "shift_back cc buf 0 start cc1 = (buf, 0)"
| "shift_back cc buf (Suc k) start cc1 =
     (if start \<le> k then
        if cc (buf ! k) \<le> cc1 then (buf, Suc k)
        else shift_back cc (buf[k + 1 := buf ! k]) k start cc1
      else (buf, Suc k))"

function sort_run :: "(u32 \<Rightarrow> u32) \<Rightarrow> u32 list \<Rightarrow> nat \<Rightarrow> nat \<Rightarrow> nat \<Rightarrow> u32 list \<times> nat" where
  "sort_run cc buf start j len =
     (if j < len then
        let ch1 = buf ! j; cc1 = cc ch1 in
        if cc1 = 0 then (buf, j)
        else let (buf', h) = shift_back cc buf j start cc1
             in sort_run cc (buf'[h := ch1]) start (j + 1) len
      else (buf, j))"
  by pat_completeness auto
termination by (relation "measure (\<lambda>(cc, buf, start, j, len). len - j)") auto

declare sort_run.simps [simp del]

lemma sort_run_ge: "j \<le> snd (sort_run cc buf start j len)"
proof (induction cc buf start j len rule: sort_run.induct)
  case (1 cc buf start j len)
  obtain buf' h where s: "shift_back cc buf j start (cc (buf ! j)) = (buf', h)" by (metis surj_pair)
  show ?case
  proof (cases "j < len \<and> cc (buf ! j) \<noteq> 0")
    case True
    then have "j + 1 \<le> snd (sort_run cc (buf'[h := buf ! j]) start (j + 1) len)"
      using "1.IH" [OF _ refl refl _ s [symmetric] refl] by simp
    then show ?thesis using True s by (simp add: sort_run.simps [of cc buf start j len] Let_def)
  qed (auto simp: sort_run.simps [of cc buf start j len] Let_def)
qed

function sort_cc_loop :: "(u32 \<Rightarrow> u32) \<Rightarrow> u32 list \<Rightarrow> nat \<Rightarrow> nat \<Rightarrow> u32 list" where
  "sort_cc_loop cc buf i len =
     (if i < len then
        if cc (buf ! i) \<noteq> 0 then
          let (buf', j) = sort_run cc buf i (i + 1) len in sort_cc_loop cc buf' (j + 1) len
        else sort_cc_loop cc buf (i + 1) len
      else buf)"
  by pat_completeness auto
termination
proof (relation "measure (\<lambda>(cc, buf, i, len). len - i)", goal_cases)
  case (2 cc buf i len x buf' j)
  then show ?case using sort_run_ge [of "i + 1" cc buf i len] by (simp add: prod_eq_iff)
qed auto

declare sort_cc_loop.simps [simp del]

definition sort_cc :: "(u32 \<Rightarrow> u32) \<Rightarrow> u32 list \<Rightarrow> u32 list" where
  "sort_cc cc buf = sort_cc_loop cc buf 0 (length buf)"

section \<open>Decomposition\<close>

record decomp_tables =
  decomp_table1 :: "u32 list"
  decomp_table2 :: "u16 list"
  decomp_data :: "u8 list"
  comp_table :: "u16 list"

abbreviation (input) DECOMP_TYPE_C1 :: nat where "DECOMP_TYPE_C1 \<equiv> 0"
abbreviation (input) DECOMP_TYPE_L1 :: nat where "DECOMP_TYPE_L1 \<equiv> 1"
abbreviation (input) DECOMP_TYPE_L7 :: nat where "DECOMP_TYPE_L7 \<equiv> 7"
abbreviation (input) DECOMP_TYPE_LL1 :: nat where "DECOMP_TYPE_LL1 \<equiv> 8"
abbreviation (input) DECOMP_TYPE_LL2 :: nat where "DECOMP_TYPE_LL2 \<equiv> 9"
abbreviation (input) DECOMP_TYPE_S1 :: nat where "DECOMP_TYPE_S1 \<equiv> 10"
abbreviation (input) DECOMP_TYPE_S5 :: nat where "DECOMP_TYPE_S5 \<equiv> 14"
abbreviation (input) DECOMP_TYPE_I1 :: nat where "DECOMP_TYPE_I1 \<equiv> 15"
abbreviation (input) DECOMP_TYPE_I2_0 :: nat where "DECOMP_TYPE_I2_0 \<equiv> 16"
abbreviation (input) DECOMP_TYPE_I4_2 :: nat where "DECOMP_TYPE_I4_2 \<equiv> 21"
abbreviation (input) DECOMP_TYPE_B1 :: nat where "DECOMP_TYPE_B1 \<equiv> 22"
abbreviation (input) DECOMP_TYPE_B8 :: nat where "DECOMP_TYPE_B8 \<equiv> 29"
abbreviation (input) DECOMP_TYPE_B18 :: nat where "DECOMP_TYPE_B18 \<equiv> 30"
abbreviation (input) DECOMP_TYPE_LS2 :: nat where "DECOMP_TYPE_LS2 \<equiv> 31"
abbreviation (input) DECOMP_TYPE_PAT3 :: nat where "DECOMP_TYPE_PAT3 \<equiv> 32"
abbreviation (input) DECOMP_TYPE_S2_UL :: nat where "DECOMP_TYPE_S2_UL \<equiv> 33"
abbreviation (input) DECOMP_TYPE_LS2_UL :: nat where "DECOMP_TYPE_LS2_UL \<equiv> 34"

definition unicode_short_table :: "u32 list" where
  "unicode_short_table = [0x2044, 0x2215]"

definition unicode_get_short_code :: "u32 \<Rightarrow> u32 option" where
  "unicode_get_short_code c =
     (if c < 0x80 then Some c
      else if c < 0x80 + 0x50 then Some (c - 0x80 + 0x300)
      else rd unicode_short_table (unat (c - 0x80 - 0x50)))"

definition unicode_get_lower_simple :: "u32 \<Rightarrow> u32" where
  "unicode_get_lower_simple c =
     (if c < 0x100 \<or> c \<ge> 0x410 \<and> c \<le> 0x42f then c + 0x20 else c + 1)"

definition unicode_get16 :: "u8 list \<Rightarrow> nat \<Rightarrow> u32 option" where
  "unicode_get16 d p = do {
     b0 \<leftarrow> rd d p; b1 \<leftarrow> rd d (p + 1); Some (ucast b0 OR push_bit 8 (ucast b1)) }"

text \<open>\<open>get_upto_zero\<close> is the loop of the types whose entries may be empty: it returns 0 at the
  first zero. \<open>get_all\<close> is the plain loop. Both return the result with \<open>res\<close> as written.\<close>

function get_upto_zero :: "(nat \<Rightarrow> u32 option) \<Rightarrow> nat \<Rightarrow> nat \<Rightarrow> u32 list \<Rightarrow> (nat \<times> u32 list) option" where
  "get_upto_zero f i l res =
     (if i < l then
        (case f i of
           None \<Rightarrow> None
         | Some v \<Rightarrow> if v = 0 then Some (0, res @ [v]) else get_upto_zero f (i + 1) l (res @ [v]))
      else Some (l, res))"
  by pat_completeness auto
termination by (relation "measure (\<lambda>(f, i, l, res). l - i)") auto

declare get_upto_zero.simps [simp del]

fun get_all :: "(nat \<Rightarrow> u32 option) \<Rightarrow> nat \<Rightarrow> (nat \<times> u32 list) option" where
  "get_all f 0 = Some (0, [])"
| "get_all f (Suc l) = do { (n, res) \<leftarrow> get_all f l; v \<leftarrow> f l; Some (n + 1, res @ [v]) }"

text \<open>The first character of a pair of an upper and a lower case letter, and where the second
  character is.\<close>

definition decomp_ul :: "u8 list \<Rightarrow> nat \<Rightarrow> nat \<Rightarrow> nat \<Rightarrow> (u32 \<times> nat) option" where
  "decomp_ul D d k type =
     (if type = DECOMP_TYPE_S2_UL then do {
        b \<leftarrow> rd D (d + k div 2 * 2); c0 \<leftarrow> unicode_get_short_code (ucast b);
        Some (c0, d + k div 2 * 2 + 1) }
      else do {
        c0 \<leftarrow> unicode_get16 D (d + k div 2 * 3); Some (c0, d + k div 2 * 3 + 2) })"

definition unicode_decomp_entry ::
    "decomp_tables \<Rightarrow> u32 \<Rightarrow> nat \<Rightarrow> u32 \<Rightarrow> u32 \<Rightarrow> nat \<Rightarrow> (nat \<times> u32 list) option" where
  "unicode_decomp_entry T c idx code len type = do {
     e \<leftarrow> rd (decomp_table2 T) idx;
     let D = decomp_data T;
     let d = unat e;
     let k = unat (c - code);
     if type = DECOMP_TYPE_C1 then Some (1, [ucast e])
     else if DECOMP_TYPE_L1 \<le> type \<and> type \<le> DECOMP_TYPE_L7 then
       let l = type - DECOMP_TYPE_L1 + 1 in
       get_upto_zero (\<lambda>i. unicode_get16 D (d + k * l * 2 + 2 * i)) 0 l []
     else if DECOMP_TYPE_LL1 \<le> type \<and> type \<le> DECOMP_TYPE_LL2 then
       let l = type - DECOMP_TYPE_LL1 + 1; p = unat len * l * 2 in
       get_upto_zero (\<lambda>i. let k = k * l + i in do {
           lo \<leftarrow> unicode_get16 D (d + 2 * k);
           hi \<leftarrow> rd D (d + p + k div 4);
           Some (lo OR push_bit 16 (drop_bit ((k mod 4) * 2) (ucast hi) AND 3)) }) 0 l []
     else if DECOMP_TYPE_S1 \<le> type \<and> type \<le> DECOMP_TYPE_S5 then
       let l = type - DECOMP_TYPE_S1 + 1 in
       get_upto_zero (\<lambda>i. do { b \<leftarrow> rd D (d + k * l + i); unicode_get_short_code (ucast b) }) 0 l []
     else if DECOMP_TYPE_I1 \<le> type \<and> type \<le> DECOMP_TYPE_I4_2 then
       let l = (if type = DECOMP_TYPE_I1 then 1 else 2 + (type - DECOMP_TYPE_I2_0) div 2);
           p = (if type = DECOMP_TYPE_I1 then 0
                else (type - DECOMP_TYPE_I2_0) mod 2 + (if l > 2 then 1 else 0)) in
       get_all (\<lambda>i. do { c1 \<leftarrow> unicode_get16 D (d + 2 * i); Some (if i = p then c1 + (c - code) else c1) }) l
     else if DECOMP_TYPE_B1 \<le> type \<and> type \<le> DECOMP_TYPE_B18 then
       let l = (if type = DECOMP_TYPE_B18 then 18 else type - DECOMP_TYPE_B1 + 1) in do {
         c_min \<leftarrow> unicode_get16 D d;
         get_all (\<lambda>i. do {
           b \<leftarrow> rd D (d + 2 + k * l + i);
           Some (if b = 0xff then 0x20 else ucast b + c_min) }) l }
     else if type = DECOMP_TYPE_LS2 then do {
       c0 \<leftarrow> unicode_get16 D (d + k * 3);
       if c0 = 0 then Some (0, [c0])
       else do {
         b \<leftarrow> rd D (d + k * 3 + 2); c1 \<leftarrow> unicode_get_short_code (ucast b); Some (2, [c0, c1]) } }
     else if type = DECOMP_TYPE_PAT3 then do {
       c0 \<leftarrow> unicode_get16 D d;
       c2 \<leftarrow> unicode_get16 D (d + 2);
       c1 \<leftarrow> unicode_get16 D (d + 4 + k * 2);
       Some (3, [c0, c1, c2]) }
     else if type = DECOMP_TYPE_S2_UL \<or> type = DECOMP_TYPE_LS2_UL then do {
       (c0, d1) \<leftarrow> decomp_ul D d k type;
       b \<leftarrow> rd D d1;
       c1 \<leftarrow> unicode_get_short_code (ucast b);
       Some (2, [if odd k then unicode_get_lower_simple c0 else c0, c1]) }
     else Some (0, []) }"

definition unicode_decomp_char :: "decomp_tables \<Rightarrow> u32 \<Rightarrow> bool \<Rightarrow> u32 list option" where
  "unicode_decomp_char T c is_compat1 = do {
     r \<leftarrow> run_find 18 (decomp_table1 T) c;
     case r of
       None \<Rightarrow> Some []
     | Some idx \<Rightarrow> do {
         v \<leftarrow> rd (decomp_table1 T) idx;
         if \<not> is_compat1 \<and> v AND 1 \<noteq> 0 then Some []
         else do {
           (l, res) \<leftarrow> unicode_decomp_entry T c idx (run_code 18 v) (run_len 18 v)
                        (unat (drop_bit 1 v AND 0x3f));
           Some (take l res) } } }"

text \<open>The binary search of \<open>unicode_compose_pair\<close>; 0 is "no pair found".\<close>

function compose_search :: "decomp_tables \<Rightarrow> u32 \<Rightarrow> u32 \<Rightarrow> int \<Rightarrow> int \<Rightarrow> u32 option" where
  "compose_search T c0 c1 idx_min idx_max =
     (if idx_min \<le> idx_max then
        let idx = (idx_max + idx_min) div 2 in
        case do {
            idx1 \<leftarrow> rd (comp_table T) (nat idx);
            let d_idx = unat (drop_bit 6 idx1);
            let d_offset = (ucast (idx1 AND 0x3f) :: u32);
            v \<leftarrow> rd (decomp_table1 T) d_idx;
            let ch = run_code 18 v + d_offset;
            (l, pair) \<leftarrow> unicode_decomp_entry T ch d_idx (run_code 18 v) (run_len 18 v)
                           (unat (drop_bit 1 v AND 0x3f));
            p0 \<leftarrow> rd pair 0;
            p1 \<leftarrow> rd pair 1;
            Some (ch, p0, p1) } of
          None \<Rightarrow> None
        | Some (ch, p0, p1) \<Rightarrow>
            let d = (if c0 - p0 = 0 then sint (c1 - p1) else sint (c0 - p0)) in
            if d < 0 then compose_search T c0 c1 idx_min (idx - 1)
            else if d > 0 then compose_search T c0 c1 (idx + 1) idx_max
            else Some ch
      else Some 0)"
  by pat_completeness auto
termination by (relation "measure (\<lambda>(T, c0, c1, lo, hi). nat (hi + 1 - lo))") auto

declare compose_search.simps [simp del]

definition unicode_compose_pair :: "decomp_tables \<Rightarrow> u32 \<Rightarrow> u32 \<Rightarrow> u32 option" where
  "unicode_compose_pair T c0 c1 = compose_search T c0 c1 0 (int (length (comp_table T)) - 1)"

text \<open>The Hangul decomposition, and the recursive decomposition of a string. Nothing in the code
  bounds the recursion: it ends when the tables decompose into smaller pieces.\<close>

definition is_hangul :: "u32 \<Rightarrow> bool" where
  "is_hangul c \<longleftrightarrow> c \<ge> 0xac00 \<and> c < 0xd7a4"

definition hangul_decomp :: "u32 \<Rightarrow> u32 list" where
  "hangul_decomp c0 =
     (let c = c0 - 0xac00; v = c mod 28 in
      [0x1100 + c div 588, 0x1161 + (c mod 588) div 28] @ (if v \<noteq> 0 then [0x11a7 + v] else []))"

partial_function (option) to_nfd_rec :: "(u32 \<Rightarrow> u32 list option) \<Rightarrow> u32 list \<Rightarrow> u32 list option" where
  "to_nfd_rec D src =
     (case src of
        [] \<Rightarrow> Some []
      | c # cs \<Rightarrow>
          Option.bind (if is_hangul c then Some (hangul_decomp c)
            else Option.bind (D c) (\<lambda>res. if res = [] then Some [c] else to_nfd_rec D res))
           (\<lambda>xs. Option.bind (to_nfd_rec D cs) (\<lambda>ys. Some (xs @ ys))))"

declare to_nfd_rec.simps [code]

section \<open>Composition\<close>

definition compose_pair :: "decomp_tables \<Rightarrow> u32 \<Rightarrow> u32 \<Rightarrow> u32 option" where
  "compose_pair T c0 c1 =
     (if c0 \<ge> 0x1100 \<and> c0 < 0x1100 + 19 \<and> c1 \<ge> 0x1161 \<and> c1 < 0x1161 + 21
      then Some (0xac00 + (c0 - 0x1100) * 588 + (c1 - 0x1161) * 28)
      else if c0 \<ge> 0xac00 \<and> c0 < 0xac00 + 11172 \<and> (c0 - 0xac00) mod 28 = 0
              \<and> c1 \<ge> 0x11a7 \<and> c1 < 0x11a7 + 28
      then Some (c0 + c1 - 0x11a7)
      else unicode_compose_pair T c0 c1)"

text \<open>The search for the starter before position \<open>n\<close> of the output: \<open>None\<close> when it is blocked
  or when there is none.\<close>

fun find_starter :: "(u32 \<Rightarrow> u32) \<Rightarrow> u32 list \<Rightarrow> u32 \<Rightarrow> nat \<Rightarrow> nat option" where
  "find_starter cc buf last_cc 0 = None"
| "find_starter cc buf last_cc (Suc pos) =
     (let c = cc (buf ! pos) in
      if c = 0 then Some pos
      else if c \<ge> last_cc then None
      else find_starter cc buf 256 pos)"

function compose_loop :: "(u32 \<Rightarrow> u32) \<Rightarrow> (u32 \<Rightarrow> u32 \<Rightarrow> u32 option) \<Rightarrow> u32 list \<Rightarrow> nat \<Rightarrow> nat \<Rightarrow> nat
    \<Rightarrow> (u32 list \<times> nat) option" where
  "compose_loop cc cp buf i out_len buf_len =
     (if i < buf_len then
        (case (case find_starter cc buf (cc (buf ! i)) out_len of
                 None \<Rightarrow> Some None
               | Some s \<Rightarrow> (case cp (buf ! s) (buf ! i) of
                   None \<Rightarrow> None
                 | Some p \<Rightarrow> Some (if p \<noteq> 0 then Some (s, p) else None))) of
           None \<Rightarrow> None
         | Some (Some (s, p)) \<Rightarrow> compose_loop cc cp (buf[s := p]) (i + 1) out_len buf_len
         | Some None \<Rightarrow> compose_loop cc cp (buf[out_len := buf ! i]) (i + 1) (out_len + 1) buf_len)
      else Some (buf, out_len))"
  by pat_completeness auto
termination by (relation "measure (\<lambda>(cc, cp, buf, i, out_len, buf_len). buf_len - i)") auto

declare compose_loop.simps [simp del]

datatype UnicodeNormalization = UNICODE_NFC | UNICODE_NFD | UNICODE_NFKC | UNICODE_NFKD

fun is_compat :: "UnicodeNormalization \<Rightarrow> bool" where
  "is_compat UNICODE_NFC = False" | "is_compat UNICODE_NFD = False"
| "is_compat UNICODE_NFKC = True" | "is_compat UNICODE_NFKD = True"

fun is_decomp_only :: "UnicodeNormalization \<Rightarrow> bool" where
  "is_decomp_only UNICODE_NFC = False" | "is_decomp_only UNICODE_NFD = True"
| "is_decomp_only UNICODE_NFKC = False" | "is_decomp_only UNICODE_NFKD = True"

text \<open>The class as a function: \<open>unicode_get_cc\<close> is total on the real tables (below).\<close>

definition cc_of :: "u32 \<Rightarrow> u32" where
  "cc_of c = the (unicode_get_cc c)"

definition unicode_normalize :: "decomp_tables \<Rightarrow> u32 list \<Rightarrow> UnicodeNormalization \<Rightarrow> u32 list option" where
  "unicode_normalize T src n_type =
     (if n_type = UNICODE_NFC \<and> (\<forall>c \<in> set src. c < 0x100) then Some src
      else do {
        buf \<leftarrow> to_nfd_rec (\<lambda>c. unicode_decomp_char T c (is_compat n_type)) src;
        let buf = sort_cc cc_of buf;
        if length buf \<le> 1 \<or> is_decomp_only n_type then Some buf
        else do {
          (buf, out_len) \<leftarrow> compose_loop cc_of (compose_pair T) buf 1 1 (length buf);
          Some (take out_len buf) } })"

section \<open>The combining class is total\<close>

definition cc_entry_int :: "int list \<Rightarrow> (int \<times> int \<times> int \<times> int \<times> int list) option" where
  "cc_entry_int bs = (case bs of
     [] \<Rightarrow> None
   | b # bs1 \<Rightarrow>
     let type = b div 64; n = b mod 64 in
     (case (if n < 48 then Some (n, 1, bs1)
            else if n < 56 then (case bs1 of [] \<Rightarrow> None
              | p0 # bs2 \<Rightarrow> Some ((n - 48) * 256 + p0 + 48, 2, bs2))
            else if n = 56 then (case bs1 of p0 # p1 # bs3 \<Rightarrow> Some (p0 * 256 + p1 + 2096, 3, bs3)
              | _ \<Rightarrow> None)
            else None) of
        None \<Rightarrow> None
      | Some (n, k, bs') \<Rightarrow>
          if type \<le> 1 then (case bs' of [] \<Rightarrow> None | x # bs'' \<Rightarrow> Some (type, n, k + 1, x, bs''))
          else Some (type, n, k, 0, bs')))"

lemma cc_entry_int_shorter: "cc_entry_int bs = Some (ty, n, k, x, bs') \<Longrightarrow> length bs' < length bs"
  by (auto simp: cc_entry_int_def Let_def split: list.splits if_splits option.splits)

function check_cc :: "int list \<Rightarrow> int \<Rightarrow> int \<Rightarrow> (int \<times> int) list \<Rightarrow> int \<Rightarrow> bool" where
  "check_cc bs p code es fin =
     (case cc_entry_int bs of
        None \<Rightarrow> bs = [] \<and> code = fin \<and> drop_met es p code False = []
      | Some (ty, n, k, x, bs') \<Rightarrow>
          (ty = 1 \<longrightarrow> x + n < 256) \<and> check_cc bs' (p + k) (code + n + 1) (drop_met es p code False) fin)"
  by pat_completeness auto
termination by (relation "measure (\<lambda>(bs, p, code, es, fin). length bs)")
  (auto dest!: cc_entry_int_shorter)

declare check_cc.simps [simp del]

definition check_cc_table :: "u8 list \<Rightarrow> u8 list \<Rightarrow> int \<Rightarrow> bool" where
  "check_cc_table t idx fin \<longleftrightarrow> index_ok idx fin \<and>
     check_cc (map uint t) 0 0 (butlast (index_int (map uint idx) 0)) fin"

lemma unicode_cc_checked: "check_cc_table unicode_cc_table unicode_cc_index 125259"
  by code_simp

lemma cc_len_two: "48 \<le> uint n \<Longrightarrow> uint n < 64 \<Longrightarrow>
  uint ((push_bit 8 ((n :: u32) - 48) OR ucast (p0 :: u8)) + 48) = (uint n - 48) * 256 + uint p0 + 48"
proof -
  assume a: "48 \<le> uint n" "uint n < 64"
  then have e: "uint (n - 48) = uint n - 48" by (subst uint_minus) (simp_all add: word_le_def)
  have "uint (push_bit 8 (n - 48) OR ucast p0) = (uint n - 48) * 256 + uint p0"
    using u8_lt [of p0] a by (subst uint_shl_or) (simp_all add: e uint_u32_of_u8)
  moreover have "0 \<le> (uint n - 48) * 256" using a by simp
  then have "0 \<le> (uint n - 48) * 256 + uint p0 + 48" using uint_ge_0 [of p0] by linarith
  moreover have "(uint n - 48) * 256 + uint p0 + 48 < 2 ^ 32" using u8_lt [of p0] a by simp
  ultimately show ?thesis by (simp add: uint_word_ariths mod_pos_pos_trivial)
qed

lemma cc_len_three:
  "uint ((push_bit 8 (56 - 56 :: u32) OR push_bit 8 (ucast (p0 :: u8)) OR ucast (p1 :: u8)) + (48 + push_bit 11 1))
     = uint p0 * 256 + uint p1 + 2096"
proof -
  have "uint (push_bit 8 (ucast p0 :: u32) OR ucast p1) = uint p0 * 256 + uint p1"
    using u8_lt [of p0] u8_lt [of p1] by (subst uint_shl_or) (simp_all add: uint_u32_of_u8)
  then show ?thesis using u8_lt [of p0] u8_lt [of p1] by (simp add: uint_word_ariths mod_pos_pos_trivial)
qed

lemma cc_entry_int_sound:
  assumes r: "cc_entry_int (map uint (drop p t)) = Some (type, n, k, x, bs')"
  shows "\<exists>ty w p'. cc_entry t p = Some (ty, w, p') \<and> type = uint ty \<and> n = uint w \<and> int p' = int p + k
     \<and> bs' = map uint (drop p' t) \<and> (ty \<le> 1 \<longrightarrow> (\<exists>b. rd t (p' - 1) = Some b \<and> x = uint b))"
proof -
  from r obtain y xs where 0: "map uint (drop p t) = y # xs"
    by (cases "map uint (drop p t)") (auto simp: cc_entry_int_def)
  note p0 = drop_uint_Cons [OF 0]
  let ?b = "t ! p"
  define ty where "ty = drop_bit 6 (ucast ?b :: u32)"
  define w where "w = (ucast ?b :: u32) AND 0x3f"
  have ty: "uint ty = uint ?b div 64" by (simp add: ty_def uint_drop_bit_u32 uint_u32_of_u8)
  have w: "uint w = uint ?b mod 64"
    using and_mask_int [of "uint ?b" 6] by (simp add: w_def unsigned_and_eq uint_u32_of_u8)
  have w64: "uint w < 64" by (simp add: w)
  have ty1: "ty \<le> 1 \<longleftrightarrow> uint ty \<le> 1" by (simp add: word_le_def)
  have lt: "w < n \<longleftrightarrow> uint w < uint n" for n by (simp add: word_less_def)
  have fin: ?thesis
    if m: "cc_entry t p = Some (ty, v, if ty \<le> 1 then q + 1 else q)" and v: "uint v = n" and q: "int q = int p + j"
      and c: "(if uint ty \<le> 1 then (case map uint (drop q t) of [] \<Rightarrow> None | z # zs \<Rightarrow> Some (uint ty, uint v, j + 1, z, zs))
          else Some (uint ty, uint v, j, 0, map uint (drop q t))) = Some (type, n, k, x, bs')" for v q j
  proof (cases "ty \<le> 1")
    case True
    then obtain z zs where z: "map uint (drop q t) = z # zs" using c ty1 by (auto split: list.splits)
    show ?thesis using m v q c True ty1 z drop_uint_Cons [OF z] by auto
  next
    case False
    then show ?thesis using m v q c ty1 by auto
  qed
  have w56: "w = 56 \<longleftrightarrow> uint w = 56" by (simp add: word_uint_eq_iff)
  consider "uint w < 48" | "48 \<le> uint w" "uint w < 56" | "w = 56" | "56 < uint w"
    unfolding w56 by linarith
  then show ?thesis
  proof cases
    case 1
    then show ?thesis using r p0 unfolding 0
      by (intro fin [of w "p + 1" 1])
        (auto simp: cc_entry_int_def cc_entry_def Let_def lt ty w simp flip: ty_def w_def split: if_splits list.splits)
  next
    case 2
    then obtain y1 ys where xs: "xs = y1 # ys"
      using r p0 unfolding 0 by (cases xs) (auto simp: cc_entry_int_def Let_def w split: if_splits)
    then have p1: "Suc p < length t" "y1 = uint (t ! Suc p)" "ys = map uint (drop (Suc (Suc p)) t)"
      using p0 drop_uint_Cons [of "Suc p" t y1 ys] by auto
    show ?thesis using r p0 p1 2 cc_len_two [OF 2(1) w64, of "t ! Suc p"] unfolding 0 xs
      by (intro fin [of "(push_bit 8 (w - 48) OR ucast (t ! Suc p)) + 48" "p + 2" 2])
        (auto simp: cc_entry_int_def cc_entry_def Let_def lt ty w simp flip: ty_def w_def split: if_splits list.splits)
  next
    case 3
    then have w': "uint ?b mod 64 = 56" using w by simp
    then obtain y1 y2 ys where xs: "xs = y1 # y2 # ys"
      using r p0 unfolding 0
      by (cases xs rule: remdups_adj.cases) (auto simp: cc_entry_int_def Let_def split: if_splits)
    then have p1: "Suc p < length t" "y1 = uint (t ! Suc p)" "y2 # ys = map uint (drop (Suc (Suc p)) t)"
      using p0 drop_uint_Cons [of "Suc p" t y1 "y2 # ys"] by auto
    then have p2: "Suc (Suc p) < length t" "y2 = uint (t ! Suc (Suc p))" "ys = map uint (drop (Suc (Suc (Suc p))) t)"
      using drop_uint_Cons [of "Suc (Suc p)" t y2 ys] by auto
    have n3: "p + 3 = Suc (Suc (Suc p))" by simp
    show ?thesis using r p0 p1 p2 w' cc_len_three [of "t ! Suc p" "t ! Suc (Suc p)"] unfolding 0 xs
      by (intro fin [of "(push_bit 8 (56 - 56) OR push_bit 8 (ucast (t ! Suc p)) OR ucast (t ! Suc (Suc p))) + (48 + push_bit 11 1)" "p + 3" 3])
        (auto simp: cc_entry_int_def cc_entry_def Let_def lt ty 3 n3 simp flip: ty_def w_def split: if_splits list.splits)
  next
    case 4
    then show ?thesis using r p0 unfolding 0 by (auto simp: cc_entry_int_def Let_def w split: if_splits)
  qed
qed

lemma cc_entry_int_nonneg:
  "cc_entry_int bs = Some (ty, n, k, x, bs') \<Longrightarrow> (\<forall>b \<in> set bs. 0 \<le> b) \<Longrightarrow> (\<forall>b \<in> set bs'. 0 \<le> b) \<and> 0 \<le> n"
  by (auto simp: cc_entry_int_def Let_def split: list.splits if_splits option.splits)

lemma check_cc_le: "check_cc bs p code es fin \<Longrightarrow> (\<forall>b \<in> set bs. 0 \<le> b) \<Longrightarrow> code \<le> fin"
proof (induction bs p code es fin rule: check_cc.induct)
  case (1 bs p code es fin)
  show ?case
  proof (cases "cc_entry_int bs")
    case None
    with "1.prems" show ?thesis by (simp add: check_cc.simps [of bs])
  next
    case (Some e)
    obtain ty n k x bs' where e: "e = (ty, n, k, x, bs')" by (metis surj_pair)
    note nn = cc_entry_int_nonneg [OF Some [unfolded e] "1.prems"(2)]
    have "code + n + 1 \<le> fin"
      by (rule "1.IH" [OF Some e [symmetric] refl refl refl])
        (use "1.prems"(1) Some e nn in \<open>simp_all add: check_cc.simps [of bs]\<close>)
    with nn show ?thesis by simp
  qed
qed

text \<open>From a position and its code, every code below the end is found, with a class below 256.\<close>

definition cc_found :: "u8 list \<Rightarrow> int \<Rightarrow> int \<times> int \<Rightarrow> bool" where
  "cc_found t fin e \<longleftrightarrow> (\<forall>code c :: u32. snd e = uint code \<longrightarrow> code \<le> c \<longrightarrow> uint c < fin \<longrightarrow>
     (\<exists>v. get_cc_loop t (nat (fst e)) code c = Some v \<and> v < 256))"

lemma drop_met_found:
  "(\<forall>e \<in> set (drop_met es p code False). cc_found t fin e) \<Longrightarrow> cc_found t fin (p, code) \<Longrightarrow>
   \<forall>e \<in> set es. cc_found t fin e"
  by (cases "(es, p, code, False)" rule: drop_met.cases) (auto split: if_splits)

lemma get_cc_loop_step:
  assumes e: "cc_entry t p = Some (ty, w, p')" and le: "code \<le> c"
    and no: "uint code + uint w + 1 < 2 ^ 32"
    and x: "ty \<le> 1 \<Longrightarrow> \<exists>b. rd t (p' - 1) = Some b \<and> (ty = 1 \<longrightarrow> uint b + uint w < 256)"
  shows "c < code + w + 1 \<and> (\<exists>v. get_cc_loop t p code c = Some v \<and> v < 256)
    \<or> code + w + 1 \<le> c \<and> get_cc_loop t p code c = get_cc_loop t p' (code + w + 1) c"
proof (cases "c < code + w + 1")
  case True
  have "uint (code + w + 1) = uint code + uint w + 1"
    using no by (simp add: uint_word_ariths mod_pos_pos_trivial)
  with True have cw: "uint (c - code) \<le> uint w"
    using uint_minus [OF le] by (simp add: word_less_def)
  have v1: "\<exists>v. get_cc_loop t p code c = Some v \<and> v < 256" if ty: "ty = 1"
  proof -
    obtain b where b: "rd t (p' - 1) = Some b" "uint b + uint w < 256"
      using x [OF eq_refl [OF ty]] ty by auto
    have "uint ((ucast b :: u32) + (c - code)) = uint b + uint (c - code)"
      using b(2) cw uint_ge_0 [of "c - code"] uint_ge_0 [of b]
      by (simp only: uint_word_ariths uint_u32_of_u8 mod_pos_pos_trivial) (simp add: mod_pos_pos_trivial)
    then have "(ucast b :: u32) + (c - code) < 256" using b(2) cw by (simp add: word_less_def)
    then have "(ucast b :: u32) + c - code < 256" by (simp add: algebra_simps)
    then show ?thesis using True e b(1) ty by (simp add: get_cc_loop.simps [of t p])
  qed
  have v0: "\<exists>v. get_cc_loop t p code c = Some v \<and> v < 256" if ty: "ty = 0"
  proof -
    obtain b where b: "rd t (p' - 1) = Some b" using x ty by auto
    have "(ucast b :: u32) < 256" using u8_lt [of b] by (simp add: word_less_def uint_u32_of_u8)
    then show ?thesis using True e b ty by (simp add: get_cc_loop.simps [of t p])
  qed
  have "\<exists>v. get_cc_loop t p code c = Some v \<and> v < 256" if "ty \<noteq> 0" "ty \<noteq> 1"
    using True e that by (simp add: get_cc_loop.simps [of t p])
  with v0 v1 True show ?thesis by blast
next
  case False
  then have "code + w + 1 \<le> c" by simp
  with False e show ?thesis by (simp add: get_cc_loop.simps [of t p] Let_def)
qed

lemma check_cc_sound:
  "check_cc bs q k es fin \<Longrightarrow> bs = map uint (drop p t) \<Longrightarrow> q = int p \<Longrightarrow> k = uint (code :: u32) \<Longrightarrow> fin < 2 ^ 32 \<Longrightarrow>
   cc_found t fin (q, k) \<and> (\<forall>e \<in> set es. cc_found t fin e)"
proof (induction bs q k es fin arbitrary: p code rule: check_cc.induct)
  case (1 bs q k es fin)
  show ?case
  proof (cases "cc_entry_int bs")
    case None
    then have e: "k = fin" "drop_met es q k False = []" using "1.prems"(1) by (auto simp: check_cc.simps [of bs])
    have f: "cc_found t fin (q, k)" using e(1) "1.prems"(4) by (auto simp: cc_found_def word_le_def)
    show ?thesis using f drop_met_found [OF _ f, of es] e(2) by simp
  next
    case (Some r)
    obtain ty' n j x bs' where r: "r = (ty', n, j, x, bs')" by (metis surj_pair)
    obtain ty w p' where s: "cc_entry t p = Some (ty, w, p')" "ty' = uint ty" "n = uint w"
      "int p' = int p + j" "bs' = map uint (drop p' t)" "ty \<le> 1 \<longrightarrow> (\<exists>b. rd t (p' - 1) = Some b \<and> x = uint b)"
      using cc_entry_int_sound [OF Some [unfolded r "1.prems"(2)]] by blast
    have c: "check_cc bs' (q + j) (k + n + 1) (drop_met es q k False) fin" "ty' = 1 \<longrightarrow> x + n < 256"
      using "1.prems"(1) Some r by (simp_all add: check_cc.simps [of bs])
    have le: "k + n + 1 \<le> fin" by (rule check_cc_le [OF c(1)]) (use s(5) in auto)
    then have no: "uint code + uint w + 1 < 2 ^ 32" using "1.prems"(4,5) s(3) by simp
    then have u: "uint (code + w + 1) = uint code + uint w + 1"
      by (simp add: uint_word_ariths mod_pos_pos_trivial)
    have ih: "cc_found t fin (q + j, k + n + 1)" "\<forall>e \<in> set (drop_met es q k False). cc_found t fin e"
      using "1.IH" [OF Some r [symmetric] refl refl refl c(1) s(5), of "code + w + 1"] "1.prems"(3,4,5) s(3,4) u by auto
    have x: "\<exists>b. rd t (p' - 1) = Some b \<and> (ty = 1 \<longrightarrow> uint b + uint w < 256)" if "ty \<le> 1"
      using s(2,3,6) c(2) that by auto
    have f: "cc_found t fin (q, k)"
      unfolding cc_found_def
    proof (intro allI impI)
      fix d c :: u32 assume a: "snd (q, k) = uint d" "d \<le> c" "uint c < fin"
      then have d: "d = code" using "1.prems"(4) by (simp add: word_uint_eq_iff)
      have pj: "nat (q + j) = p'" using s(4) "1.prems"(3) by simp
      have "\<exists>v. get_cc_loop t p' (code + w + 1) c = Some v \<and> v < 256" if "code + w + 1 \<le> c"
        using ih(1) that a(3) u "1.prems"(4) s(3) unfolding cc_found_def fst_conv snd_conv pj by simp
      then show "\<exists>v. get_cc_loop t (nat (fst (q, k))) d c = Some v \<and> v < 256"
        using get_cc_loop_step [OF s(1) a(2) [unfolded d] no x] d "1.prems"(3) by auto
    qed
    show ?thesis using f drop_met_found [OF ih(2) f] by blast
  qed
qed

lemma unicode_get_cc_total: "\<exists>v. unicode_get_cc c = Some v \<and> v < 256"
proof -
  let ?es = "butlast (index_int (map uint unicode_cc_index) 0)"
  have io: "index_ok unicode_cc_index 125259" and ch: "check_cc (map uint unicode_cc_table) 0 0 ?es 125259"
    using unicode_cc_checked by (auto simp: check_cc_table_def)
  have f: "cc_found unicode_cc_table 125259 (0, 0)" "\<forall>e \<in> set ?es. cc_found unicode_cc_table 125259 e"
    using check_cc_sound [OF ch, of 0 unicode_cc_table 0] by simp_all
  show ?thesis
  proof (rule get_index_pos_cases [OF io, of c])
    assume "uint c < 125259" "get_index_pos c unicode_cc_index (length unicode_cc_index div 3) = Some (Some (0, 0))"
    then show ?thesis using f(1) by (simp add: unicode_get_cc_def cc_found_def)
  next
    fix q code
    assume "uint c < 125259" "(q, uint code) \<in> set ?es" "code \<le> c"
      "get_index_pos c unicode_cc_index (length unicode_cc_index div 3) = Some (Some (nat q, code))"
    then show ?thesis using f(2) by (auto simp: unicode_get_cc_def cc_found_def dest!: bspec)
  qed (simp add: unicode_get_cc_def)
qed

lemma cc_of_lt: "cc_of c < 256"
  using unicode_get_cc_total [of c] by (auto simp: cc_of_def)

lemma unicode_get_cc_of: "unicode_get_cc c = Some (cc_of c)"
  using unicode_get_cc_total [of c] by (auto simp: cc_of_def)

end
