(* ===== verification/NormalizeProps.thy ===== *)
theory NormalizeProps
  imports Normalize
begin

text \<open>
  What normalisation promises: the canonical ordering is the stable sort of every run of
  non-starters; the composition in place is the composition into a separate output; the
  decomposition ends and is complete for tables that decompose into smaller pieces; the Hangul
  composition inverts the Hangul decomposition.
\<close>

section \<open>Canonical ordering\<close>

text \<open>The reference: each maximal run of non-starters is stably sorted by class.\<close>

function canonical_order :: "(u32 \<Rightarrow> u32) \<Rightarrow> u32 list \<Rightarrow> u32 list" where
  "canonical_order cc xs =
     (case xs of
        [] \<Rightarrow> []
      | y # ys \<Rightarrow>
          if cc y = 0 then y # canonical_order cc ys
          else sort_key cc (takeWhile (\<lambda>c. cc c \<noteq> 0) xs) @ canonical_order cc (dropWhile (\<lambda>c. cc c \<noteq> 0) xs))"
  by pat_completeness auto
termination
  by (relation "measure (\<lambda>(cc, xs). length xs)") (auto simp: le_imp_less_Suc length_dropWhile_le)

declare canonical_order.simps [simp del]

lemma canonical_order_Nil [simp]: "canonical_order cc [] = []"
  by (simp add: canonical_order.simps)

lemma canonical_order_starter [simp]: "cc y = 0 \<Longrightarrow> canonical_order cc (y # ys) = y # canonical_order cc ys"
  by (simp add: canonical_order.simps [of cc "y # ys"])

lemma canonical_order_run: "cc y \<noteq> 0 \<Longrightarrow> canonical_order cc (y # ys) =
   sort_key cc (y # takeWhile (\<lambda>c. cc c \<noteq> 0) ys) @ canonical_order cc (dropWhile (\<lambda>c. cc c \<noteq> 0) ys)"
  by (simp add: canonical_order.simps [of cc "y # ys"])

text \<open>One insertion: the elements of larger class move up by one.\<close>

lemma shift_back_spec:
  "\<exists>B1 B2 y. B = B1 @ B2 \<and> (B1 = [] \<or> cc (last B1) \<le> c1) \<and> (\<forall>b \<in> set B2. \<not> cc b \<le> c1) \<and>
     shift_back cc (P @ B @ z # R) (length P + length B) (length P) c1
       = (P @ B1 @ y # B2 @ R, length P + length B1)"
proof (induction B arbitrary: z R rule: rev_induct)
  case Nil
  show ?case
    by (rule exI [of _ "[]"], rule exI [of _ "[]"], rule exI [of _ z]) (cases P; simp)
next
  case (snoc b B)
  show ?case
  proof (cases "cc b \<le> c1")
    case True
    then show ?thesis
      by (intro exI [of _ "B @ [b]"] exI [of _ "[]"] exI [of _ z]) (simp add: nth_append)
  next
    case False
    obtain B1 B2 y where ih: "B = B1 @ B2" "B1 = [] \<or> cc (last B1) \<le> c1" "\<forall>b \<in> set B2. \<not> cc b \<le> c1"
      "shift_back cc (P @ B @ b # b # R) (length P + length B) (length P) c1
         = (P @ B1 @ y # B2 @ b # R, length P + length B1)"
      using snoc.IH [of b "b # R"] by blast
    have "(P @ (B @ [b]) @ z # R)[length P + length B + 1 := b] = P @ B @ b # b # R"
      by (simp add: list_update_append)
    then have "shift_back cc (P @ (B @ [b]) @ z # R) (length P + length (B @ [b])) (length P) c1
        = shift_back cc (P @ B @ b # b # R) (length P + length B) (length P) c1"
      using False by (simp add: nth_append)
    then show ?thesis
      using ih False by (intro exI [of _ B1] exI [of _ "B2 @ [b]"] exI [of _ y]) auto
  qed
qed

lemma sorted_le_last:
  "sorted (map f (xs @ [x])) \<Longrightarrow> y \<in> set xs \<Longrightarrow> f y \<le> f x" for f :: "'a \<Rightarrow> 'b :: linorder"
  by (auto simp: sorted_append)

lemma sort_key_snoc:
  fixes f :: "'a \<Rightarrow> 'b :: linorder"
  assumes s: "sort_key f Q = B1 @ B2" and l: "B1 = [] \<or> f (last B1) \<le> f x" and g: "\<forall>b \<in> set B2. \<not> f b \<le> f x"
  shows "sort_key f (Q @ [x]) = B1 @ x # B2"
proof (rule properties_for_sort_key)
  have m: "mset (B1 @ B2) = mset Q" using s by (metis mset_sort)
  then show "mset (B1 @ x # B2) = mset (Q @ [x])" by simp
  have so: "sorted (map f (B1 @ B2))" using s by (metis sorted_sort_key)
  have le: "f b \<le> f x" if "b \<in> set B1" for b
  proof (cases B1 rule: rev_cases)
    case (snoc ys y)
    then have "f b \<le> f y" using so that by (auto simp: sorted_append)
    then show ?thesis using l snoc by auto
  qed (use that in simp)
  then show "sorted (map f (B1 @ x # B2))"
    using so g by (auto simp: sorted_append intro: order.trans)
  fix k
  have q: "filter (\<lambda>y. f k = f y) Q = filter (\<lambda>y. f k = f y) (B1 @ B2)"
    using s by (metis (mono_tags) sort_key_stable filter_cong)
  have "filter (\<lambda>y. f k = f y) B2 = []" if "f k = f x"
    using g that by (auto simp: filter_empty_conv)
  then show "filter (\<lambda>y. f k = f y) (B1 @ x # B2) = filter (\<lambda>y. f k = f y) (Q @ [x])"
    using q by auto
qed

lemma sort_run_spec:
  "sort_run cc (P @ sort_key cc Q @ xs) (length P) (length P + length Q) (length P + length Q + length xs)
     = (P @ sort_key cc (Q @ takeWhile (\<lambda>c. cc c \<noteq> 0) xs) @ dropWhile (\<lambda>c. cc c \<noteq> 0) xs,
        length P + length Q + length (takeWhile (\<lambda>c. cc c \<noteq> 0) xs))"
proof (induction xs arbitrary: Q)
  case (Cons x xs)
  let ?buf = "P @ sort_key cc Q @ x # xs"
  have at: "?buf ! (length P + length Q) = x" by (simp add: nth_append)
  show ?case
  proof (cases "cc x = 0")
    case True
    with at show ?thesis by (simp add: sort_run.simps [of cc ?buf] Let_def)
  next
    case False
    obtain B1 B2 y where b: "sort_key cc Q = B1 @ B2" "B1 = [] \<or> cc (last B1) \<le> cc x" "\<forall>b \<in> set B2. \<not> cc b \<le> cc x"
      "shift_back cc ?buf (length P + length Q) (length P) (cc x) = (P @ B1 @ y # B2 @ xs, length P + length B1)"
      using shift_back_spec [of "sort_key cc Q" cc "cc x" P x xs, unfolded length_sort] by blast
    have "(P @ B1 @ y # B2 @ xs)[length P + length B1 := x] = P @ sort_key cc (Q @ [x]) @ xs"
      using sort_key_snoc [OF b(1-3)] by (simp add: list_update_append)
    then have "sort_run cc ?buf (length P) (length P + length Q) (length P + length Q + length (x # xs))
      = sort_run cc (P @ sort_key cc (Q @ [x]) @ xs) (length P) (length P + length Q + 1) (length P + length Q + length (x # xs))"
      using False at b(4) by (simp add: sort_run.simps [of cc ?buf] Let_def)
    then show ?thesis using Cons.IH [of "Q @ [x]"] False by simp
  qed
qed (simp add: sort_run.simps)

lemma sort_cc_loop_spec:
  "sort_cc_loop cc (P @ xs) (length P) (length P + length xs) = P @ canonical_order cc xs"
proof (induction xs arbitrary: P rule: length_induct)
  case (1 xs)
  show ?case
  proof (cases xs)
    case (Cons y ys)
    let ?t = "takeWhile (\<lambda>c. cc c \<noteq> 0) ys" and ?d = "dropWhile (\<lambda>c. cc c \<noteq> 0) ys"
    show ?thesis
    proof (cases "cc y = 0")
      case True
      have "sort_cc_loop cc ((P @ [y]) @ ys) (length (P @ [y])) (length (P @ [y]) + length ys)
          = (P @ [y]) @ canonical_order cc ys"
        using 1 Cons by (metis length_Cons lessI)
      with True Cons show ?thesis by (simp add: sort_cc_loop.simps [of cc "P @ y # ys"])
    next
      case False
      have run: "sort_run cc (P @ y # ys) (length P) (length P + 1) (length P + length xs)
          = (P @ sort_key cc (y # ?t) @ ?d, length P + 1 + length ?t)"
        using sort_run_spec [of cc P "[y]" ys] Cons by simp
      have step: "sort_cc_loop cc (P @ xs) (length P) (length P + length xs)
          = sort_cc_loop cc (P @ sort_key cc (y # ?t) @ ?d) (length P + length ?t + 2) (length P + length xs)"
        using False Cons run by (simp add: sort_cc_loop.simps [of cc "P @ y # ys"])
      have len: "length ys = length ?t + length ?d" by (metis length_append takeWhile_dropWhile_id)
      show ?thesis
      proof (cases ?d)
        case Nil
        have "sort_cc_loop cc b i n = b" if "n \<le> i" for b i n
          using that by (simp add: sort_cc_loop.simps [of cc b i n])
        moreover have "length P + length xs \<le> length P + length ?t + 2" using len Nil Cons by simp
        ultimately have "sort_cc_loop cc (P @ xs) (length P) (length P + length xs) = P @ sort_key cc (y # ?t) @ ?d"
          using step by metis
        then show ?thesis using Cons canonical_order_run [of cc y ys, OF False] Nil canonical_order_Nil by (metis append_Nil2)
      next
        case d: (Cons z zs)
        then have z: "cc z = 0" using hd_dropWhile [of "\<lambda>c. cc c \<noteq> 0" ys] by simp
        let ?P = "P @ sort_key cc (y # ?t) @ [z]"
        have "length zs < length xs" using len d Cons by simp
        then have "sort_cc_loop cc (?P @ zs) (length ?P) (length ?P + length zs) = ?P @ canonical_order cc zs"
          using 1 by blast
        then show ?thesis using step False Cons len d z by (simp add: canonical_order_run add.assoc)
      qed
    qed
  qed (simp add: sort_cc_loop.simps)
qed

lemma sort_cc_canonical: "sort_cc cc buf = canonical_order cc buf"
  using sort_cc_loop_spec [of cc "[]" buf] by (simp add: sort_cc_def)

section \<open>Composition\<close>

text \<open>The reference: the output is a list of its own.\<close>

fun compose_ref :: "(u32 \<Rightarrow> u32) \<Rightarrow> (u32 \<Rightarrow> u32 \<Rightarrow> u32 option) \<Rightarrow> u32 list \<Rightarrow> u32 list \<Rightarrow> u32 list option" where
  "compose_ref cc cp out [] = Some out"
| "compose_ref cc cp out (c # cs) =
     (case find_starter cc out (cc c) (length out) of
        None \<Rightarrow> compose_ref cc cp (out @ [c]) cs
      | Some s \<Rightarrow> (case cp (out ! s) c of
          None \<Rightarrow> None
        | Some p \<Rightarrow> if p \<noteq> 0 then compose_ref cc cp (out[s := p]) cs else compose_ref cc cp (out @ [c]) cs))"

lemma find_starter_lt: "find_starter cc buf l n = Some s \<Longrightarrow> s < n"
  by (induction n arbitrary: l) (auto simp: Let_def less_Suc_eq split: if_splits)

lemma find_starter_is: "find_starter cc buf l n = Some s \<Longrightarrow> cc (buf ! s) = 0"
  by (induction n arbitrary: l) (auto simp: Let_def split: if_splits)

lemma find_starter_take: "n \<le> length out \<Longrightarrow> find_starter cc (out @ rest) l n = find_starter cc out l n"
  by (induction n arbitrary: l) (auto simp: Let_def nth_append)

lemma compose_loop_refines:
  "length buf = length out + length gap + length cs \<Longrightarrow> buf = out @ gap @ cs \<Longrightarrow>
   map_option (\<lambda>(b, n). take n b) (compose_loop cc cp buf (length out + length gap) (length out) (length buf))
     = compose_ref cc cp out cs"
proof (induction cs arbitrary: buf out gap)
  case Nil
  have "compose_loop cc cp b i n i = Some (b, n)" for b i n
    by (simp add: compose_loop.simps [of cc cp b])
  then show ?case using Nil by simp
next
  case (Cons c cs)
  let ?i = "length out + length gap"
  have at: "buf ! ?i = c" and lt: "?i < length buf" using Cons.prems by (auto simp: nth_append)
  have fs: "find_starter cc buf l (length out) = find_starter cc out l (length out)" for l
    using Cons.prems(2) find_starter_take [of "length out" out cc "gap @ c # cs" l] by simp
  have keep: "map_option (\<lambda>(b, n). take n b)
      (compose_loop cc cp (buf[length out := c]) (?i + 1) (length out + 1) (length buf)) = compose_ref cc cp (out @ [c]) cs"
  proof -
    have "buf[length out := c] = (out @ [c]) @ tl (gap @ [c]) @ cs"
      unfolding Cons.prems(2) by (cases gap) (simp_all add: list_update_append)
    moreover have "length (tl (gap @ [c])) = length gap" by simp
    ultimately show ?thesis
      using Cons.IH [of "buf[length out := c]" "out @ [c]" "tl (gap @ [c])"] Cons.prems(1) by (simp add: add.assoc)
  qed
  have merge: "map_option (\<lambda>(b, n). take n b) (compose_loop cc cp (buf[s := p]) (?i + 1) (length out) (length buf))
      = compose_ref cc cp (out[s := p]) cs" if "s < length out" for s p
    using Cons.IH [of "buf[s := p]" "out[s := p]" "gap @ [c]"] Cons.prems that
    by (simp add: list_update_append)
  show ?case
  proof (cases "find_starter cc out (cc c) (length out)")
    case None
    then show ?thesis using keep at lt fs by (simp add: compose_loop.simps [of cc cp buf])
  next
    case (Some s)
    then have s: "s < length out" by (rule find_starter_lt)
    then have bs: "buf ! s = out ! s" using Cons.prems by (simp add: nth_append)
    show ?thesis
    proof (cases "cp (out ! s) c")
      case (Some p)
      then show ?thesis using keep merge [OF s, of p] \<open>find_starter cc out (cc c) (length out) = Some s\<close> at lt fs bs
        by (simp add: compose_loop.simps [of cc cp buf])
    qed (use Some at lt fs bs in \<open>simp add: compose_loop.simps [of cc cp buf]\<close>)
  qed
qed

section \<open>Decomposition\<close>

text \<open>A code point that the tables and the Hangul rule leave alone.\<close>

definition stable_char :: "(u32 \<Rightarrow> u32 list option) \<Rightarrow> u32 \<Rightarrow> bool" where
  "stable_char D c \<longleftrightarrow> \<not> is_hangul c \<and> D c = Some []"

text \<open>What the tables must promise: every read is inside them, and a decomposition only has
  pieces of smaller rank.\<close>

definition decreasing :: "(u32 \<Rightarrow> nat) \<Rightarrow> (u32 \<Rightarrow> u32 list option) \<Rightarrow> bool" where
  "decreasing rank D \<longleftrightarrow> (\<forall>c. \<exists>res. D c = Some res \<and> (\<forall>x \<in> set res. rank x < rank c))"

text \<open>The parts of a syllable are Jamo.\<close>

definition is_jamo :: "u32 \<Rightarrow> bool" where
  "is_jamo c \<longleftrightarrow> 0x1100 \<le> c \<and> c < 0x11c3"

lemma hangul_bounds:
  assumes "is_hangul c"
  defines "u \<equiv> uint (c - 0xac00)"
  shows "uint (0x1100 + (c - 0xac00) div 588) = 0x1100 + u div 588"
    "uint (0x1161 + ((c - 0xac00) mod 588) div 28) = 0x1161 + (u mod 588) div 28"
    "uint (0x11a7 + (c - 0xac00) mod 28) = 0x11a7 + u mod 28"
    "u div 588 < 19" "(u mod 588) div 28 < 21" "0 \<le> u" "u < 11172" "u = uint c - 0xac00"
proof -
  show e: "u = uint c - 0xac00" unfolding u_def using assms(1)
    by (subst uint_minus) (auto simp: is_hangul_def)
  show u: "0 \<le> u" "u < 11172" using e assms(1) uint_ge_0 [of "c - 0xac00"]
    by (auto simp: u_def is_hangul_def word_less_def)
  show b: "u div 588 < 19" using u(2) by linarith
  have m: "0 \<le> u mod 588" "u mod 588 < 588" by simp_all
  then show b2: "(u mod 588) div 28 < 21" by linarith
  have d: "0 \<le> u div 588" "0 \<le> (u mod 588) div 28" using u m by (auto simp: pos_imp_zdiv_nonneg_iff)
  have m28: "0 \<le> u mod 28" "u mod 28 < 28" by simp_all
  have w: "uint ((c - 0xac00) div 588) = u div 588" "uint (((c - 0xac00) mod 588) div 28) = (u mod 588) div 28"
    "uint ((c - 0xac00) mod 28) = u mod 28"
    by (simp_all add: uint_div uint_mod u_def)
  show "uint (0x1100 + (c - 0xac00) div 588) = 0x1100 + u div 588"
    using b d(1) by (simp add: uint_word_ariths w(1) mod_pos_pos_trivial)
  show "uint (0x1161 + ((c - 0xac00) mod 588) div 28) = 0x1161 + (u mod 588) div 28"
    using b2 d(2) by (simp add: uint_word_ariths w(2) mod_pos_pos_trivial)
  show "uint (0x11a7 + (c - 0xac00) mod 28) = 0x11a7 + u mod 28"
    using m28 by (simp add: uint_word_ariths w(3) mod_pos_pos_trivial)
qed

lemma hangul_decomp_not_hangul:
  assumes h: "is_hangul c" and x: "x \<in> set (hangul_decomp c)"
  shows "is_jamo x"
proof -
  note b = hangul_bounds [OF h]
  have m: "0 \<le> uint (c - 0xac00) mod 28" "uint (c - 0xac00) mod 28 < 28" by simp_all
  have "0x1100 \<le> uint x \<and> uint x < 0x11c3"
    using x b(1-7) m by (auto simp: hangul_decomp_def Let_def pos_imp_zdiv_nonneg_iff split: if_splits)
  then show ?thesis by (simp add: is_jamo_def word_le_def word_less_def)
qed

text \<open>The decomposition as a relation: \<open>decomposes D xs ys\<close> when expanding every code point
  as far as possible gives \<open>ys\<close>.\<close>

inductive decomposes :: "(u32 \<Rightarrow> u32 list option) \<Rightarrow> u32 list \<Rightarrow> u32 list \<Rightarrow> bool" for D where
  dec_nil: "decomposes D [] []"
| dec_hangul: "is_hangul c \<Longrightarrow> decomposes D cs ys \<Longrightarrow> decomposes D (c # cs) (hangul_decomp c @ ys)"
| dec_keep: "stable_char D c \<Longrightarrow> decomposes D cs ys \<Longrightarrow> decomposes D (c # cs) (c # ys)"
| dec_expand: "\<not> is_hangul c \<Longrightarrow> D c = Some res \<Longrightarrow> res \<noteq> [] \<Longrightarrow> decomposes D res xs \<Longrightarrow> decomposes D cs ys \<Longrightarrow>
    decomposes D (c # cs) (xs @ ys)"

inductive_cases decomposes_NilE: "decomposes D [] ys"
inductive_cases decomposes_ConsE: "decomposes D (c # cs) ys"

lemma to_nfd_rec_Nil [simp]: "to_nfd_rec D [] = Some []"
  by (subst to_nfd_rec.simps) simp

lemma to_nfd_rec_Cons:
  "to_nfd_rec D (c # cs) = Option.bind (if is_hangul c then Some (hangul_decomp c)
      else Option.bind (D c) (\<lambda>res. if res = [] then Some [c] else to_nfd_rec D res))
     (\<lambda>xs. Option.bind (to_nfd_rec D cs) (\<lambda>ys. Some (xs @ ys)))"
  by (subst to_nfd_rec.simps) simp

lemma to_nfd_rec_char:
  assumes d: "decreasing rank D"
  shows "(\<forall>c \<in> set src. rank c < n) \<Longrightarrow> \<exists>ys. to_nfd_rec D src = Some ys \<and> decomposes D src ys"
proof (induction n arbitrary: src rule: less_induct)
  case (less n)
  from less.prems show ?case
  proof (induction src)
    case (Cons c cs)
    then obtain ys where ys: "to_nfd_rec D cs = Some ys" "decomposes D cs ys" by auto
    obtain res where res: "D c = Some res" "\<forall>x \<in> set res. rank x < rank c"
      using d unfolding decreasing_def by blast
    consider "is_hangul c" | "\<not> is_hangul c" "res = []" | "\<not> is_hangul c" "res \<noteq> []" by blast
    then show ?case
    proof cases
      case 1
      then show ?thesis using ys dec_hangul [OF 1 ys(2)] by (simp add: to_nfd_rec_Cons)
    next
      case 2
      then have "stable_char D c" using res by (simp add: stable_char_def)
      then show ?thesis using ys res 2 dec_keep [OF _ ys(2)] by (simp add: to_nfd_rec_Cons)
    next
      case 3
      have "rank c < n" using Cons.prems by simp
      from less.IH [OF this res(2)] obtain xs where "to_nfd_rec D res = Some xs" "decomposes D res xs" by blast
      then show ?thesis using ys res 3 dec_expand [OF 3(1) res(1) 3(2) _ ys(2)] by (simp add: to_nfd_rec_Cons)
    qed
  qed (auto intro: dec_nil)
qed

lemma decomposes_complete:
  assumes "\<And>c. is_jamo c \<Longrightarrow> D c = Some []"
  shows "decomposes D xs ys \<Longrightarrow> y \<in> set ys \<Longrightarrow> stable_char D y"
proof (induction rule: decomposes.induct)
  case (dec_hangul c cs ys)
  have "stable_char D x" if "x \<in> set (hangul_decomp c)" for x
  proof -
    have j: "is_jamo x" using hangul_decomp_not_hangul [OF dec_hangul.hyps(1) that] .
    then have "\<not> is_hangul x" by (auto simp: is_jamo_def is_hangul_def word_le_def word_less_def)
    then show ?thesis using assms [OF j] by (simp add: stable_char_def)
  qed
  then show ?case using dec_hangul by auto
qed auto

lemma rank_bound: "\<forall>c \<in> set src. rank c < Suc (sum_list (map rank src))" for rank :: "'a \<Rightarrow> nat"
  by (auto simp: less_Suc_eq_le intro!: member_le_sum_list)

lemma to_nfd_rec_total:
  "decreasing rank D \<Longrightarrow> \<exists>ys. to_nfd_rec D src = Some ys \<and> decomposes D src ys"
  by (rule to_nfd_rec_char [OF _ rank_bound])

text \<open>The syllable without its trailing consonant.\<close>

lemma hangul_lv:
  assumes h: "is_hangul c"
  defines "x \<equiv> c - 0xac00"
  shows "compose_pair T (0x1100 + x div 588) (0x1161 + (x mod 588) div 28) = Some (c - x mod 28)"
proof -
  note b = hangul_bounds [OF h, folded x_def]
  have nn: "0 \<le> uint x div 588" "0 \<le> (uint x mod 588) div 28"
    using b(6) by (simp_all add: pos_imp_zdiv_nonneg_iff)
  have lv: "0x1100 + x div 588 \<ge> 0x1100" "0x1100 + x div 588 < 0x1100 + 19"
    "0x1161 + (x mod 588) div 28 \<ge> 0x1161" "0x1161 + (x mod 588) div 28 < 0x1161 + 21"
    using b(4,5) nn by (simp_all add: word_le_def word_less_def b(1,2))
  have m: "x mod 588 mod 28 = x mod 28"
    by (rule word_uint_eq_iff [THEN iffD2]) (simp add: uint_mod mod_mod_cancel)
  have split: "p + r = y \<Longrightarrow> q + z = r \<Longrightarrow> p + q = y - z" for p q r y z :: u32 by auto
  have "x div 588 * 588 + x mod 588 = x" "(x mod 588) div 28 * 28 + x mod 588 mod 28 = x mod 588"
    by (rule div_mult_mod_eq)+
  then have "x div 588 * 588 + (x mod 588) div 28 * 28 = x - x mod 28"
    unfolding m by (rule split)
  then have "0xac00 + x div 588 * 588 + (x mod 588) div 28 * 28 = c - x mod 28"
    by (simp add: x_def algebra_simps)
  then show ?thesis using lv by (simp add: compose_pair_def)
qed

lemma hangul_lvt:
  assumes h: "is_hangul c"
  defines "x \<equiv> c - 0xac00"
  shows "compose_pair T (c - x mod 28) (0x11a7 + x mod 28) = Some c"
proof -
  note b = hangul_bounds [OF h, folded x_def]
  have m: "0 \<le> uint x mod 28" "uint x mod 28 < 28" "uint x mod 28 \<le> uint x"
    using b(6) by (simp_all add: zmod_le_nonneg_dividend)
  have "x mod 28 \<le> x" by (simp add: word_le_def uint_mod m(3))
  then have d: "uint (x - x mod 28) = uint x - uint x mod 28" by (subst uint_minus) (simp_all add: uint_mod)
  have e: "c - x mod 28 = 0xac00 + (x - x mod 28)" by (simp add: x_def)
  have k: "uint (0xac00 + y) = 0xac00 + uint y" if "uint y < 11172" for y :: u32
    using that by (simp add: uint_word_ariths mod_pos_pos_trivial)
  have u: "uint (c - x mod 28) = 0xac00 + (uint x - uint x mod 28)"
    unfolding e by (subst k) (use m b(7) d in linarith)+
  have "uint (c - x mod 28 - 0xac00) mod 28 = 0"
    using e d by (simp add: minus_mod_eq_mult_div)
  then have z: "(c - x mod 28 - 0xac00) mod 28 = 0" by (simp add: word_uint_eq_iff uint_mod)
  have "\<not> c - x mod 28 < 0x1100 + 19" "c - x mod 28 \<ge> 0xac00" "c - x mod 28 < 0xac00 + 11172"
    using u m b(7) by (simp_all add: word_less_def word_le_def)
  moreover have "0x11a7 + x mod 28 \<ge> 0x11a7" "0x11a7 + x mod 28 < 0x11a7 + 28"
    using m b(3) by (simp_all add: word_less_def word_le_def)
  ultimately show ?thesis using z by (simp add: compose_pair_def)
qed

lemma mset_canonical_order: "mset (canonical_order cc xs) = mset xs"
proof (induction cc xs rule: canonical_order.induct)
  case (1 cc xs)
  show ?case
  proof (cases xs)
    case (Cons y ys)
    have "mset ys = mset (takeWhile P ys) + mset (dropWhile P ys)" for P
      by (metis mset_append takeWhile_dropWhile_id)
    then show ?thesis using Cons 1 by (cases "cc y = 0") (auto simp: canonical_order_run)
  qed simp
qed

lemma set_canonical_order [simp]: "set (canonical_order cc xs) = set xs"
  using mset_canonical_order [of cc xs] by (metis set_mset_mset)

section \<open>Properties\<close>

text \<open>A table with the single entry of U+00C0, for the concrete instances.\<close>

definition sample_tables :: decomp_tables where
  "sample_tables = \<lparr>decomp_table1 = [0x300084], decomp_table2 = [0], decomp_data = [0x41, 0, 0, 3],
     comp_table = [0]\<rparr>"


text \<open>Composition undoes the Hangul decomposition: for each of the 11172 syllables, composing the
  leading consonant with the vowel, and the result with the trailing consonant where there is one,
  gives the syllable back, whatever the tables.\<close>

theorem hangul_round_trip:
  assumes "is_hangul c"
  shows "(\<exists>l v. hangul_decomp c = [l, v] \<and> compose_pair T l v = Some c) \<or>
    (\<exists>l v t lv. hangul_decomp c = [l, v, t] \<and> compose_pair T l v = Some lv \<and> compose_pair T lv t = Some c)"
  using hangul_lv [where T = T, OF assms] hangul_lvt [where T = T, OF assms] by (auto simp: hangul_decomp_def Let_def)

theorem hangul_round_trip_witness:
  "is_hangul 0xac01 \<and> ((\<exists>l v. hangul_decomp 0xac01 = [l, v] \<and> compose_pair sample_tables l v = Some 0xac01) \<or>
    (\<exists>l v t lv. hangul_decomp 0xac01 = [l, v, t] \<and> compose_pair sample_tables l v = Some lv \<and> compose_pair sample_tables lv t = Some 0xac01))"
  using hangul_round_trip [where c = "0xac01" and T = sample_tables] by (simp add: is_hangul_def)

text \<open>C37: for tables that read inside themselves, decompose into pieces of smaller rank and leave
  the Jamo alone, \<^verbatim>\<open>unicode_normalize\<close> ends for NFD and NFKD; its result is the complete
  decomposition of the source (no code point of it can be decomposed further) in canonical order.\<close>

theorem normalize_nfd_complete:
  fixes T :: decomp_tables and n :: UnicodeNormalization
  defines "D \<equiv> \<lambda>c. unicode_decomp_char T c (is_compat n)"
  assumes d: "decreasing rank D" and j: "\<And>c. is_jamo c \<Longrightarrow> D c = Some []" and n: "is_decomp_only n"
  shows "\<exists>ys. decomposes D src ys \<and> unicode_normalize T src n = Some (canonical_order cc_of ys)
    \<and> (\<forall>c \<in> set (canonical_order cc_of ys). stable_char D c)"
proof -
  obtain ys where ys: "to_nfd_rec D src = Some ys" "decomposes D src ys"
    using to_nfd_rec_total [OF d] by blast
  then have "unicode_normalize T src n = Some (canonical_order cc_of ys)"
    using n by (auto simp: unicode_normalize_def D_def sort_cc_canonical)
  then show ?thesis using ys(2) decomposes_complete [OF j ys(2)] by auto
qed

lemma sample_tables_char:
  "unicode_decomp_char sample_tables c b = (if c = 0xC0 then Some [0x41, 0x300] else Some [])"
proof -
  have f: "run_find 18 [0x300084] c = Some (if c = 0xC0 then Some 0 else None)"
    using word_le_less_eq [of "0xC1" c] 
    by (auto simp: run_find_def run_search.simps [of 18 _ c] run_code_def run_len_def word_less_def word_le_def
        word_uint_eq_iff)
  have "unicode_decomp_char sample_tables 0xC0 True = Some [0x41, 0x300]"
    "unicode_decomp_char sample_tables 0xC0 False = Some [0x41, 0x300]" by code_simp+
  then show ?thesis using f by (cases b) (auto simp: unicode_decomp_char_def sample_tables_def)
qed

lemma sample_tables_decreasing:
  "decreasing (\<lambda>c. if c = 0xC0 then 1 else 0) (\<lambda>c. unicode_decomp_char sample_tables c b)"
  "is_jamo c \<Longrightarrow> unicode_decomp_char sample_tables c b = Some []"
  by (auto simp: decreasing_def sample_tables_char is_jamo_def word_le_def)

theorem normalize_nfd_complete_witness:
  "\<exists>ys. decomposes (\<lambda>c. unicode_decomp_char sample_tables c False) [0xC0, 0x62] ys \<and>
     unicode_normalize sample_tables [0xC0, 0x62] UNICODE_NFD = Some (canonical_order cc_of ys)
    \<and> (\<forall>c \<in> set (canonical_order cc_of ys). stable_char (\<lambda>c. unicode_decomp_char sample_tables c False) c)"
  using normalize_nfd_complete [where T = sample_tables and n = UNICODE_NFD and src = "[0xC0, 0x62]"]
    sample_tables_decreasing [where b = False] by simp

text \<open>C38: for the same tables, NFC and NFKC end, and the result is that of composing the ordered
  decomposition into a separate output from its first code point on: writing the output over the
  buffer never loses a code point still to be read. Latin 1 is its own NFC.\<close>

theorem normalize_nfc_composes:
  fixes T :: decomp_tables and n :: UnicodeNormalization
  defines "D \<equiv> \<lambda>c. unicode_decomp_char T c (is_compat n)"
  assumes d: "decreasing rank D" and n: "\<not> is_decomp_only n"
  shows "\<exists>ys. decomposes D src ys \<and> unicode_normalize T src n =
    (if n = UNICODE_NFC \<and> (\<forall>c \<in> set src. c < 0x100) then Some src
     else case canonical_order cc_of ys of
         [] \<Rightarrow> Some []
       | z # zs \<Rightarrow> compose_ref cc_of (compose_pair T) [z] zs)"
proof -
  obtain ys where ys: "to_nfd_rec D src = Some ys" "decomposes D src ys"
    using to_nfd_rec_total [OF d] by blast
  have pick: "(if length (z # zs) \<le> 1 \<or> dec then Some (z # zs) else Option.bind r (\<lambda>(b, k). Some (take k b)))
      = (if zs = [] then Some [z] else map_option (\<lambda>(b, k). take k b) r)"
    if "\<not> dec" for z :: u32 and zs dec and r :: "(u32 list \<times> nat) option"
    using that by (cases r) auto
  have "unicode_normalize T src n = (case canonical_order cc_of ys of
      [] \<Rightarrow> Some [] | z # zs \<Rightarrow> compose_ref cc_of (compose_pair T) [z] zs)"
    if no: "\<not> (n = UNICODE_NFC \<and> (\<forall>c \<in> set src. c < 0x100))"
  proof (cases "canonical_order cc_of ys")
    case (Cons z zs)
    have "unicode_normalize T src n = Option.bind (Some ys) (\<lambda>buf. let buf = sort_cc cc_of buf in
        if length buf \<le> 1 \<or> is_decomp_only n then Some buf
        else Option.bind (compose_loop cc_of (compose_pair T) buf 1 1 (length buf)) (\<lambda>(b, k). Some (take k b)))"
      unfolding unicode_normalize_def if_not_P [OF no] ys(1) [unfolded D_def] by (rule refl)
    also have "\<dots> = (if zs = [] then Some [z] else
        map_option (\<lambda>(b, k). take k b) (compose_loop cc_of (compose_pair T) (z # zs) 1 1 (length (z # zs))))"
      unfolding bind.bind_lunit Let_def sort_cc_canonical Cons by (rule pick [OF n])
    finally have "unicode_normalize T src n = (if zs = [] then Some [z] else
        map_option (\<lambda>(b, k). take k b) (compose_loop cc_of (compose_pair T) (z # zs) 1 1 (length (z # zs))))" .
    moreover have "map_option (\<lambda>(b, k). take k b) (compose_loop cc_of (compose_pair T) (z # zs) 1 1 (length (z # zs)))
        = compose_ref cc_of (compose_pair T) [z] zs"
    proof -
      have "length (z # zs) = length [z] + length ([] :: u32 list) + length zs" "z # zs = [z] @ [] @ zs" by simp_all
      from compose_loop_refines [OF this, of cc_of "compose_pair T"] show ?thesis by (simp only: list.size One_nat_def add_0_right add_0_left add_Suc_right)
    qed
    moreover have "compose_ref cc_of (compose_pair T) [z] zs = Some [z]" if "zs = []" using that by simp
    ultimately have "unicode_normalize T src n = compose_ref cc_of (compose_pair T) [z] zs"
      by (cases "zs = []") (simp_all only: simp_thms if_True if_False)
    then show ?thesis unfolding Cons list.case .
  qed (use ys(1) no in \<open>auto simp: unicode_normalize_def D_def sort_cc_canonical\<close>)
  moreover have "unicode_normalize T src n = Some src" if "n = UNICODE_NFC \<and> (\<forall>c \<in> set src. c < 0x100)"
    unfolding unicode_normalize_def if_P [OF that] by (rule refl)
  ultimately have "unicode_normalize T src n =
      (if n = UNICODE_NFC \<and> (\<forall>c \<in> set src. c < 0x100) then Some src
       else case canonical_order cc_of ys of
           [] \<Rightarrow> Some [] | z # zs \<Rightarrow> compose_ref cc_of (compose_pair T) [z] zs)"
    by (split if_split) blast
  with ys(2) show ?thesis by blast
qed

theorem normalize_nfc_composes_witness:
  "\<exists>ys. decomposes (\<lambda>c. unicode_decomp_char sample_tables c False) [0xC0, 0x300] ys \<and>
     unicode_normalize sample_tables [0xC0, 0x300] UNICODE_NFC =
    (if \<forall>c \<in> set [0xC0, 0x300 :: u32]. c < 0x100 then Some [0xC0, 0x300]
     else case canonical_order cc_of ys of
         [] \<Rightarrow> Some []
       | z # zs \<Rightarrow> compose_ref cc_of (compose_pair sample_tables) [z] zs)"
  using normalize_nfc_composes [where T = sample_tables and n = UNICODE_NFC and src = "[0xC0, 0x300]"]
    sample_tables_decreasing [where b = False] by simp

text \<open>the classes of \<^verbatim>\<open>unicode_get_cc\<close> on the real tables: for every 32-bit code the search
  ends inside the tables, with a class below 256, the sentinel of the composition loop.\<close>

theorem unicode_get_cc_in_range: "\<exists>v. unicode_get_cc c = Some v \<and> v < 256"
  by (rule unicode_get_cc_total)

text \<open>C39: the composition of a syllable without trailing consonant and U+11A7, which is not a
  trailing consonant, is the syllable itself: the second code point is lost.\<close>

theorem compose_pair_drops_11a7:
  assumes "is_hangul c" and "(c - 0xac00) mod 28 = 0"
  shows "compose_pair T c 0x11a7 = Some c"
  using assms by (auto simp: compose_pair_def is_hangul_def word_less_def word_le_def)

theorem compose_pair_drops_11a7_witness:
  "is_hangul 0xac1c \<and> (0xac1c - 0xac00) mod 28 = (0 :: u32) \<and> compose_pair sample_tables 0xac1c 0x11a7 = Some 0xac1c"
  using compose_pair_drops_11a7 [of "0xac1c" sample_tables] by (simp add: is_hangul_def)

end
