(* ===== verification/UnicodeRuns.thy ===== *)
theory UnicodeRuns
  imports UnicodeProps
begin

text \<open>
  The tables of runs of \<^verbatim>\<open>UnicodeProps\<close>: the runs as a list, what a loop over them leaves in a
  range (locale \<open>run_adder\<close>), and an executable check that a table decodes exactly to its
  end without overflow (locale \<open>run_format\<close>), evaluated on the real tables block by block.
\<close>

section \<open>The runs of a table\<close>

function run_list :: "(u8 list \<Rightarrow> nat \<Rightarrow> (u32 \<times> 'v \<times> nat) option) \<Rightarrow> u8 list \<Rightarrow> nat \<Rightarrow> u32 \<Rightarrow>
    (u32 \<times> u32 \<times> 'v) list option" where
  "run_list entry t p c =
     (if p < length t then
        (case entry t p of
           None \<Rightarrow> None
         | Some (n, v, k) \<Rightarrow> map_option ((#) (c, c + n + 1, v)) (run_list entry t (p + 1 + k) (c + n + 1)))
      else Some [])"
  by pat_completeness auto
termination by (relation "measure (\<lambda>(entry, t, p, c). length t - p)") auto

declare run_list.simps [simp del]

text \<open>The runs follow each other, none is empty and none ends above \<open>m\<close>.\<close>

fun runs_ok :: "u32 \<Rightarrow> u32 \<Rightarrow> (u32 \<times> u32 \<times> 'v) list \<Rightarrow> bool" where
  "runs_ok m c [] \<longleftrightarrow> True"
| "runs_ok m c ((a, b, v) # rs) \<longleftrightarrow> a = c \<and> a < b \<and> b \<le> m \<and> runs_ok m b rs"

definition run_max :: u32 where
  "run_max = 0x80000000"

text \<open>The value of a code point, with the start of its run.\<close>

definition run_at :: "(u32 \<times> u32 \<times> 'v) list \<Rightarrow> u32 \<Rightarrow> (u32 \<times> 'v) option" where
  "run_at rs u = map_option (\<lambda>(a, b, v). (a, v)) (find (\<lambda>(a, b, v). a \<le> u \<and> u < b) rs)"

lemma runs_ok_ge: "runs_ok m c rs \<Longrightarrow> (a, b, v) \<in> set rs \<Longrightarrow> c \<le> a \<and> a < b \<and> b \<le> m"
proof (induction m c rs rule: runs_ok.induct)
  case (2 m c a' b' v' rs)
  then show ?case by (auto dest: order.trans [OF order.strict_implies_order])
qed simp

lemma run_at_unique:
  "runs_ok m c rs \<Longrightarrow> (a, b, v) \<in> set rs \<Longrightarrow> a \<le> u \<Longrightarrow> u < b \<Longrightarrow> run_at rs u = Some (a, v)"
proof (induction m c rs rule: runs_ok.induct)
  case (2 m c a' b' v' rs)
  show ?case
  proof (cases "(a, b, v) = (a', b', v')")
    case True
    then show ?thesis using 2 by (simp add: run_at_def)
  next
    case False
    then have "(a, b, v) \<in> set rs" using "2.prems" by auto
    moreover from this have "b' \<le> a" using runs_ok_ge "2.prems"(1) by (metis runs_ok.simps(2))
    ultimately show ?thesis using 2 by (auto simp: run_at_def)
  qed
qed simp

lemma run_at_mem: "run_at rs u = Some (a, v) \<Longrightarrow> \<exists>b. (a, b, v) \<in> set rs \<and> a \<le> u \<and> u < b"
  by (auto simp: run_at_def find_Some_iff dest!: nth_mem)

section \<open>What the loop adds\<close>

lemma cr_in_append: "even (length ps) \<Longrightarrow> cr_in u (ps @ qs) \<longleftrightarrow> cr_in u ps \<or> cr_in u qs"
  by (induction u ps rule: cr_in.induct) auto

text \<open>A body of the loop that, for values satisfying \<open>okv\<close>, appends the points \<open>pts\<close> or
  fails. The points stay inside the run.\<close>

locale run_adder =
  fixes add :: "'v \<Rightarrow> CharRange \<Rightarrow> u32 \<Rightarrow> u32 \<Rightarrow> (int \<times> CharRange) option"
    and pts :: "'v \<Rightarrow> u32 \<Rightarrow> u32 \<Rightarrow> u32 list"
    and okv :: "'v \<Rightarrow> bool"
  assumes add_cases: "okv v \<Longrightarrow> a < b \<Longrightarrow> b \<le> run_max \<Longrightarrow> cr_wf cr \<Longrightarrow>
      \<exists>r cr'. add v cr a b = Some (r, cr') \<and> cr_wf cr' \<and> cr_kept cr r cr' \<and>
        (r = 0 \<and> cr_data cr' = cr_data cr @ pts v a b \<or> r = -1)"
    and pts_ok: "a < b \<Longrightarrow> b \<le> run_max \<Longrightarrow> points_ok (pts v a b) \<and> (\<forall>x \<in> set (pts v a b). a \<le> x \<and> x \<le> b)"
begin

lemma run_loop_adds:
  "run_list entry t p c = Some rs \<Longrightarrow> runs_ok run_max c rs \<Longrightarrow> (\<forall>(a, b, v) \<in> set rs. okv v) \<Longrightarrow> cr_wf cr \<Longrightarrow>
   \<exists>r cr'. run_loop entry add cr t p c = Some (r, cr') \<and> cr_wf cr' \<and> cr_kept cr r cr' \<and>
     (r = 0 \<and> cr_data cr' = cr_data cr @ concat (map (\<lambda>(a, b, v). pts v a b) rs) \<or> r = -1)"
proof (induction entry t p c arbitrary: rs cr rule: run_list.induct)
  case (1 entry t p c)
  show ?case
  proof (cases "p < length t")
    case True
    then obtain n v k where e: "entry t p = Some (n, v, k)"
      using "1.prems"(1) by (auto simp: run_list.simps [of entry t p] split: option.splits)
    obtain rs' where rs: "run_list entry t (p + 1 + k) (c + n + 1) = Some rs'" "rs = (c, c + n + 1, v) # rs'"
      using "1.prems"(1) True e by (auto simp: run_list.simps [of entry t p])
    have ok: "c < c + n + 1" "c + n + 1 \<le> run_max" "runs_ok run_max (c + n + 1) rs'" "okv v"
      using "1.prems"(2,3) rs(2) by auto
    obtain r cr1 where a: "add v cr c (c + n + 1) = Some (r, cr1)" "cr_wf cr1" "cr_kept cr r cr1" "r = 0 \<and> cr_data cr1 = cr_data cr @ pts v c (c + n + 1) \<or> r = -1"
      using add_cases [OF ok(4) ok(1,2) "1.prems"(4)] by blast
    show ?thesis
    proof (cases "r = 0")
      case r0: True
      have "\<forall>(a, b, v) \<in> set rs'. okv v" using "1.prems"(3) rs(2) by simp
      from "1.IH" [OF True e refl refl rs(1) ok(3) this a(2)] obtain r' cr' where
        "run_loop entry add cr1 t (p + 1 + k) (c + n + 1) = Some (r', cr') \<and> cr_wf cr' \<and> cr_kept cr1 r' cr' \<and>
         (r' = 0 \<and> cr_data cr' = cr_data cr1 @ concat (map (\<lambda>(a, b, v). pts v a b) rs') \<or> r' = -1)" by blast
      moreover have "cr_kept cr 0 cr1" using a(3) r0 by simp
      ultimately show ?thesis using True e a(1,4) r0 rs(2) cr_kept_trans [of cr cr1 r' cr']
        by (auto simp: run_loop.simps [of entry add cr])
    qed (use True e a cr_kept_fail [OF a(3)] in \<open>auto simp: run_loop.simps [of entry add cr]\<close>)
  qed (use "1.prems" in \<open>auto simp: run_loop.simps [of entry add cr] run_list.simps [of entry t p]\<close>)
qed

lemma points_ok_runs:
  "runs_ok run_max c rs \<Longrightarrow> points_ok (concat (map (\<lambda>(a, b, v). pts v a b) rs)) \<and>
     (\<forall>x \<in> set (concat (map (\<lambda>(a, b, v). pts v a b) rs)). c \<le> x)"
proof (induction run_max c rs rule: runs_ok.induct)
  case (2 c a b v rs)
  then have "points_ok (pts v a b)" "\<forall>x \<in> set (pts v a b). a \<le> x \<and> x \<le> b" using pts_ok by auto
  with 2 show ?case by (fastforce simp: points_ok_def sorted_append)
qed (simp add: points_ok_def)

lemma cr_in_runs:
  "runs_ok run_max c rs \<Longrightarrow> cr_in u (concat (map (\<lambda>(a, b, v). pts v a b) rs)) \<longleftrightarrow>
     (\<exists>(a, b, v) \<in> set rs. cr_in u (pts v a b))"
proof (induction run_max c rs rule: runs_ok.induct)
  case (2 c a b v rs)
  then have "a < b" "b \<le> run_max" by auto
  then have "even (length (pts v a b))" using pts_ok [of a b v] by (simp add: points_ok_def)
  with 2 show ?case by (simp add: cr_in_append)
qed simp

lemma cr_in_inside:
  assumes "a < b" "b \<le> run_max" "cr_in u (pts v a b)"
  shows "a \<le> u \<and> u < b"
proof -
  have in_hull: "cr_in u ps \<Longrightarrow> \<exists>x \<in> set ps. \<exists>y \<in> set ps. x \<le> u \<and> u < y" for ps
    by (induction u ps rule: cr_in.induct) auto
  then show ?thesis using pts_ok [OF assms(1,2), of v] assms(3) in_hull [OF assms(3)]
    by (meson order.trans order.strict_trans2)
qed

text \<open>The set that the loop leaves, by the value of each code point.\<close>

lemma run_loop_set:
  assumes l: "run_list entry t 0 0 = Some rs" and ok: "runs_ok run_max 0 rs" and v: "\<forall>(a, b, v) \<in> set rs. okv v"
    and wf: "cr_wf cr" and e: "cr_len cr = 0"
  shows "\<exists>r cr'. run_loop entry add cr t 0 0 = Some (r, cr') \<and> cr_wf cr' \<and> cr_kept cr r cr' \<and>
     (r = 0 \<and> points_ok (cr_data cr') \<and>
        (\<forall>u. cr_in u (cr_data cr') \<longleftrightarrow> (\<exists>a b v. (a, b, v) \<in> set rs \<and> a \<le> u \<and> u < b \<and> cr_in u (pts v a b))) \<or> r = -1)"
proof -
  obtain r cr' where r: "run_loop entry add cr t 0 0 = Some (r, cr')" "cr_wf cr'" "cr_kept cr r cr'"
    "r = 0 \<and> cr_data cr' = cr_data cr @ concat (map (\<lambda>(a, b, v). pts v a b) rs) \<or> r = -1"
    using run_loop_adds [OF l ok v wf] by blast
  have "cr_data cr = []" using e by (simp add: cr_data_def)
  then have d: "r = 0 \<Longrightarrow> cr_data cr' = concat (map (\<lambda>(a, b, v). pts v a b) rs)" using r(4) by auto
  have "cr_in u (concat (map (\<lambda>(a, b, v). pts v a b) rs)) \<longleftrightarrow>
      (\<exists>a b v. (a, b, v) \<in> set rs \<and> a \<le> u \<and> u < b \<and> cr_in u (pts v a b))" for u
    unfolding cr_in_runs [OF ok] using runs_ok_ge [OF ok] cr_in_inside by fast
  then have "points_ok (cr_data cr') \<and> (\<forall>u. cr_in u (cr_data cr') \<longleftrightarrow>
      (\<exists>a b v. (a, b, v) \<in> set rs \<and> a \<le> u \<and> u < b \<and> cr_in u (pts v a b)))" if "r = 0"
    using d [OF that] points_ok_runs [OF ok] by presburger
  then show ?thesis using r by blast
qed

end

section \<open>Checking a table\<close>

text \<open>\<open>dec\<close> decodes the first byte and the rest of a table to the length less one and the
  number of bytes used after the first; \<open>run_total\<close> adds the lengths up.\<close>

function run_total :: "(int \<Rightarrow> int list \<Rightarrow> (int \<times> nat) option) \<Rightarrow> int list \<Rightarrow> int \<Rightarrow> int option" where
  "run_total dec [] c = Some c"
| "run_total dec (b # bs) c =
     (case dec b bs of None \<Rightarrow> None | Some (n, k) \<Rightarrow> run_total dec (drop k bs) (c + n + 1))"
  by pat_completeness auto
termination by (relation "measure (\<lambda>(dec, bs, c). length bs)") auto

locale run_format =
  fixes entry :: "u8 list \<Rightarrow> nat \<Rightarrow> (u32 \<times> 'v \<times> nat) option"
    and dec :: "int \<Rightarrow> int list \<Rightarrow> (int \<times> nat) option"
    and okv :: "u8 list \<Rightarrow> 'v \<Rightarrow> bool"
  assumes dec_sound: "p < length t \<Longrightarrow> dec (uint (t ! p)) (map uint (drop (p + 1) t)) = Some (n, k) \<Longrightarrow>
      \<exists>w v. entry t p = Some (w, v, k) \<and> uint w = n \<and> p + 1 + k \<le> length t \<and> okv t v"
    and dec_append: "dec b xs = Some (n, k) \<Longrightarrow> dec b (xs @ ys) = Some (n, k) \<and> k \<le> length xs"
begin

lemma run_total_append:
  "run_total dec xs c = Some c' \<Longrightarrow> run_total dec (xs @ ys) c = run_total dec ys c'"
proof (induction "length xs" arbitrary: xs c rule: less_induct)
  case less
  show ?case
  proof (cases xs)
    case (Cons b bs)
    with less.prems obtain n k where d: "dec b bs = Some (n, k)" by (cases "dec b bs") auto
    then show ?thesis using less.hyps [of "drop k bs" "c + n + 1"] less.prems Cons dec_append [OF d, of ys] by simp
  qed (use less.prems in simp)
qed

lemma run_total_ge:
  "run_total dec (map uint (drop p (t :: u8 list))) c = Some fin \<Longrightarrow> c \<le> fin"
proof (induction "length t - p" arbitrary: p c rule: less_induct)
  case less
  show ?case
  proof (cases "p < length t")
    case True
    then have d: "map uint (drop p t) = uint (t ! p) # map uint (drop (p + 1) t)"
      by (simp flip: Cons_nth_drop_Suc)
    with less.prems obtain n k where e: "dec (uint (t ! p)) (map uint (drop (p + 1) t)) = Some (n, k)"
      by (auto split: option.splits)
    have "run_total dec (map uint (drop (p + 1 + k) t)) (c + n + 1) = Some fin"
      using less.prems d e by (simp add: drop_map [symmetric] add.commute)
    then have "c + n + 1 \<le> fin" using less.hyps [of "p + 1 + k"] True by simp
    moreover obtain w where "uint (w :: u32) = n" using dec_sound [OF True e] by blast
    ultimately show ?thesis using uint_ge_0 [of w] by linarith
  qed (use less.prems in simp)
qed

lemma run_list_checked:
  "run_total dec (map uint (drop p t)) (uint c) = Some fin \<Longrightarrow> fin \<le> uint run_max \<Longrightarrow>
   \<exists>rs. run_list entry t p c = Some rs \<and> runs_ok run_max c rs \<and> (\<forall>(a, b, v) \<in> set rs. okv t v)"
proof (induction "length t - p" arbitrary: p c rule: less_induct)
  case less
  show ?case
  proof (cases "p < length t")
    case True
    then have d: "map uint (drop p t) = uint (t ! p) # map uint (drop (p + 1) t)"
      by (simp flip: Cons_nth_drop_Suc)
    with less.prems obtain n k where e: "dec (uint (t ! p)) (map uint (drop (p + 1) t)) = Some (n, k)"
      by (auto split: option.splits)
    obtain w v where w: "entry t p = Some (w, v, k)" "uint w = n" "okv t v" using dec_sound [OF True e] by blast
    have rest: "run_total dec (map uint (drop (p + 1 + k) t)) (uint c + n + 1) = Some fin"
      using less.prems d e by (simp add: drop_map [symmetric] add.commute)
    then have le: "uint c + uint w + 1 \<le> uint run_max" using run_total_ge [OF rest] less.prems(2) w(2) by simp
    then have u: "uint (c + w + 1) = uint c + uint w + 1"
      by (simp add: run_max_def uint_word_ariths mod_pos_pos_trivial)
    then have "c < c + w + 1" "c + w + 1 \<le> run_max" using le by (simp_all add: word_less_def word_le_def)
    moreover obtain rs where "run_list entry t (p + 1 + k) (c + w + 1) = Some rs" "runs_ok run_max (c + w + 1) rs"
      "\<forall>(a, b, v) \<in> set rs. okv t v"
    proof -
      have "length t - (p + 1 + k) < length t - p" using True by simp
      moreover have "run_total dec (map uint (drop (p + 1 + k) t)) (uint (c + w + 1)) = Some fin"
        using rest u w(2) by simp
      ultimately show thesis using less.hyps [OF _ _ less.prems(2)] that by blast
    qed
    ultimately show ?thesis using True w by (simp add: run_list.simps [of entry t p])
  qed (auto simp: run_list.simps [of entry t p])
qed

end

section \<open>The three formats\<close>

definition var_len_int :: "int list \<Rightarrow> int \<Rightarrow> int \<Rightarrow> int \<Rightarrow> int \<Rightarrow> (int \<times> nat) option" where
  "var_len_int bs n lo hi big =
     (if n < lo then Some (n, 0)
      else if n < hi then (case bs of p0 # _ \<Rightarrow> Some ((n - lo) * 256 + p0 + lo, 1) | _ \<Rightarrow> None)
      else (case bs of p0 # p1 # _ \<Rightarrow> Some ((n - hi) * 65536 + p0 * 256 + p1 + (lo + big), 2) | _ \<Rightarrow> None))"

lemma var_len_int_append:
  "var_len_int xs n lo hi big = Some (m, k) \<Longrightarrow> var_len_int (xs @ ys) n lo hi big = Some (m, k) \<and> k \<le> length xs"
  by (auto simp: var_len_int_def split: if_splits list.splits)

lemma uint_bytes2:
  assumes "uint (n :: u32) < 256" "uint (l :: u32) < 256"
  shows "uint ((push_bit 8 n OR ucast (p0 :: u8)) + l) = uint n * 256 + uint p0 + uint l"
proof -
  have "uint (push_bit 8 n OR ucast p0) = uint n * 256 + uint p0"
    using u8_lt [of p0] assms by (subst uint_shl_or) (simp_all add: uint_u32_of_u8)
  moreover have "0 \<le> uint n * 256 + uint p0 + uint l" "uint n * 256 + uint p0 + uint l < 4294967296"
    using uint_ge_0 [of n] uint_ge_0 [of l] uint_ge_0 [of p0] u8_lt [of p0] assms by linarith+
  ultimately show ?thesis by (simp add: uint_word_ariths mod_pos_pos_trivial)
qed

lemma uint_bytes3:
  assumes "uint (n :: u32) < 256" "uint (l :: u32) < 1048576"
  shows "uint ((push_bit 16 n OR push_bit 8 (ucast (p0 :: u8)) OR ucast (p1 :: u8)) + l)
    = uint n * 65536 + uint p0 * 256 + uint p1 + uint l"
proof -
  have e: "push_bit 16 n OR push_bit 8 (ucast p0) OR ucast p1 = push_bit 8 (push_bit 8 n OR ucast p0) OR (ucast p1 :: u32)"
    by (simp add: push_bit_or ac_simps)
  have 1: "uint (push_bit 8 n OR ucast p0) = uint n * 256 + uint p0"
    using u8_lt [of p0] assms by (subst uint_shl_or) (simp_all add: uint_u32_of_u8)
  have b: "0 \<le> (uint n * 256 + uint p0) * 256 + uint p1 + uint l"
    "(uint n * 256 + uint p0) * 256 + uint p1 + uint l < 4294967296"
    "(uint n * 256 + uint p0) * 256 < 4294967296"
  proof -
    define x where "x = uint n * 256 + uint p0"
    have "0 \<le> x" "x < 65536" unfolding x_def using uint_ge_0 [of n] uint_ge_0 [of p0] u8_lt [of p0] assms(1) by linarith+
    then show "0 \<le> (uint n * 256 + uint p0) * 256 + uint p1 + uint l"
      "(uint n * 256 + uint p0) * 256 + uint p1 + uint l < 4294967296" "(uint n * 256 + uint p0) * 256 < 4294967296"
      unfolding x_def [symmetric] using uint_ge_0 [of l] uint_ge_0 [of p1] u8_lt [of p1] assms(2) by linarith+
  qed
  have "uint (push_bit 8 (push_bit 8 n OR ucast p0) OR ucast p1) = (uint n * 256 + uint p0) * 256 + uint p1"
    using u8_lt [of p1] b(3) by (subst uint_shl_or) (simp_all add: uint_u32_of_u8 1)
  then show ?thesis unfolding e using b(1,2) by (simp add: uint_word_ariths mod_pos_pos_trivial)
qed

lemma var_len_int_sound:
  assumes r: "var_len_int (map uint (drop (p + 1) t)) (uint n) (uint lo) (uint hi) (uint big) = Some (m, k)"
    and b: "uint n < 256" "uint lo < 256" "lo \<le> hi" "uint big < 2 ^ 19"
  shows "\<exists>w. var_len t p n lo hi big = Some (w, k) \<and> uint w = m \<and> (k = 0 \<or> p + k < length t) \<and> uint w < 33554432"
proof -
  have lt: "x < y \<longleftrightarrow> uint x < uint y" for x y :: u32 by (simp add: word_less_def)
  consider "uint n < uint lo" | "uint lo \<le> uint n" "uint n < uint hi" | "uint hi \<le> uint n" by linarith
  then show ?thesis
  proof cases
    case 1
    then show ?thesis using r b by (simp add: var_len_def var_len_int_def lt)
  next
    case 2
    then obtain y ys where y: "map uint (drop (p + 1) t) = y # ys"
      using r by (cases "map uint (drop (p + 1) t)") (auto simp: var_len_int_def)
    have u: "uint (n - lo) = uint n - uint lo" using 2 by (subst uint_minus) (simp_all add: word_le_def)
    have "uint (n - lo) < 256" using u b uint_ge_0 [of lo] by linarith
    note e = uint_bytes2 [OF this b(2), of "t ! (p + 1)"]
    then have "uint ((push_bit 8 (n - lo) OR ucast (t ! (p + 1))) + lo) < 33554432"
      using \<open>uint (n - lo) < 256\<close> b(2) u8_lt [of "t ! (p + 1)"] by linarith
    then show ?thesis using e r 2 drop_uint_Cons [OF y] u unfolding y by (auto simp: var_len_def var_len_int_def lt)
  next
    case 3
    then have n: "\<not> n < lo" "\<not> n < hi" using b(3) by (auto simp: lt word_le_def)
    then obtain y z ys where y: "map uint (drop (p + 1) t) = y # z # ys"
      using r 3 by (cases "map uint (drop (p + 1) t)" rule: remdups_adj.cases) (auto simp: var_len_int_def lt)
    note p1 = drop_uint_Cons [OF y]
    then have p2: "p + 2 < length t" "z = uint (t ! (p + 2))"
      using drop_uint_Cons [of "p + 2" t z ys] by auto
    have u: "uint (n - hi) = uint n - uint hi" using 3 by (subst uint_minus) (simp_all add: word_le_def)
    have u1: "uint (n - hi) < 256" using u b uint_ge_0 [of hi] by linarith
    have l: "uint (lo + big) = uint lo + uint big"
      using b by (simp add: uint_word_ariths mod_pos_pos_trivial)
    have l1: "uint (lo + big) < 1048576" using l b by simp
    note e = uint_bytes3 [OF u1 l1, of "t ! (p + 1)" "t ! (p + 2)"]
    then have "uint ((push_bit 16 (n - hi) OR push_bit 8 (ucast (t ! (p + 1))) OR ucast (t ! (p + 2))) + (lo + big)) < 33554432"
      using u1 l1 u8_lt [of "t ! (p + 1)"] u8_lt [of "t ! (p + 2)"] by linarith
    then show ?thesis
      using e r n p1 p2 u l unfolding y
      by (auto simp: var_len_def var_len_int_def lt)
  qed
qed

definition dec_script :: "int \<Rightarrow> int list \<Rightarrow> (int \<times> nat) option" where
  "dec_script b bs = (case var_len_int bs (b mod 128) 96 112 4096 of
     None \<Rightarrow> None
   | Some (n, k) \<Rightarrow> if b div 128 = 0 then Some (n, k) else if drop k bs = [] then None else Some (n, k + 1))"

definition dec_gc :: "int \<Rightarrow> int list \<Rightarrow> (int \<times> nat) option" where
  "dec_gc b bs =
     (if b div 32 = 7 then
        (case bs of [] \<Rightarrow> None
         | n1 # bs1 \<Rightarrow> map_option (\<lambda>(n, k). (n + 7, k + 1)) (var_len_int bs1 n1 128 192 16384))
      else Some (b div 32, 0))"

definition dec_script_ext :: "int \<Rightarrow> int list \<Rightarrow> (int \<times> nat) option" where
  "dec_script_ext b bs = (case var_len_int bs b 128 192 16384 of
     None \<Rightarrow> None
   | Some (n, k) \<Rightarrow>
       (case drop k bs of
          [] \<Rightarrow> None
        | l # r \<Rightarrow> if l \<le> 0 \<or> drop (nat l - 1) r \<noteq> [] then Some (n, k + 1 + nat l) else None))"

lemma uint_mask_low: "uint ((ucast (b :: u8) :: u32) AND 0x7f) = uint b mod 128"
  "uint ((ucast b :: u32) AND 0x1f) = uint b mod 32"
  using and_mask_int [of "uint b" 7] and_mask_int [of "uint b" 5] by (simp_all add: unsigned_and_eq uint_u32_of_u8)

lemma uint_high_bits: "uint (drop_bit 7 (ucast (b :: u8) :: u32)) = uint b div 128"
  "uint (drop_bit 5 (ucast b :: u32)) = uint b div 32"
  by (simp_all add: uint_drop_bit_u32 uint_u32_of_u8)

lemma drop_uint_nth:
  "drop k (map uint (drop (p + 1) t)) = x # xs \<Longrightarrow>
   p + 1 + k < length t \<and> x = uint (t ! (p + 1 + k)) \<and> xs = map uint (drop (p + 1 + k + 1) t)"
  using drop_uint_Cons [of "p + 1 + k" t x xs] by (simp add: drop_map add.commute)

interpretation script: run_format script_entry dec_script "\<lambda>t v. True"
proof unfold_locales
  fix p n k and t :: "u8 list"
  assume p: "p < length t" and d: "dec_script (uint (t ! p)) (map uint (drop (p + 1) t)) = Some (n, k)"
  let ?b = "ucast (t ! p) :: u32"
  obtain m j where v: "var_len_int (map uint (drop (p + 1) t)) (uint (t ! p) mod 128) 96 112 4096 = Some (m, j)"
    using d by (cases "var_len_int (map uint (drop (p + 1) t)) (uint (t ! p) mod 128) 96 112 4096") (auto simp: dec_script_def)
  moreover have "uint (t ! p) mod 128 < 256" using pos_mod_bound [of 128 "uint (t ! p)"] by linarith
  ultimately obtain w where w: "var_len t p (?b AND 0x7f) 96 112 (push_bit 12 1) = Some (w, j)" "uint w = m"
      "j = 0 \<or> p + j < length t"
    using var_len_int_sound [of p t "?b AND 0x7f" 96 112 "push_bit 12 1" m j] by (auto simp: uint_mask_low)
  have z: "drop_bit 7 ?b = 0 \<longleftrightarrow> uint (t ! p) div 128 = 0"
    by (simp add: word_uint_eq_iff uint_high_bits)
  show "\<exists>w v. script_entry t p = Some (w, v, k) \<and> uint w = n \<and> p + 1 + k \<le> length t \<and> True"
  proof (cases "uint (t ! p) div 128 = 0")
    case True
    then have "n = m" "k = j" using d v by (simp_all add: dec_script_def)
    then show ?thesis using p w z True by (auto simp: script_entry_def)
  next
    case False
    then obtain x xs where x: "drop j (map uint (drop (p + 1) t)) = x # xs" and nk: "n = m" "k = j + 1"
      using d v unfolding dec_script_def by (cases "drop j (map uint (drop (p + 1) t))") (simp_all split: if_splits)
    show ?thesis using drop_uint_nth [OF x] nk p w z False by (simp add: script_entry_def)
  qed
next
  fix b n k and xs ys :: "int list"
  assume "dec_script b xs = Some (n, k)"
  then show "dec_script b (xs @ ys) = Some (n, k) \<and> k \<le> length xs"
    by (auto simp: dec_script_def split: option.splits if_splits dest: var_len_int_append [where ys = ys])
qed

interpretation gc: run_format gc_entry dec_gc "\<lambda>t v. True"
proof unfold_locales
  fix p n k and t :: "u8 list"
  assume p: "p < length t" and d: "dec_gc (uint (t ! p)) (map uint (drop (p + 1) t)) = Some (n, k)"
  let ?b = "ucast (t ! p) :: u32"
  have z: "drop_bit 5 ?b = 7 \<longleftrightarrow> uint (t ! p) div 32 = 7"
    by (simp add: word_uint_eq_iff uint_high_bits)
  show "\<exists>w v. gc_entry t p = Some (w, v, k) \<and> uint w = n \<and> p + 1 + k \<le> length t \<and> True"
  proof (cases "uint (t ! p) div 32 = 7")
    case True
    then obtain x xs where x: "map uint (drop (p + 1) t) = x # xs"
      using d by (cases "map uint (drop (p + 1) t)") (auto simp: dec_gc_def)
    note x1 = drop_uint_Cons [OF x]
    obtain m j where v: "var_len_int xs x 128 192 16384 = Some (m, j)" and nk: "n = m + 7" "k = j + 1"
      using d True x by (auto simp: dec_gc_def)
    have e: "var_len_int (map uint (drop (p + 1 + 1) t)) (uint (ucast (t ! (p + 1)) :: u32)) (uint (128 :: u32))
        (uint (128 + 64 :: u32)) (uint (push_bit 14 1 :: u32)) = Some (m, j)"
      using v x1 by (simp add: uint_u32_of_u8)
    obtain w where w: "var_len t (p + 1) (ucast (t ! (p + 1))) 128 (128 + 64) (push_bit 14 1) = Some (w, j)" "uint w = m"
        "j = 0 \<or> p + 1 + j < length t" "uint w < 33554432"
      using var_len_int_sound [OF e] u8_lt [of "t ! (p + 1)"] by (auto simp: uint_u32_of_u8)
    then have "uint (w + 7) = n" using nk uint_ge_0 [of w] by (simp add: uint_word_ariths mod_pos_pos_trivial)
    then show ?thesis using p x1 w nk z True by (auto simp: gc_entry_def)
  next
    case False
    then show ?thesis using d p z by (auto simp: dec_gc_def gc_entry_def uint_high_bits Let_def)
  qed
next
  fix b n k and xs ys :: "int list"
  assume "dec_gc b xs = Some (n, k)"
  then show "dec_gc b (xs @ ys) = Some (n, k) \<and> k \<le> length xs"
    by (auto simp: dec_gc_def split: option.splits if_splits list.splits dest: var_len_int_append [where ys = ys])
qed

interpretation script_ext: run_format script_ext_entry dec_script_ext "\<lambda>t (q, l). q + l \<le> length t"
proof unfold_locales
  fix p n k and t :: "u8 list"
  assume p: "p < length t" and d: "dec_script_ext (uint (t ! p)) (map uint (drop (p + 1) t)) = Some (n, k)"
  let ?b = "ucast (t ! p) :: u32"
  obtain m j where v: "var_len_int (map uint (drop (p + 1) t)) (uint (t ! p)) 128 192 16384 = Some (m, j)"
    using d by (cases "var_len_int (map uint (drop (p + 1) t)) (uint (t ! p)) 128 192 16384") (auto simp: dec_script_ext_def)
  then obtain w where w: "var_len t p ?b 128 (128 + 64) (push_bit 14 1) = Some (w, j)" "uint w = m"
      "j = 0 \<or> p + j < length t"
    using var_len_int_sound [of p t ?b 128 "128 + 64" "push_bit 14 1" m j] u8_lt [of "t ! p"] by (auto simp: uint_u32_of_u8)
  obtain x xs where x: "drop j (map uint (drop (p + 1) t)) = x # xs" "n = m" "k = j + 1 + nat x"
      "x \<le> 0 \<or> drop (nat x - 1) xs \<noteq> []"
    using d v by (cases "drop j (map uint (drop (p + 1) t))") (auto simp: dec_script_ext_def split: if_splits)
  note x1 = drop_uint_nth [OF x(1)]
  have u: "unat (t ! (p + 1 + j)) = nat x" using x1 by (simp only: nat_uint_eq)
  have "nat x \<le> length t - (p + 1 + j + 1)"
  proof (cases "x \<le> 0")
    case False
    then show ?thesis using x(4) x1 by auto
  qed simp
  then have "p + j + 2 + nat x \<le> length t" using x1 by linarith
  then show "\<exists>w v. script_ext_entry t p = Some (w, v, k) \<and> uint w = n \<and> p + 1 + k \<le> length t \<and>
      (case v of (q, l) \<Rightarrow> q + l \<le> length t)"
    using p w x(2,3) conjunct1 [OF x1] u by (simp add: script_ext_entry_def)
next
  fix b n k and xs ys :: "int list"
  assume d: "dec_script_ext b xs = Some (n, k)"
  then obtain m j where v: "var_len_int xs b 128 192 16384 = Some (m, j)"
    by (cases "var_len_int xs b 128 192 16384") (auto simp: dec_script_ext_def)
  obtain x zs where x: "drop j xs = x # zs" "n = m" "k = j + 1 + nat x" "x \<le> 0 \<or> drop (nat x - 1) zs \<noteq> []"
    using d v by (cases "drop j xs") (auto simp: dec_script_ext_def split: if_splits)
  have "drop j (xs @ ys) = x # zs @ ys" using x(1) var_len_int_append [OF v] by simp
  moreover have "length xs = j + 1 + length zs" using x(1) by (metis add.assoc add.commute length_Cons length_append
        length_take append_take_drop_id min.absorb2 plus_1_eq_Suc var_len_int_append [OF v])
  ultimately show "dec_script_ext b (xs @ ys) = Some (n, k) \<and> k \<le> length xs"
    using x(2-4) var_len_int_append [OF v, of ys] by (auto simp: dec_script_ext_def)
qed

end
