(* ===== verification/UnicodeSets.thy ===== *)
theory UnicodeSets
  imports UnicodeRuns
begin

text \<open>
  The sets that the functions of \<^verbatim>\<open>UnicodeProps\<close> leave on the real tables, pointwise: the general
  category and the script of a code point by lookup, the set of a case mask by
  \<^verbatim>\<open>lre_case_conv\<close>, a program of the stack machine by its value on predicates, and each
  property of \<^verbatim>\<open>unicode_prop\<close> by a formula.
\<close>

section \<open>The real tables decode to their end\<close>

lemma unicode_gc_block_totals:
  "run_total dec_gc (map uint unicode_gc_0) 0 = Some 768"
  "run_total dec_gc (map uint unicode_gc_1) 768 = Some 2045"
  "run_total dec_gc (map uint unicode_gc_2) 2045 = Some 2729"
  "run_total dec_gc (map uint unicode_gc_3) 2729 = Some 3213"
  "run_total dec_gc (map uint unicode_gc_4) 3213 = Some 3872"
  "run_total dec_gc (map uint unicode_gc_5) 3872 = Some 5761"
  "run_total dec_gc (map uint unicode_gc_6) 5761 = Some 6846"
  "run_total dec_gc (map uint unicode_gc_7) 6846 = Some 8072"
  "run_total dec_gc (map uint unicode_gc_8) 8072 = Some 8588"
  "run_total dec_gc (map uint unicode_gc_9) 8588 = Some 11124"
  "run_total dec_gc (map uint unicode_gc_10) 11124 = Some 12318"
  "run_total dec_gc (map uint unicode_gc_11) 12318 = Some 42946"
  "run_total dec_gc (map uint unicode_gc_12) 42946 = Some 43791"
  "run_total dec_gc (map uint unicode_gc_13) 43791 = Some 65277"
  "run_total dec_gc (map uint unicode_gc_14) 65277 = Some 66640"
  "run_total dec_gc (map uint unicode_gc_15) 66640 = Some 68681"
  "run_total dec_gc (map uint unicode_gc_16) 68681 = Some 70286"
  "run_total dec_gc (map uint unicode_gc_17) 70286 = Some 71484"
  "run_total dec_gc (map uint unicode_gc_18) 71484 = Some 73050"
  "run_total dec_gc (map uint unicode_gc_19) 73050 = Some 101641"
  "run_total dec_gc (map uint unicode_gc_20) 101641 = Some 120354"
  "run_total dec_gc (map uint unicode_gc_21) 120354 = Some 126503"
  "run_total dec_gc (map uint unicode_gc_22) 126503 = Some 129402"
  "run_total dec_gc (map uint unicode_gc_23) 129402 = Some 1114112"
  by code_simp+

lemma unicode_gc_total: "run_total dec_gc (map uint unicode_gc_table) 0 = Some 1114112"
  unfolding unicode_gc_table_def map_append
  by (simp only: gc.run_total_append [OF unicode_gc_block_totals(1)]
    gc.run_total_append [OF unicode_gc_block_totals(2)]
    gc.run_total_append [OF unicode_gc_block_totals(3)]
    gc.run_total_append [OF unicode_gc_block_totals(4)]
    gc.run_total_append [OF unicode_gc_block_totals(5)]
    gc.run_total_append [OF unicode_gc_block_totals(6)]
    gc.run_total_append [OF unicode_gc_block_totals(7)]
    gc.run_total_append [OF unicode_gc_block_totals(8)]
    gc.run_total_append [OF unicode_gc_block_totals(9)]
    gc.run_total_append [OF unicode_gc_block_totals(10)]
    gc.run_total_append [OF unicode_gc_block_totals(11)]
    gc.run_total_append [OF unicode_gc_block_totals(12)]
    gc.run_total_append [OF unicode_gc_block_totals(13)]
    gc.run_total_append [OF unicode_gc_block_totals(14)]
    gc.run_total_append [OF unicode_gc_block_totals(15)]
    gc.run_total_append [OF unicode_gc_block_totals(16)]
    gc.run_total_append [OF unicode_gc_block_totals(17)]
    gc.run_total_append [OF unicode_gc_block_totals(18)]
    gc.run_total_append [OF unicode_gc_block_totals(19)]
    gc.run_total_append [OF unicode_gc_block_totals(20)]
    gc.run_total_append [OF unicode_gc_block_totals(21)]
    gc.run_total_append [OF unicode_gc_block_totals(22)]
    gc.run_total_append [OF unicode_gc_block_totals(23)]
    unicode_gc_block_totals(24))

lemma unicode_script_block_totals:
  "run_total dec_script (map uint unicode_script_0) 0 = Some 2045"
  "run_total dec_script (map uint unicode_script_1) 2045 = Some 2769"
  "run_total dec_script (map uint unicode_script_2) 2769 = Some 3287"
  "run_total dec_script (map uint unicode_script_3) 3287 = Some 4688"
  "run_total dec_script (map uint unicode_script_4) 4688 = Some 6688"
  "run_total dec_script (map uint unicode_script_5) 6688 = Some 8293"
  "run_total dec_script (map uint unicode_script_6) 8293 = Some 12336"
  "run_total dec_script (map uint unicode_script_7) 12336 = Some 43715"
  "run_total dec_script (map uint unicode_script_8) 43715 = Some 65490"
  "run_total dec_script (map uint unicode_script_9) 65490 = Some 67808"
  "run_total dec_script (map uint unicode_script_10) 67808 = Some 70112"
  "run_total dec_script (map uint unicode_script_11) 70112 = Some 72152"
  "run_total dec_script (map uint unicode_script_12) 72152 = Some 94031"
  "run_total dec_script (map uint unicode_script_13) 94031 = Some 120134"
  "run_total dec_script (map uint unicode_script_14) 120134 = Some 126579"
  "run_total dec_script (map uint unicode_script_15) 126579 = Some 173790"
  "run_total dec_script (map uint unicode_script_16) 173790 = Some 918000"
  by code_simp+

lemma unicode_script_total: "run_total dec_script (map uint unicode_script_table) 0 = Some 918000"
  unfolding unicode_script_table_def map_append
  by (simp only: script.run_total_append [OF unicode_script_block_totals(1)]
    script.run_total_append [OF unicode_script_block_totals(2)]
    script.run_total_append [OF unicode_script_block_totals(3)]
    script.run_total_append [OF unicode_script_block_totals(4)]
    script.run_total_append [OF unicode_script_block_totals(5)]
    script.run_total_append [OF unicode_script_block_totals(6)]
    script.run_total_append [OF unicode_script_block_totals(7)]
    script.run_total_append [OF unicode_script_block_totals(8)]
    script.run_total_append [OF unicode_script_block_totals(9)]
    script.run_total_append [OF unicode_script_block_totals(10)]
    script.run_total_append [OF unicode_script_block_totals(11)]
    script.run_total_append [OF unicode_script_block_totals(12)]
    script.run_total_append [OF unicode_script_block_totals(13)]
    script.run_total_append [OF unicode_script_block_totals(14)]
    script.run_total_append [OF unicode_script_block_totals(15)]
    script.run_total_append [OF unicode_script_block_totals(16)]
    unicode_script_block_totals(17))

lemma unicode_script_ext_block_totals:
  "run_total dec_script_ext (map uint unicode_script_ext_0) 0 = Some 2405"
  "run_total dec_script_ext (map uint unicode_script_ext_1) 2405 = Some 7393"
  "run_total dec_script_ext (map uint unicode_script_ext_2) 7393 = Some 12337"
  "run_total dec_script_ext (map uint unicode_script_ext_3) 12337 = Some 43249"
  "run_total dec_script_ext (map uint unicode_script_ext_4) 43249 = Some 1114112"
  by code_simp+

lemma unicode_script_ext_total: "run_total dec_script_ext (map uint unicode_script_ext_table) 0 = Some 1114112"
  unfolding unicode_script_ext_table_def map_append
  by (simp only: script_ext.run_total_append [OF unicode_script_ext_block_totals(1)]
    script_ext.run_total_append [OF unicode_script_ext_block_totals(2)]
    script_ext.run_total_append [OF unicode_script_ext_block_totals(3)]
    script_ext.run_total_append [OF unicode_script_ext_block_totals(4)]
    unicode_script_ext_block_totals(5))


definition gc_runs :: "(u32 \<times> u32 \<times> u32) list" where
  "gc_runs = the (run_list gc_entry unicode_gc_table 0 0)"

definition script_runs :: "(u32 \<times> u32 \<times> u32) list" where
  "script_runs = the (run_list script_entry unicode_script_table 0 0)"

definition script_ext_runs :: "(u32 \<times> u32 \<times> (nat \<times> nat)) list" where
  "script_ext_runs = the (run_list script_ext_entry unicode_script_ext_table 0 0)"

lemma gc_runs_ok: "run_list gc_entry unicode_gc_table 0 0 = Some gc_runs" "runs_ok run_max 0 gc_runs"
  using gc.run_list_checked [of 0 unicode_gc_table 0] unicode_gc_total by (auto simp: run_max_def gc_runs_def)

lemma script_runs_ok: "run_list script_entry unicode_script_table 0 0 = Some script_runs" "runs_ok run_max 0 script_runs"
  using script.run_list_checked [of 0 unicode_script_table 0] unicode_script_total
  by (auto simp: run_max_def script_runs_def)

lemma script_ext_runs_ok:
  "run_list script_ext_entry unicode_script_ext_table 0 0 = Some script_ext_runs" "runs_ok run_max 0 script_ext_runs"
  "\<forall>(a, b, (q, l)) \<in> set script_ext_runs. q + l \<le> length unicode_script_ext_table"
  using script_ext.run_list_checked [of 0 unicode_script_ext_table 0] unicode_script_ext_total
  by (auto simp: run_max_def script_ext_runs_def)

section \<open>General categories\<close>

text \<open>The category of a code point, by lookup: in a run of value 31 upper and lower case letters
  alternate. Behind the table there is none.\<close>

definition gc_at :: "u32 \<Rightarrow> nat option" where
  "gc_at u = map_option (\<lambda>(a, v). if v = 31 then (if even (uint u - uint a) then GC_Lu else GC_Ll) else unat v)
     (run_at gc_runs u)"

text \<open>The points of every second code from \<open>c0\<close> on.\<close>

function alt_points :: "u32 \<Rightarrow> u32 \<Rightarrow> u32 list" where
  "alt_points c0 c = (if c0 < c \<and> c \<le> run_max then c0 # (c0 + 1) # alt_points (c0 + 2) c else [])"
  by pat_completeness auto
termination
proof (relation "measure (\<lambda>(c0, c). nat (uint c - uint c0))", goal_cases)
  case (2 c0 c)
  then have "uint c0 < uint c" "uint c \<le> 0x80000000" by (auto simp: word_less_def word_le_def run_max_def)
  then show ?case using uint_ge_0 [of c0] by (simp add: uint_word_ariths mod_pos_pos_trivial)
qed simp

declare alt_points.simps [simp del]

lemma alt_step:
  assumes "c0 < c" "c \<le> run_max"
  shows "uint (c0 + 1) = uint c0 + 1" "uint (c0 + 2) = uint c0 + 2"
proof -
  have "uint c0 < uint c" "uint c \<le> 0x80000000" using assms by (auto simp: word_less_def word_le_def run_max_def)
  then show "uint (c0 + 1) = uint c0 + 1" "uint (c0 + 2) = uint c0 + 2"
    using uint_ge_0 [of c0] by (simp_all add: uint_word_ariths mod_pos_pos_trivial)
qed

lemma alternate_loop_cases:
  "c \<le> run_max \<Longrightarrow> cr_wf cr \<Longrightarrow> \<exists>r cr'. alternate_loop cr c0 c = Some (r, cr') \<and> cr_wf cr' \<and> cr_kept cr r cr' \<and>
     (r = 0 \<and> cr_data cr' = cr_data cr @ alt_points c0 c \<or> r = -1)"
proof (induction c0 c arbitrary: cr rule: alt_points.induct)
  case (1 c0 c)
  show ?case
  proof (cases "c0 < c")
    case True
    obtain r cr1 where a: "cr_add_interval cr c0 (c0 + 1) = Some (r, cr1)" "cr_wf cr1"
      "r = 0 \<and> cr_data cr1 = cr_data cr @ [c0, c0 + 1] \<or> r = -1 \<and> cr1 = cr"
      using cr_add_interval_cases [OF "1.prems"(2)] by blast
    note k = cr_add_interval_kept [OF a(1)]
    show ?thesis
    proof (cases "r = 0")
      case r0: True
      from "1.IH" [OF _ "1.prems"(1) a(2)] True "1.prems"(1) obtain r' cr' where
        ih: "alternate_loop cr1 (c0 + 2) c = Some (r', cr')" "cr_wf cr'" "cr_kept cr1 r' cr'"
         "r' = 0 \<and> cr_data cr' = cr_data cr1 @ alt_points (c0 + 2) c \<or> r' = -1" by blast
      have "alternate_loop cr c0 c = Some (r', cr')"
        using True a(1) r0 ih(1) by (simp add: alternate_loop.simps [of cr])
      moreover have "alt_points c0 c = c0 # (c0 + 1) # alt_points (c0 + 2) c"
        using True "1.prems"(1) by (simp add: alt_points.simps [of c0])
      ultimately show ?thesis using ih a(3) k r0 cr_kept_trans [of cr cr1 r' cr'] by auto
    next
      case False
      then show ?thesis using True a k by (auto simp: alternate_loop.simps [of cr])
    qed
  next
    case False
    then show ?thesis using "1.prems" by (auto simp: alternate_loop.simps [of cr] alt_points.simps [of c0])
  qed
qed

lemma alt_points_ok:
  "c0 \<le> c \<or> alt_points c0 c = [] \<Longrightarrow> points_ok (alt_points c0 c) \<and> (\<forall>x \<in> set (alt_points c0 c). c0 \<le> x \<and> x \<le> c)"
proof (induction c0 c rule: alt_points.induct)
  case (1 c0 c)
  show ?case
  proof (cases "c0 < c \<and> c \<le> run_max")
    case True
    note st = alt_step [of c0 c] 
    have e: "alt_points c0 c = c0 # (c0 + 1) # alt_points (c0 + 2) c" using True by (simp add: alt_points.simps [of c0])
    have le: "c0 \<le> c0 + 1" "c0 + 1 \<le> c0 + 2" "c0 + 1 \<le> c" using st True by (auto simp: word_le_def word_less_def)
    have "c0 + 2 \<le> c \<or> alt_points (c0 + 2) c = []"
      by (cases "c0 + 2 < c") (auto simp: alt_points.simps [of "c0 + 2"])
    then have "points_ok (alt_points (c0 + 2) c) \<and> (\<forall>x \<in> set (alt_points (c0 + 2) c). c0 + 2 \<le> x \<and> x \<le> c)"
      using "1.IH" [OF True] by blast
    then show ?thesis unfolding e points_ok_def using le by (auto intro: order.trans)
  qed (auto simp: alt_points.simps [of c0] points_ok_def)
qed

lemma cr_in_alt_points:
  "c \<le> run_max \<Longrightarrow> cr_in u (alt_points c0 c) \<longleftrightarrow> c0 \<le> u \<and> u < c \<and> even (uint u - uint c0)"
proof (induction c0 c rule: alt_points.induct)
  case (1 c0 c)
  show ?case
  proof (cases "c0 < c")
    case True
    note st = alt_step [OF True "1.prems"]
    have "cr_in u (alt_points c0 c) \<longleftrightarrow> (c0 \<le> u \<and> u < c0 + 1) \<or> c0 + 2 \<le> u \<and> u < c \<and> even (uint u - uint (c0 + 2))"
      using True "1.prems" "1.IH" by (simp add: alt_points.simps [of c0])
    also have "\<dots> \<longleftrightarrow> c0 \<le> u \<and> u < c \<and> even (uint u - uint c0)"
    proof -
      have "uint u = uint c0 \<or> uint u = uint c0 + 1 \<or> uint u < uint c0 \<or> uint c0 + 2 \<le> uint u" by linarith
      then show ?thesis using True st by (elim disjE) (auto simp: word_le_def word_less_def)
    qed
    finally show ?thesis .
  qed (auto simp: alt_points.simps [of c0])
qed

definition gc_pts :: "u32 \<Rightarrow> u32 \<Rightarrow> u32 \<Rightarrow> u32 \<Rightarrow> u32 list" where
  "gc_pts gc_mask v a b =
     (if v = 31 then
        (if bit gc_mask GC_Lu \<and> bit gc_mask GC_Ll then [a, b]
         else if bit gc_mask GC_Lu then alt_points a b
         else if bit gc_mask GC_Ll then alt_points (a + 1) b
         else [])
      else if bit gc_mask (unat v) then [a, b]
      else [])"

lemma mask_bit: "drop_bit n m AND 1 \<noteq> 0 \<longleftrightarrow> bit m n" for m :: u32
  by (simp add: and_one_eq bit_iff_odd_drop_bit odd_iff_mod_2_eq_one)

lemma gc_masks: "gc_mask_of [Suc 0, 2] = 6" "gc_mask_of [2] = 4"
  by code_simp+

lemma bit_6_4: "bit (6 :: int) n \<longleftrightarrow> n = Suc 0 \<or> n = 2" "bit (4 :: int) n \<longleftrightarrow> n = 2"
  by (cases n; cases "n - 1"; cases "n - 2"; auto simp: bit_numeral_rec bit_Suc)+

lemma mask_6:
  fixes m :: u32
  shows "m AND 6 = 0 \<longleftrightarrow> \<not> bit m (Suc 0) \<and> \<not> bit m 2" "m AND 6 = 6 \<longleftrightarrow> bit m (Suc 0) \<and> bit m 2"
    "m AND 4 = 0 \<longleftrightarrow> \<not> bit m 2"
  by (auto simp: bit_eq_iff [where 'a = "32 word"] bit_and_iff bit_6_4
      dest: spec [of _ "Suc 0"] spec [of _ 2])

lemma gc_add_pts:
  "gc_add gc_mask v cr a b =
     (if v = 31 \<and> bit gc_mask 1 \<and> \<not> bit gc_mask 2 then alternate_loop cr a b
      else if v = 31 \<and> bit gc_mask 2 \<and> \<not> bit gc_mask 1 then alternate_loop cr (a + 1) b
      else if gc_pts gc_mask v a b = [] then Some (0, cr) else cr_add_interval cr a b)"
  by (simp add: gc_add_def gc_pts_def gc_masks mask_6 mask_bit b2u_def Let_def)

interpretation gcs: run_adder "gc_add gc_mask" "gc_pts gc_mask" "\<lambda>v. True" for gc_mask
proof unfold_locales
  fix v a b :: u32 and cr
  assume ab: "a < b" "b \<le> run_max" and wf: "cr_wf cr"
  consider "gc_add gc_mask v cr a b = alternate_loop cr a b" "gc_pts gc_mask v a b = alt_points a b"
    | "gc_add gc_mask v cr a b = alternate_loop cr (a + 1) b" "gc_pts gc_mask v a b = alt_points (a + 1) b"
    | "gc_add gc_mask v cr a b = Some (0, cr)" "gc_pts gc_mask v a b = []"
    | "gc_add gc_mask v cr a b = cr_add_interval cr a b" "gc_pts gc_mask v a b = [a, b]"
    by (cases "v = 31"; cases "bit gc_mask (Suc 0)"; cases "bit gc_mask 2"; cases "bit gc_mask (unat v)")
      (simp_all add: gc_add_pts gc_pts_def)
  then show "\<exists>r cr'. gc_add gc_mask v cr a b = Some (r, cr') \<and> cr_wf cr' \<and> cr_kept cr r cr' \<and>
      (r = 0 \<and> cr_data cr' = cr_data cr @ gc_pts gc_mask v a b \<or> r = -1)"
  proof cases
    case 1
    show ?thesis unfolding 1 by (rule alternate_loop_cases [OF ab(2) wf])
  next
    case 2
    show ?thesis unfolding 2 by (rule alternate_loop_cases [OF ab(2) wf])
  next
    case 4
    obtain r cr' where "cr_add_interval cr a b = Some (r, cr')" "cr_wf cr'"
      "r = 0 \<and> cr_data cr' = cr_data cr @ [a, b] \<or> r = -1 \<and> cr' = cr"
      using cr_add_interval_cases [OF wf] by blast
    then show ?thesis unfolding 4 using cr_add_interval_kept by blast
  qed (use wf in simp)
next
  fix v a b :: u32
  assume ab: "a < b" "b \<le> run_max"
  have "a + 1 \<le> b" "a \<le> a + 1" using alt_step [OF ab] ab(1) by (auto simp: word_le_def word_less_def)
  then show "points_ok (gc_pts gc_mask v a b) \<and> (\<forall>x \<in> set (gc_pts gc_mask v a b). a \<le> x \<and> x \<le> b)"
  proof -
    have A: "points_ok (alt_points a b)" "\<forall>x \<in> set (alt_points a b). a \<le> x \<and> x \<le> b"
      using alt_points_ok [OF disjI1 [OF order.strict_implies_order [OF ab(1)]]] by blast+
    have B: "points_ok (alt_points (a + 1) b)" "\<forall>x \<in> set (alt_points (a + 1) b). a + 1 \<le> x \<and> x \<le> b"
      using alt_points_ok [OF disjI1 [OF \<open>a + 1 \<le> b\<close>]] by blast+
    then have "\<forall>x \<in> set (alt_points (a + 1) b). a \<le> x"
      using order.trans [OF \<open>a \<le> a + 1\<close>] by blast
    note B = B(1) this B(2)
    have C: "points_ok [a, b]" "\<forall>x \<in> set [a, b]. a \<le> x \<and> x \<le> b" "points_ok []"
      using ab(1) by (simp_all add: points_ok_def)
    show ?thesis unfolding gc_pts_def by (simp only: split: if_split) (use A B C in simp)
  qed
qed

lemma gc_pts_in:
  assumes ab: "a < b" "b \<le> run_max" and u: "a \<le> u" "u < b"
  shows "cr_in u (gc_pts gc_mask v a b) \<longleftrightarrow>
    bit gc_mask (if v = 31 then (if even (uint u - uint a) then GC_Lu else GC_Ll) else unat v)"
proof -
  have s: "uint (a + 1) = uint a + 1" using alt_step [OF ab] by simp
  have o: "(a + 1 \<le> u \<and> even (uint u - uint (a + 1))) \<longleftrightarrow> odd (uint u - uint a)"
    using u(1) s by (cases "uint u = uint a") (auto simp: word_le_def)
  show ?thesis
    using cr_in_alt_points [OF ab(2), of u a] cr_in_alt_points [OF ab(2), of u "a + 1"] u o
    by (auto simp: gc_pts_def)
qed

text \<open>What a function that fills an empty range promises: it stays in its tables, keeps the range
  well formed, fails with -1 only when the allocator does, and leaves the set \<open>S\<close>.\<close>

definition fills :: "(CharRange \<Rightarrow> (int \<times> CharRange) option) \<Rightarrow> (u32 \<Rightarrow> bool) \<Rightarrow> bool" where
  "fills f S \<longleftrightarrow> (\<forall>cr. cr_wf cr \<longrightarrow> cr_len cr = 0 \<longrightarrow>
     (\<exists>r cr'. f cr = Some (r, cr') \<and> cr_wf cr' \<and> cr_kept cr r cr' \<and>
        (r = 0 \<and> points_ok (cr_data cr') \<and> (\<forall>u < UINT32_MAX. cr_in u (cr_data cr') = S u) \<or> r = -1)))"

lemma fillsI:
  assumes "\<And>cr. cr_wf cr \<Longrightarrow> cr_len cr = 0 \<Longrightarrow>
     \<exists>r cr'. f cr = Some (r, cr') \<and> cr_wf cr' \<and> cr_kept cr r cr' \<and>
        (r = 0 \<and> points_ok (cr_data cr') \<and> (\<forall>u. cr_in u (cr_data cr') = S u) \<or> r = -1)"
  shows "fills f S"
  using assms unfolding fills_def by meson

lemma gc_fills: "fills (\<lambda>cr. unicode_general_category1 cr gc_mask) (\<lambda>u. \<exists>g. gc_at u = Some g \<and> bit gc_mask g)"
proof (rule fillsI)
  fix cr assume wf: "cr_wf cr" and e: "cr_len cr = 0"
  have S: "(\<exists>a b v. (a, b, v) \<in> set gc_runs \<and> a \<le> u \<and> u < b \<and> cr_in u (gc_pts gc_mask v a b)) \<longleftrightarrow>
      (\<exists>g. gc_at u = Some g \<and> bit gc_mask g)" for u
  proof (cases "run_at gc_runs u")
    case None
    then have "\<not> (a \<le> u \<and> u < b)" if "(a, b, v) \<in> set gc_runs" for a b v
      using run_at_unique [OF gc_runs_ok(2) that] by auto
    then show ?thesis using None by (auto simp: gc_at_def)
  next
    case (Some av)
    obtain a v where av: "av = (a, v)" by (metis surj_pair)
    obtain b where b: "(a, b, v) \<in> set gc_runs" "a \<le> u" "u < b" using run_at_mem [OF Some [unfolded av]] by blast
    note ab = runs_ok_ge [OF gc_runs_ok(2) b(1)]
    have "(a', b', v') = (a', b', v) \<and> a' = a" if "(a', b', v') \<in> set gc_runs" "a' \<le> u" "u < b'" for a' b' v'
      using run_at_unique [OF gc_runs_ok(2) that] Some av by simp
    moreover have "cr_in u (gc_pts gc_mask v a b') \<longleftrightarrow> cr_in u (gc_pts gc_mask v a b)" if "(a, b', v) \<in> set gc_runs" "u < b'" for b'
      using gc_pts_in [of a b' u gc_mask v] gc_pts_in [of a b u gc_mask v] ab b(2,3) that runs_ok_ge [OF gc_runs_ok(2) that(1)]
      by simp
    ultimately have "(\<exists>a b v. (a, b, v) \<in> set gc_runs \<and> a \<le> u \<and> u < b \<and> cr_in u (gc_pts gc_mask v a b)) \<longleftrightarrow>
        cr_in u (gc_pts gc_mask v a b)" using b by blast
    then show ?thesis using gc_pts_in [of a b u gc_mask v] ab b(2,3) Some av by (simp add: gc_at_def)
  qed
  show "\<exists>r cr'. unicode_general_category1 cr gc_mask = Some (r, cr') \<and> cr_wf cr' \<and> cr_kept cr r cr' \<and>
      (r = 0 \<and> points_ok (cr_data cr') \<and>
        (\<forall>u. cr_in u (cr_data cr') = (\<exists>g. gc_at u = Some g \<and> bit gc_mask g)) \<or> r = -1)"
    using gcs.run_loop_set [OF gc_runs_ok _ wf e, of gc_mask] unfolding S
    by (auto simp: unicode_general_category1_def)
qed

section \<open>Scripts\<close>

definition script_at :: "u32 \<Rightarrow> u32 option" where
  "script_at u = map_option snd (run_at script_runs u)"

text \<open>The scripts that the extension table lists for a code point.\<close>

definition ext_scripts_at :: "u32 \<Rightarrow> u32 list" where
  "ext_scripts_at u = (case run_at script_ext_runs u of
     None \<Rightarrow> [] | Some (_, (q, l)) \<Rightarrow> map ucast (take l (drop q unicode_script_ext_table)))"

lemma run_set_at:
  assumes ok: "runs_ok run_max 0 rs"
  shows "(\<exists>a b v. (a, b, v) \<in> set rs \<and> a \<le> u \<and> u < b \<and> cr_in u (if P v then [a, b] else [])) \<longleftrightarrow>
    (\<exists>a v. run_at rs u = Some (a, v) \<and> P v)"
proof
  assume "\<exists>a b v. (a, b, v) \<in> set rs \<and> a \<le> u \<and> u < b \<and> cr_in u (if P v then [a, b] else [])"
  then obtain a b v where m: "(a, b, v) \<in> set rs" "a \<le> u" "u < b" "cr_in u (if P v then [a, b] else [])" by blast
  then have "P v" by (cases "P v") auto
  then show "\<exists>a v. run_at rs u = Some (a, v) \<and> P v" using run_at_unique [OF ok m(1-3)] by blast
next
  assume "\<exists>a v. run_at rs u = Some (a, v) \<and> P v"
  then obtain a v where av: "run_at rs u = Some (a, v)" and m: "P v" by blast
  obtain b where "(a, b, v) \<in> set rs" "a \<le> u" "u < b" using run_at_mem [OF av] by blast
  note m = m this
  then show "\<exists>a b v. (a, b, v) \<in> set rs \<and> a \<le> u \<and> u < b \<and> cr_in u (if P v then [a, b] else [])"
    by (intro exI [of _ a] exI [of _ b] exI [of _ v]) simp
qed

text \<open>A body that adds the whole run or nothing.\<close>

lemma add_or_skip:
  assumes wf: "cr_wf cr" and f: "f = (if P then cr_add_interval cr a b else Some (0, cr))"
  shows "\<exists>r cr'. f = Some (r, cr') \<and> cr_wf cr' \<and> cr_kept cr r cr' \<and>
      (r = 0 \<and> cr_data cr' = cr_data cr @ (if P then [a, b] else []) \<or> r = -1)"
proof (cases P)
  case True
  obtain r cr' where "cr_add_interval cr a b = Some (r, cr')" "cr_wf cr'"
    "r = 0 \<and> cr_data cr' = cr_data cr @ [a, b] \<or> r = -1 \<and> cr' = cr"
    using cr_add_interval_cases [OF wf] by blast
  then show ?thesis using cr_add_interval_kept True f by auto
qed (use wf f in simp)

lemma skip_points: "a < b \<Longrightarrow> points_ok (if P then [a, b] else []) \<and> (\<forall>x \<in> set (if P then [a, b] else []). a \<le> x \<and> x \<le> b)"
  for a b :: u32 by (auto simp: points_ok_def)

interpretation scripts: run_adder "script_add idx" "\<lambda>v a b. if v = idx then [a, b] else []" "\<lambda>v. True" for idx
  by unfold_locales (use add_or_skip skip_points in \<open>auto simp: script_add_def\<close>)

lemma ext_has_spec:
  "q + l \<le> length t \<Longrightarrow> i \<le> l \<Longrightarrow> ext_has t q i l idx = Some (idx \<in> set (map ucast (drop i (take l (drop q t)))))"
proof (induction t q i l idx rule: ext_has.induct)
  case (1 t q i l idx)
  show ?case
  proof (cases "i < l")
    case True
    then have "drop i (take l (drop q t)) = t ! (q + i) # drop (i + 1) (take l (drop q t))"
      using "1.prems" by (subst Cons_nth_drop_Suc [symmetric]) auto
    moreover have "q + i < length t" using True "1.prems" by simp
    ultimately show ?thesis using "1.IH" [OF True] True "1.prems" by (auto simp: ext_has.simps [of t q i])
  next
    case False
    then show ?thesis using "1.prems" by (subst ext_has.simps) simp
  qed
qed

text \<open>Which runs of the extension table the loop selects.\<close>

definition ext_selects :: "bool \<Rightarrow> u32 \<Rightarrow> nat \<times> nat \<Rightarrow> bool" where
  "ext_selects is_common idx = (\<lambda>(q, l). if is_common then l \<noteq> 0
     else idx \<in> set (map ucast (take l (drop q unicode_script_ext_table))))"

interpretation script_exts: run_adder "script_ext_add unicode_script_ext_table is_common idx"
  "\<lambda>v a b. if ext_selects is_common idx v then [a, b] else []"
  "\<lambda>(q, l). q + l \<le> length unicode_script_ext_table" for is_common idx
proof unfold_locales
  fix v :: "nat \<times> nat" and a b :: u32 and cr
  assume v: "case v of (q, l) \<Rightarrow> q + l \<le> length unicode_script_ext_table" and wf: "cr_wf cr"
  obtain q l where ql: "v = (q, l)" by (metis surj_pair)
  show "\<exists>r cr'. script_ext_add unicode_script_ext_table is_common idx v cr a b = Some (r, cr') \<and> cr_wf cr' \<and>
      cr_kept cr r cr' \<and> (r = 0 \<and> cr_data cr' = cr_data cr @ (if ext_selects is_common idx v then [a, b] else []) \<or> r = -1)"
    by (rule add_or_skip [OF wf]) (use v ext_has_spec [of q l unicode_script_ext_table 0 idx] in \<open>simp add: ql script_ext_add_def ext_selects_def\<close>)
qed (use skip_points in blast)

lemma scripts_fill: "fills (\<lambda>cr. run_loop script_entry (script_add idx) cr unicode_script_table 0 0) (\<lambda>u. script_at u = Some idx)"
proof -
  have "(\<exists>a b v. (a, b, v) \<in> set script_runs \<and> a \<le> u \<and> u < b \<and> cr_in u (if v = idx then [a, b] else []))
      \<longleftrightarrow> script_at u = Some idx" for u
    unfolding run_set_at [OF script_runs_ok(2)] by (auto simp: script_at_def)
  note S = scripts.run_loop_set [OF script_runs_ok, of _ idx, unfolded this]
  show ?thesis by (rule fillsI) (rule S; simp)
qed

lemma script_exts_fill: "fills (\<lambda>cr. run_loop script_ext_entry (script_ext_add unicode_script_ext_table is_common idx) cr
    unicode_script_ext_table 0 0) (\<lambda>u. if is_common then ext_scripts_at u \<noteq> [] else idx \<in> set (ext_scripts_at u))"
proof -
  have "(\<exists>a b v. (a, b, v) \<in> set script_ext_runs \<and> a \<le> u \<and> u < b \<and> cr_in u (if ext_selects is_common idx v then [a, b] else []))
      \<longleftrightarrow> (\<exists>a v. run_at script_ext_runs u = Some (a, v) \<and> ext_selects is_common idx v)" for u
    by (rule run_set_at [OF script_ext_runs_ok(2)])
  also have "(\<exists>a v. run_at script_ext_runs u = Some (a, v) \<and> ext_selects is_common idx v) \<longleftrightarrow>
      (if is_common then ext_scripts_at u \<noteq> [] else idx \<in> set (ext_scripts_at u))" for u
  proof (cases "run_at script_ext_runs u")
    case (Some x)
    obtain a q l where x: "x = (a, (q, l))" by (metis surj_pair)
    then obtain b where "(a, b, (q, l)) \<in> set script_ext_runs" using run_at_mem [OF Some [unfolded x]] by blast
    then have "q + l \<le> length unicode_script_ext_table" using script_ext_runs_ok(3) by auto
    then have "take l (drop q unicode_script_ext_table) = [] \<longleftrightarrow> l = 0" by auto
    then show ?thesis using Some x by (simp add: ext_selects_def ext_scripts_at_def)
  qed (simp add: ext_scripts_at_def)
  finally have S: "(\<exists>a b v. (a, b, v) \<in> set script_ext_runs \<and> a \<le> u \<and> u < b \<and>
      cr_in u (if ext_selects is_common idx v then [a, b] else []))
      \<longleftrightarrow> (if is_common then ext_scripts_at u \<noteq> [] else idx \<in> set (ext_scripts_at u))" for u .
  note S = script_exts.run_loop_set [OF script_ext_runs_ok, of _ is_common idx, unfolded S]
  show ?thesis by (rule fillsI) (rule S; simp)
qed

end
