(* ===== verification/UnicodePropSem.thy ===== *)
theory UnicodePropSem
  imports UnicodeSets
begin

text \<open>
  The search of a name in a table of groups, and the sets that \<^verbatim>\<open>unicode_prop1\<close> leaves: the
  properties that have a table of run lengths, pointwise, with the ends of the tables.
\<close>

section \<open>Names\<close>

function split_comma :: "string \<Rightarrow> string list" where
  "split_comma s = takeWhile (\<lambda>c. c \<noteq> CHR '','') s #
     (case dropWhile (\<lambda>c. c \<noteq> CHR '','') s of [] \<Rightarrow> [] | _ # r \<Rightarrow> split_comma r)"
  by pat_completeness auto
termination
proof (relation "measure length", goal_cases)
  case (2 s c r)
  then show ?case using length_dropWhile_le [of "\<lambda>c. c \<noteq> CHR '',''" s] by simp
qed simp

declare split_comma.simps [simp del]

text \<open>The position of the first group that contains a name.\<close>

fun name_index :: "string list \<Rightarrow> string \<Rightarrow> int \<Rightarrow> int" where
  "name_index [] name pos = -1"
| "name_index (s # ss) name pos = (if name \<in> set (split_comma s) then pos else name_index ss name (pos + 1))"

lemma drop_Cons_rd:
  "drop k t = x # xs \<Longrightarrow> rd t k = Some x \<and> k < length t \<and> t ! k = x \<and> drop (k + 1) t = xs"
  by (cases "k < length t") (simp_all flip: Cons_nth_drop_Suc)

lemma name_span_spec:
  "drop (p + len) t = w @ x # rest \<Longrightarrow> x = CHR '','' \<or> x = CHR 0x00 \<Longrightarrow> \<forall>c \<in> set w. c \<noteq> CHR '','' \<and> c \<noteq> CHR 0x00 \<Longrightarrow>
   name_span t p len = Some (len + length w, x = CHR '','')"
proof (induction w arbitrary: len)
  case Nil
  then have "rd t (p + len) = Some x" using drop_Cons_rd [of "p + len" t x rest] by simp
  then show ?case using Nil.prems(2) by (auto simp: name_span.simps [of t p len])
next
  case (Cons c w)
  note d = drop_Cons_rd [of "p + len" t c "w @ x # rest"]
  have "drop (p + (len + 1)) t = w @ x # rest" using d Cons.prems(1) by (simp add: add.assoc)
  from Cons.IH [OF this] show ?case using Cons.prems d by (simp add: name_span.simps [of t p len])
qed

lemma split_comma_cases:
  obtains w where "s = w" "\<forall>c \<in> set w. c \<noteq> CHR '',''" "split_comma s = [w]"
  | w r where "s = w @ CHR '','' # r" "\<forall>c \<in> set w. c \<noteq> CHR '',''" "split_comma s = w # split_comma r"
proof (cases "dropWhile (\<lambda>c. c \<noteq> CHR '','') s")
  case Nil
  then have "\<forall>c \<in> set s. c \<noteq> CHR '',''" by (simp add: dropWhile_eq_Nil_conv)
  moreover from this have "split_comma s = [s]" using Nil by (simp add: split_comma.simps [of s] takeWhile_eq_all_conv [THEN iffD2] del: dropWhile_eq_Nil_conv)
  ultimately show ?thesis using that(1) by blast
next
  case (Cons x r)
  then have "x = CHR '',''" using hd_dropWhile [of "\<lambda>c. c \<noteq> CHR '',''" s] by simp
  with Cons have "s = takeWhile (\<lambda>c. c \<noteq> CHR '','') s @ CHR '','' # r" by (metis takeWhile_dropWhile_id)
  moreover have "\<forall>c \<in> set (takeWhile (\<lambda>c. c \<noteq> CHR '','') s). c \<noteq> CHR '',''" using set_takeWhileD [of _ "\<lambda>c. c \<noteq> CHR '',''" s] by blast
  moreover have "split_comma s = takeWhile (\<lambda>c. c \<noteq> CHR '','') s # split_comma r"
    using Cons by (simp add: split_comma.simps [of s])
  ultimately show ?thesis by (rule that(2))
qed

lemma name_inner_spec:
  "CHR 0x00 \<notin> set s \<Longrightarrow> drop p t = s @ CHR 0x00 # rest \<Longrightarrow>
   name_inner t name p pos =
     (if name \<in> set (split_comma s) then Some pos else name_outer t name (p + length s + 1) (pos + 1))"
proof (induction "length s" arbitrary: s p rule: less_induct)
  case less
  show ?case
  proof (rule split_comma_cases [of s])
    fix w assume s: "s = w" "\<forall>c \<in> set w. c \<noteq> CHR '',''" "split_comma s = [w]"
    have "name_span t p 0 = Some (length w, False)"
      using name_span_spec [of p 0 t w "CHR 0x00" rest] less.prems s by auto
    then show ?thesis using s less.prems by (auto simp: name_inner.simps [of t name p])
  next
    fix w r assume s: "s = w @ CHR '','' # r" "\<forall>c \<in> set w. c \<noteq> CHR '',''" "split_comma s = w # split_comma r"
    have d: "drop p t = w @ CHR '','' # (r @ CHR 0x00 # rest)" using less.prems s by simp
    have n: "name_span t p 0 = Some (length w, True)"
      using name_span_spec [of p 0 t w "CHR '',''" "r @ CHR 0x00 # rest"] less.prems s d by auto
    have "drop (p + length w + 1) t = drop (length w + 1) (drop p t)" by (simp add: add.commute add.left_commute)
    also have "\<dots> = r @ CHR 0x00 # rest" unfolding d by simp
    finally have "name_inner t name (p + length w + 1) pos =
        (if name \<in> set (split_comma r) then Some pos else name_outer t name (p + length w + 1 + length r + 1) (pos + 1))"
      using less.hyps [of r "p + length w + 1"] less.prems(1) s(1) by simp
    then show ?thesis using n s d by (auto simp: name_inner.simps [of t name p] add.assoc)
  qed
qed

lemma name_outer_spec:
  "drop p t = c_strings ss \<Longrightarrow> \<forall>s \<in> set ss. s \<noteq> [] \<and> CHR 0x00 \<notin> set s \<Longrightarrow>
   name_outer t name p pos = Some (name_index ss name pos)"
proof (induction ss arbitrary: p pos)
  case Nil
  then have "rd t p = Some (CHR 0x00)" using drop_Cons_rd [of p t "CHR 0x00" "[]"] by (simp add: c_strings_def)
  then show ?case by (simp add: name_outer.simps [of t name p])
next
  case (Cons s ss)
  have d: "drop p t = s @ CHR 0x00 # c_strings ss" using Cons.prems(1) by (simp add: c_strings_def)
  obtain x xs where s: "s = x # xs" using Cons.prems(2) by (cases s) auto
  have "rd t p = Some x" using drop_Cons_rd [of p t x "xs @ CHR 0x00 # c_strings ss"] d s by simp
  then have o: "name_outer t name p pos = name_inner t name p pos"
    using s Cons.prems(2) by (auto simp: name_outer.simps [of t name p])
  have "drop (p + length s + 1) t = drop (length s + 1) (drop p t)" by (simp add: add.commute add.left_commute)
  also have "\<dots> = c_strings ss" unfolding d by simp
  finally have "name_outer t name (p + length s + 1) (pos + 1) = Some (name_index ss name (pos + 1))"
    using Cons.IH Cons.prems(2) by simp
  then show ?case using name_inner_spec [OF _ d, of name pos] o Cons.prems(2) by simp
qed

lemma unicode_find_name_spec:
  "\<forall>s \<in> set ss. s \<noteq> [] \<and> CHR 0x00 \<notin> set s \<Longrightarrow> unicode_find_name (c_strings ss) name = Some (name_index ss name 0)"
  unfolding unicode_find_name_def by (rule name_outer_spec) simp_all

lemma name_index_bounds:
  "name_index ss name pos = -1 \<or> pos \<le> name_index ss name pos \<and> name_index ss name pos < pos + int (length ss)"
  by (induction ss name pos rule: name_index.induct) auto

section \<open>The property tables\<close>

lemma add_runs_kept: "add_runs cr ls c st = Some (r, cr', c', st') \<Longrightarrow> cr_kept cr r cr'"
proof (induction cr ls c st arbitrary: r rule: add_runs.induct)
  case (2 cr l ls c st)
  show ?case
  proof (cases st)
    case True
    then obtain q cr1 where q: "cr_add_interval cr c (c + l) = Some (q, cr1)"
      using "2.prems" by (auto simp: Let_def split: bind_splits)
    note k = cr_add_interval_kept [OF q]
    show ?thesis
    proof (cases "q = 0")
      case q0: True
      then have "cr_kept cr1 r cr'" using "2.IH"(1) [OF refl True] "2.prems" True q by (simp add: Let_def)
      then show ?thesis using k q0 by (auto intro: cr_kept_trans)
    next
      case False
      then show ?thesis using "2.prems" True q cr_kept_fail [OF k] by (auto simp: Let_def)
    qed
  qed (use 2 in \<open>simp add: Let_def\<close>)
qed simp

lemma prop1_loop_kept: "prop1_loop cr t p c st = Some (r, cr') \<Longrightarrow> cr_kept cr r cr'"
proof (induction cr t p c st arbitrary: r rule: prop1_loop.induct)
  case (1 cr t p c st)
  show ?case
  proof (cases "p < length t")
    case True
    then obtain ls p' q cr1 c1 st1 where a: "run_lens t p = Some (ls, p')" "add_runs cr ls c st = Some (q, cr1, c1, st1)"
      using "1.prems" by (auto simp: prop1_loop.simps [of cr t p] split: option.splits)
    note k = add_runs_kept [OF a(2)]
    show ?thesis
    proof (cases "q = 0")
      case q0: True
      then have "prop1_loop cr1 t p' c1 st1 = Some (r, cr')" using "1.prems" True a by (simp add: prop1_loop.simps [of cr t p])
      then have "cr_kept cr1 r cr'" using "1.IH" [OF True a(1) refl a(2) refl refl refl] q0 by simp
      then show ?thesis using k q0 by (auto intro: cr_kept_trans)
    next
      case False
      then show ?thesis using "1.prems" True a cr_kept_fail [OF k] by (simp add: prop1_loop.simps [of cr t p])
    qed
  qed (use "1.prems" in \<open>simp add: prop1_loop.simps [of cr t p]\<close>)
qed

lemma prop1_fills:
  assumes c: "check_runs (map uint t) 0 0 False [] fin" and f: "fin < 2 ^ 32"
  shows "fills (\<lambda>cr. unicode_prop1 cr t) (table_mem t)"
proof (rule fillsI)
  fix cr assume wf: "cr_wf cr" and e: "cr_len cr = 0"
  have B: "points_canon (boundaries t 0 0)"
    using check_runs_sound [where t = t and p = 0 and code = 0 and st = False and es = "[]" and fin = fin] c f
    by (auto simp: points_canon_def)
  have "False = odd (length (boundaries t 0 0))" using B by (simp add: points_canon_def)
  from prop1_loop_spec [OF _ wf this, of 0 0 False "[]" fin] c obtain r cr' where
    r: "prop1_loop cr t 0 0 False = Some (r, cr')" "cr_wf cr'"
      "r = 0 \<and> cr_data cr' = cr_data cr @ open_points False 0 (boundaries t 0 0) \<or> r = -1" by auto
  have "cr_data cr = []" using e by (simp add: cr_data_def)
  then show "\<exists>r cr'. unicode_prop1 cr t = Some (r, cr') \<and> cr_wf cr' \<and> cr_kept cr r cr' \<and>
        (r = 0 \<and> points_ok (cr_data cr') \<and> (\<forall>u. cr_in u (cr_data cr') = table_mem t u) \<or> r = -1)"
    using r prop1_loop_kept [OF r(1)] points_canon_ok [OF B]
    unfolding unicode_prop1_def table_mem_def cr_in_parity [OF points_canon_ok [OF B], symmetric]
    by (simp add: open_points_def) metis
qed

text \<open>Every property table decodes to its end, outside the set: a walk over the bytes alone.\<close>

fun runs_end :: "int list \<Rightarrow> int \<Rightarrow> bool \<Rightarrow> (int \<times> bool) option" where
  "runs_end [] c st = Some (c, st)"
| "runs_end (b # bs) c st =
     (if b < 64 then runs_end bs (c + (b div 8 + b mod 8 + 2)) st
      else if b \<ge> 128 then runs_end bs (c + (b - 127)) (\<not> st)
      else if b < 96 then (case bs of [] \<Rightarrow> None | p0 # bs \<Rightarrow> runs_end bs (c + ((b - 64) * 256 + p0 + 1)) (\<not> st))
      else (case bs of p0 # p1 # bs \<Rightarrow> runs_end bs (c + ((b - 96) * 65536 + p0 * 256 + p1 + 1)) (\<not> st) | _ \<Rightarrow> None))"

lemma runs_end_check: "runs_end bs c st = Some (fin, False) \<Longrightarrow> check_runs bs p c st [] fin"
  by (induction bs c st arbitrary: p rule: runs_end.induct)
    (auto simp: check_runs.simps [of "_ # _"] check_runs.simps [of "[]"] run_lens_int_def add.assoc add.commute add.left_commute
      split: if_splits list.splits)

lemma prop_tables_end:
  "list_all2 (\<lambda>t fin. runs_end (map uint t) 0 False = Some (fin, False)) unicode_prop_table
    [65382, 126652, 127370, 43872, 127370, 917632, 921600, 12445, 6619, 69838, 918000, 65440,
    65151, 8189, 64280, 921600, 103, 8298, 69294, 917506, 125259, 125255, 65351, 12284, 12276,
    201547, 8206, 43709, 1114112, 65095, 8234, 65380, 12246, 127488, 121481, 120468, 121483,
    201547, 918000, 12289, 120772, 129751, 917632, 128000, 129502, 129751, 131070, 921600, 201547,
    918000]"
  unfolding unicode_prop_table_def list_all2_Cons list_all2_Nil
  by (intro conjI; code_simp)

end
