(* ===== verification/UnicodeCase1.thy ===== *)
theory UnicodeCase1
  imports UnicodeSets
begin

text \<open>
  The set that \<^verbatim>\<open>unicode_case1\<close> leaves: the code points that one of the conversions of the
  mask changes, as \<^verbatim>\<open>lre_case_conv\<close> computes it from the same table.
\<close>

section \<open>When a run changes its code points\<close>

text \<open>Whether conversion \<open>t\<close> changes the code point number \<open>k\<close> of a run of type \<open>ty\<close>.\<close>

definition changes :: "u32 \<Rightarrow> u32 \<Rightarrow> int \<Rightarrow> bool" where
  "changes ty t k =
     (if ty = 0 then t = 0
      else if ty = 1 then t = 1
      else if ty = 2 then t = 0 \<or> t = 2
      else if ty = 3 then t = 1 \<or> t = 2
      else if ty = 4 then odd k = (t = 0)
      else if ty = 5 then k = 1 \<or> k = (if t = 0 then 2 else 0)
      else if ty = 6 then True
      else if ty = 7 \<or> ty = 8 then t \<noteq> 1
      else if ty = 10 then t \<noteq> 0
      else if ty = 12 then t = 1
      else t = 0)"

fun nth_int :: "int list \<Rightarrow> int \<Rightarrow> int" where
  "nth_int [] i = -1"
| "nth_int (x # xs) i = (if i = 0 then x else nth_int xs (i - 1))"

lemma nth_int: "i < length xs \<Longrightarrow> nth_int xs (int i) = xs ! i"
  by (induction xs arbitrary: i) (auto simp: nth_Cons split: nat.split)

text \<open>The images lie outside the run, for the entry number \<open>i\<close>; the runs whose images are given
  by another entry refer to a different one.\<close>

definition out_of :: "int \<Rightarrow> int \<Rightarrow> int \<Rightarrow> bool" where
  "out_of lo len x \<longleftrightarrow> x < lo \<or> lo + len \<le> x"

definition run_moves :: "int list \<Rightarrow> int \<Rightarrow> int \<Rightarrow> int \<Rightarrow> int \<Rightarrow> int \<Rightarrow> bool" where
  "run_moves es i type data lo len \<longleftrightarrow>
     0 < len \<and>
     (if type \<le> 3 then data \<noteq> i
      else if type = 4 then even len
      else if type = 5 then len = 3
      else if type = 6 then nth_int es (data mod 64) \<noteq> lo
      else if type = 7 then out_of lo len data \<and> out_of lo len (data + 32)
      else if type = 8 then out_of lo len (nth_int es data) \<and> out_of lo len (nth_int es data + 1)
      else if type = 9 \<or> type = 10 then out_of lo len (nth_int es data)
      else type \<le> 13)"

definition moves :: "int list \<Rightarrow> int \<Rightarrow> int \<Rightarrow> int \<Rightarrow> bool" where
  "moves es i v d = run_moves es i ((v div 16) mod 16) ((v mod 16) * 256 + d) (v div 32768) ((v div 256) mod 128)"

fun all_move :: "int list \<Rightarrow> int \<Rightarrow> int list \<Rightarrow> int list \<Rightarrow> bool" where
  "all_move es i (v # vs) (d # ds) \<longleftrightarrow> moves es i v d \<and> all_move es (i + 1) vs ds"
| "all_move es i _ _ \<longleftrightarrow> True"

lemma all_move_nth: "all_move es i vs ds \<Longrightarrow> j < length vs \<Longrightarrow> length vs = length ds \<Longrightarrow> moves es (i + int j) (vs ! j) (ds ! j)"
proof (induction es i vs ds arbitrary: j rule: all_move.induct)
  case (1 es i v vs d ds)
  then show ?case using "1.IH" [of "j - 1"] by (cases j) (auto simp: algebra_simps)
qed auto

lemma all_move_append:
  "length vs = length ds \<Longrightarrow> all_move es i (vs @ vs') (ds @ ds') \<longleftrightarrow> all_move es i vs ds \<and> all_move es (i + int (length vs)) vs' ds'"
  by (induction es i vs ds rule: all_move.induct) (auto simp: algebra_simps)

lemma case_conv_all_move:
  "all_move (map uint case_conv_ext) 0 (map uint case_conv_table1) (map uint case_conv_table2)"
  by code_simp

lemma case_conv_moves:
  "i < 361 \<Longrightarrow> moves (map uint case_conv_ext) (int i) (uint (case_conv_table1 ! i)) (uint (case_conv_table2 ! i))"
  using all_move_nth [OF case_conv_all_move, of i] by (simp add: case_conv_lengths)

lemma run_codes_distinct:
  assumes "i < 361" "j < 361" "i \<noteq> j"
  shows "run_code 17 (case_conv_table1 ! i) \<noteq> run_code 17 (case_conv_table1 ! j)"
proof -
  let ?b = "\<lambda>i. run_bounds 17 (uint (case_conv_table1 ! i))"
  have lt: "fst (?b a) < fst (?b b)" if "a < b" "b < 361" for a b
  proof -
    have "a < 361" using that by simp
    have "fst (?b a) < snd (?b a)" using case_conv_moves [OF \<open>a < 361\<close>] by (simp add: moves_def run_moves_def run_bounds_def)
    moreover have "snd (?b a) \<le> fst (?b b)"
      using conv.ordered_nth [OF case_conv_ordered that(1)] that \<open>a < 361\<close> by (simp add: case_conv_lengths)
    ultimately show ?thesis by simp
  qed
  have "fst (?b i) \<noteq> fst (?b j)" using assms lt [of i j] lt [of j i] by (cases "i < j") auto
  then show ?thesis unfolding conv.fst_run_bounds [symmetric] by auto
qed

lemma uint_u32_of_u16: "uint (ucast (x :: u16) :: u32) = uint x"
  using uint_lt2p [of x] by (simp add: uint_ucast_down mod_pos_pos_trivial)

lemma ext_nth_int:
  assumes "uint w < 58"
  shows "\<exists>e. ext w = Some e \<and> uint e = nth_int (map uint case_conv_ext) (uint w)"
proof -
  have l: "unat w < length (map uint case_conv_ext)" using unat_lt [of w 58] assms by (simp add: case_conv_lengths)
  have "uint w = int (unat w)" by simp
  then have "nth_int (map uint case_conv_ext) (uint w) = uint (case_conv_ext ! unat w)"
    using nth_int [OF l] l by simp
  then show ?thesis using l by (simp add: ext_def uint_u32_of_u16)
qed


lemma odd_uint_u32: "odd (uint k) \<longleftrightarrow> k AND 1 = 1" for k :: u32
  using bit_uint_iff [of k 0] by (simp add: bit_0 and_one_eq odd_iff_mod_2_eq_one)

lemma upto_13: "0 \<le> x \<Longrightarrow> x \<le> 13 \<Longrightarrow> x = 0 \<or> x = 1 \<or> x = 2 \<or> x = 3 \<or> x = 4 \<or> x = 5 \<or> x = 6 \<or> x = 7 \<or>
    x = 8 \<or> x = 9 \<or> x = 10 \<or> x = 11 \<or> x = 12 \<or> x = 13" for x :: int
  by presburger

text \<open>One code point of a run.\<close>

lemma conv_in_run_changes:
  assumes m: "moves (map uint case_conv_ext) (int i) (uint v) (uint d)" and e: "entry_ok (uint v) (uint d)"
    and v: "i < 361" "v = case_conv_table1 ! i" and t: "t \<le> 2"
    and c: "run_code 17 v \<le> c" "uint c < uint (run_code 17 v) + uint (run_len 17 v)"
  shows "conv_in_run c t (run_type v) (run_code 17 v) (run_data v d) \<noteq> Some [c] \<longleftrightarrow>
    changes (run_type v) t (uint c - uint (run_code 17 v))"
proof -
  define ty where "ty = run_type v"
  define w where "w = run_data v d"
  define code where "code = run_code 17 v"
  define len where "len = uint (run_len 17 v)"
  have ty: "uint ty = (uint v div 16) mod 16" and w: "uint w = (uint v mod 16) * 256 + uint d"
    by (simp_all add: ty_def w_def uint_run_type uint_run_data)
  have lo: "uint code = uint v div 32768" and len: "len = (uint v div 256) mod 128"
    by (simp_all add: code_def len_def conv.uint_run_len conv.fst_run_bounds run_bounds_def)
  have m: "run_moves (map uint case_conv_ext) (int i) (uint ty) (uint w) (uint code) len"
    using m unfolding moves_def ty w lo len .
  have c: "code \<le> c" "uint c < uint code + len" using c by (simp_all add: code_def len_def)
  have "uint t \<le> 2" using t by (simp add: word_le_def)
  with uint_ge_0 [of t] have "uint t = 0 \<or> uint t = 1 \<or> uint t = 2" by linarith
  then have t: "t = 0 \<or> t = 1 \<or> t = 2" by (simp add: word_uint_eq_iff)
  have a: "c - code + x = c \<longleftrightarrow> x = code" for x by (metis add_diff_cancel_left' diff_add_cancel)
  have out: "out_of (uint code) len (uint x) \<Longrightarrow> x \<noteq> c" for x using c by (auto simp: out_of_def word_le_def)
  have k: "ty = n \<longleftrightarrow> uint ty = uint n" for n by (rule word_uint_eq_iff)
  have ext58: "\<exists>e. ext x = Some e \<and> uint e = nth_int (map uint case_conv_ext) (uint x)" if "uint x < 58" for x
    using ext_nth_int [OF that] .
  have e: "entry_ok (uint v) (uint d) \<longleftrightarrow>
     (if uint ty \<le> 3 then uint w < 361 else if uint ty = 4 \<or> uint ty = 5 \<or> uint ty = 7 then True
      else if uint ty = 6 \<or> uint ty = 11 \<or> uint ty = 12 then uint w div 64 < 58 \<and> uint w mod 64 < 58
      else if uint ty = 8 \<or> uint ty = 9 \<or> uint ty = 10 then uint w < 58
      else uint w div 256 < 58)"
    unfolding entry_ok_def Let_def ty w by (rule refl)
  note d = uint_data_parts [of w]
  have w8: "uint w < 4096" using w u8_lt [of d] pos_mod_bound [of 16 "uint v"] by linarith
  have ext_lt: "uint x < 65536" if "ext i = Some x" for i x
    using that uint_lt2p [of "case_conv_ext ! unat i"] by (auto simp: ext_def rd_Some_iff uint_u32_of_u16)
  have ty13: "uint ty \<le> 13" using m by (auto simp: run_moves_def split: if_splits)
  consider "ty = 0 \<or> ty = 1 \<or> ty = 2 \<or> ty = 3" | "ty = 4" | "ty = 5" | "ty = 6"
    | "ty = 7" | "ty = 8" | "ty = 9 \<or> ty = 10" | "ty = 11 \<or> ty = 12" | "ty = 13"
    using upto_13 [OF uint_ge_0 ty13] by (simp add: k) blast
  then have "conv_in_run c t ty code w \<noteq> Some [c] \<longleftrightarrow> changes ty t (uint c - uint code)"
  proof cases
    case 1
    then have "uint w < 361" "uint w \<noteq> int i" using e \<open>entry_ok _ _\<close> m by (auto simp: run_moves_def)
    then have j: "unat w < 361" "unat w \<noteq> i" using unat_lt [of w 361] by auto
    have "rd case_conv_table1 (unat w) = Some (case_conv_table1 ! unat w)" using j by (simp add: case_conv_lengths)
    moreover have "run_code 17 (case_conv_table1 ! unat w) \<noteq> code"
      using run_codes_distinct [OF j(1) v(1) j(2)] v(2) by (simp add: code_def)
    ultimately show ?thesis using 1 t unfolding conv_in_run_def changes_def Let_def run_type_defs
      by (elim disjE) (simp_all add: a word_le_def)
  next
    case 2
    have o: "odd (uint c - uint code) \<longleftrightarrow> (c - code) AND 1 = 1" 
      using odd_uint_u32 [of "c - code"] c(1) [unfolded uint_minus_simple_alt] by simp
    have x: "((c - code) XOR 1) + code \<noteq> c"
    proof
      assume "((c - code) XOR 1) + code = c"
      then have "(c - code) XOR 1 = c - code" using add_diff_cancel_right' [of "(c - code) XOR 1" code] by (simp only:)
      then have "bit ((c - code) XOR 1) 0 = bit (c - code) 0" by (rule arg_cong)
      then show False unfolding bit_xor_iff by simp
    qed
    have "(c - code) AND 1 = 0 \<or> (c - code) AND 1 = 1" by (simp add: and_one_eq) (metis not_mod_2_eq_0_eq_1)
    then show ?thesis using 2 t x o unfolding conv_in_run_def changes_def Let_def run_type_defs
      by (elim disjE) (simp_all add: b2u_def)
  next
    case 3
    have o: "c - code = n \<longleftrightarrow> uint c - uint code = uint n" for n
      using c(1) by (simp add: word_uint_eq_iff uint_minus_simple_alt)
    show ?thesis using 3 t unfolding conv_in_run_def changes_def Let_def run_type_defs
      by (elim disjE) (simp_all add: b2u_def o word_uint_eq_iff [of c code])
  next
    case 4
    then have "uint (drop_bit 6 w) < 58" "uint (w AND 0x3f) < 58" using e \<open>entry_ok _ _\<close> d by auto
    then obtain x y where xy: "ext (drop_bit 6 w) = Some x" "ext (w AND 0x3f) = Some y" "uint y = nth_int (map uint case_conv_ext) (uint w mod 64)"
      using ext58 d by metis
    then have "y \<noteq> code" using m 4 by (auto simp: run_moves_def)
    then show ?thesis using 4 t xy a unfolding conv_in_run_def changes_def Let_def run_type_defs
      by (simp add: b2u_def)
  next
    case 5
    then have "w \<noteq> c" using m out [of w] by (simp add: run_moves_def)
    moreover have "uint (w + 0x20) = uint w + 32"
      using uint_ge_0 [of w] w8 by (simp add: uint_word_ariths mod_pos_pos_trivial)
    then have "w + 0x20 \<noteq> c" using m 5 out [of "w + 0x20"] by (simp add: run_moves_def)
    ultimately show ?thesis using 5 t unfolding conv_in_run_def changes_def Let_def run_type_defs
      by (elim disjE) (simp_all add: b2u_def)
  next
    case 6
    then obtain x where x: "ext w = Some x" "uint x = nth_int (map uint case_conv_ext) (uint w)"
      using ext58 [of w] e \<open>entry_ok _ _\<close> by auto
    then have "x \<noteq> c" using m out [of x] 6 by (simp add: run_moves_def)
    moreover have "uint (x + 1) = uint x + 1"
      using uint_ge_0 [of x] ext_lt [OF x(1)] by (simp add: uint_word_ariths mod_pos_pos_trivial)
    then have "x + 1 \<noteq> c" using m 6 x(2) out [of "x + 1"] by (simp add: run_moves_def)
    ultimately show ?thesis using 6 t x unfolding conv_in_run_def changes_def Let_def run_type_defs
      by (elim disjE) (simp_all add: b2u_def)
  next
    case 7
    then obtain x where x: "ext w = Some x" "uint x = nth_int (map uint case_conv_ext) (uint w)"
      using ext58 [of w] e \<open>entry_ok _ _\<close> by auto
    then have "x \<noteq> c" using m out [of x] 7 by (auto simp: run_moves_def)
    then show ?thesis using 7 t x unfolding conv_in_run_def changes_def Let_def run_type_defs
      by (elim disjE) (simp_all add: b2u_def)
  next
    case 8
    then have "uint (drop_bit 6 w) < 58" "uint (w AND 0x3f) < 58" using e \<open>entry_ok _ _\<close> d by auto
    then obtain x y where xy: "ext (drop_bit 6 w) = Some x" "ext (w AND 0x3f) = Some y" using ext58 by blast
    then show ?thesis using 8 t unfolding conv_in_run_def changes_def Let_def run_type_defs
      by (elim disjE) (simp_all add: b2u_def)
  next
    case 9
    then have "uint (drop_bit 8 w) < 58" using e \<open>entry_ok _ _\<close> d by auto
    then obtain x y z where xyz: "ext (drop_bit 8 w) = Some x" "ext (drop_bit 4 w AND 0xf) = Some y" "ext (w AND 0xf) = Some z"
      using ext58 d by metis
    then show ?thesis using 9 t unfolding conv_in_run_def changes_def Let_def run_type_defs
      by (elim disjE) (simp_all add: b2u_def)
  qed
  then show ?thesis by (simp add: ty_def w_def code_def)
qed


section \<open>Every code point\<close>

lemma ascii_entries: "case_conv_table1 ! 0 = 0x00209a30" "case_conv_table1 ! 1 = 0x00309a00" "case_conv_table1 ! Suc 0 = 0x00309a00"
  "uint (run_code 17 (case_conv_table1 ! 2)) = 0xb5"
  by (simp_all add: case_conv_table1_def run_code_def)

lemma in_run_iff:
  "conv.in_run c i \<longleftrightarrow> run_code 17 (case_conv_table1 ! i) \<le> c \<and>
     uint c < uint (run_code 17 (case_conv_table1 ! i)) + uint (run_len 17 (case_conv_table1 ! i))"
  by (simp add: conv.in_run_def word_le_def conv.uint_run_len conv.fst_run_bounds)

lemma in_run_unique:
  assumes "conv.in_run c i" "conv.in_run c j" "i < 361" "j < 361"
  shows "i = j"
proof (rule ccontr)
  assume "i \<noteq> j"
  then consider "i < j" | "j < i" by linarith
  then show False
    using conv.ordered_nth [OF case_conv_ordered, of i j] conv.ordered_nth [OF case_conv_ordered, of j i] assms
    by cases (simp_all add: conv.in_run_def case_conv_lengths)
qed

lemma ascii_not_in_run: "c < 128 \<Longrightarrow> conv.in_run c i \<Longrightarrow> i < 361 \<Longrightarrow> i = 0 \<or> i = 1"
proof (rule ccontr)
  assume c: "c < 128" "conv.in_run c i" "i < 361" and "\<not> (i = 0 \<or> i = 1)"
  then have i: "i = 2 \<or> 2 < i" by linarith
  let ?b = "\<lambda>i. run_bounds 17 (uint (case_conv_table1 ! i))"
  have "fst (?b 2) \<le> fst (?b i)"
    using i conv.ordered_nth [OF case_conv_ordered, of 2 i] c(3) conv.bounds_le [of "uint (case_conv_table1 ! 2)"]
    by (auto simp: case_conv_lengths)
  then show False using c ascii_entries(4) by (simp add: conv.in_run_def word_less_def conv.fst_run_bounds)
qed

lemma conv_changes:
  assumes i: "i < 361" "conv.in_run c i" and t: "t \<le> 2"
  shows "lre_case_conv c t \<noteq> Some [c] \<longleftrightarrow>
    changes (run_type (case_conv_table1 ! i)) t (uint c - uint (run_code 17 (case_conv_table1 ! i)))"
proof (cases "c < 128")
  case True
  have r: "run_type 0x00209a30 = 3" "run_type 0x00309a00 = 0" "run_code 17 0x00209a30 = 0x41" "run_code 17 0x00309a00 = 0x61"
    "run_len 17 0x00209a30 = 26" "run_len 17 0x00309a00 = 26"
    by (simp_all add: run_type_def run_code_def run_len_def)
  have "uint t \<le> 2" using t by (simp add: word_le_def)
  with uint_ge_0 [of t] have "uint t = 0 \<or> uint t = 1 \<or> uint t = 2" by linarith
  then have t: "t = 0 \<or> t = 1 \<or> t = 2" by (simp add: word_uint_eq_iff)
  have "c - 0x41 + 0x61 \<noteq> c" "c - 0x61 + 0x41 \<noteq> c" by simp_all
  then show ?thesis using ascii_not_in_run [OF True i(2,1)] i(2) True t unfolding in_run_iff
    by (elim disjE) (simp_all add: ascii_entries r lre_case_conv_def changes_def word_le_def word_less_def)
next
  case False
  have "i < length case_conv_table1" using i(1) by (simp add: case_conv_lengths)
  then obtain j where j: "j < 361" "conv.in_run c j" "run_find 17 case_conv_table1 c = Some (Some j)"
    using conv.run_find_spec [of c] i by (auto simp: case_conv_lengths)
  then have f: "run_find 17 case_conv_table1 c = Some (Some i)" using in_run_unique [OF i(2) j(2) i(1) j(1)] by simp
  show ?thesis
    using conv_in_run_changes [OF case_conv_moves [OF i(1)] case_conv_entry_ok [OF i(1)] i(1) refl t] i(1,2) f False
    unfolding in_run_iff by (simp add: lre_case_conv_def case_conv_lengths)
qed

lemma conv_outside: "\<forall>i < 361. \<not> conv.in_run c i \<Longrightarrow> lre_case_conv c t = Some [c]"
proof (cases "c < 128")
  case True
  assume o: "\<forall>i < 361. \<not> conv.in_run c i"
  have r: "run_code 17 0x00209a30 = 0x41" "run_code 17 0x00309a00 = 0x61"
    "run_len 17 0x00209a30 = 26" "run_len 17 0x00309a00 = 26"
    by (simp_all add: run_code_def run_len_def)
  have "\<not> conv.in_run c 0" "\<not> conv.in_run c 1" using o by simp_all
  then show ?thesis using True unfolding in_run_iff
    by (auto simp: ascii_entries r lre_case_conv_def word_le_def word_less_def)
next
  case False
  assume "\<forall>i < 361. \<not> conv.in_run c i"
  then show ?thesis using conv.run_find_spec [of c] False by (auto simp: lre_case_conv_def case_conv_lengths)
qed


section \<open>The intervals of a run\<close>

text \<open>Whether one of the conversions of the mask changes the code point.\<close>

definition case_changed :: "u32 \<Rightarrow> u32 \<Rightarrow> bool" where
  "case_changed case_mask u \<longleftrightarrow>
     (\<exists>t \<in> set [0, 1, 2]. bit case_mask t \<and> lre_case_conv u (of_nat t) \<noteq> Some [u])"

definition interval_points :: "(u32 \<times> u32) list \<Rightarrow> u32 list" where
  "interval_points is = concat (map (\<lambda>(a, b). [a, b]) is)"

lemma interval_points_simps [simp]:
  "interval_points [] = []" "interval_points ((a, b) # is) = a # b # interval_points is"
  "interval_points (is @ js) = interval_points is @ interval_points js"
  by (simp_all add: interval_points_def)

lemma add_all_cases:
  "cr_wf cr \<Longrightarrow> \<exists>r cr'. add_all cr is = Some (r, cr') \<and> cr_wf cr' \<and> cr_kept cr r cr' \<and>
     (r = 0 \<and> cr_data cr' = cr_data cr @ interval_points is \<or> r = -1)"
proof (induction cr "is" rule: add_all.induct)
  case (2 cr c1 c2 "is")
  obtain r cr1 where a: "cr_add_interval cr c1 c2 = Some (r, cr1)" "cr_wf cr1"
    "r = 0 \<and> cr_data cr1 = cr_data cr @ [c1, c2] \<or> r = -1 \<and> cr1 = cr"
    using cr_add_interval_cases [OF "2.prems"] by blast
  note k = cr_add_interval_kept [OF a(1)]
  show ?case
  proof (cases "r = 0")
    case True
    from "2.IH" [OF a(1) refl _ a(2)] True obtain r' cr' where ih: "add_all cr1 is = Some (r', cr')" "cr_wf cr'" "cr_kept cr1 r' cr'"
      "r' = 0 \<and> cr_data cr' = cr_data cr1 @ interval_points is \<or> r' = -1" by blast
    then show ?thesis using a True k cr_kept_trans [of cr cr1 r' cr'] by auto
  next
    case False
    then show ?thesis using a k by auto
  qed
qed simp

lemma add_all_append:
  "add_all cr (is @ js) = Option.bind (add_all cr is) (\<lambda>(r, cr1). if r \<noteq> 0 then Some (r, cr1) else add_all cr1 js)"
proof (induction cr "is" rule: add_all.induct)
  case (2 cr c1 c2 "is")
  show ?case
  proof (cases "cr_add_interval cr c1 c2")
    case (Some x)
    obtain r cr1 where x: "x = (r, cr1)" by (metis surj_pair)
    show ?thesis using "2.IH" [OF Some x [symmetric]] Some x by (cases "r = 0") simp_all
  qed simp
qed simp

lemma add_all_result: "add_all cr is = Some (r, cr1) \<Longrightarrow> r = 0 \<or> r = -1"
proof (induction cr "is" arbitrary: r rule: add_all.induct)
  case (2 cr c1 c2 "is")
  then obtain x where x: "cr_add_interval cr c1 c2 = Some x" by (cases "cr_add_interval cr c1 c2") auto
  obtain q cr2 where q: "x = (q, cr2)" by (metis surj_pair)
  show ?case using "2.IH" [OF x q [symmetric]] "2.prems" x q by (cases "q = 0") simp_all
qed simp

definition run_selected :: "u32 \<Rightarrow> u32 \<Rightarrow> bool" where
  "run_selected case_mask v \<longleftrightarrow> drop_bit (unat (run_type v)) (case_run_mask case_mask) AND 1 \<noteq> 0"

definition run_intervals :: "u32 \<Rightarrow> u32 \<Rightarrow> (u32 \<times> u32) list" where
  "run_intervals case_mask v =
     (if run_selected case_mask v then case1_intervals case_mask (run_type v) (run_code 17 v) (run_len 17 v) else [])"

lemma case1_loop_adds:
  "case1_loop cr case_mask (case_run_mask case_mask) tab = add_all cr (concat (map (run_intervals case_mask) tab))"
proof (induction tab arbitrary: cr)
  case (Cons v tab)
  show ?case
  proof (cases "run_selected case_mask v")
    case True
    then have s: "drop_bit (unat (run_type v)) (case_run_mask case_mask) AND 1 \<noteq> 0" by (simp add: run_selected_def)
    let ?I = "case1_intervals case_mask (run_type v) (run_code 17 v) (run_len 17 v)"
    have l: "case1_loop cr case_mask (case_run_mask case_mask) (v # tab) = Option.bind (add_all cr ?I)
        (\<lambda>(r, cr1). if r \<noteq> 0 then Some (-1, cr1) else case1_loop cr1 case_mask (case_run_mask case_mask) tab)"
      using s by (simp add: Let_def)
    have r: "concat (map (run_intervals case_mask) (v # tab)) = ?I @ concat (map (run_intervals case_mask) tab)"
      using True by (simp add: run_intervals_def)
    show ?thesis unfolding l r add_all_append
    proof (cases "add_all cr ?I")
      case (Some x)
      obtain q cr1 where x: "x = (q, cr1)" by (metis surj_pair)
      then have "q = 0 \<or> q = -1" using add_all_result Some by blast
      then show "Option.bind (add_all cr ?I)
          (\<lambda>(r, cr1). if r \<noteq> 0 then Some (-1, cr1) else case1_loop cr1 case_mask (case_run_mask case_mask) tab) =
        Option.bind (add_all cr ?I)
          (\<lambda>(r, cr1). if r \<noteq> 0 then Some (r, cr1) else add_all cr1 (concat (map (run_intervals case_mask) tab)))"
        unfolding Some x using Cons.IH by auto
    qed simp
  next
    case False
    then have "\<not> (drop_bit (unat (run_type v)) (case_run_mask case_mask) AND 1 \<noteq> 0)" by (simp add: run_selected_def)
    then show ?thesis using False Cons.IH by (simp add: Let_def run_intervals_def)
  qed
qed simp

lemma alt_points_map:
  assumes "c \<le> run_max" "c0 \<le> c" "int n = (uint c - uint c0 + 1) div 2"
  shows "interval_points (map (\<lambda>k. (c0 + 2 * of_nat k, c0 + 2 * of_nat k + 1)) [0..<n]) = alt_points c0 c"
  using assms
proof (induction n arbitrary: c0)
  case 0
  then have "uint c - uint c0 + 1 < 2" by (simp add: word_le_def)
  with 0 have "\<not> c0 < c" by (simp add: word_less_def)
  then show ?case by (simp add: alt_points.simps [of c0])
next
  case (Suc n)
  then have "0 < (uint c - uint c0 + 1) div 2" by simp
  then have lt: "c0 < c" by (simp add: word_less_def)
  note s = alt_step [OF lt Suc.prems(1)]
  have up: "[0..<Suc n] = 0 # map Suc [0..<n]" by (simp add: map_Suc_upt upt_conv_Cons)
  show ?case
  proof (cases "c0 + 2 \<le> c")
    case True
    have "int n = (uint c - uint (c0 + 2) + 1) div 2" using Suc.prems(3) s by simp
    from Suc.IH [OF Suc.prems(1) True this] show ?thesis
      using lt Suc.prems(1) unfolding up alt_points.simps [of c0]
      by (simp add: o_def algebra_simps)
  next
    case False
    then have "uint c < uint c0 + 2" using s by (simp add: word_le_def)
    then have "n = 0" using Suc.prems(3) lt by (simp add: word_less_def)
    moreover have "alt_points (c0 + 2) c = []" using False order.strict_implies_order [of "c0 + 2" c]
      by (auto simp: alt_points.simps [of "c0 + 2"])
    ultimately show ?thesis using lt Suc.prems(1) by (simp add: alt_points.simps [of c0])
  qed
qed


section \<open>Concatenated runs\<close>

lemma cr_in_hull: "cr_in u ps \<Longrightarrow> \<exists>x \<in> set ps. \<exists>y \<in> set ps. x \<le> u \<and> u < y"
  by (induction u ps rule: cr_in.induct) auto

lemma points_ok_concat:
  assumes f: "\<forall>v \<in> set vs. points_ok (f v) \<and> (\<forall>x \<in> set (f v). lo v \<le> x \<and> x \<le> hi v)" and le: "\<forall>v \<in> set vs. lo v \<le> hi v"
    and s: "sorted_wrt (\<lambda>v w. hi v \<le> (lo w :: u32)) vs"
  shows "points_ok (concat (map f vs)) \<and> (cr_in u (concat (map f vs)) \<longleftrightarrow> (\<exists>v \<in> set vs. cr_in u (f v)))"
  using assms
proof (induction vs)
  case (Cons v vs)
  then have ih: "points_ok (concat (map f vs))" "cr_in u (concat (map f vs)) \<longleftrightarrow> (\<exists>v \<in> set vs. cr_in u (f v))" by simp_all
  have v: "even (length (f v))" "sorted (f v)" "\<forall>x \<in> set (f v). x \<le> hi v" using Cons.prems(1) by (auto simp: points_ok_def)
  have far: "hi v \<le> y" if w: "w \<in> set vs" and y: "y \<in> set (f w)" for w y
  proof -
    have "hi v \<le> lo w" using Cons.prems(3) w by simp
    also have "lo w \<le> y" using Cons.prems(1) w y by auto
    finally show ?thesis .
  qed
  have "\<forall>x \<in> set (f v). \<forall>y \<in> set (concat (map f vs)). x \<le> y"
  proof (intro ballI)
    fix x y assume x: "x \<in> set (f v)" and "y \<in> set (concat (map f vs))"
    then obtain w where "w \<in> set vs" "y \<in> set (f w)" by auto
    then have "hi v \<le> y" by (rule far)
    with v(3) x show "x \<le> y" by (metis order.trans)
  qed
  then have "points_ok (concat (map f (v # vs)))" using ih(1) v by (simp add: points_ok_def sorted_append)
  then show ?case using ih(2) cr_in_append [OF v(1)] by simp
qed (simp_all add: points_ok_def)

section \<open>The set of a run\<close>

lemma tab_run_masks: "tab_run_mask = [0x2bf5, 0x147a, 0x5fc]"
  by code_simp

lemma case_run_mask_bits:
  "bit (case_run_mask m) n \<longleftrightarrow> bit m 0 \<and> bit (0x2bf5 :: u32) n \<or> bit m 1 \<and> bit (0x147a :: u32) n \<or> bit m 2 \<and> bit (0x5fc :: u32) n"
  by (simp add: case_run_mask_def tab_run_masks mask_bit [of 0, simplified] mask_bit bit_or_iff bit_drop_bit_eq)


text \<open>The points that a run adds lie inside it and select the code points that a conversion of the
  mask changes.\<close>

definition mask_changes :: "u32 \<Rightarrow> u32 \<Rightarrow> int \<Rightarrow> bool" where
  "mask_changes case_mask ty k \<longleftrightarrow> bit case_mask 0 \<and> changes ty 0 k \<or> bit case_mask 1 \<and> changes ty 1 k \<or> bit case_mask 2 \<and> changes ty 2 k"

lemma case_masks: "m AND CASE_U \<noteq> 0 \<longleftrightarrow> bit m 0" "m AND (CASE_L OR CASE_F) \<noteq> 0 \<longleftrightarrow> bit m 1 \<or> bit m 2"
  using mask_bit [of 0 m] mask_6(1) [of m] by (simp_all add: CASE_U_def CASE_L_def CASE_F_def)

lemma ul_points:
  assumes "code + 1 \<le> code + len" "code + len \<le> run_max" "uint (code + len) = uint code + uint len" "even (uint len)" "0 < uint len"
  shows "interval_points (case1_intervals m RUN_TYPE_UL code len) =
    (if bit m 0 \<and> (bit m 1 \<or> bit m 2) then [code, code + len]
     else alt_points (code + b2u (bit m 0)) (code + len))"
proof (cases "bit m 0 \<and> (bit m 1 \<or> bit m 2)")
  case False
  have c: "uint (code + 1) = uint code + 1" "code + 1 \<le> code + len"
    using alt_step(1) [of code "code + len"] assms by (auto simp: word_less_def)
  have n: "int ((unat len + 1) div 2) = (uint (code + len) - uint (code + b2u (bit m 0)) + 1) div 2"
    using assms(3,4) c(1) by (auto simp: b2u_def zdiv_int elim!: evenE)
  have "code + b2u (bit m 0) \<le> code + len" using assms(3) c by (auto simp: b2u_def word_le_def)
  from alt_points_map [OF assms(2) this n] show ?thesis
    using False by (auto simp: case1_intervals_def case_masks Let_def)
qed (auto simp: case1_intervals_def case_masks Let_def)

lemma run_points:
  assumes m: "moves es i (uint v) (uint d)"
  shows "points_ok (interval_points (run_intervals case_mask v)) \<and>
    (\<forall>x \<in> set (interval_points (run_intervals case_mask v)). run_code 17 v \<le> x \<and> x \<le> run_code 17 v + run_len 17 v) \<and>
    (\<forall>u. run_code 17 v \<le> u \<and> u < run_code 17 v + run_len 17 v \<longrightarrow>
      cr_in u (interval_points (run_intervals case_mask v)) = mask_changes case_mask (run_type v) (uint u - uint (run_code 17 v)))"
proof -
  define ty where "ty = run_type v"
  define code where "code = run_code 17 v"
  define len where "len = run_len 17 v"
  have ty: "uint ty = (uint v div 16) mod 16" by (simp add: ty_def uint_run_type)
  have lo: "uint code = uint v div 32768" and ln: "uint len = (uint v div 256) mod 128"
    by (simp_all add: code_def len_def conv.uint_run_len conv.fst_run_bounds run_bounds_def)
  have m: "run_moves es i (uint ty) ((uint v mod 16) * 256 + uint d) (uint code) (uint len)"
    using m unfolding moves_def ty lo ln .
  have b: "uint code < 131072" "uint len < 128" "0 < uint len"
    using uint_lt2p [of v] lo ln m by (auto simp: run_moves_def)
  have ty13: "uint ty \<le> 13" using m by (auto simp: run_moves_def split: if_splits)
  have e: "uint (code + len) = uint code + uint len"
    using b uint_ge_0 [of code] by (simp add: uint_word_ariths mod_pos_pos_trivial)
  have lt: "code < code + len" "code + len \<le> run_max" using e b by (simp_all add: word_less_def word_le_def run_max_def)
  note c1 = alt_step [OF lt]
  have c1': "code + 1 \<le> code + len" using c1 e b by (simp add: word_le_def)
  have whole: "points_ok [code, code + len]" "\<forall>x \<in> set [code, code + len]. code \<le> x \<and> x \<le> code + len"
    using e b by (simp_all add: points_ok_def word_le_def)
  have sel: "run_selected case_mask v \<longleftrightarrow> bit (case_run_mask case_mask) (unat ty)"
    by (simp add: run_selected_def mask_bit ty_def)
  note bits = case_run_mask_bits [of case_mask "unat ty"]
  have k: "ty = n \<longleftrightarrow> uint ty = uint n" for n by (rule word_uint_eq_iff)
  have I: "run_intervals case_mask v = (if run_selected case_mask v then case1_intervals case_mask ty code len else [])"
    by (simp add: run_intervals_def ty_def code_def len_def)
  define R where "R = interval_points (run_intervals case_mask v)"
  have tys: "ty = 0 \<or> ty = 1 \<or> ty = 2 \<or> ty = 3 \<or> ty = 4 \<or> ty = 5 \<or> ty = 6 \<or> ty = 7 \<or> ty = 8 \<or> ty = 9 \<or>
      ty = 10 \<or> ty = 11 \<or> ty = 12 \<or> ty = 13" using upto_13 [OF uint_ge_0 ty13] by (simp add: k)
  consider "ty = RUN_TYPE_UL" | "ty = RUN_TYPE_LSU" | "ty \<noteq> RUN_TYPE_UL" "ty \<noteq> RUN_TYPE_LSU" by blast
  then have "points_ok R \<and> (\<forall>x \<in> set R. code \<le> x \<and> x \<le> code + len) \<and>
    (\<forall>u. code \<le> u \<and> u < code + len \<longrightarrow> cr_in u R = mask_changes case_mask ty (uint u - uint code))"
  proof cases
    case 1
    then have "even (uint len)" using m by (simp add: run_moves_def RUN_TYPE_UL_def)
    note P = ul_points [OF c1' lt(2) e this b(3), of case_mask]
    have s: "run_selected case_mask v \<longleftrightarrow> bit case_mask 0 \<or> bit case_mask 1 \<or> bit case_mask 2"
      using 1 by (simp add: sel case_run_mask_bits RUN_TYPE_UL_def)
    have ch: "mask_changes case_mask ty x \<longleftrightarrow> bit case_mask 0 \<and> odd x \<or> bit case_mask 1 \<and> even x \<or> bit case_mask 2 \<and> even x" for x
      using 1 by (simp add: mask_changes_def changes_def RUN_TYPE_UL_def)
    show ?thesis
    proof (cases "bit case_mask 0 \<and> (bit case_mask 1 \<or> bit case_mask 2)")
      case True
      then have "R = [code, code + len]" using P 1 I s by (simp add: R_def)
      then show ?thesis using whole True ch by auto
    next
      case False
      show ?thesis
      proof (cases "run_selected case_mask v")
        case sl: True
        let ?c0 = "code + b2u (bit case_mask 0)"
        have R: "R = alt_points ?c0 (code + len)" unfolding R_def I if_P [OF sl] 1 P if_not_P [OF False] ..
        have c0: "code \<le> ?c0" "?c0 \<le> code + len" using c1 c1' lt(1) by (auto simp: b2u_def word_le_def)
        have "even (uint u - uint ?c0) \<and> ?c0 \<le> u \<longleftrightarrow> mask_changes case_mask ty (uint u - uint code)" if "code \<le> u" for u
          using that False sl s c1 unfolding ch b2u_def word_le_def
          by (cases "uint u = uint code") auto
        then show ?thesis
          using alt_points_ok [OF disjI1 [OF c0(2)]] cr_in_alt_points [OF lt(2), of _ ?c0] c0(1) unfolding R
          by (auto intro: order.trans)
      next
        case nsl: False
        then show ?thesis using I s ch by (auto simp: R_def points_ok_def)
      qed
    qed
  next
    case 2
    then have "len = 3" using m by (simp add: run_moves_def RUN_TYPE_LSU_def word_uint_eq_iff)
    have s: "run_selected case_mask v \<longleftrightarrow> bit case_mask 0 \<or> bit case_mask 1 \<or> bit case_mask 2"
      using 2 by (simp add: sel case_run_mask_bits RUN_TYPE_LSU_def)
    have ch: "mask_changes case_mask ty x \<longleftrightarrow> x = 1 \<and> run_selected case_mask v \<or> bit case_mask 0 \<and> x = 2 \<or>
        (bit case_mask 1 \<or> bit case_mask 2) \<and> x = 0" for x
      using 2 unfolding s by (auto simp: mask_changes_def changes_def RUN_TYPE_LSU_def)
    have c3: "uint (code + 3) = uint code + 3" "uint (code + 2) = uint code + 2" "uint (code + 1) = uint code + 1"
      using e c1 \<open>len = 3\<close> by simp_all
    have R: "R = (if \<not> run_selected case_mask v then [] else if bit case_mask 0 \<and> (bit case_mask 1 \<or> bit case_mask 2) then [code, code + 3]
        else (if \<not> bit case_mask 0 then [code, code + 1] else []) @ [code + 1, code + 2] @
          (if bit case_mask 0 then [code + 2, code + 3] else []))"
      using 2 I \<open>len = 3\<close> by (auto simp: R_def case1_intervals_def case_masks Let_def RUN_TYPE_UL_def RUN_TYPE_LSU_def)
    show ?thesis unfolding R ch \<open>len = 3\<close> using s
      by (auto simp: points_ok_def word_le_def word_less_def c3)
  next
    case 3
    have "case1_intervals case_mask ty code len = [(code, code + len)]"
      using 3 by (simp add: case1_intervals_def)
    moreover have "mask_changes case_mask ty x \<longleftrightarrow> run_selected case_mask v" for x
      using tys 3 unfolding sel case_run_mask_bits mask_changes_def changes_def run_type_defs
      by (elim disjE) simp_all
    ultimately show ?thesis using whole I unfolding R_def
      by (cases "run_selected case_mask v") (auto simp: points_ok_def)
  qed
  then show ?thesis by (simp add: ty_def code_def len_def R_def)
qed


section \<open>The whole table\<close>

lemma case_changed_in_run:
  assumes i: "i < 361" "conv.in_run u i"
  shows "case_changed m u \<longleftrightarrow> mask_changes m (run_type (case_conv_table1 ! i)) (uint u - uint (run_code 17 (case_conv_table1 ! i)))"
  using conv_changes [OF i, of 0] conv_changes [OF i, of 1] conv_changes [OF i, of 2]
  by (simp add: case_changed_def mask_changes_def)

lemma case_entry_end:
  "i < 361 \<Longrightarrow> uint (run_code 17 (case_conv_table1 ! i) + run_len 17 (case_conv_table1 ! i)) =
    uint (run_code 17 (case_conv_table1 ! i)) + uint (run_len 17 (case_conv_table1 ! i))"
  using conv.run_end [of i] by (simp add: case_conv_lengths conv.uint_run_len conv.fst_run_bounds)

lemma case_table_sorted:
  "sorted_wrt (\<lambda>v w. run_code 17 v + run_len 17 v \<le> run_code 17 w) case_conv_table1"
proof (clarsimp simp: sorted_wrt_iff_nth_less case_conv_lengths)
  fix i j :: nat assume ij: "i < j" "j < 361"
  then have "i < 361" by simp
  from case_entry_end [OF this] conv.ordered_nth [OF case_conv_ordered ij(1)] ij \<open>i < 361\<close>
  show "run_code 17 (case_conv_table1 ! i) + run_len 17 (case_conv_table1 ! i) \<le> run_code 17 (case_conv_table1 ! j)"
    by (simp add: word_le_def case_conv_lengths conv.uint_run_len conv.fst_run_bounds)
qed

lemma cr_in_run_points:
  assumes i: "i < 361" and c: "cr_in u (interval_points (run_intervals m (case_conv_table1 ! i)))"
  shows "conv.in_run u i"
proof -
  note r = conjunct1 [OF conjunct2 [OF run_points [OF case_conv_moves [OF i], of m]]]
  obtain x y where x: "x \<in> set (interval_points (run_intervals m (case_conv_table1 ! i)))" "x \<le> u"
    and y: "y \<in> set (interval_points (run_intervals m (case_conv_table1 ! i)))" "u < y"
    using cr_in_hull [OF c] by blast
  note x' = order.trans [OF conjunct1 [OF bspec [OF r x(1)]] x(2)]
  note y' = order.strict_trans2 [OF y(2) conjunct2 [OF bspec [OF r y(1)]]]
  show ?thesis using x' y' case_entry_end [OF i] by (simp add: in_run_iff word_less_def)
qed

lemma case1_points:
  "points_ok (interval_points (concat (map (run_intervals m) case_conv_table1))) \<and>
   cr_in u (interval_points (concat (map (run_intervals m) case_conv_table1))) = case_changed m u"
proof -
  let ?f = "\<lambda>v. interval_points (run_intervals m v)"
  have f: "\<forall>v \<in> set case_conv_table1. points_ok (?f v) \<and> (\<forall>x \<in> set (?f v). run_code 17 v \<le> x \<and> x \<le> run_code 17 v + run_len 17 v)"
  proof
    fix v assume "v \<in> set case_conv_table1"
    then obtain i where "i < 361" "v = case_conv_table1 ! i" by (auto simp: in_set_conv_nth case_conv_lengths)
    then show "points_ok (?f v) \<and> (\<forall>x \<in> set (?f v). run_code 17 v \<le> x \<and> x \<le> run_code 17 v + run_len 17 v)"
      using run_points [OF case_conv_moves, of i m] by simp
  qed
  have le: "\<forall>v \<in> set case_conv_table1. run_code 17 v \<le> run_code 17 v + run_len 17 v"
  proof
    fix v assume "v \<in> set case_conv_table1"
    then obtain i where "i < 361" "v = case_conv_table1 ! i" by (auto simp: in_set_conv_nth case_conv_lengths)
    then show "run_code 17 v \<le> run_code 17 v + run_len 17 v" using case_entry_end [of i] by (simp add: word_le_def)
  qed
  have c: "interval_points (concat (map (run_intervals m) vs)) = concat (map ?f vs)" for vs by (induction vs) simp_all
  note P = points_ok_concat [OF f le case_table_sorted]
  have "(\<exists>v \<in> set case_conv_table1. cr_in u (?f v)) = case_changed m u"
  proof (cases "\<exists>i < 361. conv.in_run u i")
    case True
    then obtain i where i: "i < 361" "conv.in_run u i" by blast
    have only: "i' = i" if "i' < 361" "cr_in u (?f (case_conv_table1 ! i'))" for i'
      using in_run_unique [OF cr_in_run_points [OF that] i(2) that(1) i(1)] .
    have "u < run_code 17 (case_conv_table1 ! i) + run_len 17 (case_conv_table1 ! i)"
      using i(2) case_entry_end [OF i(1)] by (simp add: in_run_iff word_less_def)
    then have "cr_in u (?f (case_conv_table1 ! i)) = case_changed m u"
      using run_points [OF case_conv_moves [OF i(1)], of m] i(2) case_changed_in_run [OF i] by (simp add: in_run_iff)
    moreover have "(\<exists>v \<in> set case_conv_table1. cr_in u (?f v)) \<longleftrightarrow> cr_in u (?f (case_conv_table1 ! i))"
    proof
      assume "\<exists>v \<in> set case_conv_table1. cr_in u (?f v)"
      then obtain i' where "i' < 361" "cr_in u (?f (case_conv_table1 ! i'))"
        unfolding Bex_def in_set_conv_nth case_conv_lengths by blast
      with only [OF this] show "cr_in u (?f (case_conv_table1 ! i))" by simp
    next
      have "case_conv_table1 ! i \<in> set case_conv_table1" using i(1) by (simp add: case_conv_lengths)
      moreover assume "cr_in u (?f (case_conv_table1 ! i))"
      ultimately show "\<exists>v \<in> set case_conv_table1. cr_in u (?f v)" by blast
    qed
    ultimately show ?thesis by simp
  next
    case False
    have "\<not> cr_in u (?f v)" if v: "v \<in> set case_conv_table1" for v
    proof
      assume "cr_in u (?f v)"
      moreover obtain i' where "i' < 361" "v = case_conv_table1 ! i'"
        using v unfolding in_set_conv_nth case_conv_lengths by blast
      ultimately have "conv.in_run u i'" using cr_in_run_points by simp
      with \<open>i' < 361\<close> False show False by blast
    qed
    moreover have "\<not> case_changed m u" using conv_outside False by (auto simp: case_changed_def)
    ultimately show ?thesis by blast
  qed
  then show ?thesis using P [of u] unfolding c by simp
qed

lemma case1_fills: "fills (\<lambda>cr. unicode_case1 cr m) (case_changed m)"
proof (rule fillsI)
  fix cr assume wf: "cr_wf cr" and e: "cr_len cr = 0"
  have d: "cr_data cr = []" using e by (simp add: cr_data_def)
  show "\<exists>r cr'. unicode_case1 cr m = Some (r, cr') \<and> cr_wf cr' \<and> cr_kept cr r cr' \<and>
      (r = 0 \<and> points_ok (cr_data cr') \<and> (\<forall>u. cr_in u (cr_data cr') = case_changed m u) \<or> r = -1)"
  proof (cases "m = 0")
    case True
    then show ?thesis using wf d by (simp add: unicode_case1_def case_changed_def points_ok_def)
  next
    case False
    then have "unicode_case1 cr m = add_all cr (concat (map (run_intervals m) case_conv_table1))"
      by (simp add: unicode_case1_def case1_loop_adds)
    moreover obtain r cr' where "add_all cr (concat (map (run_intervals m) case_conv_table1)) = Some (r, cr')" "cr_wf cr'"
      "cr_kept cr r cr'" "r = 0 \<and> cr_data cr' = interval_points (concat (map (run_intervals m) case_conv_table1)) \<or> r = -1"
      using add_all_cases [OF wf, of "concat (map (run_intervals m) case_conv_table1)"] d by auto
    ultimately show ?thesis using case1_points by auto
  qed
qed

end
