(* ===== verification/UnicodePropSets.thy ===== *)
theory UnicodePropSets
  imports UnicodePropSem UnicodeCase1
begin

text \<open>
  The stack machine of \<^verbatim>\<open>unicode_prop_ops\<close> refines a machine on predicates, and the sets
  that the functions by name leave: scripts, general categories and properties.
\<close>

section \<open>The leaves\<close>

definition gc_in :: "u32 \<Rightarrow> u32 \<Rightarrow> bool" where
  "gc_in gc_mask u = (case gc_at u of None \<Rightarrow> False | Some g \<Rightarrow> bit gc_mask g)"

definition prop_in :: "nat \<Rightarrow> u32 \<Rightarrow> bool" where
  "prop_in prop_idx u = table_mem (unicode_prop_table ! prop_idx) u"

lemma gc_in_fills: "fills (\<lambda>cr. unicode_general_category1 cr gc_mask) (gc_in gc_mask)"
proof -
  have "gc_in gc_mask = (\<lambda>u. \<exists>g. gc_at u = Some g \<and> bit gc_mask g)"
    by (auto simp: gc_in_def fun_eq_iff split: option.splits)
  then show ?thesis using gc_fills by simp
qed

lemma prop_table_ends:
  assumes "i < length unicode_prop_table"
  shows "\<exists>fin < 2 ^ 32. runs_end (map uint (unicode_prop_table ! i)) 0 False = Some (fin, False)"
proof -
  let ?fs = "[65382, 126652, 127370, 43872, 127370, 917632, 921600, 12445, 6619, 69838, 918000, 65440,
    65151, 8189, 64280, 921600, 103, 8298, 69294, 917506, 125259, 125255, 65351, 12284, 12276,
    201547, 8206, 43709, 1114112, 65095, 8234, 65380, 12246, 127488, 121481, 120468, 121483,
    201547, 918000, 12289, 120772, 129751, 917632, 128000, 129502, 129751, 131070, 921600, 201547,
    918000] :: int list"
  have "runs_end (map uint (unicode_prop_table ! i)) 0 False = Some (?fs ! i, False)"
    using list_all2_nthD [OF prop_tables_end assms] .
  moreover have "i < length ?fs" using assms list_all2_lengthD [OF prop_tables_end] by simp
  then have "?fs ! i \<in> set ?fs" by (rule nth_mem)
  then have "?fs ! i < 2 ^ 32" by (rule bspec [rotated]) simp
  ultimately show ?thesis by blast
qed

lemma prop_in_fills:
  assumes "i < length unicode_prop_table"
  shows "fills (\<lambda>cr. unicode_prop1_idx cr i) (prop_in i)"
proof -
  obtain fin where "fin < 2 ^ 32" "runs_end (map uint (unicode_prop_table ! i)) 0 False = Some (fin, False)"
    using prop_table_ends [OF assms] by blast
  then have "fills (\<lambda>cr. unicode_prop1 cr (unicode_prop_table ! i)) (table_mem (unicode_prop_table ! i))"
    using prop1_fills runs_end_check by blast
  then show ?thesis using assms by (simp add: unicode_prop1_idx_def prop_in_def [abs_def])
qed

section \<open>The machine on predicates\<close>

text \<open>The top of the stack is the head of the list.\<close>

fun leaf_sem :: "prop_op \<Rightarrow> (u32 \<Rightarrow> bool) option" where
  "leaf_sem (POP_GC gc_mask) = Some (gc_in gc_mask)"
| "leaf_sem (POP_PROP prop_idx) = (if prop_idx < length unicode_prop_table then Some (prop_in prop_idx) else None)"
| "leaf_sem (POP_CASE case_mask) = Some (case_changed case_mask)"
| "leaf_sem _ = None"

fun op_sem :: "prop_op \<Rightarrow> (u32 \<Rightarrow> bool) list \<Rightarrow> (u32 \<Rightarrow> bool) list option" where
  "op_sem (POP_OP op) st = (case st of
     T # S # st \<Rightarrow> if length st < 2 then Some ((\<lambda>u. cr_in_op op (S u) (T u)) # st) else None | _ \<Rightarrow> None)"
| "op_sem POP_INVERT st = (case st of S # st \<Rightarrow> Some ((\<lambda>u. \<not> S u) # st) | _ \<Rightarrow> None)"
| "op_sem op st = (if length st < POP_STACK_LEN_MAX then map_option (\<lambda>S. S # st) (leaf_sem op) else None)"

fun ops_sem :: "(u32 \<Rightarrow> bool) list \<Rightarrow> prop_op list \<Rightarrow> (u32 \<Rightarrow> bool) option" where
  "ops_sem st [] = None"
| "ops_sem st (op # ops) =
     (if op = POP_END then (case st of [S] \<Rightarrow> Some S | _ \<Rightarrow> None)
      else Option.bind (op_sem op st) (\<lambda>st. ops_sem st ops))"

section \<open>The refinement\<close>

definition holds :: "(u32 list \<Rightarrow> nat \<Rightarrow> u32 list option) \<Rightarrow> CharRange \<Rightarrow> (u32 \<Rightarrow> bool) \<Rightarrow> bool" where
  "holds f c S \<longleftrightarrow> cr_wf c \<and> cr_realloc_func c = f \<and> points_ok (cr_data c) \<and> (\<forall>u < UINT32_MAX. cr_in u (cr_data c) = S u)"

text \<open>What a step leaves: a new stack, or an allocation failure.\<close>

definition step_to :: "(u32 list \<Rightarrow> nat \<Rightarrow> u32 list option) \<Rightarrow> (int \<times> CharRange list) option \<Rightarrow> (u32 \<Rightarrow> bool) list \<Rightarrow> bool" where
  "step_to f x st \<longleftrightarrow> (\<exists>r stack. x = Some (r, stack) \<and>
     (r = 0 \<and> list_all2 (holds f) (rev stack) st \<or> r \<noteq> 0 \<and> \<not> alloc_total f))"

lemma push_leaf_sem:
  assumes "fills leaf S" and "realloc_law (cr_realloc_func cr)" and "list_all2 (holds (cr_realloc_func cr)) (rev stack) st"
    and "length st < POP_STACK_LEN_MAX"
  shows "step_to (cr_realloc_func cr) (push_leaf cr leaf stack) (S # st)"
proof -
  have "cr_wf (cr_init (cr_realloc_func cr))" "cr_len (cr_init (cr_realloc_func cr)) = 0"
    using assms(2) by (simp_all add: cr_init_def cr_wf_def)
  then obtain r c where c: "leaf (cr_init (cr_realloc_func cr)) = Some (r, c)" "cr_wf c" "cr_kept (cr_init (cr_realloc_func cr)) r c"
    "r = 0 \<and> points_ok (cr_data c) \<and> (\<forall>u < UINT32_MAX. cr_in u (cr_data c) = S u) \<or> r = -1"
    using assms(1) unfolding fills_def by metis
  have "length stack = length st" using assms(3) list_all2_lengthD by fastforce
  then have "push_leaf cr leaf stack = Some (r, stack @ [c])" using c(1) assms(4) by (simp add: push_leaf_def)
  moreover have "r = 0 \<Longrightarrow> holds (cr_realloc_func cr) c S" using c by (auto simp: holds_def cr_kept_def cr_init_def)
  moreover have "r \<noteq> 0 \<Longrightarrow> \<not> alloc_total (cr_realloc_func cr)" using c(3) by (auto simp: cr_kept_def cr_init_def)
  ultimately show ?thesis using assms(3) unfolding step_to_def by (cases "r = 0") auto
qed


lemma holds_D:
  assumes "holds f c S"
  shows "cr_wf c" "cr_realloc_func c = f" "points_ok (cr_data c)" "u < UINT32_MAX \<Longrightarrow> cr_in u (cr_data c) = S u"
  using assms by (simp_all add: holds_def)

lemma binary_sem:
  assumes f: "realloc_law (cr_realloc_func cr)" and st: "list_all2 (holds (cr_realloc_func cr)) (rev stack) (T # S # st)"
    and l: "length st < 2"
  shows "step_to (cr_realloc_func cr) (prop_step cr (POP_OP op) stack) ((\<lambda>u. cr_in_op op (S u) (T u)) # st)"
proof -
  obtain t s r where rv: "rev stack = t # s # r" and t: "holds (cr_realloc_func cr) t T" and s: "holds (cr_realloc_func cr) s S"
    and r: "list_all2 (holds (cr_realloc_func cr)) r st" using st by (auto simp: list_all2_Cons2)
  have stack: "stack = rev r @ [s, t]" using arg_cong [OF rv, of rev] by simp
  have lr: "length r < 2" using l list_all2_lengthD [OF r] by simp
  have i: "cr_wf (cr_init (cr_realloc_func cr))" "cr_len (cr_init (cr_realloc_func cr)) = 0"
    using f by (simp_all add: cr_init_def cr_wf_def)
  obtain q c where c: "cr_op (cr_init (cr_realloc_func cr)) (cr_data s) (cr_data t) op = Some (q, c)" "cr_wf c"
    "q = 0 \<and> points_canon (cr_data c) \<and> (\<forall>u. cr_in u (cr_data c) = cr_in_op op (cr_in u (cr_data s)) (cr_in u (cr_data t))) \<or> q = -1"
    using cr_op_cases [OF i holds_D(3) [OF s] holds_D(3) [OF t], of op] by blast
  note k = cr_op_kept [OF c(1)]
  have "prop_step cr (POP_OP op) stack = Some (q, if q \<noteq> 0 then stack @ [c] else rev r @ [c])"
    using lr c(1) unfolding stack by (simp add: POP_STACK_LEN_MAX_def nth_append Let_def)
  moreover have "q = 0 \<Longrightarrow> holds (cr_realloc_func cr) c (\<lambda>u. cr_in_op op (S u) (T u))"
    using c k points_canon_ok holds_D(4) [OF s] holds_D(4) [OF t] by (auto simp: holds_def cr_kept_def cr_init_def)
  moreover have "q \<noteq> 0 \<Longrightarrow> \<not> alloc_total (cr_realloc_func cr)" using k by (auto simp: cr_kept_def cr_init_def)
  ultimately show ?thesis using r unfolding step_to_def by (cases "q = 0") auto
qed

lemma invert_sem:
  assumes st: "list_all2 (holds (cr_realloc_func cr)) (rev stack) (S # st)"
  shows "step_to (cr_realloc_func cr) (prop_step cr POP_INVERT stack) ((\<lambda>u. \<not> S u) # st)"
proof -
  obtain s r where rv: "rev stack = s # r" and s: "holds (cr_realloc_func cr) s S"
    and r: "list_all2 (holds (cr_realloc_func cr)) r st" using st by (auto simp: list_all2_Cons2)
  have stack: "stack = rev r @ [s]" using arg_cong [OF rv, of rev] by simp
  obtain q c where c: "cr_invert s = Some (q, c)" "cr_wf c"
    "q = 0 \<and> points_canon (cr_data c) \<and> (\<forall>u < UINT32_MAX. cr_in u (cr_data c) \<longleftrightarrow> \<not> cr_in u (cr_data s)) \<or> q = -1 \<and> c = s"
    using cr_invert_cases [OF holds_D(1,3) [OF s]] by blast
  note k = cr_invert_kept [OF c(1)]
  have "prop_step cr POP_INVERT stack = Some (q, rev r @ [c])" using c(1) unfolding stack by simp
  moreover have "q = 0 \<Longrightarrow> holds (cr_realloc_func cr) c (\<lambda>u. \<not> S u)"
    using c k points_canon_ok holds_D(2,4) [OF s] by (auto simp: holds_def cr_kept_def)
  moreover have "q \<noteq> 0 \<Longrightarrow> \<not> alloc_total (cr_realloc_func cr)" using k holds_D(2) [OF s] by (auto simp: cr_kept_def)
  ultimately show ?thesis using r unfolding step_to_def by (cases "q = 0") auto
qed

text \<open>One operation: the machine on ranges fails an assertion exactly when the machine on predicates is stuck.\<close>

lemma prop_step_sem:
  assumes f: "realloc_law (cr_realloc_func cr)" and st: "list_all2 (holds (cr_realloc_func cr)) (rev stack) st"
    and op: "op \<noteq> POP_END"
  shows "case op_sem op st of None \<Rightarrow> prop_step cr op stack = None
    | Some st' \<Rightarrow> step_to (cr_realloc_func cr) (prop_step cr op stack) st'"
proof -
  have l: "length stack = length st" using list_all2_lengthD [OF st] by simp
  show ?thesis
  proof (cases op)
    case (POP_GC a)
    then show ?thesis using push_leaf_sem [OF gc_in_fills f st, of a] l by (simp add: push_leaf_def)
  next
    case (POP_PROP a)
    have "unicode_prop1_idx c a = None" if "\<not> a < length unicode_prop_table" for c
      using that by (simp add: unicode_prop1_idx_def)
    then show ?thesis using push_leaf_sem [OF prop_in_fills f st, of a] l POP_PROP by (simp add: push_leaf_def)
  next
    case (POP_CASE a)
    then show ?thesis using push_leaf_sem [OF case1_fills f st, of a] l by (simp add: push_leaf_def)
  next
    case (POP_OP a)
    show ?thesis
    proof (cases "\<exists>T S st2. st = T # S # st2 \<and> length st2 < 2")
      case True
      then obtain T S st2 where e: "st = T # S # st2" "length st2 < 2" by blast
      then show ?thesis using binary_sem [OF f st [unfolded e(1)] e(2), of a] POP_OP by simp
    next
      case False
      then have "\<not> (length st \<ge> 2 \<and> length st < 4)" by (cases st; cases "tl st") auto
      moreover from False have "op_sem (POP_OP a) st = None" by (auto split: list.splits)
      ultimately show ?thesis using l POP_OP by (auto simp: POP_STACK_LEN_MAX_def)
    qed
  next
    case POP_INVERT
    show ?thesis
    proof (cases st)
      case (Cons S st2)
      then show ?thesis using invert_sem [OF st [unfolded Cons]] POP_INVERT by simp
    qed (use l POP_INVERT in simp)
  next
    case POP_END
    then show ?thesis using op by simp
  qed
qed

lemma cr_copy_cases:
  assumes "cr_wf cr" and "cr_wf cr1"
  shows "\<exists>r cr'. cr_copy cr cr1 = Some (r, cr') \<and> cr_wf cr' \<and> (r = 0 \<and> cr_data cr' = cr_data cr1 \<or> r = -1)"
proof -
  obtain r cr2 where r: "cr_realloc cr (cr_len cr1) = (r, cr2)" by (metis surj_pair)
  from cr_realloc_cases [OF assms(1) r] show ?thesis
  proof (elim disjE conjE)
    assume r0: "r = 0" and w: "cr_wf cr2" and sz: "cr_len cr1 \<le> cr_size cr2"
    have l: "length (cr_points cr2) = cr_size cr2" "length (take (cr_len cr1) (cr_points cr1)) = cr_len cr1"
      using w assms(2) by (simp_all add: cr_wf_def)
    then have "blit (cr_points cr2) 0 (take (cr_len cr1) (cr_points cr1)) =
        Some (take (cr_len cr1) (cr_points cr1) @ drop (cr_len cr1) (cr_points cr2))"
      using sz by (simp add: blit_def)
    then show ?thesis using r r0 w sz l by (auto simp: cr_copy_def cr_wf_def cr_data_def)
  qed (use r assms in \<open>auto simp: cr_copy_def\<close>)
qed

lemma prop_ops_loop_sem:
  "realloc_law (cr_realloc_func cr) \<Longrightarrow> cr_wf cr \<Longrightarrow> list_all2 (holds (cr_realloc_func cr)) (rev stack) st \<Longrightarrow>
   (case ops_sem st ops of
      None \<Rightarrow> prop_ops_loop cr stack ops = None \<or> (\<not> alloc_total (cr_realloc_func cr) \<and> prop_ops_loop cr stack ops = Some (-1, cr))
    | Some S \<Rightarrow> \<exists>r cr'. prop_ops_loop cr stack ops = Some (r, cr') \<and> cr_wf cr' \<and> cr_kept cr r cr' \<and>
        (r = 0 \<and> points_ok (cr_data cr') \<and> (\<forall>u < UINT32_MAX. cr_in u (cr_data cr') = S u) \<or> r = -1))"
proof (induction ops arbitrary: stack st)
  case (Cons op ops)
  note f = Cons.prems(1) and st = Cons.prems(3)
  have l: "length stack = length st" using list_all2_lengthD [OF st] by simp
  show ?case
  proof (cases "op = POP_END")
    case True
    show ?thesis
    proof (cases "\<exists>S. st = [S]")
      case one: True
      then obtain S where S: "st = [S]" by blast
      then obtain c where c: "stack = [c]" "holds (cr_realloc_func cr) c S"
        using st by (auto simp: list_all2_Cons2)
      obtain r cr' where k: "cr_copy cr c = Some (r, cr')" "cr_wf cr'" "r = 0 \<and> cr_data cr' = cr_data c \<or> r = -1"
        using cr_copy_cases [OF Cons.prems(2) holds_D(1) [OF c(2)]] by blast
      show ?thesis using True S c(1) k cr_copy_kept [OF k(1)] holds_D(3,4) [OF c(2)] by auto
    next
      case False
      then have "length st \<noteq> 1" by (auto simp: length_Suc_conv)
      then show ?thesis using True l False by (auto split: list.splits)
    qed
  next
    case False
    show ?thesis
    proof (cases "op_sem op st")
      case None
      then show ?thesis using prop_step_sem [OF f st False] False by simp
    next
      case (Some st')
      then have "step_to (cr_realloc_func cr) (prop_step cr op stack) st'" using prop_step_sem [OF f st False] by simp
      then obtain r stack' where x: "prop_step cr op stack = Some (r, stack')"
        and y: "r = 0 \<and> list_all2 (holds (cr_realloc_func cr)) (rev stack') st' \<or> r \<noteq> 0 \<and> \<not> alloc_total (cr_realloc_func cr)"
        by (auto simp: step_to_def)
      show ?thesis
      proof (cases "r = 0")
        case True
        have e: "prop_ops_loop cr stack (op # ops) = prop_ops_loop cr stack' ops" "ops_sem st (op # ops) = ops_sem st' ops"
          using True x False Some by simp_all
        show ?thesis unfolding e by (rule Cons.IH [OF f Cons.prems(2)]) (use True y in simp)
      next
        case nz: False
        then have "prop_ops_loop cr stack (op # ops) = Some (-1, cr)" using x False by simp
        moreover have "cr_kept cr (-1) cr" using nz y by (simp add: cr_kept_def)
        ultimately show ?thesis using nz y Cons.prems(2) by (auto split: option.splits)
      qed
    qed
  qed
qed simp

lemma prop_ops_fills: "ops_sem [] ops = Some S \<Longrightarrow> fills (\<lambda>cr. unicode_prop_ops cr ops) S"
  using prop_ops_loop_sem [where stack = "[]" and st = "[]" and ops = ops]
  by (auto simp: fills_def unicode_prop_ops_def cr_wf_def)


section \<open>The properties of \<^verbatim>\<open>unicode_prop\<close> as formulas\<close>

abbreviation (input) ID_start_gc :: "nat list" where
  "ID_start_gc \<equiv> [GC_Lu, GC_Ll, GC_Lt, GC_Lm, GC_Lo, GC_Nl]"

definition gc_any :: "nat list \<Rightarrow> u32 \<Rightarrow> bool" where
  "gc_any ids u \<longleftrightarrow> (case gc_at u of None \<Rightarrow> False | Some g \<Rightarrow> g \<in> set ids)"

definition pattern_in :: "u32 \<Rightarrow> bool" where
  "pattern_in u \<longleftrightarrow> prop_in PROP_Pattern_Syntax u \<or> prop_in PROP_Pattern_White_Space u"

definition prop_set :: "nat \<Rightarrow> u32 \<Rightarrow> bool" where
  "prop_set idx u =
     (if idx = PROP_ASCII then u < 0x80
      else if idx = PROP_Any then u < 0x110000
      else if idx = PROP_Changes_When_Uppercased then case_changed CASE_U u
      else if idx = PROP_Changes_When_Lowercased then case_changed CASE_L u
      else if idx = PROP_Changes_When_Casemapped then case_changed (CASE_U OR CASE_L OR CASE_F) u
      else if idx = PROP_Assigned then \<not> gc_any [GC_Cn] u
      else if idx = PROP_Math then gc_any [GC_Sm] u \<or> prop_in PROP_Other_Math u
      else if idx = PROP_Lowercase then gc_any [GC_Ll] u \<or> prop_in PROP_Other_Lowercase u
      else if idx = PROP_Uppercase then gc_any [GC_Lu] u \<or> prop_in PROP_Other_Uppercase u
      else if idx = PROP_Cased then
        gc_any [GC_Lu, GC_Ll, GC_Lt] u \<or> prop_in PROP_Other_Uppercase u \<or> prop_in PROP_Other_Lowercase u
      else if idx = PROP_Alphabetic then
        gc_any ID_start_gc u \<or> prop_in PROP_Other_Uppercase u \<or> prop_in PROP_Other_Lowercase u \<or> prop_in PROP_Other_Alphabetic u
      else if idx = PROP_Grapheme_Base then
        \<not> (gc_any [GC_Cc, GC_Cf, GC_Cs, GC_Co, GC_Cn, GC_Zl, GC_Zp, GC_Me, GC_Mn] u \<or> prop_in PROP_Other_Grapheme_Extend u)
      else if idx = PROP_Grapheme_Extend then gc_any [GC_Me, GC_Mn] u \<or> prop_in PROP_Other_Grapheme_Extend u
      else if idx = PROP_XID_Start then
        (gc_any ID_start_gc u \<or> prop_in PROP_Other_ID_Start u) \<and> \<not> (pattern_in u \<or> prop_in PROP_XID_Start1 u)
      else if idx = PROP_XID_Continue then
        (gc_any (ID_start_gc @ [GC_Mn, GC_Mc, GC_Nd, GC_Pc]) u \<or> prop_in PROP_Other_ID_Start u \<or> prop_in PROP_Other_ID_Continue u)
          \<and> \<not> (pattern_in u \<or> prop_in PROP_XID_Continue1 u)
      else if idx = PROP_Changes_When_Titlecased then case_changed CASE_U u \<noteq> prop_in PROP_Changes_When_Titlecased1 u
      else if idx = PROP_Changes_When_Casefolded then case_changed CASE_F u \<noteq> prop_in PROP_Changes_When_Casefolded1 u
      else if idx = PROP_Changes_When_NFKC_Casefolded then
        case_changed CASE_F u \<noteq> prop_in PROP_Changes_When_NFKC_Casefolded1 u
      else if idx = PROP_ID_Continue then prop_in PROP_ID_Start u \<noteq> prop_in PROP_ID_Continue1 u
      else prop_in idx u)"

lemma gc_mask_of_bit: "bit (gc_mask_of ids) n \<longleftrightarrow> n \<in> set ids \<and> n < 32"
proof (induction ids)
  case (Cons i ids)
  have "gc_mask_of (i # ids) = push_bit i 1 OR gc_mask_of ids" by (simp add: gc_mask_of_def)
  moreover have "bit (push_bit i 1 :: u32) n \<longleftrightarrow> n = i \<and> n < 32"
    by (auto simp: bit_push_bit_iff bit_1_iff simp del: push_bit_of_1)
  ultimately show ?case using Cons by (auto simp: bit_or_iff)
qed (simp add: gc_mask_of_def)

lemma gc_in_mask_of: "list_all (\<lambda>i. i < 32) ids \<Longrightarrow> gc_in (gc_mask_of ids) u = gc_any ids u"
  by (auto simp: gc_in_def gc_any_def gc_mask_of_bit list_all_iff split: option.splits)

lemma prop_table_length: "length unicode_prop_table = 50"
  using list_all2_lengthD [OF prop_tables_end] by simp

lemma prop_program_sem:
  assumes "prop_program idx = Some ops"
  shows "\<exists>S. ops_sem [] ops = Some S \<and> (\<forall>u. S u = prop_set idx u)"
proof -
  note d = POP_STACK_LEN_MAX_def prop_table_length gc_in_mask_of pattern_in_def
  show ?thesis
    using assms unfolding prop_program_def
    by (clarsimp simp: prop_set_def d split: if_splits)
qed


section \<open>Names\<close>

definition names_ok :: "string list \<Rightarrow> bool" where
  "names_ok groups \<longleftrightarrow> list_all (\<lambda>g. g \<noteq> [] \<and> CHR 0x00 \<notin> set g) groups"

lemma find_name_in:
  assumes "table = c_strings groups" and "names_ok groups" and "length groups = n"
  shows "\<exists>idx. unicode_find_name table name = Some idx \<and> (idx = -1 \<or> 0 \<le> idx \<and> idx < int n)"
  using unicode_find_name_spec [of groups name] name_index_bounds [of groups name 0] assms
  by (auto simp: names_ok_def list_all_iff)

lemma gc_name_find: "\<exists>idx. unicode_find_name unicode_gc_name_table name = Some idx \<and> (idx = -1 \<or> 0 \<le> idx \<and> idx < 38)"
  using find_name_in [OF unicode_gc_name_table_def, of 38 name] by (simp add: names_ok_def)

lemma prop_name_find: "\<exists>idx. unicode_find_name unicode_prop_name_table name = Some idx \<and> (idx = -1 \<or> 0 \<le> idx \<and> idx < 53)"
  using find_name_in [OF unicode_prop_name_table_def, of 53 name] by (simp add: names_ok_def)

lemma script_name_find: "\<exists>idx. unicode_find_name unicode_script_name_table name = Some idx \<and> (idx = -1 \<or> 0 \<le> idx \<and> idx < 156)"
  using find_name_in [OF unicode_script_name_table_def, of 156 name] by (simp add: names_ok_def)

lemma name_index_first:
  "0 \<le> pos \<Longrightarrow> name_index gs name pos = pos + int i \<Longrightarrow> i < length gs \<Longrightarrow>
   name \<in> set (split_comma (gs ! i)) \<and> (\<forall>j < i. name \<notin> set (split_comma (gs ! j)))"
proof (induction gs name pos arbitrary: i rule: name_index.induct)
  case (2 s ss name pos)
  show ?case
  proof (cases "name \<in> set (split_comma s)")
    case True
    then show ?thesis using 2 by (cases i) auto
  next
    case False
    then have n: "name_index ss name (pos + 1) = pos + int i" using 2 by simp
    show ?thesis
    proof (cases i)
      case 0
      then show ?thesis using n name_index_bounds [of ss name "pos + 1"] "2.prems" by auto
    next
      case (Suc i')
      then have "name \<in> set (split_comma (ss ! i')) \<and> (\<forall>j < i'. name \<notin> set (split_comma (ss ! j)))"
        using "2.IH" [OF False, of i'] n "2.prems" by simp
      then show ?thesis using False Suc by (auto simp: nth_Cons split: nat.splits)
    qed
  qed
qed simp

lemma name_index_none: "0 \<le> pos \<Longrightarrow> name_index gs name pos = -1 \<longleftrightarrow> (\<forall>g \<in> set gs. name \<notin> set (split_comma g))"
  by (induction gs name pos rule: name_index.induct) auto

lemma script_fail_diverges: "script_fail cr = None"
proof (cases "script_fail cr")
  case (Some y)
  then have False using script_fail.raw_induct [of "\<lambda>_ _. False" cr y] by blast
  then show ?thesis ..
qed


section \<open>The functions by name\<close>

lemma interval_fills: "fills (\<lambda>cr. cr_add_interval cr 0 n) (\<lambda>u. u < n)"
proof (rule fillsI)
  fix cr assume wf: "cr_wf cr" and e: "cr_len cr = 0"
  obtain r cr' where a: "cr_add_interval cr 0 n = Some (r, cr')" "cr_wf cr'"
    "r = 0 \<and> cr_data cr' = cr_data cr @ [0, n] \<or> r = -1 \<and> cr' = cr" using cr_add_interval_cases [OF wf] by blast
  moreover have "cr_data cr = []" using e by (simp add: cr_data_def)
  ultimately show "\<exists>r cr'. cr_add_interval cr 0 n = Some (r, cr') \<and> cr_wf cr' \<and> cr_kept cr r cr' \<and>
      (r = 0 \<and> points_ok (cr_data cr') \<and> (\<forall>u. cr_in u (cr_data cr') = (u < n)) \<or> r = -1)"
    using cr_add_interval_kept [OF a(1)] by (auto simp: points_ok_def simp del: length_cr_data)
qed

lemma fills_cong: "fills f S \<Longrightarrow> (\<And>u. S u = T u) \<Longrightarrow> (\<And>cr. g cr = f cr) \<Longrightarrow> fills g T"
  by (simp add: fills_def)

text \<open>A function that fills, applied: the allocator is the only reason to fail.\<close>

lemma fills_apply:
  assumes "fills f S" and "cr_wf cr" and "cr_len cr = 0"
  shows "\<exists>r cr'. f cr = Some (r, cr') \<and> cr_wf cr' \<and> cr_kept cr r cr' \<and>
    (r = 0 \<and> points_ok (cr_data cr') \<and> (\<forall>u < UINT32_MAX. cr_in u (cr_data cr') = S u) \<or>
     r = -1 \<and> \<not> alloc_total (cr_realloc_func cr))"
proof -
  obtain r cr' where "f cr = Some (r, cr')" "cr_wf cr'" "cr_kept cr r cr'"
    "r = 0 \<and> points_ok (cr_data cr') \<and> (\<forall>u < UINT32_MAX. cr_in u (cr_data cr') = S u) \<or> r = -1"
    using assms unfolding fills_def by blast
  then show ?thesis by (cases "r = -1") (auto simp: cr_kept_def)
qed

lemma prop_program_none:
  assumes i: "idx < 69" and n: "prop_program idx = None" "idx \<noteq> 50" "idx \<noteq> 52" "idx \<noteq> 60" "idx \<noteq> 57" "idx \<noteq> 56"
  shows "idx < 50 \<and> (\<forall>u. prop_set idx u = prop_in idx u)"
proof -
  have c: "list_all (\<lambda>i. i = 50 \<or> i = 52 \<or> i = 60 \<or> i = 57 \<or> i = 56 \<or> prop_program i \<noteq> None) [50..<69]"
    by (simp add: upt_rec prop_program_def)
  have "idx \<in> set [50..<69]" if "\<not> idx < 50" using i that unfolding set_upt by simp
  then have "idx < 50" using n c unfolding list_all_iff by blast
  moreover have "prop_set idx u = prop_in idx u" for u
    using n unfolding prop_program_def prop_set_def by (simp split: if_splits)
  ultimately show ?thesis by simp
qed

lemma prop_switch_fills:
  assumes "16 \<le> idx" and "idx < 69"
  shows "fills (\<lambda>cr. unicode_prop_switch cr idx) (prop_set idx)"
proof -
  consider "idx = 50" | "idx = 52" | "idx = 60" | "idx = 57" | "idx = 56"
    | ops where "prop_program idx = Some ops" "idx \<noteq> 50" "idx \<noteq> 52" "idx \<noteq> 60" "idx \<noteq> 57" "idx \<noteq> 56"
    | "prop_program idx = None" "idx \<noteq> 50" "idx \<noteq> 52" "idx \<noteq> 60" "idx \<noteq> 57" "idx \<noteq> 56"
    by (cases "prop_program idx") auto
  then show ?thesis
  proof cases
    case 1
    then show ?thesis by (intro fills_cong [OF interval_fills [where n = "0x80"]]) (simp_all add: prop_set_def unicode_prop_switch_def)
  next
    case 2
    then show ?thesis by (intro fills_cong [OF interval_fills [where n = "0x110000"]]) (simp_all add: prop_set_def unicode_prop_switch_def)
  next
    case 3
    then show ?thesis by (intro fills_cong [OF case1_fills]) (simp_all add: prop_set_def unicode_prop_switch_def)
  next
    case 4
    then show ?thesis by (intro fills_cong [OF case1_fills]) (simp_all add: prop_set_def unicode_prop_switch_def)
  next
    case 5
    then show ?thesis by (intro fills_cong [OF case1_fills]) (simp_all add: prop_set_def unicode_prop_switch_def)
  next
    case 6
    obtain S where "ops_sem [] ops = Some S" "\<forall>u. S u = prop_set idx u" using prop_program_sem [OF 6(1)] by blast
    then show ?thesis using 6 by (intro fills_cong [OF prop_ops_fills]) (simp_all add: unicode_prop_switch_def fun_eq_iff)
  next
    case 7
    then have "idx < 50" "\<forall>u. prop_set idx u = prop_in idx u" using prop_program_none [OF assms(2)] by blast+
    then show ?thesis using 7
      by (intro fills_cong [OF prop_in_fills [of idx]]) (simp_all add: unicode_prop_switch_def prop_table_length)
  qed
qed

text \<open>The categories that a name stands for.\<close>

definition gc_group :: "nat \<Rightarrow> nat list" where
  "gc_group idx = (if idx \<le> GC_Co then [idx] else
     [[GC_Lu, GC_Ll, GC_Lt],
      [GC_Lu, GC_Ll, GC_Lt, GC_Lm, GC_Lo],
      [GC_Mn, GC_Mc, GC_Me],
      [GC_Nd, GC_Nl, GC_No],
      [GC_Sm, GC_Sc, GC_Sk, GC_So],
      [GC_Pc, GC_Pd, GC_Ps, GC_Pe, GC_Pi, GC_Pf, GC_Po],
      [GC_Zs, GC_Zl, GC_Zp],
      [GC_Cc, GC_Cf, GC_Cs, GC_Co, GC_Cn]] ! (idx - GC_LC))"

lemma gc_mask_single: "push_bit i 1 = gc_mask_of [i]"
  by (simp add: gc_mask_of_def)

lemma gc_name_mask:
  assumes "0 \<le> idx" and "idx < 38"
  shows "(if idx \<le> int GC_Co then Some (push_bit (nat idx) 1) else rd unicode_gc_mask_table (nat idx - GC_LC))
      = Some (gc_mask_of (gc_group (nat idx))) \<and> list_all (\<lambda>i. i < 32) (gc_group (nat idx))"
proof (cases "idx \<le> 29")
  case False
  then have "nat idx - 30 < 8" using assms by linarith
  then have "nat idx - 30 = 0 \<or> nat idx - 30 = 1 \<or> nat idx - 30 = 2 \<or> nat idx - 30 = 3 \<or>
      nat idx - 30 = 4 \<or> nat idx - 30 = 5 \<or> nat idx - 30 = 6 \<or> nat idx - 30 = 7" by linarith
  moreover have "\<not> nat idx \<le> 29" using False by simp
  ultimately show ?thesis using False
    by (elim disjE) (simp_all add: gc_group_def unicode_gc_mask_table_def del: One_nat_def)
next
  case True
  then have "nat idx \<le> 29" by simp
  then show ?thesis using True by (simp add: gc_group_def gc_mask_single del: push_bit_of_1)
qed

definition script_set :: "bool \<Rightarrow> u32 \<Rightarrow> u32 \<Rightarrow> bool" where
  "script_set is_ext s u =
     (if \<not> is_ext then script_at u = Some s
      else if s = UNICODE_SCRIPT_Common \<or> s = UNICODE_SCRIPT_Inherited
      then script_at u = Some s \<and> ext_scripts_at u = []
      else script_at u = Some s \<or> s \<in> set (ext_scripts_at u))"

lemma cr_init_wf: "cr_wf cr \<Longrightarrow> cr_wf (cr_init (cr_realloc_func cr)) \<and> cr_len (cr_init (cr_realloc_func cr)) = 0"
  by (simp add: cr_init_def cr_wf_def)

text \<open>The part of \<^verbatim>\<open>unicode_script\<close> after the two loops.\<close>

lemma script_ext_combine:
  assumes cr: "cr_wf cr" "cr_len cr = 0" and c1: "points_ok (cr_data cr1)"
    and c2: "cr_wf cr2" "points_ok (cr_data cr2)" "cr_realloc_func cr2 = cr_realloc_func cr"
  shows "\<exists>x. Option.bind (cr_invert cr2) (\<lambda>(r, cr2). if r \<noteq> 0 then script_fail cr
       else Option.bind (cr_op cr (cr_data cr1) (cr_data cr2) CR_OP_INTER) (\<lambda>(r, cr). if r \<noteq> 0 then script_fail cr else Some (0, cr))) = x \<and>
     (\<exists>cr'. x = Some (0, cr') \<and> cr_wf cr' \<and> points_ok (cr_data cr') \<and>
        (\<forall>u < UINT32_MAX. cr_in u (cr_data cr') \<longleftrightarrow> cr_in u (cr_data cr1) \<and> \<not> cr_in u (cr_data cr2)) \<or>
      x = None \<and> \<not> alloc_total (cr_realloc_func cr))"
    and "\<exists>x. Option.bind (cr_op cr (cr_data cr1) (cr_data cr2) CR_OP_UNION) (\<lambda>(r, cr). if r \<noteq> 0 then script_fail cr else Some (0, cr)) = x \<and>
     (\<exists>cr'. x = Some (0, cr') \<and> cr_wf cr' \<and> points_ok (cr_data cr') \<and>
        (\<forall>u < UINT32_MAX. cr_in u (cr_data cr') \<longleftrightarrow> cr_in u (cr_data cr1) \<or> cr_in u (cr_data cr2)) \<or>
      x = None \<and> \<not> alloc_total (cr_realloc_func cr))"
proof -
  obtain r c3 where i: "cr_invert cr2 = Some (r, c3)" "cr_wf c3" "r = 0 \<and> points_canon (cr_data c3) \<and>
       (\<forall>c < UINT32_MAX. cr_in c (cr_data c3) \<longleftrightarrow> \<not> cr_in c (cr_data cr2)) \<or> r = -1 \<and> c3 = cr2"
    using cr_invert_cases [OF c2(1,2)] by blast
  note ik = cr_invert_kept [OF i(1)]
  show "\<exists>x. Option.bind (cr_invert cr2) (\<lambda>(r, cr2). if r \<noteq> 0 then script_fail cr
       else Option.bind (cr_op cr (cr_data cr1) (cr_data cr2) CR_OP_INTER) (\<lambda>(r, cr). if r \<noteq> 0 then script_fail cr else Some (0, cr))) = x \<and>
     (\<exists>cr'. x = Some (0, cr') \<and> cr_wf cr' \<and> points_ok (cr_data cr') \<and>
        (\<forall>u < UINT32_MAX. cr_in u (cr_data cr') \<longleftrightarrow> cr_in u (cr_data cr1) \<and> \<not> cr_in u (cr_data cr2)) \<or>
      x = None \<and> \<not> alloc_total (cr_realloc_func cr))"
  proof (cases "r = 0")
    case True
    then have ok3: "points_ok (cr_data c3)" using i(3) points_canon_ok by simp
    obtain q c4 where o: "cr_op cr (cr_data cr1) (cr_data c3) CR_OP_INTER = Some (q, c4)" "cr_wf c4"
      "q = 0 \<and> points_canon (cr_data c4) \<and>
         (\<forall>c. cr_in c (cr_data c4) = cr_in_op CR_OP_INTER (cr_in c (cr_data cr1)) (cr_in c (cr_data c3))) \<or> q = -1"
      using cr_op_cases [OF cr c1 ok3, of CR_OP_INTER] by blast
    show ?thesis using i True o cr_op_kept [OF o(1)] points_canon_ok
      by (cases "q = 0") (auto simp: script_fail_diverges cr_kept_def)
  qed (use i ik c2(3) in \<open>auto simp: script_fail_diverges cr_kept_def\<close>)
next
  obtain q c4 where o: "cr_op cr (cr_data cr1) (cr_data cr2) CR_OP_UNION = Some (q, c4)" "cr_wf c4"
    "q = 0 \<and> points_canon (cr_data c4) \<and>
       (\<forall>c. cr_in c (cr_data c4) = cr_in_op CR_OP_UNION (cr_in c (cr_data cr1)) (cr_in c (cr_data cr2))) \<or> q = -1"
    using cr_op_cases [OF cr c1 c2(2), of CR_OP_UNION] by blast
  show "\<exists>x. Option.bind (cr_op cr (cr_data cr1) (cr_data cr2) CR_OP_UNION) (\<lambda>(r, cr). if r \<noteq> 0 then script_fail cr else Some (0, cr)) = x \<and>
     (\<exists>cr'. x = Some (0, cr') \<and> cr_wf cr' \<and> points_ok (cr_data cr') \<and>
        (\<forall>u < UINT32_MAX. cr_in u (cr_data cr') \<longleftrightarrow> cr_in u (cr_data cr1) \<or> cr_in u (cr_data cr2)) \<or>
      x = None \<and> \<not> alloc_total (cr_realloc_func cr))"
    using o cr_op_kept [OF o(1)] points_canon_ok by (cases "q = 0") (auto simp: script_fail_diverges cr_kept_def)
qed

section \<open>Properties\<close>

text \<open>\<^verbatim>\<open>unicode_find_name\<close> on a table of comma-separated groups, each closed by a NUL byte,
  reads only inside the table and returns the position of the first group with the name as one of
  its parts, or -1 when there is none.\<close>

theorem unicode_find_name_first_group:
  assumes "names_ok groups"
  shows "\<exists>idx. unicode_find_name (c_strings groups) name = Some idx \<and>
    (idx = -1 \<and> (\<forall>g \<in> set groups. name \<notin> set (split_comma g)) \<or>
     0 \<le> idx \<and> nat idx < length groups \<and> name \<in> set (split_comma (groups ! nat idx)) \<and>
       (\<forall>j < nat idx. name \<notin> set (split_comma (groups ! j))))"
proof -
  have f: "unicode_find_name (c_strings groups) name = Some (name_index groups name 0)"
    using unicode_find_name_spec assms by (simp add: names_ok_def list_all_iff)
  show ?thesis
  proof (cases "name_index groups name 0 = -1")
    case True
    then show ?thesis using f name_index_none [of 0 groups name] by auto
  next
    case False
    then have b: "0 \<le> name_index groups name 0" "nat (name_index groups name 0) < length groups"
      using name_index_bounds [of groups name 0] by auto
    then show ?thesis using f name_index_first [of 0 groups name "nat (name_index groups name 0)"] by auto
  qed
qed

theorem unicode_find_name_first_group_witness:
  "\<exists>idx. unicode_find_name (c_strings [''Cn,Unassigned'', ''Lu,Uppercase_Letter'']) ''Lu'' = Some idx \<and>
    (idx = -1 \<and> (\<forall>g \<in> set [''Cn,Unassigned'', ''Lu,Uppercase_Letter'']. ''Lu'' \<notin> set (split_comma g)) \<or>
     0 \<le> idx \<and> nat idx < length [''Cn,Unassigned'', ''Lu,Uppercase_Letter''] \<and>
       ''Lu'' \<in> set (split_comma ([''Cn,Unassigned'', ''Lu,Uppercase_Letter''] ! nat idx)) \<and>
       (\<forall>j < nat idx. ''Lu'' \<notin> set (split_comma ([''Cn,Unassigned'', ''Lu,Uppercase_Letter''] ! j))))"
  by (rule unicode_find_name_first_group) (simp add: names_ok_def)

text \<open>C26: \<^verbatim>\<open>unicode_prop_ops\<close> refines the machine on predicates: when that machine accepts a
  program with the predicate \<open>S\<close>, the assertions on the stack hold and the range left in an empty
  range holds the code points of \<open>S\<close>, or an allocation failed; when it is stuck, no run of the program
  returns a set.\<close>

theorem unicode_prop_ops_refines:
  assumes "cr_wf cr" and "cr_len cr = 0"
  shows "case ops_sem [] ops of
     Some S \<Rightarrow> \<exists>r cr'. unicode_prop_ops cr ops = Some (r, cr') \<and> cr_wf cr' \<and>
       (r = 0 \<and> points_ok (cr_data cr') \<and> (\<forall>u < UINT32_MAX. cr_in u (cr_data cr') = S u) \<or>
        r = -1 \<and> \<not> alloc_total (cr_realloc_func cr))
   | None \<Rightarrow> unicode_prop_ops cr ops = None \<or>
       \<not> alloc_total (cr_realloc_func cr) \<and> unicode_prop_ops cr ops = Some (-1, cr)"
  using prop_ops_loop_sem [of cr "[]" "[]" ops] assms
  by (cases "ops_sem [] ops") (fastforce simp: unicode_prop_ops_def cr_wf_def cr_kept_def)+

theorem unicode_prop_ops_refines_witness:
  "case ops_sem [] [POP_GC 2, POP_CASE 1, POP_INTER, POP_INVERT, POP_END] of
     Some S \<Rightarrow> \<exists>r cr'. unicode_prop_ops (cr_init zrealloc) [POP_GC 2, POP_CASE 1, POP_INTER, POP_INVERT, POP_END] = Some (r, cr') \<and> cr_wf cr' \<and>
       (r = 0 \<and> points_ok (cr_data cr') \<and> (\<forall>u < UINT32_MAX. cr_in u (cr_data cr') = S u) \<or>
        r = -1 \<and> \<not> alloc_total (cr_realloc_func (cr_init zrealloc)))
   | None \<Rightarrow> unicode_prop_ops (cr_init zrealloc) [POP_GC 2, POP_CASE 1, POP_INTER, POP_INVERT, POP_END] = None \<or>
       \<not> alloc_total (cr_realloc_func (cr_init zrealloc)) \<and>
       unicode_prop_ops (cr_init zrealloc) [POP_GC 2, POP_CASE 1, POP_INTER, POP_INVERT, POP_END] = Some (-1, cr_init zrealloc)"
  by (rule unicode_prop_ops_refines) (simp_all add: cr_init_def cr_wf_def)

text \<open>C27: \<^verbatim>\<open>unicode_prop\<close> returns -2 exactly for the names that are not in its table, and otherwise
  leaves in an empty range the code points of the property, by the formula that defines it from the
  general categories, the case conversions and the property tables, or -1 when an allocation fails.\<close>

theorem unicode_prop_set:
  assumes "cr_wf cr" and "cr_len cr = 0"
  shows "\<exists>idx r cr'. unicode_find_name unicode_prop_name_table name = Some idx \<and>
    unicode_prop cr name = Some (r, cr') \<and> cr_wf cr' \<and>
    (if idx < 0 then r = -2 \<and> cr' = cr
     else r = 0 \<and> points_ok (cr_data cr') \<and> (\<forall>u < UINT32_MAX. cr_in u (cr_data cr') = prop_set (nat idx + PROP_ASCII_Hex_Digit) u) \<or>
          r = -1 \<and> \<not> alloc_total (cr_realloc_func cr))"
proof -
  obtain idx where idx: "unicode_find_name unicode_prop_name_table name = Some idx" "idx = -1 \<or> 0 \<le> idx \<and> idx < 53"
    using prop_name_find [of name] by blast
  show ?thesis
  proof (cases "idx = -1")
    case True
    then show ?thesis using idx(1) assms by (simp add: unicode_prop_def)
  next
    case False
    then have "16 \<le> nat idx + 16" "nat idx + 16 < 69" using idx(2) by auto
    from fills_apply [OF prop_switch_fills [OF this] assms] show ?thesis using idx False
      by (auto simp: unicode_prop_def)
  qed
qed

theorem unicode_prop_set_witness:
  "\<exists>idx r cr'. unicode_find_name unicode_prop_name_table ''Alphabetic'' = Some idx \<and>
    unicode_prop (cr_init zrealloc) ''Alphabetic'' = Some (r, cr') \<and> cr_wf cr' \<and>
    (if idx < 0 then r = -2 \<and> cr' = cr_init zrealloc
     else r = 0 \<and> points_ok (cr_data cr') \<and> (\<forall>u < UINT32_MAX. cr_in u (cr_data cr') = prop_set (nat idx + PROP_ASCII_Hex_Digit) u) \<or>
          r = -1 \<and> \<not> alloc_total (cr_realloc_func (cr_init zrealloc)))"
  by (rule unicode_prop_set) (simp_all add: cr_init_def cr_wf_def)

text \<open>C30: \<^verbatim>\<open>unicode_general_category\<close> returns -2 exactly for the names that are not in its table,
  and otherwise leaves in an empty range the code points whose category, as the table of runs gives
  it, is one of those the name stands for.\<close>

theorem unicode_general_category_set:
  assumes "cr_wf cr" and "cr_len cr = 0"
  shows "\<exists>idx r cr'. unicode_find_name unicode_gc_name_table name = Some idx \<and>
    unicode_general_category cr name = Some (r, cr') \<and> cr_wf cr' \<and>
    (if idx < 0 then r = -2 \<and> cr' = cr
     else r = 0 \<and> points_ok (cr_data cr') \<and> (\<forall>u < UINT32_MAX. cr_in u (cr_data cr') = gc_any (gc_group (nat idx)) u) \<or>
          r = -1 \<and> \<not> alloc_total (cr_realloc_func cr))"
proof -
  obtain idx where idx: "unicode_find_name unicode_gc_name_table name = Some idx" "idx = -1 \<or> 0 \<le> idx \<and> idx < 38"
    using gc_name_find [of name] by blast
  show ?thesis
  proof (cases "idx = -1")
    case True
    then show ?thesis using idx(1) assms by (simp add: unicode_general_category_def)
  next
    case False
    then have b: "0 \<le> idx" "idx < 38" using idx(2) by auto
    have "unicode_general_category cr name = unicode_general_category1 cr (gc_mask_of (gc_group (nat idx)))"
      using idx(1) b gc_name_mask [OF b] by (simp add: unicode_general_category_def)
    then show ?thesis
      using fills_apply [OF gc_in_fills assms, of "gc_mask_of (gc_group (nat idx))"] idx(1) b gc_name_mask [OF b]
      by (auto simp: gc_in_mask_of)
  qed
qed

theorem unicode_general_category_set_witness:
  "\<exists>idx r cr'. unicode_find_name unicode_gc_name_table ''Letter'' = Some idx \<and>
    unicode_general_category (cr_init zrealloc) ''Letter'' = Some (r, cr') \<and> cr_wf cr' \<and>
    (if idx < 0 then r = -2 \<and> cr' = cr_init zrealloc
     else r = 0 \<and> points_ok (cr_data cr') \<and> (\<forall>u < UINT32_MAX. cr_in u (cr_data cr') = gc_any (gc_group (nat idx)) u) \<or>
          r = -1 \<and> \<not> alloc_total (cr_realloc_func (cr_init zrealloc)))"
  by (rule unicode_general_category_set) (simp_all add: cr_init_def cr_wf_def)

text \<open>C28: \<^verbatim>\<open>unicode_case1\<close> leaves in an empty range the code points that one of the conversions of the
  mask, as \<^verbatim>\<open>lre_case_conv\<close> computes them, changes.\<close>

theorem unicode_case1_set:
  assumes "cr_wf cr" and "cr_len cr = 0"
  shows "\<exists>r cr'. unicode_case1 cr case_mask = Some (r, cr') \<and> cr_wf cr' \<and>
    (r = 0 \<and> points_ok (cr_data cr') \<and> (\<forall>u < UINT32_MAX. cr_in u (cr_data cr') = case_changed case_mask u) \<or>
     r = -1 \<and> \<not> alloc_total (cr_realloc_func cr))"
  using fills_apply [OF case1_fills assms, of case_mask] by blast

theorem unicode_case1_set_witness:
  "\<exists>r cr'. unicode_case1 (cr_init zrealloc) (CASE_U OR CASE_F) = Some (r, cr') \<and> cr_wf cr' \<and>
    (r = 0 \<and> points_ok (cr_data cr') \<and> (\<forall>u < UINT32_MAX. cr_in u (cr_data cr') = case_changed (CASE_U OR CASE_F) u) \<or>
     r = -1 \<and> \<not> alloc_total (cr_realloc_func (cr_init zrealloc)))"
  by (rule unicode_case1_set) (simp_all add: cr_init_def cr_wf_def)

text \<open>C29: \<^verbatim>\<open>unicode_script\<close> returns -2 exactly for the names that are not in its table, and otherwise
  leaves in an empty range the code points of the script, with the script extensions when they are
  asked for. It never returns -1: when an allocation fails it does not return at all, because the
  code behind its label \<^verbatim>\<open>fail\<close> jumps back to that label.\<close>

theorem unicode_script_set:
  assumes "cr_wf cr" and "cr_len cr = 0"
  shows "\<exists>idx. unicode_find_name unicode_script_name_table name = Some idx \<and>
    (if idx < 0 then unicode_script cr name is_ext = Some (-2, cr)
     else (\<exists>cr'. unicode_script cr name is_ext = Some (0, cr') \<and> cr_wf cr' \<and> points_ok (cr_data cr') \<and>
            (\<forall>u < UINT32_MAX. cr_in u (cr_data cr') = script_set is_ext (word_of_int idx + 1) u)) \<or>
          unicode_script cr name is_ext = None \<and> \<not> alloc_total (cr_realloc_func cr))"
proof -
  obtain idx where idx: "unicode_find_name unicode_script_name_table name = Some idx" "idx = -1 \<or> 0 \<le> idx \<and> idx < 156"
    using script_name_find [of name] by blast
  define s where "s = (word_of_int idx + 1 :: u32)"
  define common where "common \<longleftrightarrow> s = UNICODE_SCRIPT_Common \<or> s = UNICODE_SCRIPT_Inherited"
  show ?thesis
  proof (cases "idx = -1 \<or> \<not> is_ext")
    case True
    show ?thesis
    proof (cases "idx = -1")
      case False
      with True have e: "\<not> is_ext" by simp
      obtain r cr' where r: "run_loop script_entry (script_add s) cr unicode_script_table 0 0 = Some (r, cr')" "cr_wf cr'"
        "r = 0 \<and> points_ok (cr_data cr') \<and> (\<forall>u < UINT32_MAX. cr_in u (cr_data cr') = (script_at u = Some s)) \<or>
          r = -1 \<and> \<not> alloc_total (cr_realloc_func cr)"
        using fills_apply [OF scripts_fill assms, of s] by blast
      have "unicode_script cr name is_ext = (if r \<noteq> 0 then script_fail cr else Some (0, cr'))"
        using idx False e r(1) by (simp add: unicode_script_def s_def UNICODE_SCRIPT_Unknown_def Let_def)
      then show ?thesis using r(2,3) idx False e
        by (auto simp: s_def [symmetric] script_set_def script_fail_diverges)
    qed (use idx in \<open>simp add: unicode_script_def\<close>)
  next
    case False
    then have e: "is_ext" "idx \<noteq> -1" by simp_all
    note iw = cr_init_wf [OF assms(1)]
    obtain r1 cr1 where r1: "run_loop script_entry (script_add s) (cr_init (cr_realloc_func cr)) unicode_script_table 0 0 = Some (r1, cr1)"
      and a1: "r1 = 0 \<and> points_ok (cr_data cr1) \<and> (\<forall>u < UINT32_MAX. cr_in u (cr_data cr1) = (script_at u = Some s)) \<or>
        r1 = -1 \<and> \<not> alloc_total (cr_realloc_func cr)"
      using fills_apply [OF scripts_fill conjunct1 [OF iw] conjunct2 [OF iw], of s] by (auto simp: cr_init_def)
    obtain r2 cr2 where r2: "run_loop script_ext_entry (script_ext_add unicode_script_ext_table common s) (cr_init (cr_realloc_func cr))
        unicode_script_ext_table 0 0 = Some (r2, cr2)" and w2: "cr_wf cr2" and k2: "cr_kept (cr_init (cr_realloc_func cr)) r2 cr2"
      and a2: "r2 = 0 \<and> points_ok (cr_data cr2) \<and> (\<forall>u < UINT32_MAX. cr_in u (cr_data cr2) =
          (if common then ext_scripts_at u \<noteq> [] else s \<in> set (ext_scripts_at u))) \<or>
        r2 = -1 \<and> \<not> alloc_total (cr_realloc_func cr)"
      using fills_apply [OF script_exts_fill conjunct1 [OF iw] conjunct2 [OF iw], of common s] by (auto simp: cr_init_def)
    have f2: "cr_realloc_func cr2 = cr_realloc_func cr" using k2 by (simp add: cr_kept_def cr_init_def)
    have u: "unicode_script cr name is_ext = (if r1 \<noteq> 0 then script_fail cr else if r2 \<noteq> 0 then script_fail cr
        else if common then Option.bind (cr_invert cr2) (\<lambda>(r, cr2). if r \<noteq> 0 then script_fail cr
           else Option.bind (cr_op cr (cr_data cr1) (cr_data cr2) CR_OP_INTER) (\<lambda>(r, cr). if r \<noteq> 0 then script_fail cr else Some (0, cr)))
        else Option.bind (cr_op cr (cr_data cr1) (cr_data cr2) CR_OP_UNION) (\<lambda>(r, cr). if r \<noteq> 0 then script_fail cr else Some (0, cr)))"
      using idx e r1 r2 unfolding common_def s_def
      by (simp add: unicode_script_def UNICODE_SCRIPT_Unknown_def Let_def)
    show ?thesis
    proof (cases "r1 = 0 \<and> r2 = 0")
      case True
      then have p: "points_ok (cr_data cr1)" "points_ok (cr_data cr2)" using a1 a2 by auto
      show ?thesis
      proof (cases common)
        case cm: True
        then show ?thesis using script_ext_combine(1) [OF assms p(1) w2 p(2) f2] True a1 a2 idx e unfolding u
          by (auto simp: s_def [symmetric] script_set_def common_def)
      next
        case nc: False
        then show ?thesis using script_ext_combine(2) [OF assms p(1) w2 p(2) f2] True a1 a2 idx e unfolding u
          by (auto simp: s_def [symmetric] script_set_def common_def)
      qed
    next
      case nz: False
      then show ?thesis using a1 a2 idx e unfolding u by (auto simp: script_fail_diverges)
    qed
  qed
qed

theorem unicode_script_set_witness:
  "\<exists>idx. unicode_find_name unicode_script_name_table ''Grek'' = Some idx \<and>
    (if idx < 0 then unicode_script (cr_init zrealloc) ''Grek'' True = Some (-2, cr_init zrealloc)
     else (\<exists>cr'. unicode_script (cr_init zrealloc) ''Grek'' True = Some (0, cr') \<and> cr_wf cr' \<and> points_ok (cr_data cr') \<and>
            (\<forall>u < UINT32_MAX. cr_in u (cr_data cr') = script_set True (word_of_int idx + 1) u)) \<or>
          unicode_script (cr_init zrealloc) ''Grek'' True = None \<and> \<not> alloc_total (cr_realloc_func (cr_init zrealloc)))"
  by (rule unicode_script_set) (simp_all add: cr_init_def cr_wf_def)

end
