(* ===== verification/Limbs.thy ===== *)
theory Limbs
  imports QPrelude
begin

text \<open>
  Natural numbers as arrays of 64-bit limbs, least significant first (the \<^verbatim>\<open>mp_\<close> functions of
  \<^verbatim>\<open>libbf.c\<close>): addition, subtraction, shifts and multiplication. An array is the list of
  its limbs; a loop from the high end works on the reversed list. The double limb is a 128-bit
  word, and every operation wraps at the width of its type in the code.
\<close>

type_synonym limb = "64 word"
type_synonym dlimb = "128 word"

named_theorems limb \<comment> \<open>facts on the values of limbs and arrays\<close>

abbreviation (input) LIMB_BITS :: nat where "LIMB_BITS \<equiv> 64"

definition b2l :: "bool \<Rightarrow> limb" where
  "b2l b = (if b then 1 else 0)"

section \<open>The operations\<close>

fun mp_add :: "limb list \<Rightarrow> limb list \<Rightarrow> limb \<Rightarrow> limb list \<times> limb" where
  "mp_add (v # op1) (w # op2) k =
     (let a = v + w; k1 = b2l (a < v); a = a + k; (res, k') = mp_add op1 op2 (b2l (a < k) OR k1)
      in (a # res, k'))"
| "mp_add _ _ k = ([], k)"

fun mp_add_ui :: "limb list \<Rightarrow> limb \<Rightarrow> limb list \<times> limb" where
  "mp_add_ui [] k = ([], k)"
| "mp_add_ui (x # tab) k =
     (if k = 0 then (x # tab, k)
      else let a = x + k; (res, k') = mp_add_ui tab (b2l (a < k)) in (a # res, k'))"

fun mp_sub :: "limb list \<Rightarrow> limb list \<Rightarrow> limb \<Rightarrow> limb list \<times> limb" where
  "mp_sub (v # op1) (w # op2) k =
     (let a = v - w; k1 = b2l (a > v); v = a - k; (res, k') = mp_sub op1 op2 (b2l (v > a) OR k1)
      in (v # res, k'))"
| "mp_sub _ _ k = ([], k)"

fun mp_neg :: "limb list \<Rightarrow> limb \<Rightarrow> limb list \<times> limb" where
  "mp_neg [] k = ([], k)"
| "mp_neg (w # op2) k =
     (let v = 0; a = v - w; k1 = b2l (a > v); v = a - k; (res, k') = mp_neg op2 (b2l (v > a) OR k1)
      in (v # res, k'))"

fun mp_sub_ui :: "limb list \<Rightarrow> limb \<Rightarrow> limb list \<times> limb" where
  "mp_sub_ui [] k = ([], k)"
| "mp_sub_ui (v # tab) k =
     (let a = v - k; k = b2l (a > v)
      in if k = 0 then (a # tab, k) else let (res, k') = mp_sub_ui tab k in (a # res, k'))"

text \<open>The loop of \<^verbatim>\<open>mp_shr\<close> from the high end: \<open>l\<close> is the limb above, the result grows downwards.\<close>

fun mp_shr_loop :: "limb list \<Rightarrow> nat \<Rightarrow> limb \<Rightarrow> limb list \<Rightarrow> limb list \<times> limb" where
  "mp_shr_loop [] shift l tab_r = (tab_r, l)"
| "mp_shr_loop (a # rtab) shift l tab_r =
     mp_shr_loop rtab shift a ((drop_bit shift a OR push_bit (LIMB_BITS - shift) l) # tab_r)"

definition mp_shr :: "limb list \<Rightarrow> nat \<Rightarrow> limb \<Rightarrow> (limb list \<times> limb) option" where
  "mp_shr tab shift high =
     (if shift \<ge> 1 \<and> shift < LIMB_BITS then
        let (tab_r, l) = mp_shr_loop (rev tab) shift high []
        in Some (tab_r, l AND (push_bit shift 1 - 1))
      else None)"

fun mp_mul1 :: "limb list \<Rightarrow> limb \<Rightarrow> limb \<Rightarrow> limb list \<times> limb" where
  "mp_mul1 [] b l = ([], l)"
| "mp_mul1 (a # taba) b l =
     (let t = (ucast a :: dlimb) * ucast b + ucast l; (tabr, l') = mp_mul1 taba b (ucast (drop_bit LIMB_BITS t))
      in (ucast t # tabr, l'))"

fun mp_add_mul1_loop :: "limb list \<Rightarrow> limb list \<Rightarrow> limb \<Rightarrow> limb \<Rightarrow> limb list \<times> limb" where
  "mp_add_mul1_loop (r # tabr) (a # taba) b l =
     (let t = (ucast a :: dlimb) * ucast b + ucast l + ucast r;
          (tabr', l') = mp_add_mul1_loop tabr taba b (ucast (drop_bit LIMB_BITS t))
      in (ucast t # tabr', l'))"
| "mp_add_mul1_loop _ _ b l = ([], l)"

definition mp_add_mul1 :: "limb list \<Rightarrow> limb list \<Rightarrow> limb \<Rightarrow> limb list \<times> limb" where
  "mp_add_mul1 tabr taba b = mp_add_mul1_loop tabr taba b 0"

text \<open>A call on a part of an array: the \<open>n\<close> limbs from position \<open>i\<close> on are read, and written
  back; a part that does not lie inside the array is \<open>None\<close>.\<close>

definition rd_seg :: "limb list \<Rightarrow> nat \<Rightarrow> nat \<Rightarrow> limb list option" where
  "rd_seg xs i n = (if i + n \<le> length xs then Some (take n (drop i xs)) else None)"

definition wr_seg :: "limb list \<Rightarrow> nat \<Rightarrow> limb list \<Rightarrow> limb list option" where
  "wr_seg xs i ys = (if i + length ys \<le> length xs then Some (take i xs @ ys @ drop (i + length ys) xs) else None)"

function mul_basecase_loop :: "limb list \<Rightarrow> limb list \<Rightarrow> limb list \<Rightarrow> nat \<Rightarrow> limb list option" where
  "mul_basecase_loop result op1 op2 i =
     (if i < length op2 then
        Option.bind (rd_seg result i (length op1)) (\<lambda>tabr.
        let (res, r) = mp_add_mul1 tabr op1 (op2 ! i) in
        Option.bind (wr_seg result i res) (\<lambda>result.
        Option.bind (wr result (i + length op1) r) (\<lambda>result.
        mul_basecase_loop result op1 op2 (i + 1))))
      else Some result)"
  by pat_completeness auto
termination by (relation "measure (\<lambda>(result, op1, op2, i). length op2 - i)") auto

declare mul_basecase_loop.simps [simp del]

definition mp_mul_basecase :: "limb list \<Rightarrow> limb list \<Rightarrow> limb list \<Rightarrow> limb list option" where
  "mp_mul_basecase result op1 op2 = do {
     b \<leftarrow> rd op2 0;
     let (res, h) = mp_mul1 op1 b 0;
     result \<leftarrow> wr_seg result 0 res;
     result \<leftarrow> wr result (length op1) h;
     mul_basecase_loop result op1 op2 1 }"

fun mp_sub_mul1_loop :: "limb list \<Rightarrow> limb list \<Rightarrow> limb \<Rightarrow> limb \<Rightarrow> limb list \<times> limb" where
  "mp_sub_mul1_loop (r # tabr) (a # taba) b l =
     (let t = (ucast r :: dlimb) - ucast a * ucast b - ucast l;
          (tabr', l') = mp_sub_mul1_loop tabr taba b (ucast (- drop_bit LIMB_BITS t))
      in (ucast t # tabr', l'))"
| "mp_sub_mul1_loop _ _ b l = ([], l)"

definition mp_sub_mul1 :: "limb list \<Rightarrow> limb list \<Rightarrow> limb \<Rightarrow> limb list \<times> limb" where
  "mp_sub_mul1 tabr taba b = mp_sub_mul1_loop tabr taba b 0"

section \<open>Values\<close>

fun val :: "limb list \<Rightarrow> int" where
  "val [] = 0"
| "val (x # xs) = uint x + 2 ^ 64 * val xs"

text \<open>The weight of the position \<open>n\<close>.\<close>

definition bpow :: "nat \<Rightarrow> int" where
  "bpow n = 2 ^ (64 * n)"

lemma bpow_simps [simp]: "bpow 0 = 1" "bpow (Suc n) = 2 ^ 64 * bpow n"
  by (simp_all add: bpow_def power_add)

lemma bpow_add: "bpow (m + n) = bpow m * bpow n"
  by (simp add: bpow_def power_add distrib_left)

lemma bpow_pos [simp]: "0 < bpow n" "0 \<le> bpow n"
  by (simp_all add: bpow_def)

lemma limb_lt [limb]: "uint (x :: limb) < 2 ^ 64"
  using uint_lt2p [of x] by simp

lemma val_nonneg [simp, limb]: "0 \<le> val xs"
  by (induction xs) auto

lemma val_append: "val (xs @ ys) = val xs + bpow (length xs) * val ys"
  by (induction xs) (simp_all add: algebra_simps)

lemma val_lt [limb]: "val xs < bpow (length xs)"
proof (induction xs)
  case (Cons x xs)
  then have "2 ^ 64 * val xs \<le> 2 ^ 64 * (bpow (length xs) - 1)" by (intro mult_left_mono) auto
  then show ?case using limb_lt [of x] by (simp add: algebra_simps)
qed simp

lemma val_eq_iff: "length xs = length ys \<Longrightarrow> val xs = val ys \<longleftrightarrow> xs = ys"
proof (induction xs ys rule: list_induct2)
  case (Cons x xs y ys)
  have "x = y \<and> val xs = val ys" if e: "uint x + 2 ^ 64 * val xs = uint y + 2 ^ 64 * val ys"
  proof -
    have "uint x = uint y"
      using arg_cong [OF e, of "\<lambda>n. n mod 2 ^ 64"] limb_lt [of x] limb_lt [of y] by (simp add: mod_pos_pos_trivial)
    then show ?thesis using e by (simp add: word_uint_eq_iff)
  qed
  then show ?case using Cons by auto
qed simp

text \<open>The steps of the loops, as arithmetic. The carries are 0 or 1.\<close>

lemma uint_b2l [simp]: "uint (b2l b) = of_bool b"
  by (simp add: b2l_def)

lemma b2l_or: "b2l a OR b2l b = b2l (a \<or> b)"
  by (simp add: b2l_def)

lemma b2l_0 [simp]: "b2l b = 0 \<longleftrightarrow> \<not> b"
  by (simp add: b2l_def)

lemma uint_add_limb: "uint ((x :: limb) + y) = uint x + uint y - 2 ^ 64 * of_bool (x + y < x)"
proof -
  have "uint (x + y) = (if uint x + uint y < 2 ^ 64 then uint x + uint y else uint x + uint y - 2 ^ 64)"
    using uint_plus_if' [of x y] by simp
  then show ?thesis using limb_lt [of x] limb_lt [of y] by (auto simp: word_less_def)
qed

lemma uint_sub_limb: "uint ((x :: limb) - y) = uint x - uint y + 2 ^ 64 * of_bool (x - y > x)"
proof -
  have "uint (x - y) = (if uint y \<le> uint x then uint x - uint y else uint x - uint y + 2 ^ 64)"
    using uint_sub_if' [of x y] by simp
  then show ?thesis using limb_lt [of x] limb_lt [of y] by (auto simp: word_less_def)
qed

lemma add_step:
  fixes v w k :: limb
  assumes "uint k \<le> 1"
  shows "uint (v + w + k) + 2 ^ 64 * uint (b2l (v + w + k < k) OR b2l (v + w < v)) = uint v + uint w + uint k"
    "uint (b2l (v + w + k < k) OR b2l (v + w < v)) \<le> 1"
proof -
  note A = uint_add_limb [of v w] and B = uint_add_limb [of "v + w" k] and C = uint_add_limb [of k "v + w", unfolded add.commute [of k "v + w"]]
  have c: "v + w + k < v + w \<longleftrightarrow> v + w + k < k"
    by (cases "v + w + k < v + w"; cases "v + w + k < k") (use B C in simp_all)
  note B = B [unfolded c]
  have n: "\<not> (v + w + k < k \<and> v + w < v)"
  proof
    assume "v + w + k < k \<and> v + w < v"
    then have "uint (v + w) = uint v + uint w - 2 ^ 64" "uint (v + w + k) = uint (v + w) + uint k - 2 ^ 64" using A B by simp_all
    then show False using assms limb_lt [of v] limb_lt [of w] uint_ge_0 [of "v + w + k"] by linarith
  qed
  have "uint (v + w + k) = uint v + uint w + uint k - 2 ^ 64 * (of_bool (v + w < v) + of_bool (v + w + k < k))"
    using A B by (simp add: algebra_simps)
  moreover have "of_bool (v + w < v) + of_bool (v + w + k < k) = (of_bool (v + w + k < k \<or> v + w < v) :: int)"
    using n by auto
  ultimately show "uint (v + w + k) + 2 ^ 64 * uint (b2l (v + w + k < k) OR b2l (v + w < v)) = uint v + uint w + uint k"
    unfolding b2l_or uint_b2l by simp
  show "uint (b2l (v + w + k < k) OR b2l (v + w < v)) \<le> 1" unfolding b2l_or by simp
qed

lemma sub_step:
  fixes v w k :: limb
  assumes "uint k \<le> 1"
  shows "uint (v - w - k) - 2 ^ 64 * uint (b2l (v - w - k > v - w) OR b2l (v - w > v)) = uint v - uint w - uint k"
    "uint (b2l (v - w - k > v - w) OR b2l (v - w > v)) \<le> 1"
proof -
  note A = uint_sub_limb [of v w] and B = uint_sub_limb [of "v - w" k]
  have n: "\<not> (v - w - k > v - w \<and> v - w > v)"
  proof
    assume "v - w - k > v - w \<and> v - w > v"
    then have "uint (v - w) = uint v - uint w + 2 ^ 64" "uint (v - w - k) = uint (v - w) - uint k + 2 ^ 64" using A B by simp_all
    then show False using assms limb_lt [of w] limb_lt [of "v - w - k"] uint_ge_0 [of v] by linarith
  qed
  have "uint (v - w - k) = uint v - uint w - uint k + 2 ^ 64 * (of_bool (v - w > v) + of_bool (v - w - k > v - w))"
    using A B by (simp add: algebra_simps)
  moreover have "of_bool (v - w > v) + of_bool (v - w - k > v - w) = (of_bool (v - w - k > v - w \<or> v - w > v) :: int)"
    using n by auto
  ultimately show "uint (v - w - k) - 2 ^ 64 * uint (b2l (v - w - k > v - w) OR b2l (v - w > v)) = uint v - uint w - uint k"
    unfolding b2l_or uint_b2l by simp
  show "uint (b2l (v - w - k > v - w) OR b2l (v - w > v)) \<le> 1" unfolding b2l_or by simp
qed

text \<open>One step of a loop with a carry: \<open>r\<close> is the limb written, \<open>c\<close> the carry into the rest.\<close>

lemma carry_step:
  fixes r c X Y k p vs :: int
  assumes "vs + p * k = Y + c" and "r + 2 ^ 64 * c = X"
  shows "r + 2 ^ 64 * vs + 2 ^ 64 * p * k = X + 2 ^ 64 * Y"
proof -
  have "r + 2 ^ 64 * vs + 2 ^ 64 * p * k = r + 2 ^ 64 * (vs + p * k)" by (simp only: distrib_left mult.assoc add.assoc)
  then show ?thesis using assms by simp
qed

lemma borrow_step:
  fixes r c X Y k p vs :: int
  assumes "vs - p * k = Y - c" and "r - 2 ^ 64 * c = X"
  shows "r + 2 ^ 64 * vs - 2 ^ 64 * p * k = X + 2 ^ 64 * Y"
  using carry_step [of vs p "- k" Y "- c" r X] assms by simp

section \<open>Addition and subtraction\<close>

lemma mp_add_val:
  "length op1 = length op2 \<Longrightarrow> uint k \<le> 1 \<Longrightarrow> mp_add op1 op2 k = (res, k') \<Longrightarrow>
   length res = length op1 \<and> uint k' \<le> 1 \<and> val res + bpow (length res) * uint k' = val op1 + val op2 + uint k"
proof (induction op1 op2 arbitrary: k res k' rule: list_induct2)
  case (Cons v op1 w op2)
  note s = add_step [OF Cons.prems(1), of v w]
  obtain res2 k2 where r: "mp_add op1 op2 (b2l (v + w + k < k) OR b2l (v + w < v)) = (res2, k2)" by (metis surj_pair)
  from Cons.IH [OF s(2) r] have ih: "length res2 = length op1 \<and> uint k2 \<le> 1 \<and> val res2 + bpow (length res2) * uint k2 = val op1 + val op2 + uint (b2l (v + w + k < k) OR b2l (v + w < v))" .
  have e: "res = (v + w + k) # res2" "k' = k2" using Cons.prems(2) r by (simp_all add: Let_def)
  show ?case using carry_step [OF conjunct2 [OF conjunct2 [OF ih]] s(1)] ih unfolding e by (simp add: algebra_simps)
qed simp

lemma mp_sub_val:
  "length op1 = length op2 \<Longrightarrow> uint k \<le> 1 \<Longrightarrow> mp_sub op1 op2 k = (res, k') \<Longrightarrow>
   length res = length op1 \<and> uint k' \<le> 1 \<and> val res - bpow (length res) * uint k' = val op1 - val op2 - uint k"
proof (induction op1 op2 arbitrary: k res k' rule: list_induct2)
  case (Cons v op1 w op2)
  note s = sub_step [OF Cons.prems(1), of v w]
  obtain res2 k2 where r: "mp_sub op1 op2 (b2l (v - w - k > v - w) OR b2l (v - w > v)) = (res2, k2)" by (metis surj_pair)
  from Cons.IH [OF s(2) r] have ih: "length res2 = length op1 \<and> uint k2 \<le> 1 \<and> val res2 - bpow (length res2) * uint k2 = val op1 - val op2 - uint (b2l (v - w - k > v - w) OR b2l (v - w > v))" .
  have e: "res = (v - w - k) # res2" "k' = k2" using Cons.prems(2) r by (simp_all add: Let_def)
  show ?case using borrow_step [OF _ s(1), of "val res2" "bpow (length res2)" "uint k2" "val op1 - val op2"] ih unfolding e by (simp add: algebra_simps)
qed simp

lemma mp_neg_sub: "mp_neg op2 k = mp_sub (replicate (length op2) 0) op2 k"
  by (induction op2 k rule: mp_neg.induct) (simp_all add: Let_def)

lemma mp_add_ui_val:
  "mp_add_ui tab k = (res, k') \<Longrightarrow>
   length res = length tab \<and> val res + bpow (length res) * uint k' = val tab + uint k"
proof (induction tab arbitrary: k res k')
  case (Cons x tab)
  show ?case
  proof (cases "k = 0")
    case False
    have c: "x + k < k \<longleftrightarrow> x + k < x"
      by (cases "x + k < k"; cases "x + k < x")
        (use uint_add_limb [of x k] uint_add_limb [of k x, unfolded add.commute [of k x]] in simp_all)
    obtain res2 k2 where r: "mp_add_ui tab (b2l (x + k < k)) = (res2, k2)" by (metis surj_pair)
    from Cons.IH [OF r] have ih: "length res2 = length tab \<and> val res2 + bpow (length res2) * uint k2 = val tab + uint (b2l (x + k < k))" .
    have e: "res = (x + k) # res2" "k' = k2" using Cons.prems r False by (simp_all add: Let_def)
    have "uint (x + k) + 2 ^ 64 * uint (b2l (x + k < k)) = uint x + uint k" using uint_add_limb [of x k] unfolding c by simp
    from carry_step [OF conjunct2 [OF ih] this] show ?thesis using ih unfolding e by (simp add: algebra_simps)
  qed (use Cons.prems in simp)
qed simp

lemma mp_sub_ui_val:
  "mp_sub_ui tab k = (res, k') \<Longrightarrow>
   length res = length tab \<and> val res - bpow (length res) * uint k' = val tab - uint k"
proof (induction tab arbitrary: k res k')
  case (Cons v tab)
  show ?case
  proof (cases "v - k > v")
    case True
    obtain res2 k2 where r: "mp_sub_ui tab (b2l True) = (res2, k2)" by (metis surj_pair)
    from Cons.IH [OF r] have ih: "length res2 = length tab \<and> val res2 - bpow (length res2) * uint k2 = val tab - 1" unfolding uint_b2l of_bool_eq .
    have e: "res = (v - k) # res2" "k' = k2" using Cons.prems r True by (simp_all add: Let_def)
    have "uint (v - k) - 2 ^ 64 * 1 = uint v - uint k" using uint_sub_limb [of v k] True by simp
    from borrow_step [OF conjunct2 [OF ih] this] show ?thesis using ih unfolding e by (simp add: algebra_simps)
  next
    case False
    then show ?thesis using Cons.prems uint_sub_limb [of v k] by (auto simp: Let_def b2l_def)
  qed
qed simp


section \<open>Multiplication\<close>

lemma uint_dlimb [simp]: "uint (ucast (x :: limb) :: dlimb) = uint x"
  using limb_lt [of x] by (simp add: uint_ucast_down mod_pos_pos_trivial)

lemma limb_mult_le: "uint (a :: limb) * uint (b :: limb) \<le> (2 ^ 64 - 1) * (2 ^ 64 - 1)"
  using limb_lt [of a] limb_lt [of b] by (intro mult_mono) simp_all

lemma uint_low_limb: "uint (ucast (t :: dlimb) :: limb) = uint t mod 2 ^ 64"
  by (simp add: uint_ucast_down)

lemma uint_drop_64: "uint (drop_bit 64 (t :: dlimb)) = uint t div 2 ^ 64"
  unfolding drop_bit_eq_div by (simp add: uint_div)

lemma uint_high_limb: "uint (ucast (drop_bit 64 (t :: dlimb)) :: limb) = uint t div 2 ^ 64"
proof -
  have "uint t div 2 ^ 64 < 2 ^ 64" using uint_lt2p [of t] by (simp add: div_less_iff_less_mult)
  moreover have "0 \<le> uint t div 2 ^ 64" by (simp add: pos_imp_zdiv_nonneg_iff)
  ultimately show ?thesis unfolding uint_low_limb uint_drop_64
    by (intro mod_pos_pos_trivial)
qed

lemma uint_mul_add:
  fixes a b l r :: limb
  shows "uint ((ucast a :: dlimb) * ucast b + ucast l + ucast r) = uint a * uint b + uint l + uint r"
proof -
  have "uint a * uint b + uint l + uint r < 2 ^ 128"
    using limb_mult_le [of a b] limb_lt [of l] limb_lt [of r] by simp
  then show ?thesis by (simp add: uint_word_ariths mod_simps mod_pos_pos_trivial)
qed

lemma mul_step:
  fixes a b l r :: limb
  defines "t \<equiv> (ucast a :: dlimb) * ucast b + ucast l + ucast r"
  shows "uint (ucast t :: limb) + 2 ^ 64 * uint (ucast (drop_bit 64 t) :: limb) = uint a * uint b + uint l + uint r"
  unfolding uint_high_limb unfolding uint_low_limb t_def uint_mul_add by simp

lemma mp_mul1_val:
  "mp_mul1 taba b l = (res, l') \<Longrightarrow> length res = length taba \<and> val res + bpow (length res) * uint l' = val taba * uint b + uint l"
proof (induction taba arbitrary: l res l')
  case (Cons a taba)
  let ?t = "(ucast a :: dlimb) * ucast b + ucast l"
  have s: "uint (ucast ?t :: limb) + 2 ^ 64 * uint (ucast (drop_bit 64 ?t) :: limb) = uint a * uint b + uint l"
    using mul_step [of a b l 0] by simp
  obtain res2 l2 where r: "mp_mul1 taba b (ucast (drop_bit 64 ?t)) = (res2, l2)" by (metis surj_pair)
  note ih = Cons.IH [OF r]
  have e: "res = ucast ?t # res2" "l' = l2" using Cons.prems r by (simp_all add: Let_def)
  show ?case using carry_step [OF conjunct2 [OF ih] s] ih unfolding e by (simp add: algebra_simps)
qed simp

lemma mp_add_mul1_loop_val:
  "length tabr = length taba \<Longrightarrow> mp_add_mul1_loop tabr taba b l = (res, l') \<Longrightarrow>
   length res = length taba \<and> val res + bpow (length res) * uint l' = val tabr + val taba * uint b + uint l"
proof (induction tabr taba arbitrary: l res l' rule: list_induct2)
  case (Cons r tabr a taba)
  let ?t = "(ucast a :: dlimb) * ucast b + ucast l + ucast r"
  note s = mul_step [of a b l r]
  obtain res2 l2 where q: "mp_add_mul1_loop tabr taba b (ucast (drop_bit 64 ?t)) = (res2, l2)" by (metis surj_pair)
  note ih = Cons.IH [OF q]
  have e: "res = ucast ?t # res2" "l' = l2" using Cons.prems q by (simp_all add: Let_def)
  show ?case using carry_step [OF conjunct2 [OF ih] s] ih unfolding e by (simp add: algebra_simps)
qed simp

lemma neg_high:
  fixes N B :: int
  assumes "0 < B" and "- (B * (B - 1)) \<le> N" and "N < B"
  shows "N mod B - B * (- (N mod (B * B) div B) mod B) = N"
proof -
  have "N mod (B * B) = B * (N div B mod B) + N mod B" using assms(1) by (simp add: zmod_zmult2_eq)
  then have "N mod (B * B) div B = N div B mod B" using assms(1) by (simp add: div_pos_pos_trivial)
  then have m: "- (N mod (B * B) div B) mod B = - (N div B) mod B" by (simp add: mod_minus_eq)
  have "- (B - 1) * B \<le> N" using assms(2) by (simp add: algebra_simps)
  from zdiv_mono1 [OF this assms(1)] have "- (B - 1) \<le> N div B" using assms(1) by simp
  moreover have "N div B < 1" using zdiv_mono1 [of N "B - 1" B] assms(1,3) by (simp add: div_pos_pos_trivial)
  ultimately have "- (N div B) mod B = - (N div B)" by (intro mod_pos_pos_trivial) linarith+
  then show ?thesis unfolding m using div_mult_mod_eq [of N B] by (simp add: algebra_simps)
qed

lemma sub_mul_step:
  fixes a b l r :: limb
  defines "t \<equiv> (ucast r :: dlimb) - ucast a * ucast b - ucast l"
  shows "uint (ucast t :: limb) - 2 ^ 64 * uint (ucast (- drop_bit 64 t) :: limb) = uint r - uint a * uint b - uint l"
proof -
  let ?N = "uint r - uint a * uint b - uint l"
  have t: "uint t = ?N mod 2 ^ 128" unfolding t_def by (simp add: uint_word_ariths mod_simps)
  have h: "uint (ucast (- drop_bit 64 t) :: limb) = - (uint t div 2 ^ 64) mod 2 ^ 64"
    unfolding uint_low_limb uint_word_ariths uint_drop_64 by (simp add: mod_mod_cancel)
  have l: "uint (ucast t :: limb) = ?N mod 2 ^ 64" unfolding uint_low_limb t by (simp add: mod_mod_cancel)
  have e: "(2 ^ 64 - 1) * (2 ^ 64 - 1) + 2 ^ 64 - 1 \<le> (2 ^ 64 * (2 ^ 64 - 1) :: int)" "(2 :: int) ^ 128 = 2 ^ 64 * 2 ^ 64" by simp_all
  have lo: "- (2 ^ 64 * (2 ^ 64 - 1)) \<le> ?N" using limb_mult_le [of a b] limb_lt [of l] uint_ge_0 [of r] e(1) by linarith
  have hi: "?N < 2 ^ 64" using limb_lt [of r] uint_ge_0 [of l] mult_nonneg_nonneg [OF uint_ge_0 [of a] uint_ge_0 [of b]] by linarith
  show ?thesis unfolding h l t e(2) by (rule neg_high [OF _ lo hi]) simp
qed

lemma mp_sub_mul1_loop_val:
  "length tabr = length taba \<Longrightarrow> mp_sub_mul1_loop tabr taba b l = (res, l') \<Longrightarrow>
   length res = length taba \<and> val res - bpow (length res) * uint l' = val tabr - val taba * uint b - uint l"
proof (induction tabr taba arbitrary: l res l' rule: list_induct2)
  case (Cons r tabr a taba)
  let ?t = "(ucast r :: dlimb) - ucast a * ucast b - ucast l"
  note s = sub_mul_step [of r a b l]
  obtain res2 l2 where q: "mp_sub_mul1_loop tabr taba b (ucast (- drop_bit 64 ?t)) = (res2, l2)" by (metis surj_pair)
  note ih = Cons.IH [OF q]
  have e: "res = ucast ?t # res2" "l' = l2" using Cons.prems q by (simp_all add: Let_def)
  show ?case using borrow_step [OF conjunct2 [OF ih] s] ih unfolding e by (simp add: algebra_simps)
qed simp


lemma write_limbs:
  assumes "i + length res < length result"
  shows "\<exists>result'. wr_seg result i res = Some result' \<and>
    wr result' (i + length res) r = Some (take i result @ res @ r # drop (i + length res + 1) result)"
proof -
  have "drop (i + length res) result = result ! (i + length res) # drop (i + length res + 1) result"
    using assms by (simp add: Cons_nth_drop_Suc)
  then show ?thesis using assms by (simp add: wr_seg_def wr_def list_update_append)
qed

lemma val_take_Suc: "i < length xs \<Longrightarrow> val (take (Suc i) xs) = val (take i xs) + bpow i * uint (xs ! i)"
  by (simp add: take_Suc_conv_app_nth val_append)

lemma mul_basecase_loop_val:
  "i \<le> length op2 \<Longrightarrow> length op1 + length op2 \<le> length result \<Longrightarrow> val (take (i + length op1) result) = val op1 * val (take i op2) \<Longrightarrow>
   \<exists>result'. mul_basecase_loop result op1 op2 i = Some result' \<and> length result' = length result \<and>
     val (take (length op1 + length op2) result') = val op1 * val op2 \<and>
     drop (length op1 + length op2) result' = drop (length op1 + length op2) result"
proof (induction result op1 op2 i rule: mul_basecase_loop.induct)
  case (1 result op1 op2 i)
  let ?n = "length op1"
  show ?case
  proof (cases "i < length op2")
    case True
    let ?S = "take ?n (drop i result)"
    have S: "rd_seg result i ?n = Some ?S" "length ?S = ?n" using True "1.prems"(2) by (simp_all add: rd_seg_def)
    obtain res r where a: "mp_add_mul1 ?S op1 (op2 ! i) = (res, r)" by (metis surj_pair)
    note q = mp_add_mul1_loop_val [OF S(2) a [unfolded mp_add_mul1_def]]
    have v: "length res = ?n" "val res + bpow ?n * uint r = val ?S + val op1 * uint (op2 ! i)"
      using conjunct2 [OF q] unfolding conjunct1 [OF q] by (simp_all add: conjunct1 [OF q])
    let ?R = "take i result @ res @ r # drop (i + ?n + 1) result"
    have il: "i + length res < length result" using True "1.prems"(2) v(1) by simp
    obtain result1 where w: "wr_seg result i res = Some result1" "wr result1 (i + ?n) r = Some ?R"
      using write_limbs [OF il, of r] v(1) by auto
    have step: "mul_basecase_loop result op1 op2 i = mul_basecase_loop ?R op1 op2 (i + 1)"
      using True S a w by (simp add: mul_basecase_loop.simps [of result op1 op2 i])
    have len: "length ?R = length result" using il v(1) by simp
    have "take (i + 1 + ?n) ?R = take i result @ res @ [r]" using il v(1) by simp
    then have "val (take (i + 1 + ?n) ?R) = val (take i result) + bpow i * (val res + bpow ?n * uint r)"
      using il v(1) by (simp add: val_append)
    also have "\<dots> = val (take i result @ ?S) + bpow i * (val op1 * uint (op2 ! i))"
      unfolding v(2) using il by (simp add: val_append distrib_left)
    also have "take i result @ ?S = take (i + ?n) result" by (simp add: take_add)
    also have "val (take (i + ?n) result) + bpow i * (val op1 * uint (op2 ! i)) = val op1 * val (take (i + 1) op2)"
      using "1.prems"(3) val_take_Suc [OF True] by (simp add: distrib_left mult.left_commute)
    finally have V: "val (take (i + 1 + ?n) ?R) = val op1 * val (take (i + 1) op2)" .
    obtain k where "length op2 = Suc (i + k)" using True less_imp_Suc_add by blast
    then have d: "drop (?n + length op2) ?R = drop (?n + length op2) result" using il v(1) by (simp add: ac_simps)
    have "\<exists>result'. mul_basecase_loop ?R op1 op2 (i + 1) = Some result' \<and> length result' = length ?R \<and>
       val (take (length op1 + length op2) result') = val op1 * val op2 \<and>
       drop (length op1 + length op2) result' = drop (length op1 + length op2) ?R"
      by (rule "1.IH" [OF True S(1) refl a [symmetric] w]) (use True V "1.prems"(2) len in simp_all)
    then show ?thesis unfolding step len d .
  next
    case False
    then show ?thesis using "1.prems" by (simp add: mul_basecase_loop.simps [of result] add.commute)
  qed
qed

lemma mp_mul_basecase_val:
  assumes "op2 \<noteq> []" and "length op1 + length op2 \<le> length result"
  shows "\<exists>result'. mp_mul_basecase result op1 op2 = Some result' \<and> length result' = length result \<and>
     val (take (length op1 + length op2) result') = val op1 * val op2 \<and>
     drop (length op1 + length op2) result' = drop (length op1 + length op2) result"
proof -
  let ?n = "length op1"
  obtain b bs where op2: "op2 = b # bs" using assms(1) by (cases op2) auto
  obtain res h where a: "mp_mul1 op1 b 0 = (res, h)" by (metis surj_pair)
  note q = mp_mul1_val [OF a]
  have v: "length res = ?n" "val res + bpow ?n * uint h = val op1 * uint b"
    using conjunct2 [OF q] unfolding conjunct1 [OF q] by (simp_all add: conjunct1 [OF q])
  let ?R = "res @ h # drop (?n + 1) result"
  obtain result1 where w: "wr_seg result 0 res = Some result1" "wr result1 ?n h = Some ?R"
    using write_limbs [of 0 res result h] assms v(1) op2 by auto
  have step: "mp_mul_basecase result op1 op2 = mul_basecase_loop ?R op1 op2 1"
    using a w op2 by (simp add: mp_mul_basecase_def)
  have len: "length ?R = length result" using assms v(1) op2 by simp
  have "take (1 + ?n) ?R = res @ [h]" using v(1) by simp
  then have V: "val (take (1 + ?n) ?R) = val op1 * val (take 1 op2)" using v op2 by (simp add: val_append)
  have d: "drop (?n + length op2) ?R = drop (?n + length op2) result" using v(1) op2 by (simp add: ac_simps)
  show ?thesis unfolding step using mul_basecase_loop_val [of 1 op2 op1 ?R] V assms len d op2 by simp
qed

section \<open>Shift\<close>

lemma div_lt_int:
  fixes x b c :: int
  assumes "0 < c" and "x < c * b"
  shows "x div c < b"
proof (rule ccontr)
  assume "\<not> x div c < b"
  then have "c * b \<le> c * (x div c)" using assms(1) by (intro mult_left_mono) auto
  also have "c * (x div c) = x - x mod c" by (simp only: minus_mod_eq_mult_div)
  also have "\<dots> \<le> x" using assms(1) by simp
  finally show False using assms(2) by simp
qed

lemma shr_limb:
  assumes "s < 64" and "0 < s"
  shows "uint (drop_bit s a OR push_bit (64 - s) (l :: limb)) = (uint a + 2 ^ 64 * uint l) div 2 ^ s mod 2 ^ 64"
proof -
  have e: "2 ^ 64 = 2 ^ s * (2 ^ (64 - s) :: int)" using assms by (simp flip: power_add)
  have lo: "uint (drop_bit s a) = uint a div 2 ^ s" unfolding unsigned_drop_bit_eq by (simp add: drop_bit_eq_div bintr_uint)
  have lt: "uint a div 2 ^ s < 2 ^ (64 - s)"
  proof -
    have "uint a < 2 ^ s * 2 ^ (64 - s)" using limb_lt [of a] e by simp
    then show ?thesis by (rule div_lt_int [rotated]) simp
  qed
  have hi: "uint (push_bit (64 - s) l) = (2 ^ (64 - s) * uint l) mod 2 ^ 64"
    unfolding unsigned_push_bit_eq by (simp add: take_bit_eq_mod push_bit_eq_mult mult.commute)
  have hi2: "(2 ^ (64 - s) * uint l) mod 2 ^ 64 = 2 ^ (64 - s) * (uint l mod 2 ^ s)"
    unfolding e by (simp add: mult.commute [of "2 ^ s"] mod_mult_mult1)
  have "uint (drop_bit s a OR push_bit (64 - s) l) = push_bit (64 - s) (uint l mod 2 ^ s) OR uint a div 2 ^ s"
    unfolding unsigned_or_eq lo hi hi2 by (simp add: push_bit_eq_mult mult.commute or.commute)
  also have "\<dots> = uint l mod 2 ^ s * 2 ^ (64 - s) + uint a div 2 ^ s"
    by (rule or_disjoint_int) (use lt in \<open>simp_all add: pos_imp_zdiv_nonneg_iff\<close>)
  also have "\<dots> = (uint a div 2 ^ s + 2 ^ (64 - s) * uint l) mod 2 ^ 64"
  proof -
    have "(uint a div 2 ^ s + 2 ^ (64 - s) * uint l) mod (2 ^ (64 - s) * 2 ^ s) =
        2 ^ (64 - s) * ((uint a div 2 ^ s + 2 ^ (64 - s) * uint l) div 2 ^ (64 - s) mod 2 ^ s) +
        (uint a div 2 ^ s + 2 ^ (64 - s) * uint l) mod 2 ^ (64 - s)" by (simp add: zmod_zmult2_eq)
    then show ?thesis using lt unfolding e
      by (simp add: div_pos_pos_trivial mod_pos_pos_trivial pos_imp_zdiv_nonneg_iff mult.commute)
  qed
  also have "uint a div 2 ^ s + 2 ^ (64 - s) * uint l = (uint a + 2 ^ 64 * uint l) div 2 ^ s"
    unfolding e by (simp add: mult.assoc)
  finally show ?thesis .
qed

lemma shr_append:
  fixes v W p S :: int
  assumes "0 \<le> v" "v < p" "0 < S" "0 < B"
  shows "(v + p * W) div S mod (p * B) = (v + p * W) div S mod p + p * (W div S mod B)"
proof -
  have "(v + p * W) div S div p = W div S"
    using assms by (simp add: zdiv_zmult2_eq [symmetric] mult.commute [of S p]) (simp add: zdiv_zmult2_eq div_pos_pos_trivial)
  then show ?thesis using assms zmod_zmult2_eq [of B "(v + p * W) div S" p] by simp
qed

lemma mp_shr_loop_val:
  assumes s: "0 < s" "s < 64"
  shows "mp_shr_loop rtab s l tab_r = (res, l') \<Longrightarrow> \<exists>ys. res = ys @ tab_r \<and> length ys = length rtab \<and>
    val ys = (val (rev rtab) + bpow (length rtab) * uint l) div 2 ^ s mod bpow (length rtab) \<and>
    uint l' mod 2 ^ s = (val (rev rtab) + bpow (length rtab) * uint l) mod 2 ^ s"
proof (induction rtab arbitrary: l tab_r)
  case (Cons a rtab)
  let ?x = "drop_bit s a OR push_bit (64 - s) l" and ?p = "bpow (length rtab)" and ?v = "val (rev rtab)"
  have e: "2 ^ 64 = 2 ^ s * (2 ^ (64 - s) :: int)" using s by (simp flip: power_add)
  obtain ys where ih: "res = ys @ ?x # tab_r" "length ys = length rtab" "val ys = (?v + ?p * uint a) div 2 ^ s mod ?p"
    "uint l' mod 2 ^ s = (?v + ?p * uint a) mod 2 ^ s" using Cons.IH [of a "?x # tab_r"] Cons.prems by auto
  have V: "val (rev (a # rtab)) + bpow (length (a # rtab)) * uint l = ?v + ?p * (uint a + 2 ^ 64 * uint l)"
    by (simp add: val_append algebra_simps)
  have W: "?v + ?p * (uint a + 2 ^ 64 * uint l) = (?v + ?p * uint a) + 2 ^ s * (?p * 2 ^ (64 - s) * uint l)"
    unfolding e by (simp add: algebra_simps)
  have v: "0 \<le> ?v" "?v < ?p" using val_lt [of "rev rtab"] by simp_all
  have "(?v + ?p * (uint a + 2 ^ 64 * uint l)) div 2 ^ s mod (?p * 2 ^ 64) =
      (?v + ?p * (uint a + 2 ^ 64 * uint l)) div 2 ^ s mod ?p + ?p * uint ?x"
    unfolding shr_limb [OF s(2,1)] by (rule shr_append [OF v]) simp_all
  also have "(?v + ?p * (uint a + 2 ^ 64 * uint l)) div 2 ^ s mod ?p = val ys"
    unfolding W ih(3) by (simp add: mult.assoc)
  also have "val ys + ?p * uint ?x = val (ys @ [?x])" using ih(2) by (simp add: val_append)
  finally have "val (ys @ [?x]) = (val (rev (a # rtab)) + bpow (length (a # rtab)) * uint l) div 2 ^ s mod bpow (length (a # rtab))"
    unfolding V by (simp add: mult.commute)
  moreover have "uint l' mod 2 ^ s = (val (rev (a # rtab)) + bpow (length (a # rtab)) * uint l) mod 2 ^ s"
    unfolding V W ih(4) by simp
  ultimately show ?case using ih(1,2) by (intro exI [of _ "ys @ [?x]"]) simp
qed simp

lemma mp_shr_val:
  assumes s: "1 \<le> s" "s < 64"
  shows "\<exists>tab_r r. mp_shr tab s high = Some (tab_r, r) \<and> length tab_r = length tab \<and>
    val tab_r = (val tab + bpow (length tab) * uint high) div 2 ^ s mod bpow (length tab) \<and>
    uint r = (val tab + bpow (length tab) * uint high) mod 2 ^ s"
proof -
  obtain tab_r l where m: "mp_shr_loop (rev tab) s high [] = (tab_r, l)" by (metis surj_pair)
  have sp: "0 < s" using s by simp
  have "uint (l AND (push_bit s 1 - 1)) = uint l mod 2 ^ s"
  proof -
    have "l AND (push_bit s 1 - 1) = take_bit s l" by (simp add: take_bit_eq_mask mask_eq_exp_minus_1)
    then show ?thesis unfolding take_bit_eq_mod [of s "uint l", symmetric] by (simp only: unsigned_take_bit_eq)
  qed
  then show ?thesis using mp_shr_loop_val [OF sp s(2) m] m s by (simp add: mp_shr_def)
qed

section \<open>Properties\<close>

text \<open>C33: \<^verbatim>\<open>mp_mul_basecase\<close> leaves the product of the two arrays in the first limbs of the
  result and nothing else changes, whatever the result held before; every access is inside the arrays.\<close>

theorem mp_mul_basecase_product:
  assumes "op2 \<noteq> []" and "length op1 + length op2 \<le> length result"
  shows "\<exists>result'. mp_mul_basecase result op1 op2 = Some result' \<and> length result' = length result \<and>
     val (take (length op1 + length op2) result') = val op1 * val op2 \<and>
     drop (length op1 + length op2) result' = drop (length op1 + length op2) result"
  by (rule mp_mul_basecase_val [OF assms])

theorem mp_mul_basecase_product_witness:
  "\<exists>result'. mp_mul_basecase [7, 7, 7, 7] [0xFFFFFFFFFFFFFFFF] [0xFFFFFFFFFFFFFFFF, 2] = Some result' \<and>
     length result' = length [7, 7, 7, 7 :: limb] \<and>
     val (take (length [0xFFFFFFFFFFFFFFFF :: limb] + length [0xFFFFFFFFFFFFFFFF, 2 :: limb]) result') =
       val [0xFFFFFFFFFFFFFFFF] * val [0xFFFFFFFFFFFFFFFF, 2] \<and>
     drop (length [0xFFFFFFFFFFFFFFFF :: limb] + length [0xFFFFFFFFFFFFFFFF, 2 :: limb]) result' =
       drop (length [0xFFFFFFFFFFFFFFFF :: limb] + length [0xFFFFFFFFFFFFFFFF, 2 :: limb]) [7, 7, 7, 7]"
  by (rule mp_mul_basecase_product) simp_all

text \<open>The loops with a carry are exact: \<^verbatim>\<open>mp_add\<close>, \<^verbatim>\<open>mp_sub\<close> and \<^verbatim>\<open>mp_sub_mul1\<close> return,
  with the result, the carry or borrow that makes the sum, the difference and the difference with a
  multiple exact.\<close>

theorem mp_carries_exact:
  assumes "length op1 = length op2" and "uint k \<le> 1"
    and "mp_add op1 op2 k = (s, c)" and "mp_sub op1 op2 k = (t, b)" and "mp_sub_mul1 op1 op2 m = (u, h)"
  shows "val s + 2 ^ (64 * length op1) * uint c = val op1 + val op2 + uint k \<and>
    val t - 2 ^ (64 * length op1) * uint b = val op1 - val op2 - uint k \<and>
    val u - 2 ^ (64 * length op1) * uint h = val op1 - val op2 * uint m"
  using mp_add_val [OF assms(1-3)] mp_sub_val [OF assms(1,2,4)]
    mp_sub_mul1_loop_val [OF assms(1) assms(5) [unfolded mp_sub_mul1_def]] assms(1)
  by (auto simp: bpow_def)

theorem mp_carries_exact_witness:
  "\<exists>s c t b u h. mp_add [0xFFFFFFFFFFFFFFFF] [1] 1 = (s, c) \<and> mp_sub [0xFFFFFFFFFFFFFFFF] [1] 1 = (t, b) \<and>
    mp_sub_mul1 [0xFFFFFFFFFFFFFFFF] [1] 3 = (u, h) \<and>
    val s + 2 ^ (64 * length [0xFFFFFFFFFFFFFFFF :: limb]) * uint c = val [0xFFFFFFFFFFFFFFFF] + val [1] + uint (1 :: limb) \<and>
    val t - 2 ^ (64 * length [0xFFFFFFFFFFFFFFFF :: limb]) * uint b = val [0xFFFFFFFFFFFFFFFF] - val [1] - uint (1 :: limb) \<and>
    val u - 2 ^ (64 * length [0xFFFFFFFFFFFFFFFF :: limb]) * uint h = val [0xFFFFFFFFFFFFFFFF] - val [1] * uint (3 :: limb)"
proof -
  have l: "length [0xFFFFFFFFFFFFFFFF :: limb] = length [1 :: limb]" "uint (1 :: limb) \<le> 1" by simp_all
  obtain s c where a: "mp_add [0xFFFFFFFFFFFFFFFF] [1] 1 = (s, c)" by (metis surj_pair)
  obtain t b where b: "mp_sub [0xFFFFFFFFFFFFFFFF] [1] 1 = (t, b)" by (metis surj_pair)
  obtain u h where u: "mp_sub_mul1 [0xFFFFFFFFFFFFFFFF] [1] 3 = (u, h)" by (metis surj_pair)
  show ?thesis using mp_carries_exact [OF l a b u] a b u by blast
qed

text \<open>\<^verbatim>\<open>mp_shr\<close> shifts an array with a limb above it: the result is the quotient by the power
  of two, cut to the length of the array, and the value returned is the remainder.\<close>

theorem mp_shr_div_mod:
  assumes "1 \<le> shift" and "shift < LIMB_BITS"
  shows "\<exists>tab_r r. mp_shr tab shift high = Some (tab_r, r) \<and> length tab_r = length tab \<and>
    val tab_r = (val tab + 2 ^ (64 * length tab) * uint high) div 2 ^ shift mod 2 ^ (64 * length tab) \<and>
    uint r = (val tab + 2 ^ (64 * length tab) * uint high) mod 2 ^ shift"
  using mp_shr_val [OF assms, of tab high] by (simp only: bpow_def)

theorem mp_shr_div_mod_witness:
  "\<exists>tab_r r. mp_shr [1, 2] 4 9 = Some (tab_r, r) \<and> length tab_r = length [1, 2 :: limb] \<and>
    val tab_r = (val [1, 2] + 2 ^ (64 * length [1, 2 :: limb]) * uint (9 :: limb)) div 2 ^ 4 mod 2 ^ (64 * length [1, 2 :: limb]) \<and>
    uint r = (val [1, 2] + 2 ^ (64 * length [1, 2 :: limb]) * uint (9 :: limb)) mod 2 ^ 4"
  by (rule mp_shr_div_mod) simp_all

end
