(* ===== verification/LimbDiv.thy ===== *)
theory LimbDiv
  imports Limbs
begin

text \<open>
  Division of arrays of limbs (\<^verbatim>\<open>udiv1norm\<close>, \<^verbatim>\<open>mp_div1norm\<close> and the base case of
  \<^verbatim>\<open>mp_divnorm\<close> in \<^verbatim>\<open>libbf.c\<close>). The locale \<open>limb_divider\<close> is the contract of a
  division of two limbs by one; its instances are the division by a precomputed inverse and the
  division of the double limb.
\<close>

section \<open>The operations\<close>

abbreviation (input) UDIV1NORM_THRESHOLD :: nat where "UDIV1NORM_THRESHOLD \<equiv> 3"
abbreviation (input) DIVNORM_LARGE_THRESHOLD :: nat where "DIVNORM_LARGE_THRESHOLD \<equiv> 50"

definition join :: "limb \<Rightarrow> limb \<Rightarrow> dlimb" where
  "join a1 a0 = push_bit LIMB_BITS (ucast a1) OR ucast a0"

definition udiv1norm_init :: "limb \<Rightarrow> limb" where
  "udiv1norm_init d = (let a1 = - d - 1; a0 = - 1 in ucast (join a1 a0 div ucast d))"

definition udiv1norm :: "limb \<Rightarrow> limb \<Rightarrow> limb \<Rightarrow> limb \<Rightarrow> limb \<times> limb" where
  "udiv1norm d d_inv a1 a0 =
     (let n1m = signed_drop_bit (LIMB_BITS - 1) a0;
          n_adj = a0 + (n1m AND d);
          a = (ucast d_inv :: dlimb) * ucast (a1 - n1m) + ucast n_adj;
          q = ucast (drop_bit LIMB_BITS a) + a1;
          a = join a1 a0;
          a = a - ucast q * ucast d - ucast d;
          ah = ucast (drop_bit LIMB_BITS a);
          q = q + (1 + ah);
          r = ucast a + (ah AND d)
      in (q, r))"

definition udiv_dlimb :: "limb \<Rightarrow> limb \<Rightarrow> limb \<Rightarrow> limb \<times> limb" where
  "udiv_dlimb b r a = (let a1 = join r a in (ucast (a1 div ucast b), ucast (a1 mod ucast b)))"

text \<open>The loops of \<^verbatim>\<open>mp_div1norm\<close> from the high end: \<open>udiv\<close> is the division of their body.\<close>

fun div1_loop :: "(limb \<Rightarrow> limb \<Rightarrow> limb \<times> limb) \<Rightarrow> limb list \<Rightarrow> limb \<Rightarrow> limb list \<Rightarrow> limb list \<times> limb" where
  "div1_loop udiv [] r tabr = (tabr, r)"
| "div1_loop udiv (a # rtaba) r tabr = (let (q, r) = udiv r a in div1_loop udiv rtaba r (q # tabr))"

definition mp_div1norm :: "limb list \<Rightarrow> limb \<Rightarrow> limb \<Rightarrow> limb list \<times> limb" where
  "mp_div1norm taba b r =
     (if length taba \<ge> UDIV1NORM_THRESHOLD then
        let b_inv = udiv1norm_init b in div1_loop (udiv1norm b b_inv) (rev taba) r []
      else div1_loop (udiv_dlimb b) (rev taba) r [])"

text \<open>The first limb of the quotient: 0 when the upper limbs are below the divisor, from the high end.\<close>

fun first_q :: "limb list \<Rightarrow> limb list \<Rightarrow> limb" where
  "first_q (a # rtaba) (b # rtabb) = (if a \<noteq> b then if a < b then 0 else 1 else first_q rtaba rtabb)"
| "first_q _ _ = 1"

text \<open>The correction of a negative result: \<open>tab\<close> are the lower limbs, \<open>t\<close> the limb above them.\<close>

partial_function (option) correct_loop :: "limb list \<Rightarrow> limb \<Rightarrow> limb list \<Rightarrow> limb \<Rightarrow> (limb list \<times> limb \<times> limb) option" where
  "correct_loop tab t tabb q =
     (let q = q - 1; (tab, c) = mp_add tab tabb 0 in
      if c \<noteq> 0 then
        (let t = t + 1 in if t = 0 then Some (tab, t, q) else correct_loop tab t tabb q)
      else correct_loop tab t tabb q)"

definition quot_limb :: "limb \<Rightarrow> limb \<Rightarrow> limb \<Rightarrow> limb \<Rightarrow> limb" where
  "quot_limb b1 b1_inv a1 a0 =
     (if a1 \<ge> b1 then - 1
      else if b1_inv \<noteq> 0 then fst (udiv1norm b1 b1_inv a1 a0)
      else ucast (join a1 a0 div ucast b1))"

text \<open>One step of the schoolbook division on the part of \<open>taba\<close> from position \<open>i\<close> on.\<close>

definition divnorm_step :: "limb list \<Rightarrow> limb \<Rightarrow> limb \<Rightarrow> limb list \<Rightarrow> nat \<Rightarrow> (limb list \<times> limb) option" where
  "divnorm_step tabb b1 b1_inv taba i = do {
     let nb = length tabb;
     a1 \<leftarrow> rd taba (i + nb);
     a0 \<leftarrow> rd taba (i + nb - 1);
     let q = quot_limb b1 b1_inv a1 a0;
     tab \<leftarrow> rd_seg taba i nb;
     let (tab, r) = mp_sub_mul1 tab tabb q;
     taba \<leftarrow> wr_seg taba i tab;
     v \<leftarrow> rd taba (i + nb);
     let a = v - r;
     let c = (a > v);
     (tab, a, q) \<leftarrow> (if c then correct_loop tab a tabb q else Some (tab, a, q));
     taba \<leftarrow> wr_seg taba i tab;
     taba \<leftarrow> wr taba (i + nb) a;
     Some (taba, q) }"

fun divnorm_loop :: "limb list \<Rightarrow> limb \<Rightarrow> limb \<Rightarrow> limb list \<Rightarrow> nat \<Rightarrow> limb list \<Rightarrow> (limb list \<times> limb list) option" where
  "divnorm_loop tabb b1 b1_inv taba 0 tabq = Some (tabq, taba)"
| "divnorm_loop tabb b1 b1_inv taba (Suc i) tabq =
     Option.bind (divnorm_step tabb b1 b1_inv taba i)
       (\<lambda>(taba, q). divnorm_loop tabb b1 b1_inv taba i (q # tabq))"

text \<open>The result has the limbs of the quotient and the final \<^verbatim>\<open>taba\<close>; \<open>large\<close> is the division
  used from \<^verbatim>\<open>DIVNORM_LARGE_THRESHOLD\<close> on.\<close>

definition mp_divnorm :: "(limb list \<Rightarrow> limb list \<Rightarrow> (limb list \<times> limb list) option) \<Rightarrow>
    limb list \<Rightarrow> limb list \<Rightarrow> (limb list \<times> limb list) option" where
  "mp_divnorm large taba tabb = do {
     let na = length taba;
     let nb = length tabb;
     b1 \<leftarrow> rd tabb (nb - 1);
     if nb = 1 then do {
       let (tabq, r) = mp_div1norm taba b1 0;
       taba \<leftarrow> wr taba 0 r;
       Some (tabq, taba) }
     else if na < nb then None
     else do {
       let n = na - nb;
       if min n nb \<ge> DIVNORM_LARGE_THRESHOLD then large taba tabb
       else do {
         let b1_inv = (if n \<ge> UDIV1NORM_THRESHOLD then udiv1norm_init b1 else 0);
         let q = first_q (rev (drop n taba)) (rev tabb);
         taba \<leftarrow> (if q \<noteq> 0 then do {
                    tab \<leftarrow> rd_seg taba n nb;
                    wr_seg taba n (fst (mp_sub tab tabb 0)) }
                  else Some taba);
         divnorm_loop tabb b1 b1_inv taba n [q] } } }"

section \<open>Division of two limbs by one\<close>

lemma join_uint: "uint (join a1 a0) = 2 ^ 64 * uint a1 + uint a0"
proof -
  have "uint (push_bit 64 (ucast a1 :: dlimb)) = uint a1 * 2 ^ 64"
    using limb_lt [of a1] by (simp add: push_bit_eq_mult uint_word_ariths mod_pos_pos_trivial)
  moreover have "uint (join a1 a0) = uint (push_bit 64 (ucast a1 :: dlimb)) OR uint a0"
    by (simp only: join_def unsigned_or_eq uint_dlimb)
  ultimately show ?thesis using or_disjoint_int [of "uint a0" 64 "uint a1"] limb_lt [of a0]
    by (simp add: push_bit_eq_mult)
qed

text \<open>The estimate of the quotient is exact or one too small (Moeller and Granlund).\<close>

lemma udiv_estimate:
  fixes B d v k a1 a0 b :: int
  assumes d: "B \<le> 2 * d" "d < B" and a1: "0 \<le> a1" "a1 < d" and a0: "0 \<le> a0" "a0 < B"
    and b: "b = (if B \<le> 2 * a0 then 1 else 0)" and v: "(v + B) * d + k = B * B" "1 \<le> k" "k \<le> d"
  defines "Z \<equiv> v * (a1 + b) + (a0 + b * (d - B)) + B * a1"
  shows "0 \<le> a1 * B + a0 - d * (Z div B)" "a1 * B + a0 - d * (Z div B) < 2 * d"
proof -
  have Bp: "0 < B" using d a1 by linarith
  define n where "n = a1 * B + a0"
  have E: "B * n - d * Z = (B - d) * (a0 - b * (B - d)) + k * (a1 + b)"
  proof -
    have "d * Z = ((v + B) * d) * (a1 + b) + d * a0 + b * d * (d - 2 * B)"
      by (simp add: Z_def algebra_simps)
    also have "(v + B) * d = B * B - k" using v(1) by simp
    finally have "d * Z = (B * B - k) * (a1 + b) + d * a0 + b * d * (d - 2 * B)" .
    moreover have "b * b = b" using b by simp
    ultimately show ?thesis by (simp add: n_def algebra_simps)
  qed
  have lo: "0 \<le> B * n - d * Z"
  proof -
    have "0 \<le> a0 - b * (B - d)" using b a0 d by auto
    moreover have "0 \<le> k * (a1 + b)" using v(2) a1 b by (intro mult_nonneg_nonneg) auto
    moreover from calculation(1) have "0 \<le> (B - d) * (a0 - b * (B - d))" using d(2) by (intro mult_nonneg_nonneg) auto
    ultimately show ?thesis unfolding E by (intro add_nonneg_nonneg)
  qed
  have hi: "B * n - d * Z < B * d"
  proof (cases "B \<le> 2 * a0")
    case False
    then have "b = 0" "a0 \<le> d" using b d by auto
    then have "(B - d) * a0 \<le> (B - d) * d" using d(2) by (intro mult_left_mono) auto
    moreover have "k * a1 \<le> d * (d - 1)" using v a1 by (intro mult_mono) auto
    moreover have "(B - d) * d + d * (d - 1) = B * d - d" by (simp add: algebra_simps)
    moreover have "(B - d) * (a0 - b * (B - d)) + k * (a1 + b) = (B - d) * a0 + k * a1" using \<open>b = 0\<close> by simp
    ultimately show ?thesis unfolding E using d a1 by linarith
  next
    case True
    then have "b = 1" using b by simp
    have "(B - d) * (a0 - (B - d)) \<le> (B - d) * (d - 1)" using d(2) a0 by (intro mult_left_mono) auto
    moreover have "k * (a1 + 1) \<le> d * d" using v a1 by (intro mult_mono) auto
    moreover have "(B - d) * (d - 1) + d * d = B * d - (B - d)" by (simp add: algebra_simps)
    moreover have "(B - d) * (a0 - b * (B - d)) + k * (a1 + b) = (B - d) * (a0 - (B - d)) + k * (a1 + 1)"
      using \<open>b = 1\<close> by simp
    ultimately show ?thesis unfolding E using d by linarith
  qed
  define q where "q = Z div B"
  define z where "z = Z mod B"
  have Z: "Z = B * q + z" "0 \<le> z" "z < B" using Bp by (simp_all add: q_def z_def)
  have e: "B * (n - d * q) = (B * n - d * Z) + d * z" unfolding Z(1) by (simp add: algebra_simps)
  have dz: "0 \<le> d * z" "d * z \<le> d * B" using Z d a1 by (auto intro: mult_nonneg_nonneg mult_left_mono)
  have "0 \<le> B * (n - d * q)" using e lo dz by linarith
  then have "0 \<le> n - d * q" using Bp by (simp add: zero_le_mult_iff)
  moreover have "B * (n - d * q) < B * (2 * d)" using e hi dz by (simp add: algebra_simps)
  then have "n - d * q < 2 * d" using Bp by (simp only: mult_less_cancel_left_pos)
  ultimately show "0 \<le> a1 * B + a0 - d * (Z div B)" "a1 * B + a0 - d * (Z div B) < 2 * d" by (simp_all add: n_def q_def)
qed


lemma uint_minus_1: "uint (- 1 :: limb) = 2 ^ 64 - 1"
  by (simp add: unsigned_minus_1_eq_mask mask_eq_exp_minus_1)

lemma udiv1norm_init_spec:
  assumes d: "2 ^ 63 \<le> uint d"
  shows "\<exists>k. (uint (udiv1norm_init d) + 2 ^ 64) * uint d + k = 2 ^ 64 * 2 ^ 64 \<and> 1 \<le> k \<and> k \<le> uint d"
proof -
  define D where "D = uint d"
  have D: "2 ^ 63 \<le> D" "D < 2 ^ 64" using d limb_lt [of d] by (simp_all add: D_def)
  have "uint (- d - 1) = (- D - 1) mod 2 ^ 64" by (simp add: uint_word_ariths mod_simps D_def)
  also have "\<dots> = (- D - 1 + 2 ^ 64) mod 2 ^ 64" by (rule mod_add_self2 [symmetric])
  also have "\<dots> = 2 ^ 64 - 1 - D" using D by (simp add: mod_pos_pos_trivial)
  finally have a1: "uint (- d - 1) = 2 ^ 64 - 1 - D" .
  define X where "X = 2 ^ 64 * (2 ^ 64 - 1 - D) + (2 ^ 64 - 1)"
  have "uint (join (- d - 1) (- 1)) = X" unfolding join_uint a1 X_def uint_minus_1 by simp
  then have v: "uint (udiv1norm_init d) = X div D mod 2 ^ 64"
    unfolding udiv1norm_init_def Let_def uint_low_limb uint_div by (simp add: D_def)
  have X: "X = (2 ^ 64 * 2 ^ 64 - 1) - 2 ^ 64 * D" "0 \<le> X" using D by (simp_all add: X_def algebra_simps)
  have "X < 2 ^ 64 * D" using D unfolding X(1) by simp
  have "X div D < 2 ^ 64"
  proof (rule ccontr)
    assume "\<not> X div D < 2 ^ 64"
    then have "2 ^ 64 * D \<le> (X div D) * D" using D by (intro mult_right_mono) auto
    moreover have "(X div D) * D \<le> X" unfolding minus_mod_eq_div_mult [symmetric] using D by simp
    ultimately show False using \<open>X < 2 ^ 64 * D\<close> by linarith
  qed
  moreover have "0 \<le> X div D" using X(2) D by (simp add: pos_imp_zdiv_nonneg_iff)
  ultimately have v: "uint (udiv1norm_init d) = X div D" unfolding v by (rule mod_pos_pos_trivial [rotated])
  define r where "r = X mod D"
  have r: "X = (X div D) * D + r" "0 \<le> r" "r < D" using D by (simp_all add: r_def)
  have "(X div D + 2 ^ 64) * D + (1 + r) = 2 ^ 64 * 2 ^ 64"
    using r(1) X(1) unfolding distrib_right by linarith
  then show ?thesis unfolding v D_def [symmetric] using r by (intro exI [of _ "1 + r"]) simp
qed

text \<open>The top bit of a limb as the code tests it.\<close>

lemma signed_shift_63: "signed_drop_bit 63 a = (if 2 ^ 64 \<le> 2 * uint a then - 1 else 0)" for a :: limb
proof -
  have "bit a 63 \<longleftrightarrow> 2 ^ 64 \<le> 2 * uint a"
  proof -
    have "bit a 63 \<longleftrightarrow> odd (uint a div 2 ^ 63)" using bit_uint_iff [of a 63] by (simp only: bit_iff_odd) simp
    moreover have "uint a div 2 ^ 63 = (if 2 ^ 63 \<le> uint a then 1 else 0)"
      using limb_lt [of a] int_div_pos_eq [of "uint a" "2 ^ 63" 1 "uint a - 2 ^ 63"]
      by (simp add: div_pos_pos_trivial)
    ultimately show ?thesis by simp
  qed
  moreover have "signed_drop_bit 63 a = (if bit a 63 then - 1 else 0)"
    by (rule bit_word_eqI) (auto simp: bit_signed_drop_bit_iff less_Suc_eq_le not_le)
  ultimately show ?thesis by simp
qed


text \<open>The last step: the remainder for an estimate at most one too small, with the correction.\<close>

lemma udiv_last_step:
  fixes a1 a0 d q1 :: limb
  defines "a' \<equiv> join a1 a0 - ucast q1 * ucast d - ucast d"
  defines "ah \<equiv> ucast (drop_bit 64 a')"
  assumes d: "2 ^ 63 \<le> uint d" and nB: "uint a1 * 2 ^ 64 + uint a0 < uint d * 2 ^ 64"
    and R: "0 \<le> uint a1 * 2 ^ 64 + uint a0 - uint d * uint q1" "uint a1 * 2 ^ 64 + uint a0 - uint d * uint q1 < 2 * uint d"
  shows "uint a1 * 2 ^ 64 + uint a0 = uint (q1 + (1 + ah)) * uint d + uint (ucast a' + (ah AND d)) \<and>
    uint (ucast a' + (ah AND d)) < uint d"
proof -
  define B :: int where "B = 2 ^ 64"
  define D where "D = uint d"
  define Q where "Q = uint q1"
  define n where "n = uint a1 * B + uint a0"
  have D: "B \<le> 2 * D" "D < B" "0 < D" "0 < B" using d limb_lt [of d] by (simp_all add: D_def B_def)
  note nB = nB [folded B_def, folded n_def D_def] and R = R [folded B_def, folded n_def D_def Q_def]
  have Q0: "0 \<le> Q" by (simp add: Q_def)
  define x where "x = n - D * Q - D"
  have "uint a' = (n - Q * D - D) mod 2 ^ 128"
    unfolding a'_def by (simp add: uint_word_ariths mod_simps join_uint n_def Q_def D_def B_def mult.commute)
  then have a'u: "uint a' = x mod (B * B)" by (simp add: x_def B_def mult.commute)
  have ah: "uint ah = uint a' div B" "uint (ucast a' :: limb) = uint a' mod B"
    unfolding ah_def uint_high_limb B_def by (simp_all only: uint_low_limb)
  show ?thesis unfolding B_def [symmetric] n_def [symmetric] D_def [symmetric]
  proof (cases "D \<le> n - D * Q")
    case True
    then have x: "0 \<le> x" "x < D" using R by (simp_all add: x_def)
    have "D * B \<le> B * B" using D by (intro mult_right_mono) auto
    moreover have "D \<le> D * B" using D by (simp add: mult_le_cancel_left1)
    ultimately have "uint a' = x" unfolding a'u using x by (intro mod_pos_pos_trivial) linarith+
    then have "ah = 0" "uint (ucast a' :: limb) = x" using ah x D by (simp_all add: div_pos_pos_trivial mod_pos_pos_trivial word_uint_eq_iff)
    moreover have "D * (Q + 1) < D * B" using True nB by (simp add: distrib_left)
    then have "Q + 1 < B" using D(3) by (simp only: mult_less_cancel_left_pos)
    then have "uint (q1 + 1) = Q + 1" using Q0 by (simp add: uint_word_ariths mod_pos_pos_trivial B_def Q_def)
    ultimately have "uint (q1 + (1 + ah)) = Q + 1" "uint (ucast a' + (ah AND d)) = x" by simp_all
    then show "n = uint (q1 + (1 + ah)) * D + uint (ucast a' + (ah AND d)) \<and> uint (ucast a' + (ah AND d)) < D"
      using x by (simp add: x_def algebra_simps)
  next
    case False
    then have x: "- D \<le> x" "x < 0" using R by (simp_all add: x_def)
    have "B * 1 \<le> B * B" using D by (intro mult_left_mono) auto
    then have "(x + B * B) mod (B * B) = x + B * B" using x D by (intro mod_pos_pos_trivial) linarith+
    then have "uint a' = x + B * B" unfolding a'u by simp
    then have e: "uint a' = B * (B - 1) + (B + x)" by (simp add: algebra_simps)
    have bx: "0 \<le> B + x" "B + x < B" using x D by simp_all
    have l: "uint ah = B - 1" "uint (ucast a' :: limb) = B + x"
      unfolding ah using int_div_pos_eq [OF e bx] int_mod_pos_eq [OF e bx] by simp_all
    then have "ah = - 1" by (simp add: word_uint_eq_iff uint_minus_1 B_def)
    moreover have "uint (ucast a' + d) = x + D"
    proof -
      have "uint (ucast a' + d) = (B + x + D) mod B" using l(2) by (simp add: uint_word_ariths B_def D_def)
      also have "\<dots> = (x + D) mod B" by (simp add: add.assoc mod_add_self1)
      finally show ?thesis using x D mod_pos_pos_trivial [of "x + D" B] by simp
    qed
    ultimately show "n = uint (q1 + (1 + ah)) * D + uint (ucast a' + (ah AND d)) \<and> uint (ucast a' + (ah AND d)) < D"
      using x by (simp add: x_def Q_def algebra_simps)
  qed
qed

lemma udiv1norm_spec:
  assumes d: "2 ^ 63 \<le> uint d" and a1: "uint a1 < uint d"
    and r: "udiv1norm d (udiv1norm_init d) a1 a0 = (q, r)"
  shows "uint a1 * 2 ^ 64 + uint a0 = uint q * uint d + uint r \<and> uint r < uint d"
proof -
  define B :: int where "B = 2 ^ 64"
  define D where "D = uint d"
  define v where "v = uint (udiv1norm_init d)"
  define b :: int where "b = (if B \<le> 2 * uint a0 then 1 else 0)"
  have D: "B \<le> 2 * D" "D < B" using d limb_lt [of d] by (simp_all add: D_def B_def)
  have Bp: "0 < B" by (simp add: B_def)
  obtain k where k: "(v + B) * D + k = B * B" "1 \<le> k" "k \<le> D"
    using udiv1norm_init_spec [OF d] unfolding v_def B_def D_def by blast
  have a1': "0 \<le> uint a1" "uint a1 < D" and a0: "0 \<le> uint a0" "uint a0 < B" using a1 limb_lt [of a0] by (simp_all add: D_def B_def)
  have vB: "0 \<le> v" "v < B" using limb_lt [of "udiv1norm_init d"] by (simp_all add: v_def B_def)
  define Z where "Z = v * (uint a1 + b) + (uint a0 + b * (D - B)) + B * uint a1"
  note est = udiv_estimate [OF D a1' a0 b_def k, folded Z_def]
  define n1m where "n1m = signed_drop_bit 63 a0"
  have n1m: "n1m = (if b = 1 then - 1 else 0)" unfolding n1m_def signed_shift_63 b_def B_def by simp
  have na: "uint (a0 + (n1m AND d)) = uint a0 + b * (D - B)"
  proof (cases "b = 1")
    case True
    then have "B \<le> 2 * uint a0" by (simp add: b_def split: if_splits)
    then have "B \<le> uint a0 + D" using D by linarith
    then show ?thesis using True uint_add_limb [of a0 d] limb_lt [of "a0 + d"] uint_ge_0 [of "a0 + d"] unfolding n1m
      by (cases "a0 + d < a0") (simp_all add: D_def B_def)
  next
    case False
    then have "b = 0" by (simp add: b_def split: if_splits)
    then show ?thesis unfolding n1m by simp
  qed
  have ma: "uint (a1 - n1m) = uint a1 + b"
  proof (cases "b = 1")
    case True
    have "uint a1 + 1 < 2 ^ 64" using a1' D by (simp add: B_def)
    then show ?thesis using True unfolding n1m by (simp add: uint_word_ariths mod_pos_pos_trivial)
  next
    case False
    then have "b = 0" by (simp add: b_def split: if_splits)
    then show ?thesis unfolding n1m by simp
  qed
  define t where "t = (ucast (udiv1norm_init d) :: dlimb) * ucast (a1 - n1m) + ucast (a0 + (n1m AND d))"
  have "uint t = v * (uint a1 + b) + (uint a0 + b * (D - B))"
    using uint_mul_add [of "udiv1norm_init d" "a1 - n1m" "a0 + (n1m AND d)" 0] unfolding na ma by (simp add: t_def v_def)
  then have tu: "Z = uint t + B * uint a1" by (simp add: Z_def)
  define n where "n = uint a1 * B + uint a0"
  define Q where "Q = Z div B"
  have nB: "n < D * B"
  proof -
    have "(uint a1 + 1) * B \<le> D * B" using a1' Bp by (intro mult_right_mono) auto
    then show ?thesis using a0 by (simp add: n_def algebra_simps)
  qed
  have R: "0 \<le> n - D * Q" "n - D * Q < 2 * D" using est by (simp_all add: n_def Q_def)
  have Dp: "0 < D" using D Bp by linarith
  have Q: "Q = uint t div B + uint a1" using Bp by (simp add: Q_def tu)
  then have Q0: "0 \<le> Q" using a1' Bp by (simp add: pos_imp_zdiv_nonneg_iff)
  have "D * Q < D * B" using R(1) nB by linarith
  then have QB: "Q < B" using Dp by (simp only: mult_less_cancel_left_pos)
  define q1 where "q1 = ucast (drop_bit 64 t) + a1"
  have q1: "uint q1 = Q"
    using Q Q0 QB unfolding q1_def uint_word_ariths uint_high_limb B_def by (simp add: mod_pos_pos_trivial)
  have last: "uint a1 * 2 ^ 64 + uint a0 < uint d * 2 ^ 64" "0 \<le> uint a1 * 2 ^ 64 + uint a0 - uint d * uint q1"
    "uint a1 * 2 ^ 64 + uint a0 - uint d * uint q1 < 2 * uint d"
    using nB R unfolding q1 by (simp_all add: n_def D_def B_def)
  show ?thesis using udiv_last_step [OF d last] r unfolding q1_def t_def n1m_def by (auto simp: udiv1norm_def Let_def)
qed

section \<open>Division of an array by a limb\<close>

text \<open>The contract of a division of two limbs \<open>r\<close>, \<open>a\<close> by a normalised limb \<open>b\<close>.\<close>

locale limb_divider =
  fixes udiv :: "limb \<Rightarrow> limb \<Rightarrow> limb \<Rightarrow> limb \<times> limb"
  assumes udiv: "2 ^ 63 \<le> uint b \<Longrightarrow> uint r < uint b \<Longrightarrow> udiv b r a = (q, r') \<Longrightarrow>
    uint r * 2 ^ 64 + uint a = uint q * uint b + uint r' \<and> uint r' < uint b"
begin

lemma div1_loop_val:
  "2 ^ 63 \<le> uint b \<Longrightarrow> uint r < uint b \<Longrightarrow> div1_loop (udiv b) rtaba r tabr = (res, r') \<Longrightarrow>
   \<exists>qs. res = qs @ tabr \<and> length qs = length rtaba \<and> val (rev rtaba) + bpow (length rtaba) * uint r = val qs * uint b + uint r' \<and>
     uint r' < uint b"
proof (induction rtaba arbitrary: r tabr)
  case (Cons a rtaba)
  obtain q r1 where q: "udiv b r a = (q, r1)" by (metis surj_pair)
  note s = udiv [OF Cons.prems(1,2) q]
  have l: "div1_loop (udiv b) rtaba r1 (q # tabr) = (res, r')" using Cons.prems(3) q by simp
  obtain qs where qs: "res = qs @ q # tabr" "length qs = length rtaba" "val (rev rtaba) + bpow (length rtaba) * uint r1 = val qs * uint b + uint r'"
    "uint r' < uint b" using Cons.IH [OF Cons.prems(1) conjunct2 [OF s] l] by blast
  define p where "p = bpow (length rtaba)"
  have "val (rev (a # rtaba)) + bpow (length (a # rtaba)) * uint r = val (rev rtaba) + p * (uint r * 2 ^ 64 + uint a)"
    by (simp add: val_append p_def algebra_simps)
  also have "\<dots> = (val (rev rtaba) + p * uint r1) + p * uint q * uint b" using conjunct1 [OF s] by (simp add: algebra_simps)
  also have "\<dots> = val (qs @ [q]) * uint b + uint r'" using qs(2,3) by (simp add: val_append p_def algebra_simps)
  finally show ?case using qs by (intro exI [of _ "qs @ [q]"]) simp
qed simp

end

interpretation inverse: limb_divider "\<lambda>b. udiv1norm b (udiv1norm_init b)"
  by unfold_locales (rule udiv1norm_spec)

lemma udiv_dlimb_spec:
  assumes b: "2 ^ 63 \<le> uint b" "uint r < uint b" and u: "udiv_dlimb b r a = (q, r')"
  shows "uint r * 2 ^ 64 + uint a = uint q * uint b + uint r' \<and> uint r' < uint b"
proof -
  define n where "n = uint r * 2 ^ 64 + uint a"
  define d where "d = uint b"
  have d: "0 < d" "d < 2 ^ 64" using b(1) limb_lt [of b] by (simp_all add: d_def)
  have j: "uint (join r a) = n" by (simp add: join_uint n_def)
  have "(uint r + 1) * 2 ^ 64 \<le> d * 2 ^ 64" using b(2) by (intro mult_right_mono) (auto simp: d_def)
  then have n: "0 \<le> n" "n < d * 2 ^ 64" using limb_lt [of a] by (simp_all add: n_def algebra_simps)
  have "(n div d) * d \<le> n" unfolding minus_mod_eq_div_mult [symmetric] using d by simp
  then have "(n div d) * d < 2 ^ 64 * d" using n(2) by (simp only: mult.commute)
  then have "n div d < 2 ^ 64" using d(1) by (simp only: mult_less_cancel_right_pos)
  moreover have "0 \<le> n div d" using n d by (simp add: pos_imp_zdiv_nonneg_iff)
  ultimately have q: "n div d mod 2 ^ 64 = n div d" by (intro mod_pos_pos_trivial)
  have "n mod d < 2 ^ 64" "0 \<le> n mod d" using pos_mod_bound [OF d(1), of n] pos_mod_sign [OF d(1), of n] d(2) by linarith+
  then have r: "n mod d mod 2 ^ 64 = n mod d" by (intro mod_pos_pos_trivial)
  have e: "q = ucast (join r a div ucast b)" "r' = ucast (join r a mod ucast b)" using u by (simp_all add: udiv_dlimb_def Let_def)
  have "uint q = n div d" "uint r' = n mod d"
    unfolding e uint_low_limb uint_div uint_mod j uint_dlimb d_def [symmetric] q r by simp_all
  then show ?thesis unfolding n_def [symmetric] d_def [symmetric] using pos_mod_bound [OF d(1), of n] by simp
qed

interpretation plain: limb_divider udiv_dlimb
  by unfold_locales (rule udiv_dlimb_spec)

lemma mp_div1norm_val:
  assumes "2 ^ 63 \<le> uint b" and "uint r < uint b" and "mp_div1norm taba b r = (tabr, r')"
  shows "length tabr = length taba \<and> val taba + bpow (length taba) * uint r = val tabr * uint b + uint r' \<and> uint r' < uint b"
  using inverse.div1_loop_val [OF assms(1,2), of "rev taba" "[]" tabr r'] plain.div1_loop_val [OF assms(1,2), of "rev taba" "[]" tabr r']
    assms(3) by (auto simp: mp_div1norm_def Let_def split: if_splits)

section \<open>Division of an array by an array\<close>

lemma quot_limb_ge:
  assumes d: "2 ^ 63 \<le> uint b1" and inv: "b1_inv = 0 \<or> b1_inv = udiv1norm_init b1" and le: "uint a1 \<le> uint b1"
  shows "quot_limb b1 b1_inv a1 a0 = - 1 \<and> a1 = b1 \<or> a1 < b1 \<and>
     uint a1 * 2 ^ 64 + uint a0 < (uint (quot_limb b1 b1_inv a1 a0) + 1) * uint b1"
proof (cases "a1 < b1")
  case True
  then have lt: "uint a1 < uint b1" by (simp add: word_less_def)
  obtain q r where q: "udiv1norm b1 (udiv1norm_init b1) a1 a0 = (q, r)" by (metis surj_pair)
  obtain q' r' where q': "udiv_dlimb b1 a1 a0 = (q', r')" by (metis surj_pair)
  have "quot_limb b1 b1_inv a1 a0 = q \<or> quot_limb b1 b1_inv a1 a0 = q'"
    using True inv q q' by (auto simp: quot_limb_def udiv_dlimb_def Let_def)
  moreover have "uint a1 * 2 ^ 64 + uint a0 < (uint q + 1) * uint b1" using inverse.udiv [OF d lt q] by (simp add: distrib_right)
  moreover have "uint a1 * 2 ^ 64 + uint a0 < (uint q' + 1) * uint b1" using plain.udiv [OF d lt q'] by (simp add: distrib_right)
  ultimately show ?thesis using True by auto
next
  case False
  then have "a1 = b1" using le by (simp add: word_less_def word_uint_eq_iff)
  then show ?thesis by (simp add: quot_limb_def)
qed


text \<open>The correction adds the divisor until the negative number becomes positive.\<close>

lemma correct_loop_spec:
  assumes "length tab = length tabb" and "0 < val tabb"
  shows "\<exists>j tab'. correct_loop tab t tabb q = Some (tab', 0, q - of_nat j) \<and> length tab' = length tabb \<and>
    val tab' = val tab + bpow (length tabb) * (uint t - 2 ^ 64) + int j * val tabb \<and> val tab' < val tabb"
  using assms(1)
proof (induction "nat (- (val tab + bpow (length tabb) * (uint t - 2 ^ 64)))" arbitrary: tab t q rule: less_induct)
  case less
  let ?p = "bpow (length tabb)"
  define X where "X = val tab + ?p * (uint t - 2 ^ 64)"
  have neg: "X < 0"
  proof -
    have "?p * (uint t - 2 ^ 64) \<le> ?p * (- 1)" using limb_lt [of t] by (intro mult_left_mono) (auto simp: order.strict_implies_order)
    then show ?thesis using val_lt [of tab] less.prems by (simp add: X_def)
  qed
  obtain tab1 c where a: "mp_add tab tabb 0 = (tab1, c)" by (metis surj_pair)
  have k: "uint (0 :: limb) \<le> 1" by simp
  note v = mp_add_val [OF less.prems k a]
  have l1: "length tab1 = length tabb" and c1: "uint c \<le> 1" using v less.prems by simp_all
  have v: "val tab1 + ?p * uint c = val tab + val tabb" using conjunct2 [OF conjunct2 [OF v]] unfolding l1 by simp
  have cc: "uint c = 0 \<or> uint c = 1" using c1 uint_ge_0 [of c] by linarith
  define t1 where "t1 = (if c \<noteq> 0 then t + 1 else t)"
  show ?case
  proof (cases "c \<noteq> 0 \<and> t + 1 = 0")
    case True
    then have "uint c = 1" using cc by (auto simp: word_uint_eq_iff)
    moreover have "t = - 1" using True by (metis add_eq_0_iff2)
    then have "uint t - 2 ^ 64 = - 1" by (simp add: uint_minus_1)
    ultimately have "val tab1 = val tab + ?p * (uint t - 2 ^ 64) + int 1 * val tabb" using v by simp
    moreover have "correct_loop tab t tabb q = Some (tab1, 0, q - of_nat 1)"
      using True a by (simp add: correct_loop.simps [of tab t] Let_def)
    moreover have "val tab1 < val tabb" using calculation(1) neg by (simp add: X_def)
    ultimately show ?thesis using l1 by blast
  next
    case False
    have s: "correct_loop tab t tabb q = correct_loop tab1 t1 tabb (q - 1)"
      using False a by (auto simp: correct_loop.simps [of tab t] Let_def t1_def)
    have X1: "val tab1 + ?p * (uint t1 - 2 ^ 64) = X + val tabb"
    proof (cases "c = 0")
      case True
      then show ?thesis using v by (simp add: t1_def X_def)
    next
      case nz: False
      then have "uint c = 1" using cc by (auto simp: word_uint_eq_iff)
      moreover have "t \<noteq> - 1" using False nz by auto
      then have "uint t \<noteq> 2 ^ 64 - 1" by (simp add: word_uint_eq_iff uint_minus_1)
      then have "uint (t + 1) = uint t + 1" using limb_lt [of t] by (simp add: uint_word_ariths mod_pos_pos_trivial)
      ultimately show ?thesis using v nz by (simp add: t1_def X_def algebra_simps)
    qed
    have "nat (- (val tab1 + ?p * (uint t1 - 2 ^ 64))) < nat (- (val tab + ?p * (uint t - 2 ^ 64)))"
      unfolding X1 using neg assms(2) by (simp add: X_def)
    from less.hyps [OF this l1, of "q - 1"] obtain j tab' where
      ih: "correct_loop tab1 t1 tabb (q - 1) = Some (tab', 0, q - 1 - of_nat j)" "length tab' = length tabb"
        "val tab' = X + val tabb + int j * val tabb" "val tab' < val tabb" unfolding X1 by blast
    have "q - 1 - of_nat j = q - of_nat (Suc j)" "X + val tabb + int j * val tabb = X + int (Suc j) * val tabb"
      by (simp_all add: algebra_simps)
    then show ?thesis using ih s unfolding X_def by metis
  qed
qed


lemma quot_estimate:
  fixes U V p s0 v0 a0 a1 b1 q B :: int
  assumes V: "V = v0 + p * b1" "0 \<le> v0" "v0 < p" and U: "U = s0 + p * (a0 + B * a1)" "s0 < p"
    and le: "U < B * V" and p: "0 < p" and B: "0 < B" and a0: "0 \<le> a0" and q: "q = B - 1 \<or> a1 * B + a0 < (q + 1) * b1" "- 1 \<le> q"
  shows "U < (q + 1) * V"
  using q(1)
proof
  assume "q = B - 1"
  then show ?thesis using le by simp
next
  assume "a1 * B + a0 < (q + 1) * b1"
  then have "p * (a0 + B * a1 + 1) \<le> p * ((q + 1) * b1)" using p by (intro mult_left_mono) (auto simp: mult.commute)
  moreover have "U < p * (a0 + B * a1 + 1)" using U by (simp add: distrib_left)
  moreover have "p * ((q + 1) * b1) \<le> (q + 1) * V"
    using V(1) mult_nonneg_nonneg [of "q + 1" v0] q(2) V(2) by (simp add: distrib_left mult.left_commute)
  ultimately show ?thesis by linarith
qed

lemma val_snoc: "val (xs @ [x]) = val xs + bpow (length xs) * uint x"
  by (simp add: val_append)

text \<open>One step: the part of \<^verbatim>\<open>taba\<close> from \<open>i\<close> on is divided with remainder.\<close>

lemma divnorm_step_val:
  assumes nb: "0 < length tabb" and i: "i + length tabb < length taba" and b1: "b1 = last tabb" "2 ^ 63 \<le> uint b1"
    and inv: "b1_inv = 0 \<or> b1_inv = udiv1norm_init b1"
    and up: "val (take (length tabb) (drop (i + 1) taba)) < val tabb"
  shows "\<exists>taba' q. divnorm_step tabb b1 b1_inv taba i = Some (taba', q) \<and> length taba' = length taba \<and>
    take i taba' = take i taba \<and> val (take (length tabb) (drop i taba')) < val tabb \<and>
    val (take (length tabb + 1) (drop i taba)) = uint q * val tabb + val (take (length tabb) (drop i taba'))"
proof -
  define m where "m = length tabb - 1"
  have m: "length tabb = Suc m" using nb by (simp add: m_def)
  define S where "S = take (Suc m) (drop i taba)"
  define a1 where "a1 = taba ! (i + Suc m)"
  define a0 where "a0 = taba ! (i + m)"
  have lS: "length S = Suc m" using i m by (simp add: S_def)
  have S0: "S = take m (drop i taba) @ [a0]" using i m by (simp add: S_def a0_def take_Suc_conv_app_nth)
  have S1: "take (Suc m + 1) (drop i taba) = S @ [a1]" using i m by (simp add: S_def a1_def take_Suc_conv_app_nth)
  define U where "U = val (take (Suc m + 1) (drop i taba))"
  have U: "U = val S + bpow (Suc m) * uint a1" unfolding U_def S1 val_snoc lS ..
  have US: "U = val (take m (drop i taba)) + bpow m * (uint a0 + 2 ^ 64 * uint a1)"
    unfolding U S0 val_snoc using i m by (simp add: distrib_left)
  have "drop i taba = taba ! i # drop (i + 1) taba" using i by (simp add: Cons_nth_drop_Suc)
  then have "U = uint (taba ! i) + 2 ^ 64 * val (take (Suc m) (drop (i + 1) taba))" unfolding U_def by simp
  moreover have "2 ^ 64 * (val (take (Suc m) (drop (i + 1) taba)) + 1) \<le> 2 ^ 64 * val tabb"
    using up unfolding m by (intro mult_left_mono) auto
  ultimately have le: "U < 2 ^ 64 * val tabb" using limb_lt [of "taba ! i"] by (simp add: distrib_left)
  have tb: "tabb = take m tabb @ [b1]" using b1(1) nb append_butlast_last_id [of tabb] unfolding butlast_conv_take m_def by simp
  have lt: "length (take m tabb) = m" using m by simp
  have V: "val tabb = val (take m tabb) + bpow m * uint b1" using val_snoc [of "take m tabb" b1] tb lt by simp
  have p: "0 < bpow m" by simp
  have vl: "0 \<le> val (take m tabb)" "val (take m tabb) < bpow m" using val_lt [of "take m tabb"] lt by simp_all
  have sl: "0 \<le> val (take m (drop i taba))" "val (take m (drop i taba)) < bpow m"
    using val_lt [of "take m (drop i taba)"] i m by simp_all
  have a1b1: "uint a1 \<le> uint b1"
  proof -
    have "bpow m * (2 ^ 64 * uint a1) \<le> U"
      unfolding US distrib_left using sl(1) mult_nonneg_nonneg [OF order.strict_implies_order [OF p] uint_ge_0 [of a0]] by linarith
    also have "U < 2 ^ 64 * (bpow m * (uint b1 + 1))"
      using le vl(2) unfolding V distrib_left by simp
    finally have "(2 ^ 64 * bpow m) * uint a1 < (2 ^ 64 * bpow m) * (uint b1 + 1)" by (simp only: mult.assoc mult.left_commute)
    moreover have "0 < 2 ^ 64 * bpow m" by simp
    ultimately have "uint a1 < uint b1 + 1" using mult_less_cancel_left_pos by blast
    then show ?thesis by simp
  qed
  define q where "q = quot_limb b1 b1_inv a1 a0"
  have q: "U < (uint q + 1) * val tabb"
  proof (rule quot_estimate [OF V vl US sl(2) le p])
    show "uint q = 2 ^ 64 - 1 \<or> uint a1 * 2 ^ 64 + uint a0 < (uint q + 1) * uint b1"
      using quot_limb_ge [OF b1(2) inv a1b1, of a0] by (auto simp: q_def uint_minus_1)
    show "- 1 \<le> uint q" using uint_ge_0 [of q] by linarith
  qed simp_all
  obtain tab r where sm: "mp_sub_mul1 S tabb q = (tab, r)" by (metis surj_pair)
  have "length S = length tabb" using lS m by simp
  note sv = mp_sub_mul1_loop_val [OF this sm [unfolded mp_sub_mul1_def]]
  have tl: "length tab = Suc m" using sv m by simp
  have tv: "val tab - bpow (Suc m) * uint r = val S - val tabb * uint q" using conjunct2 [OF sv] unfolding tl by simp
  define taba1 where "taba1 = take i taba @ tab @ drop (i + Suc m) taba"
  have w1: "wr_seg taba i tab = Some taba1" "taba1 ! (i + Suc m) = a1" "length taba1 = length taba"
    using i m tl by (simp_all add: wr_seg_def taba1_def a1_def nth_append)
  define a where "a = a1 - r"
  have au: "uint a = uint a1 - uint r + 2 ^ 64 * of_bool (a > a1)" unfolding a_def by (rule uint_sub_limb)
  define R where "R = U - uint q * val tabb"
  have RV: "R < val tabb" using q by (simp add: R_def distrib_right)
  have R: "R = val tab + bpow (Suc m) * (uint a - 2 ^ 64 * of_bool (a > a1))"
    using tv unfolding R_def U au by (simp add: algebra_simps)
  have Vp: "0 < val tabb" using up val_nonneg [of "take (length tabb) (drop (i + 1) taba)"] by linarith
  obtain tab2 j where c: "(if a > a1 then correct_loop tab a tabb q else Some (tab, a, q)) = Some (tab2, 0, q - of_nat j)"
    "length tab2 = Suc m" "val tab2 = R + int j * val tabb" "val tab2 < val tabb"
  proof (cases "a > a1")
    case True
    have "length tab = length tabb" using tl m by simp
    from correct_loop_spec [OF this Vp, of a q] obtain j tab2 where "correct_loop tab a tabb q = Some (tab2, 0, q - of_nat j)"
      "length tab2 = length tabb" "val tab2 = val tab + bpow (length tabb) * (uint a - 2 ^ 64) + int j * val tabb" "val tab2 < val tabb"
      by blast
    then show ?thesis using that [of tab2 j] True R m by simp
  next
    case False
    then have e: "R = val tab + bpow (Suc m) * uint a" using R by simp
    have "bpow (Suc m) * uint a < bpow (Suc m) * 1"
      using e RV val_lt [of tabb, unfolded m] val_nonneg [of tab] by linarith
    then have "uint a < 1" using bpow_pos(1) [of "Suc m"] by (simp only: mult_less_cancel_left_pos)
    then have "uint a = 0" using uint_ge_0 [of a] by linarith
    then have "a = 0" by (simp add: word_uint_eq_iff)
    then show ?thesis using that [of tab 0] False e RV tl by simp
  qed
  define taba2 where "taba2 = take i taba @ tab2 @ 0 # drop (i + Suc m + 1) taba"
  have il: "i + length tab2 < length taba1" using c(2) w1(3) i m by simp
  have t1: "take i taba1 = take i taba" "drop (i + Suc m + 1) taba1 = drop (i + Suc m + 1) taba"
    using i m tl by (simp_all add: taba1_def)
  obtain taba3 where w2: "wr_seg taba1 i tab2 = Some taba3" "wr taba3 (i + Suc m) 0 = Some taba2"
    using write_limbs [OF il, of 0] c(2) t1 by (auto simp: taba2_def)
  have qj: "uint (q - of_nat j) = uint q - int j"
  proof -
    have U0: "U = (uint q - int j) * val tabb + val tab2" using c(3) by (simp add: R_def algebra_simps)
    have "0 \<le> U" by (simp add: U_def)
    then have "- 1 * val tabb < (uint q - int j) * val tabb" using U0 c(4) by linarith
    then have "- 1 < uint q - int j" using Vp by (simp only: mult_less_cancel_right_pos)
    then have jq: "int j \<le> uint q" by linarith
    then have "uint (of_nat j :: limb) = int j" using limb_lt [of q] by (simp add: unsigned_of_nat take_bit_nat_eq_self_iff take_bit_eq_mod)
    then show ?thesis using jq limb_lt [of q] uint_sub_limb [of q "of_nat j"]
      by (simp add: uint_word_ariths mod_pos_pos_trivial)
  qed
  have st: "divnorm_step tabb b1 b1_inv taba i = Some (taba2, q - of_nat j)"
  proof -
    have rds: "rd taba (i + length tabb) = Some a1" "rd taba (i + length tabb - 1) = Some a0" "rd_seg taba i (length tabb) = Some S"
      "rd taba1 (i + length tabb) = Some a1"
      using i m w1 by (simp_all add: rd_seg_def S_def a1_def a0_def)
    show ?thesis
      by (simp add: divnorm_step_def Let_def rds q_def [symmetric] sm w1(1) a_def [symmetric] c(1) w2 [folded m] del: One_nat_def split del: if_split cong: if_cong)
  qed
  have T: "take (length tabb) (drop i taba2) = tab2" "take i taba2 = take i taba" "length taba2 = length taba"
    using i m c(2) by (simp_all add: taba2_def)
  have "U = uint (q - of_nat j) * val tabb + val tab2" using c(3) unfolding qj by (simp add: R_def algebra_simps)
  then show ?thesis using st T c(4) m unfolding U_def by (intro exI [of _ taba2] exI [of _ "q - of_nat j"]) simp
qed


lemma divnorm_loop_val:
  assumes nb: "0 < length tabb" and b1: "b1 = last tabb" "2 ^ 63 \<le> uint b1" and inv: "b1_inv = 0 \<or> b1_inv = udiv1norm_init b1"
  shows "i + length tabb \<le> length taba \<Longrightarrow> val (take (length tabb) (drop i taba)) < val tabb \<Longrightarrow>
    \<exists>qs taba'. divnorm_loop tabb b1 b1_inv taba i tabq = Some (qs @ tabq, taba') \<and> length qs = i \<and> length taba' = length taba \<and>
      val (take (length tabb) taba') < val tabb \<and>
      val (take (i + length tabb) taba) = val qs * val tabb + val (take (length tabb) taba')"
proof (induction i arbitrary: taba tabq)
  case (Suc i)
  let ?nb = "length tabb"
  have i: "i + ?nb < length taba" and up: "val (take ?nb (drop (i + 1) taba)) < val tabb" using Suc.prems by simp_all
  obtain taba1 q where s: "divnorm_step tabb b1 b1_inv taba i = Some (taba1, q)" "length taba1 = length taba" "take i taba1 = take i taba"
    "val (take ?nb (drop i taba1)) < val tabb"
    "val (take (?nb + 1) (drop i taba)) = uint q * val tabb + val (take ?nb (drop i taba1))"
    using divnorm_step_val [OF nb i b1 inv up] by blast
  have "i + ?nb \<le> length taba1" using i s(2) by simp
  from Suc.IH [OF this s(4), of "q # tabq"] obtain qs taba' where
    ih: "divnorm_loop tabb b1 b1_inv taba1 i (q # tabq) = Some (qs @ q # tabq, taba')" "length qs = i" "length taba' = length taba1"
      "val (take ?nb taba') < val tabb" "val (take (i + ?nb) taba1) = val qs * val tabb + val (take ?nb taba')" by blast
  have split: "val (take (i + n) xs) = val (take i xs) + bpow i * val (take n (drop i xs))" if "i \<le> length xs" for n xs
    using that by (simp add: take_add val_append)
  have "val (take (Suc i + ?nb) taba) = val (take i taba) + bpow i * val (take (?nb + 1) (drop i taba))"
    using split [of taba "?nb + 1"] i by simp
  also have "\<dots> = val (take (i + ?nb) taba1) + bpow i * uint q * val tabb"
    unfolding s(5) using split [of taba1 ?nb] s(2,3) i by (simp add: distrib_left)
  also have "\<dots> = val (qs @ [q]) * val tabb + val (take ?nb taba')" unfolding ih(5) val_snoc using ih(2) by (simp add: distrib_right)
  finally show ?case using s(1,2) ih by (intro exI [of _ "qs @ [q]"] exI [of _ taba']) simp
qed simp

lemma first_q_cases:
  "length xs = length ys \<Longrightarrow> first_q (rev xs) (rev ys) = (if val xs < val ys then 0 else 1)"
proof (induction xs arbitrary: ys rule: rev_induct)
  case (snoc x xs)
  then obtain y ys' where ys: "ys = ys' @ [y]" "length xs = length ys'" by (cases ys rule: rev_cases) auto
  let ?p = "bpow (length ys')"
  have b: "val xs < ?p" "val ys' < ?p" "0 \<le> val xs" "0 \<le> val ys'" using val_lt [of xs] val_lt [of ys'] ys(2) by simp_all
  have mono: "?p * (a + 1) \<le> ?p * b'" if "a < b'" for a b' :: int using that by (intro mult_left_mono) auto
  consider "uint x < uint y" | "uint y < uint x" | "uint x = uint y" by linarith
  then show ?case
  proof cases
    case 1
    have "val (xs @ [x]) < val (ys' @ [y])" using mono [OF 1, unfolded distrib_left] b unfolding val_snoc ys(2) by linarith
    then show ?thesis using 1 ys by (simp add: word_less_def word_uint_eq_iff)
  next
    case 2
    have "\<not> val (xs @ [x]) < val (ys' @ [y])" using mono [OF 2, unfolded distrib_left] b unfolding val_snoc ys(2) by linarith
    then show ?thesis using 2 ys by (simp add: word_less_def word_uint_eq_iff)
  next
    case 3
    then have "x = y" by (simp add: word_uint_eq_iff)
    then show ?thesis using snoc.IH [OF ys(2)] ys by (simp add: val_snoc)
  qed
qed simp

lemma val_normalised:
  assumes "tabb \<noteq> []" and "2 ^ 63 \<le> uint (last tabb)"
  shows "bpow (length tabb) \<le> 2 * val tabb"
proof -
  have e: "val tabb = val (butlast tabb) + bpow (length tabb - 1) * uint (last tabb)"
    using val_snoc [of "butlast tabb" "last tabb"] assms(1) by simp
  have "bpow (length tabb) = bpow (Suc (length tabb - 1))" using assms(1) by (cases tabb) simp_all
  also have "\<dots> = 2 * (bpow (length tabb - 1) * 2 ^ 63)" by simp
  also have "\<dots> \<le> 2 * (bpow (length tabb - 1) * uint (last tabb))" using assms(2) by (intro mult_left_mono) auto
  also have "\<dots> \<le> 2 * val tabb" unfolding e by simp
  finally show ?thesis .
qed

lemma mp_divnorm_val:
  assumes "tabb \<noteq> []" and "2 ^ 63 \<le> uint (last tabb)" and "length tabb \<le> length taba"
    and "length tabb = 1 \<or> min (length taba - length tabb) (length tabb) < DIVNORM_LARGE_THRESHOLD"
  shows "\<exists>tabq taba'. mp_divnorm large taba tabb = Some (tabq, taba') \<and>
    length tabq = length taba - length tabb + 1 \<and> length taba' = length taba \<and>
    val taba = val tabq * val tabb + val (take (length tabb) taba') \<and> val (take (length tabb) taba') < val tabb"
proof (cases "length tabb = 1")
  case True
  then obtain b where b: "tabb = [b]" by (auto simp: length_Suc_conv)
  then obtain a0 as where as: "taba = a0 # as" using assms(3) by (cases taba) auto
  obtain tabq r where q: "mp_div1norm taba b 0 = (tabq, r)" by (metis surj_pair)
  have n: "2 ^ 63 \<le> uint b" using assms(2) b by simp
  then have "uint (0 :: limb) < uint b" by simp
  from mp_div1norm_val [OF n this q] show ?thesis using q b as by (simp add: mp_divnorm_def Let_def)
next
  case False
  let ?nb = "length tabb" and ?n = "length taba - length tabb"
  define T where "T = drop ?n taba"
  define b1 where "b1 = last tabb"
  define b1_inv where "b1_inv = (if ?n \<ge> UDIV1NORM_THRESHOLD then udiv1norm_init b1 else 0)"
  define q where "q = first_q (rev T) (rev tabb)"
  have nb: "0 < ?nb" using assms(1) by simp
  have T: "length T = ?nb" "taba = take ?n taba @ T" using assms(3) by (simp_all add: T_def)
  have q: "q = (if val T < val tabb then 0 else 1)" using first_q_cases T(1) by (simp add: q_def)
  obtain S k where S: "mp_sub T tabb 0 = (S, k)" by (metis surj_pair)
  have "uint (0 :: limb) \<le> 1" by simp
  note sv = mp_sub_val [OF T(1) this S]
  define T1 where "T1 = (if q \<noteq> 0 then S else T)"
  define taba1 where "taba1 = take ?n taba @ T1"
  have T1: "length T1 = ?nb" "val T = uint q * val tabb + val T1" "val T1 < val tabb"
  proof -
    have hi: "val T < 2 * val tabb" using val_lt [of T] val_normalised [OF assms(1,2)] T(1) by simp
    have lS: "length S = ?nb" using sv T(1) by simp
    have vS: "val S - bpow ?nb * uint k = val T - val tabb" using conjunct2 [OF conjunct2 [OF sv]] unfolding lS by simp
    have "val S = val T - val tabb" if ge: "val tabb \<le> val T"
    proof -
      have "bpow ?nb * uint k < bpow ?nb * 1" using vS ge val_lt [of S, unfolded lS] by linarith
      then have "uint k < 1" by (simp only: mult_less_cancel_left_pos bpow_pos(1))
      then have "uint k = 0" using uint_ge_0 [of k] by linarith
      then show ?thesis using vS by simp
    qed
    then show "length T1 = ?nb" "val T = uint q * val tabb + val T1" "val T1 < val tabb"
      using lS T(1) hi unfolding T1_def q by (auto simp: not_less)
  qed
  have l1: "length taba1 = length taba" "drop ?n taba1 = T1" "take ?n taba1 = take ?n taba" using T1(1) assms(3) by (simp_all add: taba1_def)
  have inv: "b1_inv = 0 \<or> b1_inv = udiv1norm_init b1" by (simp add: b1_inv_def)
  have b1n: "2 ^ 63 \<le> uint b1" using assms(2) by (simp add: b1_def)
  have le: "?n + ?nb \<le> length taba1" and up: "val (take ?nb (drop ?n taba1)) < val tabb" using l1 T1 assms(3) by simp_all
  obtain qs taba' where L: "divnorm_loop tabb b1 b1_inv taba1 ?n [q] = Some (qs @ [q], taba')" "length qs = ?n" "length taba' = length taba1"
    "val (take ?nb taba') < val tabb" "val (take (?n + ?nb) taba1) = val qs * val tabb + val (take ?nb taba')"
    using divnorm_loop_val [OF nb b1_def b1n inv le up, of "[q]"] by blast
  have run: "mp_divnorm large taba tabb = divnorm_loop tabb b1 b1_inv taba1 ?n [q]"
  proof -
    have r1: "rd tabb (?nb - 1) = Some b1" using assms(1) by (simp add: b1_def last_conv_nth)
    have r2: "rd_seg taba ?n ?nb = Some T" using assms(3) by (simp add: rd_seg_def T_def)
    have lS: "length S = ?nb" using sv T(1) by simp
    have "(if q \<noteq> 0 then Option.bind (rd_seg taba ?n ?nb) (\<lambda>tab. wr_seg taba ?n (fst (mp_sub tab tabb 0))) else Some taba) = Some taba1"
      using r2 S lS T assms(3) unfolding taba1_def T1_def by (auto simp: wr_seg_def)
    note sub = this
    have thr: "\<not> DIVNORM_LARGE_THRESHOLD \<le> min ?n ?nb" using False assms(4) by auto
    show ?thesis
      using sub r1 False assms(3) unfolding b1_inv_def q_def T_def
      by (simp add: mp_divnorm_def Let_def del: One_nat_def split del: if_split cong: if_cong) (use thr in auto)
  qed
  have "val taba = val (take ?n taba) + bpow ?n * val T" using T(2) assms(3) val_append [of "take ?n taba" T] by simp
  also have "\<dots> = (val (take ?n taba1) + bpow ?n * val T1) + bpow ?n * uint q * val tabb" unfolding T1(2) l1(3) by (simp add: distrib_left)
  also have "val (take ?n taba1) + bpow ?n * val T1 = val (take (?n + ?nb) taba1)"
    using l1 T1(1) assms(3) val_append [of "take ?n taba1" T1] by (simp add: taba1_def)
  also have "\<dots> + bpow ?n * uint q * val tabb = val (qs @ [q]) * val tabb + val (take ?nb taba')"
    unfolding L(5) val_snoc L(2) by (simp add: distrib_right)
  finally show ?thesis using run L l1 by simp
qed

section \<open>Properties\<close>

text \<open>C31: the base case of \<^verbatim>\<open>mp_divnorm\<close>, below the threshold of the recursive method and with
  a normalised divisor: the corrections of every limb of the quotient end, all accesses are inside the
  arrays, quotient and remainder satisfy the division identity, and the remainder is below the divisor.\<close>

theorem mp_divnorm_correct:
  assumes "tabb \<noteq> []" and "2 ^ 63 \<le> uint (last tabb)" and "length tabb \<le> length taba"
    and "length tabb = 1 \<or> min (length taba - length tabb) (length tabb) < DIVNORM_LARGE_THRESHOLD"
  shows "\<exists>tabq taba'. mp_divnorm large taba tabb = Some (tabq, taba') \<and>
    length tabq = length taba - length tabb + 1 \<and> length taba' = length taba \<and>
    val taba = val tabq * val tabb + val (take (length tabb) taba') \<and> val (take (length tabb) taba') < val tabb"
  by (rule mp_divnorm_val [OF assms])

theorem mp_divnorm_correct_witness:
  "\<exists>tabq taba'. mp_divnorm (\<lambda>_ _. None) [1, 2, 3, 4] [5, 0x8000000000000000] = Some (tabq, taba') \<and>
    length tabq = length [1, 2, 3, 4 :: limb] - length [5, 0x8000000000000000 :: limb] + 1 \<and> length taba' = length [1, 2, 3, 4 :: limb] \<and>
    val [1, 2, 3, 4] = val tabq * val [5, 0x8000000000000000] + val (take (length [5, 0x8000000000000000 :: limb]) taba') \<and>
    val (take (length [5, 0x8000000000000000 :: limb]) taba') < val [5, 0x8000000000000000]"
  by (rule mp_divnorm_correct) simp_all

text \<open>C32: \<^verbatim>\<open>udiv1norm\<close> with the inverse of \<^verbatim>\<open>udiv1norm_init\<close> divides two limbs exactly, for
  every normalised divisor, in wrapping 64-bit and 128-bit arithmetic.\<close>

theorem udiv1norm_exact:
  assumes "2 ^ 63 \<le> uint d" and "uint a1 < uint d" and "udiv1norm d (udiv1norm_init d) a1 a0 = (q, r)"
  shows "uint q = (uint a1 * 2 ^ 64 + uint a0) div uint d \<and> uint r = (uint a1 * 2 ^ 64 + uint a0) mod uint d"
  using udiv1norm_spec [OF assms] int_div_pos_eq [of "uint a1 * 2 ^ 64 + uint a0" "uint d" "uint q" "uint r"]
    int_mod_pos_eq [of "uint a1 * 2 ^ 64 + uint a0" "uint d" "uint q" "uint r"]
  by (simp add: mult.commute)

theorem udiv1norm_exact_witness:
  "\<exists>q r. udiv1norm 0xC000000000000001 (udiv1norm_init 0xC000000000000001) 0xC000000000000000 0xFFFFFFFFFFFFFFFF = (q, r) \<and>
    uint q = (uint (0xC000000000000000 :: limb) * 2 ^ 64 + uint (0xFFFFFFFFFFFFFFFF :: limb)) div uint (0xC000000000000001 :: limb) \<and>
    uint r = (uint (0xC000000000000000 :: limb) * 2 ^ 64 + uint (0xFFFFFFFFFFFFFFFF :: limb)) mod uint (0xC000000000000001 :: limb)"
proof -
  obtain q r where q: "udiv1norm 0xC000000000000001 (udiv1norm_init 0xC000000000000001) 0xC000000000000000 0xFFFFFFFFFFFFFFFF = (q, r)"
    by (metis surj_pair)
  have "2 ^ 63 \<le> uint (0xC000000000000001 :: limb)" "uint (0xC000000000000000 :: limb) < uint (0xC000000000000001 :: limb)" by simp_all
  from q udiv1norm_exact [OF this q] show ?thesis by blast
qed

end
