(* ===== verification/Atoms.thy ===== *)
theory Atoms
  imports QPrelude
begin

text \<open>
  The table of atoms of \<^verbatim>\<open>quickjs.c\<close>, which gives every property name and symbol a number: an array
  of pointers to strings whose unused entries form a list, and a hash table whose chains run through
  the strings. Strings live in a heap, where an address is the number of an allocation; addresses are
  not used again, so that an access to a released string is an error (\<open>None\<close>). The list \<open>alloc_next\<close>
  holds the outcomes of the next allocations; behind its end they succeed.
\<close>

section \<open>Strings and the table\<close>

text \<open>\<open>JSString\<close>, of which \<open>JSAtomStruct\<close> is another name. \<open>str_units\<close> are the \<open>len\<close> units, less
  than 256 unless \<open>is_wide_char\<close>.\<close>

record JSString =
  str_ref_count :: int
  is_wide_char :: bool
  str_units :: "u16 list"
  str_hash :: u32
  atom_type :: nat
  hash_next :: nat

abbreviation (input) JS_ATOM_TYPE_STRING :: nat where "JS_ATOM_TYPE_STRING \<equiv> 1"
abbreviation (input) JS_ATOM_TYPE_GLOBAL_SYMBOL :: nat where "JS_ATOM_TYPE_GLOBAL_SYMBOL \<equiv> 2"
abbreviation (input) JS_ATOM_TYPE_SYMBOL :: nat where "JS_ATOM_TYPE_SYMBOL \<equiv> 3"
abbreviation (input) JS_ATOM_TYPE_PRIVATE :: nat where "JS_ATOM_TYPE_PRIVATE \<equiv> 4"

text \<open>An entry of \<open>atom_array\<close>: the tagged index of the next free entry, or a pointer. The code has
  the length of the arrays in \<open>atom_size\<close> and \<open>atom_hash_size\<close>.\<close>

datatype atom_entry = Free_entry nat | Atom_entry nat

record JSAtoms =
  str_heap :: "JSString option list"
  atom_array :: "atom_entry list"
  atom_hash :: "nat list"
  atom_count :: int
  atom_count_resize :: nat
  atom_free_index :: nat
  alloc_next :: "bool list"

definition js_malloc_rt :: "JSAtoms \<Rightarrow> bool \<times> JSAtoms" where
  "js_malloc_rt rt = (case alloc_next rt of [] \<Rightarrow> (True, rt) | b # bs \<Rightarrow> (b, rt\<lparr>alloc_next := bs\<rparr>))"

definition get_str :: "JSAtoms \<Rightarrow> nat \<Rightarrow> JSString option" where
  "get_str rt p = Option.bind (rd (str_heap rt) p) id"

definition set_str :: "nat \<Rightarrow> JSString \<Rightarrow> JSAtoms \<Rightarrow> JSAtoms" where
  "set_str p s rt = rt\<lparr>str_heap := (str_heap rt)[p := Some s]\<rparr>"

definition new_str :: "JSString \<Rightarrow> JSAtoms \<Rightarrow> nat \<times> JSAtoms" where
  "new_str s rt = (length (str_heap rt), rt\<lparr>str_heap := str_heap rt @ [Some s]\<rparr>)"

definition js_free_rt :: "nat \<Rightarrow> JSAtoms \<Rightarrow> JSAtoms" where
  "js_free_rt p rt = rt\<lparr>str_heap := (str_heap rt)[p := None]\<rparr>"

text \<open>\<open>rt->atom_array[i]\<close> and the string it points to.\<close>

definition atom_at :: "JSAtoms \<Rightarrow> nat \<Rightarrow> (nat \<times> JSString) option" where
  "atom_at rt i = do {
     e \<leftarrow> rd (atom_array rt) i;
     case e of Free_entry _ \<Rightarrow> None | Atom_entry p \<Rightarrow> do { s \<leftarrow> get_str rt p; Some (p, s) } }"

section \<open>Numbers as atoms\<close>

definition JS_ATOM_TAG_INT :: u32 where "JS_ATOM_TAG_INT = 0x80000000"
definition JS_ATOM_MAX_INT :: u32 where "JS_ATOM_MAX_INT = JS_ATOM_TAG_INT - 1"
definition JS_ATOM_MAX :: nat where "JS_ATOM_MAX = 2 ^ 30 - 1"

text \<open>The number of predefined atoms plus one, with \<open>CONFIG_BIGNUM\<close> and \<open>CONFIG_ATOMICS\<close>.\<close>

definition JS_ATOM_END :: int where "JS_ATOM_END = 225"

definition JS_AtomIsConst :: "u32 \<Rightarrow> bool" where
  "JS_AtomIsConst v \<longleftrightarrow> sint v < JS_ATOM_END"

definition JS_AtomIsTaggedInt :: "u32 \<Rightarrow> bool" where
  "JS_AtomIsTaggedInt v \<longleftrightarrow> v AND JS_ATOM_TAG_INT \<noteq> 0"

definition JS_AtomFromUInt32 :: "u32 \<Rightarrow> u32" where
  "JS_AtomFromUInt32 v = v OR JS_ATOM_TAG_INT"

definition JS_AtomToUInt32 :: "u32 \<Rightarrow> u32" where
  "JS_AtomToUInt32 atom = atom AND NOT JS_ATOM_TAG_INT"

definition is_num :: "u16 \<Rightarrow> bool" where
  "is_num c \<longleftrightarrow> 0x30 \<le> c \<and> c \<le> 0x39"

fun num_loop :: "u32 \<Rightarrow> u16 list \<Rightarrow> u32 option" where
  "num_loop n [] = Some n"
| "num_loop n (c # cs) =
     (if \<not> is_num c then None
      else let n64 = ucast n * 10 + ucast (c - 0x30) :: u64 in
        if drop_bit 32 n64 \<noteq> 0 then None else num_loop (ucast n64) cs)"

definition is_num_string :: "JSString \<Rightarrow> u32 option" where
  "is_num_string p =
     (let len = length (str_units p) in
      if len = 0 \<or> len > 10 then None
      else case str_units p of [] \<Rightarrow> None
        | c # cs \<Rightarrow>
            if \<not> is_num c then None
            else if c = 0x30 then (if len \<noteq> 1 then None else Some 0)
            else num_loop (ucast (c - 0x30)) cs)"

section \<open>Hashing\<close>

definition JS_ATOM_HASH_MASK :: u32 where "JS_ATOM_HASH_MASK = 0x3fffffff"

fun hash_units :: "u16 list \<Rightarrow> u32 \<Rightarrow> u32" where
  "hash_units [] h = h"
| "hash_units (c # cs) h = hash_units cs (h * 263 + ucast c)"

definition hash_string :: "JSString \<Rightarrow> u32 \<Rightarrow> u32" where
  "hash_string str h = hash_units (str_units str) h"

text \<open>\<open>h & (size - 1)\<close>.\<close>

definition bucket :: "nat \<Rightarrow> u32 \<Rightarrow> nat" where
  "bucket n h = unat (h AND of_nat (n - 1))"

text \<open>\<open>js_string_memcmp\<close>, whose three loops differ in the widths of the units only; a read behind the
  end is an error.\<close>

fun js_string_memcmp :: "u16 list \<Rightarrow> u16 list \<Rightarrow> nat \<Rightarrow> int option" where
  "js_string_memcmp p1 p2 0 = Some 0"
| "js_string_memcmp (c1 # p1) (c2 # p2) (Suc len) =
     (if c1 \<noteq> c2 then Some (uint c1 - uint c2) else js_string_memcmp p1 p2 len)"
| "js_string_memcmp _ _ (Suc len) = None"

section \<open>The hash table\<close>

text \<open>The chain that starts with the atom \<open>h\<close> is moved to the new table.\<close>

partial_function (option) rehash_chain :: "nat \<Rightarrow> JSAtoms \<Rightarrow> nat list \<Rightarrow> (JSAtoms \<times> nat list) option" where
  "rehash_chain h rt new_hash =
     (if h = 0 then Some (rt, new_hash)
      else (case atom_at rt h of None \<Rightarrow> None
       | Some (p, s) \<Rightarrow>
           (let j = bucket (length new_hash) (str_hash s) in
            case rd new_hash j of None \<Rightarrow> None
            | Some nx \<Rightarrow>
                rehash_chain (hash_next s) (set_str p (s\<lparr>hash_next := nx\<rparr>) rt) (new_hash[j := h]))))"

declare rehash_chain.simps [code]

fun rehash_all :: "nat list \<Rightarrow> JSAtoms \<Rightarrow> nat list \<Rightarrow> (JSAtoms \<times> nat list) option" where
  "rehash_all [] rt new_hash = Some (rt, new_hash)"
| "rehash_all (h # hs) rt new_hash = do {
     (rt', new_hash') \<leftarrow> rehash_chain h rt new_hash;
     rehash_all hs rt' new_hash' }"

definition JS_ResizeAtomHash :: "JSAtoms \<Rightarrow> nat \<Rightarrow> (int \<times> JSAtoms) option" where
  "JS_ResizeAtomHash rt new_hash_size =
     (if int new_hash_size AND (int new_hash_size - 1) \<noteq> 0 then None
      else let (r, rt) = js_malloc_rt rt in
        if \<not> r then Some (-1, rt)
        else do {
          (rt, new_hash) \<leftarrow> rehash_all (atom_hash rt) rt (replicate new_hash_size 0);
          Some (0, rt\<lparr>atom_hash := new_hash, atom_count_resize := new_hash_size * 2\<rparr>) })"

text \<open>The first atom of a chain with the property \<open>P\<close>, or 0.\<close>

partial_function (option) chain_find :: "(JSString \<Rightarrow> bool) \<Rightarrow> JSAtoms \<Rightarrow> nat \<Rightarrow> nat option" where
  "chain_find P rt i =
     (if i = 0 then Some 0
      else (case atom_at rt i of None \<Rightarrow> None
       | Some (p, s) \<Rightarrow> if P s then Some i else chain_find P rt (hash_next s)))"

declare chain_find.simps [code]

text \<open>The atom of a chain that is at the address \<open>p\<close>; it has to be there.\<close>

partial_function (option) chain_index :: "nat \<Rightarrow> JSAtoms \<Rightarrow> nat \<Rightarrow> nat option" where
  "chain_index p rt i =
     (if i = 0 then None
      else (case atom_at rt i of None \<Rightarrow> None
       | Some (p1, s) \<Rightarrow> if p1 = p then Some i else chain_index p rt (hash_next s)))"

declare chain_index.simps [code]

definition js_get_atom_index :: "JSAtoms \<Rightarrow> nat \<Rightarrow> nat option" where
  "js_get_atom_index rt p = do {
     s \<leftarrow> get_str rt p;
     if atom_type s \<noteq> JS_ATOM_TYPE_SYMBOL
     then do { i \<leftarrow> rd (atom_hash rt) (bucket (length (atom_hash rt)) (str_hash s)); chain_index p rt i }
     else Some (hash_next s) }"

section \<open>Releasing atoms\<close>

text \<open>The loop over a chain behind its first element: \<open>p0\<close> is the address of an element, the next one
  is not it; the element at \<open>p\<close> is taken out. The result has its index.\<close>

partial_function (option) chain_unlink :: "nat \<Rightarrow> nat \<Rightarrow> JSAtoms \<Rightarrow> (nat \<times> JSAtoms) option" where
  "chain_unlink p p0 rt =
     (case get_str rt p0 of None \<Rightarrow> None
      | Some s0 \<Rightarrow>
          let i = hash_next s0 in
          (case atom_at rt i of None \<Rightarrow> None
           | Some (p1, s1) \<Rightarrow>
               if p1 = p then Some (i, set_str p0 (s0\<lparr>hash_next := hash_next s1\<rparr>) rt)
               else if i = 0 then None
               else chain_unlink p p1 rt))"

declare chain_unlink.simps [code]

definition unlink_atom :: "JSAtoms \<Rightarrow> nat \<Rightarrow> JSString \<Rightarrow> (nat \<times> JSAtoms) option" where
  "unlink_atom rt p s = (let h0 = bucket (length (atom_hash rt)) (str_hash s) in do {
     i \<leftarrow> rd (atom_hash rt) h0;
     (p1, s1) \<leftarrow> atom_at rt i;
     if p1 = p then Some (i, rt\<lparr>atom_hash := (atom_hash rt)[h0 := hash_next s1]\<rparr>)
     else if i = 0 then None
     else chain_unlink p p1 rt })"

definition JS_FreeAtomStruct :: "JSAtoms \<Rightarrow> nat \<Rightarrow> JSAtoms option" where
  "JS_FreeAtomStruct rt p = do {
     s \<leftarrow> get_str rt p;
     (i, rt) \<leftarrow> (if atom_type s \<noteq> JS_ATOM_TYPE_SYMBOL then unlink_atom rt p s else Some (hash_next s, rt));
     a \<leftarrow> wr (atom_array rt) i (Free_entry (atom_free_index rt));
     let rt = js_free_rt p (rt\<lparr>atom_array := a, atom_free_index := i\<rparr>) in
     if atom_count rt - 1 < 0 then None else Some (rt\<lparr>atom_count := atom_count rt - 1\<rparr>) }"

definition add_ref :: "int \<Rightarrow> nat \<Rightarrow> JSAtoms \<Rightarrow> JSAtoms option" where
  "add_ref d p rt = do { s \<leftarrow> get_str rt p; Some (set_str p (s\<lparr>str_ref_count := str_ref_count s + d\<rparr>) rt) }"

definition js_free_string :: "JSAtoms \<Rightarrow> nat \<Rightarrow> JSAtoms option" where
  "js_free_string rt p = do {
     rt \<leftarrow> add_ref (-1) p rt;
     s \<leftarrow> get_str rt p;
     if str_ref_count s \<le> 0
     then if atom_type s \<noteq> 0 then JS_FreeAtomStruct rt p else Some (js_free_rt p rt)
     else Some rt }"

definition JS_FreeAtom :: "JSAtoms \<Rightarrow> u32 \<Rightarrow> JSAtoms option" where
  "JS_FreeAtom rt v =
     (if JS_AtomIsConst v then Some rt
      else do {
        (p, s) \<leftarrow> atom_at rt (unat v);
        rt \<leftarrow> add_ref (-1) p rt;
        if str_ref_count s - 1 > 0 then Some rt else JS_FreeAtomStruct rt p })"

definition JS_DupAtom :: "JSAtoms \<Rightarrow> u32 \<Rightarrow> (u32 \<times> JSAtoms) option" where
  "JS_DupAtom rt v =
     (if JS_AtomIsConst v then Some (v, rt)
      else do { (p, s) \<leftarrow> atom_at rt (unat v); rt \<leftarrow> add_ref 1 p rt; Some (v, rt) })"

section \<open>New atoms\<close>

definition same_string :: "u32 \<Rightarrow> nat \<Rightarrow> u16 list \<Rightarrow> JSString \<Rightarrow> bool" where
  "same_string h ty units p \<longleftrightarrow> str_hash p = h \<and> atom_type p = ty \<and> length (str_units p) = length units \<and>
     js_string_memcmp (str_units p) units (length units) = Some 0"

text \<open>More free entries. The result is false when an allocation fails.\<close>

definition free_entries :: "nat \<Rightarrow> nat \<Rightarrow> atom_entry list" where
  "free_entries start new_size =
     map (\<lambda>i. Free_entry (if i = new_size - 1 then 0 else i + 1)) [start..<new_size]"

definition null_atom :: JSString where
  "null_atom = \<lparr>str_ref_count = 1, is_wide_char = False, str_units = [], str_hash = 0,
     atom_type = JS_ATOM_TYPE_SYMBOL, hash_next = 0\<rparr>"

definition grow_atoms :: "JSAtoms \<Rightarrow> (bool \<times> JSAtoms) option" where
  "grow_atoms rt =
     (if length (atom_array rt) * 3 \<ge> 2 ^ 31 then None
      else let new_size = max 211 (length (atom_array rt) * 3 div 2) in
      if new_size > JS_ATOM_MAX then Some (False, rt)
      else let (r, rt) = js_malloc_rt rt in
      if \<not> r then Some (False, rt)
      else if atom_array rt = [] then
        (let (r, rt) = js_malloc_rt rt in
         if \<not> r then Some (False, rt)
         else let (p, rt) = new_str null_atom rt in
           Some (True, rt\<lparr>atom_count := atom_count rt + 1, atom_free_index := 1,
                          atom_array := Atom_entry p # free_entries 1 new_size\<rparr>))
      else let start = length (atom_array rt) in
        Some (True, rt\<lparr>atom_free_index := start, atom_array := atom_array rt @ free_entries start new_size\<rparr>))"

text \<open>The string of the new atom: \<open>str\<close> itself when it is not an atom, a copy otherwise. An address
  \<open>None\<close> is a failed allocation.\<close>

definition atom_string :: "JSAtoms \<Rightarrow> nat option \<Rightarrow> (nat option \<times> JSAtoms) option" where
  "atom_string rt str =
     (case str of
        Some p \<Rightarrow> do {
          s \<leftarrow> get_str rt p;
          if atom_type s = 0 then Some (Some p, rt)
          else let (r, rt) = js_malloc_rt rt in
            if \<not> r then do { rt \<leftarrow> js_free_string rt p; Some (None, rt) }
            else let (q, rt) = new_str (s\<lparr>str_ref_count := 1\<rparr>) rt in do {
              rt \<leftarrow> js_free_string rt p;
              Some (Some q, rt) } }
      | None \<Rightarrow>
          let (r, rt) = js_malloc_rt rt in
          if \<not> r then Some (None, rt)
          else let (q, rt) = new_str \<lparr>str_ref_count = 1, is_wide_char = True, str_units = [], str_hash = 0,
                  atom_type = 0, hash_next = 0\<rparr> rt in Some (Some q, rt))"

definition insert_atom :: "JSAtoms \<Rightarrow> nat \<Rightarrow> u32 \<Rightarrow> nat \<Rightarrow> nat \<Rightarrow> (nat \<times> JSAtoms) option" where
  "insert_atom rt p h h1 ty = (let i = atom_free_index rt in do {
     e \<leftarrow> rd (atom_array rt) i;
     s \<leftarrow> get_str rt p;
     next_free \<leftarrow> (case e of Free_entry n \<Rightarrow> Some n | Atom_entry _ \<Rightarrow> None);
     let rt = rt\<lparr>atom_free_index := next_free, atom_array := (atom_array rt)[i := Atom_entry p],
                 atom_count := atom_count rt + 1\<rparr> in
     if ty = JS_ATOM_TYPE_SYMBOL
     then Some (i, set_str p (s\<lparr>str_hash := h, hash_next := i, atom_type := ty\<rparr>) rt)
     else do {
       nx \<leftarrow> rd (atom_hash rt) h1;
       let rt = set_str p (s\<lparr>str_hash := h, hash_next := nx, atom_type := ty\<rparr>)
                  (rt\<lparr>atom_hash := (atom_hash rt)[h1 := i]\<rparr>) in
       if atom_count rt \<ge> int (atom_count_resize rt)
       then do { (r, rt) \<leftarrow> JS_ResizeAtomHash rt (length (atom_hash rt) * 2); Some (i, rt) }
       else Some (i, rt) } })"

text \<open>The part behind the search for an atom that exists.\<close>

definition register_atom :: "JSAtoms \<Rightarrow> nat option \<Rightarrow> u32 \<Rightarrow> nat \<Rightarrow> nat \<Rightarrow> (nat \<times> JSAtoms) option" where
  "register_atom rt str h h1 ty = do {
     (r, rt) \<leftarrow> (if atom_free_index rt = 0 then grow_atoms rt else Some (True, rt));
     if \<not> r then
       (case str of None \<Rightarrow> Some (0, rt) | Some p \<Rightarrow> do { rt \<leftarrow> js_free_string rt p; Some (0, rt) })
     else do {
       (q, rt) \<leftarrow> atom_string rt str;
       case q of None \<Rightarrow> Some (0, rt) | Some p \<Rightarrow> insert_atom rt p h h1 ty } }"

text \<open>\<open>__JS_NewAtom\<close>; the reference to \<open>str\<close> is consumed, 0 is the failure.\<close>

definition JS_NewAtom_str :: "JSAtoms \<Rightarrow> nat option \<Rightarrow> nat \<Rightarrow> (nat \<times> JSAtoms) option" where
  "JS_NewAtom_str rt str ty =
     (if ty < JS_ATOM_TYPE_SYMBOL then
        (case str of None \<Rightarrow> None | Some p \<Rightarrow> do {
          s \<leftarrow> get_str rt p;
          if atom_type s = ty then do {
            i \<leftarrow> js_get_atom_index rt p;
            rt \<leftarrow> (if JS_AtomIsConst (of_nat i) then add_ref (-1) p rt else Some rt);
            Some (i, rt) }
          else let h = hash_string s (of_nat ty) AND JS_ATOM_HASH_MASK; h1 = bucket (length (atom_hash rt)) h in do {
            i0 \<leftarrow> rd (atom_hash rt) h1;
            i \<leftarrow> chain_find (same_string h ty (str_units s)) rt i0;
            if i \<noteq> 0 then do {
              (q, t) \<leftarrow> atom_at rt i;
              rt \<leftarrow> (if JS_AtomIsConst (of_nat i) then Some rt else add_ref 1 q rt);
              rt \<leftarrow> js_free_string rt p;
              Some (i, rt) }
            else register_atom rt str h h1 ty } })
      else register_atom rt str (if ty = JS_ATOM_TYPE_SYMBOL then 0 else 1) 0 JS_ATOM_TYPE_SYMBOL)"

definition JS_FindAtom :: "JSAtoms \<Rightarrow> u8 list \<Rightarrow> (nat \<times> JSAtoms) option" where
  "JS_FindAtom rt str = (let h = hash_units (map ucast str) (of_nat JS_ATOM_TYPE_STRING) AND JS_ATOM_HASH_MASK in do {
     i0 \<leftarrow> rd (atom_hash rt) (bucket (length (atom_hash rt)) h);
     i \<leftarrow> chain_find (\<lambda>p. same_string h JS_ATOM_TYPE_STRING (map ucast str) p \<and> \<not> is_wide_char p) rt i0;
     if i = 0 then Some (0, rt)
     else do {
       (q, t) \<leftarrow> atom_at rt i;
       rt \<leftarrow> (if JS_AtomIsConst (of_nat i) then Some rt else add_ref 1 q rt);
       Some (i, rt) } })"

definition JS_NewAtomStr :: "JSAtoms \<Rightarrow> nat \<Rightarrow> (u32 \<times> JSAtoms) option" where
  "JS_NewAtomStr rt p = do {
     s \<leftarrow> get_str rt p;
     case (case is_num_string s of None \<Rightarrow> None | Some n \<Rightarrow> if n \<le> JS_ATOM_MAX_INT then Some n else None) of
       Some n \<Rightarrow> do { rt \<leftarrow> js_free_string rt p; Some (JS_AtomFromUInt32 n, rt) }
     | None \<Rightarrow> do { (i, rt) \<leftarrow> JS_NewAtom_str rt (Some p) JS_ATOM_TYPE_STRING; Some (of_nat i, rt) } }"

section \<open>The predefined atoms\<close>

definition JS_NewAtomInit :: "JSAtoms \<Rightarrow> u8 list \<Rightarrow> nat \<Rightarrow> (nat \<times> JSAtoms) option" where
  "JS_NewAtomInit rt str ty =
     (let (r, rt) = js_malloc_rt rt in
      if \<not> r then Some (0, rt)
      else let (p, rt) = new_str \<lparr>str_ref_count = 1, is_wide_char = False, str_units = map ucast str,
             str_hash = 0, atom_type = 0, hash_next = 0\<rparr> rt in
        JS_NewAtom_str rt (Some p) ty)"

definition JS_ATOM_Private_brand :: nat where "JS_ATOM_Private_brand = 210"
definition JS_ATOM_Symbol_toPrimitive :: nat where "JS_ATOM_Symbol_toPrimitive = 211"

text \<open>The loop over the names of \<^verbatim>\<open>quickjs-atom.h\<close> from the one with the number \<open>i\<close> on.\<close>

fun init_loop :: "JSAtoms \<Rightarrow> nat \<Rightarrow> u8 list list \<Rightarrow> (int \<times> JSAtoms) option" where
  "init_loop rt i [] = Some (0, rt)"
| "init_loop rt i (str # strs) =
     (let ty = (if i = JS_ATOM_Private_brand then JS_ATOM_TYPE_PRIVATE
                else if i \<ge> JS_ATOM_Symbol_toPrimitive then JS_ATOM_TYPE_SYMBOL else JS_ATOM_TYPE_STRING) in do {
        (a, rt) \<leftarrow> JS_NewAtomInit rt str ty;
        if a = 0 then Some (-1, rt) else init_loop rt (i + 1) strs })"

definition JS_InitAtoms :: "JSAtoms \<Rightarrow> u8 list list \<Rightarrow> (int \<times> JSAtoms) option" where
  "JS_InitAtoms rt js_atom_init = do {
     (r, rt) \<leftarrow> JS_ResizeAtomHash (rt\<lparr>atom_hash := [], atom_count := 0, atom_array := [], atom_free_index := 0\<rparr>) 256;
     if r \<noteq> 0 then Some (-1, rt) else init_loop rt 1 js_atom_init }"

end
