(* ===== verification/AtomChains.thy ===== *)
theory AtomChains
  imports Atoms
begin

text \<open>
  The chains of the hash table of atoms: searching them, and moving them to a larger table.
\<close>

section \<open>Accesses\<close>

lemma get_set_str:
  "get_str rt p = Some t \<Longrightarrow> get_str (set_str p s rt) q = (if q = p then Some s else get_str rt q)"
  by (auto simp: get_str_def set_str_def rd_def nth_list_update split: if_splits)

lemma set_str_fields [simp]:
  "atom_array (set_str p s rt) = atom_array rt" "atom_hash (set_str p s rt) = atom_hash rt"
  "atom_count (set_str p s rt) = atom_count rt" "atom_free_index (set_str p s rt) = atom_free_index rt"
  "atom_count_resize (set_str p s rt) = atom_count_resize rt" "alloc_next (set_str p s rt) = alloc_next rt"
  "length (str_heap (set_str p s rt)) = length (str_heap rt)"
  by (simp_all add: set_str_def)

lemma atom_at_array: "atom_at rt i = Some (p, s) \<longleftrightarrow> rd (atom_array rt) i = Some (Atom_entry p) \<and> get_str rt p = Some s"
  by (cases "rd (atom_array rt) i") (auto simp: atom_at_def bind_eq_Some_conv split: atom_entry.splits)

lemma atom_at_get: "atom_at rt i = Some (p, s) \<Longrightarrow> get_str rt p = Some s"
  by (simp add: atom_at_array)

lemma atom_at_set_str:
  "get_str rt p = Some t \<Longrightarrow>
    atom_at (set_str p s rt) i = map_option (\<lambda>(q, u). (q, if q = p then s else u)) (atom_at rt i)"
  by (auto simp: atom_at_def get_set_str split: atom_entry.splits Option.bind_splits)

text \<open>Different atoms are at different addresses.\<close>

definition inj_atoms :: "JSAtoms \<Rightarrow> bool" where
  "inj_atoms rt \<longleftrightarrow> (\<forall>i j p. rd (atom_array rt) i = Some (Atom_entry p) \<and> rd (atom_array rt) j = Some (Atom_entry p) \<longrightarrow> i = j)"

lemma inj_atomsD: "inj_atoms rt \<Longrightarrow> atom_at rt i = Some (p, s) \<Longrightarrow> atom_at rt j = Some (p, t) \<Longrightarrow> i = j"
  by (auto simp: inj_atoms_def atom_at_array)

lemma atom_at_set_other:
  "inj_atoms rt \<Longrightarrow> atom_at rt h = Some (p, t) \<Longrightarrow>
    atom_at (set_str p s rt) i = (if i = h then Some (p, s) else atom_at rt i)"
  using inj_atomsD [of rt h p t i] atom_at_set_str [OF atom_at_get, of rt h p t s i]
  by (cases "atom_at rt i") auto

section \<open>Chains\<close>

text \<open>\<open>atom_links rt i is\<close>: the chain from \<open>i\<close> has the atoms \<open>is\<close>.\<close>

fun atom_links :: "JSAtoms \<Rightarrow> nat \<Rightarrow> nat list \<Rightarrow> bool" where
  "atom_links rt i [] \<longleftrightarrow> i = 0"
| "atom_links rt i (x # xs) \<longleftrightarrow> i = x \<and> x \<noteq> 0 \<and> (\<exists>p s. atom_at rt x = Some (p, s) \<and> atom_links rt (hash_next s) xs)"

lemma atom_links_cong: "\<forall>x \<in> set xs. atom_at rt' x = atom_at rt x \<Longrightarrow> atom_links rt' i xs = atom_links rt i xs"
  by (induction rt i xs rule: atom_links.induct) auto

lemma atom_links_set_str:
  "inj_atoms rt \<Longrightarrow> atom_at rt h = Some (p, t) \<Longrightarrow> h \<notin> set xs \<Longrightarrow> atom_links (set_str p s rt) i xs = atom_links rt i xs"
  by (rule atom_links_cong) (auto simp: atom_at_set_other)

definition string_of :: "JSAtoms \<Rightarrow> nat \<Rightarrow> JSString" where
  "string_of rt i = snd (the (atom_at rt i))"

lemma chain_find_links:
  "atom_links rt i xs \<Longrightarrow>
    chain_find P rt i = Some (case find (\<lambda>x. P (string_of rt x)) xs of None \<Rightarrow> 0 | Some x \<Rightarrow> x)"
  by (induction rt i xs rule: atom_links.induct) (auto simp: chain_find.simps [of P] string_of_def)

lemma chain_index_links:
  "atom_links rt i xs \<Longrightarrow> inj_atoms rt \<Longrightarrow> x \<in> set xs \<Longrightarrow> atom_at rt x = Some (p, s) \<Longrightarrow> chain_index p rt i = Some x"
  by (induction rt i xs rule: atom_links.induct) (auto simp: chain_index.simps [of p] dest: inj_atomsD)

section \<open>Moving the chains\<close>

lemma bucket_less: "0 < n \<Longrightarrow> bucket n h < n"
proof -
  assume n: "0 < n"
  have "unat (h AND of_nat (n - 1)) \<le> unat (of_nat (n - 1) :: u32)"
    using word_and_le1 [of h "of_nat (n - 1)"] by (simp add: word_le_nat_alt)
  also have "\<dots> \<le> n - 1"
    by (simp add: unat_of_nat)
  finally show ?thesis
    using n by (simp add: bucket_def)
qed

text \<open>\<open>chains rt H C\<close>: the table \<open>H\<close> has the chains \<open>C\<close>, every atom in the chain of its hash.\<close>

definition chains :: "JSAtoms \<Rightarrow> nat list \<Rightarrow> (nat \<Rightarrow> nat list) \<Rightarrow> bool" where
  "chains rt H C \<longleftrightarrow> (\<forall>j < length H. atom_links rt (H ! j) (C j) \<and> distinct (C j) \<and>
     (\<forall>x \<in> set (C j). bucket (length H) (str_hash (string_of rt x)) = j))"

text \<open>What changes: the links of the atoms \<open>X\<close>.\<close>

definition relinked :: "nat set \<Rightarrow> JSAtoms \<Rightarrow> JSAtoms \<Rightarrow> bool" where
  "relinked X rt rt' \<longleftrightarrow> rt' = rt\<lparr>str_heap := str_heap rt'\<rparr> \<and> length (str_heap rt') = length (str_heap rt) \<and>
     (\<forall>q. get_str rt' q = get_str rt q \<or>
        (\<exists>x s n. x \<in> X \<and> atom_at rt x = Some (q, s) \<and> get_str rt' q = Some (s\<lparr>hash_next := n\<rparr>)))"

lemma relinked_refl: "relinked X rt rt"
  by (simp add: relinked_def)

lemma relinked_array: "relinked X rt rt' \<Longrightarrow> atom_array rt' = atom_array rt \<and> atom_hash rt' = atom_hash rt"
  unfolding relinked_def by (metis JSAtoms.select_convs(2,3) JSAtoms.surjective JSAtoms.update_convs(1))

lemma relinked_inj: "relinked X rt rt' \<Longrightarrow> inj_atoms rt' = inj_atoms rt"
  by (simp add: inj_atoms_def relinked_array)

lemma relinked_at:
  assumes "relinked X rt rt'" and "atom_at rt x = Some (p, s)"
  shows "\<exists>n. atom_at rt' x = Some (p, s\<lparr>hash_next := n\<rparr>)"
proof -
  have "get_str rt p = Some s" "rd (atom_array rt') x = Some (Atom_entry p)"
    using assms relinked_array [OF assms(1)] by (simp_all add: atom_at_array)
  moreover have "get_str rt' p = get_str rt p \<or> (\<exists>s n. get_str rt p = Some s \<and> get_str rt' p = Some (s\<lparr>hash_next := n\<rparr>))"
    using assms(1) unfolding relinked_def by (meson atom_at_get)
  moreover have "s = s\<lparr>hash_next := hash_next s\<rparr>"
    by simp
  ultimately show ?thesis
    by (metis atom_at_array option.inject)
qed

lemma relinked_hash:
  "relinked X rt rt' \<Longrightarrow> atom_at rt x = Some (p, s) \<Longrightarrow> str_hash (string_of rt' x) = str_hash (string_of rt x)"
  using relinked_at [of X rt rt' x p s] by (auto simp: string_of_def)

lemma relinked_other:
  assumes "relinked X rt rt'" and "inj_atoms rt" and "x \<notin> X"
  shows "atom_at rt' x = atom_at rt x"
proof (cases "rd (atom_array rt) x")
  case None
  then show ?thesis
    using relinked_array [OF assms(1)] by (simp add: atom_at_def)
next
  case (Some e)
  show ?thesis
  proof (cases e)
    case (Atom_entry q)
    have "get_str rt' q = get_str rt q"
    proof (rule ccontr)
      assume "get_str rt' q \<noteq> get_str rt q"
      then obtain y s where "y \<in> X" "atom_at rt y = Some (q, s)"
        using assms(1) unfolding relinked_def by blast
      then have "y = x"
        using assms(2) Some Atom_entry by (auto simp: inj_atoms_def atom_at_array)
      with \<open>y \<in> X\<close> assms(3) show False
        by simp
    qed
    then show ?thesis
      using Some Atom_entry relinked_array [OF assms(1)] by (simp add: atom_at_def)
  qed (use Some relinked_array [OF assms(1)] in \<open>simp add: atom_at_def\<close>)
qed

lemma relinked_trans:
  assumes 1: "relinked X rt rt1" and 2: "relinked Y rt1 rt2"
  shows "relinked (X \<union> Y) rt rt2"
proof -
  have "rt2 = rt\<lparr>str_heap := str_heap rt2\<rparr>"
    using 1 2 unfolding relinked_def by (metis JSAtoms.surjective JSAtoms.update_convs(1))
  moreover have "length (str_heap rt2) = length (str_heap rt)"
    using 1 2 by (simp add: relinked_def)
  moreover have "get_str rt2 q = get_str rt q \<or>
      (\<exists>x s n. x \<in> X \<union> Y \<and> atom_at rt x = Some (q, s) \<and> get_str rt2 q = Some (s\<lparr>hash_next := n\<rparr>))" for q
  proof -
    consider "get_str rt1 q = get_str rt q" |
      x s n where "x \<in> X" "atom_at rt x = Some (q, s)" "get_str rt1 q = Some (s\<lparr>hash_next := n\<rparr>)"
      using 1 unfolding relinked_def by blast
    note first = this
    consider "get_str rt2 q = get_str rt1 q" |
      y t m where "y \<in> Y" "atom_at rt1 y = Some (q, t)" "get_str rt2 q = Some (t\<lparr>hash_next := m\<rparr>)"
      using 2 unfolding relinked_def by blast
    then show ?thesis
    proof cases
      case 1
      then show ?thesis
        using first by (metis UnI1)
    next
      case y: 2
      then have rt1: "get_str rt1 q = Some t" "rd (atom_array rt) y = Some (Atom_entry q)"
        using relinked_array [OF assms(1)] by (simp_all add: atom_at_array)
      show ?thesis
        using first
      proof cases
        case 1
        then have "atom_at rt y = Some (q, t)"
          using rt1 by (simp add: atom_at_array)
        then show ?thesis
          using y by blast
      next
        case (2 x s n)
        then have "t\<lparr>hash_next := m\<rparr> = s\<lparr>hash_next := m\<rparr>"
          using rt1(1) by auto
        then show ?thesis
          using 2 y(3) by (metis UnI1)
      qed
    qed
  qed
  ultimately show ?thesis
    by (simp add: relinked_def)
qed

lemma relinked_one:
  assumes "atom_at rt x = Some (p, s)"
  shows "relinked {x} rt (set_str p (s\<lparr>hash_next := n\<rparr>) rt)"
proof -
  have "set_str p (s\<lparr>hash_next := n\<rparr>) rt = rt\<lparr>str_heap := str_heap (set_str p (s\<lparr>hash_next := n\<rparr>) rt)\<rparr>"
    by (simp add: set_str_def)
  then show ?thesis
    unfolding relinked_def using assms get_set_str [OF atom_at_get [OF assms]] by auto
qed

lemma rehash_chain_chains:
  assumes "atom_links rt h xs" and "distinct xs" and "inj_atoms rt" and "0 < length N" and "chains rt N D"
    and "\<forall>j < length N. set (D j) \<inter> set xs = {}"
  shows "\<exists>rt' N' D'. rehash_chain h rt N = Some (rt', N') \<and> length N' = length N \<and> relinked (set xs) rt rt' \<and>
    chains rt' N' D' \<and>
    (\<forall>j < length N. set (D' j) = set (D j) \<union> {x \<in> set xs. bucket (length N) (str_hash (string_of rt x)) = j})"
  using assms
proof (induction xs arbitrary: h rt N D)
  case Nil
  then have "rehash_chain h rt N = Some (rt, N)"
    by (simp add: rehash_chain.simps [of 0])
  then show ?case
    using Nil relinked_refl by (intro exI [of _ rt] exI [of _ N] exI [of _ D]) simp
next
  case (Cons x xs)
  then obtain p s where x: "h = x" "x \<noteq> 0" "atom_at rt x = Some (p, s)" "atom_links rt (hash_next s) xs"
    by auto
  let ?j = "bucket (length N) (str_hash s)"
  let ?rt = "set_str p (s\<lparr>hash_next := N ! ?j\<rparr>) rt" and ?N = "N[?j := x]" and ?D = "D(?j := x # D ?j)"
  have j: "?j < length N"
    using Cons.prems(4) by (rule bucket_less)
  have one: "relinked {x} rt ?rt"
    by (rule relinked_one [OF x(3)])
  have inj: "inj_atoms ?rt"
    using Cons.prems(3) relinked_inj [OF one] by simp
  have other: "atom_at ?rt y = (if y = x then Some (p, s\<lparr>hash_next := N ! ?j\<rparr>) else atom_at rt y)" for y
    by (rule atom_at_set_other [OF Cons.prems(3) x(3)])
  then have hash: "str_hash (string_of ?rt y) = str_hash (string_of rt y)" for y
    using x(3) by (simp add: string_of_def)
  have hx: "str_hash (string_of rt x) = str_hash s"
    using x(3) by (simp add: string_of_def)
  have x_new: "x \<notin> set (D k)" if "k < length N" for k
    using Cons.prems(6) that by auto
  have ch: "chains ?rt ?N ?D"
    unfolding chains_def
  proof (intro allI impI)
    fix k assume "k < length ?N"
    then have k: "k < length N"
      by simp
    then have old: "atom_links rt (N ! k) (D k)" "distinct (D k)"
        "\<forall>y \<in> set (D k). bucket (length N) (str_hash (string_of rt y)) = k"
      using Cons.prems(5) by (simp_all add: chains_def)
    have "atom_links ?rt (N ! k) (D k)"
      using old(1) x_new [OF k] atom_links_set_str [OF Cons.prems(3) x(3)] by simp
    then show "atom_links ?rt (?N ! k) (?D k) \<and> distinct (?D k) \<and>
        (\<forall>y \<in> set (?D k). bucket (length ?N) (str_hash (string_of ?rt y)) = k)"
      using old(2,3) x_new [OF k] k j x other [of x] hx by (auto simp: hash)
  qed
  have lk: "atom_links ?rt (hash_next s) xs"
    using x(4) Cons.prems(2) atom_links_set_str [OF Cons.prems(3) x(3)] by simp
  have N: "distinct xs" "0 < length ?N" "\<forall>k < length ?N. set (?D k) \<inter> set xs = {}"
    using Cons.prems(2,4,6) by auto
  from Cons.IH [OF lk N(1) inj N(2) ch N(3), unfolded length_list_update] obtain rt' N' D' where IH: "rehash_chain (hash_next s) ?rt ?N = Some (rt', N')"
      "length N' = length N" "relinked (set xs) ?rt rt'" "chains rt' N' D'"
      "\<forall>k < length N. set (D' k) = set (?D k) \<union> {y \<in> set xs. bucket (length N) (str_hash (string_of ?rt y)) = k}"
    by blast
  have "rehash_chain h rt N = Some (rt', N')"
    using IH(1) x j by (simp add: rehash_chain.simps [of x] Let_def)
  moreover have "relinked (set (x # xs)) rt rt'"
    using relinked_trans [OF one IH(3)] by simp
  ultimately show ?case
    using IH(2,4,5) hx by (intro exI [of _ rt'] exI [of _ N'] exI [of _ D']) (auto simp: hash split: if_splits)
qed

text \<open>The whole table. \<open>C\<close> are the chains of the old one.\<close>

lemma rehash_all_chains:
  assumes "\<forall>k < length hs. atom_links rt (hs ! k) (C k) \<and> distinct (C k)"
    and "\<forall>k < length hs. \<forall>l < length hs. k \<noteq> l \<longrightarrow> set (C k) \<inter> set (C l) = {}"
    and "inj_atoms rt" and "0 < length N" and "chains rt N D"
    and "\<forall>j < length N. \<forall>k < length hs. set (D j) \<inter> set (C k) = {}"
  shows "\<exists>rt' N' D'. rehash_all hs rt N = Some (rt', N') \<and> length N' = length N \<and>
    relinked (\<Union>k < length hs. set (C k)) rt rt' \<and> chains rt' N' D' \<and>
    (\<forall>j < length N. set (D' j) = set (D j) \<union>
       {x. \<exists>k < length hs. x \<in> set (C k) \<and> bucket (length N) (str_hash (string_of rt x)) = j})"
  using assms
proof (induction hs arbitrary: rt N C D)
  case Nil
  then show ?case
    using relinked_refl by (intro exI [of _ rt] exI [of _ N] exI [of _ D]) simp
next
  case (Cons h hs)
  have h: "atom_links rt h (C 0)" "distinct (C 0)" "\<forall>j < length N. set (D j) \<inter> set (C 0) = {}"
    using Cons.prems(1,6) by force+
  obtain rt1 N1 D1 where 1: "rehash_chain h rt N = Some (rt1, N1)" "length N1 = length N"
      "relinked (set (C 0)) rt rt1" "chains rt1 N1 D1"
      "\<forall>j < length N. set (D1 j) = set (D j) \<union> {x \<in> set (C 0). bucket (length N) (str_hash (string_of rt x)) = j}"
    using rehash_chain_chains [OF h(1,2) Cons.prems(3,4,5) h(3)] by blast
  let ?C = "\<lambda>k. C (Suc k)"
  have apart: "set (C 0) \<inter> set (?C k) = {}" if "k < length hs" for k
    using Cons.prems(2) that by (metis Suc_less_eq length_Cons nat.distinct(1) zero_less_Suc)
  have same: "atom_at rt1 x = atom_at rt x" if "k < length hs" "x \<in> set (?C k)" for k x
    using relinked_other [OF 1(3) Cons.prems(3)] apart [OF that(1)] that(2) by blast
  have "atom_links rt1 (hs ! k) (?C k) \<and> distinct (?C k)" if k: "k < length hs" for k
    using Cons.prems(1) [rule_format, of "Suc k"] k atom_links_cong [of "?C k" rt1 rt] same [OF k] by auto
  moreover have "set (?C k) \<inter> set (?C l) = {}" if "k < length hs" "l < length hs" "k \<noteq> l" for k l
    using Cons.prems(2) that by (metis Suc_inject Suc_less_eq length_Cons)
  moreover have "inj_atoms rt1"
    using Cons.prems(3) relinked_inj [OF 1(3)] by simp
  moreover have "set (D1 j) \<inter> set (?C k) = {}" if "j < length N1" "k < length hs" for j k
    using Cons.prems(6) [rule_format, of j "Suc k"] that 1(2,5) apart [OF that(2)] by auto
  ultimately obtain rt2 N2 D2 where 2: "rehash_all hs rt1 N1 = Some (rt2, N2)" "length N2 = length N"
      "relinked (\<Union>k < length hs. set (?C k)) rt1 rt2" "chains rt2 N2 D2"
      "\<forall>j < length N. set (D2 j) = set (D1 j) \<union>
         {x. \<exists>k < length hs. x \<in> set (?C k) \<and> bucket (length N) (str_hash (string_of rt1 x)) = j}"
    using Cons.IH [of rt1 ?C N1 D1] Cons.prems(4) 1(2,4) by auto
  have un: "(\<Union>k < length (h # hs). set (C k)) = set (C 0) \<union> (\<Union>k < length hs. set (?C k))"
    by (simp add: lessThan_Suc_eq_insert_0 image_image)
  have "relinked (\<Union>k < length (h # hs). set (C k)) rt rt2"
    unfolding un by (rule relinked_trans [OF 1(3) 2(3)])
  moreover have "set (D2 j) = set (D j) \<union>
      {x. \<exists>k < length (h # hs). x \<in> set (C k) \<and> bucket (length N) (str_hash (string_of rt x)) = j}"
    if j: "j < length N" for j
  proof -
    have "string_of rt1 x = string_of rt x" if "k < length hs" "x \<in> set (?C k)" for k x
      using same [OF that] by (simp add: string_of_def)
    then show ?thesis
      using 1(5) 2(5) j by (auto simp: less_Suc_eq_0_disj)
  qed
  ultimately show ?case
    using 1(1) 2(1,2,4) by (intro exI [of _ rt2] exI [of _ N2] exI [of _ D2]) simp
qed

end
