(* ===== verification/AtomTable.thy ===== *)
theory AtomTable
  imports AtomChains
begin

text \<open>
  The invariant of the table of atoms and what its operations do to the set of registered strings.
\<close>

section \<open>The invariant\<close>

definition hashed :: "JSString \<Rightarrow> bool" where
  "hashed s \<longleftrightarrow> (atom_type s = JS_ATOM_TYPE_STRING \<or> atom_type s = JS_ATOM_TYPE_GLOBAL_SYMBOL) \<and>
     str_hash s = hash_string s (of_nat (atom_type s)) AND JS_ATOM_HASH_MASK"

text \<open>What an atom stands for: a string or a global symbol, with its type and its units.\<close>

definition key_at :: "JSAtoms \<Rightarrow> nat \<Rightarrow> (nat \<times> u16 list) option" where
  "key_at rt i = (case atom_at rt i of None \<Rightarrow> None
     | Some (p, s) \<Rightarrow> if hashed s then Some (atom_type s, str_units s) else None)"

text \<open>The list of free entries.\<close>

fun free_links :: "JSAtoms \<Rightarrow> nat \<Rightarrow> nat list \<Rightarrow> bool" where
  "free_links rt i [] \<longleftrightarrow> i = 0"
| "free_links rt i (x # xs) \<longleftrightarrow>
     i = x \<and> x \<noteq> 0 \<and> (\<exists>n. rd (atom_array rt) x = Some (Free_entry n) \<and> free_links rt n xs)"

lemma free_links_cong:
  "\<forall>x \<in> set xs. rd (atom_array rt') x = rd (atom_array rt) x \<Longrightarrow> free_links rt' i xs = free_links rt i xs"
  by (induction rt i xs rule: free_links.induct) auto

text \<open>With the chains \<open>C\<close> and the free entries \<open>F\<close>: the hash table has exactly the strings and
  global symbols, no two of them alike; symbols know their index; every entry is an atom at an address
  of its own or in the list of free entries; a string marked as an atom is one.\<close>

definition atom_inv :: "JSAtoms \<Rightarrow> (nat \<Rightarrow> nat list) \<Rightarrow> nat list \<Rightarrow> bool" where
  "atom_inv rt C F \<longleftrightarrow>
     inj_atoms rt \<and> chains rt (atom_hash rt) C \<and> (\<exists>k. length (atom_hash rt) = 2 ^ k) \<and>
     (\<forall>i p. rd (atom_array rt) i = Some (Atom_entry p) \<longrightarrow> get_str rt p \<noteq> None) \<and>
     (\<forall>i p s. atom_at rt i = Some (p, s) \<longrightarrow>
        (if hashed s then i \<noteq> 0 \<and> i \<in> set (C (bucket (length (atom_hash rt)) (str_hash s)))
         else atom_type s = JS_ATOM_TYPE_SYMBOL \<and> hash_next s = i)) \<and>
     (\<forall>j < length (atom_hash rt). \<forall>i \<in> set (C j). hashed (string_of rt i)) \<and>
     free_links rt (atom_free_index rt) F \<and> distinct F \<and>
     (\<forall>i n. rd (atom_array rt) i = Some (Free_entry n) \<longrightarrow> i \<in> set F) \<and>
     (\<forall>i j k. key_at rt i = Some k \<and> key_at rt j = Some k \<longrightarrow> i = j) \<and>
     (\<forall>p s. get_str rt p = Some s \<and> atom_type s \<noteq> 0 \<longrightarrow> (\<exists>i. rd (atom_array rt) i = Some (Atom_entry p)))"

definition table_ok :: "JSAtoms \<Rightarrow> bool" where
  "table_ok rt \<longleftrightarrow> (\<exists>C F. atom_inv rt C F)"

text \<open>\<open>atom_count\<close> is the number of the entries that are atoms.\<close>

fun is_atom_entry :: "atom_entry \<Rightarrow> bool" where
  "is_atom_entry (Free_entry _) = False"
| "is_atom_entry (Atom_entry _) = True"

definition count_ok :: "JSAtoms \<Rightarrow> bool" where
  "count_ok rt \<longleftrightarrow> atom_count rt = int (length (filter is_atom_entry (atom_array rt)))"

definition atoms_ok :: "JSAtoms \<Rightarrow> bool" where
  "atoms_ok rt \<longleftrightarrow> table_ok rt \<and> count_ok rt"

lemma count_ok_cong: "atom_array rt' = atom_array rt \<Longrightarrow> atom_count rt' = atom_count rt \<Longrightarrow> count_ok rt' = count_ok rt"
  by (simp add: count_ok_def)

lemma filter_update:
  "i < length xs \<Longrightarrow> int (length (filter P (xs[i := y]))) =
    int (length (filter P xs)) - (if P (xs ! i) then 1 else 0) + (if P y then 1 else 0)"
proof -
  assume i: "i < length xs"
  have split: "length (filter P (take i xs @ z # drop (Suc i) xs)) =
      length (filter P (take i xs)) + (if P z then 1 else 0) + length (filter P (drop (Suc i) xs))" for z
    by simp
  have "length (filter P xs) =
      length (filter P (take i xs)) + (if P (xs ! i) then 1 else 0) + length (filter P (drop (Suc i) xs))"
    using split [of "xs ! i"] by (simp only: id_take_nth_drop [OF i, symmetric])
  moreover have "length (filter P (xs[i := y])) =
      length (filter P (take i xs)) + (if P y then 1 else 0) + length (filter P (drop (Suc i) xs))"
    unfolding upd_conv_take_nth_drop [OF i] by (rule split)
  ultimately show ?thesis by simp
qed

lemma count_pos:
  assumes "count_ok rt" and "atom_at rt i = Some a"
  shows "0 < atom_count rt"
proof -
  obtain p where "rd (atom_array rt) i = Some (Atom_entry p)"
    using assms(2) by (cases "rd (atom_array rt) i") (auto simp: atom_at_def split: atom_entry.splits)
  then have "Atom_entry p \<in> set (atom_array rt)"
    unfolding rd_def by (metis nth_mem option.distinct(1) option.inject)
  then have "Atom_entry p \<in> set (filter is_atom_entry (atom_array rt))"
    by simp
  then show ?thesis
    using assms(1) length_pos_if_in_set unfolding count_ok_def by (metis of_nat_0_less_iff)
qed

lemma atom_invD:
  assumes "atom_inv rt C F"
  shows "inj_atoms rt" and "chains rt (atom_hash rt) C" and "0 < length (atom_hash rt)"
    and "atom_at rt i = Some (p, s) \<Longrightarrow> hashed s \<Longrightarrow>
      i \<noteq> 0 \<and> i \<in> set (C (bucket (length (atom_hash rt)) (str_hash s)))"
    and "atom_at rt i = Some (p, s) \<Longrightarrow> \<not> hashed s \<Longrightarrow> atom_type s = JS_ATOM_TYPE_SYMBOL \<and> hash_next s = i"
    and "j < length (atom_hash rt) \<Longrightarrow> i \<in> set (C j) \<Longrightarrow> hashed (string_of rt i)"
    and "key_at rt i = Some k \<Longrightarrow> key_at rt j = Some k \<Longrightarrow> i = j"
    and "get_str rt p = Some s \<Longrightarrow> atom_type s \<noteq> 0 \<Longrightarrow> \<exists>i. atom_at rt i = Some (p, s)"
    and "rd (atom_array rt) i = Some (Atom_entry p) \<Longrightarrow> \<exists>s. atom_at rt i = Some (p, s)"
proof -
  note inv = assms [unfolded atom_inv_def]
  show "inj_atoms rt" "chains rt (atom_hash rt) C"
    using inv by simp_all
  show "0 < length (atom_hash rt)"
    using inv by (metis zero_less_numeral zero_less_power)
  show "i \<noteq> 0 \<and> i \<in> set (C (bucket (length (atom_hash rt)) (str_hash s)))"
    if "atom_at rt i = Some (p, s)" "hashed s"
    using inv that by metis
  show "atom_type s = JS_ATOM_TYPE_SYMBOL \<and> hash_next s = i" if "atom_at rt i = Some (p, s)" "\<not> hashed s"
    using inv that by metis
  show "hashed (string_of rt i)" if "j < length (atom_hash rt)" "i \<in> set (C j)"
    using inv that by blast
  show "i = j" if "key_at rt i = Some k" "key_at rt j = Some k"
    using inv that by blast
  show "\<exists>i. atom_at rt i = Some (p, s)" if "get_str rt p = Some s" "atom_type s \<noteq> 0"
    using inv that by (meson atom_at_array)
  show "\<exists>s. atom_at rt i = Some (p, s)" if "rd (atom_array rt) i = Some (Atom_entry p)"
    using inv that by (metis atom_at_array not_None_eq)
qed

lemma atom_inv_free:
  assumes "atom_inv rt C F"
  shows "\<exists>k. length (atom_hash rt) = 2 ^ k" and "free_links rt (atom_free_index rt) F" and "distinct F"
    and "rd (atom_array rt) i = Some (Free_entry n) \<Longrightarrow> i \<in> set F"
  using assms unfolding atom_inv_def by blast+

lemma atom_invI:
  assumes "inj_atoms rt" and "chains rt (atom_hash rt) C" and "\<exists>k. length (atom_hash rt) = 2 ^ k"
    and "\<And>i p. rd (atom_array rt) i = Some (Atom_entry p) \<Longrightarrow> get_str rt p \<noteq> None"
    and "\<And>i p s. atom_at rt i = Some (p, s) \<Longrightarrow> hashed s \<Longrightarrow>
      i \<noteq> 0 \<and> i \<in> set (C (bucket (length (atom_hash rt)) (str_hash s)))"
    and "\<And>i p s. atom_at rt i = Some (p, s) \<Longrightarrow> \<not> hashed s \<Longrightarrow> atom_type s = JS_ATOM_TYPE_SYMBOL \<and> hash_next s = i"
    and "\<And>i j. j < length (atom_hash rt) \<Longrightarrow> i \<in> set (C j) \<Longrightarrow> hashed (string_of rt i)"
    and "free_links rt (atom_free_index rt) F" and "distinct F"
    and "\<And>i n. rd (atom_array rt) i = Some (Free_entry n) \<Longrightarrow> i \<in> set F"
    and "\<And>i j k. key_at rt i = Some k \<Longrightarrow> key_at rt j = Some k \<Longrightarrow> i = j"
    and "\<And>p s. get_str rt p = Some s \<Longrightarrow> atom_type s \<noteq> 0 \<Longrightarrow> \<exists>i. rd (atom_array rt) i = Some (Atom_entry p)"
  shows "atom_inv rt C F"
  unfolding atom_inv_def
  by (intro conjI allI impI ballI assms(1-3,8,9))
    (use assms(4-7,10-12) in \<open>blast | auto\<close>)+

lemma atom_links_at: "atom_links rt i xs \<Longrightarrow> x \<in> set xs \<Longrightarrow> x \<noteq> 0 \<and> (\<exists>p s. atom_at rt x = Some (p, s))"
  by (induction rt i xs rule: atom_links.induct) auto

section \<open>Searching\<close>

lemma js_string_memcmp_zero: "length a = length b \<Longrightarrow> js_string_memcmp a b (length b) = Some 0 \<longleftrightarrow> a = b"
  by (induction a b rule: list_induct2) (auto simp: word_uint_eq_iff)

lemma same_string_iff: "same_string h ty u s \<longleftrightarrow> str_hash s = h \<and> atom_type s = ty \<and> str_units s = u"
  using js_string_memcmp_zero [of "str_units s" u] by (auto simp: same_string_def)

text \<open>The hash of a string or symbol.\<close>

abbreviation key_hash :: "nat \<times> u16 list \<Rightarrow> u32" where
  "key_hash k \<equiv> hash_units (snd k) (of_nat (fst k)) AND JS_ATOM_HASH_MASK"

lemma key_at_hash: "key_at rt i = Some k \<Longrightarrow> str_hash (string_of rt i) = key_hash k"
  by (auto simp: key_at_def hashed_def hash_string_def string_of_def split: option.splits if_splits)

lemma find_key:
  fixes u :: "u16 list"
  assumes inv: "atom_inv rt C F" and ty: "ty = JS_ATOM_TYPE_STRING \<or> ty = JS_ATOM_TYPE_GLOBAL_SYMBOL"
  defines "h \<equiv> key_hash (ty, u)"
  shows "\<exists>i. chain_find (same_string h ty u) rt (atom_hash rt ! bucket (length (atom_hash rt)) h) = Some i \<and>
    bucket (length (atom_hash rt)) h < length (atom_hash rt) \<and>
    (if i = 0 then \<forall>j. key_at rt j \<noteq> Some (ty, u) else key_at rt i = Some (ty, u))"
proof -
  let ?n = "length (atom_hash rt)" and ?b = "bucket (length (atom_hash rt)) h"
  have b: "?b < ?n"
    using atom_invD(3) [OF inv] by (rule bucket_less)
  then have l: "atom_links rt (atom_hash rt ! ?b) (C ?b)"
    using atom_invD(2) [OF inv] by (simp add: chains_def)
  have key: "key_at rt x = Some (ty, u) \<longleftrightarrow> same_string h ty u (string_of rt x)" if member: "x \<in> set (C ?b)" for x
  proof -
    obtain p s where x: "atom_at rt x = Some (p, s)"
      using atom_links_at [OF l member] by blast
    have "hashed s"
      using atom_invD(6) [OF inv b member] x by (simp add: string_of_def)
    then show ?thesis
      using x by (auto simp: key_at_def string_of_def same_string_iff hashed_def hash_string_def h_def)
  qed
  have mem: "j \<in> set (C ?b)" if found: "key_at rt j = Some (ty, u)" for j
  proof -
    obtain p s where "atom_at rt j = Some (p, s)" "hashed s" "str_hash s = h"
      using found by (auto simp: key_at_def hashed_def hash_string_def h_def split: option.splits if_splits)
    then show ?thesis
      using atom_invD(4) [OF inv] by blast
  qed
  show ?thesis
  proof (cases "find (\<lambda>x. same_string h ty u (string_of rt x)) (C ?b)")
    case None
    then have "\<forall>j. key_at rt j \<noteq> Some (ty, u)"
      using key mem by (metis find_None_iff)
    then show ?thesis
      using chain_find_links [OF l, of "same_string h ty u"] b None by simp
  next
    case (Some x)
    then have "x \<in> set (C ?b)" "same_string h ty u (string_of rt x)"
      by (auto simp: find_Some_iff)
    then have "key_at rt x = Some (ty, u)" "x \<noteq> 0"
      using key atom_links_at [OF l] by blast+
    then show ?thesis
      using chain_find_links [OF l, of "same_string h ty u"] b Some by simp
  qed
qed

section \<open>Enlarging the hash table\<close>

lemma power_of_two_test: "int (2 ^ k) AND (int (2 ^ k) - 1) = 0"
proof -
  have "int (2 ^ k) AND mask k = take_bit k (2 ^ k)"
    by (simp add: take_bit_eq_mask)
  then show ?thesis
    by (simp add: mask_eq_exp_minus_1)
qed

lemma chains_disjoint: "chains rt H C \<Longrightarrow> k < length H \<Longrightarrow> l < length H \<Longrightarrow> k \<noteq> l \<Longrightarrow> set (C k) \<inter> set (C l) = {}"
  unfolding chains_def by (metis disjoint_iff)

lemma relinked_hashed: "hashed (s\<lparr>hash_next := n\<rparr>) = hashed s"
  by (simp add: hashed_def hash_string_def)

lemma relinked_back:
  assumes "relinked X rt rt'" and "atom_at rt' i = Some (p, t)"
  shows "\<exists>s n. atom_at rt i = Some (p, s) \<and> t = s\<lparr>hash_next := n\<rparr>"
proof -
  have i: "rd (atom_array rt) i = Some (Atom_entry p)" "get_str rt' p = Some t"
    using assms relinked_array [OF assms(1)] by (simp_all add: atom_at_array)
  consider "get_str rt' p = get_str rt p" | s n where "get_str rt p = Some s" "t = s\<lparr>hash_next := n\<rparr>"
    using assms(1) i(2) unfolding relinked_def by (metis atom_at_get option.inject)
  then show ?thesis
  proof cases
    case 1
    then show ?thesis
      using i by (intro exI [of _ t] exI [of _ "hash_next t"]) (simp add: atom_at_array)
  next
    case 2
    then show ?thesis
      using i by (auto simp: atom_at_array)
  qed
qed

lemma relinked_key:
  assumes "relinked X rt rt'"
  shows "key_at rt' i = key_at rt i"
proof (cases "atom_at rt i")
  case None
  then have "atom_at rt' i = None"
    using relinked_back [OF assms, of i] by (cases "atom_at rt' i") auto
  with None show ?thesis
    by (simp add: key_at_def)
next
  case (Some a)
  then show ?thesis
    using relinked_at [OF assms, of i] by (cases a) (auto simp: key_at_def relinked_hashed)
qed

text \<open>The fields the invariant depends on.\<close>

lemma same_heap:
  assumes "str_heap rt' = str_heap rt" and "atom_array rt' = atom_array rt"
  shows "get_str rt' = get_str rt" and "atom_at rt' = atom_at rt" and "key_at rt' = key_at rt"
    and "string_of rt' = string_of rt" and "inj_atoms rt' = inj_atoms rt"
    and "atom_links rt' i xs = atom_links rt i xs" and "free_links rt' i xs = free_links rt i xs"
    and "chains rt' H C = chains rt H C"
proof -
  show g: "get_str rt' = get_str rt"
    using assms by (intro ext) (simp add: get_str_def)
  show a: "atom_at rt' = atom_at rt"
    by (intro ext) (simp only: atom_at_def g assms(2))
  then show "key_at rt' = key_at rt" and s: "string_of rt' = string_of rt"
    by (auto simp: key_at_def string_of_def)
  show "inj_atoms rt' = inj_atoms rt"
    using assms by (simp add: inj_atoms_def)
  show l: "atom_links rt' i xs = atom_links rt i xs" for i xs
    by (rule atom_links_cong) (simp add: a)
  show "free_links rt' i xs = free_links rt i xs"
    by (rule free_links_cong) (simp add: assms)
  show "chains rt' H C = chains rt H C"
    by (simp add: chains_def l s)
qed

lemma atom_inv_cong:
  assumes "str_heap rt' = str_heap rt" "atom_array rt' = atom_array rt" "atom_hash rt' = atom_hash rt"
    "atom_free_index rt' = atom_free_index rt"
  shows "atom_inv rt' C F = atom_inv rt C F"
  unfolding atom_inv_def same_heap [OF assms(1,2)] assms ..

lemma js_malloc_rt_cases: "\<exists>r bs. js_malloc_rt rt = (r, rt\<lparr>alloc_next := bs\<rparr>)"
  by (cases "alloc_next rt") (auto simp: js_malloc_rt_def intro: exI [of _ "[]"])

lemma relinked_str:
  assumes "relinked X rt rt'" and "get_str rt' q = Some t"
  shows "\<exists>s n. get_str rt q = Some s \<and> t = s\<lparr>hash_next := n\<rparr>"
proof -
  consider "get_str rt q = Some t" | s n where "get_str rt q = Some s" "t = s\<lparr>hash_next := n\<rparr>"
    using assms unfolding relinked_def by (metis atom_at_get option.inject)
  then show ?thesis
    by cases (auto intro: exI [of _ t] exI [of _ "hash_next t"])
qed

lemma relinked_keeps:
  assumes "relinked X rt rt'" and "get_str rt q = Some u"
  shows "\<exists>n. get_str rt' q = Some (u\<lparr>hash_next := n\<rparr>)"
proof -
  consider "get_str rt' q = Some u" | s n where "get_str rt q = Some s" "get_str rt' q = Some (s\<lparr>hash_next := n\<rparr>)"
    using assms unfolding relinked_def by (metis atom_at_get)
  then show ?thesis
    using assms(2) by cases (auto intro: exI [of _ "hash_next u"])
qed

lemma relinked_fields:
  "relinked X rt rt' \<Longrightarrow> atom_count rt' = atom_count rt \<and> atom_free_index rt' = atom_free_index rt"
  unfolding relinked_def by (metis JSAtoms.select_convs(4,6) JSAtoms.surjective JSAtoms.update_convs(1))

lemma rehashed_inv:
  assumes inv: "atom_inv rt C F" and n: "0 < n" "n = 2 ^ k" and N: "length N = n"
    and re: "relinked (\<Union>k < length (atom_hash rt). set (C k)) rt rt'" and ch: "chains rt' N D"
    and sets: "\<forall>j < n. set (D j) =
       {x. \<exists>k < length (atom_hash rt). x \<in> set (C k) \<and> bucket n (str_hash (string_of rt x)) = j}"
  shows "atom_inv (rt'\<lparr>atom_hash := N, atom_count_resize := m\<rparr>) D F"
proof -
  let ?X = "\<Union>k < length (atom_hash rt). set (C k)" and ?rt = "rt'\<lparr>atom_hash := N, atom_count_resize := m\<rparr>"
  note arr = relinked_array [OF re] and D = atom_invD [OF inv]
  have free: "atom_free_index rt' = atom_free_index rt"
    using re unfolding relinked_def by (metis JSAtoms.select_convs(6) JSAtoms.surjective JSAtoms.update_convs(1))
  have same: "get_str ?rt = get_str rt'" "atom_at ?rt = atom_at rt'" "key_at ?rt = key_at rt'"
      "string_of ?rt = string_of rt'" "inj_atoms ?rt = inj_atoms rt'" "chains ?rt N D = chains rt' N D"
      "\<And>i xs. free_links ?rt i xs = free_links rt' i xs"
    by (intro same_heap; simp)+
  have inj: "inj_atoms rt'"
    using D(1) relinked_inj [OF re] by simp
  have entry: "get_str rt' p \<noteq> None" if p: "rd (atom_array rt') i = Some (Atom_entry p)" for i p
  proof -
    obtain s where "atom_at rt i = Some (p, s)"
      using p arr D(9) [of i p] by auto
    then show ?thesis
      using relinked_at [OF re] atom_at_get by fastforce
  qed
  have member: "i \<in> ?X \<and> hashed s" if "atom_at rt i = Some (p, s)" "hashed s" for i p s
    using D(4) [OF that] bucket_less [OF D(3)] that(2) by auto
  have X: "hashed s" if "i \<in> ?X" "atom_at rt i = Some (p, s)" for i p s
    using D(6) that by (force simp: string_of_def)
  have atoms: "if hashed t then i \<noteq> 0 \<and> i \<in> set (D (bucket n (str_hash t)))
       else atom_type t = JS_ATOM_TYPE_SYMBOL \<and> hash_next t = i" if i: "atom_at rt' i = Some (p, t)" for i p t
  proof -
    obtain s m where s: "atom_at rt i = Some (p, s)" "t = s\<lparr>hash_next := m\<rparr>"
      using relinked_back [OF re i] by blast
    show ?thesis
    proof (cases "hashed s")
      case True
      have "string_of rt i = s"
        using s(1) by (simp add: string_of_def)
      then have "i \<in> set (D (bucket n (str_hash s)))"
        using sets bucket_less [OF n(1), of "str_hash s"] member [OF s(1) True] by auto
      then show ?thesis
        using True s(2) D(4) [OF s(1) True] by (simp add: relinked_hashed)
    next
      case False
      then have "atom_at rt' i = atom_at rt i"
        using relinked_other [OF re D(1)] X [OF _ s(1)] by blast
      then show ?thesis
        using False i s(1) D(5) [OF s(1) False] by simp
    qed
  qed
  have hashed: "hashed (string_of rt' i)" if j: "j < n" "i \<in> set (D j)" for i j
  proof -
    have "i \<in> ?X"
      using sets j by auto
    moreover obtain p t where t: "atom_at rt' i = Some (p, t)"
      using ch N j atom_links_at unfolding chains_def by metis
    moreover obtain s m where "atom_at rt i = Some (p, s)" "t = s\<lparr>hash_next := m\<rparr>"
      using relinked_back [OF re t] by blast
    ultimately show ?thesis
      using X by (simp add: string_of_def relinked_hashed)
  qed
  have registered: "\<exists>i. rd (atom_array rt') i = Some (Atom_entry p)"
    if q: "get_str rt' p = Some t" "atom_type t \<noteq> 0" for p t
    using relinked_str [OF re q(1)] q(2) D(8) arr by (auto simp: atom_at_array)
  have "\<forall>i j k. key_at rt' i = Some k \<and> key_at rt' j = Some k \<longrightarrow> i = j"
    using D(7) by (simp add: relinked_key [OF re])
  moreover have "free_links rt' (atom_free_index rt) F \<and> distinct F \<and>
      (\<forall>i n. rd (atom_array rt) i = Some (Free_entry n) \<longrightarrow> i \<in> set F)"
    using inv free_links_cong [of F rt' rt] arr by (simp add: atom_inv_def)
  moreover have "\<exists>k. n = 2 ^ k"
    using n(2) by blast
  ultimately show ?thesis
    unfolding atom_inv_def same
    using inj ch entry atoms hashed registered N by (simp add: arr free same)
qed

lemma JS_ResizeAtomHash_ok:
  assumes inv: "atom_inv rt C F" and n: "n = 2 ^ k"
  shows "\<exists>r rt' C'. JS_ResizeAtomHash rt n = Some (r, rt') \<and> atom_inv rt' C' F \<and> key_at rt' = key_at rt \<and>
    atom_array rt' = atom_array rt \<and> atom_count rt' = atom_count rt \<and>
    (\<forall>q u. get_str rt q = Some u \<longrightarrow> (\<exists>n. get_str rt' q = Some (u\<lparr>hash_next := n\<rparr>)))"
proof -
  obtain r bs where m: "js_malloc_rt rt = (r, rt\<lparr>alloc_next := bs\<rparr>)"
    using js_malloc_rt_cases by blast
  let ?rt = "rt\<lparr>alloc_next := bs\<rparr>"
  have inv': "atom_inv ?rt C F"
    using inv atom_inv_cong [of ?rt rt] by simp
  have keys: "key_at ?rt = key_at rt"
    by (rule same_heap) simp_all
  have test: "\<not> int n AND (int n - 1) \<noteq> 0"
    using power_of_two_test [of k] n by simp
  show ?thesis
  proof (cases r)
    case False
    then have "JS_ResizeAtomHash rt n = Some (-1, ?rt)"
      using test m by (simp add: JS_ResizeAtomHash_def)
    moreover have "get_str ?rt = get_str rt"
      by (rule same_heap) simp_all
    moreover have "\<exists>n. u = u\<lparr>hash_next := n\<rparr>" for u
      by (rule exI [of _ "hash_next u"]) simp
    ultimately show ?thesis
      using inv' keys by simp blast
  next
    case True
    note D = atom_invD [OF inv']
    have pos: "0 < length (replicate n (0 :: nat))"
      using n by simp
    have new: "chains ?rt (replicate n 0) (\<lambda>_. [])"
      by (simp add: chains_def)
    have old: "\<forall>k < length (atom_hash rt). atom_links ?rt (atom_hash rt ! k) (C k) \<and> distinct (C k)"
        "\<forall>k < length (atom_hash rt). \<forall>l < length (atom_hash rt). k \<noteq> l \<longrightarrow> set (C k) \<inter> set (C l) = {}"
      using D(2) chains_disjoint [OF D(2)] by (simp_all add: chains_def)
    obtain rt' N' D' where
        re: "rehash_all (atom_hash rt) ?rt (replicate n 0) = Some (rt', N')" "length N' = length (replicate n 0 :: nat list)"
          "relinked (\<Union>k < length (atom_hash rt). set (C k)) ?rt rt'" "chains rt' N' D'"
          "\<forall>j < length (replicate n 0 :: nat list). set (D' j) = set [] \<union>
             {x. \<exists>k < length (atom_hash rt). x \<in> set (C k) \<and>
               bucket (length (replicate n 0 :: nat list)) (str_hash (string_of ?rt x)) = j}"
      using rehash_all_chains [OF old D(1) pos new] by auto
    have "JS_ResizeAtomHash rt n = Some (0, rt'\<lparr>atom_hash := N', atom_count_resize := n * 2\<rparr>)"
      using test m True re(1) by (simp add: JS_ResizeAtomHash_def)
    moreover have "atom_inv (rt'\<lparr>atom_hash := N', atom_count_resize := n * 2\<rparr>) D' F"
      using rehashed_inv [OF inv' _ n _ _ re(4)] re(2,3,5) n by simp
    moreover have "key_at (rt'\<lparr>atom_hash := N', atom_count_resize := n * 2\<rparr>) = key_at rt'"
      by (rule same_heap) simp_all
    moreover have "key_at rt' = key_at rt"
      using relinked_key [OF re(3)] keys by auto
    moreover have "\<exists>n. get_str (rt'\<lparr>atom_hash := N', atom_count_resize := m\<rparr>) q = Some (u\<lparr>hash_next := n\<rparr>)"
      if "get_str rt q = Some u" for q u m
      using relinked_keeps [OF re(3), of q u] that by (simp add: get_str_def)
    ultimately show ?thesis
      using relinked_array [OF re(3)] relinked_fields [OF re(3)]
      by (intro exI [of _ 0] exI [of _ "rt'\<lparr>atom_hash := N', atom_count_resize := n * 2\<rparr>"] exI [of _ D']) simp
  qed
qed

section \<open>Changes outside the table\<close>

lemma atom_inv_heap:
  assumes inv: "atom_inv rt C F" and same: "atom_array rt' = atom_array rt" "atom_hash rt' = atom_hash rt"
      "atom_free_index rt' = atom_free_index rt" "atom_at rt' = atom_at rt"
    and reg: "\<And>q t. get_str rt' q = Some t \<Longrightarrow> atom_type t \<noteq> 0 \<Longrightarrow> \<exists>i. rd (atom_array rt) i = Some (Atom_entry q)"
  shows "atom_inv rt' C F" and "key_at rt' = key_at rt"
proof -
  show k: "key_at rt' = key_at rt"
    using same(4) by (auto simp: key_at_def)
  have s: "string_of rt' = string_of rt"
    using same(4) by (auto simp: string_of_def)
  have l: "atom_links rt' i xs = atom_links rt i xs" for i xs
    by (rule atom_links_cong) (simp add: same)
  have f: "free_links rt' i xs = free_links rt i xs" for i xs
    by (rule free_links_cong) (simp add: same)
  note D = atom_invD [OF inv] and free = atom_inv_free [OF inv]
  show "atom_inv rt' C F"
  proof (rule atom_invI)
    show "get_str rt' p \<noteq> None" if "rd (atom_array rt') i = Some (Atom_entry p)" for i p
      using D(9) [of i p] that same(1,4) atom_at_get by (metis option.distinct(1))
    show "inj_atoms rt'" "chains rt' (atom_hash rt') C"
      using D(1,2) by (simp_all add: inj_atoms_def chains_def same s l)
    show "i \<noteq> 0 \<and> i \<in> set (C (bucket (length (atom_hash rt')) (str_hash s)))"
      if "atom_at rt' i = Some (p, s)" "hashed s" for i p s
      using D(4) that same by simp
    show "atom_type s = JS_ATOM_TYPE_SYMBOL \<and> hash_next s = i" if "atom_at rt' i = Some (p, s)" "\<not> hashed s" for i p s
      using D(5) that same by simp
    show "hashed (string_of rt' i)" if "j < length (atom_hash rt')" "i \<in> set (C j)" for i j
      using D(6) that same s by simp
    show "i = j" if "key_at rt' i = Some k" "key_at rt' j = Some k" for i j k
      using D(7) that \<open>key_at rt' = key_at rt\<close> by metis
  qed (use free f reg in \<open>simp_all add: same\<close>)
qed

text \<open>A string that is no atom is not in the table.\<close>

lemma plain_not_registered:
  "atom_inv rt C F \<Longrightarrow> get_str rt p = Some s \<Longrightarrow> atom_type s = 0 \<Longrightarrow> rd (atom_array rt) i \<noteq> Some (Atom_entry p)"
  using atom_invD(9) [of rt C F i p] atom_invD(5) [of rt C F i p s]
  by (auto simp: atom_at_array hashed_def)

lemma plain_str_inv:
  assumes inv: "atom_inv rt C F" and p: "get_str rt p = Some s" "atom_type s = 0"
  shows "atom_type s' = 0 \<Longrightarrow> atom_inv (set_str p s' rt) C F \<and> key_at (set_str p s' rt) = key_at rt"
    and "atom_inv (js_free_rt p rt) C F \<and> key_at (js_free_rt p rt) = key_at rt"
proof -
  note out = plain_not_registered [OF inv p]
  have reg: "\<exists>i. rd (atom_array rt) i = Some (Atom_entry q)" if "get_str rt q = Some t" "atom_type t \<noteq> 0" for q t
    using atom_invD(8) [OF inv that] by (auto simp: atom_at_array)
  have free: "get_str (js_free_rt p rt) q = (if q = p then None else get_str rt q)" for q
    using p(1) by (auto simp: get_str_def js_free_rt_def rd_def nth_list_update split: if_splits)
  have "atom_at (js_free_rt p rt) i = atom_at rt i" "atom_at (set_str p s' rt) i = atom_at rt i" for i
    using out [of i] free by (auto simp: atom_at_def get_set_str [OF p(1)] js_free_rt_def
        split: atom_entry.splits Option.bind_splits)
  then have at: "atom_at (js_free_rt p rt) = atom_at rt" "atom_at (set_str p s' rt) = atom_at rt"
    by blast+
  show "atom_inv (set_str p s' rt) C F \<and> key_at (set_str p s' rt) = key_at rt" if s': "atom_type s' = 0"
  proof -
    have "\<exists>i. rd (atom_array rt) i = Some (Atom_entry q)" if "get_str (set_str p s' rt) q = Some t" "atom_type t \<noteq> 0" for q t
      using that s' reg by (auto simp: get_set_str [OF p(1)] split: if_splits)
    then show ?thesis
      using atom_inv_heap [OF inv _ _ _ at(2)] by simp
  qed
  have "\<exists>i. rd (atom_array rt) i = Some (Atom_entry q)" if "get_str (js_free_rt p rt) q = Some t" "atom_type t \<noteq> 0" for q t
    using that reg by (auto simp: free split: if_splits)
  then show "atom_inv (js_free_rt p rt) C F \<and> key_at (js_free_rt p rt) = key_at rt"
    using atom_inv_heap [OF inv _ _ _ at(1)] by (simp add: js_free_rt_def)
qed

text \<open>A reference count of an atom.\<close>

lemma count_inv:
  assumes inv: "atom_inv rt C F" and x: "atom_at rt x = Some (p, s)" and s': "s' = s\<lparr>str_ref_count := m\<rparr>"
  shows "atom_inv (set_str p s' rt) C F" and "key_at (set_str p s' rt) = key_at rt"
proof -
  let ?rt = "set_str p s' rt"
  note D = atom_invD [OF inv] and get = get_set_str [OF atom_at_get [OF x]]
  have at: "atom_at ?rt i = (if i = x then Some (p, s') else atom_at rt i)" for i
    by (rule atom_at_set_other [OF D(1) x])
  have h: "hashed s' = hashed s" "atom_type s' = atom_type s" "str_hash s' = str_hash s"
      "hash_next s' = hash_next s" "str_units s' = str_units s"
    by (simp_all add: s' hashed_def hash_string_def)
  show k: "key_at ?rt = key_at rt"
    using x h by (auto simp: key_at_def at)
  have st: "str_hash (string_of ?rt i) = str_hash (string_of rt i)" "hashed (string_of ?rt i) = hashed (string_of rt i)" for i
    using x h by (auto simp: string_of_def at)
  have l: "atom_links ?rt i xs = atom_links rt i xs" for i xs
    by (induction xs arbitrary: i) (use x h in \<open>auto simp: at\<close>)
  have f: "free_links ?rt i xs = free_links rt i xs" for i xs
    by (rule free_links_cong) simp
  note free = atom_inv_free [OF inv]
  show "atom_inv ?rt C F"
  proof (rule atom_invI)
    show "get_str ?rt q \<noteq> None" if "rd (atom_array ?rt) i = Some (Atom_entry q)" for i q
      using D(9) [of i q] that by (auto simp: get atom_at_array)
    show "inj_atoms ?rt" "chains ?rt (atom_hash ?rt) C"
      using D(1,2) by (simp_all add: inj_atoms_def chains_def st l)
    show "i \<noteq> 0 \<and> i \<in> set (C (bucket (length (atom_hash ?rt)) (str_hash t)))"
      if "atom_at ?rt i = Some (q, t)" "hashed t" for i q t
      using D(4) that x h by (auto simp: at split: if_splits)
    show "atom_type t = JS_ATOM_TYPE_SYMBOL \<and> hash_next t = i" if "atom_at ?rt i = Some (q, t)" "\<not> hashed t" for i q t
      using D(5) that x h by (auto simp: at split: if_splits)
    show "hashed (string_of ?rt i)" if "j < length (atom_hash ?rt)" "i \<in> set (C j)" for i j
      using D(6) that by (simp add: st)
    show "\<exists>i. rd (atom_array ?rt) i = Some (Atom_entry q)" if "get_str ?rt q = Some t" "atom_type t \<noteq> 0" for q t
      using that D(8) x h by (auto simp: get atom_at_array split: if_splits)
    show "i = j" if "key_at ?rt i = Some k'" "key_at ?rt j = Some k'" for i j k'
      using D(7) that k by metis
  qed (use free f in simp_all)
qed

section \<open>A new atom\<close>

lemma insert_atom_inv:
  assumes inv: "atom_inv rt C (x # F)" and p: "get_str rt p = Some s" "atom_type s = 0"
    and ty: "ty = JS_ATOM_TYPE_STRING \<or> ty = JS_ATOM_TYPE_GLOBAL_SYMBOL"
    and h: "h = key_hash (ty, str_units s)" "h1 = bucket (length (atom_hash rt)) h"
    and new: "\<forall>j. key_at rt j \<noteq> Some (ty, str_units s)"
    and s1: "s1 = s\<lparr>str_hash := h, hash_next := atom_hash rt ! h1, atom_type := ty\<rparr>"
    and n: "rd (atom_array rt) x = Some (Free_entry n)" "free_links rt n F"
    and arr: "atom_array rt1 = (atom_array rt)[x := Atom_entry p]" and hash: "atom_hash rt1 = (atom_hash rt)[h1 := x]"
    and free1: "atom_free_index rt1 = n" and get: "\<And>q. get_str rt1 q = (if q = p then Some s1 else get_str rt q)"
  shows "atom_inv rt1 (C(h1 := x # C h1)) F \<and> key_at rt1 = (key_at rt)(x \<mapsto> (ty, str_units s))"
proof -
  note D = atom_invD [OF inv] and free = atom_inv_free [OF inv] and out = plain_not_registered [OF inv p]
  have x: "x \<noteq> 0" "x \<notin> set F" "x < length (atom_array rt)"
    using free(2,3) n(1) by (auto simp: rd_def split: if_splits)
  have entry: "rd (atom_array rt1) i = (if i = x then Some (Atom_entry p) else rd (atom_array rt) i)" for i
    using x(3) by (auto simp: arr rd_def nth_list_update)
  have at: "atom_at rt1 i = (if i = x then Some (p, s1) else atom_at rt i)" for i
    using out [of i] by (auto simp: atom_at_def entry get split: atom_entry.splits Option.bind_splits)
  have none: "atom_at rt x = None"
    using n(1) by (simp add: atom_at_def)
  have h1: "h1 < length (atom_hash rt)"
    unfolding h(2) by (rule bucket_less [OF D(3)])
  have s1_hashed: "hashed s1"
    using ty by (auto simp: s1 hashed_def hash_string_def h(1))
  have s1_fields: "str_hash s1 = h" "hash_next s1 = atom_hash rt ! h1" "atom_type s1 = ty" "str_units s1 = str_units s"
    by (simp_all add: s1)
  have old: "atom_links rt (atom_hash rt ! j) (C j)" "distinct (C j)" "x \<notin> set (C j)"
      "\<And>i. i \<in> set (C j) \<Longrightarrow> bucket (length (atom_hash rt)) (str_hash (string_of rt i)) = j"
    if "j < length (atom_hash rt)" for j
    using D(2) that none atom_links_at [of rt "atom_hash rt ! j" "C j" x] by (auto simp: chains_def)
  have st: "string_of rt1 i = (if i = x then s1 else string_of rt i)" for i
    by (simp add: string_of_def at)
  have l: "atom_links rt1 (atom_hash rt ! j) (C j)" if "j < length (atom_hash rt)" for j
    using old [OF that] atom_links_cong [of "C j" rt1 rt] by (auto simp: at)
  have keys: "key_at rt1 i = (if i = x then Some (ty, str_units s) else key_at rt i)" for i
    using s1_hashed s1_fields by (auto simp: key_at_def at)
  have "atom_inv rt1 (C(h1 := x # C h1)) F"
  proof (rule atom_invI)
    show "inj_atoms rt1"
      using D(1) out unfolding inj_atoms_def entry by (metis atom_entry.inject(2) option.inject)
    show "chains rt1 (atom_hash rt1) (C(h1 := x # C h1))"
      using old h1 l x(1) s1_fields h(2) by (auto simp: chains_def hash nth_list_update at st)
    show "\<exists>k. length (atom_hash rt1) = 2 ^ k"
      using free(1) by (simp add: hash)
    show "get_str rt1 q \<noteq> None" if "rd (atom_array rt1) i = Some (Atom_entry q)" for i q
      using that D(9) [of i q] by (auto simp: entry get atom_at_array split: if_splits)
    show "i \<noteq> 0 \<and> i \<in> set ((C(h1 := x # C h1)) (bucket (length (atom_hash rt1)) (str_hash t)))"
      if "atom_at rt1 i = Some (q, t)" "hashed t" for i q t
      using that D(4) [of i q t] x(1) s1_fields h(2) by (auto simp: at hash split: if_splits)
    show "atom_type t = JS_ATOM_TYPE_SYMBOL \<and> hash_next t = i" if "atom_at rt1 i = Some (q, t)" "\<not> hashed t" for i q t
      using that D(5) [of i q t] s1_hashed by (auto simp: at split: if_splits)
    show "hashed (string_of rt1 i)" if "j < length (atom_hash rt1)" "i \<in> set ((C(h1 := x # C h1)) j)" for i j
      using that D(6) [of j i] s1_hashed by (auto simp: st hash split: if_splits)
    show "free_links rt1 (atom_free_index rt1) F"
      using n(2) x(2) free_links_cong [of F rt1 rt] by (auto simp: free1 entry)
    show "distinct F"
      using free(3) by simp
    show "i \<in> set F" if "rd (atom_array rt1) i = Some (Free_entry m)" for i m
      using that free(4) [of i m] by (auto simp: entry split: if_splits)
    show "i = j" if "key_at rt1 i = Some k" "key_at rt1 j = Some k" for i j k
      using that D(7) new by (auto simp: keys split: if_splits)
    show "\<exists>i. rd (atom_array rt1) i = Some (Atom_entry q)" if reg: "get_str rt1 q = Some t" "atom_type t \<noteq> 0" for q t
    proof (cases "q = p")
      case False
      then obtain i where "rd (atom_array rt) i = Some (Atom_entry q)"
        using reg D(8) [of q t] by (auto simp: get atom_at_array)
      then show ?thesis
        using n(1) entry by (metis atom_entry.distinct(1) option.inject)
    qed (auto simp: entry)
  qed
  then show ?thesis
    using keys by auto
qed

lemma insert_atom_ok:
  assumes inv: "atom_inv rt C (x # F)" and p: "get_str rt p = Some s" "atom_type s = 0"
    and ty: "ty = JS_ATOM_TYPE_STRING \<or> ty = JS_ATOM_TYPE_GLOBAL_SYMBOL"
    and h: "h = key_hash (ty, str_units s)" "h1 = bucket (length (atom_hash rt)) h"
    and new: "\<forall>j. key_at rt j \<noteq> Some (ty, str_units s)"
  shows "\<exists>rt'. insert_atom rt p h h1 ty = Some (x, rt') \<and> table_ok rt' \<and>
    key_at rt' = (key_at rt)(x \<mapsto> (ty, str_units s)) \<and> (count_ok rt \<longrightarrow> count_ok rt') \<and>
    (\<exists>t. atom_at rt' x = Some (p, t) \<and> str_ref_count t = str_ref_count s)"
proof -
  obtain n where n: "atom_free_index rt = x" "rd (atom_array rt) x = Some (Free_entry n)" "free_links rt n F"
    using atom_inv_free(2) [OF inv] by auto
  have h1: "h1 < length (atom_hash rt)"
    unfolding h(2) by (rule bucket_less [OF atom_invD(3) [OF inv]])
  let ?s = "s\<lparr>str_hash := h, hash_next := atom_hash rt ! h1, atom_type := ty\<rparr>"
  let ?base = "rt\<lparr>atom_free_index := n, atom_array := (atom_array rt)[x := Atom_entry p],
    atom_count := atom_count rt + 1, atom_hash := (atom_hash rt)[h1 := x]\<rparr>"
  let ?rt = "set_str p ?s ?base"
  have "get_str ?base = get_str rt"
    by (rule ext) (simp add: get_str_def)
  then have get: "get_str ?rt q = (if q = p then Some ?s else get_str rt q)" for q
    using get_set_str [of ?base p s ?s q] p(1) by simp
  have ins: "atom_inv ?rt (C(h1 := x # C h1)) F \<and> key_at ?rt = (key_at rt)(x \<mapsto> (ty, str_units s))"
    by (rule insert_atom_inv [OF inv p ty h new refl n(2,3) _ _ _ get]) simp_all
  have run: "insert_atom rt p h h1 ty =
      (if atom_count rt + 1 \<ge> int (atom_count_resize rt)
       then do { (r, rt) \<leftarrow> JS_ResizeAtomHash ?rt (length (atom_hash rt) * 2); Some (x, rt) }
       else Some (x, ?rt))"
    using n(1,2) p(1) h1 ty by (auto simp: insert_atom_def Let_def)
  obtain k where "length (atom_hash rt) * 2 = 2 ^ k"
    using atom_inv_free(1) [OF inv] by (metis power_Suc2)
  then obtain r rt' C' where rs: "JS_ResizeAtomHash ?rt (length (atom_hash rt) * 2) = Some (r, rt')" "atom_inv rt' C' F"
      "key_at rt' = key_at ?rt" "atom_array rt' = atom_array ?rt" "atom_count rt' = atom_count ?rt"
      "\<forall>q u. get_str ?rt q = Some u \<longrightarrow> (\<exists>n. get_str rt' q = Some (u\<lparr>hash_next := n\<rparr>))"
    using JS_ResizeAtomHash_ok [OF conjunct1 [OF ins]] by blast
  have x: "x < length (atom_array rt)" "atom_array rt ! x = Free_entry n"
    using n(2) by (auto simp: rd_def split: if_splits)
  have arr: "atom_array ?rt = (atom_array rt)[x := Atom_entry p]" "atom_count ?rt = atom_count rt + 1"
    by (simp_all add: set_str_def)
  have count: "count_ok rt \<longrightarrow> count_ok ?rt"
    unfolding count_ok_def arr filter_update [OF x(1)] x(2) by simp
  then have count': "count_ok rt \<longrightarrow> count_ok rt'"
    using count_ok_cong [OF rs(4,5)] by blast
  have entry: "rd (atom_array ?rt) x = Some (Atom_entry p)"
    unfolding arr using x(1) by simp
  have entry': "rd (atom_array rt') x = Some (Atom_entry p)"
    using entry unfolding rs(4) .
  have gp: "get_str ?rt p = Some ?s"
    using get [of p] by simp
  obtain m where "get_str rt' p = Some (?s\<lparr>hash_next := m\<rparr>)"
    using rs(6) gp by blast
  then have "atom_at ?rt x = Some (p, ?s)" "atom_at rt' x = Some (p, ?s\<lparr>hash_next := m\<rparr>)"
    using entry entry' gp by (simp_all only: atom_at_array)
  then have "\<exists>t. atom_at ?rt x = Some (p, t) \<and> str_ref_count t = str_ref_count s"
    "\<exists>t. atom_at rt' x = Some (p, t) \<and> str_ref_count t = str_ref_count s"
    by auto
  then show ?thesis
    using run ins rs(1-3) count count' by (auto simp: table_ok_def)
qed

section \<open>More entries\<close>

lemma free_links_upt:
  "(\<And>i. start \<le> i \<Longrightarrow> i < n \<Longrightarrow> rd (atom_array rt) i = Some (Free_entry (if i = n - 1 then 0 else i + 1))) \<Longrightarrow>
    0 < start \<Longrightarrow> start < n \<Longrightarrow> free_links rt start [start..<n]"
proof (induction "n - start" arbitrary: start)
  case (Suc m)
  have e: "rd (atom_array rt) start = Some (Free_entry (if start = n - 1 then 0 else start + 1))"
    using Suc.prems by simp
  show ?case
  proof (cases "start = n - 1")
    case True
    then have "[start..<n] = [start]"
      using Suc.prems(3) by (simp add: upt_conv_Cons)
    then show ?thesis
      using e True Suc.prems(2) by simp
  next
    case False
    then have "free_links rt (start + 1) [start + 1..<n]"
      using Suc.hyps(1) [of "start + 1"] Suc.hyps(2) Suc.prems by simp
    then show ?thesis
      using e False Suc.prems by (simp add: upt_conv_Cons)
  qed
qed simp

lemma grown_inv:
  assumes inv: "atom_inv rt C []" and a: "atom_array rt \<noteq> []" "length (atom_array rt) < n"
    and rt': "str_heap rt' = str_heap rt" "atom_hash rt' = atom_hash rt"
      "atom_array rt' = atom_array rt @ free_entries (length (atom_array rt)) n"
      "atom_free_index rt' = length (atom_array rt)"
  shows "atom_inv rt' C [length (atom_array rt)..<n] \<and> key_at rt' = key_at rt"
proof -
  let ?l = "length (atom_array rt)"
  note D = atom_invD [OF inv] and free = atom_inv_free [OF inv]
  have entry: "rd (atom_array rt') i = (if i < ?l then rd (atom_array rt) i
      else if i < n then Some (Free_entry (if i = n - 1 then 0 else i + 1)) else None)" for i
    using a(2) by (auto simp: rt' rd_def free_entries_def nth_append)
  have get: "get_str rt' = get_str rt"
    by (rule ext) (simp add: get_str_def rt')
  have "atom_at rt' i = atom_at rt i" for i
    unfolding atom_at_def entry get by (cases "i < ?l"; cases "i < n") (simp_all add: rd_def)
  then have at: "atom_at rt' = atom_at rt"
    by blast
  have key: "key_at rt' = key_at rt" and st: "string_of rt' = string_of rt"
    by (auto simp: key_at_def string_of_def at)
  have l: "atom_links rt' i xs = atom_links rt i xs" for i xs
    by (rule atom_links_cong) (simp add: at)
  have "atom_inv rt' C [?l..<n]"
  proof (rule atom_invI)
    show "free_links rt' (atom_free_index rt') [?l..<n]"
      unfolding rt' using a by (intro free_links_upt) (simp_all add: entry)
    show "i \<in> set [?l..<n]" if "rd (atom_array rt') i = Some (Free_entry m)" for i m
      using that free(4) [of i m] by (auto simp: entry split: if_splits)
    show "inj_atoms rt'"
      using D(1) by (auto simp: inj_atoms_def entry split: if_splits)
    show "chains rt' (atom_hash rt') C"
      using D(2) by (simp add: chains_def rt' l st)
    show "get_str rt' q \<noteq> None" if "rd (atom_array rt') i = Some (Atom_entry q)" for i q
      using that D(9) [of i q] by (auto simp: entry get atom_at_array split: if_splits)
    show "\<exists>i. rd (atom_array rt') i = Some (Atom_entry q)" if reg: "get_str rt' q = Some t" "atom_type t \<noteq> 0" for q t
    proof -
      obtain i where "rd (atom_array rt) i = Some (Atom_entry q)"
        using reg D(8) [of q t] by (auto simp: get atom_at_array)
      moreover from this have "i < ?l"
        by (simp add: rd_def split: if_splits)
      ultimately show ?thesis
        using entry [of i] by auto
    qed
    show "i = j" if "key_at rt' i = Some k" "key_at rt' j = Some k" for i j k
      using D(7) that key by metis
  qed (use D(4-6) free st in \<open>simp_all add: rt' at\<close>)
  then show ?thesis
    using key by blast
qed

lemma null_atom_inv:
  assumes inv: "atom_inv rt C []" and a: "atom_array rt = []"
    and rt': "str_heap rt' = str_heap rt @ [Some null_atom]" "atom_hash rt' = atom_hash rt"
      "atom_array rt' = [Atom_entry (length (str_heap rt))]" "atom_free_index rt' = atom_free_index rt"
  shows "atom_inv rt' C [] \<and> key_at rt' = key_at rt"
proof -
  note D = atom_invD [OF inv] and free = atom_inv_free [OF inv]
  have old: "atom_at rt i = None" for i
    by (simp add: atom_at_def a)
  have entry: "rd (atom_array rt') i = (if i = 0 then Some (Atom_entry (length (str_heap rt))) else None)" for i
    by (auto simp: rt' rd_def)
  have get: "get_str rt' q = (if q = length (str_heap rt) then Some null_atom else get_str rt q)" for q
    by (auto simp: get_str_def rt' rd_def nth_append)
  have at: "atom_at rt' i = (if i = 0 then Some (length (str_heap rt), null_atom) else None)" for i
    by (simp add: atom_at_def entry get)
  have null: "\<not> hashed null_atom" "atom_type null_atom = 3" "hash_next null_atom = 0"
    by (simp_all add: hashed_def null_atom_def)
  have key: "key_at rt' = key_at rt"
    using old null by (auto simp: key_at_def at)
  have nil: "C j = []" if "j < length (atom_hash rt)" for j
    using D(2) old atom_links_at [of rt "atom_hash rt ! j" "C j"] that by (cases "C j") (auto simp: chains_def)
  have "atom_inv rt' C []"
  proof (rule atom_invI)
    show "chains rt' (atom_hash rt') C"
      using D(2) nil by (simp add: chains_def rt')
    show "\<exists>i. rd (atom_array rt') i = Some (Atom_entry q)" if "get_str rt' q = Some t" "atom_type t \<noteq> 0" for q t
      using that D(8) [of q t] old by (auto simp: get entry split: if_splits)
    show "free_links rt' (atom_free_index rt') []"
      using free(2) by (simp add: rt')
    show "i = j" if "key_at rt' i = Some k" "key_at rt' j = Some k" for i j k
      using D(7) that key by metis
  qed (use free null nil in \<open>auto simp: rt'(2,4) at get entry inj_atoms_def split: if_splits\<close>)
  then show ?thesis
    using key by blast
qed

text \<open>When \<open>grow_atoms\<close> fails: the array would be too large, or one of its allocations fails (there is
  a second one, for the string of the atom 0, when the array is empty).\<close>

definition grow_fails :: "JSAtoms \<Rightarrow> bool" where
  "grow_fails rt \<longleftrightarrow> max 211 (length (atom_array rt) * 3 div 2) > JS_ATOM_MAX \<or>
     False \<in> set (take (if atom_array rt = [] then 2 else 1) (alloc_next rt))"

lemma js_malloc_rt_eq:
  "js_malloc_rt rt = (False \<notin> set (take 1 (alloc_next rt)), rt\<lparr>alloc_next := tl (alloc_next rt)\<rparr>)"
  by (cases "alloc_next rt") (auto simp: js_malloc_rt_def)

lemma take_two: "False \<in> set (take 2 bs) \<longleftrightarrow> False \<in> set (take 1 bs) \<or> False \<in> set (take 1 (tl bs))"
  by (cases bs; cases "tl bs") (auto simp: numeral_2_eq_2)

lemma no_atom_entries: "filter is_atom_entry (free_entries start n) = []"
  by (auto simp: free_entries_def filter_empty_conv)

lemma grow_atoms_fails: "grow_atoms rt = Some (r, rt') \<Longrightarrow> r \<longleftrightarrow> \<not> grow_fails rt"
  using js_malloc_rt_eq [of rt] js_malloc_rt_eq [of "rt\<lparr>alloc_next := tl (alloc_next rt)\<rparr>"]
  by (auto simp: grow_atoms_def grow_fails_def Let_def take_two simp del: take_Suc_Cons
      split: if_splits prod.splits)

lemma grow_atoms_count: "grow_atoms rt = Some (r, rt') \<Longrightarrow> count_ok rt \<Longrightarrow> count_ok rt'"
  using js_malloc_rt_eq [of rt] js_malloc_rt_eq [of "rt\<lparr>alloc_next := tl (alloc_next rt)\<rparr>"]
  by (auto simp: grow_atoms_def count_ok_def Let_def no_atom_entries new_str_def
      split: if_splits prod.splits)

lemma grow_atoms_array:
  "grow_atoms rt = Some (r, rt') \<Longrightarrow> rd (atom_array rt) i = Some (Atom_entry q) \<Longrightarrow>
    rd (atom_array rt') i = Some (Atom_entry q)"
  using js_malloc_rt_eq [of rt] js_malloc_rt_eq [of "rt\<lparr>alloc_next := tl (alloc_next rt)\<rparr>"]
  by (auto simp: grow_atoms_def Let_def new_str_def rd_append rd_def nth_append split: if_splits prod.splits)

lemma grow_atoms_ok:
  assumes inv: "atom_inv rt C F" and free: "atom_free_index rt = 0" and small: "length (atom_array rt) * 3 < 2 ^ 31"
  shows "\<exists>r rt' F'. grow_atoms rt = Some (r, rt') \<and> atom_inv rt' C F' \<and> key_at rt' = key_at rt \<and>
    (r \<longrightarrow> F' \<noteq> []) \<and> atom_hash rt' = atom_hash rt \<and> (\<forall>q s. get_str rt q = Some s \<longrightarrow> get_str rt' q = Some s)"
proof -
  have F: "F = []"
    using atom_inv_free(2) [OF inv] free by (cases F) auto
  let ?n = "max 211 (length (atom_array rt) * 3 div 2)"
  obtain r bs where m: "js_malloc_rt rt = (r, rt\<lparr>alloc_next := bs\<rparr>)"
    using js_malloc_rt_cases by blast
  let ?rt = "rt\<lparr>alloc_next := bs\<rparr>"
  have inv1: "atom_inv ?rt C []"
    using inv F atom_inv_cong [of ?rt rt] by simp
  have key1: "key_at ?rt = key_at rt" and get1: "get_str ?rt = get_str rt"
    by (rule same_heap; simp)+
  consider "?n > JS_ATOM_MAX" | "?n \<le> JS_ATOM_MAX" "\<not> r" | "?n \<le> JS_ATOM_MAX" "r" "atom_array rt \<noteq> []"
    | "?n \<le> JS_ATOM_MAX" "r" "atom_array rt = []"
    by linarith
  then show ?thesis
  proof cases
    case 1
    then have "grow_atoms rt = Some (False, rt)"
      using small by (simp add: grow_atoms_def Let_def)
    then show ?thesis
      using inv by auto
  next
    case 2
    then have "grow_atoms rt = Some (False, ?rt)"
      using small m by (auto simp: grow_atoms_def Let_def)
    then show ?thesis
      using inv1 key1 get1 by auto
  next
    case 3
    let ?new = "?rt\<lparr>atom_free_index := length (atom_array rt),
      atom_array := atom_array rt @ free_entries (length (atom_array rt)) ?n\<rparr>"
    have len: "length (atom_array rt) < ?n"
      using 3(3) by (cases "atom_array rt") auto
    have "grow_atoms rt = Some (True, ?new)"
      using small m 3 by (auto simp: grow_atoms_def Let_def)
    moreover have "atom_inv ?new C [length (atom_array rt)..<?n] \<and> key_at ?new = key_at ?rt"
      using grown_inv [OF inv1, of ?n ?new] 3(3) len by simp
    moreover have "get_str ?new = get_str rt"
      by (rule ext) (simp add: get_str_def)
    moreover have "[length (atom_array rt)..<?n] \<noteq> []"
      unfolding upt_eq_Nil_conv using len by linarith
    ultimately show ?thesis
      using key1 by (intro exI [of _ True] exI [of _ ?new] exI [of _ "[length (atom_array rt)..<?n]"])
        (simp del: upt_eq_Nil_conv)
  next
    case 4
    obtain r' bs' where m': "js_malloc_rt ?rt = (r', ?rt\<lparr>alloc_next := bs'\<rparr>)"
      using js_malloc_rt_cases by blast
    let ?rt2 = "rt\<lparr>alloc_next := bs'\<rparr>"
    have inv2: "atom_inv ?rt2 C []"
      using inv F atom_inv_cong [of ?rt2 rt] by simp
    have key2: "key_at ?rt2 = key_at rt" and get2: "get_str ?rt2 = get_str rt"
      by (rule same_heap; simp)+
    show ?thesis
    proof (cases r')
      case False
      then have "grow_atoms rt = Some (False, ?rt2)"
        using small m m' 4 by (auto simp: grow_atoms_def Let_def)
      then show ?thesis
        using inv2 key2 get2 by auto
    next
      case True
      let ?p = "length (str_heap rt)"
      let ?null = "?rt2\<lparr>str_heap := str_heap rt @ [Some null_atom], atom_array := [Atom_entry ?p]\<rparr>"
      let ?new = "?rt2\<lparr>str_heap := str_heap rt @ [Some null_atom], atom_count := atom_count rt + 1,
        atom_free_index := 1, atom_array := Atom_entry ?p # free_entries 1 ?n\<rparr>"
      have "grow_atoms rt = Some (True, ?new)"
        using small m m' 4 True by (auto simp: grow_atoms_def Let_def new_str_def)
      moreover have null: "atom_inv ?null C [] \<and> key_at ?null = key_at ?rt2"
        using null_atom_inv [OF inv2, of ?null] 4(3) by simp
      moreover have "atom_inv ?new C [1..<?n] \<and> key_at ?new = key_at ?null"
        using grown_inv [OF conjunct1 [OF null], of ?n ?new] by simp
      moreover have "get_str ?new q = Some s" if "get_str rt q = Some s" for q s
        using that by (auto simp: get_str_def rd_def nth_append split: if_splits)
      ultimately show ?thesis
        using key2 by (intro exI [of _ True] exI [of _ ?new] exI [of _ "[1..<?n]"]) simp
    qed
  qed
qed

section \<open>Interning\<close>

text \<open>One reference less to the string at \<open>p\<close>.\<close>

definition released :: "nat \<Rightarrow> JSString \<Rightarrow> JSAtoms \<Rightarrow> bool" where
  "released p s rt \<longleftrightarrow>
     get_str rt p = (if str_ref_count s > 1 then Some (s\<lparr>str_ref_count := str_ref_count s - 1\<rparr>) else None)"

lemma free_plain_ok:
  assumes inv: "atom_inv rt C F" and p: "get_str rt p = Some s" "atom_type s = 0"
  shows "\<exists>rt'. js_free_string rt p = Some rt' \<and> atom_inv rt' C F \<and> key_at rt' = key_at rt \<and>
    (count_ok rt \<longrightarrow> count_ok rt') \<and> released p s rt' \<and> atom_at rt' = atom_at rt"
proof -
  let ?s = "s\<lparr>str_ref_count := str_ref_count s - 1\<rparr>" and ?rt = "set_str p (s\<lparr>str_ref_count := str_ref_count s - 1\<rparr>) rt"
  have 1: "atom_inv ?rt C F" "key_at ?rt = key_at rt"
    using plain_str_inv(1) [OF inv p, of ?s] p(2) by simp_all
  have get: "get_str ?rt p = Some ?s"
    using get_set_str [OF p(1)] by simp
  have 2: "atom_inv (js_free_rt p ?rt) C F" "key_at (js_free_rt p ?rt) = key_at rt"
    using plain_str_inv(2) [OF 1(1) get] p(2) 1(2) by simp_all
  have run: "js_free_string rt p = Some (if str_ref_count s - 1 \<le> 0 then js_free_rt p ?rt else ?rt)"
    using p get by (simp add: js_free_string_def add_ref_def)
  have in_heap: "p < length (str_heap rt)"
    using p(1) by (cases "p < length (str_heap rt)") (auto simp: get_str_def)
  have "released p s (if str_ref_count s - 1 \<le> 0 then js_free_rt p ?rt else ?rt)"
    using get in_heap by (auto simp: released_def js_free_rt_def set_str_def get_str_def)
  moreover have "count_ok (if str_ref_count s - 1 \<le> 0 then js_free_rt p ?rt else ?rt) = count_ok rt"
    by (simp add: count_ok_def js_free_rt_def set_str_def)
  moreover have "atom_at (if str_ref_count s - 1 \<le> 0 then js_free_rt p ?rt else ?rt) i = atom_at rt i" for i
  proof -
    have out: "rd (atom_array rt) i \<noteq> Some (Atom_entry p)"
      by (rule plain_not_registered [OF inv p])
    have other: "get_str (js_free_rt p ?rt) q = get_str rt q" "get_str ?rt q = get_str rt q" if "q \<noteq> p" for q
      using that by (simp_all add: get_str_def js_free_rt_def set_str_def rd_def)
    have arr: "atom_array (js_free_rt p ?rt) = atom_array rt" "atom_array ?rt = atom_array rt"
      by (simp_all add: js_free_rt_def set_str_def)
    show ?thesis
    proof (cases "rd (atom_array rt) i")
      case None
      then show ?thesis by (simp add: atom_at_def arr)
    next
      case (Some e)
      then show ?thesis using out other by (cases e) (auto simp: atom_at_def arr)
    qed
  qed
  ultimately show ?thesis
    using 1 2 run by auto
qed

text \<open>The table and the string of a new name give the atom that stands for it.\<close>

definition interned :: "JSAtoms \<Rightarrow> nat \<times> u16 list \<Rightarrow> nat \<Rightarrow> JSAtoms \<Rightarrow> bool" where
  "interned rt k i rt' \<longleftrightarrow>
     (if \<exists>j. key_at rt j = Some k then key_at rt i = Some k \<and> key_at rt' = key_at rt
      else if i = 0 then key_at rt' = key_at rt
      else key_at rt i = None \<and> key_at rt' = (key_at rt)(i \<mapsto> k))"

text \<open>Where the references go: that to the string at \<open>p\<close> is released when there is an atom already,
  which gets one more unless it is predefined, and when memory is short; otherwise the string becomes
  the atom.\<close>

definition passed_on :: "JSAtoms \<Rightarrow> nat \<Rightarrow> JSString \<Rightarrow> nat \<Rightarrow> JSAtoms \<Rightarrow> bool" where
  "passed_on rt p s i rt' \<longleftrightarrow>
     (if i = 0 then released p s rt'
      else case atom_at rt i of
        Some (q, t) \<Rightarrow> released p s rt' \<and>
          atom_at rt' i = Some (q, if JS_AtomIsConst (of_nat i) then t else t\<lparr>str_ref_count := str_ref_count t + 1\<rparr>)
      | None \<Rightarrow> (\<exists>t. atom_at rt' i = Some (p, t) \<and> str_ref_count t = str_ref_count s))"

lemma register_atom_ok:
  assumes inv: "atom_inv rt C F" and p: "get_str rt p = Some s" "atom_type s = 0"
    and ty: "ty = JS_ATOM_TYPE_STRING \<or> ty = JS_ATOM_TYPE_GLOBAL_SYMBOL"
    and h: "h = key_hash (ty, str_units s)" "h1 = bucket (length (atom_hash rt)) h"
    and new: "\<forall>j. key_at rt j \<noteq> Some (ty, str_units s)" and small: "length (atom_array rt) * 3 < 2 ^ 31"
  shows "\<exists>i rt'. register_atom rt (Some p) h h1 ty = Some (i, rt') \<and> table_ok rt' \<and>
    interned rt (ty, str_units s) i rt' \<and> (count_ok rt \<longrightarrow> count_ok rt') \<and> passed_on rt p s i rt' \<and>
    (i = 0 \<longleftrightarrow> atom_free_index rt = 0 \<and> grow_fails rt)"
proof -
  obtain r rt1 F1 where g: "(if atom_free_index rt = 0 then grow_atoms rt else Some (True, rt)) = Some (r, rt1)"
      "atom_inv rt1 C F1" "key_at rt1 = key_at rt" "r \<longrightarrow> F1 \<noteq> []" "atom_hash rt1 = atom_hash rt"
      "\<forall>q s. get_str rt q = Some s \<longrightarrow> get_str rt1 q = Some s" "count_ok rt \<longrightarrow> count_ok rt1"
      "\<not> r \<longleftrightarrow> atom_free_index rt = 0 \<and> grow_fails rt"
  proof (cases "atom_free_index rt = 0")
    case True
    then show ?thesis
      using grow_atoms_ok [OF inv True small] grow_atoms_fails [of rt] grow_atoms_count [of rt] that by auto
  next
    case False
    then have "F \<noteq> []"
      using atom_inv_free(2) [OF inv] by auto
    then show ?thesis
      using that [of True rt F] False inv by simp
  qed
  have p1: "get_str rt1 p = Some s"
    using g(6) p(1) by blast
  show ?thesis
  proof (cases r)
    case False
    obtain rt2 where "js_free_string rt1 p = Some rt2" "atom_inv rt2 C F1" "key_at rt2 = key_at rt1"
      "count_ok rt1 \<longrightarrow> count_ok rt2" "released p s rt2"
      using free_plain_ok [OF g(2) p1 p(2)] by blast
    then show ?thesis
      using g(1,3,7,8) False new by (auto simp: register_atom_def interned_def table_ok_def passed_on_def)
  next
    case True
    then obtain x F2 where F1: "F1 = x # F2"
      using g(4) by (cases F1) auto
    obtain rt2 where 2: "insert_atom rt1 p h h1 ty = Some (x, rt2)" "table_ok rt2"
        "key_at rt2 = (key_at rt1)(x \<mapsto> (ty, str_units s))" "count_ok rt1 \<longrightarrow> count_ok rt2"
        "\<exists>t. atom_at rt2 x = Some (p, t) \<and> str_ref_count t = str_ref_count s"
      using insert_atom_ok [OF g(2) [unfolded F1] p1 p(2) ty h(1)] h(2) g(3,5) new by auto
    have x: "x \<noteq> 0" "key_at rt1 x = None" "atom_at rt1 x = None"
      using atom_inv_free(2) [OF g(2)] F1 by (auto simp: key_at_def atom_at_def)
    have none: "atom_at rt x = None"
    proof (rule ccontr)
      assume "atom_at rt x \<noteq> None"
      then obtain q t where q: "atom_at rt x = Some (q, t)" by auto
      obtain n where n: "rd (atom_array rt1) x = Some (Free_entry n)"
        using atom_inv_free(2) [OF g(2)] F1 by auto
      show False
        using q n grow_atoms_array [of rt r rt1 x q] g(1) by (cases "atom_free_index rt = 0") (auto simp: atom_at_array)
    qed
    have "register_atom rt (Some p) h h1 ty = Some (x, rt2)"
      using g(1) True p1 p(2) 2(1) by (simp add: register_atom_def atom_string_def)
    then show ?thesis
      using 2 x g(3,7,8) True new none by (auto simp: interned_def passed_on_def)
  qed
qed

lemma add_ref_ok:
  assumes inv: "atom_inv rt C F" and x: "atom_at rt x = Some (q, t)"
  shows "\<exists>rt'. add_ref d q rt = Some rt' \<and> atom_inv rt' C F \<and> key_at rt' = key_at rt \<and>
    (\<forall>p. p \<noteq> q \<longrightarrow> get_str rt' p = get_str rt p) \<and> count_ok rt' = count_ok rt \<and>
    atom_at rt' x = Some (q, t\<lparr>str_ref_count := str_ref_count t + d\<rparr>)"
proof -
  let ?rt = "set_str q (t\<lparr>str_ref_count := str_ref_count t + d\<rparr>) rt"
  have "add_ref d q rt = Some ?rt"
    using atom_at_get [OF x] by (simp add: add_ref_def)
  moreover have "count_ok ?rt = count_ok rt"
    by (simp add: count_ok_def set_str_def)
  moreover have "atom_at ?rt x = Some (q, t\<lparr>str_ref_count := str_ref_count t + d\<rparr>)"
    using atom_at_set_other [OF atom_invD(1) [OF inv] x] by simp
  ultimately show ?thesis
    using count_inv [OF inv x, of "t\<lparr>str_ref_count := str_ref_count t + d\<rparr>" "str_ref_count t + d"]
      get_set_str [OF atom_at_get [OF x]] by auto
qed

lemma key_at_Some: "key_at rt i = Some k \<Longrightarrow> \<exists>p s. atom_at rt i = Some (p, s)"
  by (auto simp: key_at_def split: option.splits)

text \<open>C9: Interning. Given a string that is not an atom yet (\<open>atom_type s = 0\<close>), and an array of atoms
  whose length times 3 fits into an \<open>int\<close>, \<open>__JS_NewAtom\<close> keeps the invariant of the table, with the count
  of its atoms, and returns the number of the atom with the same type and the same units when there is one,
  no number changing its meaning; otherwise it registers the string under a number that was free, all other
  numbers keeping their meaning. It returns 0, and changes the meaning of no number, exactly when there is
  no such atom, no number is free, and the array cannot be enlarged, because it would exceed
  \<open>JS_ATOM_MAX\<close> or an allocation of the enlargement fails. The reference to the string is released, in
  exchange for one to an atom that exists, or passed to the new atom. The table and its hash chains are
  enlarged on the way where needed.\<close>

theorem JS_NewAtom_str_interns:
  assumes "atoms_ok rt" and "get_str rt p = Some s" and "atom_type s = 0"
    and "ty = JS_ATOM_TYPE_STRING \<or> ty = JS_ATOM_TYPE_GLOBAL_SYMBOL" and "length (atom_array rt) * 3 < 2 ^ 31"
  shows "\<exists>i rt'. JS_NewAtom_str rt (Some p) ty = Some (i, rt') \<and> atoms_ok rt' \<and>
    interned rt (ty, str_units s) i rt' \<and> passed_on rt p s i rt' \<and>
    (i = 0 \<longleftrightarrow> (\<forall>j. key_at rt j \<noteq> Some (ty, str_units s)) \<and> atom_free_index rt = 0 \<and> grow_fails rt)"
proof -
  obtain C F where inv: "atom_inv rt C F"
    using assms(1) by (auto simp: atoms_ok_def table_ok_def)
  have cnt: "count_ok rt"
    using assms(1) by (simp add: atoms_ok_def)
  let ?h = "hash_string s (of_nat ty) AND JS_ATOM_HASH_MASK"
  let ?b = "bucket (length (atom_hash rt)) ?h"
  obtain i where i: "chain_find (same_string ?h ty (str_units s)) rt (atom_hash rt ! ?b) = Some i"
      "?b < length (atom_hash rt)"
      "if i = 0 then \<forall>j. key_at rt j \<noteq> Some (ty, str_units s) else key_at rt i = Some (ty, str_units s)"
    using find_key [OF inv assms(4), of "str_units s"] by (auto simp: hash_string_def)
  have run: "JS_NewAtom_str rt (Some p) ty =
      (if i \<noteq> 0 then do {
         (q, t) \<leftarrow> atom_at rt i;
         rt \<leftarrow> (if JS_AtomIsConst (of_nat i) then Some rt else add_ref 1 q rt);
         rt \<leftarrow> js_free_string rt p;
         Some (i, rt) }
       else register_atom rt (Some p) ?h ?b ty)"
    using assms(2-4) i(1,2) by (auto simp: JS_NewAtom_str_def Let_def)
  show ?thesis
  proof (cases "i = 0")
    case True
    then show ?thesis
      using run i(3) register_atom_ok [OF inv assms(2-4) _ refl, of ?h] assms(5) cnt
      by (auto simp: hash_string_def atoms_ok_def)
  next
    case False
    then obtain q t where q: "atom_at rt i = Some (q, t)"
      using i(3) key_at_Some [of rt i] by auto
    have "q \<noteq> p"
      using plain_not_registered [OF inv assms(2,3), of i] q by (auto simp: atom_at_array)
    then obtain rt1 where 1: "(if JS_AtomIsConst (of_nat i) then Some rt else add_ref 1 q rt) = Some rt1"
        "atom_inv rt1 C F" "key_at rt1 = key_at rt" "get_str rt1 p = Some s" "count_ok rt1"
        "atom_at rt1 i = Some (q, if JS_AtomIsConst (of_nat i) then t else t\<lparr>str_ref_count := str_ref_count t + 1\<rparr>)"
      using add_ref_ok [OF inv q, of 1] inv assms(2) cnt q by (cases "JS_AtomIsConst (of_nat i)") auto
    obtain rt2 where 2: "js_free_string rt1 p = Some rt2" "atom_inv rt2 C F" "key_at rt2 = key_at rt1"
        "count_ok rt1 \<longrightarrow> count_ok rt2" "released p s rt2" "atom_at rt2 = atom_at rt1"
      using free_plain_ok [OF 1(2,4) assms(3)] by blast
    have "passed_on rt p s i rt2"
      using False q 1(6) 2(5,6) by (simp add: passed_on_def)
    then show ?thesis
      using run False q 1(1,3,5) 2(1-4) i(3) by (auto simp: interned_def atoms_ok_def table_ok_def)
  qed
qed

text \<open>The table \<open>JS_InitAtoms\<close> starts from, with strings that are no atoms.\<close>

lemma empty_table_ok:
  assumes "atom_array rt = []" and "atom_hash rt = replicate (2 ^ k) 0" and "atom_free_index rt = 0"
    and "\<forall>s. Some s \<in> set (str_heap rt) \<longrightarrow> atom_type s = 0" and "atom_count rt = 0"
  shows "atoms_ok rt"
proof -
  have "atom_at rt i = None" for i
    by (simp add: atom_at_def assms(1))
  moreover have "atom_type s = 0" if "get_str rt p = Some s" for p s
    using assms(4) that nth_mem by (fastforce simp: get_str_def rd_def split: if_splits)
  ultimately have "atom_inv rt (\<lambda>_. []) []"
    by (intro atom_invI) (use assms(1-3) in \<open>auto simp: inj_atoms_def chains_def key_at_def\<close>)
  then show ?thesis
    using assms(1,5) by (auto simp: atoms_ok_def table_ok_def count_ok_def)
qed

definition sample_string :: JSString where
  "sample_string = \<lparr>str_ref_count = 1, is_wide_char = False, str_units = [0x61], str_hash = 0, atom_type = 0, hash_next = 0\<rparr>"

definition sample_table :: JSAtoms where
  "sample_table = \<lparr>str_heap = [Some sample_string], atom_array = [], atom_hash = [0, 0], atom_count = 0,
     atom_count_resize = 4, atom_free_index = 0, alloc_next = []\<rparr>"

theorem JS_NewAtom_str_interns_witness:
  "\<exists>i rt'. JS_NewAtom_str sample_table (Some 0) JS_ATOM_TYPE_STRING = Some (i, rt') \<and> atoms_ok rt' \<and> i \<noteq> 0 \<and>
     key_at rt' = (key_at sample_table)(i \<mapsto> (JS_ATOM_TYPE_STRING, [0x61])) \<and>
     (\<exists>t. atom_at rt' i = Some (0, t) \<and> str_ref_count t = 1)"
proof -
  have "atoms_ok sample_table"
    by (rule empty_table_ok [of _ 1]) (simp_all add: sample_table_def sample_string_def numeral_2_eq_2)
  moreover have "get_str sample_table 0 = Some sample_string"
    by (simp add: get_str_def sample_table_def)
  moreover have "\<not> grow_fails sample_table"
    by (simp add: grow_fails_def sample_table_def JS_ATOM_MAX_def)
  moreover have none: "atom_at sample_table j = None" "key_at sample_table j = None" for j
    by (simp_all add: key_at_def atom_at_def sample_table_def)
  moreover have s: "atom_type sample_string = 0" "str_units sample_string = [0x61]" "str_ref_count sample_string = 1"
      "length (atom_array sample_table) * 3 < 2 ^ 31"
    by (simp_all add: sample_string_def sample_table_def)
  ultimately obtain i rt' where r: "JS_NewAtom_str sample_table (Some 0) JS_ATOM_TYPE_STRING = Some (i, rt')"
      "atoms_ok rt'" "interned sample_table (JS_ATOM_TYPE_STRING, [0x61]) i rt'"
      "passed_on sample_table 0 sample_string i rt'" "i \<noteq> 0"
    using JS_NewAtom_str_interns [of sample_table 0 sample_string JS_ATOM_TYPE_STRING] by auto
  then show ?thesis
    using none s(3) by (auto simp: interned_def passed_on_def)
qed

end
