(* ===== verification/AtomRelease.thy ===== *)
theory AtomRelease
  imports AtomTable
begin

text \<open>
  The release of atoms: taking one out of its chain, and \<open>JS_FreeAtom\<close> as the removal of a number from
  the map of the table.
\<close>

section \<open>Taking an atom out of its chain\<close>

lemma relinked_mono: "relinked X rt rt' \<Longrightarrow> X \<subseteq> Y \<Longrightarrow> relinked Y rt rt'"
  unfolding relinked_def by (meson subsetD)

lemma chain_unlink_links:
  assumes "atom_links rt y (y # xs)" and "atom_at rt y = Some (p0, s0)" and "distinct (y # xs)"
    and "inj_atoms rt" and "x \<in> set xs" and "atom_at rt x = Some (p, s)"
  shows "\<exists>rt'. chain_unlink p p0 rt = Some (x, rt') \<and> relinked (set (y # xs) - {x}) rt rt' \<and>
    atom_links rt' y (y # remove1 x xs)"
  using assms
proof (induction xs arbitrary: y p0 s0)
  case (Cons z zs)
  obtain p1 s1 where z: "hash_next s0 = z" "y \<noteq> 0" "z \<noteq> 0" "atom_at rt z = Some (p1, s1)" "atom_links rt (hash_next s1) zs"
    using Cons.prems(1,2) by auto
  note get0 = atom_at_get [OF Cons.prems(2)]
  show ?case
  proof (cases "z = x")
    case True
    let ?rt = "set_str p0 (s0\<lparr>hash_next := hash_next s1\<rparr>) rt"
    have p1: "p1 = p" "s1 = s"
      using z(4) Cons.prems(6) True by simp_all
    have "chain_unlink p p0 rt = Some (x, ?rt)"
      using get0 z p1 True by (simp add: chain_unlink.simps [of p p0] Let_def)
    moreover have "relinked {y} rt ?rt"
      by (rule relinked_one [OF Cons.prems(2)])
    then have "relinked (set (y # z # zs) - {x}) rt ?rt"
      by (rule relinked_mono) (use Cons.prems(3) True in auto)
    moreover have "atom_links ?rt y (y # zs)"
      using z(2,5) Cons.prems(3) atom_links_set_str [OF Cons.prems(4,2)] atom_at_set_other [OF Cons.prems(4,2)]
      by simp
    ultimately show ?thesis
      using True by auto
  next
    case False
    then have "p1 \<noteq> p"
      using inj_atomsD [OF Cons.prems(4)] z(4) Cons.prems(6) by blast
    then have run: "chain_unlink p p0 rt = chain_unlink p p1 rt"
      using get0 z by (simp add: chain_unlink.simps [of p p0] Let_def)
    have "atom_links rt z (z # zs)" "distinct (z # zs)" "x \<in> set zs"
      using z Cons.prems(3,5) False by auto
    from Cons.IH [OF this(1) z(4) this(2) Cons.prems(4) this(3) Cons.prems(6)] obtain rt' where
        IH: "chain_unlink p p1 rt = Some (x, rt')" "relinked (set (z # zs) - {x}) rt rt'"
          "atom_links rt' z (z # remove1 x zs)"
      by blast
    have "atom_at rt' y = atom_at rt y"
      using relinked_other [OF IH(2) Cons.prems(4)] Cons.prems(3) by simp
    then have "atom_links rt' y (y # remove1 x (z # zs))"
      using IH(3) z(1,2) Cons.prems(2) False by simp
    moreover have "relinked (set (y # z # zs) - {x}) rt rt'"
      by (rule relinked_mono [OF IH(2)]) auto
    ultimately show ?thesis
      using run IH(1) by auto
  qed
qed simp

lemma unlink_atom_chains:
  assumes inv: "atom_inv rt C F" and x: "atom_at rt x = Some (p, s)" "hashed s"
  defines "b \<equiv> bucket (length (atom_hash rt)) (str_hash s)"
  shows "\<exists>rt' H. unlink_atom rt p s = Some (x, rt'\<lparr>atom_hash := H\<rparr>) \<and> relinked (set (C b) - {x}) rt rt' \<and>
    length H = length (atom_hash rt) \<and> atom_links rt' (H ! b) (remove1 x (C b)) \<and>
    (\<forall>j. j \<noteq> b \<longrightarrow> H ! j = atom_hash rt ! j)"
proof -
  note D = atom_invD [OF inv]
  have b: "b < length (atom_hash rt)"
    unfolding b_def by (rule bucket_less [OF D(3)])
  have xb: "x \<in> set (C b)" "x \<noteq> 0"
    using D(4) [OF x] by (simp_all add: b_def)
  have l: "atom_links rt (atom_hash rt ! b) (C b)" "distinct (C b)"
    using D(2) b by (simp_all add: chains_def)
  obtain y ys where C: "C b = y # ys"
    using xb(1) by (cases "C b") auto
  then obtain p1 s1 where y: "atom_hash rt ! b = y" "y \<noteq> 0" "atom_at rt y = Some (p1, s1)" "atom_links rt (hash_next s1) ys"
    using l(1) by auto
  show ?thesis
  proof (cases "y = x")
    case True
    let ?H = "(atom_hash rt)[b := hash_next s1]"
    have "unlink_atom rt p s = Some (x, rt\<lparr>atom_hash := ?H\<rparr>)"
      using b y x(1) True by (simp add: unlink_atom_def b_def Let_def)
    then show ?thesis
      using relinked_refl b y(4) C True by (intro exI [of _ rt] exI [of _ ?H]) simp
  next
    case False
    then have "p1 \<noteq> p"
      using inj_atomsD [OF D(1)] y(3) x(1) by blast
    then have run: "unlink_atom rt p s = chain_unlink p p1 rt"
      using b y by (simp add: unlink_atom_def b_def Let_def)
    obtain rt' where rt': "chain_unlink p p1 rt = Some (x, rt')" "relinked (set (y # ys) - {x}) rt rt'"
        "atom_links rt' y (y # remove1 x ys)"
      using chain_unlink_links [OF _ y(3) _ D(1) _ x(1), of ys] l C y(1) xb(1) False by auto
    have "rt' = rt'\<lparr>atom_hash := atom_hash rt\<rparr>"
      using relinked_array [OF rt'(2)] by simp
    then show ?thesis
      using run rt' C y(1) False by (intro exI [of _ rt'] exI [of _ "atom_hash rt"]) simp
  qed
qed

section \<open>The table without an atom\<close>

lemma free_links_entry: "free_links rt i xs \<Longrightarrow> x \<in> set xs \<Longrightarrow> \<exists>n. rd (atom_array rt) x = Some (Free_entry n)"
  by (induction rt i xs rule: free_links.induct) auto

lemma released_inv:
  assumes inv: "atom_inv rt C F" and x: "x \<noteq> 0" "atom_at rt x = Some (p, s)"
    and re: "relinked X rt rt1" and X: "\<forall>y \<in> X. \<exists>j < length (atom_hash rt). y \<in> set (C j)"
    and H: "length H = length (atom_hash rt)" "\<forall>j < length H. atom_links rt1 (H ! j) (remove1 x (C j))"
    and rt2: "atom_array rt2 = (atom_array rt)[x := Free_entry (atom_free_index rt)]" "atom_hash rt2 = H"
      "atom_free_index rt2 = x" "\<And>q. get_str rt2 q = (if q = p then None else get_str rt1 q)"
  shows "atom_inv rt2 (\<lambda>j. remove1 x (C j)) (x # F) \<and> key_at rt2 = (key_at rt)(x := None)"
proof -
  note D = atom_invD [OF inv] and free = atom_inv_free [OF inv]
  have xin: "x < length (atom_array rt)" "rd (atom_array rt) x = Some (Atom_entry p)"
    using x(2) by (auto simp: atom_at_array rd_def split: if_splits)
  have entry: "rd (atom_array rt2) i = (if i = x then Some (Free_entry (atom_free_index rt)) else rd (atom_array rt) i)" for i
    using xin(1) by (auto simp: rt2 rd_def nth_list_update)
  have only: "i = x" if "rd (atom_array rt) i = Some (Atom_entry p)" for i
    using D(1) xin(2) that by (auto simp: inj_atoms_def)
  have at: "atom_at rt2 i = (if i = x then None else atom_at rt1 i)" for i
  proof (cases "rd (atom_array rt) i")
    case None
    then show ?thesis
      using relinked_array [OF re] by (simp add: atom_at_def entry)
  next
    case (Some e)
    then show ?thesis
      using only [of i] relinked_array [OF re] by (cases e) (simp_all add: atom_at_def entry rt2(4))
  qed
  have key: "key_at rt2 i = (if i = x then None else key_at rt i)" for i
    using relinked_key [OF re, of i] by (auto simp: key_at_def at)
  have before: "\<exists>u n. atom_at rt i = Some (q, u) \<and> t = u\<lparr>hash_next := n\<rparr> \<and> (\<not> hashed u \<longrightarrow> t = u)"
    if i: "atom_at rt1 i = Some (q, t)" for i q t
  proof -
    obtain u n where u: "atom_at rt i = Some (q, u)" "t = u\<lparr>hash_next := n\<rparr>"
      using relinked_back [OF re i] by blast
    moreover have "t = u" if "\<not> hashed u"
    proof -
      have "i \<notin> X"
        using X D(6) u(1) \<open>\<not> hashed u\<close> by (force simp: string_of_def)
      then show ?thesis
        using relinked_other [OF re D(1)] i u(1) by simp
    qed
    ultimately show ?thesis
      by blast
  qed
  have hash: "str_hash (string_of rt2 i) = str_hash (string_of rt i)" "hashed (string_of rt2 i) = hashed (string_of rt i)"
    if i: "i \<noteq> x" "atom_at rt i = Some a" for i a
    using relinked_at [OF re, of i "fst a" "snd a"] i by (auto simp: string_of_def at relinked_hashed)
  have chain: "atom_links rt (atom_hash rt ! j) (C j)" "distinct (C j)"
      "\<forall>i \<in> set (C j). bucket (length H) (str_hash (string_of rt i)) = j" if "j < length H" for j
    using D(2) H(1) that by (simp_all add: chains_def)
  have "atom_inv rt2 (\<lambda>j. remove1 x (C j)) (x # F)"
  proof (rule atom_invI)
    show "inj_atoms rt2"
      using D(1) by (auto simp: inj_atoms_def entry split: if_splits)
    show "chains rt2 (atom_hash rt2) (\<lambda>j. remove1 x (C j))"
      unfolding chains_def rt2(2)
    proof (intro allI impI conjI ballI)
      fix j assume j: "j < length H"
      show "atom_links rt2 (H ! j) (remove1 x (C j))"
        using H(2) j atom_links_cong [of "remove1 x (C j)" rt2 rt1] chain(2) [OF j] by (auto simp: at)
      show "distinct (remove1 x (C j))"
        using chain(2) [OF j] by (rule distinct_remove1)
      fix i assume "i \<in> set (remove1 x (C j))"
      then have i: "i \<in> set (C j)" "i \<noteq> x"
        using chain(2) [OF j] by auto
      then obtain a where "atom_at rt i = Some a"
        using atom_links_at [OF chain(1) [OF j]] by blast
      then show "bucket (length H) (str_hash (string_of rt2 i)) = j"
        using hash(1) [OF i(2)] chain(3) [OF j] i(1) by simp
    qed
    show "\<exists>k. length (atom_hash rt2) = 2 ^ k"
      using free(1) H(1) by (simp add: rt2)
    show "get_str rt2 q \<noteq> None" if "rd (atom_array rt2) i = Some (Atom_entry q)" for i q
    proof -
      have i: "i \<noteq> x" "rd (atom_array rt) i = Some (Atom_entry q)"
        using that by (auto simp: entry split: if_splits)
      then obtain u where "atom_at rt i = Some (q, u)"
        using D(9) by blast
      then show ?thesis
        using i only relinked_at [OF re] atom_at_get rt2(4) by fastforce
    qed
    show "i \<noteq> 0 \<and> i \<in> set (remove1 x (C (bucket (length (atom_hash rt2)) (str_hash t))))"
      if i: "atom_at rt2 i = Some (q, t)" "hashed t" for i q t
    proof -
      have ix: "i \<noteq> x" "atom_at rt1 i = Some (q, t)"
        using i(1) by (auto simp: at split: if_splits)
      obtain u n where u: "atom_at rt i = Some (q, u)" "t = u\<lparr>hash_next := n\<rparr>"
        using before [OF ix(2)] by blast
      then show ?thesis
        using D(4) [OF u(1)] i(2) ix(1) H(1) by (simp add: relinked_hashed rt2)
    qed
    show "atom_type t = JS_ATOM_TYPE_SYMBOL \<and> hash_next t = i" if i: "atom_at rt2 i = Some (q, t)" "\<not> hashed t" for i q t
    proof -
      have "atom_at rt1 i = Some (q, t)"
        using i(1) by (auto simp: at split: if_splits)
      then show ?thesis
        using before i(2) D(5) by (metis relinked_hashed)
    qed
    show "hashed (string_of rt2 i)" if i: "j < length (atom_hash rt2)" "i \<in> set (remove1 x (C j))" for i j
    proof -
      have j: "j < length H" "i \<in> set (C j)" "i \<noteq> x"
        using i chain(2) [of j] by (auto simp: rt2)
      then obtain a where "atom_at rt i = Some a"
        using atom_links_at [OF chain(1)] by blast
      then show ?thesis
        using hash(2) [OF j(3)] D(6) j(1,2) H(1) by simp
    qed
    show "free_links rt2 (atom_free_index rt2) (x # F)"
    proof -
      have "x \<notin> set F"
        using free(2) xin(2) by (metis atom_entry.distinct(1) free_links_entry option.inject)
      then show ?thesis
        using free(2) x(1) free_links_cong [of F rt2 rt] by (auto simp: rt2(3) entry)
    qed
    show "distinct (x # F)"
      using free(2,3) xin(2) by (metis atom_entry.distinct(1) distinct.simps(2) free_links_entry option.inject)
    show "i \<in> set (x # F)" if "rd (atom_array rt2) i = Some (Free_entry n)" for i n
      using that free(4) [of i n] by (auto simp: entry split: if_splits)
    show "i = j" if "key_at rt2 i = Some k" "key_at rt2 j = Some k" for i j k
      using that D(7) by (auto simp: key split: if_splits)
    show "\<exists>i. rd (atom_array rt2) i = Some (Atom_entry q)" if q: "get_str rt2 q = Some t" "atom_type t \<noteq> 0" for q t
    proof -
      have qp: "q \<noteq> p" "get_str rt1 q = Some t"
        using q(1) by (auto simp: rt2 split: if_splits)
      then obtain u n where "get_str rt q = Some u" "t = u\<lparr>hash_next := n\<rparr>"
        using relinked_str [OF re] by blast
      then obtain i where "rd (atom_array rt) i = Some (Atom_entry q)"
        using D(8) q(2) by (auto simp: atom_at_array)
      then show ?thesis
        using qp(1) xin(2) entry [of i] by (intro exI [of _ i]) auto
    qed
  qed
  then show ?thesis
    using key by auto
qed

section \<open>Releasing an atom\<close>

lemma take_out_atom:
  assumes inv: "atom_inv rt C F" and x: "x \<noteq> 0" "atom_at rt x = Some (p, s)"
  shows "\<exists>X rt1 H. (if atom_type s \<noteq> JS_ATOM_TYPE_SYMBOL then unlink_atom rt p s else Some (hash_next s, rt)) =
      Some (x, rt1\<lparr>atom_hash := H\<rparr>) \<and> relinked X rt rt1 \<and>
    (\<forall>y \<in> X. \<exists>j < length (atom_hash rt). y \<in> set (C j)) \<and> length H = length (atom_hash rt) \<and>
    (\<forall>j < length H. atom_links rt1 (H ! j) (remove1 x (C j)))"
proof -
  note D = atom_invD [OF inv]
  have chain: "atom_links rt (atom_hash rt ! j) (C j)" "distinct (C j)"
      "\<forall>i \<in> set (C j). bucket (length (atom_hash rt)) (str_hash (string_of rt i)) = j" if "j < length (atom_hash rt)" for j
    using D(2) that by (simp_all add: chains_def)
  have sx: "string_of rt x = s"
    using x(2) by (simp add: string_of_def)
  show ?thesis
  proof (cases "hashed s")
    case True
    let ?b = "bucket (length (atom_hash rt)) (str_hash s)"
    have b: "?b < length (atom_hash rt)"
      by (rule bucket_less [OF D(3)])
    obtain rt1 H where 1: "unlink_atom rt p s = Some (x, rt1\<lparr>atom_hash := H\<rparr>)" "relinked (set (C ?b) - {x}) rt rt1"
        "length H = length (atom_hash rt)" "atom_links rt1 (H ! ?b) (remove1 x (C ?b))"
        "\<forall>j. j \<noteq> ?b \<longrightarrow> H ! j = atom_hash rt ! j"
      using unlink_atom_chains [OF inv x(2) True] by blast
    have "atom_links rt1 (H ! j) (remove1 x (C j))" if j: "j < length H" for j
    proof (cases "j = ?b")
      case False
      have out: "y \<notin> set (C ?b)" "y \<noteq> x" if "y \<in> set (C j)" for y
        using chain(3) [OF b] chain(3) [of j] j 1(3) that False sx by auto
      then have "remove1 x (C j) = C j" "\<forall>y \<in> set (C j). atom_at rt1 y = atom_at rt y"
        using relinked_other [OF 1(2) D(1)] by (auto intro: remove1_idem)
      then show ?thesis
        using chain(1) [of j] j 1(3,5) False atom_links_cong [of "C j" rt1 rt] by simp
    qed (use 1(4) in simp)
    moreover have "atom_type s \<noteq> JS_ATOM_TYPE_SYMBOL"
      using True by (auto simp: hashed_def)
    ultimately show ?thesis
      using 1(1-3) b by (intro exI [of _ "set (C ?b) - {x}"] exI [of _ rt1] exI [of _ H]) auto
  next
    case False
    have sym: "atom_type s = JS_ATOM_TYPE_SYMBOL \<and> hash_next s = x"
      by (rule D(5) [OF x(2) False])
    have "remove1 x (C j) = C j" if "j < length (atom_hash rt)" for j
      using D(6) [OF that, of x] sx False by (auto intro: remove1_idem)
    then show ?thesis
      using sym chain(1) relinked_refl by (intro exI [of _ "{}"] exI [of _ rt] exI [of _ "atom_hash rt"]) simp
  qed
qed

text \<open>Outside the strings at the addresses \<open>X\<close>, at most the links of the hash chains change.\<close>

definition kept_except :: "nat set \<Rightarrow> JSAtoms \<Rightarrow> JSAtoms \<Rightarrow> bool" where
  "kept_except X rt rt' \<longleftrightarrow>
     (\<forall>q u. q \<notin> X \<and> get_str rt q = Some u \<longrightarrow> (\<exists>n. get_str rt' q = Some (u\<lparr>hash_next := n\<rparr>)))"

lemma same_link: "\<exists>n. u = u\<lparr>hash_next := n\<rparr>" for u :: JSString
  by (rule exI [of _ "hash_next u"]) simp

lemma JS_FreeAtomStruct_ok:
  assumes inv: "atom_inv rt C F" and x: "x \<noteq> 0" "atom_at rt x = Some (p, s)" and count: "count_ok rt"
  shows "\<exists>rt'. JS_FreeAtomStruct rt p = Some rt' \<and> atoms_ok rt' \<and> key_at rt' = (key_at rt)(x := None) \<and>
    get_str rt' p = None \<and> atom_free_index rt' = x \<and> kept_except {p} rt rt'"
proof -
  obtain X rt1 H where 1: "(if atom_type s \<noteq> JS_ATOM_TYPE_SYMBOL then unlink_atom rt p s else Some (hash_next s, rt)) =
      Some (x, rt1\<lparr>atom_hash := H\<rparr>)" "relinked X rt rt1"
      "\<forall>y \<in> X. \<exists>j < length (atom_hash rt). y \<in> set (C j)" "length H = length (atom_hash rt)"
      "\<forall>j < length H. atom_links rt1 (H ! j) (remove1 x (C j))"
    using take_out_atom [OF inv x] by blast
  note fields = relinked_fields [OF 1(2)] relinked_array [OF 1(2)]
  have xin: "x < length (atom_array rt)" "atom_array rt ! x = Atom_entry p"
    using x(2) by (auto simp: atom_at_array rd_def split: if_splits)
  let ?rt = "(js_free_rt p (rt1\<lparr>atom_hash := H, atom_array := (atom_array rt)[x := Free_entry (atom_free_index rt)],
    atom_free_index := x\<rparr>))\<lparr>atom_count := atom_count rt - 1\<rparr>"
  have run: "JS_FreeAtomStruct rt p = Some ?rt"
    using atom_at_get [OF x(2)] 1(1) fields xin count_pos [OF count x(2)]
    by (simp add: JS_FreeAtomStruct_def wr_def js_free_rt_def Let_def)
  have get: "get_str ?rt q = (if q = p then None else get_str rt1 q)" for q
    by (auto simp: get_str_def js_free_rt_def rd_def nth_list_update)
  then have "atom_inv ?rt (\<lambda>j. remove1 x (C j)) (x # F) \<and> key_at ?rt = (key_at rt)(x := None)"
    by (intro released_inv [OF inv x 1(2-5)]) (simp_all add: js_free_rt_def)
  moreover have arr: "atom_array ?rt = (atom_array rt)[x := Free_entry (atom_free_index rt)]"
      "atom_count ?rt = atom_count rt - 1" "atom_free_index ?rt = x"
    by (simp_all add: js_free_rt_def)
  moreover have "count_ok ?rt"
    using count unfolding count_ok_def arr filter_update [OF xin(1)] xin(2) by simp
  moreover have "kept_except {p} rt ?rt"
    using relinked_keeps [OF 1(2)] by (auto simp: kept_except_def get)
  moreover have "get_str ?rt p = None"
    by (simp add: get)
  ultimately show ?thesis
    using run unfolding atoms_ok_def table_ok_def by blast
qed

text \<open>C10: \<open>JS_FreeAtom\<close> on a number that is not predefined drops one reference. While others are left,
  the reference count of its string is one less and no other atom changes; with the last one the atom is
  taken out of its hash chain, its string is released and its number is the next one that is free. Every
  other number keeps its meaning, every other string its contents and its reference count, and the
  invariant of the table, with the count of its atoms, is kept.\<close>

theorem JS_FreeAtom_releases:
  assumes "atoms_ok rt" and "atom_at rt (unat v) = Some (p, s)" and "\<not> JS_AtomIsConst v"
  shows "\<exists>rt'. JS_FreeAtom rt v = Some rt' \<and> atoms_ok rt' \<and> kept_except {p} rt rt' \<and>
    (if str_ref_count s > 1
     then atom_at rt' = (atom_at rt)(unat v \<mapsto> (p, s\<lparr>str_ref_count := str_ref_count s - 1\<rparr>)) \<and>
       key_at rt' = key_at rt
     else get_str rt' p = None \<and> atom_free_index rt' = unat v \<and> key_at rt' = (key_at rt)(unat v := None))"
proof -
  obtain C F where inv: "atom_inv rt C F"
    using assms(1) by (auto simp: atoms_ok_def table_ok_def)
  let ?s = "s\<lparr>str_ref_count := str_ref_count s - 1\<rparr>" and ?rt = "set_str p (s\<lparr>str_ref_count := str_ref_count s - 1\<rparr>) rt"
  have 1: "atom_inv ?rt C F" "key_at ?rt = key_at rt"
    using count_inv [OF inv assms(2) refl] by simp_all
  have at: "atom_at ?rt = (atom_at rt)(unat v \<mapsto> (p, ?s))"
    using atom_at_set_other [OF atom_invD(1) [OF inv] assms(2)] by auto
  have cnt: "count_ok ?rt"
    using assms(1) by (simp add: atoms_ok_def count_ok_def set_str_def)
  have get: "get_str ?rt q = (if q = p then Some ?s else get_str rt q)" for q
    by (rule get_set_str [OF atom_at_get [OF assms(2)]])
  have kept: "kept_except {p} rt ?rt"
    unfolding kept_except_def by (auto simp: get same_link)
  have "unat v \<noteq> 0"
    using assms(3) by (auto simp: JS_AtomIsConst_def JS_ATOM_END_def unat_eq_zero)
  then obtain rt' where 2: "JS_FreeAtomStruct ?rt p = Some rt'" "atoms_ok rt'"
      "key_at rt' = (key_at ?rt)(unat v := None)" "get_str rt' p = None" "atom_free_index rt' = unat v"
      "kept_except {p} ?rt rt'"
    using JS_FreeAtomStruct_ok [OF 1(1) _ _ cnt, of "unat v" p ?s] at by auto
  have "kept_except {p} rt rt'"
    using 2(6) get unfolding kept_except_def by auto
  moreover have "JS_FreeAtom rt v = (if str_ref_count s - 1 > 0 then Some ?rt else JS_FreeAtomStruct ?rt p)"
    using assms(2,3) atom_at_get [OF assms(2)] by (simp add: JS_FreeAtom_def add_ref_def)
  moreover have "atoms_ok ?rt"
    using 1(1) cnt by (auto simp: atoms_ok_def table_ok_def)
  ultimately show ?thesis
    using 1(2) 2 at kept by auto
qed

text \<open>A table with \<open>n\<close> symbols and a string behind them.\<close>

definition symbol_string :: "nat \<Rightarrow> JSString" where
  "symbol_string i = \<lparr>str_ref_count = 1, is_wide_char = True, str_units = [], str_hash = 0, atom_type = 3, hash_next = i\<rparr>"

definition name_string :: JSString where
  "name_string = \<lparr>str_ref_count = 1, is_wide_char = False, str_units = [0x61], str_hash = key_hash (1, [0x61]),
     atom_type = 1, hash_next = 0\<rparr>"

definition release_table :: "nat \<Rightarrow> JSAtoms" where
  "release_table n = \<lparr>str_heap = map (\<lambda>i. Some (symbol_string i)) [0..<n] @ [Some name_string],
     atom_array = map Atom_entry [0..<n + 1], atom_hash = [n], atom_count = int n + 1, atom_count_resize = 2,
     atom_free_index = 0, alloc_next = []\<rparr>"

lemma release_table_at:
  "rd (atom_array (release_table n)) i = (if i \<le> n then Some (Atom_entry i) else None)"
  "get_str (release_table n) p = (if p < n then Some (symbol_string p) else if p = n then Some name_string else None)"
  "atom_at (release_table n) i = (if i < n then Some (i, symbol_string i) else if i = n then Some (n, name_string) else None)"
proof -
  show 1: "rd (atom_array (release_table n)) i = (if i \<le> n then Some (Atom_entry i) else None)" for i
    unfolding rd_def by (simp add: release_table_def del: upt_Suc)
  show 2: "get_str (release_table n) p = (if p < n then Some (symbol_string p) else if p = n then Some name_string else None)" for p
    by (auto simp: get_str_def release_table_def rd_def nth_append)
  show "atom_at (release_table n) i = (if i < n then Some (i, symbol_string i) else if i = n then Some (n, name_string) else None)"
    by (auto simp: atom_at_def 1 2)
qed

lemma release_table_ok:
  assumes "0 < n"
  shows "atoms_ok (release_table n)"
proof -
  have h: "\<not> hashed (symbol_string i)" "hashed name_string" "atom_type (symbol_string i) = 3"
      "hash_next (symbol_string i) = i" "hash_next name_string = 0" for i
    by (simp_all add: hashed_def symbol_string_def name_string_def hash_string_def)
  have f: "atom_hash (release_table n) = [n]" "atom_free_index (release_table n) = 0"
    by (simp_all add: release_table_def)
  have b: "bucket 1 v = 0" for v
    using bucket_less [of 1 v] by simp
  have "atom_inv (release_table n) (\<lambda>_. [n]) []"
    by (rule atom_invI)
      (use assms b in \<open>auto simp: f h release_table_at inj_atoms_def chains_def string_of_def key_at_def
          intro: exI [of _ 0] split: if_splits\<close>)
  moreover have "filter is_atom_entry (atom_array (release_table n)) = atom_array (release_table n)"
    unfolding release_table_def by (auto simp: filter_id_conv)
  then have "count_ok (release_table n)"
    unfolding count_ok_def by (simp add: release_table_def)
  ultimately show ?thesis
    by (auto simp: atoms_ok_def table_ok_def)
qed

text \<open>A table in which the name has two references.\<close>

definition shared_table :: JSAtoms where
  "shared_table = set_str 225 (name_string\<lparr>str_ref_count := 2\<rparr>) (release_table 225)"

lemma shared_table_ok: "atoms_ok shared_table" "atom_at shared_table 225 = Some (225, name_string\<lparr>str_ref_count := 2\<rparr>)"
proof -
  obtain C F where inv: "atom_inv (release_table 225) C F"
    using release_table_ok [of 225] by (auto simp: atoms_ok_def table_ok_def)
  have at: "atom_at (release_table 225) 225 = Some (225, name_string)"
    by (simp add: release_table_at)
  have "count_ok shared_table"
    using release_table_ok [of 225] by (simp add: atoms_ok_def count_ok_def shared_table_def set_str_def)
  then show "atoms_ok shared_table"
    using count_inv(1) [OF inv at refl, of 2] by (auto simp: atoms_ok_def table_ok_def shared_table_def)
  show "atom_at shared_table 225 = Some (225, name_string\<lparr>str_ref_count := 2\<rparr>)"
    using atom_at_set_other [OF atom_invD(1) [OF inv] at] by (simp add: shared_table_def)
qed

theorem JS_FreeAtom_releases_witness:
  "(\<exists>rt'. JS_FreeAtom (release_table 225) 225 = Some rt' \<and> atoms_ok rt' \<and> get_str rt' 225 = None \<and>
     atom_free_index rt' = 225 \<and> key_at rt' = (key_at (release_table 225))(225 := None)) \<and>
   (\<exists>rt'. JS_FreeAtom shared_table 225 = Some rt' \<and> atoms_ok rt' \<and>
     atom_at rt' 225 = Some (225, name_string\<lparr>str_ref_count := 1\<rparr>) \<and> key_at rt' = key_at shared_table)"
proof -
  have "atom_at (release_table 225) (unat (225 :: u32)) = Some (225, name_string)"
    using release_table_at(3) [of 225 225] by simp
  moreover have "atom_at shared_table (unat (225 :: u32)) = Some (225, name_string\<lparr>str_ref_count := 2\<rparr>)"
    using shared_table_ok(2) by simp
  moreover have "\<not> JS_AtomIsConst 225" "str_ref_count name_string = 1"
    by (simp_all add: JS_AtomIsConst_def JS_ATOM_END_def name_string_def)
  ultimately show ?thesis
    using JS_FreeAtom_releases [OF release_table_ok [of 225], of 225 225 name_string]
      JS_FreeAtom_releases [OF shared_table_ok(1), of 225 225] by auto
qed

end
