(* ===== verification/AtomNumbers.thy ===== *)
theory AtomNumbers
  imports Atoms
begin

text \<open>
  Numbers as atoms: the strings that \<open>JS_NewAtomStr\<close> turns into tagged integers instead of entries of
  the table.
\<close>

definition digit :: "u16 \<Rightarrow> nat" where
  "digit c = unat c - 48"

definition number :: "nat \<Rightarrow> u16 list \<Rightarrow> nat" where
  "number a cs = foldl (\<lambda>a c. a * 10 + digit c) a cs"

text \<open>A decimal number without leading zeros.\<close>

definition decimal :: "u16 list \<Rightarrow> bool" where
  "decimal cs \<longleftrightarrow> cs \<noteq> [] \<and> (\<forall>c \<in> set cs. is_num c) \<and> (hd cs = 0x30 \<longrightarrow> length cs = 1)"

lemma number_simps: "number a [] = a" "number a (c # cs) = number (a * 10 + digit c) cs"
  by (simp_all add: number_def)

lemma number_ge: "a * 10 ^ length cs \<le> number a cs"
proof (induction cs arbitrary: a)
  case (Cons c cs)
  have "a * 10 ^ length (c # cs) \<le> (a * 10 + digit c) * 10 ^ length cs"
    by (simp add: algebra_simps)
  also have "\<dots> \<le> number a (c # cs)"
    using Cons.IH [of "a * 10 + digit c"] by (simp add: number_simps)
  finally show ?case .
qed (simp add: number_simps)

lemma word_less: "unat (n :: u32) < 4294967296" "unat (c :: u16) < 65536" "unat (m :: u64) < 18446744073709551616"
  using unsigned_less [of n, where ?'a = nat] unsigned_less [of c, where ?'a = nat] unsigned_less [of m, where ?'a = nat]
  by simp_all

lemma unat_widen:
  "unat (ucast (n :: u32) :: u64) = unat n" "unat (ucast (c :: u16) :: u64) = unat c" "unat (ucast c :: u32) = unat c"
  using word_less(1) [of n] word_less(2) [of c]
  by (simp_all add: unsigned_ucast_eq take_bit_nat_eq_self)

lemma unat_narrow: "unat (m :: u64) < 2 ^ 32 \<Longrightarrow> unat (ucast m :: u32) = unat m"
  by (simp add: unsigned_ucast_eq take_bit_nat_eq_self)

lemma is_num_digit: "is_num c \<Longrightarrow> digit c \<le> 9 \<and> unat (c - 0x30) = digit c"
  by (auto simp: is_num_def digit_def word_le_nat_alt unat_sub)

lemma num_step:
  fixes n :: u32
  assumes "is_num c"
  defines "n64 \<equiv> ucast n * 10 + ucast (c - 0x30) :: u64"
  shows "unat n64 = unat n * 10 + digit c" and "drop_bit 32 n64 \<noteq> 0 \<longleftrightarrow> 2 ^ 32 \<le> unat n64"
proof -
  have "unat (ucast n :: u64) = unat n" "unat (ucast (c - 0x30) :: u64) = digit c" "digit c \<le> 9"
    using is_num_digit [OF assms(1)] by (simp_all add: unat_widen)
  then show "unat n64 = unat n * 10 + digit c"
    using word_less(1) [of n] unfolding n64_def by (simp add: unat_word_ariths)
  have "drop_bit 32 n64 = 0 \<longleftrightarrow> unat n64 div 2 ^ 32 = 0"
    by (simp add: drop_bit_eq_div unat_div_distrib flip: unat_eq_zero)
  then show "drop_bit 32 n64 \<noteq> 0 \<longleftrightarrow> 2 ^ 32 \<le> unat n64"
    by auto
qed

lemma num_loop_iff: "num_loop n cs = Some m \<longleftrightarrow> (\<forall>c \<in> set cs. is_num c) \<and> number (unat n) cs = unat m"
proof (induction n cs rule: num_loop.induct)
  case (1 n)
  then show ?case
    by (auto simp: number_simps dest: unsigned_word_eqI)
next
  case (2 n c cs)
  show ?case
  proof (cases "is_num c")
    case True
    let ?n = "ucast n * 10 + ucast (c - 0x30) :: u64"
    note step = num_step [OF True, of n]
    show ?thesis
    proof (cases "drop_bit 32 ?n \<noteq> 0")
      case big: True
      have "2 ^ 32 \<le> unat ?n"
        using big step(2) by blast
      also have "\<dots> \<le> unat ?n * 10 ^ length cs"
        by simp
      also have "\<dots> \<le> number (unat n) (c # cs)"
        using number_ge [of "unat ?n" cs] step(1) by (simp add: number_simps)
      finally have "2 ^ 32 \<le> number (unat n) (c # cs)" .
      moreover have "unat m < 2 ^ 32"
        using word_less(1) [of m] by simp
      ultimately show ?thesis
        using True big by auto
    next
      case False
      then have "unat ?n < 2 ^ 32"
        using step(2) by linarith
      then have "unat (ucast ?n :: u32) = unat n * 10 + digit c"
        unfolding step(1) [symmetric] by (rule unat_narrow)
      then show ?thesis
        using 2(1) [OF _ refl False] True False by (simp add: number_simps Let_def)
    qed
  qed simp
qed

text \<open>C11: \<open>is_num_string\<close> accepts exactly the decimal numbers without leading zeros that are
  below 2^32, and reads their value: neither the limit of ten characters nor the test on the upper half of
  the 64-bit intermediate value rejects or truncates one.\<close>

theorem is_num_string_exact:
  "is_num_string s = Some n \<longleftrightarrow> decimal (str_units s) \<and> number 0 (str_units s) = unat n"
proof (cases "str_units s")
  case Nil
  then show ?thesis
    by (simp add: is_num_string_def decimal_def)
next
  case (Cons c cs)
  show ?thesis
  proof (cases "is_num c \<and> c \<noteq> 0x30")
    case True
    then have "unat c \<noteq> unat (0x30 :: u16)"
      using unsigned_word_eqI by blast
    with True have pos: "1 \<le> digit c" "unat (ucast (c - 0x30) :: u32) = digit c"
      using is_num_digit [of c] by (auto simp: unat_widen is_num_def digit_def word_le_nat_alt)
    have "length cs \<le> 9" if "number 0 (str_units s) = unat n"
    proof (rule ccontr)
      assume "\<not> length cs \<le> 9"
      then have "(10 :: nat) ^ 10 \<le> 10 ^ length cs"
        by (intro power_increasing) simp_all
      also have "\<dots> \<le> digit c * 10 ^ length cs"
        using pos(1) by simp
      also have "\<dots> \<le> unat n"
        using number_ge [of "digit c" cs] that Cons by (simp add: number_simps)
      finally show False
        using word_less(1) [of n] by simp
    qed
    then show ?thesis
      using True Cons pos(2) num_loop_iff [of "ucast (c - 0x30)" cs n]
      by (auto simp: is_num_string_def decimal_def number_simps)
  next
    case False
    then show ?thesis
      using Cons by (auto simp: is_num_string_def decimal_def number_simps digit_def is_num_def unat_eq_zero Let_def)
  qed
qed

end
