(* ===== verification/GCHeap.thy ===== *)
theory GCHeap
  imports QPrelude
begin

text \<open>
  The objects of the garbage-collected heap of \<^verbatim>\<open>quickjs.c\<close> and the functions that visit
  the references one of them holds: \<open>JS_MarkValue\<close>, the marking function of every class,
  \<open>JS_MarkContext\<close> and \<open>mark_children\<close>. A marking function is modelled by the list of the
  headers it passes to \<open>mark_func\<close>, in the order of the calls; \<open>None\<close> is a failed assertion,
  a dangling pointer, or a union read at another member than the one it holds. The main
  result is that on a well-typed heap every visited header is a collectable object.
\<close>

section \<open>Values\<close>

record js_value =
  js_tag :: u32
  js_ptr :: nat

definition JS_TAG_FIRST :: u32 where "JS_TAG_FIRST = - 11"
definition JS_TAG_FUNCTION_BYTECODE :: u32 where "JS_TAG_FUNCTION_BYTECODE = - 2"
definition JS_TAG_OBJECT :: u32 where "JS_TAG_OBJECT = - 1"

definition JS_VALUE_HAS_REF_COUNT :: "js_value \<Rightarrow> bool" where
  "JS_VALUE_HAS_REF_COUNT v \<longleftrightarrow> JS_TAG_FIRST \<le> js_tag v"

definition JS_MKPTR :: "u32 \<Rightarrow> nat \<Rightarrow> js_value" where
  "JS_MKPTR tag p = \<lparr>js_tag = tag, js_ptr = p\<rparr>"

definition JS_MarkValue :: "js_value \<Rightarrow> nat list" where
  "JS_MarkValue v =
     (if JS_VALUE_HAS_REF_COUNT v
      then if js_tag v = JS_TAG_OBJECT \<or> js_tag v = JS_TAG_FUNCTION_BYTECODE then [js_ptr v] else []
      else [])"

definition mark_values :: "js_value list \<Rightarrow> nat list" where
  "mark_values vs = concat (map JS_MarkValue vs)"

definition mark_ptr :: "nat option \<Rightarrow> nat list" where
  "mark_ptr p = (case p of None \<Rightarrow> [] | Some a \<Rightarrow> [a])"

section \<open>Objects\<close>

record async_state =
  cur_func :: js_value
  this_val :: js_value
  live_stack :: "js_value list option" \<comment> \<open>\<open>arg_buf\<close> up to \<open>cur_sp\<close>; \<open>None\<close> while running\<close>

datatype js_generator_state =
    JS_GENERATOR_STATE_SUSPENDED_START | JS_GENERATOR_STATE_SUSPENDED_YIELD
  | JS_GENERATOR_STATE_SUSPENDED_YIELD_STAR | JS_GENERATOR_STATE_EXECUTING
  | JS_GENERATOR_STATE_COMPLETED

datatype js_async_generator_state =
    JS_ASYNC_GENERATOR_STATE_SUSPENDED_START | JS_ASYNC_GENERATOR_STATE_SUSPENDED_YIELD
  | JS_ASYNC_GENERATOR_STATE_SUSPENDED_YIELD_STAR | JS_ASYNC_GENERATOR_STATE_EXECUTING
  | JS_ASYNC_GENERATOR_STATE_AWAITING_RETURN | JS_ASYNC_GENERATOR_STATE_COMPLETED

record async_request =
  req_result :: js_value
  req_promise :: js_value
  req_resolve :: js_value
  req_reject :: js_value

record promise_reaction =
  rd_resolve :: js_value
  rd_reject :: js_value
  rd_handler :: js_value

text \<open>The member of the union \<open>u\<close> of a \<open>JSObject\<close>, with the structure it points to.\<close>

datatype js_payload =
    U_none
  | U_array "js_value list"
  | U_object_data js_value
  | U_cfunc "nat option"
  | U_func "nat option" "nat option list option" "nat option"
  | U_bound_function js_value js_value "js_value list"
  | U_c_function_data "js_value list option"
  | U_for_in_iterator js_value
  | U_typed_array "nat option"
  | U_operator_set "(nat option list \<times> nat option list list \<times> nat option list list) option"
  | U_map_state "(bool \<times> (js_value \<times> js_value) list) option"
  | U_map_iterator "js_value option"
  | U_array_iterator "js_value option"
  | U_regexp_string_iterator "(js_value \<times> js_value) option"
  | U_generator "(js_generator_state \<times> async_state) option"
  | U_proxy "(js_value \<times> js_value) option"
  | U_promise "(promise_reaction list \<times> promise_reaction list \<times> js_value) option"
  | U_promise_function "js_value option"
  | U_async_function "nat option"
  | U_async_from_sync_iterator "(js_value \<times> js_value) option"
  | U_async_generator "(async_request list \<times> js_async_generator_state \<times> async_state) option"

datatype (plugins only: code size) js_class =
    JS_CLASS_OBJECT | JS_CLASS_ARRAY | JS_CLASS_ERROR | JS_CLASS_NUMBER | JS_CLASS_STRING
  | JS_CLASS_BOOLEAN | JS_CLASS_SYMBOL | JS_CLASS_ARGUMENTS | JS_CLASS_MAPPED_ARGUMENTS
  | JS_CLASS_DATE | JS_CLASS_MODULE_NS | JS_CLASS_C_FUNCTION | JS_CLASS_BYTECODE_FUNCTION
  | JS_CLASS_BOUND_FUNCTION | JS_CLASS_C_FUNCTION_DATA | JS_CLASS_GENERATOR_FUNCTION
  | JS_CLASS_FOR_IN_ITERATOR | JS_CLASS_REGEXP | JS_CLASS_ARRAY_BUFFER
  | JS_CLASS_SHARED_ARRAY_BUFFER | JS_CLASS_UINT8C_ARRAY | JS_CLASS_INT8_ARRAY
  | JS_CLASS_UINT8_ARRAY | JS_CLASS_INT16_ARRAY | JS_CLASS_UINT16_ARRAY | JS_CLASS_INT32_ARRAY
  | JS_CLASS_UINT32_ARRAY | JS_CLASS_BIG_INT64_ARRAY | JS_CLASS_BIG_UINT64_ARRAY
  | JS_CLASS_FLOAT32_ARRAY | JS_CLASS_FLOAT64_ARRAY | JS_CLASS_DATAVIEW | JS_CLASS_BIG_INT
  | JS_CLASS_BIG_FLOAT | JS_CLASS_FLOAT_ENV | JS_CLASS_BIG_DECIMAL | JS_CLASS_OPERATOR_SET
  | JS_CLASS_MAP | JS_CLASS_SET | JS_CLASS_WEAKMAP | JS_CLASS_WEAKSET | JS_CLASS_MAP_ITERATOR
  | JS_CLASS_SET_ITERATOR | JS_CLASS_ARRAY_ITERATOR | JS_CLASS_STRING_ITERATOR
  | JS_CLASS_REGEXP_STRING_ITERATOR | JS_CLASS_GENERATOR | JS_CLASS_PROXY | JS_CLASS_PROMISE
  | JS_CLASS_PROMISE_RESOLVE_FUNCTION | JS_CLASS_PROMISE_REJECT_FUNCTION
  | JS_CLASS_ASYNC_FUNCTION | JS_CLASS_ASYNC_FUNCTION_RESOLVE | JS_CLASS_ASYNC_FUNCTION_REJECT
  | JS_CLASS_ASYNC_FROM_SYNC_ITERATOR | JS_CLASS_ASYNC_GENERATOR_FUNCTION
  | JS_CLASS_ASYNC_GENERATOR

datatype js_property =
    P_value js_value
  | P_getset "nat option" "nat option"
  | P_var_ref nat
  | P_autoinit nat

record shape_property =
  sp_flags :: u32
  sp_atom :: u32

record module_export =
  is_local :: bool
  export_var_ref :: "nat option"

record js_module =
  export_entries :: "module_export list"
  module_ns :: js_value
  func_obj :: js_value
  eval_exception :: js_value
  meta_obj :: js_value

record js_context =
  loaded_modules :: "js_module list"
  global_obj :: js_value
  global_var_obj :: js_value
  throw_type_error :: js_value
  eval_obj :: js_value
  array_proto_values :: js_value
  native_error_proto :: "js_value list"
  class_proto :: "js_value list"
  iterator_proto :: js_value
  async_iterator_proto :: js_value
  promise_ctor :: js_value
  array_ctor :: js_value
  regexp_ctor :: js_value
  function_ctor :: js_value
  function_proto :: js_value
  array_shape :: "nat option"

datatype gc_object =
    GC_JS_OBJECT js_class nat "js_property list" js_payload
      \<comment> \<open>\<open>class_id\<close>, \<open>shape\<close>, \<open>prop\<close>, \<open>u\<close>\<close>
  | GC_FUNCTION_BYTECODE "js_value list" "nat option" nat
      \<comment> \<open>\<open>cpool\<close>, \<open>realm\<close>, \<open>closure_var_count\<close>\<close>
  | GC_SHAPE "nat option" "shape_property list" \<comment> \<open>\<open>proto\<close>, the \<open>prop_count\<close> first of \<open>prop\<close>\<close>
  | GC_VAR_REF bool js_value \<comment> \<open>\<open>is_detached\<close>, \<open>*pvalue\<close>\<close>
  | GC_ASYNC_FUNCTION bool async_state js_value js_value
      \<comment> \<open>\<open>is_active\<close>, \<open>func_state\<close>, \<open>resolving_funcs\<close>\<close>
  | GC_JS_CONTEXT js_context

type_synonym gc_heap = "nat \<Rightarrow> gc_object option"

section \<open>The marking functions\<close>

definition js_array_mark :: "js_payload \<Rightarrow> nat list option" where
  "js_array_mark u = (case u of U_array values \<Rightarrow> Some (mark_values values) | _ \<Rightarrow> None)"

definition js_object_data_mark :: "js_payload \<Rightarrow> nat list option" where
  "js_object_data_mark u = (case u of U_object_data v \<Rightarrow> Some (JS_MarkValue v) | _ \<Rightarrow> None)"

definition js_c_function_mark :: "js_payload \<Rightarrow> nat list option" where
  "js_c_function_mark u = (case u of U_cfunc realm \<Rightarrow> Some (mark_ptr realm) | _ \<Rightarrow> None)"

definition var_ref_is_detached :: "gc_heap \<Rightarrow> nat \<Rightarrow> bool option" where
  "var_ref_is_detached h a = (case h a of Some (GC_VAR_REF d _) \<Rightarrow> Some d | _ \<Rightarrow> None)"

definition mark_detached :: "gc_heap \<Rightarrow> nat \<Rightarrow> nat list option" where
  "mark_detached h a = do { d \<leftarrow> var_ref_is_detached h a; Some (if d then [a] else []) }"

fun mark_var_refs :: "gc_heap \<Rightarrow> nat \<Rightarrow> nat option list \<Rightarrow> nat list option" where
  "mark_var_refs h 0 var_refs = Some []"
| "mark_var_refs h (Suc n) [] = None"
| "mark_var_refs h (Suc n) (None # var_refs) = mark_var_refs h n var_refs"
| "mark_var_refs h (Suc n) (Some a # var_refs) =
     do { c \<leftarrow> mark_detached h a; cs \<leftarrow> mark_var_refs h n var_refs; Some (c @ cs) }"

definition js_bytecode_function_mark :: "gc_heap \<Rightarrow> js_payload \<Rightarrow> nat list option" where
  "js_bytecode_function_mark h u =
     (case u of
        U_func home_object var_refs function_bytecode \<Rightarrow>
          (let home = (case home_object of None \<Rightarrow> []
                       | Some o1 \<Rightarrow> JS_MarkValue (JS_MKPTR JS_TAG_OBJECT o1))
           in case function_bytecode of None \<Rightarrow> Some home
              | Some b \<Rightarrow> do {
                  refs \<leftarrow> (case var_refs of None \<Rightarrow> Some []
                          | Some rs \<Rightarrow> (case h b of
                              Some (GC_FUNCTION_BYTECODE _ _ n) \<Rightarrow> mark_var_refs h n rs
                            | _ \<Rightarrow> None));
                  Some (home @ refs @ JS_MarkValue (JS_MKPTR JS_TAG_FUNCTION_BYTECODE b)) })
      | _ \<Rightarrow> None)"

definition js_bound_function_mark :: "js_payload \<Rightarrow> nat list option" where
  "js_bound_function_mark u =
     (case u of U_bound_function f t argv \<Rightarrow>
        Some (JS_MarkValue f @ JS_MarkValue t @ mark_values argv) | _ \<Rightarrow> None)"

definition js_c_function_data_mark :: "js_payload \<Rightarrow> nat list option" where
  "js_c_function_data_mark u =
     (case u of U_c_function_data s \<Rightarrow>
        Some (case s of None \<Rightarrow> [] | Some data \<Rightarrow> mark_values data) | _ \<Rightarrow> None)"

definition js_for_in_iterator_mark :: "js_payload \<Rightarrow> nat list option" where
  "js_for_in_iterator_mark u =
     (case u of U_for_in_iterator v \<Rightarrow> Some (JS_MarkValue v) | _ \<Rightarrow> None)"

definition js_typed_array_mark :: "js_payload \<Rightarrow> nat list option" where
  "js_typed_array_mark u =
     (case u of U_typed_array ta \<Rightarrow>
        Some (case ta of None \<Rightarrow> []
              | Some buffer \<Rightarrow> JS_MarkValue (JS_MKPTR JS_TAG_OBJECT buffer)) | _ \<Rightarrow> None)"

definition mark_operators :: "nat option list \<Rightarrow> nat list" where
  "mark_operators ops =
     concat (map (\<lambda>p. case p of None \<Rightarrow> []
                      | Some a \<Rightarrow> JS_MarkValue (JS_MKPTR JS_TAG_OBJECT a)) ops)"

definition js_operator_set_mark :: "js_payload \<Rightarrow> nat list option" where
  "js_operator_set_mark u =
     (case u of U_operator_set s \<Rightarrow>
        Some (case s of None \<Rightarrow> []
              | Some (self_ops, left, right) \<Rightarrow>
                  mark_operators self_ops @ concat (map mark_operators left) @
                  concat (map mark_operators right)) | _ \<Rightarrow> None)"

definition js_map_mark :: "js_payload \<Rightarrow> nat list option" where
  "js_map_mark u =
     (case u of U_map_state s \<Rightarrow>
        Some (case s of None \<Rightarrow> []
              | Some (is_weak, records) \<Rightarrow>
                  concat (map (\<lambda>(key, value). (if is_weak then [] else JS_MarkValue key) @
                                  JS_MarkValue value) records)) | _ \<Rightarrow> None)"

definition js_map_iterator_mark :: "js_payload \<Rightarrow> nat list option" where
  "js_map_iterator_mark u =
     (case u of U_map_iterator it \<Rightarrow>
        Some (case it of None \<Rightarrow> [] | Some v \<Rightarrow> JS_MarkValue v) | _ \<Rightarrow> None)"

definition js_array_iterator_mark :: "js_payload \<Rightarrow> nat list option" where
  "js_array_iterator_mark u =
     (case u of U_array_iterator it \<Rightarrow>
        Some (case it of None \<Rightarrow> [] | Some v \<Rightarrow> JS_MarkValue v) | _ \<Rightarrow> None)"

definition js_regexp_string_iterator_mark :: "js_payload \<Rightarrow> nat list option" where
  "js_regexp_string_iterator_mark u =
     (case u of U_regexp_string_iterator it \<Rightarrow>
        Some (case it of None \<Rightarrow> [] | Some (re, str) \<Rightarrow> JS_MarkValue re @ JS_MarkValue str)
      | _ \<Rightarrow> None)"

definition async_func_mark :: "async_state \<Rightarrow> nat list" where
  "async_func_mark s =
     JS_MarkValue (cur_func s) @ JS_MarkValue (this_val s) @
     (case live_stack s of None \<Rightarrow> [] | Some vs \<Rightarrow> mark_values vs)"

definition js_generator_mark :: "js_payload \<Rightarrow> nat list option" where
  "js_generator_mark u =
     (case u of U_generator s \<Rightarrow>
        Some (case s of None \<Rightarrow> []
              | Some (state, f) \<Rightarrow>
                  if state = JS_GENERATOR_STATE_COMPLETED then [] else async_func_mark f)
      | _ \<Rightarrow> None)"

definition js_async_generator_mark :: "js_payload \<Rightarrow> nat list option" where
  "js_async_generator_mark u =
     (case u of U_async_generator s \<Rightarrow>
        Some (case s of None \<Rightarrow> []
              | Some (queue, state, f) \<Rightarrow>
                  concat (map (\<lambda>req. JS_MarkValue (req_result req) @ JS_MarkValue (req_promise req) @
                      JS_MarkValue (req_resolve req) @ JS_MarkValue (req_reject req)) queue) @
                  (if state \<noteq> JS_ASYNC_GENERATOR_STATE_COMPLETED \<and>
                      state \<noteq> JS_ASYNC_GENERATOR_STATE_AWAITING_RETURN
                   then async_func_mark f else []))
      | _ \<Rightarrow> None)"

definition js_async_function_resolve_mark :: "js_payload \<Rightarrow> nat list option" where
  "js_async_function_resolve_mark u =
     (case u of U_async_function s \<Rightarrow> Some (mark_ptr s) | _ \<Rightarrow> None)"

definition js_async_from_sync_iterator_mark :: "js_payload \<Rightarrow> nat list option" where
  "js_async_from_sync_iterator_mark u =
     (case u of U_async_from_sync_iterator s \<Rightarrow>
        Some (case s of None \<Rightarrow> [] | Some (it, next) \<Rightarrow> JS_MarkValue it @ JS_MarkValue next)
      | _ \<Rightarrow> None)"

definition js_proxy_mark :: "js_payload \<Rightarrow> nat list option" where
  "js_proxy_mark u =
     (case u of U_proxy s \<Rightarrow>
        Some (case s of None \<Rightarrow> [] | Some (target, handler) \<Rightarrow>
                JS_MarkValue target @ JS_MarkValue handler)
      | _ \<Rightarrow> None)"

definition js_promise_resolve_function_mark :: "js_payload \<Rightarrow> nat list option" where
  "js_promise_resolve_function_mark u =
     (case u of U_promise_function s \<Rightarrow>
        Some (case s of None \<Rightarrow> [] | Some promise \<Rightarrow> JS_MarkValue promise) | _ \<Rightarrow> None)"

definition mark_reactions :: "promise_reaction list \<Rightarrow> nat list" where
  "mark_reactions rds =
     concat (map (\<lambda>react. JS_MarkValue (rd_resolve react) @ JS_MarkValue (rd_reject react) @
                      JS_MarkValue (rd_handler react)) rds)"

definition js_promise_mark :: "js_payload \<Rightarrow> nat list option" where
  "js_promise_mark u =
     (case u of U_promise s \<Rightarrow>
        Some (case s of None \<Rightarrow> []
              | Some (r0, r1, res) \<Rightarrow> mark_reactions r0 @ mark_reactions r1 @ JS_MarkValue res)
      | _ \<Rightarrow> None)"

text \<open>The column \<open>gc_mark\<close> of the class tables; the outer \<open>None\<close> is the null pointer.\<close>

fun class_gc_mark :: "js_class \<Rightarrow> (gc_heap \<Rightarrow> js_payload \<Rightarrow> nat list option) option" where
  "class_gc_mark JS_CLASS_OBJECT = None"
| "class_gc_mark JS_CLASS_ERROR = None"
| "class_gc_mark JS_CLASS_MAPPED_ARGUMENTS = None"
| "class_gc_mark JS_CLASS_MODULE_NS = None"
| "class_gc_mark JS_CLASS_REGEXP = None"
| "class_gc_mark JS_CLASS_ARRAY_BUFFER = None"
| "class_gc_mark JS_CLASS_SHARED_ARRAY_BUFFER = None"
| "class_gc_mark JS_CLASS_FLOAT_ENV = None"
| "class_gc_mark JS_CLASS_ARRAY = Some (\<lambda>h. js_array_mark)"
| "class_gc_mark JS_CLASS_ARGUMENTS = Some (\<lambda>h. js_array_mark)"
| "class_gc_mark JS_CLASS_C_FUNCTION = Some (\<lambda>h. js_c_function_mark)"
| "class_gc_mark JS_CLASS_BYTECODE_FUNCTION = Some js_bytecode_function_mark"
| "class_gc_mark JS_CLASS_GENERATOR_FUNCTION = Some js_bytecode_function_mark"
| "class_gc_mark JS_CLASS_ASYNC_FUNCTION = Some js_bytecode_function_mark"
| "class_gc_mark JS_CLASS_ASYNC_GENERATOR_FUNCTION = Some js_bytecode_function_mark"
| "class_gc_mark JS_CLASS_BOUND_FUNCTION = Some (\<lambda>h. js_bound_function_mark)"
| "class_gc_mark JS_CLASS_C_FUNCTION_DATA = Some (\<lambda>h. js_c_function_data_mark)"
| "class_gc_mark JS_CLASS_FOR_IN_ITERATOR = Some (\<lambda>h. js_for_in_iterator_mark)"
| "class_gc_mark JS_CLASS_OPERATOR_SET = Some (\<lambda>h. js_operator_set_mark)"
| "class_gc_mark JS_CLASS_MAP = Some (\<lambda>h. js_map_mark)"
| "class_gc_mark JS_CLASS_SET = Some (\<lambda>h. js_map_mark)"
| "class_gc_mark JS_CLASS_WEAKMAP = Some (\<lambda>h. js_map_mark)"
| "class_gc_mark JS_CLASS_WEAKSET = Some (\<lambda>h. js_map_mark)"
| "class_gc_mark JS_CLASS_MAP_ITERATOR = Some (\<lambda>h. js_map_iterator_mark)"
| "class_gc_mark JS_CLASS_SET_ITERATOR = Some (\<lambda>h. js_map_iterator_mark)"
| "class_gc_mark JS_CLASS_ARRAY_ITERATOR = Some (\<lambda>h. js_array_iterator_mark)"
| "class_gc_mark JS_CLASS_STRING_ITERATOR = Some (\<lambda>h. js_array_iterator_mark)"
| "class_gc_mark JS_CLASS_REGEXP_STRING_ITERATOR = Some (\<lambda>h. js_regexp_string_iterator_mark)"
| "class_gc_mark JS_CLASS_GENERATOR = Some (\<lambda>h. js_generator_mark)"
| "class_gc_mark JS_CLASS_PROXY = Some (\<lambda>h. js_proxy_mark)"
| "class_gc_mark JS_CLASS_PROMISE = Some (\<lambda>h. js_promise_mark)"
| "class_gc_mark JS_CLASS_PROMISE_RESOLVE_FUNCTION = Some (\<lambda>h. js_promise_resolve_function_mark)"
| "class_gc_mark JS_CLASS_PROMISE_REJECT_FUNCTION = Some (\<lambda>h. js_promise_resolve_function_mark)"
| "class_gc_mark JS_CLASS_ASYNC_FUNCTION_RESOLVE = Some (\<lambda>h. js_async_function_resolve_mark)"
| "class_gc_mark JS_CLASS_ASYNC_FUNCTION_REJECT = Some (\<lambda>h. js_async_function_resolve_mark)"
| "class_gc_mark JS_CLASS_ASYNC_FROM_SYNC_ITERATOR = Some (\<lambda>h. js_async_from_sync_iterator_mark)"
| "class_gc_mark JS_CLASS_ASYNC_GENERATOR = Some (\<lambda>h. js_async_generator_mark)"
| "class_gc_mark JS_CLASS_UINT8C_ARRAY = Some (\<lambda>h. js_typed_array_mark)"
| "class_gc_mark JS_CLASS_INT8_ARRAY = Some (\<lambda>h. js_typed_array_mark)"
| "class_gc_mark JS_CLASS_UINT8_ARRAY = Some (\<lambda>h. js_typed_array_mark)"
| "class_gc_mark JS_CLASS_INT16_ARRAY = Some (\<lambda>h. js_typed_array_mark)"
| "class_gc_mark JS_CLASS_UINT16_ARRAY = Some (\<lambda>h. js_typed_array_mark)"
| "class_gc_mark JS_CLASS_INT32_ARRAY = Some (\<lambda>h. js_typed_array_mark)"
| "class_gc_mark JS_CLASS_UINT32_ARRAY = Some (\<lambda>h. js_typed_array_mark)"
| "class_gc_mark JS_CLASS_BIG_INT64_ARRAY = Some (\<lambda>h. js_typed_array_mark)"
| "class_gc_mark JS_CLASS_BIG_UINT64_ARRAY = Some (\<lambda>h. js_typed_array_mark)"
| "class_gc_mark JS_CLASS_FLOAT32_ARRAY = Some (\<lambda>h. js_typed_array_mark)"
| "class_gc_mark JS_CLASS_FLOAT64_ARRAY = Some (\<lambda>h. js_typed_array_mark)"
| "class_gc_mark JS_CLASS_DATAVIEW = Some (\<lambda>h. js_typed_array_mark)"
| "class_gc_mark JS_CLASS_NUMBER = Some (\<lambda>h. js_object_data_mark)"
| "class_gc_mark JS_CLASS_STRING = Some (\<lambda>h. js_object_data_mark)"
| "class_gc_mark JS_CLASS_BOOLEAN = Some (\<lambda>h. js_object_data_mark)"
| "class_gc_mark JS_CLASS_SYMBOL = Some (\<lambda>h. js_object_data_mark)"
| "class_gc_mark JS_CLASS_DATE = Some (\<lambda>h. js_object_data_mark)"
| "class_gc_mark JS_CLASS_BIG_INT = Some (\<lambda>h. js_object_data_mark)"
| "class_gc_mark JS_CLASS_BIG_FLOAT = Some (\<lambda>h. js_object_data_mark)"
| "class_gc_mark JS_CLASS_BIG_DECIMAL = Some (\<lambda>h. js_object_data_mark)"

section \<open>The children of an object\<close>

definition JS_PROP_TMASK :: u32 where "JS_PROP_TMASK = 48"
definition JS_PROP_GETSET :: u32 where "JS_PROP_GETSET = 16"
definition JS_PROP_VARREF :: u32 where "JS_PROP_VARREF = 32"
definition JS_PROP_AUTOINIT :: u32 where "JS_PROP_AUTOINIT = 48"
definition JS_ATOM_NULL :: u32 where "JS_ATOM_NULL = 0"

definition js_autoinit_get_realm :: "js_property \<Rightarrow> nat option" where
  "js_autoinit_get_realm pr =
     (case pr of P_autoinit realm_and_id \<Rightarrow> Some (realm_and_id div 4 * 4) | _ \<Rightarrow> None)"

definition js_autoinit_mark :: "js_property \<Rightarrow> nat list option" where
  "js_autoinit_mark pr = do { realm \<leftarrow> js_autoinit_get_realm pr; Some [realm] }"

definition mark_property :: "gc_heap \<Rightarrow> shape_property \<Rightarrow> js_property \<Rightarrow> nat list option" where
  "mark_property h prs pr =
     (if sp_atom prs \<noteq> JS_ATOM_NULL
      then if (sp_flags prs AND JS_PROP_TMASK) \<noteq> 0
           then if (sp_flags prs AND JS_PROP_TMASK) = JS_PROP_GETSET
                then (case pr of P_getset getter setter \<Rightarrow> Some (mark_ptr getter @ mark_ptr setter)
                      | _ \<Rightarrow> None)
                else if (sp_flags prs AND JS_PROP_TMASK) = JS_PROP_VARREF
                then (case pr of P_var_ref var_ref \<Rightarrow> mark_detached h var_ref | _ \<Rightarrow> None)
                else if (sp_flags prs AND JS_PROP_TMASK) = JS_PROP_AUTOINIT
                then js_autoinit_mark pr
                else Some []
           else (case pr of P_value v \<Rightarrow> Some (JS_MarkValue v) | _ \<Rightarrow> None)
      else Some [])"

fun mark_properties :: "gc_heap \<Rightarrow> shape_property list \<Rightarrow> js_property list \<Rightarrow> nat list option" where
  "mark_properties h [] prs = Some []"
| "mark_properties h (sp # sps) [] = None"
| "mark_properties h (sp # sps) (pr # prs) =
     do { c \<leftarrow> mark_property h sp pr; cs \<leftarrow> mark_properties h sps prs; Some (c @ cs) }"

definition js_mark_module_def :: "js_module \<Rightarrow> nat list" where
  "js_mark_module_def m =
     concat (map (\<lambda>me. if is_local me then mark_ptr (export_var_ref me) else []) (export_entries m)) @
     JS_MarkValue (module_ns m) @ JS_MarkValue (func_obj m) @ JS_MarkValue (eval_exception m) @
     JS_MarkValue (meta_obj m)"

definition JS_MarkContext :: "js_context \<Rightarrow> nat list" where
  "JS_MarkContext ctx =
     concat (map js_mark_module_def (loaded_modules ctx)) @
     JS_MarkValue (global_obj ctx) @ JS_MarkValue (global_var_obj ctx) @
     JS_MarkValue (throw_type_error ctx) @ JS_MarkValue (eval_obj ctx) @
     JS_MarkValue (array_proto_values ctx) @
     mark_values (native_error_proto ctx) @ mark_values (class_proto ctx) @
     JS_MarkValue (iterator_proto ctx) @ JS_MarkValue (async_iterator_proto ctx) @
     JS_MarkValue (promise_ctor ctx) @ JS_MarkValue (array_ctor ctx) @
     JS_MarkValue (regexp_ctor ctx) @ JS_MarkValue (function_ctor ctx) @
     JS_MarkValue (function_proto ctx) @ mark_ptr (array_shape ctx)"

definition object_children :: "gc_heap \<Rightarrow> js_class \<Rightarrow> nat \<Rightarrow> js_property list \<Rightarrow> js_payload \<Rightarrow> nat list option" where
  "object_children h class_id sh prop u =
     (case h sh of
        Some (GC_SHAPE _ shape_props) \<Rightarrow> do {
          fields \<leftarrow> mark_properties h shape_props prop;
          class_refs \<leftarrow> (if class_id \<noteq> JS_CLASS_OBJECT
                        then case class_gc_mark class_id of None \<Rightarrow> Some [] | Some f \<Rightarrow> f h u
                        else Some []);
          Some (sh # fields @ class_refs) }
      | _ \<Rightarrow> None)"

definition children :: "gc_heap \<Rightarrow> nat \<Rightarrow> nat list option" where
  "children h gp =
     (case h gp of
        None \<Rightarrow> None
      | Some (GC_JS_OBJECT class_id sh prop u) \<Rightarrow> object_children h class_id sh prop u
      | Some (GC_FUNCTION_BYTECODE cp r _) \<Rightarrow> Some (mark_values cp @ mark_ptr r)
      | Some (GC_VAR_REF detached v) \<Rightarrow> if detached then Some (JS_MarkValue v) else None
      | Some (GC_ASYNC_FUNCTION active f r0 r1) \<Rightarrow>
          Some ((if active then async_func_mark f else []) @ JS_MarkValue r0 @ JS_MarkValue r1)
      | Some (GC_SHAPE p _) \<Rightarrow> Some (mark_ptr p)
      | Some (GC_JS_CONTEXT ctx) \<Rightarrow> Some (JS_MarkContext ctx))"

text \<open>\<open>mark_children\<close> calls \<open>mark_func\<close> on the children, one after the other.\<close>

fun call_each :: "(nat \<Rightarrow> 's \<Rightarrow> 's option) \<Rightarrow> nat list \<Rightarrow> 's \<Rightarrow> 's option" where
  "call_each f [] s = Some s"
| "call_each f (c # cs) s = do { s' \<leftarrow> f c s; call_each f cs s' }"

definition mark_children :: "gc_heap \<Rightarrow> nat \<Rightarrow> (nat \<Rightarrow> 's \<Rightarrow> 's option) \<Rightarrow> 's \<Rightarrow> 's option" where
  "mark_children h gp mark_func s = do { cs \<leftarrow> children h gp; call_each mark_func cs s }"

section \<open>Well-typed heaps\<close>

definition is_js_object :: "gc_heap \<Rightarrow> nat \<Rightarrow> bool" where
  "is_js_object h a \<longleftrightarrow> (case h a of Some (GC_JS_OBJECT _ _ _ _) \<Rightarrow> True | _ \<Rightarrow> False)"

definition is_bytecode :: "gc_heap \<Rightarrow> nat \<Rightarrow> bool" where
  "is_bytecode h a \<longleftrightarrow> (case h a of Some (GC_FUNCTION_BYTECODE _ _ _) \<Rightarrow> True | _ \<Rightarrow> False)"

definition is_shape :: "gc_heap \<Rightarrow> nat \<Rightarrow> bool" where
  "is_shape h a \<longleftrightarrow> (case h a of Some (GC_SHAPE _ _) \<Rightarrow> True | _ \<Rightarrow> False)"

definition is_context :: "gc_heap \<Rightarrow> nat \<Rightarrow> bool" where
  "is_context h a \<longleftrightarrow> (case h a of Some (GC_JS_CONTEXT _) \<Rightarrow> True | _ \<Rightarrow> False)"

definition is_async_function :: "gc_heap \<Rightarrow> nat \<Rightarrow> bool" where
  "is_async_function h a \<longleftrightarrow> (case h a of Some (GC_ASYNC_FUNCTION _ _ _ _) \<Rightarrow> True | _ \<Rightarrow> False)"

text \<open>The collectable objects: a \<open>JSVarRef\<close> is one only once it is detached from its stack
  frame; before, its link is an element of the frame's list.\<close>

definition gc_header :: "gc_heap \<Rightarrow> nat \<Rightarrow> bool" where
  "gc_header h a \<longleftrightarrow> (case h a of None \<Rightarrow> False | Some (GC_VAR_REF d _) \<Rightarrow> d | Some _ \<Rightarrow> True)"

definition value_ok :: "gc_heap \<Rightarrow> js_value \<Rightarrow> bool" where
  "value_ok h v \<longleftrightarrow>
     (js_tag v = JS_TAG_OBJECT \<longrightarrow> is_js_object h (js_ptr v)) \<and>
     (js_tag v = JS_TAG_FUNCTION_BYTECODE \<longrightarrow> is_bytecode h (js_ptr v))"

definition ptr_ok :: "(nat \<Rightarrow> bool) \<Rightarrow> nat option \<Rightarrow> bool" where
  "ptr_ok f p \<longleftrightarrow> (case p of None \<Rightarrow> True | Some a \<Rightarrow> f a)"

definition async_ok :: "gc_heap \<Rightarrow> async_state \<Rightarrow> bool" where
  "async_ok h s \<longleftrightarrow> value_ok h (cur_func s) \<and> value_ok h (this_val s) \<and>
     (case live_stack s of None \<Rightarrow> True | Some vs \<Rightarrow> list_all (value_ok h) vs)"

definition is_var_ref :: "gc_heap \<Rightarrow> nat \<Rightarrow> bool" where
  "is_var_ref h a \<longleftrightarrow> var_ref_is_detached h a \<noteq> None"

definition func_ok :: "gc_heap \<Rightarrow> nat option \<Rightarrow> nat option list option \<Rightarrow> nat option \<Rightarrow> bool" where
  "func_ok h home_object var_refs function_bytecode \<longleftrightarrow>
     ptr_ok (is_js_object h) home_object \<and>
     (case function_bytecode of None \<Rightarrow> True
      | Some b \<Rightarrow> (case h b of
            Some (GC_FUNCTION_BYTECODE _ _ n) \<Rightarrow>
              (case var_refs of None \<Rightarrow> True
               | Some rs \<Rightarrow> n \<le> length rs \<and> list_all (ptr_ok (is_var_ref h)) (take n rs))
          | _ \<Rightarrow> False))"

definition reaction_ok :: "gc_heap \<Rightarrow> promise_reaction \<Rightarrow> bool" where
  "reaction_ok h react \<longleftrightarrow> value_ok h (rd_resolve react) \<and> value_ok h (rd_reject react) \<and> value_ok h (rd_handler react)"

definition request_ok :: "gc_heap \<Rightarrow> async_request \<Rightarrow> bool" where
  "request_ok h req \<longleftrightarrow> value_ok h (req_result req) \<and> value_ok h (req_promise req) \<and>
     value_ok h (req_resolve req) \<and> value_ok h (req_reject req)"

text \<open>The member of the union that each class uses, as the comments of the class list say.\<close>

definition payload_ok :: "gc_heap \<Rightarrow> js_class \<Rightarrow> js_payload \<Rightarrow> bool" where
  "payload_ok h c u \<longleftrightarrow>
     (case u of
        U_none \<Rightarrow> c \<in> {JS_CLASS_OBJECT, JS_CLASS_ERROR, JS_CLASS_MAPPED_ARGUMENTS, JS_CLASS_MODULE_NS,
            JS_CLASS_REGEXP, JS_CLASS_ARRAY_BUFFER, JS_CLASS_SHARED_ARRAY_BUFFER, JS_CLASS_FLOAT_ENV}
      | U_array vs \<Rightarrow> c \<in> {JS_CLASS_ARRAY, JS_CLASS_ARGUMENTS} \<and> list_all (value_ok h) vs
      | U_object_data v \<Rightarrow> c \<in> {JS_CLASS_NUMBER, JS_CLASS_STRING, JS_CLASS_BOOLEAN, JS_CLASS_SYMBOL,
            JS_CLASS_DATE, JS_CLASS_BIG_INT, JS_CLASS_BIG_FLOAT, JS_CLASS_BIG_DECIMAL} \<and> value_ok h v
      | U_cfunc r \<Rightarrow> c = JS_CLASS_C_FUNCTION \<and> ptr_ok (is_context h) r
      | U_func ho rs b \<Rightarrow> c \<in> {JS_CLASS_BYTECODE_FUNCTION, JS_CLASS_GENERATOR_FUNCTION,
            JS_CLASS_ASYNC_FUNCTION, JS_CLASS_ASYNC_GENERATOR_FUNCTION} \<and> func_ok h ho rs b
      | U_bound_function f t argv \<Rightarrow> c = JS_CLASS_BOUND_FUNCTION \<and> value_ok h f \<and> value_ok h t \<and>
            list_all (value_ok h) argv
      | U_c_function_data s \<Rightarrow> c = JS_CLASS_C_FUNCTION_DATA \<and>
            (case s of None \<Rightarrow> True | Some vs \<Rightarrow> list_all (value_ok h) vs)
      | U_for_in_iterator v \<Rightarrow> c = JS_CLASS_FOR_IN_ITERATOR \<and> value_ok h v
      | U_typed_array b \<Rightarrow> c \<in> {JS_CLASS_UINT8C_ARRAY, JS_CLASS_INT8_ARRAY, JS_CLASS_UINT8_ARRAY,
            JS_CLASS_INT16_ARRAY, JS_CLASS_UINT16_ARRAY, JS_CLASS_INT32_ARRAY, JS_CLASS_UINT32_ARRAY,
            JS_CLASS_BIG_INT64_ARRAY, JS_CLASS_BIG_UINT64_ARRAY, JS_CLASS_FLOAT32_ARRAY,
            JS_CLASS_FLOAT64_ARRAY, JS_CLASS_DATAVIEW} \<and> ptr_ok (is_js_object h) b
      | U_operator_set s \<Rightarrow> c = JS_CLASS_OPERATOR_SET \<and>
            (case s of None \<Rightarrow> True
             | Some (so, l, r) \<Rightarrow> list_all (ptr_ok (is_js_object h)) (so @ concat l @ concat r))
      | U_map_state s \<Rightarrow> c \<in> {JS_CLASS_MAP, JS_CLASS_SET, JS_CLASS_WEAKMAP, JS_CLASS_WEAKSET} \<and>
            (case s of None \<Rightarrow> True
             | Some (weak, rs) \<Rightarrow> list_all (\<lambda>(k, v). (weak \<or> value_ok h k) \<and> value_ok h v) rs)
      | U_map_iterator it \<Rightarrow> c \<in> {JS_CLASS_MAP_ITERATOR, JS_CLASS_SET_ITERATOR} \<and>
            (case it of None \<Rightarrow> True | Some v \<Rightarrow> value_ok h v)
      | U_array_iterator it \<Rightarrow> c \<in> {JS_CLASS_ARRAY_ITERATOR, JS_CLASS_STRING_ITERATOR} \<and>
            (case it of None \<Rightarrow> True | Some v \<Rightarrow> value_ok h v)
      | U_regexp_string_iterator it \<Rightarrow> c = JS_CLASS_REGEXP_STRING_ITERATOR \<and>
            (case it of None \<Rightarrow> True | Some (a, b) \<Rightarrow> value_ok h a \<and> value_ok h b)
      | U_generator s \<Rightarrow> c = JS_CLASS_GENERATOR \<and>
            (case s of None \<Rightarrow> True
             | Some (st, f) \<Rightarrow> st = JS_GENERATOR_STATE_COMPLETED \<or> async_ok h f)
      | U_proxy s \<Rightarrow> c = JS_CLASS_PROXY \<and>
            (case s of None \<Rightarrow> True | Some (a, b) \<Rightarrow> value_ok h a \<and> value_ok h b)
      | U_promise s \<Rightarrow> c = JS_CLASS_PROMISE \<and>
            (case s of None \<Rightarrow> True
             | Some (r0, r1, v) \<Rightarrow> list_all (reaction_ok h) (r0 @ r1) \<and> value_ok h v)
      | U_promise_function s \<Rightarrow>
            c \<in> {JS_CLASS_PROMISE_RESOLVE_FUNCTION, JS_CLASS_PROMISE_REJECT_FUNCTION} \<and>
            (case s of None \<Rightarrow> True | Some v \<Rightarrow> value_ok h v)
      | U_async_function s \<Rightarrow>
            c \<in> {JS_CLASS_ASYNC_FUNCTION_RESOLVE, JS_CLASS_ASYNC_FUNCTION_REJECT} \<and>
            ptr_ok (is_async_function h) s
      | U_async_from_sync_iterator s \<Rightarrow> c = JS_CLASS_ASYNC_FROM_SYNC_ITERATOR \<and>
            (case s of None \<Rightarrow> True | Some (a, b) \<Rightarrow> value_ok h a \<and> value_ok h b)
      | U_async_generator s \<Rightarrow> c = JS_CLASS_ASYNC_GENERATOR \<and>
            (case s of None \<Rightarrow> True
             | Some (q, st, f) \<Rightarrow> list_all (request_ok h) q \<and>
                 (st \<in> {JS_ASYNC_GENERATOR_STATE_COMPLETED, JS_ASYNC_GENERATOR_STATE_AWAITING_RETURN} \<or>
                  async_ok h f)))"

definition property_ok :: "gc_heap \<Rightarrow> shape_property \<Rightarrow> js_property \<Rightarrow> bool" where
  "property_ok h sp pr \<longleftrightarrow> sp_atom sp = JS_ATOM_NULL \<or>
     (case pr of
        P_value v \<Rightarrow> (sp_flags sp AND JS_PROP_TMASK) = 0 \<and> value_ok h v
      | P_getset g s \<Rightarrow> (sp_flags sp AND JS_PROP_TMASK) = JS_PROP_GETSET \<and>
          ptr_ok (is_js_object h) g \<and> ptr_ok (is_js_object h) s
      | P_var_ref a \<Rightarrow> (sp_flags sp AND JS_PROP_TMASK) = JS_PROP_VARREF \<and> is_var_ref h a
      | P_autoinit r \<Rightarrow> (sp_flags sp AND JS_PROP_TMASK) = JS_PROP_AUTOINIT \<and>
          is_context h (r div 4 * 4))"

fun properties_ok :: "gc_heap \<Rightarrow> shape_property list \<Rightarrow> js_property list \<Rightarrow> bool" where
  "properties_ok h [] prs \<longleftrightarrow> True"
| "properties_ok h (sp # sps) [] \<longleftrightarrow> False"
| "properties_ok h (sp # sps) (pr # prs) \<longleftrightarrow> property_ok h sp pr \<and> properties_ok h sps prs"

definition module_ok :: "gc_heap \<Rightarrow> js_module \<Rightarrow> bool" where
  "module_ok h m \<longleftrightarrow>
     list_all (\<lambda>me. is_local me \<longrightarrow> ptr_ok (\<lambda>a. var_ref_is_detached h a = Some True) (export_var_ref me))
       (export_entries m) \<and>
     list_all (value_ok h) [module_ns m, func_obj m, eval_exception m, meta_obj m]"

definition context_ok :: "gc_heap \<Rightarrow> js_context \<Rightarrow> bool" where
  "context_ok h ctx \<longleftrightarrow>
     list_all (module_ok h) (loaded_modules ctx) \<and>
     list_all (value_ok h) (native_error_proto ctx @ class_proto ctx) \<and>
     list_all (value_ok h)
       [global_obj ctx, global_var_obj ctx, throw_type_error ctx, eval_obj ctx,
        array_proto_values ctx, iterator_proto ctx, async_iterator_proto ctx, promise_ctor ctx,
        array_ctor ctx, regexp_ctor ctx, function_ctor ctx, function_proto ctx] \<and>
     ptr_ok (is_shape h) (array_shape ctx)"

definition object_ok :: "gc_heap \<Rightarrow> gc_object \<Rightarrow> bool" where
  "object_ok h ob \<longleftrightarrow>
     (case ob of
        GC_JS_OBJECT c sh prop u \<Rightarrow>
          (case h sh of Some (GC_SHAPE _ sps) \<Rightarrow> properties_ok h sps prop | _ \<Rightarrow> False) \<and>
          payload_ok h c u
      | GC_FUNCTION_BYTECODE cp r n \<Rightarrow> list_all (value_ok h) cp \<and> ptr_ok (is_context h) r
      | GC_SHAPE p _ \<Rightarrow> ptr_ok (is_js_object h) p
      | GC_VAR_REF d v \<Rightarrow> d \<longrightarrow> value_ok h v
      | GC_ASYNC_FUNCTION a f r0 r1 \<Rightarrow> (a \<longrightarrow> async_ok h f) \<and> value_ok h r0 \<and> value_ok h r1
      | GC_JS_CONTEXT ctx \<Rightarrow> context_ok h ctx)"

definition heap_ok :: "gc_heap \<Rightarrow> bool" where
  "heap_ok h \<longleftrightarrow> (\<forall>p ob. h p = Some ob \<longrightarrow> object_ok h ob)"

section \<open>Marking visits collectable objects\<close>

definition marked :: "gc_heap \<Rightarrow> nat list option \<Rightarrow> bool" where
  "marked h r \<longleftrightarrow> (case r of None \<Rightarrow> False | Some cs \<Rightarrow> list_all (gc_header h) cs)"

lemma marked_Some [simp]: "marked h (Some cs) \<longleftrightarrow> list_all (gc_header h) cs"
  by (simp add: marked_def)

lemma marked_append:
  assumes "marked h a" and "\<And>x. a = Some x \<Longrightarrow> marked h (f x)"
  shows "marked h (do { x \<leftarrow> a; y \<leftarrow> f x; Some (x @ y) })"
  using assms by (auto simp: marked_def split: option.splits)

lemma header_cases:
  "is_js_object h a \<Longrightarrow> gc_header h a"
  "is_bytecode h a \<Longrightarrow> gc_header h a"
  "is_shape h a \<Longrightarrow> gc_header h a"
  "is_context h a \<Longrightarrow> gc_header h a"
  "is_async_function h a \<Longrightarrow> gc_header h a"
  "var_ref_is_detached h a = Some True \<Longrightarrow> gc_header h a"
  by (auto simp: gc_header_def is_js_object_def is_bytecode_def is_shape_def is_context_def
      is_async_function_def var_ref_is_detached_def split: option.splits gc_object.splits)

lemma value_marked: "value_ok h v \<Longrightarrow> list_all (gc_header h) (JS_MarkValue v)"
  by (auto simp: value_ok_def JS_MarkValue_def header_cases)

lemma object_pointer_marked:
  "is_js_object h a \<Longrightarrow> list_all (gc_header h) (JS_MarkValue (JS_MKPTR JS_TAG_OBJECT a))"
  by (rule value_marked)
    (simp add: value_ok_def JS_MKPTR_def JS_TAG_OBJECT_def JS_TAG_FUNCTION_BYTECODE_def)

lemma bytecode_pointer_marked:
  "is_bytecode h a \<Longrightarrow> list_all (gc_header h) (JS_MarkValue (JS_MKPTR JS_TAG_FUNCTION_BYTECODE a))"
  by (rule value_marked)
    (simp add: value_ok_def JS_MKPTR_def JS_TAG_OBJECT_def JS_TAG_FUNCTION_BYTECODE_def)

lemma values_marked: "list_all (value_ok h) vs \<Longrightarrow> list_all (gc_header h) (mark_values vs)"
  by (induction vs) (auto simp: mark_values_def value_marked)

lemma ptr_marked: "ptr_ok f p \<Longrightarrow> (\<And>a. f a \<Longrightarrow> gc_header h a) \<Longrightarrow> list_all (gc_header h) (mark_ptr p)"
  by (auto simp: ptr_ok_def mark_ptr_def split: option.splits)

lemma list_all_concat_map:
  "list_all Q xs \<Longrightarrow> (\<And>x. Q x \<Longrightarrow> list_all P (f x)) \<Longrightarrow> list_all P (concat (map f xs))"
  by (induction xs) auto

lemma async_marked: "async_ok h s \<Longrightarrow> list_all (gc_header h) (async_func_mark s)"
  by (auto simp: async_ok_def async_func_mark_def value_marked values_marked split: option.splits)

lemma detached_marked: "is_var_ref h a \<Longrightarrow> marked h (mark_detached h a)"
  by (auto simp: is_var_ref_def mark_detached_def header_cases)

lemma var_refs_marked:
  "n \<le> length rs \<Longrightarrow> list_all (ptr_ok (is_var_ref h)) (take n rs) \<Longrightarrow> marked h (mark_var_refs h n rs)"
proof (induction h n rs rule: mark_var_refs.induct)
  case (4 h n a rs)
  then show ?case
    by (simp add: ptr_ok_def marked_append detached_marked)
qed (auto simp: ptr_ok_def)

lemma func_marked:
  assumes "func_ok h ho rs b"
  shows "marked h (js_bytecode_function_mark h (U_func ho rs b))"
proof -
  have home: "list_all (gc_header h)
      (case ho of None \<Rightarrow> [] | Some o1 \<Rightarrow> JS_MarkValue (JS_MKPTR JS_TAG_OBJECT o1))"
    using assms by (auto simp: func_ok_def ptr_ok_def object_pointer_marked split: option.splits)
  show ?thesis
  proof (cases b)
    case None
    then show ?thesis
      using home by (simp add: js_bytecode_function_mark_def)
  next
    case (Some a)
    then obtain cp r n where a: "h a = Some (GC_FUNCTION_BYTECODE cp r n)"
      using assms by (auto simp: func_ok_def split: option.splits gc_object.splits)
    then have code: "is_bytecode h a"
      by (simp add: is_bytecode_def)
    show ?thesis
    proof (cases rs)
      case None
      then show ?thesis
        using home code \<open>b = Some a\<close> by (simp add: js_bytecode_function_mark_def bytecode_pointer_marked)
    next
      case (Some refs)
      then have "marked h (mark_var_refs h n refs)"
        using assms a \<open>b = Some a\<close> by (simp add: func_ok_def var_refs_marked)
      then show ?thesis
        using home code a Some \<open>b = Some a\<close>
        by (auto simp: js_bytecode_function_mark_def marked_def bytecode_pointer_marked split: option.splits)
    qed
  qed
qed

lemma operators_marked:
  "list_all (ptr_ok (is_js_object h)) ops \<Longrightarrow> list_all (gc_header h) (mark_operators ops)"
  unfolding mark_operators_def
  by (erule list_all_concat_map) (auto simp: ptr_ok_def object_pointer_marked split: option.splits)

lemma operator_table_marked:
  "list_all (ptr_ok (is_js_object h)) (concat tab) \<Longrightarrow>
    list_all (gc_header h) (concat (map mark_operators tab))"
  by (induction tab) (auto simp: operators_marked)

lemma reactions_marked: "list_all (reaction_ok h) rs \<Longrightarrow> list_all (gc_header h) (mark_reactions rs)"
  unfolding mark_reactions_def by (erule list_all_concat_map) (simp add: reaction_ok_def value_marked)

lemmas class_marks =
  js_array_mark_def js_object_data_mark_def js_c_function_mark_def js_bound_function_mark_def
  js_c_function_data_mark_def js_for_in_iterator_mark_def js_typed_array_mark_def
  js_operator_set_mark_def js_map_mark_def js_map_iterator_mark_def js_array_iterator_mark_def
  js_regexp_string_iterator_mark_def js_generator_mark_def js_async_generator_mark_def
  js_async_function_resolve_mark_def js_async_from_sync_iterator_mark_def js_proxy_mark_def
  js_promise_resolve_function_mark_def js_promise_mark_def

definition class_marked :: "gc_heap \<Rightarrow> js_class \<Rightarrow> js_payload \<Rightarrow> bool" where
  "class_marked h c u \<longleftrightarrow> marked h (case class_gc_mark c of None \<Rightarrow> Some [] | Some f \<Rightarrow> f h u)"

lemma payload_marked:
  assumes "payload_ok h c u"
  shows "class_marked h c u"
proof (cases u)
  case (U_func ho rs b)
  then show ?thesis
    using assms by (auto simp: payload_ok_def class_marked_def func_marked)
next
  case (U_map_state s)
  have "list_all (\<lambda>(k, v). (weak \<or> value_ok h k) \<and> value_ok h v) rs \<Longrightarrow>
      list_all (gc_header h)
        (concat (map (\<lambda>(k, v). (if weak then [] else JS_MarkValue k) @ JS_MarkValue v) rs))"
    for weak :: bool and rs
    by (erule list_all_concat_map) (auto simp: value_marked)
  then show ?thesis
    using assms U_map_state by (auto simp: payload_ok_def class_marked_def class_marks split: option.splits)
next
  case (U_async_generator s)
  have "list_all (request_ok h) q \<Longrightarrow>
      list_all (gc_header h)
        (concat (map (\<lambda>req. JS_MarkValue (req_result req) @ JS_MarkValue (req_promise req) @
                      JS_MarkValue (req_resolve req) @ JS_MarkValue (req_reject req)) q))"
    for q
    by (erule list_all_concat_map) (simp add: request_ok_def value_marked)
  then show ?thesis
    using assms U_async_generator
    by (auto simp: payload_ok_def class_marked_def class_marks async_marked split: option.splits)
qed (use assms in \<open>auto simp: payload_ok_def class_marked_def class_marks value_marked values_marked
        async_marked ptr_marked header_cases object_pointer_marked operators_marked
        operator_table_marked reactions_marked ptr_ok_def mark_ptr_def split: option.splits\<close>)

lemma property_marked: "property_ok h sp pr \<Longrightarrow> marked h (mark_property h sp pr)"
  by (cases pr)
    (auto simp: property_ok_def mark_property_def value_marked ptr_marked header_cases detached_marked
      js_autoinit_mark_def js_autoinit_get_realm_def JS_PROP_GETSET_def JS_PROP_VARREF_def
      JS_PROP_AUTOINIT_def)

lemma properties_marked: "properties_ok h sps prs \<Longrightarrow> marked h (mark_properties h sps prs)"
  by (induction h sps prs rule: properties_ok.induct) (auto intro!: marked_append property_marked)

lemma exports_marked:
  "list_all (\<lambda>me. is_local me \<longrightarrow> ptr_ok (\<lambda>a. var_ref_is_detached h a = Some True) (export_var_ref me)) es
    \<Longrightarrow> list_all (gc_header h)
          (concat (map (\<lambda>me. if is_local me then mark_ptr (export_var_ref me) else []) es))"
  by (erule list_all_concat_map) (auto intro: ptr_marked header_cases)

lemma module_marked: "module_ok h m \<Longrightarrow> list_all (gc_header h) (js_mark_module_def m)"
  unfolding module_ok_def js_mark_module_def_def by (simp add: exports_marked value_marked)

lemma context_marked: "context_ok h ctx \<Longrightarrow> list_all (gc_header h) (JS_MarkContext ctx)"
  using list_all_concat_map [of "module_ok h" "loaded_modules ctx" "gc_header h" js_mark_module_def]
  by (auto simp: context_ok_def JS_MarkContext_def module_marked value_marked values_marked ptr_marked
      header_cases)

lemma object_ptr_marked: "ptr_ok (is_js_object h) p \<Longrightarrow> list_all (gc_header h) (mark_ptr p)"
  by (erule ptr_marked) (rule header_cases(1))

lemma context_ptr_marked: "ptr_ok (is_context h) p \<Longrightarrow> list_all (gc_header h) (mark_ptr p)"
  by (erule ptr_marked) (rule header_cases(4))

lemma var_ref_header: "h p = Some (GC_VAR_REF d v) \<Longrightarrow> gc_header h p \<longleftrightarrow> d"
  by (simp add: gc_header_def)

lemma object_marked:
  assumes "heap_ok h" and "gc_header h p"
  shows "marked h (children h p)"
proof -
  obtain ob where p: "h p = Some ob" and ok: "object_ok h ob"
    using assms by (auto simp: gc_header_def heap_ok_def split: option.splits)
  show ?thesis
  proof (cases ob)
    case (GC_JS_OBJECT c sh flds u)
    then obtain pr sps where sh: "h sh = Some (GC_SHAPE pr sps)" and props: "properties_ok h sps flds"
      and u: "class_marked h c u"
      using ok payload_marked by (auto simp: object_ok_def split: option.splits gc_object.splits)
    have "gc_header h sh"
      by (simp add: gc_header_def sh)
    moreover have "marked h (mark_properties h sps flds)"
      by (rule properties_marked [OF props])
    ultimately show ?thesis
      using p u GC_JS_OBJECT sh
      by (auto simp: children_def object_children_def marked_def class_marked_def split: option.splits)
  qed (use p ok assms(2) in \<open>simp_all add: children_def object_ok_def var_ref_header values_marked
        value_marked async_marked context_marked object_ptr_marked context_ptr_marked\<close>)
qed

section \<open>The type property\<close>

text \<open>C20: on a well-typed heap (every pointer to a structure of its type, every property's union
  member the one its flags name, every class payload the member its class uses) \<open>mark_children\<close>
  of a collectable object fails no assertion and reads no wrong member, and every header it visits
  is collectable: in particular never a variable reference that is still on a stack frame.\<close>

theorem children_well_typed:
  assumes "heap_ok h" and "gc_header h p"
  shows "\<exists>cs. children h p = Some cs \<and> list_all (gc_header h) cs"
  using object_marked [OF assms] by (auto simp: marked_def split: option.splits)

text \<open>A closure: object 1 of shape 2 (prototype object 3 of the same shape), its function bytecode
  4 and its captured variables 5, detached and holding object 1, and 6, still on the stack.\<close>

definition closure_heap :: gc_heap where
  "closure_heap =
     [1 \<mapsto> GC_JS_OBJECT JS_CLASS_BYTECODE_FUNCTION 2 [P_value (JS_MKPTR JS_TAG_OBJECT 3), P_getset None (Some 1)]
             (U_func None (Some [Some 5, Some 6]) (Some 4)),
      2 \<mapsto> GC_SHAPE (Some 3) [\<lparr>sp_flags = 7, sp_atom = 1\<rparr>, \<lparr>sp_flags = 16, sp_atom = 2\<rparr>],
      3 \<mapsto> GC_JS_OBJECT JS_CLASS_OBJECT 7 [] U_none,
      4 \<mapsto> GC_FUNCTION_BYTECODE [JS_MKPTR 3 9] None 2,
      5 \<mapsto> GC_VAR_REF True (JS_MKPTR JS_TAG_OBJECT 1),
      6 \<mapsto> GC_VAR_REF False (JS_MKPTR JS_TAG_OBJECT 8),
      7 \<mapsto> GC_SHAPE None []]"

lemmas closure_tags = JS_MKPTR_def JS_TAG_OBJECT_def JS_TAG_FUNCTION_BYTECODE_def

lemma closure_heap_ok: "heap_ok closure_heap"
  unfolding heap_ok_def
  by (auto simp: closure_heap_def object_ok_def payload_ok_def func_ok_def property_ok_def
      value_ok_def ptr_ok_def is_js_object_def is_bytecode_def is_context_def is_var_ref_def
      var_ref_is_detached_def closure_tags JS_PROP_TMASK_def JS_PROP_GETSET_def
      split: if_splits)

lemma closure_children: "children closure_heap 1 = Some [2, 3, 1, 5, 4]"
  by code_simp

theorem children_well_typed_witness:
  "\<exists>cs. children closure_heap 1 = Some cs \<and> list_all (gc_header closure_heap) cs"
  by (rule children_well_typed [OF closure_heap_ok]) (simp add: gc_header_def closure_heap_def)

end
