(* ===== verification/CycleGC.thy ===== *)
theory CycleGC
  imports GCHeap
begin

text \<open>
  The cycle collector of \<^verbatim>\<open>quickjs.c\<close>: \<open>gc_decref\<close> subtracts the references that the
  collectable objects hold of each other, \<open>gc_scan\<close> gives them back starting from the objects
  still referenced from outside. The lists of objects are the sequences of their addresses (the
  pointer operations on \<open>struct list_head\<close> are those of the theory \<open>ListHead\<close>), and the loops
  walk them by a cursor, as \<open>list_for_each\<close> does: the object the cursor stands on, or the one it
  has saved, may move to the other list meanwhile. \<open>None\<close> is a failed assertion, an object
  unlinked twice, or a cursor that has left the list it walks.
\<close>

section \<open>The state and the operations\<close>

record gc_state =
  ref_count :: "nat \<Rightarrow> int"
  gc_mark :: "nat \<Rightarrow> nat"
  gc_obj_list :: "nat list"
  tmp_obj_list :: "nat list"

definition add_gc_object :: "nat \<Rightarrow> gc_state \<Rightarrow> gc_state" where
  "add_gc_object p s =
     s\<lparr>gc_mark := (gc_mark s)(p := 0), gc_obj_list := gc_obj_list s @ [p]\<rparr>"

definition remove_gc_object :: "nat \<Rightarrow> gc_state \<Rightarrow> gc_state option" where
  "remove_gc_object p s =
     (if p \<in> set (gc_obj_list s) \<or> p \<in> set (tmp_obj_list s)
      then Some (s\<lparr>gc_obj_list := remove1 p (gc_obj_list s),
                   tmp_obj_list := remove1 p (tmp_obj_list s)\<rparr>)
      else None)"

definition move_to_tmp :: "nat \<Rightarrow> gc_state \<Rightarrow> gc_state option" where
  "move_to_tmp p s =
     do { s' \<leftarrow> remove_gc_object p s; Some (s'\<lparr>tmp_obj_list := tmp_obj_list s' @ [p]\<rparr>) }"

definition move_to_gc :: "nat \<Rightarrow> gc_state \<Rightarrow> gc_state option" where
  "move_to_gc p s =
     do { s' \<leftarrow> remove_gc_object p s; Some (s'\<lparr>gc_obj_list := gc_obj_list s' @ [p]\<rparr>) }"

definition gc_decref_child :: "nat \<Rightarrow> gc_state \<Rightarrow> gc_state option" where
  "gc_decref_child p s =
     (if ref_count s p > 0
      then let s1 = s\<lparr>ref_count := (ref_count s)(p := ref_count s p - 1)\<rparr>
           in if ref_count s1 p = 0 \<and> gc_mark s1 p = 1 then move_to_tmp p s1 else Some s1
      else None)"

text \<open>The \<open>next\<close> of a linked object; the inner \<open>None\<close> is the head of the list it is in.\<close>

fun succ_in :: "nat list \<Rightarrow> nat \<Rightarrow> nat option" where
  "succ_in (x # y # xs) p = (if x = p then Some y else succ_in (y # xs) p)"
| "succ_in xs p = None"

definition first_of :: "nat list \<Rightarrow> nat option" where
  "first_of xs = (case xs of [] \<Rightarrow> None | x # _ \<Rightarrow> Some x)"

text \<open>The cursor's step in a loop over the list \<open>own\<close>, \<open>other\<close> being the other list: reaching the
  head of the other list does not end the loop, and the head is not an object.\<close>

definition cursor_next :: "nat list \<Rightarrow> nat list \<Rightarrow> nat \<Rightarrow> nat option option" where
  "cursor_next own other p =
     (if p \<in> set own then Some (succ_in own p)
      else case succ_in other p of None \<Rightarrow> None | Some q \<Rightarrow> Some (Some q))"

definition gc_decref_step :: "gc_heap \<Rightarrow> nat \<Rightarrow> gc_state \<Rightarrow> gc_state option" where
  "gc_decref_step h p s =
     (if gc_mark s p = 0
      then do {
        s1 \<leftarrow> mark_children h p gc_decref_child s;
        let s2 = s1\<lparr>gc_mark := (gc_mark s1)(p := 1)\<rparr>
        in if ref_count s2 p = 0 then move_to_tmp p s2 else Some s2 }
      else None)"

partial_function (option) gc_decref_loop :: "gc_heap \<Rightarrow> nat option \<Rightarrow> gc_state \<Rightarrow> gc_state option" where
  "gc_decref_loop h el s =
     (case el of None \<Rightarrow> Some s
      | Some p \<Rightarrow> do {
          el1 \<leftarrow> cursor_next (gc_obj_list s) (tmp_obj_list s) p;
          s1 \<leftarrow> gc_decref_step h p s;
          gc_decref_loop h el1 s1 })"

definition gc_decref :: "gc_heap \<Rightarrow> gc_state \<Rightarrow> gc_state option" where
  "gc_decref h s =
     (let s0 = s\<lparr>tmp_obj_list := []\<rparr> in gc_decref_loop h (first_of (gc_obj_list s0)) s0)"

definition gc_scan_incref_child :: "nat \<Rightarrow> gc_state \<Rightarrow> gc_state option" where
  "gc_scan_incref_child p s =
     (let s1 = s\<lparr>ref_count := (ref_count s)(p := ref_count s p + 1)\<rparr>
      in if ref_count s1 p = 1
         then do { s2 \<leftarrow> move_to_gc p s1; Some (s2\<lparr>gc_mark := (gc_mark s2)(p := 0)\<rparr>) }
         else Some s1)"

definition gc_scan_incref_child2 :: "nat \<Rightarrow> gc_state \<Rightarrow> gc_state option" where
  "gc_scan_incref_child2 p s = Some (s\<lparr>ref_count := (ref_count s)(p := ref_count s p + 1)\<rparr>)"

definition gc_scan_step :: "gc_heap \<Rightarrow> nat \<Rightarrow> gc_state \<Rightarrow> gc_state option" where
  "gc_scan_step h p s =
     (if ref_count s p > 0
      then mark_children h p gc_scan_incref_child (s\<lparr>gc_mark := (gc_mark s)(p := 0)\<rparr>)
      else None)"

partial_function (option) gc_scan_loop :: "gc_heap \<Rightarrow> nat option \<Rightarrow> gc_state \<Rightarrow> gc_state option" where
  "gc_scan_loop h el s =
     (case el of None \<Rightarrow> Some s
      | Some p \<Rightarrow> do {
          s1 \<leftarrow> gc_scan_step h p s;
          el1 \<leftarrow> cursor_next (gc_obj_list s1) (tmp_obj_list s1) p;
          gc_scan_loop h el1 s1 })"

partial_function (option) gc_restore_loop :: "gc_heap \<Rightarrow> nat option \<Rightarrow> gc_state \<Rightarrow> gc_state option" where
  "gc_restore_loop h el s =
     (case el of None \<Rightarrow> Some s
      | Some p \<Rightarrow> do {
          s1 \<leftarrow> mark_children h p gc_scan_incref_child2 s;
          el1 \<leftarrow> cursor_next (tmp_obj_list s1) (gc_obj_list s1) p;
          gc_restore_loop h el1 s1 })"

definition gc_scan :: "gc_heap \<Rightarrow> gc_state \<Rightarrow> gc_state option" where
  "gc_scan h s = do {
     s1 \<leftarrow> gc_scan_loop h (first_of (gc_obj_list s)) s;
     gc_restore_loop h (first_of (tmp_obj_list s1)) s1 }"

declare gc_decref_loop.simps [code] gc_scan_loop.simps [code] gc_restore_loop.simps [code]

section \<open>Lists walked by a cursor\<close>

lemma succ_in_append: "distinct (P @ p # Q) \<Longrightarrow> succ_in (P @ p # Q) p = first_of Q"
proof (induction P)
  case Nil
  then show ?case by (cases Q) (auto simp: first_of_def)
next
  case (Cons a P)
  then show ?case by (cases P) auto
qed

lemma cursor_next_own:
  "distinct (P @ p # Q) \<Longrightarrow> cursor_next (P @ p # Q) other p = Some (first_of Q)"
  by (simp add: cursor_next_def succ_in_append)

lemma first_of_Nil [simp]: "first_of [] = None"
  and first_of_Cons [simp]: "first_of (x # xs) = Some x"
  by (simp_all add: first_of_def)

lemma remove1_filter_distinct:
  "distinct xs \<Longrightarrow> remove1 c (filter P xs) = filter (\<lambda>x. P x \<and> x \<noteq> c) xs"
  by (induction xs) (auto intro: filter_cong)

section \<open>The references between collectable objects\<close>

definition child_list :: "gc_heap \<Rightarrow> nat \<Rightarrow> nat list" where
  "child_list h p = (case children h p of None \<Rightarrow> [] | Some cs \<Rightarrow> cs)"

definition edges :: "gc_heap \<Rightarrow> nat list \<Rightarrow> nat list" where
  "edges h ps = concat (map (child_list h) ps)"

definition external :: "gc_heap \<Rightarrow> gc_state \<Rightarrow> nat \<Rightarrow> int" where
  "external h s p = ref_count s p - int (count_list (edges h (gc_obj_list s)) p)"

text \<open>The state the collector starts from: the list holds every collectable object once, no mark
  is set, and every object is counted at least once per reference that another one holds of it.\<close>

definition gc_ready :: "gc_heap \<Rightarrow> gc_state \<Rightarrow> bool" where
  "gc_ready h s \<longleftrightarrow>
     distinct (gc_obj_list s) \<and> (\<forall>p. p \<in> set (gc_obj_list s) \<longleftrightarrow> gc_header h p) \<and>
     (\<forall>p \<in> set (gc_obj_list s). gc_mark s p = 0 \<and> external h s p \<ge> 0)"

inductive live :: "gc_heap \<Rightarrow> gc_state \<Rightarrow> nat \<Rightarrow> bool" for h s where
  live_root: "p \<in> set (gc_obj_list s) \<Longrightarrow> external h s p > 0 \<Longrightarrow> live h s p"
| live_child: "live h s q \<Longrightarrow> p \<in> set (child_list h q) \<Longrightarrow> live h s p"

lemma edges_Nil [simp]: "edges h [] = []"
  and edges_Cons [simp]: "edges h (p # ps) = child_list h p @ edges h ps"
  and edges_append [simp]: "edges h (ps @ qs) = edges h ps @ edges h qs"
  by (simp_all add: edges_def)

lemma count_edges_perm:
  "mset ps = mset qs \<Longrightarrow> count_list (edges h ps) x = count_list (edges h qs) x"
proof -
  have "int (count_list (edges h ps) x) = sum_mset (image_mset (\<lambda>p. int (count_list (child_list h p) x)) (mset ps))" for ps
    by (induction ps) auto
  then show "mset ps = mset qs \<Longrightarrow> count_list (edges h ps) x = count_list (edges h qs) x"
    by (metis of_nat_eq_iff)
qed

lemma children_some:
  "heap_ok h \<Longrightarrow> gc_header h p \<Longrightarrow> children h p = Some (child_list h p)"
  using object_marked [of h p] by (auto simp: child_list_def marked_def split: option.splits)

lemma child_header:
  "heap_ok h \<Longrightarrow> gc_header h p \<Longrightarrow> c \<in> set (child_list h p) \<Longrightarrow> gc_header h c"
  using object_marked [of h p] by (auto simp: child_list_def marked_def list_all_iff split: option.splits)

lemma mark_children_each:
  "heap_ok h \<Longrightarrow> gc_header h p \<Longrightarrow> mark_children h p f s = call_each f (child_list h p) s"
  by (simp add: mark_children_def children_some)

section \<open>The first pass\<close>

text \<open>The invariant of \<open>gc_decref\<close>: \<open>D\<close> are the objects visited, \<open>es\<close> the references already
  subtracted.\<close>

definition decref_inv :: "gc_state \<Rightarrow> nat list \<Rightarrow> nat list \<Rightarrow> gc_state \<Rightarrow> bool" where
  "decref_inv s0 D es s \<longleftrightarrow>
     ref_count s = (\<lambda>p. ref_count s0 p - int (count_list es p)) \<and>
     gc_mark s = (\<lambda>p. if p \<in> set D then 1 else gc_mark s0 p) \<and>
     gc_obj_list s = filter (\<lambda>p. \<not> (p \<in> set D \<and> ref_count s p = 0)) (gc_obj_list s0) \<and>
     distinct (tmp_obj_list s) \<and> set (tmp_obj_list s) = {p \<in> set D. ref_count s p = 0}"

lemma decref_invD:
  assumes "decref_inv s0 D es s"
  shows "ref_count s p = ref_count s0 p - int (count_list es p)"
    and "gc_mark s p = (if p \<in> set D then 1 else gc_mark s0 p)"
    and "gc_obj_list s = filter (\<lambda>p. \<not> (p \<in> set D \<and> ref_count s p = 0)) (gc_obj_list s0)"
    and "distinct (tmp_obj_list s)" and "set (tmp_obj_list s) = {p \<in> set D. ref_count s p = 0}"
  using assms unfolding decref_inv_def by auto

lemma decref_invI:
  assumes "ref_count s = (\<lambda>p. ref_count s0 p - int (count_list es p))"
    and "gc_mark s = (\<lambda>p. if p \<in> set D then 1 else gc_mark s0 p)"
    and "gc_obj_list s = filter (\<lambda>p. \<not> (p \<in> set D \<and> ref_count s p = 0)) (gc_obj_list s0)"
    and "distinct (tmp_obj_list s)" and "set (tmp_obj_list s) = {p \<in> set D. ref_count s p = 0}"
  shows "decref_inv s0 D es s"
  unfolding decref_inv_def using assms by blast

lemma decref_child_inv:
  assumes inv: "decref_inv s0 D es s" and ready: "gc_ready h s0" and c: "c \<in> set (gc_obj_list s0)"
    and pos: "int (count_list es c) < ref_count s0 c"
  shows "\<exists>s'. gc_decref_child c s = Some s' \<and> decref_inv s0 D (es @ [c]) s'"
proof -
  define s1 where "s1 = s\<lparr>ref_count := (ref_count s)(c := ref_count s c - 1)\<rparr>"
  note D = decref_invD [OF inv]
  have dist: "distinct (gc_obj_list s0)" and m0: "gc_mark s0 c = 0"
    using ready c by (auto simp: gc_ready_def)
  have ref: "ref_count s1 = (\<lambda>p. ref_count s0 p - int (count_list (es @ [c]) p))"
    by (auto simp: s1_def D(1))
  have refc: "ref_count s c > 0"
    using pos by (simp add: D(1))
  have marks: "gc_mark s c = 1 \<longleftrightarrow> c \<in> set D"
    by (simp add: D(2) m0)
  show ?thesis
  proof (cases "ref_count s1 c = 0 \<and> c \<in> set D")
    case True
    have linked: "c \<in> set (gc_obj_list s)"
      using c refc by (simp add: D(3))
    define s2 where "s2 = s1\<lparr>gc_obj_list := remove1 c (gc_obj_list s),
        tmp_obj_list := remove1 c (tmp_obj_list s) @ [c]\<rparr>"
    have step: "gc_decref_child c s = Some s2"
      using True refc linked marks
      by (simp add: gc_decref_child_def s1_def s2_def move_to_tmp_def remove_gc_object_def Let_def)
    have tmp: "c \<notin> set (tmp_obj_list s)"
      using refc by (simp add: D(5))
    have "gc_obj_list s2 = filter (\<lambda>p. \<not> (p \<in> set D \<and> ref_count s2 p = 0)) (gc_obj_list s0)"
      using True by (auto simp: s2_def s1_def D(3) remove1_filter_distinct [OF dist] intro: filter_cong)
    moreover have "distinct (tmp_obj_list s2)"
      using D(4) tmp by (simp add: s2_def)
    moreover have "set (tmp_obj_list s2) = {p \<in> set D. ref_count s2 p = 0}"
      using D(4,5) tmp True by (auto simp: s2_def s1_def remove1_idem)
    moreover have "ref_count s2 = ref_count s1" and "gc_mark s2 = gc_mark s"
      by (simp_all add: s2_def s1_def)
    ultimately have "decref_inv s0 D (es @ [c]) s2"
      using inv ref unfolding decref_inv_def by simp
    with step show ?thesis by blast
  next
    case False
    have step: "gc_decref_child c s = Some s1"
      using False refc marks by (auto simp: gc_decref_child_def s1_def Let_def)
    have same: "p \<in> set D \<Longrightarrow> ref_count s1 p = 0 \<longleftrightarrow> ref_count s p = 0" for p
      using False refc by (auto simp: s1_def)
    have gc1: "gc_obj_list s1 = filter (\<lambda>p. \<not> (p \<in> set D \<and> ref_count s1 p = 0)) (gc_obj_list s0)"
      using same by (auto simp: s1_def D(3) intro: filter_cong)
    have tmp1: "set (tmp_obj_list s1) = {p \<in> set D. ref_count s1 p = 0}"
    proof -
      have "{p \<in> set D. ref_count s1 p = 0} = {p \<in> set D. ref_count s p = 0}"
        using same by blast
      moreover have "tmp_obj_list s1 = tmp_obj_list s"
        by (simp add: s1_def)
      ultimately show ?thesis
        by (simp add: D(5))
    qed
    have mark1: "gc_mark s1 = (\<lambda>p. if p \<in> set D then 1 else gc_mark s0 p)"
      using D(2) by (auto simp: s1_def)
    have "distinct (tmp_obj_list s1)"
      using D(4) by (simp add: s1_def)
    then have "decref_inv s0 D (es @ [c]) s1"
      by (rule decref_invI [OF ref mark1 gc1 _ tmp1])
    with step show ?thesis by blast
  qed
qed

lemma decref_children_inv:
  assumes "decref_inv s0 D es s" and "gc_ready h s0" and "set cs \<subseteq> set (gc_obj_list s0)"
    and "\<And>c. int (count_list (es @ cs) c) \<le> ref_count s0 c \<or> c \<notin> set (gc_obj_list s0)"
  shows "\<exists>s'. call_each gc_decref_child cs s = Some s' \<and> decref_inv s0 D (es @ cs) s'"
  using assms
proof (induction cs arbitrary: es s)
  case (Cons c cs)
  then have c: "c \<in> set (gc_obj_list s0)" by simp
  have "int (count_list es c) < ref_count s0 c"
    using Cons.prems(4) [of c] c by auto
  then obtain s1 where s1: "gc_decref_child c s = Some s1" "decref_inv s0 D (es @ [c]) s1"
    using decref_child_inv [OF Cons.prems(1,2) c] by blast
  have "\<exists>s'. call_each gc_decref_child cs s1 = Some s' \<and> decref_inv s0 D ((es @ [c]) @ cs) s'"
    using Cons.prems by (intro Cons.IH s1) auto
  then show ?case
    using s1 by simp
qed simp

lemma edges_bound:
  assumes "gc_ready h s0" and "gc_obj_list s0 = P @ Q" and "p \<in> set (gc_obj_list s0)"
  shows "int (count_list (edges h P) p) \<le> ref_count s0 p"
proof -
  have "int (count_list (edges h (P @ Q)) p) \<le> ref_count s0 p"
    using assms(1,3) unfolding gc_ready_def external_def assms(2) by simp
  then show ?thesis by simp
qed

lemma decref_step_inv:
  assumes inv: "decref_inv s0 D (edges h D) s" and ready: "gc_ready h s0" and ok: "heap_ok h"
    and G: "gc_obj_list s0 = D @ p # Q"
  shows "\<exists>s'. gc_decref_step h p s = Some s' \<and> decref_inv s0 (D @ [p]) (edges h (D @ [p])) s'"
proof -
  note I = decref_invD [OF inv]
  have dist: "distinct (gc_obj_list s0)" and p: "gc_header h p" and m0: "gc_mark s0 p = 0"
    and all: "\<And>x. gc_header h x \<Longrightarrow> x \<in> set (gc_obj_list s0)"
    using ready G by (auto simp: gc_ready_def)
  have new: "p \<notin> set D"
    using dist G by simp
  have cs: "set (child_list h p) \<subseteq> set (gc_obj_list s0)"
    using child_header [OF ok p] all by blast
  have bound: "int (count_list (edges h D @ child_list h p) c) \<le> ref_count s0 c \<or> c \<notin> set (gc_obj_list s0)" for c
    using edges_bound [OF ready, of "D @ [p]" Q c] G by auto
  obtain s1 where s1: "call_each gc_decref_child (child_list h p) s = Some s1"
    and inv1: "decref_inv s0 D (edges h D @ child_list h p) s1"
    using decref_children_inv [OF inv ready cs bound] by blast
  note I1 = decref_invD [OF inv1]
  define s2 where "s2 = s1\<lparr>gc_mark := (gc_mark s1)(p := 1)\<rparr>"
  have step: "gc_decref_step h p s = (if ref_count s2 p = 0 then move_to_tmp p s2 else Some s2)"
    using new by (simp add: gc_decref_step_def I(2) m0 mark_children_each [OF ok p] s1 s2_def Let_def)
  have ref2: "ref_count s2 = ref_count s1" and tmp2: "tmp_obj_list s2 = tmp_obj_list s1"
    and gc2: "gc_obj_list s2 = gc_obj_list s1"
    by (simp_all add: s2_def)
  have mark2: "gc_mark s2 = (\<lambda>x. if x \<in> set (D @ [p]) then 1 else gc_mark s0 x)"
    using I1(2) by (auto simp: s2_def)
  have ref: "ref_count s1 = (\<lambda>x. ref_count s0 x - int (count_list (edges h (D @ [p])) x))"
    using I1(1) by auto
  have pG: "p \<in> set (gc_obj_list s1)" and ptmp: "p \<notin> set (tmp_obj_list s1)"
    using new G by (simp_all add: I1(3,5))
  show ?thesis
  proof (cases "ref_count s1 p = 0")
    case True
    define s3 where "s3 = s2\<lparr>gc_obj_list := remove1 p (gc_obj_list s1),
        tmp_obj_list := tmp_obj_list s1 @ [p]\<rparr>"
    have s3: "gc_decref_step h p s = Some s3"
      using True pG ptmp
      by (simp add: step move_to_tmp_def remove_gc_object_def s3_def ref2 tmp2 gc2 remove1_idem)
    have "gc_obj_list s3 = filter (\<lambda>x. \<not> (x \<in> set (D @ [p]) \<and> ref_count s1 x = 0)) (gc_obj_list s0)"
      using True by (auto simp: s3_def I1(3) remove1_filter_distinct [OF dist] intro: filter_cong)
    moreover have "set (tmp_obj_list s3) = {x \<in> set (D @ [p]). ref_count s1 x = 0}"
      using True I1(5) by (auto simp: s3_def)
    moreover have "ref_count s3 = ref_count s1" "gc_mark s3 = gc_mark s2" "distinct (tmp_obj_list s3)"
      using I1(4) ptmp by (simp_all add: s3_def ref2)
    ultimately have "decref_inv s0 (D @ [p]) (edges h (D @ [p])) s3"
      unfolding decref_inv_def using ref mark2 by simp
    with s3 show ?thesis by blast
  next
    case False
    have s2': "gc_decref_step h p s = Some s2"
      using False by (simp add: step ref2)
    have "gc_obj_list s2 = filter (\<lambda>x. \<not> (x \<in> set (D @ [p]) \<and> ref_count s1 x = 0)) (gc_obj_list s0)"
      using False by (auto simp: gc2 I1(3) intro: filter_cong)
    moreover have "set (tmp_obj_list s2) = {x \<in> set (D @ [p]). ref_count s1 x = 0}"
      using False I1(5) by (auto simp: tmp2)
    ultimately have "decref_inv s0 (D @ [p]) (edges h (D @ [p])) s2"
      unfolding decref_inv_def using ref mark2 I1(4) by (simp add: ref2 tmp2)
    with s2' show ?thesis by blast
  qed
qed

lemma decref_loop_inv:
  assumes "decref_inv s0 D (edges h D) s" and "gc_ready h s0" and "heap_ok h"
    and "gc_obj_list s0 = D @ Q"
  shows "\<exists>s'. gc_decref_loop h (first_of Q) s = Some s' \<and>
    decref_inv s0 (gc_obj_list s0) (edges h (gc_obj_list s0)) s'"
  using assms
proof (induction Q arbitrary: D s)
  case Nil
  then show ?case
    by (simp add: gc_decref_loop.simps [of h None])
next
  case (Cons p Q)
  have dist: "distinct (D @ p # Q)"
    using Cons.prems(2,4) by (simp add: gc_ready_def)
  have "filter (\<lambda>x. \<not> (x \<in> set D \<and> ref_count s x = 0)) (p # Q) = p # Q"
    using dist by (intro filter_True) auto
  then have "gc_obj_list s = filter (\<lambda>x. \<not> (x \<in> set D \<and> ref_count s x = 0)) D @ p # Q"
    using decref_invD(3) [OF Cons.prems(1)] Cons.prems(4) by simp
  moreover have "distinct (filter (\<lambda>x. \<not> (x \<in> set D \<and> ref_count s x = 0)) D @ p # Q)"
    using dist by auto
  ultimately have nxt: "cursor_next (gc_obj_list s) (tmp_obj_list s) p = Some (first_of Q)"
    by (metis cursor_next_own)
  obtain s1 where s1: "gc_decref_step h p s = Some s1" "decref_inv s0 (D @ [p]) (edges h (D @ [p])) s1"
    using decref_step_inv [OF Cons.prems(1-4)] by blast
  show ?case
    using Cons.IH [OF s1(2) Cons.prems(2,3)] Cons.prems(4) s1(1)
    by (simp add: gc_decref_loop.simps [of h "Some p"] nxt)
qed

lemma gc_decref_inv:
  assumes "gc_ready h s" and "heap_ok h"
  shows "\<exists>s'. gc_decref h s = Some s' \<and> decref_inv s (gc_obj_list s) (edges h (gc_obj_list s)) s'"
proof -
  have "decref_inv s [] (edges h []) (s\<lparr>tmp_obj_list := []\<rparr>)"
    by (simp add: decref_inv_def)
  then show ?thesis
    using decref_loop_inv [of s "[]" h "s\<lparr>tmp_obj_list := []\<rparr>" "gc_obj_list s"] assms
    by (simp add: gc_decref_def)
qed

section \<open>The second pass\<close>

text \<open>The invariant of the first loop of \<open>gc_scan\<close>: the objects \<open>P\<close> of the list are visited, the
  objects \<open>T\<close> follow, \<open>es\<close> are the references given back.\<close>

definition scan_inv :: "gc_heap \<Rightarrow> gc_state \<Rightarrow> nat list \<Rightarrow> nat list \<Rightarrow> nat list \<Rightarrow> gc_state \<Rightarrow> bool" where
  "scan_inv h s0 P T es s \<longleftrightarrow>
     gc_obj_list s = P @ T \<and>
     (\<forall>p. ref_count s p = external h s0 p + int (count_list es p)) \<and>
     (\<forall>p \<in> set P. gc_mark s p = 0) \<and>
     (\<forall>p \<in> set (tmp_obj_list s). gc_mark s p = 1) \<and>
     distinct (P @ T @ tmp_obj_list s) \<and>
     set (P @ T @ tmp_obj_list s) = set (gc_obj_list s0) \<and>
     (\<forall>p \<in> set (gc_obj_list s0). p \<in> set (P @ T) \<longleftrightarrow> ref_count s p > 0) \<and>
     (\<forall>p \<in> set (P @ T). live h s0 p)"

lemma scan_invD:
  assumes "scan_inv h s0 P T es s"
  shows "gc_obj_list s = P @ T"
    and "ref_count s p = external h s0 p + int (count_list es p)"
    and "p \<in> set P \<Longrightarrow> gc_mark s p = 0"
    and "p \<in> set (tmp_obj_list s) \<Longrightarrow> gc_mark s p = 1"
    and "distinct (P @ T @ tmp_obj_list s)"
    and "set (P @ T @ tmp_obj_list s) = set (gc_obj_list s0)"
    and "p \<in> set (gc_obj_list s0) \<Longrightarrow> p \<in> set (P @ T) \<longleftrightarrow> ref_count s p > 0"
    and "p \<in> set (P @ T) \<Longrightarrow> live h s0 p"
  using assms unfolding scan_inv_def by blast+

lemma scan_invI:
  assumes "gc_obj_list s = P @ T"
    and "\<And>p. ref_count s p = external h s0 p + int (count_list es p)"
    and "\<And>p. p \<in> set P \<Longrightarrow> gc_mark s p = 0"
    and "\<And>p. p \<in> set (tmp_obj_list s) \<Longrightarrow> gc_mark s p = 1"
    and "distinct (P @ T @ tmp_obj_list s)"
    and "set (P @ T @ tmp_obj_list s) = set (gc_obj_list s0)"
    and "\<And>p. p \<in> set (gc_obj_list s0) \<Longrightarrow> p \<in> set (P @ T) \<longleftrightarrow> ref_count s p > 0"
    and "\<And>p. p \<in> set (P @ T) \<Longrightarrow> live h s0 p"
  shows "scan_inv h s0 P T es s"
  unfolding scan_inv_def using assms by blast

lemma scan_start:
  assumes ready: "gc_ready h s0" and dec: "decref_inv s0 (gc_obj_list s0) (edges h (gc_obj_list s0)) s"
  shows "scan_inv h s0 [] (gc_obj_list s) [] s"
proof (rule scan_invI)
  note D = decref_invD [OF dec]
  have dist: "distinct (gc_obj_list s0)" and ext: "\<And>p. p \<in> set (gc_obj_list s0) \<Longrightarrow> 0 \<le> external h s0 p"
    using ready by (auto simp: gc_ready_def)
  show ref: "ref_count s p = external h s0 p + int (count_list [] p)" for p
    by (simp add: D(1) external_def)
  show "gc_mark s p = 1" if "p \<in> set (tmp_obj_list s)" for p
    using that by (simp add: D(2,5))
  have gc: "set (gc_obj_list s) = {p \<in> set (gc_obj_list s0). ref_count s p \<noteq> 0}"
    by (subst D(3)) auto
  then show "set ([] @ gc_obj_list s @ tmp_obj_list s) = set (gc_obj_list s0)"
    using D(5) by auto
  have "distinct (gc_obj_list s)"
    by (subst D(3)) (simp add: dist)
  then show "distinct ([] @ gc_obj_list s @ tmp_obj_list s)"
    using D(4,5) gc by auto
  show "p \<in> set ([] @ gc_obj_list s) \<longleftrightarrow> ref_count s p > 0" if "p \<in> set (gc_obj_list s0)" for p
    using that gc ext [OF that] ref [of p] by auto
  show "live h s0 p" if "p \<in> set ([] @ gc_obj_list s)" for p
    using that gc ext [of p] ref [of p] by (auto intro: live_root)
qed simp_all

lemma scan_child_inv:
  assumes inv: "scan_inv h s0 P T es s" and ready: "gc_ready h s0"
    and c: "c \<in> set (gc_obj_list s0)" and live: "live h s0 c"
  shows "\<exists>s' T'. gc_scan_incref_child c s = Some s' \<and> scan_inv h s0 P (T @ T') (es @ [c]) s'"
proof -
  note I = scan_invD [OF inv]
  define s1 where "s1 = s\<lparr>ref_count := (ref_count s)(c := ref_count s c + 1)\<rparr>"
  have ref: "ref_count s1 p = external h s0 p + int (count_list (es @ [c]) p)" for p
    by (simp add: s1_def I(2))
  have nonneg: "ref_count s c \<ge> 0"
    using ready c by (simp add: I(2) gc_ready_def)
  show ?thesis
  proof (cases "c \<in> set (P @ T)")
    case True
    then have "ref_count s1 c \<noteq> 1"
      using I(7) [OF c] by (simp add: s1_def)
    then have step: "gc_scan_incref_child c s = Some s1"
      by (simp add: gc_scan_incref_child_def s1_def)
    have same: "0 < ref_count s1 p \<longleftrightarrow> 0 < ref_count s p" if "p \<in> set (gc_obj_list s0)" for p
      using that True I(7) [OF c] by (auto simp: s1_def)
    have "scan_inv h s0 P T (es @ [c]) s1"
    proof (rule scan_invI)
      show "p \<in> set (P @ T) \<longleftrightarrow> ref_count s1 p > 0" if "p \<in> set (gc_obj_list s0)" for p
        using I(7) [OF that] same [OF that] by blast
    qed (use ref I in \<open>simp_all add: s1_def\<close>)
    with step show ?thesis
      by (intro exI [of _ s1] exI [of _ "[]"]) simp
  next
    case False
    have zero: "ref_count s c = 0"
      using False I(7) [OF c] nonneg by simp
    have tmp: "c \<in> set (tmp_obj_list s)"
      using False I(6) c by auto
    define s2 where "s2 = s1\<lparr>gc_obj_list := gc_obj_list s @ [c], tmp_obj_list := remove1 c (tmp_obj_list s),
        gc_mark := (gc_mark s)(c := 0)\<rparr>"
    have step: "gc_scan_incref_child c s = Some s2"
      using zero tmp False I(1)
      by (simp add: gc_scan_incref_child_def s1_def s2_def move_to_gc_def remove_gc_object_def remove1_idem)
    have tmp2: "set (tmp_obj_list s2) = set (tmp_obj_list s) - {c}"
      using I(5) by (simp add: s2_def set_remove1_eq)
    have "scan_inv h s0 P (T @ [c]) (es @ [c]) s2"
    proof (rule scan_invI)
      show "gc_obj_list s2 = P @ T @ [c]"
        by (simp add: s2_def I(1))
      show "ref_count s2 p = external h s0 p + int (count_list (es @ [c]) p)" for p
        using ref by (simp add: s2_def)
      show "gc_mark s2 p = 0" if "p \<in> set P" for p
        using I(3) [OF that] by (simp add: s2_def)
      show "gc_mark s2 p = 1" if "p \<in> set (tmp_obj_list s2)" for p
        using that I(4) [of p] unfolding tmp2 by (simp add: s2_def)
      show "distinct (P @ (T @ [c]) @ tmp_obj_list s2)"
        using I(5) False tmp2 by (auto simp: s2_def distinct_remove1)
      show "set (P @ (T @ [c]) @ tmp_obj_list s2) = set (gc_obj_list s0)"
        using I(6) c by (auto simp: tmp2)
      show "p \<in> set (P @ T @ [c]) \<longleftrightarrow> ref_count s2 p > 0" if "p \<in> set (gc_obj_list s0)" for p
        using I(7) [OF that] zero by (auto simp: s2_def s1_def)
      show "live h s0 p" if "p \<in> set (P @ T @ [c])" for p
        using that I(8) live by auto
    qed
    with step show ?thesis by blast
  qed
qed

lemma scan_children_inv:
  assumes "scan_inv h s0 P T es s" and "gc_ready h s0"
    and "set cs \<subseteq> set (gc_obj_list s0)" and "\<And>c. c \<in> set cs \<Longrightarrow> live h s0 c"
  shows "\<exists>s' T'. call_each gc_scan_incref_child cs s = Some s' \<and> scan_inv h s0 P (T @ T') (es @ cs) s'"
  using assms
proof (induction cs arbitrary: es s T)
  case Nil
  then show ?case
    by (intro exI [of _ s] exI [of _ "[]"]) simp
next
  case (Cons c cs)
  obtain s1 T1 where s1: "gc_scan_incref_child c s = Some s1" "scan_inv h s0 P (T @ T1) (es @ [c]) s1"
    using scan_child_inv [OF Cons.prems(1,2), of c] Cons.prems(3,4) by auto
  obtain s2 T2 where "call_each gc_scan_incref_child cs s1 = Some s2"
    "scan_inv h s0 P ((T @ T1) @ T2) ((es @ [c]) @ cs) s2"
    using Cons.IH [OF s1(2) Cons.prems(2)] Cons.prems(3,4) by auto
  then show ?case
    using s1(1) by (intro exI [of _ s2] exI [of _ "T1 @ T2"]) simp
qed

lemma scan_step_inv:
  assumes inv: "scan_inv h s0 P (p # T) es s" and ready: "gc_ready h s0" and ok: "heap_ok h"
  shows "\<exists>s' T'. gc_scan_step h p s = Some s' \<and>
    scan_inv h s0 (P @ [p]) (T @ T') (es @ child_list h p) s'"
proof -
  note I = scan_invD [OF inv]
  have p: "p \<in> set (gc_obj_list s0)" and live: "live h s0 p" and pos: "0 < ref_count s p"
    using I(6) I(7) [of p] I(8) [of p] by auto
  then have hdr: "gc_header h p" and cs: "set (child_list h p) \<subseteq> set (gc_obj_list s0)"
    using ready child_header [OF ok] by (auto simp: gc_ready_def)
  have "scan_inv h s0 (P @ [p]) T es (s\<lparr>gc_mark := (gc_mark s)(p := 0)\<rparr>)"
  proof (rule scan_invI)
    show "gc_mark (s\<lparr>gc_mark := (gc_mark s)(p := 0)\<rparr>) x = 0" if "x \<in> set (P @ [p])" for x
      using that I(3) [of x] by auto
    show "gc_mark (s\<lparr>gc_mark := (gc_mark s)(p := 0)\<rparr>) x = 1"
      if "x \<in> set (tmp_obj_list (s\<lparr>gc_mark := (gc_mark s)(p := 0)\<rparr>))" for x
      using that I(4) [of x] I(5) by auto
  qed (use I in simp_all)
  then show ?thesis
    using scan_children_inv [OF _ ready cs] live_child [OF live] pos
    by (simp add: gc_scan_step_def mark_children_each [OF ok hdr])
qed

lemma scan_loop_inv:
  assumes "scan_inv h s0 P T (edges h P) s" and "gc_ready h s0" and "heap_ok h"
  shows "\<exists>s' P'. gc_scan_loop h (first_of T) s = Some s' \<and> scan_inv h s0 P' [] (edges h P') s'"
  using assms(1)
proof (induction "length (gc_obj_list s0) - length P" arbitrary: P T s rule: less_induct)
  case less
  note I = scan_invD [OF less.prems]
  show ?case
  proof (cases T)
    case Nil
    then show ?thesis
      using less.prems by (intro exI [of _ s] exI [of _ P]) (simp add: gc_scan_loop.simps [of h None])
  next
    case (Cons p T0)
    obtain s1 T1 where s1: "gc_scan_step h p s = Some s1"
      and inv: "scan_inv h s0 (P @ [p]) (T0 @ T1) (edges h (P @ [p])) s1"
      using scan_step_inv [OF less.prems [unfolded Cons] assms(2,3)] by auto
    note I1 = scan_invD [OF inv]
    have "gc_obj_list s1 = P @ p # (T0 @ T1)" and "distinct (P @ p # (T0 @ T1))"
      using I1(1,5) by auto
    then have nxt: "cursor_next (gc_obj_list s1) (tmp_obj_list s1) p = Some (first_of (T0 @ T1))"
      by (metis cursor_next_own)
    have "length (P @ p # T0 @ tmp_obj_list s) = length (gc_obj_list s0)"
      using I(5,6) assms(2) Cons by (metis append_Cons distinct_card gc_ready_def)
    then have "length (gc_obj_list s0) - length (P @ [p]) < length (gc_obj_list s0) - length P"
      by simp
    from less.hyps [OF this inv] show ?thesis
      by (simp add: Cons gc_scan_loop.simps [of h "Some p"] s1 nxt)
  qed
qed

lemma scan_end_live:
  assumes inv: "scan_inv h s0 P [] (edges h P) s" and ready: "gc_ready h s0" and ok: "heap_ok h"
  shows "set P = {p. live h s0 p}"
proof
  note I = scan_invD [OF inv]
  show "set P \<subseteq> {p. live h s0 p}"
    using I(8) by auto
  have ext: "\<And>p. p \<in> set (gc_obj_list s0) \<Longrightarrow> 0 \<le> external h s0 p"
    and hdr: "\<And>p. p \<in> set (gc_obj_list s0) \<longleftrightarrow> gc_header h p"
    using ready by (auto simp: gc_ready_def)
  have "p \<in> set P" if "live h s0 p" for p
    using that
  proof induction
    case (live_root p)
    then show ?case
      using I(7) [of p] I(2) [of p] by simp
  next
    case (live_child q p)
    then have q: "q \<in> set P" by simp
    then have "gc_header h q"
      using I(6) hdr by auto
    then have p: "p \<in> set (gc_obj_list s0)"
      using child_header [OF ok _ live_child.hyps(2)] hdr by simp
    have "p \<in> set (edges h P)"
      using q live_child.hyps(2) by (auto simp: edges_def)
    then have "0 < count_list (edges h P) p"
      by (metis count_list_0_iff gr0I)
    then show ?case
      using I(7) [OF p] I(2) [of p] ext [OF p] by simp
  qed
  then show "{p. live h s0 p} \<subseteq> set P" by blast
qed

section \<open>The third pass\<close>

lemma restore_children:
  "call_each gc_scan_incref_child2 cs s =
    Some (s\<lparr>ref_count := (\<lambda>p. ref_count s p + int (count_list cs p))\<rparr>)"
proof (induction cs arbitrary: s)
  case (Cons c cs)
  define s1 where "s1 = s\<lparr>ref_count := (ref_count s)(c := ref_count s c + 1)\<rparr>"
  have step: "gc_scan_incref_child2 c s = Some s1"
    by (simp add: gc_scan_incref_child2_def s1_def)
  have "(\<lambda>p. ref_count s1 p + int (count_list cs p)) =
      (\<lambda>p. ref_count s p + int (count_list (c # cs) p))"
    by (auto simp: s1_def)
  moreover have "s1\<lparr>ref_count := f\<rparr> = s\<lparr>ref_count := f\<rparr>" for f
    by (simp add: s1_def)
  ultimately show ?case
    by (simp only: call_each.simps step Cons.IH bind.bind_lunit)
qed simp

lemma restore_loop:
  assumes "heap_ok h" and "\<And>p. p \<in> set (tmp_obj_list s) \<Longrightarrow> gc_header h p"
    and "distinct (tmp_obj_list s)" and "tmp_obj_list s = D @ Q"
  shows "gc_restore_loop h (first_of Q) s =
    Some (s\<lparr>ref_count := (\<lambda>p. ref_count s p + int (count_list (edges h Q) p))\<rparr>)"
  using assms(2-)
proof (induction Q arbitrary: D s)
  case Nil
  then show ?case
    by (simp add: gc_restore_loop.simps [of h None])
next
  case (Cons p Q)
  define s1 where "s1 = s\<lparr>ref_count := (\<lambda>x. ref_count s x + int (count_list (child_list h p) x))\<rparr>"
  have "gc_header h p"
    using Cons.prems by simp
  then have s1: "mark_children h p gc_scan_incref_child2 s = Some s1"
    by (simp add: mark_children_each [OF assms(1)] restore_children s1_def)
  have tmp: "tmp_obj_list s1 = D @ p # Q" "tmp_obj_list s1 = (D @ [p]) @ Q" "tmp_obj_list s1 = tmp_obj_list s"
    using Cons.prems(3) by (simp_all add: s1_def)
  have nxt: "cursor_next (tmp_obj_list s1) (gc_obj_list s1) p = Some (first_of Q)"
    using Cons.prems(2) unfolding tmp(3) Cons.prems(3) by (rule cursor_next_own)
  have "gc_restore_loop h (first_of Q) s1 =
      Some (s1\<lparr>ref_count := (\<lambda>x. ref_count s1 x + int (count_list (edges h Q) x))\<rparr>)"
    using Cons.prems(1,2) by (intro Cons.IH [OF _ _ tmp(2)]) (simp_all add: tmp(3))
  then show ?case
    by (simp add: gc_restore_loop.simps [of h "Some p"] s1 nxt) (simp add: s1_def add.assoc)
qed

section \<open>The collector\<close>

lemma gc_scan_spec:
  assumes ready: "gc_ready h s" and ok: "heap_ok h"
    and dec: "decref_inv s (gc_obj_list s) (edges h (gc_obj_list s)) s1"
  shows "\<exists>s2. gc_scan h s1 = Some s2 \<and> distinct (gc_obj_list s2 @ tmp_obj_list s2) \<and>
    set (gc_obj_list s2) = {p. live h s p} \<and>
    set (tmp_obj_list s2) = {p \<in> set (gc_obj_list s). \<not> live h s p} \<and>
    ref_count s2 = ref_count s \<and> (\<forall>p \<in> set (gc_obj_list s2). gc_mark s2 p = 0) \<and>
    (\<forall>p \<in> set (tmp_obj_list s2). gc_mark s2 p = 1)"
proof -
  obtain t P where loop: "gc_scan_loop h (first_of (gc_obj_list s1)) s1 = Some t"
    and inv: "scan_inv h s P [] (edges h P) t"
    using scan_loop_inv [of h s "[]" "gc_obj_list s1" s1] scan_start [OF ready dec] ready ok by auto
  note I = scan_invD [OF inv]
  have dist: "distinct (P @ tmp_obj_list t)" and all: "set (P @ tmp_obj_list t) = set (gc_obj_list s)"
    and hdr: "\<And>p. p \<in> set (gc_obj_list s) \<longleftrightarrow> gc_header h p"
    using I(5,6) ready by (simp_all add: gc_ready_def)
  have live: "set P = {p. live h s p}"
    by (rule scan_end_live [OF inv ready ok])
  define s2 where "s2 = t\<lparr>ref_count := (\<lambda>p. ref_count t p + int (count_list (edges h (tmp_obj_list t)) p))\<rparr>"
  have hdr_tmp: "gc_header h p" if "p \<in> set (tmp_obj_list t)" for p
    using that hdr all by auto
  have restore: "gc_restore_loop h (first_of (tmp_obj_list t)) t = Some s2"
    using restore_loop [OF ok hdr_tmp, of t "[]" "tmp_obj_list t"] dist unfolding s2_def by simp
  have "mset (P @ tmp_obj_list t) = mset (gc_obj_list s)"
    using dist all ready by (simp only: set_eq_iff_mset_eq_distinct [symmetric] gc_ready_def)
  then have "count_list (edges h (P @ tmp_obj_list t)) p = count_list (edges h (gc_obj_list s)) p" for p
    by (rule count_edges_perm)
  then have "ref_count s2 p = ref_count s p" for p
    using I(2) [of p] unfolding s2_def external_def
    by (simp flip: of_nat_add add: add.assoc)
  then have "ref_count s2 = ref_count s" by (rule ext)
  moreover have "gc_obj_list s2 = P" "tmp_obj_list s2 = tmp_obj_list t" "gc_mark s2 = gc_mark t"
    using I(1) by (simp_all add: s2_def)
  moreover have "set (tmp_obj_list t) = {p \<in> set (gc_obj_list s). \<not> live h s p}"
    using dist all live by auto
  ultimately show ?thesis
    using loop restore dist live I(3,4) by (auto simp: gc_scan_def)
qed

definition gc_mark_phase :: "gc_heap \<Rightarrow> gc_state \<Rightarrow> gc_state option" where
  "gc_mark_phase h s = do { s1 \<leftarrow> gc_decref h s; gc_scan h s1 }"

lemma gc_mark_phase_spec:
  assumes "gc_ready h s" and "heap_ok h"
  shows "\<exists>s2. gc_mark_phase h s = Some s2 \<and> distinct (gc_obj_list s2 @ tmp_obj_list s2) \<and>
    set (gc_obj_list s2) = {p. live h s p} \<and>
    set (tmp_obj_list s2) = {p \<in> set (gc_obj_list s). \<not> live h s p} \<and>
    ref_count s2 = ref_count s \<and> (\<forall>p \<in> set (gc_obj_list s2). gc_mark s2 p = 0) \<and>
    (\<forall>p \<in> set (tmp_obj_list s2). gc_mark s2 p = 1)"
proof -
  obtain s1 where "gc_decref h s = Some s1"
    and "decref_inv s (gc_obj_list s) (edges h (gc_obj_list s)) s1"
    using gc_decref_inv [OF assms] by blast
  then show ?thesis
    using gc_scan_spec [OF assms] by (simp add: gc_mark_phase_def)
qed

lemma live_collectable:
  assumes "gc_ready h s" and "heap_ok h" and "live h s p"
  shows "p \<in> set (gc_obj_list s)"
  using assms(3)
proof induction
  case (live_child q p)
  then show ?case
    using assms(1,2) child_header [of h q p] by (simp add: gc_ready_def)
qed

section \<open>The properties\<close>

text \<open>The closure of the theory \<open>GCHeap\<close>, with one reference from outside to object 3: the closure,
  its shape, its bytecode and its captured variable form garbage with a cycle.\<close>

definition closure_state :: gc_state where
  "closure_state =
     \<lparr>ref_count = (\<lambda>p. if p = 1 then 2 else if p = 3 then 3 else 1), gc_mark = (\<lambda>p. 0),
      gc_obj_list = [1, 2, 3, 4, 5, 7], tmp_obj_list = []\<rparr>"

lemma closure_ready: "gc_ready closure_heap closure_state"
proof -
  have "children closure_heap 1 = Some [2, 3, 1, 5, 4]" "children closure_heap 2 = Some [3]"
    "children closure_heap 3 = Some [7]" "children closure_heap 4 = Some []"
    "children closure_heap 5 = Some [1]" "children closure_heap 7 = Some []"
    by code_simp+
  then have "edges closure_heap (gc_obj_list closure_state) = [2, 3, 1, 5, 4, 3, 7, 1]"
    by (simp add: closure_state_def child_list_def)
  then show ?thesis
    by (auto simp: gc_ready_def external_def closure_state_def gc_header_def closure_heap_def
        split: if_splits)
qed

lemma closure_collected:
  "map_option (\<lambda>s. (gc_obj_list s, tmp_obj_list s)) (gc_mark_phase closure_heap closure_state) =
    Some ([3, 7], [2, 4, 1, 5])"
  by code_simp

text \<open>C5: safety of the collector: on a well-typed heap whose counts cover the references
  between the objects, \<open>gc_decref\<close> and \<open>gc_scan\<close> run without a failed assertion or a cursor
  leaving its list, and no object reachable from one that is referenced from outside ends on the
  list of objects to free: every one is on the object list, once.\<close>

theorem gc_keeps_live:
  assumes "gc_ready h s" and "heap_ok h"
  shows "\<exists>s2. gc_mark_phase h s = Some s2 \<and> distinct (gc_obj_list s2 @ tmp_obj_list s2) \<and>
    (\<forall>p. live h s p \<longrightarrow> p \<in> set (gc_obj_list s2) \<and> p \<notin> set (tmp_obj_list s2))"
  using gc_mark_phase_spec [OF assms] by auto

theorem gc_keeps_live_witness:
  "\<exists>s2. gc_mark_phase closure_heap closure_state = Some s2 \<and>
    distinct (gc_obj_list s2 @ tmp_obj_list s2) \<and>
    (\<forall>p. live closure_heap closure_state p \<longrightarrow>
      p \<in> set (gc_obj_list s2) \<and> p \<notin> set (tmp_obj_list s2))"
  by (rule gc_keeps_live [OF closure_ready closure_heap_ok])

text \<open>C6: completeness of the collector: the loops end, and every collectable object that no
  externally referenced object reaches, be it in a cycle or not, is on the list of objects to free
  (with its mark still set), so the next sweep gets to it.\<close>

theorem gc_collects_garbage:
  assumes "gc_ready h s" and "heap_ok h"
  shows "\<exists>s2. gc_mark_phase h s = Some s2 \<and>
    (\<forall>p \<in> set (gc_obj_list s). \<not> live h s p \<longrightarrow>
      p \<in> set (tmp_obj_list s2) \<and> p \<notin> set (gc_obj_list s2) \<and> gc_mark s2 p = 1)"
  using gc_mark_phase_spec [OF assms] by auto

theorem gc_collects_garbage_witness:
  "\<exists>s2. gc_mark_phase closure_heap closure_state = Some s2 \<and>
    (\<forall>p \<in> set (gc_obj_list closure_state). \<not> live closure_heap closure_state p \<longrightarrow>
      p \<in> set (tmp_obj_list s2) \<and> p \<notin> set (gc_obj_list s2) \<and> gc_mark s2 p = 1)"
  by (rule gc_collects_garbage [OF closure_ready closure_heap_ok])

text \<open>C7: the trial deletion leaves no trace: after the three loops the reference count of every
  object is what it was before, no object has been lost or duplicated between the two lists, and
  every surviving object has its mark reset for the next collection.\<close>

theorem gc_restores_counts:
  assumes "gc_ready h s" and "heap_ok h"
  shows "\<exists>s2. gc_mark_phase h s = Some s2 \<and> ref_count s2 = ref_count s \<and>
    mset (gc_obj_list s2) + mset (tmp_obj_list s2) = mset (gc_obj_list s) \<and>
    (\<forall>p \<in> set (gc_obj_list s2). gc_mark s2 p = 0)"
proof -
  obtain s2 where run: "gc_mark_phase h s = Some s2"
    and dist: "distinct (gc_obj_list s2 @ tmp_obj_list s2)"
    and live: "set (gc_obj_list s2) = {p. live h s p}"
    and dead: "set (tmp_obj_list s2) = {p \<in> set (gc_obj_list s). \<not> live h s p}"
    and rest: "ref_count s2 = ref_count s" "\<forall>p \<in> set (gc_obj_list s2). gc_mark s2 p = 0"
    using gc_mark_phase_spec [OF assms] by blast
  have "set (gc_obj_list s2) \<subseteq> set (gc_obj_list s)"
    unfolding live using live_collectable [OF assms] by blast
  then have "set (gc_obj_list s2 @ tmp_obj_list s2) = set (gc_obj_list s)"
    using live dead by auto
  moreover have "distinct (gc_obj_list s)"
    using assms(1) by (simp add: gc_ready_def)
  ultimately have "mset (gc_obj_list s2 @ tmp_obj_list s2) = mset (gc_obj_list s)"
    using dist by (simp only: set_eq_iff_mset_eq_distinct)
  with run rest show ?thesis by simp
qed

theorem gc_restores_counts_witness:
  "\<exists>s2. gc_mark_phase closure_heap closure_state = Some s2 \<and> ref_count s2 = ref_count closure_state \<and>
    mset (gc_obj_list s2) + mset (tmp_obj_list s2) = mset (gc_obj_list closure_state) \<and>
    (\<forall>p \<in> set (gc_obj_list s2). gc_mark s2 p = 0)"
  by (rule gc_restores_counts [OF closure_ready closure_heap_ok])

text \<open>C8: \<open>gc_decref\<close> alone: it ends without a failed assertion, leaves in every object's count
  exactly the references that come from outside the collected heap, keeps the objects that have
  some on the object list in their order, and moves exactly the others to \<open>tmp_obj_list\<close>, although
  an object may lose its last reference before or after the loop has reached it.\<close>

theorem gc_decref_counts_external:
  assumes "gc_ready h s" and "heap_ok h"
  shows "\<exists>s1. gc_decref h s = Some s1 \<and> ref_count s1 = external h s \<and>
    gc_obj_list s1 = filter (\<lambda>p. external h s p > 0) (gc_obj_list s) \<and>
    distinct (tmp_obj_list s1) \<and>
    set (tmp_obj_list s1) = {p \<in> set (gc_obj_list s). external h s p = 0}"
proof -
  obtain s1 where run: "gc_decref h s = Some s1"
    and inv: "decref_inv s (gc_obj_list s) (edges h (gc_obj_list s)) s1"
    using gc_decref_inv [OF assms] by blast
  note D = decref_invD [OF inv]
  have ref: "ref_count s1 = external h s"
    using D(1) by (auto simp: external_def)
  have "gc_obj_list s1 = filter (\<lambda>p. external h s p > 0) (gc_obj_list s)"
    unfolding D(3) using assms(1) by (intro filter_cong) (auto simp: ref gc_ready_def order_less_le)
  with run ref D(4,5) show ?thesis by auto
qed

theorem gc_decref_counts_external_witness:
  "\<exists>s1. gc_decref closure_heap closure_state = Some s1 \<and>
    ref_count s1 = external closure_heap closure_state \<and>
    gc_obj_list s1 = filter (\<lambda>p. external closure_heap closure_state p > 0) (gc_obj_list closure_state) \<and>
    distinct (tmp_obj_list s1) \<and>
    set (tmp_obj_list s1) =
      {p \<in> set (gc_obj_list closure_state). external closure_heap closure_state p = 0}"
  by (rule gc_decref_counts_external [OF closure_ready closure_heap_ok])

end
