(* ===== verification/Dates.thy ===== *)
theory Dates
  imports QPrelude "HOL-Library.Signed_Division"
begin

text \<open>
  The arithmetic of \<open>Date\<close> in \<^verbatim>\<open>quickjs.c\<close>: from a time value to its fields and back. A
  time value is a number of milliseconds, an integer whose magnitude is at most 8.64e15, so the
  double arithmetic of the code is exact (all values are below 2^53) and is modelled on \<open>int\<close>;
  the result \<open>None\<close> of \<open>time_clip\<close> is NaN. \<open>tzo\<close> stands for \<open>getTimezoneOffset\<close>, which
  asks the operating system. The operators \<open>sdiv\<close> and \<open>smod\<close> are the division of C.
\<close>

section \<open>Days and years\<close>

definition c_bool :: "bool \<Rightarrow> int" where
  "c_bool b = (if b then 1 else 0)"

definition math_mod :: "int \<Rightarrow> int \<Rightarrow> int" where
  "math_mod a b = (let m = a smod b in m + c_bool (m < 0) * b)"

definition floor_div :: "int \<Rightarrow> int \<Rightarrow> int" where
  "floor_div a b = (let m = a smod b in (a - (m + c_bool (m < 0) * b)) sdiv b)"

definition days_from_year :: "int \<Rightarrow> int" where
  "days_from_year y =
     365 * (y - 1970) + floor_div (y - 1969) 4 - floor_div (y - 1901) 100 + floor_div (y - 1601) 400"

definition days_in_year :: "int \<Rightarrow> int" where
  "days_in_year y =
     365 + c_bool (y smod 4 = 0) - c_bool (y smod 100 = 0) + c_bool (y smod 400 = 0)"

lemma c_bool_simps [simp]: "c_bool True = 1" "c_bool False = 0"
  by (simp_all add: c_bool_def)

lemma math_mod_eq: "0 < b \<Longrightarrow> math_mod a b = a mod b"
proof -
  assume b: "0 < b"
  have range: "- b < a smod b" "a smod b < b"
    using smod_int_compares [of a b] smod_int_range [of b a] b by (auto simp: smod_int_alt_def)
  have "a smod b = a - a sdiv b * b"
    by (simp add: minus_sdiv_mult_eq_smod)
  then have "math_mod a b mod b = a mod b"
    by (simp add: math_mod_def Let_def c_bool_def mod_simps)
      (metis mod_diff_eq mod_mult_self2_is_0 diff_zero mod_mod_trivial)
  moreover have "0 \<le> math_mod a b" "math_mod a b < b"
    using range by (auto simp: math_mod_def Let_def c_bool_def)
  ultimately show ?thesis
    by (simp add: mod_pos_pos_trivial)
qed

lemma floor_div_eq: "0 < b \<Longrightarrow> floor_div a b = a div b"
proof -
  assume b: "0 < b"
  have "floor_div a b = (a - math_mod a b) sdiv b"
    by (simp add: floor_div_def math_mod_def Let_def)
  also have "\<dots> = (a div b * b) sdiv b"
    using b by (simp add: math_mod_eq minus_mod_eq_div_mult)
  also have "\<dots> = a div b"
    using b by (simp add: signed_divide_int_def abs_mult sgn_mult sgn_mult_abs)
  finally show ?thesis .
qed

lemma smod_zero: "y smod k = 0 \<longleftrightarrow> k dvd (y :: int)"
  by (cases "y = 0") (simp_all add: smod_int_alt_def sgn_if flip: dvd_eq_mod_eq_0)

lemma div_step:
  fixes x k :: int
  assumes "0 < k"
  shows "(x + 1) div k = x div k + (if k dvd x + 1 then 1 else 0)"
proof -
  define q r where "q = (x + 1) div k" and "r = (x + 1) mod k"
  then have x: "x + 1 = k * q + r" and r: "0 \<le> r" "r < k"
    using assms by simp_all
  show ?thesis
  proof (cases "r = 0")
    case True
    then have "x div k = q - 1"
      using x assms by (intro int_div_pos_eq [of _ _ _ "k - 1"]) (auto simp: algebra_simps)
    then show ?thesis
      using True by (simp add: q_def r_def dvd_eq_mod_eq_0)
  next
    case False
    then have "x div k = q"
      using x r by (intro int_div_pos_eq [of _ _ _ "r - 1"]) auto
    then show ?thesis
      using False by (simp add: q_def r_def dvd_eq_mod_eq_0)
  qed
qed

lemma days_from_year_eq:
  "days_from_year y = 365 * (y - 1970) + (y - 1969) div 4 - (y - 1901) div 100 + (y - 1601) div 400"
  by (simp add: days_from_year_def floor_div_eq)

lemma days_in_year_eq:
  "days_in_year y = 365 + c_bool (4 dvd y) - c_bool (100 dvd y) + c_bool (400 dvd y)"
  by (simp add: days_in_year_def smod_zero)

lemma days_in_year_bounds: "365 \<le> days_in_year y" "days_in_year y \<le> 366"
proof -
  have "400 dvd y \<Longrightarrow> 100 dvd y" and "100 dvd y \<Longrightarrow> 4 dvd y"
    by (auto elim: dvd_trans [rotated])
  then show "365 \<le> days_in_year y" "days_in_year y \<le> 366"
    by (auto simp: days_in_year_eq c_bool_def)
qed

lemma days_from_next_year: "days_from_year (y + 1) = days_from_year y + days_in_year y"
proof -
  have shift: "k dvd y - c \<longleftrightarrow> k dvd y" if "k dvd c" for k c :: int
    using that by (simp add: dvd_diff_left_iff)
  have "4 dvd y - 1969 + 1 \<longleftrightarrow> 4 dvd y" and "100 dvd y - 1901 + 1 \<longleftrightarrow> 100 dvd y"
    and "400 dvd y - 1601 + 1 \<longleftrightarrow> 400 dvd y"
    using shift [of 4 1968] shift [of 100 1900] shift [of 400 1600] by simp_all
  then show ?thesis
    using div_step [of 4 "y - 1969"] div_step [of 100 "y - 1901"] div_step [of 400 "y - 1601"]
    by (simp add: days_from_year_eq days_in_year_eq c_bool_def algebra_simps)
qed

text \<open>The year of a day, with the day's number in it: the loop from the first approximation.\<close>

function year_loop :: "int \<Rightarrow> int \<Rightarrow> int \<times> int" where
  "year_loop d y =
     (let d1 = d - days_from_year y in
      if d1 < 0 then year_loop d (y - 1)
      else if d1 < days_in_year y then (y, d1)
      else year_loop d (y + 1))"
  by pat_completeness auto
termination
proof (relation "measure (\<lambda>(d, y). let d1 = d - days_from_year y in nat (if d1 < 0 then 400 - d1 else d1))",
    goal_cases)
  case (2 d y d1)
  then show ?case
    using days_from_next_year [of "y - 1"] days_in_year_bounds [of "y - 1"] by (auto simp: Let_def)
next
  case (3 d y d1)
  then show ?case
    using days_from_next_year [of y] days_in_year_bounds [of y] by (auto simp: Let_def)
qed simp

declare year_loop.simps [simp del]

definition year_from_days :: "int \<Rightarrow> int \<times> int" where
  "year_from_days d = year_loop d (floor_div (d * 10000) 3652425 + 1970)"

lemma year_loop_correct:
  "year_loop d y = (y', d1) \<Longrightarrow> d = days_from_year y' + d1 \<and> 0 \<le> d1 \<and> d1 < days_in_year y'"
proof (induction d y rule: year_loop.induct)
  case (1 d y)
  then show ?case
    by (subst (asm) (3) year_loop.simps) (auto simp: Let_def split: if_splits)
qed

lemma year_from_days_correct:
  "year_from_days d = (y, d1) \<Longrightarrow> d = days_from_year y + d1 \<and> 0 \<le> d1 \<and> d1 < days_in_year y"
  by (simp add: year_from_days_def year_loop_correct)

lemma days_from_year_mono: "y < y' \<Longrightarrow> days_from_year y + days_in_year y \<le> days_from_year y'"
proof (induction y' rule: int_gr_induct [of y])
  case base
  then show ?case by (simp add: days_from_next_year)
next
  case (step i)
  then show ?case
    using days_from_next_year [of i] days_in_year_bounds(1) [of i] by simp
qed

lemma year_unique:
  assumes "days_from_year y + d1 = days_from_year y' + d1'" and "0 \<le> d1" and "d1 < days_in_year y"
    and "0 \<le> d1'" and "d1' < days_in_year y'"
  shows "y = y' \<and> d1 = d1'"
  using assms days_from_year_mono [of y y'] days_from_year_mono [of y' y]
  by (cases y y' rule: linorder_cases) auto

section \<open>Months\<close>

definition month_days :: "int list" where
  "month_days = [31, 28, 31, 30, 31, 30, 31, 31, 30, 31, 30, 31]"

definition month_length :: "int \<Rightarrow> nat \<Rightarrow> int" where
  "month_length y i = month_days ! i + (if i = 1 then days_in_year y - 365 else 0)"

text \<open>The loop over the first eleven months, and the sum of the lengths of the first \<open>m\<close>.\<close>

function month_loop :: "int \<Rightarrow> nat \<Rightarrow> int \<Rightarrow> nat \<times> int" where
  "month_loop y i days =
     (if i < 11
      then if days < month_length y i then (i, days) else month_loop y (i + 1) (days - month_length y i)
      else (i, days))"
  by pat_completeness auto
termination by (relation "measure (\<lambda>(y, i, d). 11 - i)") auto

declare month_loop.simps [simp del]

fun months_before :: "int \<Rightarrow> nat \<Rightarrow> int" where
  "months_before y 0 = 0"
| "months_before y (Suc i) = months_before y i + month_length y i"

lemma month_length_pos: "i < 12 \<Longrightarrow> 28 \<le> month_length y i"
proof -
  assume "i < 12"
  then have "i = 0 \<or> i = 1 \<or> i = 2 \<or> i = 3 \<or> i = 4 \<or> i = 5 \<or> i = 6 \<or> i = 7 \<or> i = 8 \<or> i = 9 \<or>
      i = 10 \<or> i = 11"
    by presburger
  then show ?thesis
    using days_in_year_bounds(1) [of y] by (auto simp: month_length_def month_days_def)
qed

lemma months_of_year: "months_before y 12 = days_in_year y"
  by (simp add: eval_nat_numeral month_length_def month_days_def)

lemma months_before_mono: "i \<le> j \<Longrightarrow> j \<le> 12 \<Longrightarrow> months_before y i \<le> months_before y j"
proof (induction j)
  case (Suc j)
  then show ?case
    using month_length_pos [of j y] by (cases "i = Suc j") auto
qed simp

lemma month_loop_correct:
  assumes "month_loop y i days = (m, r)" and "i \<le> 11" and "0 \<le> days"
    and "months_before y i + days < days_in_year y"
  shows "months_before y m + r = months_before y i + days \<and> 0 \<le> r \<and> r < month_length y m \<and> m \<le> 11"
  using assms
proof (induction y i days rule: month_loop.induct)
  case (1 y i days)
  show ?case
  proof (cases "i < 11 \<and> \<not> days < month_length y i")
    case True
    then show ?thesis
      using 1 by (subst (asm) (2) month_loop.simps) auto
  next
    case False
    then have "(m, r) = (i, days)"
      using "1.prems"(1) by (subst (asm) month_loop.simps) (auto split: if_splits)
    moreover have "days < month_length y 11" if "i = 11"
      using "1.prems"(4) that months_before.simps(2) [of y 11] months_of_year [of y]
      by (simp add: eval_nat_numeral)
    ultimately show ?thesis
      using False "1.prems" by auto
  qed
qed

lemma month_unique:
  assumes "months_before y m + r = months_before y m' + r'" and "m < 12" and "m' < 12"
    and "0 \<le> r" and "r < month_length y m" and "0 \<le> r'" and "r' < month_length y m'"
  shows "m = m' \<and> r = r'"
  using assms months_before_mono [of "Suc m" m' y] months_before_mono [of "Suc m'" m y]
  by (cases m m' rule: linorder_cases) auto

section \<open>Fields\<close>

definition date_fields :: "int \<Rightarrow> int \<Rightarrow> int list" where
  "date_fields d tz =
     (let h = math_mod d 86400000;
          days = (d - h) sdiv 86400000;
          ms = h smod 1000;
          h = (h - ms) sdiv 1000;
          s = h smod 60;
          h = (h - s) sdiv 60;
          m = h smod 60;
          h = (h - m) sdiv 60;
          wd = math_mod (days + 4) 7;
          (y, days) = year_from_days days;
          (i, days) = month_loop y 0 days
      in [y, int i, days + 1, h, m, s, ms, wd, tz])"

text \<open>The time value of the object is \<open>None\<close> for NaN; so is the result when it says so.\<close>

definition get_date_fields :: "(int \<Rightarrow> int) \<Rightarrow> int option \<Rightarrow> bool \<Rightarrow> bool \<Rightarrow> int list option" where
  "get_date_fields tzo dval is_local force =
     (case dval of
        None \<Rightarrow> if force then Some (date_fields 0 0) else None
      | Some d \<Rightarrow>
          if is_local then let tz = - tzo d in Some (date_fields (d + tz * 60000) tz)
          else Some (date_fields d 0))"

definition time_clip :: "int \<Rightarrow> int option" where
  "time_clip t = (if - 8640000000000000 \<le> t \<and> t \<le> 8640000000000000 then Some t else None)"

text \<open>\<open>fields\<close> has at least seven elements.\<close>

definition set_date_fields :: "(int \<Rightarrow> int) \<Rightarrow> int list \<Rightarrow> bool \<Rightarrow> int option" where
  "set_date_fields tzo fields is_local =
     (let m1 = fields ! 1;
          m = m1 smod 12;
          m = (if m < 0 then m + 12 else m);
          y = fields ! 0 + m1 div 12;
          days = days_from_year y + months_before y (nat m) + (fields ! 2 - 1);
          h = fields ! 3 * 3600000 + fields ! 4 * 60000 + fields ! 5 * 1000 + fields ! 6;
          d = days * 86400000 + h;
          d = (if is_local then d + tzo d * 60000 else d)
      in time_clip d)"

section \<open>The fields of a time value\<close>

definition valid_date :: "int \<Rightarrow> nat \<Rightarrow> int \<Rightarrow> bool" where
  "valid_date y i day \<longleftrightarrow> i < 12 \<and> 1 \<le> day \<and> day \<le> month_length y i"

definition valid_time :: "int \<Rightarrow> int \<Rightarrow> int \<Rightarrow> int \<Rightarrow> bool" where
  "valid_time h m s ms \<longleftrightarrow> 0 \<le> h \<and> h < 24 \<and> 0 \<le> m \<and> m < 60 \<and> 0 \<le> s \<and> s < 60 \<and> 0 \<le> ms \<and> ms < 1000"

definition day_number :: "int \<Rightarrow> nat \<Rightarrow> int \<Rightarrow> int" where
  "day_number y i day = days_from_year y + months_before y i + (day - 1)"

definition ms_in_day :: "int \<Rightarrow> int \<Rightarrow> int \<Rightarrow> int \<Rightarrow> int" where
  "ms_in_day h m s ms = h * 3600000 + m * 60000 + s * 1000 + ms"

lemma smod_nonneg: "0 \<le> a \<Longrightarrow> 0 < b \<Longrightarrow> a smod b = a mod (b :: int)"
  by (cases "a = 0") (simp_all add: smod_int_alt_def)

lemma sdiv_exact: "0 < b \<Longrightarrow> (a - a mod b) sdiv b = a div (b :: int)"
  using floor_div_eq [of b a] math_mod_eq [of b a] by (simp add: floor_div_def math_mod_def Let_def)

lemma ms_in_day_fields:
  assumes "0 \<le> t" and "t < 86400000"
  shows "valid_time (t div 1000 div 60 div 60) (t div 1000 div 60 mod 60) (t div 1000 mod 60) (t mod 1000)"
    and "ms_in_day (t div 1000 div 60 div 60) (t div 1000 div 60 mod 60) (t div 1000 mod 60) (t mod 1000) = t"
proof -
  show "valid_time (t div 1000 div 60 div 60) (t div 1000 div 60 mod 60) (t div 1000 mod 60) (t mod 1000)"
    using assms by (auto simp: valid_time_def)
  show "ms_in_day (t div 1000 div 60 div 60) (t div 1000 div 60 mod 60) (t div 1000 mod 60) (t mod 1000) = t"
    using div_mult_mod_eq [of t 1000] div_mult_mod_eq [of "t div 1000" 60]
      div_mult_mod_eq [of "t div 1000 div 60" 60]
    unfolding ms_in_day_def by linarith
qed

lemma date_fields_eq:
  "date_fields d tz =
     (let t = d mod 86400000; days = d div 86400000;
          (y, d1) = year_from_days days; (i, d2) = month_loop y 0 d1
      in [y, int i, d2 + 1, t div 1000 div 60 div 60, t div 1000 div 60 mod 60, t div 1000 mod 60,
          t mod 1000, (days + 4) mod 7, tz])"
proof -
  have t: "0 \<le> d mod 86400000" by simp
  then have t1: "0 \<le> d mod 86400000 div 1000" and t2: "0 \<le> d mod 86400000 div 1000 div 60"
    by simp_all
  show ?thesis
    unfolding date_fields_def Let_def
    by (simp only: math_mod_eq sdiv_exact smod_nonneg t t1 t2 zero_less_numeral)
qed

lemma date_fields_correct:
  obtains y i day h m s ms where
    "date_fields d tz = [y, int i, day, h, m, s, ms, (day_number y i day + 4) mod 7, tz]"
    and "valid_date y i day" and "valid_time h m s ms"
    and "d = day_number y i day * 86400000 + ms_in_day h m s ms"
proof -
  obtain y d1 where y: "year_from_days (d div 86400000) = (y, d1)"
    by (cases "year_from_days (d div 86400000)")
  obtain i d2 where i: "month_loop y 0 d1 = (i, d2)"
    by (cases "month_loop y 0 d1")
  have Y: "d div 86400000 = days_from_year y + d1" "0 \<le> d1" "d1 < days_in_year y"
    using year_from_days_correct [OF y] by auto
  have M: "months_before y i + d2 = d1" "0 \<le> d2" "d2 < month_length y i" "i \<le> 11"
    using month_loop_correct [OF i] Y by auto
  let ?t = "d mod 86400000"
  have t: "0 \<le> ?t" "?t < 86400000" by simp_all
  have day: "day_number y i (d2 + 1) = d div 86400000"
    using Y(1) M(1) by (simp add: day_number_def)
  show ?thesis
  proof (rule that)
    show "date_fields d tz =
        [y, int i, d2 + 1, ?t div 1000 div 60 div 60, ?t div 1000 div 60 mod 60, ?t div 1000 mod 60,
         ?t mod 1000, (day_number y i (d2 + 1) + 4) mod 7, tz]"
      by (simp only: date_fields_eq Let_def y i split_conv day)
    show "valid_date y i (d2 + 1)"
      using M by (simp add: valid_date_def)
    show "d = day_number y i (d2 + 1) * 86400000 +
        ms_in_day (?t div 1000 div 60 div 60) (?t div 1000 div 60 mod 60) (?t div 1000 mod 60) (?t mod 1000)"
      by (simp only: day ms_in_day_fields(2) [OF t] div_mult_mod_eq)
  qed (rule ms_in_day_fields(1) [OF t])
qed

lemma day_number_unique:
  assumes "day_number y i day = day_number y' i' day'" and "valid_date y i day" and "valid_date y' i' day'"
  shows "y = y' \<and> i = i' \<and> day = day'"
proof -
  have range: "0 \<le> months_before z j + (k - 1) \<and> months_before z j + (k - 1) < days_in_year z"
    if "valid_date z j k" for z j k
    using that months_before_mono [of 0 j z] months_before_mono [of "Suc j" 12 z] months_of_year [of z]
    by (auto simp: valid_date_def)
  have "y = y' \<and> months_before y i + (day - 1) = months_before y' i' + (day' - 1)"
    using assms range by (intro year_unique) (auto simp: day_number_def)
  then show ?thesis
    using month_unique [of y i "day - 1" i' "day' - 1"] assms(2,3) by (auto simp: valid_date_def)
qed

lemma radix_unique:
  fixes a b k :: int
  assumes "a * k + b = a' * k + b'" and "0 \<le> b" and "b < k" and "0 \<le> b'" and "b' < k"
  shows "a = a' \<and> b = b'"
proof -
  have "a = (a * k + b) div k" and "a' = (a' * k + b') div k"
    using assms(2-) by simp_all
  then show ?thesis
    using assms(1) by auto
qed

lemma ms_in_day_unique:
  assumes "ms_in_day h m s ms = ms_in_day h' m' s' ms'" and "valid_time h m s ms" and "valid_time h' m' s' ms'"
  shows "h = h' \<and> m = m' \<and> s = s' \<and> ms = ms'"
proof -
  have e: "((h * 60 + m) * 60 + s) * 1000 + ms = ((h' * 60 + m') * 60 + s') * 1000 + ms'"
    using assms(1) unfolding ms_in_day_def by (simp add: distrib_right)
  have 1: "(h * 60 + m) * 60 + s = (h' * 60 + m') * 60 + s' \<and> ms = ms'"
    using assms(2,3) by (intro radix_unique [OF e]) (auto simp: valid_time_def)
  have 2: "h * 60 + m = h' * 60 + m' \<and> s = s'"
    using assms(2,3) by (intro radix_unique [OF conjunct1 [OF 1]]) (auto simp: valid_time_def)
  have "h = h' \<and> m = m'"
    using assms(2,3) by (intro radix_unique [OF conjunct1 [OF 2]]) (auto simp: valid_time_def)
  with 1 2 show ?thesis by blast
qed

lemma ms_in_day_range: "valid_time h m s ms \<Longrightarrow> 0 \<le> ms_in_day h m s ms \<and> ms_in_day h m s ms < 86400000"
  by (auto simp: valid_time_def ms_in_day_def)

lemma date_fields_of:
  assumes "valid_date y i day" and "valid_time h m s ms"
  shows "date_fields (day_number y i day * 86400000 + ms_in_day h m s ms) tz =
    [y, int i, day, h, m, s, ms, (day_number y i day + 4) mod 7, tz]"
proof -
  obtain y' i' day' h' m' s' ms' where
    f: "date_fields (day_number y i day * 86400000 + ms_in_day h m s ms) tz =
        [y', int i', day', h', m', s', ms', (day_number y' i' day' + 4) mod 7, tz]"
    and v: "valid_date y' i' day'" "valid_time h' m' s' ms'"
    and e: "day_number y i day * 86400000 + ms_in_day h m s ms =
        day_number y' i' day' * 86400000 + ms_in_day h' m' s' ms'"
    by (rule date_fields_correct)
  have "day_number y i day = day_number y' i' day' \<and> ms_in_day h m s ms = ms_in_day h' m' s' ms'"
    using ms_in_day_range [OF assms(2)] ms_in_day_range [OF v(2)] by (intro radix_unique [OF e]) auto
  then show ?thesis
    using f day_number_unique [OF _ assms(1) v(1)] ms_in_day_unique [OF _ assms(2) v(2)] by auto
qed

section \<open>The properties\<close>

lemma set_date_fields_eq:
  assumes "valid_date y i day"
  shows "set_date_fields tzo (y # int i # day # h # m # s # ms # rest) is_local =
    (let d = day_number y i day * 86400000 + ms_in_day h m s ms
     in time_clip (if is_local then d + tzo d * 60000 else d))"
proof -
  have "int i smod 12 = int i" and "int i div 12 = 0"
    using assms by (auto simp: valid_date_def smod_nonneg)
  then show ?thesis
    by (simp add: set_date_fields_def Let_def day_number_def ms_in_day_def add.assoc)
qed

text \<open>C34: reading the fields of a date and setting them again gives the same time value, for every
  valid time value, in UTC, and in local time when the offset at the local time, read as UTC, is the
  offset at the time itself (as it is away from a change of the offset): the loop over the years
  ends whatever its first approximation is, and no field is off by one.\<close>

theorem date_round_trip:
  assumes "\<bar>t\<bar> \<le> 8640000000000000" and "is_local \<longrightarrow> tzo (t - tzo t * 60000) = tzo t"
  shows "\<exists>f. get_date_fields tzo (Some t) is_local force = Some f \<and> set_date_fields tzo f is_local = Some t"
proof -
  define tz where "tz = (if is_local then - tzo t else 0)"
  obtain y i day h m s ms where
    f: "date_fields (t + tz * 60000) tz = [y, int i, day, h, m, s, ms, (day_number y i day + 4) mod 7, tz]"
    and v: "valid_date y i day"
    and d: "t + tz * 60000 = day_number y i day * 86400000 + ms_in_day h m s ms"
    by (rule date_fields_correct)
  have "get_date_fields tzo (Some t) is_local force = Some (date_fields (t + tz * 60000) tz)"
    by (simp add: get_date_fields_def tz_def Let_def)
  moreover have "set_date_fields tzo (date_fields (t + tz * 60000) tz) is_local = time_clip t"
    using assms(2) unfolding f set_date_fields_eq [OF v] Let_def d [symmetric] by (simp add: tz_def)
  moreover have "time_clip t = Some t"
    using assms(1) by (simp add: time_clip_def abs_le_iff)
  ultimately show ?thesis by simp
qed

theorem date_round_trip_witness:
  "\<exists>f. get_date_fields (\<lambda>_. -60) (Some (- 62198755200000)) True False = Some f \<and>
    set_date_fields (\<lambda>_. -60) f True = Some (- 62198755200000)"
  by (rule date_round_trip) simp_all

text \<open>Every date of the calendar is found again: setting the fields of a day of a month of a
  year and a time of the day, and reading the fields of the time value that results, gives these
  fields, with the day of the week that the number of the day determines (day 0 is a Thursday).\<close>

theorem date_fields_recovered:
  assumes "valid_date y i day" and "valid_time h m s ms"
    and "set_date_fields tzo [y, int i, day, h, m, s, ms] False = Some t"
  shows "get_date_fields tzo (Some t) False force =
    Some [y, int i, day, h, m, s, ms, (t div 86400000 + 4) mod 7, 0]"
proof -
  have t: "t = day_number y i day * 86400000 + ms_in_day h m s ms"
    using assms(3) unfolding set_date_fields_eq [OF assms(1)]
    by (simp add: Let_def time_clip_def split: if_splits)
  have "t div 86400000 = day_number y i day"
    using ms_in_day_range [OF assms(2)] unfolding t by simp
  then show ?thesis
    using date_fields_of [OF assms(1,2), of 0] by (simp add: get_date_fields_def t)
qed

theorem date_fields_recovered_witness:
  "get_date_fields (\<lambda>_. 0) (Some 951868799999) False False = Some [2000, 1, 29, 23, 59, 59, 999, 2, 0]"
proof -
  have "valid_date 2000 1 29" and "valid_time 23 59 59 999"
    and "set_date_fields (\<lambda>_. 0) [2000, int 1, 29, 23, 59, 59, 999] False = Some 951868799999"
    by code_simp+
  then have "get_date_fields (\<lambda>_. 0) (Some 951868799999) False False =
      Some [2000, int 1, 29, 23, 59, 59, 999, (951868799999 div 86400000 + 4) mod 7, 0]"
    by (rule date_fields_recovered)
  then show ?thesis by simp
qed

text \<open>The hypothesis on the offset is needed: \<open>set_date_fields\<close> asks for the offset at the local
  time as if it were UTC. With an offset that goes from one to two hours at time 0, the fields read
  half an hour before, set again, give a time one hour earlier.\<close>

lemma local_date_shifted:
  "Option.bind (get_date_fields (\<lambda>d. if d < 0 then -60 else -120) (Some (-1800000)) True False)
      (\<lambda>f. set_date_fields (\<lambda>d. if d < 0 then -60 else -120) f True) = Some (-5400000)"
  by code_simp

end
