(* ===== verification/LineNumbers.thy ===== *)
theory LineNumbers
  imports Cutils
begin

text \<open>
  The line number tables of \<^verbatim>\<open>quickjs.c\<close>: the LEB128 codes, the compact table from positions
  in the byte code to source lines that \<open>compute_pc2line_info\<close> writes when a function is
  compiled, and its reader \<open>find_line_num\<close>, which error messages use. The read pointer is the list
  of the bytes up to the end of the buffer; an \<open>int\<close> of the code that is only added and written
  is a 32-bit word in two's complement.
\<close>

section \<open>LEB128\<close>

lemma drop_7_less: "drop_bit 7 v \<noteq> 0 \<Longrightarrow> unat (drop_bit 7 v) < unat v" for v :: u32
proof -
  assume "drop_bit 7 v \<noteq> 0"
  then have "0 < unat v"
    by (metis drop_bit_of_0 gr0I unat_eq_zero)
  moreover have "unat (drop_bit 7 v) = unat v div 128"
    by (simp add: unat_drop_bit_eq drop_bit_eq_div [of 7 "unat v"])
  ultimately show ?thesis by simp
qed

function dbuf_put_leb128 :: "DynBuf \<Rightarrow> u32 \<Rightarrow> DynBuf option" where
  "dbuf_put_leb128 s v =
     (let a = v AND 0x7f; v' = drop_bit 7 v in
      if v' \<noteq> 0 then do { (r, s1) \<leftarrow> dbuf_putc s (ucast (a OR 0x80)); dbuf_put_leb128 s1 v' }
      else do { (r, s1) \<leftarrow> dbuf_putc s (ucast a); Some s1 })"
  by pat_completeness auto
termination by (relation "measure (\<lambda>(s, v). unat v)") (auto intro: drop_7_less)

declare dbuf_put_leb128.simps [simp del]

definition dbuf_put_sleb128 :: "DynBuf \<Rightarrow> u32 \<Rightarrow> DynBuf option" where
  "dbuf_put_sleb128 s v = dbuf_put_leb128 s ((2 * v) XOR - drop_bit 31 v)"

text \<open>The result is the number of bytes read, or -1, and the value.\<close>

function get_leb128_loop :: "nat \<Rightarrow> u32 \<Rightarrow> u8 list \<Rightarrow> int \<times> u32" where
  "get_leb128_loop i v ptr =
     (if i < 5
      then case ptr of [] \<Rightarrow> (-1, 0)
           | b # ptr' \<Rightarrow>
               let a = ucast b; v' = v OR push_bit (i * 7) (a AND 0x7f)
               in if a AND 0x80 = 0 then (int (i + 1), v') else get_leb128_loop (i + 1) v' ptr'
      else (-1, 0))"
  by pat_completeness auto
termination by (relation "measure (\<lambda>(i, v, ptr). 5 - i)") auto

declare get_leb128_loop.simps [simp del]

definition get_leb128 :: "u8 list \<Rightarrow> int \<times> u32" where
  "get_leb128 buf = get_leb128_loop 0 0 buf"

definition get_sleb128 :: "u8 list \<Rightarrow> int \<times> u32" where
  "get_sleb128 buf =
     (let (ret, val) = get_leb128 buf
      in if ret < 0 then (-1, 0) else (ret, drop_bit 1 val XOR - (val AND 1)))"

section \<open>The bytes of a code\<close>

function leb_bytes :: "u32 \<Rightarrow> u8 list" where
  "leb_bytes v =
     (if drop_bit 7 v \<noteq> 0 then ucast ((v AND 0x7f) OR 0x80) # leb_bytes (drop_bit 7 v)
      else [ucast (v AND 0x7f)])"
  by pat_completeness auto
termination by (relation "measure unat") (auto intro: drop_7_less)

declare leb_bytes.simps [simp del]

definition zigzag :: "u32 \<Rightarrow> u32" where
  "zigzag v = (2 * v) XOR - drop_bit 31 v"

lemma dbuf_put_leb128_bytes: "dbuf_put_leb128 s v = dbuf_puts s (map (\<lambda>b. [b]) (leb_bytes v))"
proof (induction s v rule: dbuf_put_leb128.induct)
  case (1 s v)
  show ?case
  proof (cases "drop_bit 7 v = 0")
    case True
    then show ?thesis
      by (simp add: dbuf_put_leb128.simps [of s v] leb_bytes.simps [of v] dbuf_putc_def Let_def split: option.splits)
  next
    case False
    then show ?thesis
      using 1 by (cases "dbuf_put s [ucast ((v AND 0x7f) OR 0x80)]")
        (auto simp: dbuf_put_leb128.simps [of s v] leb_bytes.simps [of v] dbuf_putc_def Let_def)
  qed
qed

lemma seven: "(0x7f :: u32) = mask 7"
  by (simp add: mask_eq_exp_minus_1)

lemma bit_eighth: "bit (0x80 :: u32) n \<longleftrightarrow> n = 7" "bit (0x80 :: u8) n \<longleftrightarrow> n = 7" "bit (0x80 :: int) n \<longleftrightarrow> n = 7"
    "bit (0x80 :: nat) n \<longleftrightarrow> n = 7"
  using bit_exp_iff [where 'a = int, of 7 n] bit_exp_iff [where 'a = nat, of 7 n] bit_exp_iff [where 'a = "32 word", of 7 n] bit_exp_iff [where 'a = "8 word", of 7 n] by auto

lemma and_eighth: "a AND 0x80 = 0 \<longleftrightarrow> \<not> bit a 7" for a :: u32
  using and_exp_eq_0_iff_not_bit [of a 7] by simp

lemma seven_bits:
  fixes v :: u32
  shows "(ucast (ucast ((v AND 0x7f) OR 0x80) :: u8) :: u32) AND 0x7f = v AND 0x7f"
    and "(ucast (ucast ((v AND 0x7f) OR 0x80) :: u8) :: u32) AND 0x80 \<noteq> 0"
    and "(ucast (ucast (v AND 0x7f) :: u8) :: u32) AND 0x7f = v AND 0x7f"
    and "(ucast (ucast (v AND 0x7f) :: u8) :: u32) AND 0x80 = 0"
  unfolding and_eighth unfolding seven
  by (auto intro!: bit_word_eqI simp: bit_simps bit_eighth)

lemma split_seven: "(v AND 0x7f) OR push_bit 7 (drop_bit 7 v) = v" for v :: u32
proof (rule bit_word_eqI)
  fix n
  show "bit ((v AND 0x7f) OR push_bit 7 (drop_bit 7 v)) n = bit v n" if "n < LENGTH(32)"
    unfolding seven using that by (cases "n < 7") (auto simp: bit_simps)
qed

text \<open>\<open>i\<close> groups of seven bits have been read; those that remain fit into the word.\<close>

lemma get_leb128_loop_bytes:
  "i < 5 \<Longrightarrow> unat w < 2 ^ (32 - 7 * i) \<Longrightarrow>
    get_leb128_loop i acc (leb_bytes w @ rest) =
      (int (i + length (leb_bytes w)), acc OR push_bit (i * 7) w)"
proof (induction w arbitrary: i acc rule: leb_bytes.induct)
  case (1 w)
  show ?case
  proof (cases "drop_bit 7 w = 0")
    case True
    have "get_leb128_loop i acc (leb_bytes w @ rest) = (int (i + 1), acc OR push_bit (i * 7) (w AND 0x7f))"
      using True 1(2) by (simp add: leb_bytes.simps [of w] get_leb128_loop.simps [of i] seven_bits Let_def
          del: push_bit_and)
    moreover have "w AND 0x7f = w"
      using split_seven [of w] True by simp
    ultimately show ?thesis
      using True by (simp add: leb_bytes.simps [of w])
  next
    case False
    have unat: "unat (drop_bit 7 w) = unat w div 128"
      by (simp add: unat_drop_bit_eq drop_bit_eq_div [of 7 "unat w"])
    have "unat (drop_bit 7 w) \<noteq> 0"
      using False by (metis unat_eq_zero)
    then have "128 \<le> unat w"
      unfolding unat by (simp add: div_eq_0_iff)
    then have i: "i < 4"
      using "1.prems" by (cases "i = 4") auto
    have "32 - 7 * i = 7 + (32 - 7 * (i + 1))"
      using i by simp
    then have "(2 :: nat) ^ (32 - 7 * i) = 2 ^ 7 * 2 ^ (32 - 7 * (i + 1))"
      by (metis power_add)
    then have "(2 :: nat) ^ (32 - 7 * i) = 128 * 2 ^ (32 - 7 * (i + 1))"
      by simp
    then have "unat (drop_bit 7 w) < 2 ^ (32 - 7 * (i + 1))"
      using "1.prems"(2) unfolding unat by (simp add: less_mult_imp_div_less mult.commute)
    moreover have "push_bit (i * 7) (w AND 0x7f) OR push_bit ((i + 1) * 7) (drop_bit 7 w) = push_bit (i * 7) w"
      using arg_cong [OF split_seven [of w], of "push_bit (i * 7)"] by (simp add: push_bit_or add.commute)
    moreover have "get_leb128_loop i acc (leb_bytes w @ rest) =
        get_leb128_loop (i + 1) (acc OR push_bit (i * 7) (w AND 0x7f)) (leb_bytes (drop_bit 7 w) @ rest)"
      using False "1.prems"(1)
      by (simp add: leb_bytes.simps [of w] get_leb128_loop.simps [of i] seven_bits Let_def del: push_bit_and)
    ultimately show ?thesis
      using "1.IH" [OF False, of "i + 1" "acc OR push_bit (i * 7) (w AND 0x7f)"] False i
      by (simp only: or.assoc) (simp add: leb_bytes.simps [of w])
  qed
qed

lemma get_leb128_bytes: "get_leb128 (leb_bytes w @ rest) = (int (length (leb_bytes w)), w)"
  using get_leb128_loop_bytes [of 0 w 0 rest] unsigned_less [of w] by (simp add: get_leb128_def)

lemma get_leb128_loop_range:
  "get_leb128_loop i v p = (r, x) \<Longrightarrow> r = -1 \<or> int i < r \<and> r \<le> 5"
proof (induction i v p rule: get_leb128_loop.induct)
  case (1 i v p)
  show ?case
  proof (cases p)
    case Nil
    then show ?thesis
      using "1.prems" by (simp add: get_leb128_loop.simps [of i] split: if_splits)
  next
    case (Cons b p')
    show ?thesis
    proof (cases "i < 5 \<and> (ucast b :: u32) AND 0x80 \<noteq> 0")
      case True
      then have "get_leb128_loop (i + 1) (v OR push_bit (i * 7) ((ucast b :: u32) AND 0x7f)) p' = (r, x)"
        using "1.prems" Cons by (simp add: get_leb128_loop.simps [of i] Let_def del: push_bit_and)
      then show ?thesis
        using "1.IH" [of b p' "ucast b" "v OR push_bit (i * 7) ((ucast b :: u32) AND 0x7f)"] True Cons by auto
    next
      case False
      then show ?thesis
        using "1.prems" Cons by (auto simp: get_leb128_loop.simps [of i] Let_def split: if_splits)
    qed
  qed
qed

lemma leb_bytes_length: "length (leb_bytes v) \<in> {1..5}"
  using get_leb128_loop_range [of 0 0 "leb_bytes v @ []"] get_leb128_bytes [of v "[]"]
  by (auto simp: get_leb128_def Suc_le_eq)

lemma unzigzag: "drop_bit 1 (zigzag v) XOR - (zigzag v AND 1) = v"
proof (cases "bit v 31")
  case True
  then have "drop_bit 31 v = 1"
    by (intro bit_word_eqI) (auto simp: bit_simps dest: bit_imp_le_length)
  then have z: "zigzag v = NOT (2 * v)"
    by (simp add: zigzag_def flip: mask_eq_exp_minus_1)
  have "zigzag v AND 1 = 1"
    unfolding z by (intro bit_word_eqI) (auto simp: bit_simps)
  moreover have "drop_bit 1 (NOT (2 * v)) XOR - 1 = v"
  proof (rule bit_word_eqI)
    fix n
    show "bit (drop_bit 1 (NOT (2 * v)) XOR - 1) n = bit v n" if "n < LENGTH(32)"
      using True that by (cases "n = 31") (auto simp: bit_simps)
  qed
  ultimately show ?thesis
    by (simp add: z)
next
  case False
  have "drop_bit 31 v = 0"
  proof (rule bit_word_eqI)
    fix n
    show "bit (drop_bit 31 v) n = bit (0 :: u32) n"
      using False bit_imp_le_length [of v "31 + n"] by (cases "n = 0") (auto simp: bit_simps)
  qed
  then have z: "zigzag v = 2 * v"
    by (simp add: zigzag_def)
  have "zigzag v AND 1 = 0"
    unfolding z by (intro bit_word_eqI) (auto simp: bit_simps)
  moreover have "drop_bit 1 (2 * v) = v"
  proof (rule bit_word_eqI)
    fix n
    show "bit (drop_bit 1 (2 * v)) n = bit v n" if "n < LENGTH(32)"
      using False that by (cases "n = 31") (auto simp: bit_simps)
  qed
  ultimately show ?thesis
    by (simp add: z)
qed

lemma get_sleb128_bytes:
  "get_sleb128 (leb_bytes (zigzag v) @ rest) = (int (length (leb_bytes (zigzag v))), v)"
  using unzigzag [of v] by (simp add: get_sleb128_def get_leb128_bytes)

section \<open>The line number table\<close>

definition PC2LINE_BASE :: int where "PC2LINE_BASE = -1"
definition PC2LINE_RANGE :: int where "PC2LINE_RANGE = 5"
definition PC2LINE_OP_FIRST :: int where "PC2LINE_OP_FIRST = 1"
definition PC2LINE_DIFF_PC_MAX :: int where
  "PC2LINE_DIFF_PC_MAX = (255 - PC2LINE_OP_FIRST) div PC2LINE_RANGE"

record line_slot =
  slot_pc :: u32
  slot_line :: int

definition put_pc2line :: "DynBuf \<Rightarrow> int \<Rightarrow> int \<Rightarrow> DynBuf option" where
  "put_pc2line s diff_pc diff_line =
     (if diff_line \<ge> PC2LINE_BASE \<and> diff_line < PC2LINE_BASE + PC2LINE_RANGE \<and>
         diff_pc \<le> PC2LINE_DIFF_PC_MAX
      then do {
        (r, s1) \<leftarrow> dbuf_putc s (word_of_int ((diff_line - PC2LINE_BASE) + diff_pc * PC2LINE_RANGE
                                    + PC2LINE_OP_FIRST));
        Some s1 }
      else do {
        (r, s1) \<leftarrow> dbuf_putc s 0;
        s2 \<leftarrow> dbuf_put_leb128 s1 (word_of_int diff_pc);
        dbuf_put_sleb128 s2 (word_of_int diff_line) })"

fun compute_loop :: "DynBuf \<Rightarrow> u32 \<Rightarrow> int \<Rightarrow> line_slot list \<Rightarrow> DynBuf option" where
  "compute_loop s last_pc last_line_num [] = Some s"
| "compute_loop s last_pc last_line_num (slot # slots) =
     (let pc = slot_pc slot; line_num = slot_line slot in
      if line_num < 0 then compute_loop s last_pc last_line_num slots
      else
        let diff_pc = sint (pc - last_pc); diff_line = line_num - last_line_num in
        if diff_line = 0 \<or> diff_pc < 0 then compute_loop s last_pc last_line_num slots
        else do {
          s' \<leftarrow> put_pc2line s diff_pc diff_line;
          compute_loop s' pc line_num slots })"

text \<open>The fields of a \<open>JSFunctionDef\<close> that the table depends on; \<open>fd_alloc\<close> is the allocator of
  its context, and the slots are \<open>None\<close> when there is no array of them.\<close>

record function_def =
  fd_alloc :: "u8 list \<Rightarrow> nat \<Rightarrow> u8 list option"
  fd_js_mode :: u8
  fd_line_num :: int
  fd_line_number_slots :: "line_slot list option"
  fd_pc2line :: DynBuf

definition JS_MODE_STRIP :: u8 where "JS_MODE_STRIP = 2"

definition compute_pc2line_info :: "function_def \<Rightarrow> function_def option" where
  "compute_pc2line_info s =
     (case fd_line_number_slots s of
        None \<Rightarrow> Some s
      | Some slots \<Rightarrow>
          if (fd_js_mode s AND JS_MODE_STRIP) = 0
          then do {
            buf \<leftarrow> compute_loop (dbuf_init2 (fd_alloc s)) 0 (fd_line_num s) slots;
            Some (s\<lparr>fd_pc2line := buf\<rparr>) }
          else Some s)"

text \<open>The fields of \<^verbatim>\<open>JSFunctionBytecode\<close> for the table, and the part of \<^verbatim>\<open>js_create_function\<close>
  that sets them: the buffer is cut to its size, or kept when that fails. A buffer in which nothing has
  been written is a null pointer, and \<^verbatim>\<open>js_realloc\<close> of a null pointer to the size 0 is null; \<open>None\<close>
  is the use of a buffer that \<^verbatim>\<open>js_realloc\<close> has freed.\<close>

record function_debug =
  has_debug :: bool
  debug_line_num :: u32
  pc2line_len :: nat
  pc2line_buf :: "u8 list option"

definition js_realloc :: "(u8 list \<Rightarrow> nat \<Rightarrow> u8 list option) \<Rightarrow> u8 list \<Rightarrow> nat \<Rightarrow> u8 list option" where
  "js_realloc f ptr n = (if n = 0 then None else f ptr n)"

definition create_debug :: "function_def \<Rightarrow> function_debug option" where
  "create_debug fd =
     (if (fd_js_mode fd AND JS_MODE_STRIP) \<noteq> 0
      then Some \<lparr>has_debug = False, debug_line_num = 0, pc2line_len = 0, pc2line_buf = None\<rparr>
      else do {
        let d = fd_pc2line fd;
        buf \<leftarrow> (case js_realloc (fd_alloc fd) (db_buf d) (db_size d) of
                  Some b \<Rightarrow> Some (Some b)
                | None \<Rightarrow> if db_buf d = [] then Some None
                          else if db_size d = 0 then None else Some (Some (db_buf d)));
        Some \<lparr>has_debug = True, debug_line_num = word_of_int (fd_line_num fd),
              pc2line_len = db_size d, pc2line_buf = buf\<rparr> })"

text \<open>The reading loop: \<open>p\<close> is what is left of the table, \<open>line0\<close> is \<open>b->debug.line_num\<close>.\<close>

function find_line_loop :: "u32 \<Rightarrow> u32 \<Rightarrow> u8 list \<Rightarrow> u32 \<Rightarrow> u32 \<Rightarrow> u32" where
  "find_line_loop pc_value line0 p pc line_num =
     (case p of [] \<Rightarrow> line_num
      | b # p1 \<Rightarrow>
          let op = (ucast b :: u32) in
          if op = 0
          then let (ret, val) = get_leb128 p1 in
               if ret < 0 then line0
               else let (ret', v) = get_sleb128 (drop (nat ret) p1) in
                    if ret' < 0 then line0
                    else if pc_value < pc + val then line_num
                    else find_line_loop pc_value line0 (drop (nat ret') (drop (nat ret) p1))
                           (pc + val) (line_num + v)
          else let op' = op - word_of_int PC2LINE_OP_FIRST;
                   pc' = pc + op' div word_of_int PC2LINE_RANGE;
                   new_line_num = line_num + op' mod word_of_int PC2LINE_RANGE + word_of_int PC2LINE_BASE
               in if pc_value < pc' then line_num
                  else find_line_loop pc_value line0 p1 pc' new_line_num)"
  by pat_completeness auto
termination by (relation "measure (\<lambda>(pcv, l0, p, pc, l). length p)") auto

declare find_line_loop.simps [simp del]

text \<open>The null test comes first; \<open>None\<close> is a table shorter than its length.\<close>

definition find_line_num :: "function_debug \<Rightarrow> u32 \<Rightarrow> u32 option" where
  "find_line_num b pc_value =
     (if \<not> has_debug b then Some (-1)
      else case pc2line_buf b of
        None \<Rightarrow> Some (-1)
      | Some p \<Rightarrow>
          if pc2line_len b \<le> length p
          then Some (find_line_loop pc_value (debug_line_num b) (take (pc2line_len b) p) 0 (debug_line_num b))
          else None)"

section \<open>Reading back the table\<close>

definition entry_bytes :: "int \<Rightarrow> int \<Rightarrow> u8 list" where
  "entry_bytes diff_pc diff_line =
     (if diff_line \<ge> -1 \<and> diff_line < 4 \<and> diff_pc \<le> 50
      then [word_of_int ((diff_line + 1) + diff_pc * 5 + 1)]
      else 0 # leb_bytes (word_of_int diff_pc) @ leb_bytes (zigzag (word_of_int diff_line)))"

fun table_bytes :: "u32 \<Rightarrow> int \<Rightarrow> line_slot list \<Rightarrow> u8 list" where
  "table_bytes last_pc last_line [] = []"
| "table_bytes last_pc last_line (slot # slots) =
     (if slot_line slot < 0 \<or> slot_line slot = last_line \<or> sint (slot_pc slot - last_pc) < 0
      then table_bytes last_pc last_line slots
      else entry_bytes (sint (slot_pc slot - last_pc)) (slot_line slot - last_line) @
           table_bytes (slot_pc slot) (slot_line slot) slots)"

lemma dbuf_puts_append: "dbuf_puts s (xs @ ys) = do { s1 \<leftarrow> dbuf_puts s xs; dbuf_puts s1 ys }"
proof (induction xs arbitrary: s)
  case (Cons x xs)
  then show ?case by (cases "dbuf_put s x") auto
qed simp

lemma put_pc2line_bytes:
  "put_pc2line s dp dl = dbuf_puts s (map (\<lambda>b. [b]) (entry_bytes dp dl))"
proof (cases "dl \<ge> -1 \<and> dl < 4 \<and> dp \<le> 50")
  case True
  then show ?thesis
    by (simp add: put_pc2line_def entry_bytes_def PC2LINE_BASE_def PC2LINE_RANGE_def PC2LINE_OP_FIRST_def
        PC2LINE_DIFF_PC_MAX_def dbuf_putc_def)
next
  case False
  then have "put_pc2line s dp dl = do {
      (r, s1) \<leftarrow> dbuf_put s [0];
      s2 \<leftarrow> dbuf_put_leb128 s1 (word_of_int dp);
      dbuf_put_sleb128 s2 (word_of_int dl) }"
    by (subst put_pc2line_def, subst if_not_P)
      (simp_all add: PC2LINE_BASE_def PC2LINE_RANGE_def PC2LINE_OP_FIRST_def PC2LINE_DIFF_PC_MAX_def
        dbuf_putc_def)
  also have "\<dots> = dbuf_puts s (map (\<lambda>b. [b]) (entry_bytes dp dl))"
  proof -
    have "entry_bytes dp dl = 0 # leb_bytes (word_of_int dp) @ leb_bytes (zigzag (word_of_int dl))"
      using False by (auto simp: entry_bytes_def)
    then show ?thesis
      by (simp add: dbuf_put_sleb128_def dbuf_put_leb128_bytes dbuf_puts_append flip: zigzag_def)
  qed
  finally show ?thesis .
qed

lemma compute_loop_bytes:
  "compute_loop s last_pc last_line slots = dbuf_puts s (map (\<lambda>b. [b]) (table_bytes last_pc last_line slots))"
proof (induction slots arbitrary: s last_pc last_line)
  case (Cons slot slots)
  then show ?case
    by (simp add: put_pc2line_bytes dbuf_puts_append Let_def)
qed simp

text \<open>The line of a position, by the slots that the table keeps.\<close>

fun line_at :: "u32 \<Rightarrow> u32 \<Rightarrow> int \<Rightarrow> line_slot list \<Rightarrow> int" where
  "line_at pcv last_pc last_line [] = last_line"
| "line_at pcv last_pc last_line (slot # slots) =
     (if slot_line slot < 0 \<or> slot_line slot = last_line \<or> sint (slot_pc slot - last_pc) < 0
      then line_at pcv last_pc last_line slots
      else if pcv < slot_pc slot then last_line
      else line_at pcv (slot_pc slot) (slot_line slot) slots)"

lemma uint_numeral_5: "uint (5 :: u32) = 5"
  by simp

lemma small_op:
  assumes "0 \<le> k" and "k < 255"
  shows "(ucast (word_of_int (k + 1) :: u8) :: u32) = word_of_int (k + 1)"
    and "(word_of_int (k + 1) :: u32) \<noteq> 0"
    and "(word_of_int k :: u32) div 5 = word_of_int (k div 5)"
    and "(word_of_int k :: u32) mod 5 = word_of_int (k mod 5)"
proof -
  have small: "uint (word_of_int j :: u8) = j" "uint (word_of_int j :: u32) = j"
    if "0 \<le> j" and "j < 256" for j
    using that by (simp_all add: uint_word_of_int_eq take_bit_int_eq_self)
  have "0 \<le> k + 1" and "k + 1 < 256" and "k < 256"
    using assms by linarith+
  then have u8: "uint (word_of_int (k + 1) :: u8) = k + 1" and u32: "uint (word_of_int (k + 1) :: u32) = k + 1"
    and k: "uint (word_of_int k :: u32) = k"
    using assms(1) by (blast intro: small)+
  show "(ucast (word_of_int (k + 1) :: u8) :: u32) = word_of_int (k + 1)"
    by (simp only: ucast_eq u8)
  show "(word_of_int (k + 1) :: u32) \<noteq> 0"
  proof
    assume "(word_of_int (k + 1) :: u32) = 0"
    then have "k + 1 = 0"
      using u32 by (simp only: uint_0_eq)
    then show False
      using assms(1) by linarith
  qed
  show "(word_of_int k :: u32) div 5 = word_of_int (k div 5)"
    by (simp only: word_div_def k uint_numeral_5)
  show "(word_of_int k :: u32) mod 5 = word_of_int (k mod 5)"
    by (simp only: word_mod_def k uint_numeral_5)
qed

lemma find_line_entry:
  assumes "0 \<le> dp"
  shows "find_line_loop pcv line0 (entry_bytes dp dl @ rest) pc line =
    (if pcv < pc + word_of_int dp then line
     else find_line_loop pcv line0 rest (pc + word_of_int dp) (line + word_of_int dl))"
proof (cases "dl \<ge> -1 \<and> dl < 4 \<and> dp \<le> 50")
  case True
  define k where "k = dl + 1 + dp * 5"
  have k: "0 \<le> k" "k < 255"
    using True assms by (auto simp: k_def)
  have "k div 5 = dp" and "k mod 5 = dl + 1"
    using True by (auto simp: k_def)
  then have op: "(word_of_int k :: u32) div 5 = word_of_int dp" "(word_of_int k :: u32) mod 5 = word_of_int (dl + 1)"
    using small_op(3,4) [OF k] by simp_all
  have entry: "entry_bytes dp dl = [word_of_int (k + 1)]"
    using True by (simp add: entry_bytes_def k_def)
  have sub: "(word_of_int (k + 1) :: u32) - 1 = word_of_int k"
    by simp
  have line: "line + word_of_int (dl + 1) + word_of_int (- 1) = line + word_of_int dl"
    by simp
  show ?thesis
    unfolding entry
    by (subst find_line_loop.simps)
      (simp only: append_Cons append_Nil list.case Let_def small_op(1) [OF k] small_op(2) [OF k] if_False
        PC2LINE_OP_FIRST_def PC2LINE_RANGE_def PC2LINE_BASE_def word_of_int_1 word_of_int_numeral sub op line)
next
  case False
  then have entry: "entry_bytes dp dl = 0 # leb_bytes (word_of_int dp) @ leb_bytes (zigzag (word_of_int dl))"
    by (auto simp: entry_bytes_def)
  show ?thesis
    unfolding entry
    by (subst find_line_loop.simps) (simp add: get_leb128_bytes get_sleb128_bytes Let_def)
qed

lemma find_line_table:
  "find_line_loop pcv line0 (table_bytes last_pc last_line slots) last_pc (word_of_int last_line) =
    word_of_int (line_at pcv last_pc last_line slots)"
proof (induction slots arbitrary: last_pc last_line)
  case Nil
  then show ?case by (simp add: find_line_loop.simps)
next
  case (Cons slot slots)
  show ?case
  proof (cases "slot_line slot < 0 \<or> slot_line slot = last_line \<or> sint (slot_pc slot - last_pc) < 0")
    case True
    then show ?thesis using Cons by auto
  next
    case False
    then have "0 \<le> sint (slot_pc slot - last_pc)" by simp
    moreover have "last_pc + word_of_int (sint (slot_pc slot - last_pc)) = slot_pc slot"
      by simp
    moreover have "(word_of_int last_line :: u32) + word_of_int (slot_line slot - last_line) = word_of_int (slot_line slot)"
      by simp
    ultimately show ?thesis
      using False Cons find_line_entry [of "sint (slot_pc slot - last_pc)" pcv line0
          "slot_line slot - last_line" "table_bytes (slot_pc slot) (slot_line slot) slots" last_pc "word_of_int last_line"]
      by simp
  qed
qed

lemma concat_singletons: "concat (map (\<lambda>x. [x]) xs) = xs"
  by (induction xs) auto

lemma compute_data:
  assumes "realloc_law (fd_alloc s)" and "compute_pc2line_info s = Some s'"
    and "fd_line_number_slots s = Some slots" and "(fd_js_mode s AND JS_MODE_STRIP) = 0"
    and "\<not> dbuf_error (fd_pc2line s')"
  shows "dbuf_data (fd_pc2line s') = table_bytes 0 (fd_line_num s) slots"
    and "dbuf_wf (fd_pc2line s')" and "s' = s\<lparr>fd_pc2line := fd_pc2line s'\<rparr>"
    and "table_bytes 0 (fd_line_num s) slots = [] \<Longrightarrow> db_buf (fd_pc2line s') = []"
proof -
  have wf: "dbuf_wf (dbuf_init2 (fd_alloc s))" and empty: "dbuf_data (dbuf_init2 (fd_alloc s)) = []"
    using dbuf_init2_wf [OF assms(1)] by simp_all
  let ?ds = "map (\<lambda>b. [b]) (table_bytes 0 (fd_line_num s) slots)"
  obtain buf where buf: "dbuf_puts (dbuf_init2 (fd_alloc s)) ?ds = Some buf" "s' = s\<lparr>fd_pc2line := buf\<rparr>"
    using assms(2-4) by (cases "dbuf_puts (dbuf_init2 (fd_alloc s)) ?ds")
      (auto simp: compute_pc2line_info_def compute_loop_bytes)
  show "dbuf_data (fd_pc2line s') = table_bytes 0 (fd_line_num s) slots" "dbuf_wf (fd_pc2line s')"
    using buf dbuf_puts_cases [OF wf, of ?ds] assms(5) empty
    by (auto simp: dbuf_error_def concat_singletons)
  show "s' = s\<lparr>fd_pc2line := fd_pc2line s'\<rparr>" using buf(2) by simp
  show "db_buf (fd_pc2line s') = []" if "table_bytes 0 (fd_line_num s) slots = []"
    using buf that by (auto simp: dbuf_init2_def)
qed

text \<open>What the reader finds in the function that is created.\<close>

lemma find_line_num_created:
  assumes "realloc_law (fd_alloc s)" and "compute_pc2line_info s = Some s'"
    and "fd_line_number_slots s = Some slots" and "(fd_js_mode s AND JS_MODE_STRIP) = 0"
    and "\<not> dbuf_error (fd_pc2line s')"
  defines "t \<equiv> table_bytes 0 (fd_line_num s) slots"
  shows "\<exists>b. create_debug s' = Some b \<and> find_line_num b pc_value =
    Some (if t = [] then -1 else find_line_loop pc_value (word_of_int (fd_line_num s)) t 0 (word_of_int (fd_line_num s)))"
proof -
  let ?d = "fd_pc2line s'"
  note d = compute_data [OF assms(1-5), folded t_def]
  have f: "fd_alloc s' = fd_alloc s" "fd_js_mode s' = fd_js_mode s" "fd_line_num s' = fd_line_num s"
    by (subst d(3), simp)+
  have len: "db_size ?d = length t" using length_dbuf_data [OF d(2)] d(1) by simp
  have tk: "take (length t) (db_buf ?d) = t" "length t \<le> length (db_buf ?d)"
    using d(1,2) len by (auto simp: dbuf_data_def dbuf_wf_def)
  show ?thesis
  proof (cases "t = []")
    case True
    then show ?thesis
      using d(4) len assms(4) by (simp add: create_debug_def f js_realloc_def find_line_num_def)
  next
    case False
    then have ne: "db_buf ?d \<noteq> []" using tk by auto
    show ?thesis
    proof (cases "fd_alloc s (db_buf ?d) (length t)")
      case None
      then show ?thesis
        using False ne tk assms(4) by (simp add: create_debug_def f js_realloc_def find_line_num_def len)
    next
      case (Some b)
      have "length b = length t" "take (length t) b = t"
        using realloc_lawD [OF assms(1) Some] tk by (auto simp: min_def)
      with False Some assms(4) show ?thesis
        by (simp add: create_debug_def f js_realloc_def find_line_num_def len)
    qed
  qed
qed

lemma forward_difference:
  fixes a b :: u32
  assumes "a \<le> b" and "b < 0x80000000"
  shows "0 \<le> sint (b - a)"
proof -
  have "uint (b - a) = uint b - uint a"
    using assms(1) by (simp add: uint_minus_simple_alt word_le_def uint_sub_if')
  moreover have "uint b < 0x80000000"
    using assms(2) by (simp add: word_less_def)
  moreover have "0 \<le> uint a"
    by (rule uint_ge_0)
  ultimately have "uint (b - a) < 0x80000000"
    by linarith
  moreover have "0 \<le> uint (b - a)"
    by (rule uint_ge_0)
  moreover have "- (2 ^ 31) \<le> uint (b - a)"
    by (rule order.trans [OF _ uint_ge_0]) simp
  ultimately have "signed_take_bit 31 (uint (b - a)) = uint (b - a)"
    by (intro signed_take_bit_int_eq_self) simp_all
  then have "sint (b - a) = uint (b - a)"
    by (simp add: sint_uint)
  then show ?thesis
    using \<open>0 \<le> uint (b - a)\<close> by linarith
qed

lemma line_at_sorted:
  assumes "sorted (map slot_pc slots)" and "\<forall>x \<in> set slots. last_pc \<le> slot_pc x \<and> slot_pc x < 0x80000000"
  shows "line_at pcv last_pc last_line slots =
    last (last_line # map slot_line (filter (\<lambda>x. 0 \<le> slot_line x) (takeWhile (\<lambda>x. slot_pc x \<le> pcv) slots)))"
  using assms
proof (induction slots arbitrary: last_pc last_line)
  case (Cons slot slots)
  have rest: "\<forall>x \<in> set slots. last_pc \<le> slot_pc x \<and> slot_pc x < 0x80000000"
    and sorted: "sorted (map slot_pc slots)" and first: "\<forall>x \<in> set slots. slot_pc slot \<le> slot_pc x"
    using Cons.prems by auto
  have stop: "takeWhile (\<lambda>x. slot_pc x \<le> pcv) slots = []" if "\<not> slot_pc slot \<le> pcv"
    using that first by (cases slots) auto
  have forward: "\<not> sint (slot_pc slot - last_pc) < 0"
    using forward_difference [of last_pc "slot_pc slot"] Cons.prems(2) by auto
  show ?case
  proof (cases "slot_line slot < 0 \<or> slot_line slot = last_line")
    case True
    then show ?thesis
      using Cons.IH [OF sorted rest] stop by (cases "slot_pc slot \<le> pcv") auto
  next
    case False
    then show ?thesis
      using Cons.IH [OF sorted, of "slot_pc slot" "slot_line slot"] first rest stop forward
      by (cases "slot_pc slot \<le> pcv") (auto simp: not_le)
  qed
qed simp

lemma table_bytes_empty:
  assumes "sorted (map slot_pc slots)" and "\<forall>x \<in> set slots. last_pc \<le> slot_pc x \<and> slot_pc x < 0x80000000"
  shows "table_bytes last_pc last_line slots = [] \<longleftrightarrow>
    (\<forall>x \<in> set slots. slot_line x < 0 \<or> slot_line x = last_line)"
  using assms
proof (induction slots arbitrary: last_pc last_line)
  case (Cons slot slots)
  have "\<not> sint (slot_pc slot - last_pc) < 0"
    using forward_difference [of last_pc "slot_pc slot"] Cons.prems(2) by auto
  moreover have "entry_bytes k l \<noteq> []" for k l by (simp add: entry_bytes_def)
  ultimately show ?case using Cons by auto
qed simp

section \<open>The properties\<close>

text \<open>C36: the LEB128 codes are read back: what \<open>dbuf_put_leb128\<close> and \<open>dbuf_put_sleb128\<close> append to
  a buffer, for any 32-bit value, is one to five bytes that \<open>get_leb128\<close> and \<open>get_sleb128\<close>
  consume exactly, whatever follows them, and that give the value.\<close>

theorem leb128_round_trip:
  assumes "dbuf_wf s" and "dbuf_put_leb128 s v = Some s1" and "\<not> dbuf_error s1"
    and "dbuf_put_sleb128 s1 w = Some s2" and "\<not> dbuf_error s2"
  shows "\<exists>c d. dbuf_data s2 = dbuf_data s @ c @ d \<and> length c \<in> {1..5} \<and> length d \<in> {1..5} \<and>
    (\<forall>rest. get_leb128 (c @ rest) = (int (length c), v) \<and> get_sleb128 (d @ rest) = (int (length d), w))"
proof (intro exI conjI allI)
  have c: "dbuf_puts s (map (\<lambda>b. [b]) (leb_bytes v)) = Some s1"
    and d: "dbuf_puts s1 (map (\<lambda>b. [b]) (leb_bytes (zigzag w))) = Some s2"
    using assms(2,4) by (simp_all add: dbuf_put_leb128_bytes dbuf_put_sleb128_def flip: zigzag_def)
  have s1: "dbuf_wf s1 \<and> dbuf_data s1 = dbuf_data s @ leb_bytes v"
    using dbuf_puts_cases [OF assms(1), of "map (\<lambda>b. [b]) (leb_bytes v)"] c assms(3)
    by (auto simp: dbuf_error_def concat_singletons)
  then show "dbuf_data s2 = dbuf_data s @ leb_bytes v @ leb_bytes (zigzag w)"
    using dbuf_puts_cases [of s1 "map (\<lambda>b. [b]) (leb_bytes (zigzag w))"] d assms(5)
    by (auto simp: dbuf_error_def concat_singletons)
  show "length (leb_bytes v) \<in> {1..5}" and "length (leb_bytes (zigzag w)) \<in> {1..5}"
    by (rule leb_bytes_length)+
qed (simp_all add: get_leb128_bytes get_sleb128_bytes)

theorem leb128_round_trip_witness:
  "\<exists>s1 s2 c d. dbuf_put_leb128 (dbuf_init2 (\<lambda>b n. Some (take n b @ replicate (n - length b) 0))) 300 = Some s1 \<and>
    dbuf_put_sleb128 s1 (-2) = Some s2 \<and> dbuf_data s2 = c @ d \<and>
    (\<forall>rest. get_leb128 (c @ rest) = (int (length c), 300) \<and> get_sleb128 (d @ rest) = (int (length d), -2))"
proof -
  define f where "f = (\<lambda>b n. Some (take n b @ replicate (n - length b) (0 :: u8)))"
  have law: "realloc_law f"
    by (auto simp: realloc_law_def f_def min_def)
  have "dbuf_put_leb128 (dbuf_init2 f) 300 \<noteq> None"
    and "case dbuf_put_leb128 (dbuf_init2 f) 300 of None \<Rightarrow> False | Some s1 \<Rightarrow> \<not> dbuf_error s1 \<and>
      (case dbuf_put_sleb128 s1 (-2) of None \<Rightarrow> False | Some s2 \<Rightarrow> \<not> dbuf_error s2)"
    unfolding f_def by code_simp+
  then obtain s1 s2 where run: "dbuf_put_leb128 (dbuf_init2 f) 300 = Some s1" "\<not> dbuf_error s1"
    "dbuf_put_sleb128 s1 (-2) = Some s2" "\<not> dbuf_error s2"
    by (auto split: option.splits)
  have "dbuf_wf (dbuf_init2 f)" and "dbuf_data (dbuf_init2 f) = []"
    using dbuf_init2_wf [OF law] by simp_all
  then show ?thesis
    using leb128_round_trip [OF _ run] run unfolding f_def by auto
qed

text \<open>C35: the line number table: whatever slots the compiler has recorded, in the order of their
  positions, \<open>find_line_num\<close> on the function that is created with the table of
  \<open>compute_pc2line_info\<close> gives for every position the line of the last slot at or before it that has
  a line, or the first line of the function if there is none; short and long entries, repeated lines
  and lines that go back included. The exception is a function none of whose slots is off its first
  line: its table is empty, the buffer of the table is a null pointer, and the answer is -1, as for
  a function without debugging information. The table is taken to have been written without a
  failure of the allocator.\<close>

theorem find_line_num_finds_slot:
  assumes "realloc_law (fd_alloc s)" and "compute_pc2line_info s = Some s'"
    and "fd_line_number_slots s = Some slots" and "(fd_js_mode s AND JS_MODE_STRIP) = 0"
    and "\<not> dbuf_error (fd_pc2line s')"
    and "sorted (map slot_pc slots)" and "\<forall>x \<in> set slots. slot_pc x < 0x80000000"
  shows "\<exists>b. create_debug s' = Some b \<and> find_line_num b pc_value = Some
    (if \<forall>x \<in> set slots. slot_line x < 0 \<or> slot_line x = fd_line_num s then -1
     else word_of_int (last (fd_line_num s # map slot_line
       (filter (\<lambda>x. 0 \<le> slot_line x) (takeWhile (\<lambda>x. slot_pc x \<le> pc_value) slots)))))"
proof -
  have range: "\<forall>x \<in> set slots. 0 \<le> slot_pc x \<and> slot_pc x < 0x80000000"
    using assms(7) by simp
  show ?thesis
    using find_line_num_created [OF assms(1-5), of pc_value]
    unfolding find_line_table line_at_sorted [OF assms(6) range] table_bytes_empty [OF assms(6) range] .
qed

definition sample_def :: "line_slot list \<Rightarrow> function_def" where
  "sample_def slots =
     \<lparr>fd_alloc = (\<lambda>b n. Some (take n b @ replicate (n - length b) 0)), fd_js_mode = 1, fd_line_num = 10,
      fd_line_number_slots = Some slots, fd_pc2line = dbuf_init2 (\<lambda>b n. None)\<rparr>"

definition three_slots :: "line_slot list" where
  "three_slots = [\<lparr>slot_pc = 0, slot_line = 10\<rparr>, \<lparr>slot_pc = 7, slot_line = 12\<rparr>, \<lparr>slot_pc = 90, slot_line = 11\<rparr>]"

definition one_line_slots :: "line_slot list" where
  "one_line_slots = [\<lparr>slot_pc = 0, slot_line = 10\<rparr>, \<lparr>slot_pc = 7, slot_line = 10\<rparr>]"

theorem find_line_num_finds_slot_witness:
  "(\<exists>s' b. compute_pc2line_info (sample_def three_slots) = Some s' \<and> create_debug s' = Some b \<and>
     find_line_num b 89 = Some 12) \<and>
   (\<exists>s' b. compute_pc2line_info (sample_def one_line_slots) = Some s' \<and> create_debug s' = Some b \<and>
     find_line_num b 8 = Some (-1))"
proof -
  have law: "realloc_law (fd_alloc (sample_def slots))" for slots
    by (auto simp: realloc_law_def sample_def_def min_def)
  have "case compute_pc2line_info (sample_def three_slots) of None \<Rightarrow> False | Some s \<Rightarrow> \<not> dbuf_error (fd_pc2line s)"
    "case compute_pc2line_info (sample_def one_line_slots) of None \<Rightarrow> False | Some s \<Rightarrow> \<not> dbuf_error (fd_pc2line s)"
    by code_simp+
  then obtain s1 s2 where s: "compute_pc2line_info (sample_def three_slots) = Some s1" "\<not> dbuf_error (fd_pc2line s1)"
    "compute_pc2line_info (sample_def one_line_slots) = Some s2" "\<not> dbuf_error (fd_pc2line s2)"
    by (auto split: option.splits)
  have def: "fd_line_number_slots (sample_def slots) = Some slots" "(fd_js_mode (sample_def slots) AND JS_MODE_STRIP) = 0"
    "fd_line_num (sample_def slots) = 10" for slots
    by (simp_all add: sample_def_def JS_MODE_STRIP_def)
  have "sorted (map slot_pc three_slots)" "\<forall>x \<in> set three_slots. slot_pc x < 0x80000000"
    "sorted (map slot_pc one_line_slots)" "\<forall>x \<in> set one_line_slots. slot_pc x < 0x80000000"
    by (simp_all add: three_slots_def one_line_slots_def)
  then have "\<exists>b. create_debug s1 = Some b \<and> find_line_num b 89 = Some 12"
    "\<exists>b. create_debug s2 = Some b \<and> find_line_num b 8 = Some (-1)"
    using find_line_num_finds_slot [OF law s(1) def(1,2) s(2), of 89]
      find_line_num_finds_slot [OF law s(3) def(1,2) s(4), of 8]
    by (simp_all add: def(3) three_slots_def one_line_slots_def)
  with s show ?thesis by blast
qed

end
