(* ===== verification/Spec2Isabelle.thy ===== *)
theory Spec2Isabelle
  imports RegexpSearch RegexpClass RegexpWords RegexpFlaws TypedArraySort ListHead UnicodeIndex CaseConv NormalizeProps UnicodePropSets LimbDiv AtomRelease AtomNumbers CycleGC Dates LineNumbers
begin

text \<open>
  \<^bold>\<open>What is modelled.\<close> The C run-time of the JavaScript engine QuickJS 2021-03-27, in
  \<^verbatim>\<open>src/jsexecutor/src/main/cpp/quickjs/\<close> (file names below are relative to it), which the
  application embeds as its executor. The engine is built in layers: \<^verbatim>\<open>cutils.c\<close> and
  \<^verbatim>\<open>list.h\<close> are the utilities; \<^verbatim>\<open>libunicode.c\<close> holds the Unicode data and its
  algorithms, used by the regular expression compiler (\<^verbatim>\<open>libregexp.c\<close>) and by the string
  built-ins; \<^verbatim>\<open>libbf.c\<close> is the arithmetic of \<open>BigInt\<close> and \<open>BigFloat\<close>;
  \<^verbatim>\<open>quickjs.c\<close> is the engine: objects with reference counts and a cycle collector, parser,
  byte-code interpreter and built-ins. The development goes from the bottom up.

  \<^bold>\<open>Conventions.\<close> A function of the program is a function of HOL of the same name. Machine
  integers are words (\<open>u8\<close>, \<open>u16\<close>, \<open>u32\<close>, \<open>u64\<close>) where wrap-around or bits matter,
  otherwise \<open>int\<close> or \<open>nat\<close>. Memory is a list, read and written with \<open>rd\<close> and \<open>wr\<close>
  of \<open>QPrelude\<close>. The outermost \<open>None\<close> of an option result always is undefined behaviour of C or
  a failed assertion: an access outside the object, a null pointer, a union read at the wrong member.
  Error codes of the program are returned values. An allocation that may fail is an argument (the
  field \<open>cr_realloc_func\<close>, \<open>db_realloc\<close>), as it is a function pointer in the code, or the list or flags of
  its outcomes; a theorem that allows a failure says which allocation has to fail for it
  (\<open>alloc_total\<close>, \<open>grow_fails\<close>).
  Loops are structural recursion or \<open>function\<close> with a measure; a loop that may not end is a
  \<open>partial_function\<close> whose end is a theorem (\<open>correct_loop\<close>, \<open>alternate_loop\<close>, the
  loops of the collector; \<open>script_fail\<close> really does not end, nor need \<open>lre_exec_backtrack\<close>).

  \<^bold>\<open>Utilities.\<close>
  \<^item> \<open>Cutils\<close> (\<^verbatim>\<open>cutils.c\<close>, \<^verbatim>\<open>cutils.h\<close>): C-string helpers, \<open>DynBuf\<close>, the UTF-8 codec,
    unaligned accesses. Lemmas: the codec is a round trip and accepts only shortest forms, the
    decoder stays in its buffer, a buffer appends exactly or sets its error flag, \<open>pstrcpy\<close>
    truncates in bounds.
  \<^item> \<open>ListHead\<close> (\<^verbatim>\<open>list.h\<close>): the doubly linked ring on an explicit heap of nodes; every
    sequence of operations refines the operations on the abstract list (\<open>list_ops_refine\<close>). The macros
    \<open>list_for_each_safe\<close> and \<open>list_for_each_prev_safe\<close> are not modelled.
  \<^item> \<open>Rqsort\<close>, \<open>RqsortFun\<close>, \<open>RqsortOrder\<close> (\<^verbatim>\<open>cutils.c\<close>): \<open>rqsort\<close> with its explicit
    stack of 50 segments, every access checked in \<open>Rqsort\<close>; \<open>RqsortFun\<close> has the same operations with
    unchecked accesses, to which those of \<open>Rqsort\<close> are equal inside the array (\<open>rqsort_in\<close>). For
    \<^emph>\<open>any\<close> comparison function it ends within the array and the stack and permutes (the depth limit is 50
    and each level pushes at most one segment); for a total preorder, stated by the locale
    \<open>comparator\<close>, it sorts.
  \<^item> \<open>TypedArraySort\<close> (\<^verbatim>\<open>quickjs.c\<close>): the comparison functions that the engine passes to it
    (typed arrays, property keys) as interpretations of that locale, and
    \<open>TypedArray.prototype.sort\<close>, which with a user function is stable because ties are broken by the
    index, and throws when one of its two allocations fails. A user function that throws or detaches the
    array is not modelled.

  \<^bold>\<open>Unicode.\<close>
  \<^item> \<open>CharRange\<close> (\<^verbatim>\<open>libunicode.c\<close>, \<^verbatim>\<open>libunicode.h\<close>): sets of code points as sorted arrays of
    interval bounds; \<open>cr_op\<close> and \<open>cr_invert\<close> compute the set operations in canonical form,
    and fail only with an allocator that can fail. Sizes are natural numbers, except for the product in
    \<open>cr_realloc\<close>, which wraps as an \<open>int\<close>.
  \<^item> \<open>UnicodeTables\<close>, \<open>UnicodePropTables\<close> (\<^verbatim>\<open>libunicode-table.h\<close>): the tables, entry by entry.
  \<^item> \<open>UnicodeIndex\<close>: the search of a run-length table by its index agrees with the
    expansion of the table, for every table of the generated format and for the real ones.
  \<^item> \<open>CaseConv\<close>: \<open>lre_case_conv\<close> and \<open>lre_is_cased\<close> on the real tables.
  \<^item> \<open>Normalize\<close>, \<open>NormalizeProps\<close>: \<open>unicode_normalize\<close>; the decomposition tables are an
    argument with the hypothesis that they decrease a rank, the combining classes are the real ones. The
    buffers are lists that grow without failure, and the two elements of the pair that
    \<open>unicode_compose_pair\<close> fills are not an array whose end is checked.
  \<^item> \<open>UnicodeProps\<close> (the functions), \<open>UnicodeRuns\<close>, \<open>UnicodeSets\<close>, \<open>UnicodePropSem\<close>,
    \<open>UnicodeCase1\<close> (their tables pointwise) and \<open>UnicodePropSets\<close> (the theorems): scripts,
    general categories, the stack machine of the derived properties (a stack of 4 ranges, checked
    by the code) and \<open>unicode_prop\<close>. The locales \<open>run_format\<close> and \<open>run_adder\<close> hold what the
    loops over tables of runs share, and every table interprets them; the stack machine refines a
    machine on predicates.

  \<^bold>\<open>Regular expressions\<close> (\<^verbatim>\<open>libregexp.c\<close>, \<^verbatim>\<open>libregexp-opcode.h\<close>).
  \<^item> \<open>RegexpChars\<close>: the accesses to a subject of 8-bit or 16-bit units (surrogate pairs
    included), case folding, the binary search of a class. \<open>RegexpExec\<close>: the interpreter, one
    definition \<open>re_step\<close> for the effect of an opcode and \<open>lre_exec_backtrack\<close> for the loop with its
    stack of states to come back to. That loop really may not end, and is a \<open>partial_function\<close>. The body of
    a simple quantifier, for which the code calls its loop again, is \<open>simple_exec\<close>: it has the opcodes
    that \<open>re_is_simple_quantifier\<close> admits there, any other one is \<open>None\<close>.
  \<^item> \<open>RegexpSearch\<close>: the inductive relation \<open>search\<close>, backtracking without an explicit stack,
    is what \<open>lre_exec\<close> computes, for every byte code; the effect of failing allocations; the captures
    stay in the subject. \<open>RegexpQuant\<close>: the loop of a simple greedy quantifier and the way back, for a start
    that is not inside a surrogate pair.
  \<^item> \<open>RegexpEmit\<close>, \<open>RegexpScan\<close>, \<open>RegexpCompile\<close>: the compiler. Errors are the left values of
    \<open>parsed\<close>, with the message of the program. \<open>and_then\<close> is the test of a return code. The parser state is
    the record \<open>REParseState\<close>, the code a \<open>DynBuf\<close>. The argument \<open>depth\<close> of \<open>lre_compile\<close> is the
    number of nested groups that \<open>lre_check_stack_overflow\<close>, a function of the embedding program, admits.
  \<^item> \<open>RegexpClass\<close>: the code of a class against the class, the built-in classes against the
    tests on characters. \<open>RegexpWords\<close>: compiler and interpreter composed, on patterns of ordinary
    characters. \<open>RegexpFlaws\<close>: patterns on which the engine departs from the language; that
    an execution does not end is stated on the turns of its loop (\<open>exec_turn\<close>), each of which is defined.

  \<^bold>\<open>Arithmetic.\<close> \<open>Limbs\<close>, \<open>LimbDiv\<close> (\<^verbatim>\<open>libbf.c\<close>): natural numbers as arrays of
  64-bit limbs (\<open>LIMB_BITS\<close> = 64, the 64-bit build), addition, subtraction, shifts, schoolbook
  multiplication and division. \<open>val\<close> is the number of an array; every operation is stated as an
  equation between numbers, with its carry. The locale \<open>limb_divider\<close> is the division of two limbs by
  one, with the two implementations the code chooses between from \<open>UDIV1NORM_THRESHOLD\<close> = 3 limbs on;
  \<open>mp_divnorm_large\<close>, used from \<open>DIVNORM_LARGE_THRESHOLD\<close> = 50 limbs on, is an argument.

  \<^bold>\<open>Atoms.\<close> \<open>Atoms\<close> (\<^verbatim>\<open>quickjs.c\<close>): the table of property names and symbols, an array with
  a free list in it and a hash table whose chains run through the strings of a heap. \<open>AtomChains\<close>: searching
  the chains and moving them to a larger table. \<open>AtomTable\<close>: the invariant \<open>atoms_ok\<close> of the table and of
  the count of its atoms, and interning as an operation on the map \<open>key_at\<close> from numbers to strings, which
  fails exactly when the array has to grow and cannot. \<open>AtomRelease\<close>: the release of an atom as the
  removal from that map. \<open>AtomNumbers\<close>: the strings that are numbers. Hash chains are followed by \<open>partial_function\<close>s,
  which return under the invariant; the length of the table is below the overflow of \<open>atom_size * 3\<close>.

  \<^bold>\<open>Cycle collector.\<close>
  \<^item> \<open>GCHeap\<close> (\<^verbatim>\<open>quickjs.c\<close>): the collectable objects as a datatype (objects with their
    shape, properties and class payload, function byte code, shapes, variable references, async
    functions, contexts), \<open>JS_MarkValue\<close>, the marking function of every class, \<open>JS_MarkContext\<close>
    and \<open>mark_children\<close>. \<open>heap_ok\<close> types the heap; on a typed heap marking visits collectable headers
    only.
  \<^item> \<open>CycleGC\<close>: \<open>gc_decref\<close> and \<open>gc_scan\<close> with the cursors of their list loops. The
    invariants \<open>decref_inv\<close> and \<open>scan_inv\<close> lead to: no failed assertion, exactly the objects not
    reachable from an externally referenced one are on the list of objects to free, and all counts
    are restored. Counts are \<open>int\<close>: they never exceed their initial values, so the 32 bits do
    not overflow.

  \<^bold>\<open>Dates.\<close> \<open>Dates\<close> (\<^verbatim>\<open>quickjs.c\<close>): the calendar functions, \<open>get_date_fields\<close> and
  \<open>set_date_fields\<close>, inverse to each other on valid time values and valid dates. The loop that corrects
  the first approximation of the year ends from any approximation. Fields are integers; the doubles of
  the code hold them exactly in the ranges the theorems speak of.

  \<^bold>\<open>Line numbers.\<close> \<open>LineNumbers\<close> (\<^verbatim>\<open>quickjs.c\<close>): the LEB128 codes on the \<open>DynBuf\<close> of
  \<open>Cutils\<close>, the table from byte-code positions to lines that the compiler writes and the reader of
  the error messages; the reader finds the line of the last slot before a position, or -1 when the table is
  empty and its buffer a null pointer.

  \<^bold>\<open>Not modelled.\<close> Release of memory (\<open>cr_free\<close>, \<open>dbuf_free\<close>, \<open>gc_free_cycles\<close> and the
  finalizers), formatted printing, the number theoretic transform, floating-point and decimal layers of
  \<^verbatim>\<open>libbf.c\<close>, the dump of the byte code of a regular expression and \<open>lre_get_groupnames\<close>, the parser, the interpreter loop and the other built-ins of
  \<^verbatim>\<open>quickjs.c\<close>, the command line programs and the host bindings in C++, Java and Kotlin (glue
  around the engine). Candidates for extension, in order: the shapes of
  \<^verbatim>\<open>quickjs.c\<close>, rounding and square roots of \<^verbatim>\<open>libbf.c\<close>.
\<close>

end
